(* ===== verification/Prelude.thy ===== *)
theory Prelude
  imports Main "HOL-Library.Word" "HOL-Library.Monad_Syntax"
begin

text \<open>
  The vocabulary every component shares: addresses and byte memory, C integers with the
  conversions the code relies on, C strings, and the ``first slot that satisfies a test'' loop
  that the kernel writes out six times over its fixed tables.
\<close>

section \<open>Types\<close>

text \<open>
  A C \<open>int\<close> is an \<open>int\<close>; where the code converts a wider value to \<open>int\<close> the
  wrap-around is written out with \<open>to_int32\<close>.  Addresses are \<open>nat\<close>s below \<open>2 ^ 64\<close> and the
  wrap-around of pointer subtraction is written out with \<open>usub64\<close>.  A C \<open>char\<close> is
  an Isabelle \<open>char\<close>, with \<open>schar\<close> its signed reading.
\<close>

type_synonym addr = nat
type_synonym mem = "addr \<Rightarrow> char"
type_synonym u8 = "8 word"
type_synonym u16 = "16 word"

abbreviation NUL :: char where "NUL \<equiv> CHR 0x00"
abbreviation (input) NULL :: addr where "NULL \<equiv> 0"

definition to_int32 :: "int \<Rightarrow> int" where
  "to_int32 x = (x + 2 ^ 31) mod 2 ^ 32 - 2 ^ 31"

definition to_uint64 :: "int \<Rightarrow> nat" where
  "to_uint64 x = nat (x mod 2 ^ 64)"

definition usub64 :: "nat \<Rightarrow> nat \<Rightarrow> nat" where
  "usub64 a b = (a + 2 ^ 64 - b) mod 2 ^ 64"

definition schar :: "char \<Rightarrow> int" where
  "schar c = (let n = (of_char c :: int) in if n < 128 then n else n - 256)"

named_theorems kdefs \<open>definitions of kernel operations, unfolded for symbolic execution\<close>
named_theorems consts_defs \<open>constants of the C headers\<close>

lemma to_int32_id [simp]: "- (2 ^ 31) \<le> x \<Longrightarrow> x < 2 ^ 31 \<Longrightarrow> to_int32 x = x"
  by (simp add: to_int32_def)

lemma to_int32_range: "- (2 ^ 31) \<le> to_int32 x \<and> to_int32 x < 2 ^ 31"
proof -
  have "0 \<le> (x + 2 ^ 31) mod (2 ^ 32 :: int)" "(x + 2 ^ 31) mod (2 ^ 32 :: int) < 2 ^ 32"
    by simp_all
  then show ?thesis by (simp add: to_int32_def)
qed

lemma to_uint64_id [simp]: "0 \<le> x \<Longrightarrow> x < 2 ^ 64 \<Longrightarrow> to_uint64 x = nat x"
  by (simp add: to_uint64_def)

lemma usub64_ge [simp]: "b \<le> a \<Longrightarrow> a < 2 ^ 64 \<Longrightarrow> usub64 a b = a - b"
proof -
  assume "b \<le> a" "a < 2 ^ 64"
  then have "a + 2 ^ 64 - b = (a - b) + 2 ^ 64" "a - b < 2 ^ 64" by simp_all
  then show ?thesis unfolding usub64_def by (metis mod_add_self2 mod_less)
qed

lemma schar_inj: "schar a = schar b \<longleftrightarrow> a = b"
proof
  have bound: "(of_char c :: int) < 256 \<and> 0 \<le> (of_char c :: int)" for c
    by (metis of_char_of of_nat_0_le_iff of_nat_of_char nat_of_char_less_256 of_nat_less_numeral_iff)
  assume "schar a = schar b"
  then have "(of_char a :: int) = of_char b"
    using bound[of a] bound[of b] by (auto simp: schar_def Let_def split: if_splits)
  then show "a = b" by simp
qed simp

section \<open>The first slot that satisfies a test\<close>

text \<open>
  \<open>for(i = lo; i < lo + n; i++) if(P(i)) return i;\<close> with the sentinel returned after the
  loop turned into \<open>None\<close>.
\<close>

primrec scan :: "(int \<Rightarrow> bool) \<Rightarrow> int \<Rightarrow> nat \<Rightarrow> int option" where
  "scan P lo 0 = None"
| "scan P lo (Suc n) = (if P lo then Some lo else scan P (lo + 1) n)"

lemma scan_Some:
  "scan P lo n = Some i \<longleftrightarrow> lo \<le> i \<and> i < lo + int n \<and> P i \<and> (\<forall>j. lo \<le> j \<and> j < i \<longrightarrow> \<not> P j)"
proof (induction n arbitrary: lo)
  case 0
  show ?case by simp
next
  case (Suc n)
  show ?case
  proof (cases "P lo")
    case True
    then show ?thesis by force
  next
    case False
    have "(\<forall>j. lo \<le> j \<and> j < i \<longrightarrow> \<not> P j) \<longleftrightarrow> (\<forall>j. lo + 1 \<le> j \<and> j < i \<longrightarrow> \<not> P j)"
      using False by (metis add1_zle_eq order_le_less)
    moreover have "lo \<le> i \<and> P i \<longleftrightarrow> lo + 1 \<le> i \<and> P i"
      using False by (metis add1_zle_eq order_le_less)
    ultimately show ?thesis using False Suc.IH[of "lo + 1"] by auto
  qed
qed

lemma scan_None:
  "scan P lo n = None \<longleftrightarrow> (\<forall>i. lo \<le> i \<and> i < lo + int n \<longrightarrow> \<not> P i)"
proof (induction n arbitrary: lo)
  case 0
  show ?case by auto
next
  case (Suc n)
  have range: "lo \<le> i \<and> i < lo + int (Suc n) \<longleftrightarrow> i = lo \<or> (lo + 1 \<le> i \<and> i < lo + 1 + int n)" for i
    by auto
  have "(\<forall>i. lo \<le> i \<and> i < lo + int (Suc n) \<longrightarrow> \<not> P i) \<longleftrightarrow>
      \<not> P lo \<and> (\<forall>i. lo + 1 \<le> i \<and> i < lo + 1 + int n \<longrightarrow> \<not> P i)"
    unfolding range by blast
  then show ?case using Suc.IH[of "lo + 1"] by auto
qed

lemma scan_cong:
  "(\<And>i. lo \<le> i \<Longrightarrow> i < lo + int n \<Longrightarrow> P i = Q i) \<Longrightarrow> scan P lo n = scan Q lo n"
  by (induction n arbitrary: lo) auto

lemma scan_head [simp]: "0 < n \<Longrightarrow> P lo \<Longrightarrow> scan P lo n = Some lo"
  by (cases n) auto

definition scan_or :: "int \<Rightarrow> (int \<Rightarrow> bool) \<Rightarrow> nat \<Rightarrow> int" where
  "scan_or d P n = (case scan P 0 n of Some i \<Rightarrow> i | None \<Rightarrow> d)"

text \<open>
  The contract of these loops, stated once: over a table of \<open>size\<close> slots the search returns the
  least free slot, or the sentinel (a negative number) exactly when no slot is free.
\<close>

locale slot_search =
  fixes search :: "'t \<Rightarrow> int"
    and is_free :: "'t \<Rightarrow> int \<Rightarrow> bool"
    and size :: int
    and sentinel :: int
  assumes sentinel_neg: "sentinel < 0"
    and found: "search t \<noteq> sentinel \<Longrightarrow>
      0 \<le> search t \<and> search t < size \<and> is_free t (search t)"
    and least: "0 \<le> j \<Longrightarrow> j < search t \<Longrightarrow> \<not> is_free t j"
    and full: "search t = sentinel \<Longrightarrow> 0 \<le> j \<Longrightarrow> j < size \<Longrightarrow> \<not> is_free t j"
begin

lemma sentinel_iff_full: "search t = sentinel \<longleftrightarrow> (\<forall>j. 0 \<le> j \<and> j < size \<longrightarrow> \<not> is_free t j)"
  using found full by blast

lemma search_unique:
  assumes "0 \<le> i" "i < size" "is_free t i" "\<And>j. 0 \<le> j \<Longrightarrow> j < i \<Longrightarrow> \<not> is_free t j"
  shows "search t = i"
proof -
  have ns: "search t \<noteq> sentinel" using assms full by blast
  then have "0 \<le> search t" "is_free t (search t)" using found by blast+
  moreover have "\<not> search t < i" using calculation assms(4) by blast
  moreover have "\<not> i < search t" using assms least by blast
  ultimately show ?thesis by linarith
qed

lemma search_le: "0 \<le> i \<Longrightarrow> i < size \<Longrightarrow> is_free t i \<Longrightarrow> 0 \<le> search t \<and> search t \<le> i"
  using full found least by (metis leI)

end

lemma scan_or_cases:
  obtains i where "scan_or d P n = i" "0 \<le> i" "i < int n" "P i" "\<forall>j. 0 \<le> j \<and> j < i \<longrightarrow> \<not> P j"
  | "scan_or d P n = d" "\<forall>i. 0 \<le> i \<and> i < int n \<longrightarrow> \<not> P i"
proof (cases "scan P 0 n")
  case None
  then show ?thesis using that(2) scan_None[of P 0 n] by (simp add: scan_or_def)
next
  case (Some i)
  then show ?thesis using that(1) scan_Some[of P 0 n i] by (simp add: scan_or_def)
qed

lemma scan_or_slot_search:
  assumes "d < 0"
  shows "slot_search (\<lambda>t. scan_or d (P t) n) P (int n) d"
proof
  show "d < 0" by (rule assms)
  fix t j
  show "scan_or d (P t) n \<noteq> d \<Longrightarrow>
      0 \<le> scan_or d (P t) n \<and> scan_or d (P t) n < int n \<and> P t (scan_or d (P t) n)"
    by (rule scan_or_cases[of d "P t" n]) simp_all
  show "0 \<le> j \<Longrightarrow> j < scan_or d (P t) n \<Longrightarrow> \<not> P t j"
    using assms by (rule_tac scan_or_cases[of d "P t" n]) auto
  show "scan_or d (P t) n = d \<Longrightarrow> 0 \<le> j \<Longrightarrow> j < int n \<Longrightarrow> \<not> P t j"
    using assms by (rule_tac scan_or_cases[of d "P t" n]) auto
qed

section \<open>Character buffers\<close>

text \<open>
  A \<open>char[n]\<close> field is a list of \<open>n\<close> characters; the C string in it ends before the first NUL.
  \<open>buf_write\<close> is \<open>memcpy(buf, src, length)\<close> into the start of the field.
\<close>

definition cstr :: "char list \<Rightarrow> string" where
  "cstr buf = takeWhile (\<lambda>c. c \<noteq> NUL) buf"

definition buf_write :: "char list \<Rightarrow> string \<Rightarrow> char list" where
  "buf_write buf src = src @ drop (length src) buf"

lemma length_buf_write [simp]: "length src \<le> length buf \<Longrightarrow> length (buf_write buf src) = length buf"
  by (simp add: buf_write_def)

lemma cstr_no_NUL: "NUL \<notin> set (cstr buf)"
  by (auto simp: cstr_def dest: set_takeWhileD)

lemma cstr_id: "NUL \<notin> set s \<Longrightarrow> cstr s = s"
  unfolding cstr_def by (rule takeWhile_eq_all_conv [THEN iffD2]) metis

lemma cstr_buf_write:
  assumes "NUL \<notin> set src"
  shows "cstr (buf_write buf src) = src @ cstr (drop (length src) buf)"
proof -
  have "\<And>c. c \<in> set src \<Longrightarrow> c \<noteq> NUL" using assms by blast
  then show ?thesis by (simp add: cstr_def buf_write_def)
qed

end
