(* ===== verification/KMonad.thy ===== *)
theory KMonad
  imports Prelude
begin

text \<open>
  Kernel code as a state monad with three outcomes: it finishes, it gives up the processor
  (\<open>yield()\<close>, software interrupt \<open>0x40\<close>) keeping the rest of its work as a continuation, or it
  does what C leaves undefined.  System calls are entered through an interrupt gate (attributes
  \<open>0x8E\<close> in \<open>iSetHandler\<close>), so between two yields kernel code is not interrupted and one
  outcome is one atomic step; other threads run only between a \<open>Yield\<close> and the call of its
  continuation.
\<close>

datatype fault = NullDeref | OutOfBounds | Diverges | Undefined

datatype (dead 's, 'a) outcome =
    Done 'a 's
  | Yield 's "'s \<Rightarrow> ('s, 'a) outcome"
  | Fault fault

type_synonym ('s, 'a) K = "'s \<Rightarrow> ('s, 'a) outcome"

primrec obind :: "('s, 'a) outcome \<Rightarrow> ('a \<Rightarrow> ('s, 'b) K) \<Rightarrow> ('s, 'b) outcome" where
  "obind (Done a s) f = f a s"
| "obind (Yield s k) f = Yield s (\<lambda>s'. obind (k s') f)"
| "obind (Fault e) f = Fault e"

definition kret :: "'a \<Rightarrow> ('s, 'a) K" where
  "kret a = (\<lambda>s. Done a s)"

definition kbind :: "('s, 'a) K \<Rightarrow> ('a \<Rightarrow> ('s, 'b) K) \<Rightarrow> ('s, 'b) K" where
  "kbind m f = (\<lambda>s. obind (m s) f)"

definition kskip :: "('s, unit) K" where
  "kskip = kret ()"

text \<open>\<open>kdo [a, b, c]\<close> is the statement list \<open>a; b; c;\<close>, and \<open>kthen ms m\<close> ends one with \<open>return\<close>.\<close>

primrec kdo :: "('s, unit) K list \<Rightarrow> ('s, unit) K" where
  "kdo [] = kskip"
| "kdo (m # ms) = kbind m (\<lambda>_. kdo ms)"

primrec kthen :: "('s, unit) K list \<Rightarrow> ('s, 'a) K \<Rightarrow> ('s, 'a) K" where
  "kthen [] r = r"
| "kthen (m # ms) r = kbind m (\<lambda>_. kthen ms r)"

definition kwhen :: "bool \<Rightarrow> ('s, unit) K list \<Rightarrow> ('s, unit) K" where
  "kwhen b ms = (if b then kdo ms else kskip)"

text \<open>Reading the state, changing it, and undefined behaviour.\<close>

definition kwith :: "('s \<Rightarrow> ('s, 'a) K) \<Rightarrow> ('s, 'a) K" where
  "kwith f = (\<lambda>s. f s s)"

definition kmod :: "('s \<Rightarrow> 's) \<Rightarrow> ('s, unit) K" where
  "kmod g = (\<lambda>s. Done () (g s))"

definition kfault :: "fault \<Rightarrow> ('s, 'a) K" where
  "kfault e = (\<lambda>s. Fault e)"

definition kgiveup :: "('s, unit) K" where
  "kgiveup = (\<lambda>s. Yield s (Done ()))"

text \<open>\<open>for(i = lo; i < lo + n; i++) body(i)\<close>\<close>

primrec kfor :: "int \<Rightarrow> nat \<Rightarrow> (int \<Rightarrow> ('s, unit) K) \<Rightarrow> ('s, unit) K" where
  "kfor lo 0 body = kskip"
| "kfor lo (Suc n) body = kbind (body lo) (\<lambda>_. kfor (lo + 1) n body)"

text \<open>\<open>while(cond) body\<close> for at most \<open>fuel\<close> rounds; a loop that wants more is \<open>Diverges\<close>.\<close>

primrec kwhile :: "nat \<Rightarrow> ('s \<Rightarrow> bool) \<Rightarrow> ('s, unit) K \<Rightarrow> ('s, unit) K" where
  "kwhile 0 c body = kfault Diverges"
| "kwhile (Suc n) c body =
     kwith (\<lambda>s. if c s then kbind body (\<lambda>_. kwhile n c body) else kskip)"

lemma kret_app [simp]: "kret a s = Done a s" by (simp add: kret_def)
lemma kskip_app [simp]: "kskip s = Done () s" by (simp add: kskip_def)
lemma kbind_app [simp]: "kbind m f s = obind (m s) f" by (simp add: kbind_def)
lemma kwith_app [simp]: "kwith f s = f s s" by (simp add: kwith_def)
lemma kmod_app [simp]: "kmod g s = Done () (g s)" by (simp add: kmod_def)
lemma kfault_app [simp]: "kfault e s = Fault e" by (simp add: kfault_def)
lemma kgiveup_app [simp]: "kgiveup s = Yield s (Done ())" by (simp add: kgiveup_def)

lemma if_app [simp]: "(if b then m else n) s = (if b then m s else n s)" by simp

lemma obind_assoc: "obind (obind r f) g = obind r (\<lambda>a s. obind (f a s) g)"
  by (induction r) auto

lemma obind_Done [simp]: "obind r Done = r"
  by (induction r) auto

lemma kbind_assoc: "kbind (kbind m f) g = kbind m (\<lambda>a. kbind (f a) g)"
  by (rule ext) (simp add: obind_assoc kbind_def)

lemma kret_bind: "kbind (kret a) f = f a"
  by (rule ext) simp

lemma bind_kret: "kbind (m :: ('s, 'a) K) kret = m"
proof
  fix s
  have "(kret :: 'a \<Rightarrow> 's \<Rightarrow> ('s, 'a) outcome) = Done" by (simp add: kret_def fun_eq_iff)
  then show "kbind m kret s = m s" by simp
qed

lemma kskip_eq: "kskip = Done ()"
  by (simp add: kskip_def kret_def fun_eq_iff)

lemma obind_kskip [simp]: "obind r (\<lambda>_. kskip) = r"
  by (induction r) auto

lemma kbind_kskip [simp]: "kbind m (\<lambda>_. kskip) = m"
  by (rule ext) simp

lemma obind_eq_Done:
  "obind r f = Done b t \<longleftrightarrow> (\<exists>a s. r = Done a s \<and> f a s = Done b t)"
  by (cases r) auto

lemma obind_eq_Fault:
  "obind r f = Fault e \<longleftrightarrow> r = Fault e \<or> (\<exists>a s. r = Done a s \<and> f a s = Fault e)"
  by (cases r) auto

text \<open>Every state an outcome can finish in satisfies \<open>Q\<close>, whatever runs between yields,
  provided \<open>R\<close> holds when control comes back.\<close>

inductive always :: "('s \<Rightarrow> bool) \<Rightarrow> ('a \<Rightarrow> 's \<Rightarrow> bool) \<Rightarrow> ('s, 'a) outcome \<Rightarrow> bool"
  for R :: "'s \<Rightarrow> bool" and Q :: "'a \<Rightarrow> 's \<Rightarrow> bool" where
  always_Done: "Q a s \<Longrightarrow> always R Q (Done a s)"
| always_Yield: "R s \<Longrightarrow> (\<And>s'. R s' \<Longrightarrow> always R Q (k s')) \<Longrightarrow> always R Q (Yield s k)"

inductive_simps always_Done_iff [simp]: "always R Q (Done a s)"
inductive_simps always_Yield_iff [simp]: "always R Q (Yield s k)"
inductive_simps always_Fault_iff [simp]: "always R Q (Fault e)"

lemma always_obind:
  "always R Q r \<Longrightarrow> (\<And>a s. Q a s \<Longrightarrow> always R P (f a s)) \<Longrightarrow> always R P (obind r f)"
  by (induction rule: always.induct) auto

lemma always_mono:
  "always R Q r \<Longrightarrow> (\<And>a s. Q a s \<Longrightarrow> P a s) \<Longrightarrow> always R P r"
  by (induction rule: always.induct) auto

text \<open>An invariant of the loop body is an invariant of the loop.\<close>

lemma always_kfor:
  assumes "I s" "\<And>i s. lo \<le> i \<Longrightarrow> i < lo + int n \<Longrightarrow> I s \<Longrightarrow> always I (\<lambda>_. I) (body i s)"
  shows "always I (\<lambda>_. I) (kfor lo n body s)"
  using assms
proof (induction n arbitrary: lo s)
  case 0
  then show ?case by simp
next
  case (Suc n)
  have "always I (\<lambda>_. I) (body lo s)" using Suc.prems by simp
  moreover have "always I (\<lambda>_. I) (kfor (lo + 1) n body s')" if "I s'" for s'
    using that Suc.prems by (intro Suc.IH) auto
  ultimately show ?case by (auto intro: always_obind)
qed

text \<open>A loop whose body always finishes, with an invariant that may mention the index.\<close>

lemma kfor_inv:
  assumes "I lo s"
    "\<And>i s. lo \<le> i \<Longrightarrow> i < lo + int n \<Longrightarrow> I i s \<Longrightarrow> \<exists>s'. body i s = Done () s' \<and> I (i + 1) s'"
  shows "\<exists>s'. kfor lo n body s = Done () s' \<and> I (lo + int n) s'"
  using assms
proof (induction n arbitrary: lo s)
  case 0
  then show ?case by simp
next
  case (Suc n)
  obtain s1 where s1: "body lo s = Done () s1" "I (lo + 1) s1" using Suc.prems(2)[of lo s] Suc.prems(1) by auto
  have "\<exists>s'. kfor (lo + 1) n body s1 = Done () s' \<and> I (lo + 1 + int n) s'"
    using Suc.prems(2) by (intro Suc.IH s1(2)) auto
  then show ?case using s1(1) by (simp add: algebra_simps)
qed

end
