(* ===== verification/Buddy.thy ===== *)
theory Buddy
  imports Prelude
begin

text \<open>
  The buddy page allocator of \<open>Kernel/buddyMemoryAllocator.c\<close>: the complete binary tree stored in
  two arrays of \<open>HEAPSIZE\<close> cells, the search for a free block, the marking of a freed block on the way
  back to the root.  These are the parts that touch only the two arrays; the entry points that
  take the allocator's mutex are in \<open>Memory.thy\<close>.  An access outside the arrays is \<open>None\<close>.
\<close>

section \<open>The heap\<close>

datatype usage = FULLY_USED | HALF_USED | UNUSED | ALLOCATED

record buddyHeap_t =
  memoryBase :: "int \<Rightarrow> addr"
  blockUsage :: "int \<Rightarrow> usage"

definition PAGE_SIZE :: nat where "PAGE_SIZE = 0x1000"
definition PAGE_QUANTITY :: nat where "PAGE_QUANTITY = 2048"
definition HEAPSIZE :: int where "HEAPSIZE = 2 * int PAGE_QUANTITY - 1"
definition base :: addr where "base = 0x600000"

abbreviation (input) LEFT :: "int \<Rightarrow> int" where "LEFT x \<equiv> 2 * x"
abbreviation (input) RIGHT :: "int \<Rightarrow> int" where "RIGHT x \<equiv> 2 * x + 1"
abbreviation (input) PARENT :: "int \<Rightarrow> int" where "PARENT x \<equiv> x div 2"

lemmas heap_consts [simp] = PAGE_SIZE_def PAGE_QUANTITY_def HEAPSIZE_def base_def

text \<open>Reading and writing cell \<open>index - 1\<close>, as the code always does.\<close>

definition in_heap :: "int \<Rightarrow> bool" where
  "in_heap index \<longleftrightarrow> 1 \<le> index \<and> index \<le> HEAPSIZE"

definition usage_at :: "buddyHeap_t \<Rightarrow> int \<Rightarrow> usage" where
  "usage_at h index = blockUsage h (index - 1)"

definition base_at :: "buddyHeap_t \<Rightarrow> int \<Rightarrow> addr" where
  "base_at h index = memoryBase h (index - 1)"

definition set_usage :: "int \<Rightarrow> usage \<Rightarrow> buddyHeap_t \<Rightarrow> buddyHeap_t" where
  "set_usage index u h = h\<lparr>blockUsage := (blockUsage h)(index - 1 := u)\<rparr>"

definition set_base :: "int \<Rightarrow> addr \<Rightarrow> buddyHeap_t \<Rightarrow> buddyHeap_t" where
  "set_base index a h = h\<lparr>memoryBase := (memoryBase h)(index - 1 := a)\<rparr>"

lemma usage_at_set_usage [simp]: "usage_at (set_usage i u h) k = (if k = i then u else usage_at h k)"
  by (simp add: usage_at_def set_usage_def)
lemma usage_at_set_base [simp]: "usage_at (set_base i a h) k = usage_at h k"
  by (simp add: usage_at_def set_base_def)
lemma base_at_set_usage [simp]: "base_at (set_usage i u h) k = base_at h k"
  by (simp add: base_at_def set_usage_def)
lemma base_at_set_base [simp]: "base_at (set_base i a h) k = (if k = i then a else base_at h k)"
  by (simp add: base_at_def set_base_def)

section \<open>Operations\<close>

fun log2_loop :: "nat \<Rightarrow> int \<Rightarrow> int" where
  "log2_loop x result = (if x div 2 = 0 then result else log2_loop (x div 2) (result + 1))"

declare log2_loop.simps [simp del]

definition log2 :: "nat \<Rightarrow> int" where
  "log2 x = log2_loop x (if x mod 2 \<noteq> 0 then 1 else 0)"

definition initializeHeap :: buddyHeap_t where
  "initializeHeap = \<lparr>memoryBase = (\<lambda>_. NULL)(0 := base), blockUsage = (\<lambda>_. UNUSED)\<rparr>"

definition maxLevels :: int where
  "maxLevels = log2 PAGE_QUANTITY"

definition pagesToAllocate :: "nat \<Rightarrow> int" where
  "pagesToAllocate bytes =
     (let pages = to_int32 (int (bytes div PAGE_SIZE))
      in if bytes mod PAGE_SIZE = 0 then pages else pages + 1)"

definition setMemoryBlockDivisionBases :: "int \<Rightarrow> buddyHeap_t \<Rightarrow> buddyHeap_t option" where
  "setMemoryBlockDivisionBases parentIndex h =
     (if \<not> in_heap parentIndex \<or> \<not> in_heap (RIGHT parentIndex) then None
      else if base_at h (LEFT parentIndex) = NULL \<or> base_at h (RIGHT parentIndex) = NULL then
        let divisions = log2 (nat parentIndex) + 1;
            divisions = (if parentIndex mod 2 \<noteq> 0 then divisions - 1 else divisions);
            memory = base_at h parentIndex;
            h = set_base (LEFT parentIndex) memory h;
            rightMemoryDivisionBase = (PAGE_SIZE * PAGE_QUANTITY) div 2 ^ nat divisions + memory
        in Some (set_base (RIGHT parentIndex) rightMemoryDivisionBase h)
      else Some h)"

function getPagesRecursive :: "int \<Rightarrow> int \<Rightarrow> buddyHeap_t \<Rightarrow> (addr \<times> buddyHeap_t) option" where
  "getPagesRecursive index levels h =
     (if \<not> in_heap index then None
      else if usage_at h index = FULLY_USED \<or> usage_at h index = ALLOCATED then Some (NULL, h)
      else if levels = 0 then
        (if usage_at h index = HALF_USED then Some (NULL, h)
         else Some (base_at h index, set_usage index ALLOCATED h))
      else do {
        h \<leftarrow> setMemoryBlockDivisionBases index h;
        (left, h) \<leftarrow> getPagesRecursive (LEFT index) (levels - 1) h;
        if left \<noteq> NULL then Some (left, set_usage index HALF_USED h)
        else do {
          (right, h) \<leftarrow> getPagesRecursive (RIGHT index) (levels - 1) h;
          if right \<noteq> NULL \<and> usage_at h (RIGHT index) \<noteq> HALF_USED
             \<and> usage_at h (LEFT index) \<noteq> HALF_USED
          then Some (right, set_usage index FULLY_USED h)
          else Some (right, h)
        }
      })"
  by pat_completeness auto
termination
  by (relation "measure (\<lambda>(index, levels, h). nat (HEAPSIZE + 1 - index))") (auto simp: in_heap_def)

declare getPagesRecursive.simps [simp del]

definition getPages :: "int \<Rightarrow> buddyHeap_t \<Rightarrow> (addr \<times> buddyHeap_t) option" where
  "getPages quantity h =
     (let levelsToDescend = maxLevels - log2 (to_uint64 quantity);
          levelsToDescend = (if quantity = 1 then maxLevels else levelsToDescend)
      in getPagesRecursive 1 levelsToDescend h)"

fun isAllocatedPageRecursive :: "buddyHeap_t \<Rightarrow> addr \<Rightarrow> int \<Rightarrow> int option" where
  "isAllocatedPageRecursive h mb index =
     (if index \<le> 0 then Some 0
      else if \<not> in_heap index then None
      else if usage_at h index = ALLOCATED \<and> base_at h index = mb then Some 1
      else if usage_at h index = UNUSED then isAllocatedPageRecursive h mb (PARENT index)
      else Some 0)"

fun getParentIndexRecursive :: "buddyHeap_t \<Rightarrow> addr \<Rightarrow> int \<Rightarrow> int option" where
  "getParentIndexRecursive h mb index =
     (if index \<le> 0 then Some 0
      else if \<not> in_heap index then None
      else if usage_at h index = ALLOCATED \<and> base_at h index = mb then Some (PARENT index)
      else if usage_at h index = UNUSED then getParentIndexRecursive h mb (PARENT index)
      else Some (-1))"

fun freeMemoryRecursive :: "int \<Rightarrow> buddyHeap_t \<Rightarrow> buddyHeap_t option" where
  "freeMemoryRecursive index h =
     (if index > 0 then
        (if \<not> in_heap (RIGHT index) then None
         else
           let l = usage_at h (LEFT index);
               r = usage_at h (RIGHT index);
               h = (if l = UNUSED \<and> r = UNUSED then set_usage index UNUSED h else h);
               h = (if l = FULLY_USED \<or> r = FULLY_USED then set_usage index HALF_USED h else h);
               h = (if l = HALF_USED \<or> r = HALF_USED then set_usage index HALF_USED h else h);
               h = (if l = ALLOCATED \<or> r = ALLOCATED then set_usage index HALF_USED h else h)
           in freeMemoryRecursive (PARENT index) h)
      else Some h)"

declare isAllocatedPageRecursive.simps [simp del]
declare getParentIndexRecursive.simps [simp del]
declare freeMemoryRecursive.simps [simp del]

definition isAllocatedPage :: "buddyHeap_t \<Rightarrow> addr \<Rightarrow> int option" where
  "isAllocatedPage h mb =
     (let index = to_int32 (int (usub64 mb base div PAGE_SIZE) + 1)
      in isAllocatedPageRecursive h mb (index + HEAPSIZE div 2))"

definition getParentIndex :: "buddyHeap_t \<Rightarrow> addr \<Rightarrow> int option" where
  "getParentIndex h mb =
     (let index = to_int32 (int (usub64 mb base div PAGE_SIZE) + 1)
      in getParentIndexRecursive h mb (index + HEAPSIZE div 2))"

text \<open>The part of \<open>freeMemory\<close> between taking and releasing the mutex.\<close>

definition freeBlock :: "addr \<Rightarrow> buddyHeap_t \<Rightarrow> buddyHeap_t option" where
  "freeBlock mb h =
     (let index = to_int32 (int (usub64 mb base div PAGE_SIZE)) + HEAPSIZE div 2
      in if in_heap (index + 1)
         then freeMemoryRecursive (PARENT (index + 1)) (set_usage (index + 1) UNUSED h)
         else None)"

end
