(* ===== verification/Lib.thy ===== *)
theory Lib
  imports Prelude
begin

text \<open>
  \<open>Kernel/lib.c\<close> on byte memory: the copying loops (with the word-at-a-time path), the conversion
  of an integer to text in a base, string comparison and length.  The string functions
  run until they meet a NUL; on memory without one they do not return (\<open>None\<close>).
\<close>

section \<open>Blocks of memory\<close>

text \<open>\<open>while(length--) dst[length] = chr\<close>\<close>

primrec memset_loop :: "nat \<Rightarrow> addr \<Rightarrow> char \<Rightarrow> mem \<Rightarrow> mem" where
  "memset_loop 0 dst chr m = m"
| "memset_loop (Suc len) dst chr m = memset_loop len dst chr (m(dst + len := chr))"

definition memset :: "addr \<Rightarrow> int \<Rightarrow> nat \<Rightarrow> mem \<Rightarrow> mem" where
  "memset destination c len m = memset_loop len destination (char_of (nat (c mod 256))) m"

text \<open>\<open>d[i] = s[i]\<close> for \<open>uint32_t\<close>: four bytes are read, then written.\<close>

definition copy_word :: "addr \<Rightarrow> addr \<Rightarrow> mem \<Rightarrow> mem" where
  "copy_word d s m = m(d := m s, d + 1 := m (s + 1), d + 2 := m (s + 2), d + 3 := m (s + 3))"

primrec copy_words :: "nat \<Rightarrow> nat \<Rightarrow> addr \<Rightarrow> addr \<Rightarrow> mem \<Rightarrow> mem" where
  "copy_words 0 i d s m = m"
| "copy_words (Suc n) i d s m = copy_words n (i + 1) d s (copy_word (d + 4 * i) (s + 4 * i) m)"

primrec copy_bytes :: "nat \<Rightarrow> nat \<Rightarrow> addr \<Rightarrow> addr \<Rightarrow> mem \<Rightarrow> mem" where
  "copy_bytes 0 i d s m = m"
| "copy_bytes (Suc n) i d s m = copy_bytes n (i + 1) d s (m(d + i := m (s + i)))"

definition memcpy :: "addr \<Rightarrow> addr \<Rightarrow> nat \<Rightarrow> mem \<Rightarrow> mem" where
  "memcpy destination source len m =
     (if destination mod 4 = 0 \<and> source mod 4 = 0 \<and> len mod 4 = 0
      then copy_words (len div 4) 0 destination source m
      else copy_bytes len 0 destination source m)"

section \<open>Numbers as text\<close>

definition digit_char :: "nat \<Rightarrow> char" where
  "digit_char remainder =
     char_of (if remainder < 10 then remainder + 48 else remainder + 65 - 10)"

text \<open>
  The digit loop writes at \<open>p\<close> and returns the pointer behind the last digit and their number.
  Base 0 traps and base 1 never ends; both are \<open>None\<close> in \<open>uintToBase\<close>.
\<close>

function digits_loop :: "nat \<Rightarrow> addr \<Rightarrow> nat \<Rightarrow> nat \<Rightarrow> mem \<Rightarrow> addr \<times> nat \<times> mem" where
  "digits_loop v p base digits m =
     (let m = m(p := digit_char (v mod base)); p = p + 1; digits = digits + 1; v = v div base
      in if v \<noteq> 0 \<and> 2 \<le> base then digits_loop v p base digits m else (p, digits, m))"
  by pat_completeness auto
termination
proof (relation "measure (\<lambda>(v, p, base, digits, m). v)")
  fix v p base digits m x xa xb xc
  assume "(xc :: nat) = v div base" "xc \<noteq> 0 \<and> 2 \<le> base"
  moreover from this have "0 < v" by (metis div_0 gr0I)
  ultimately show "((xc, xa, base, xb, x), v, p, base, digits, m) \<in> measure (\<lambda>(v, p, base, digits, m). v)"
    by (simp add: div_less_dividend)
qed simp

declare digits_loop.simps [simp del]

function reverse_loop :: "addr \<Rightarrow> addr \<Rightarrow> mem \<Rightarrow> mem" where
  "reverse_loop p1 p2 m =
     (if p1 < p2 then reverse_loop (p1 + 1) (p2 - 1) (m(p1 := m p2, p2 := m p1)) else m)"
  by pat_completeness auto
termination by (relation "measure (\<lambda>(p1, p2, m). p2 - p1)") auto

declare reverse_loop.simps [simp del]

definition uintToBase :: "nat \<Rightarrow> addr \<Rightarrow> nat \<Rightarrow> mem \<Rightarrow> (nat \<times> mem) option" where
  "uintToBase v buffer base m =
     (if base < 2 then None
      else let (p, digits, m) = digits_loop v buffer base 0 m;
               m = m(p := NUL)
           in Some (digits, reverse_loop buffer (p - 1) m))"

text \<open>The text \<open>uintToBase\<close> leaves in a buffer, and its length.\<close>

definition base_text :: "nat \<Rightarrow> nat \<Rightarrow> string option" where
  "base_text v base = map_option (\<lambda>(digits, m). map m [0..<digits]) (uintToBase v 0 base (\<lambda>_. NUL))"

definition dec_text :: "nat \<Rightarrow> string" where
  "dec_text v = the (base_text v 10)"

definition hex_text :: "nat \<Rightarrow> string" where
  "hex_text v = the (base_text v 16)"

section \<open>Strings\<close>

partial_function (option) strcmp :: "mem \<Rightarrow> addr \<Rightarrow> addr \<Rightarrow> int option" where
  "strcmp m str1 str2 =
     (if m str1 \<noteq> NUL \<and> m str2 \<noteq> NUL \<and> m str1 = m str2 then strcmp m (str1 + 1) (str2 + 1)
      else Some (schar (m str1) - schar (m str2)))"

partial_function (option) strlen_loop :: "mem \<Rightarrow> addr \<Rightarrow> nat \<Rightarrow> nat option" where
  "strlen_loop m str len =
     (if m str \<noteq> NUL then strlen_loop m (str + 1) (len + 1) else Some len)"

definition strlen :: "mem \<Rightarrow> addr \<Rightarrow> nat option" where
  "strlen m str = strlen_loop m str 0"

text \<open>The C string \<open>s\<close> is stored at \<open>p\<close>.\<close>

definition str_at :: "mem \<Rightarrow> addr \<Rightarrow> string \<Rightarrow> bool" where
  "str_at m p s \<longleftrightarrow> (\<forall>i<length s. m (p + i) = s ! i \<and> s ! i \<noteq> NUL) \<and> m (p + length s) = NUL"

lemma str_at_Nil [simp]: "str_at m p [] \<longleftrightarrow> m p = NUL"
  by (simp add: str_at_def)

lemma str_at_Cons [simp]: "str_at m p (c # s) \<longleftrightarrow> m p = c \<and> c \<noteq> NUL \<and> str_at m (p + 1) s"
proof -
  have "(\<forall>i<Suc (length s). m (p + i) = (c # s) ! i \<and> (c # s) ! i \<noteq> NUL) \<longleftrightarrow>
        (m p = c \<and> c \<noteq> NUL) \<and> (\<forall>i<length s. m (p + 1 + i) = s ! i \<and> s ! i \<noteq> NUL)"
    by (subst All_less_Suc2) simp
  then show ?thesis by (auto simp: str_at_def)
qed

text \<open>A \<open>char *\<close> argument read as the string it points to (what \<open>strlen\<close>, \<open>strcmp\<close> and \<open>memcpy\<close> see).\<close>

partial_function (option) read_str :: "mem \<Rightarrow> addr \<Rightarrow> string option" where
  "read_str m p = (if m p = NUL then Some [] else do { s \<leftarrow> read_str m (p + 1); Some (m p # s) })"

lemma read_str_at: "str_at m p s \<Longrightarrow> read_str m p = Some s"
  by (induction s arbitrary: p) (subst read_str.simps, simp)+

end
