(* ===== verification/KState.thy ===== *)
theory KState
  imports KMonad Buddy Lib
begin

text \<open>
  The data of the kernel: the types of \<open>Kernel/include/*.h\<close> and the static variables of each
  source file, one record per file, collected in \<open>kstate\<close>.

  A C array is a function from its \<open>int\<close> index; every access goes through a bounds check that
  is \<open>Fault OutOfBounds\<close> outside the declared size.  Objects the kernel allocates live in typed
  stores keyed by address (\<open>procs\<close>, \<open>thrs\<close>, \<open>chans\<close>, \<open>msgs\<close>); following a pointer that is not in
  its store is \<open>Fault NullDeref\<close>.  Giving memory back does not erase the object, as in C: a
  dangling pointer still reads the old contents.  Plain bytes are in \<open>kmem\<close>, the \<open>int\<close>s and the
  pointers that system calls write through user addresses in \<open>kints\<close> and \<open>kptrs\<close>.
\<close>

section \<open>types.h, process.h, scheduler.h\<close>

datatype processState = RUNNING | READY | BLOCKED | SLEEPING

record threadId_t =
  tid_pid :: int
  tid_thread :: int

record thread_t =
  th_stack :: addr
  th_entryPoint :: addr
  th_memoryBase :: addr
  th_state :: processState
  th_waitingThread :: int

record threadNode_t =
  tn_thread :: addr
  tn_next :: int

record process_t =
  pr_pid :: int
  pr_ppid :: int
  pr_name :: "char list"
  pr_threads :: "int \<Rightarrow> threadNode_t"
  pr_currentThread :: int
  pr_standardPipes :: "int \<Rightarrow> int"

record stackFrame_t =
  f_gs :: nat  f_fs :: nat
  f_r15 :: nat  f_r14 :: nat  f_r13 :: nat  f_r12 :: nat
  f_r11 :: nat  f_r10 :: nat  f_r9 :: nat  f_r8 :: nat
  f_rsi :: nat  f_rdi :: nat  f_rbp :: nat  f_rdx :: nat
  f_rcx :: nat  f_rbx :: nat  f_rax :: nat
  f_rip :: nat  f_cs :: nat  f_eflags :: nat  f_rsp :: nat  f_ss :: nat  f_base :: nat

record roundRobinNode_t =
  rr_next :: int
  rr_process :: addr

definition MAX_PROCESSES :: int where [consts_defs]: "MAX_PROCESSES = 100"
definition PROCESS_LIMIT_REACHED :: int where [consts_defs]: "PROCESS_LIMIT_REACHED = -1"
definition PID_NOT_FOUND :: int where [consts_defs]: "PID_NOT_FOUND = -1"
definition QUANTUM :: int where [consts_defs]: "QUANTUM = 2"
definition MAX_NAME :: nat where [consts_defs]: "MAX_NAME = 50"
definition MAX_THREADS :: int where [consts_defs]: "MAX_THREADS = 32"
definition THREAD_LIMIT_REACHED :: int where [consts_defs]: "THREAD_LIMIT_REACHED = -1"
definition THREAD_INITIAL_PAGES :: nat where [consts_defs]: "THREAD_INITIAL_PAGES = 2"
definition NOT_WAITING :: int where [consts_defs]: "NOT_WAITING = -1"

record sched_state =
  processes :: "int \<Rightarrow> roundRobinNode_t"
  firstAvailableSpace :: int
  foreground :: addr
  current :: int
  processQuantity :: int
  quantum :: int
  schedulerAuxiliaryStack :: addr
  changeLock :: int
  lockQuantumExceded :: int

section \<open>mutex.h, semaphore.h, timer.h\<close>

definition MAX_BLOCKED :: int where [consts_defs]: "MAX_BLOCKED = 30"
definition MAX_MUTEXES :: int where [consts_defs]: "MAX_MUTEXES = 128"
definition MAX_SEMAPHORES :: int where [consts_defs]: "MAX_SEMAPHORES = 64"
definition MAX_SLEEPING_PROCESSES :: int where [consts_defs]: "MAX_SLEEPING_PROCESSES = 64"
definition NOT_USED :: int where [consts_defs]: "NOT_USED = -1"
definition MUTEX_CREATION_ERROR :: int where [consts_defs]: "MUTEX_CREATION_ERROR = -2"
definition SEM_CREATION_ERROR :: int where [consts_defs]: "SEM_CREATION_ERROR = -2"
definition FULL_LIST :: int where [consts_defs]: "FULL_LIST = -3"
definition LOCKED :: int where [consts_defs]: "LOCKED = 0"
definition UNLOCKED :: int where [consts_defs]: "UNLOCKED = 1"
definition SLEEPING_PROCESS_LIMIT_REACHED :: int where [consts_defs]: "SLEEPING_PROCESS_LIMIT_REACHED = -1"
definition SLEEPING_PROCESS_NOT_FOUND :: int where [consts_defs]: "SLEEPING_PROCESS_NOT_FOUND = -1"

record mutex_t =
  m_creator :: threadId_t
  m_lockProcess :: threadId_t
  m_name :: "char list"
  m_blocked :: "int \<Rightarrow> threadId_t"
  m_blockedQuantity :: int
  m_value :: int

record mutex_state =
  mutexes :: "int \<Rightarrow> mutex_t"
  firstAvailableMutex :: int
  usedMutexes :: int
  adminMutex :: int

record semaphore_t =
  s_creator :: threadId_t
  s_name :: "char list"
  s_blocked :: "int \<Rightarrow> threadId_t"
  s_blockedQuantity :: int
  s_value :: int
  s_mutex :: int

record sem_state =
  semaphores :: "int \<Rightarrow> semaphore_t"
  firstAvailableSemaphore :: int
  usedSemaphores :: int
  semaphoreMutex :: int

record sleepingThread_t =
  sl_pid :: int
  sl_thread :: int
  tickQuantity :: "64 word"
  sl_next :: int

record timer_state =
  sleepingProcesses :: "int \<Rightarrow> sleepingThread_t"
  timerFirstAvailable :: int
  sleeping :: int
  firstSleeping :: int

section \<open>pipes.h, channel.h\<close>

definition PIPE_PAGES :: int where [consts_defs]: "PIPE_PAGES = 1"
definition NAME_LENGTH :: nat where [consts_defs]: "NAME_LENGTH = 20"
definition PIPE_BUFFER_LENGTH :: int where [consts_defs]: "PIPE_BUFFER_LENGTH = PIPE_PAGES * int PAGE_SIZE"
definition MAX_PIPES :: int where [consts_defs]: "MAX_PIPES = 10"
definition SEND_MESSAGE_ERROR :: int where [consts_defs]: "SEND_MESSAGE_ERROR = -1"
definition MAX_MESSAGES :: int where [consts_defs]: "MAX_MESSAGES = 10"

record pipe_t =
  p_creator :: threadId_t
  p_name :: "char list"
  p_readIndex :: int
  p_writeIndex :: int
  p_buffer :: addr
  p_semWrite :: int
  p_semRead :: int
  p_used :: bool
  p_mutex :: int

record messageNode_t =
  msg_length :: int
  msg_content :: addr
  msg_next :: addr

record channelNode_t =
  ch_senderPid :: int
  ch_recipientPid :: int
  ch_senderSendSem :: int
  ch_recipientSendSem :: int
  ch_senderReceiveSem :: int
  ch_recipientReceiveSem :: int
  ch_senderToRecipient :: addr
  ch_recipientToSender :: addr
  ch_nextChannel :: addr

record chan_state =
  firstChannel :: addr
  channelMutex :: int

section \<open>terminal.h, video.h, keyboard.c, rtc.c, MMU.c\<close>

definition WIDTH :: int where [consts_defs]: "WIDTH = 80"
definition HEIGHT :: int where [consts_defs]: "HEIGHT = 25"

record cell_t =
  cell_ch :: char
  cell_style :: u8

text \<open>\<open>writeIndex\<close> of the terminal and of a pipe are different variables, as are the two cursors
  (\<open>terminal.c\<close> keeps one, \<open>video.c\<close> another with the same names).\<close>

record term_state =
  video :: "int \<Rightarrow> cell_t"
  kbBuffer :: "int \<Rightarrow> char"
  startIndex :: u16
  endIndex :: u16
  writeIndex :: u16
  readIndex :: u16
  kbSize :: u16
  echo :: u8
  cursorVisible :: bool
  cursorX :: u8
  cursorY :: u8
  defaultStyle :: u8
  videoCursorX :: u8
  videoCursorY :: u8

record kbd_state =
  shiftMayus :: u8
  leftShift :: bool
  rightShift :: bool
  specialKey :: bool
  ctrl :: bool

record module_t =
  mod_name :: "string option"
  mod_address :: addr
  mod_size :: int

text \<open>An interrupt gate, and the handlers of \<open>asm/interruptions.asm\<close> as their addresses.\<close>

record IDTEntry_t =
  offset_l :: "16 word"
  selector :: "16 word"
  zero_l :: "8 word"
  attrs :: "8 word"
  offset_m :: "16 word"
  offset_h :: "32 word"
  zero_h :: "32 word"

text \<open>Addresses fixed by the linker script: functions whose address is taken and section bounds.\<close>

record layout_t =
  callProcessAddr :: addr
  initAddr :: addr
  bssAddr :: addr
  endOfKernelBinary :: addr
  endOfKernel :: addr
  irq0HandlerAddr :: "64 word"
  irq1HandlerAddr :: "64 word"
  yieldHandlerAddr :: "64 word"
  int80HandlerAddr :: "64 word"

section \<open>The kernel state\<close>

record kstate =
  cpu_rsp :: addr
  kmem :: mem
  kptrs :: "addr \<Rightarrow> addr"
  kints :: "addr \<Rightarrow> int"
  procs :: "addr \<Rightarrow> process_t option"
  thrs :: "addr \<Rightarrow> thread_t option"
  frames :: "addr \<Rightarrow> stackFrame_t option"
  msgs :: "addr \<Rightarrow> messageNode_t option"
  chans :: "addr \<Rightarrow> channelNode_t option"
  buddyHeap :: buddyHeap_t
  buddyMutex :: int
  nextPid :: int
  tickCount :: int
  timeZone :: int
  sched :: sched_state
  mut :: mutex_state
  sems :: sem_state
  tim :: timer_state
  pipes :: "int \<Rightarrow> pipe_t"
  chs :: chan_state
  terminal :: term_state
  kbd :: kbd_state
  modules :: "int \<Rightarrow> module_t"
  layout :: layout_t
  idt :: "int \<Rightarrow> IDTEntry_t"
  portLog :: "(int \<times> int) list"
  ncCurrent :: int
  rtcPort :: "u8 \<Rightarrow> u8"

type_synonym 'a KS = "(kstate, 'a) K"

text \<open>\<open>killThread\<close>, which \<open>mutexDown\<close> calls and which itself takes mutexes, is an argument of
  the operations below it; the knot is tied at the end of \<open>Process.thy\<close>.\<close>

type_synonym killer = "int \<Rightarrow> int \<Rightarrow> unit KS"

section \<open>Checked access\<close>

definition kchk :: "bool \<Rightarrow> unit KS" where
  "kchk b = (if b then kskip else kfault OutOfBounds)"

definition with_proc :: "addr \<Rightarrow> (process_t \<Rightarrow> 'a KS) \<Rightarrow> 'a KS" where
  "with_proc p f = kwith (\<lambda>s. case procs s p of None \<Rightarrow> kfault NullDeref | Some pr \<Rightarrow> f pr)"

definition with_thr :: "addr \<Rightarrow> (thread_t \<Rightarrow> 'a KS) \<Rightarrow> 'a KS" where
  "with_thr t f = kwith (\<lambda>s. case thrs s t of None \<Rightarrow> kfault NullDeref | Some th \<Rightarrow> f th)"

definition upd_proc :: "addr \<Rightarrow> (process_t \<Rightarrow> process_t) \<Rightarrow> unit KS" where
  "upd_proc p g = with_proc p (\<lambda>pr. kmod (\<lambda>s. s\<lparr>procs := (procs s)(p \<mapsto> g pr)\<rparr>))"

definition upd_thr :: "addr \<Rightarrow> (thread_t \<Rightarrow> thread_t) \<Rightarrow> unit KS" where
  "upd_thr t g = with_thr t (\<lambda>th. kmod (\<lambda>s. s\<lparr>thrs := (thrs s)(t \<mapsto> g th)\<rparr>))"

definition upd_sched :: "(sched_state \<Rightarrow> sched_state) \<Rightarrow> unit KS" where
  "upd_sched g = kmod (\<lambda>s. s\<lparr>sched := g (sched s)\<rparr>)"

definition in_range :: "int \<Rightarrow> int \<Rightarrow> bool" where
  "in_range i n \<longleftrightarrow> 0 \<le> i \<and> i < n"

text \<open>\<open>process->threads[i]\<close> and the thread it points to.\<close>

definition with_node :: "addr \<Rightarrow> int \<Rightarrow> (threadNode_t \<Rightarrow> 'a KS) \<Rightarrow> 'a KS" where
  "with_node p i f =
     with_proc p (\<lambda>pr. if in_range i MAX_THREADS then f (pr_threads pr i) else kfault OutOfBounds)"

definition upd_node :: "addr \<Rightarrow> int \<Rightarrow> (threadNode_t \<Rightarrow> threadNode_t) \<Rightarrow> unit KS" where
  "upd_node p i g =
     with_node p i (\<lambda>n. upd_proc p (\<lambda>pr. pr\<lparr>pr_threads := (pr_threads pr)(i := g n)\<rparr>))"

text \<open>\<open>processes[i]\<close>\<close>

definition with_slot :: "int \<Rightarrow> (roundRobinNode_t \<Rightarrow> 'a KS) \<Rightarrow> 'a KS" where
  "with_slot i f =
     kwith (\<lambda>s. if in_range i MAX_PROCESSES then f (processes (sched s) i) else kfault OutOfBounds)"

definition upd_slot :: "int \<Rightarrow> (roundRobinNode_t \<Rightarrow> roundRobinNode_t) \<Rightarrow> unit KS" where
  "upd_slot i g =
     with_slot i (\<lambda>n. upd_sched (\<lambda>c. c\<lparr>processes := (processes c)(i := g n)\<rparr>))"

text \<open>\<open>processes[current].process->threads[...->currentThread].thread\<close>, followed and read.\<close>

definition with_current_thread :: "(addr \<Rightarrow> thread_t \<Rightarrow> 'a KS) \<Rightarrow> 'a KS" where
  "with_current_thread f =
     kwith (\<lambda>s. with_slot (current (sched s)) (\<lambda>n.
       with_proc (rr_process n) (\<lambda>pr.
         with_node (rr_process n) (pr_currentThread pr) (\<lambda>tn.
           with_thr (tn_thread tn) (\<lambda>th. f (tn_thread tn) th)))))"

lemmas access_defs = with_proc_def with_thr_def upd_proc_def upd_thr_def upd_sched_def
  with_node_def upd_node_def with_slot_def upd_slot_def with_current_thread_def kchk_def

end
