(* ===== verification/Sched.thy ===== *)
theory Sched
  imports KState
begin

text \<open>
  The scheduler of \<open>Kernel/scheduler.c\<close> with the two functions of \<open>Kernel/threads.c\<close> it is
  mutually dependent on (\<open>nextThread\<close> and \<open>changeThreadState\<close>), and \<open>yield\<close>: the software interrupt
  \<open>0x40\<close>, whose handler saves the stack pointer with \<open>switchToKernelStack\<close> and loads the one
  \<open>nextProcess\<close> returns.  Processes are linked in a ring of slots of the table \<open>processes\<close>, the
  threads of a process in a ring of slots of its own table.
\<close>

section \<open>Threads of a process\<close>

text \<open>
  The \<open>do ... while\<close> loops follow \<open>next\<close> links of a table of \<open>n\<close> slots whose contents they do not
  change, so a loop that has not stopped after \<open>n\<close> rounds never does: \<open>n\<close> is exact as fuel.
\<close>

primrec nextThread_loop :: "nat \<Rightarrow> addr \<Rightarrow> int \<Rightarrow> int \<Rightarrow> int KS" where
  "nextThread_loop 0 process first next = kfault Diverges"
| "nextThread_loop (Suc n) process first next =
     with_node process next (\<lambda>node. let next = tn_next node in
       with_node process next (\<lambda>node.
         with_thr (tn_thread node) (\<lambda>th.
           if th_state th \<noteq> READY \<and> first \<noteq> next
           then nextThread_loop n process first next
           else kret next)))"

definition nextThread :: "addr \<Rightarrow> int KS" where
  "nextThread process =
     with_proc process (\<lambda>pr. let first = pr_currentThread pr in
       kbind (nextThread_loop (nat MAX_THREADS) process first first) (\<lambda>next.
         with_node process next (\<lambda>node.
           with_thr (tn_thread node) (\<lambda>th.
             if first = next \<and> th_state th \<noteq> READY then kret (-1)
             else kthen [upd_proc process (\<lambda>pr. pr\<lparr>pr_currentThread := next\<rparr>)] (kret next)))))"

section \<open>The ring of processes\<close>

definition getpid :: "int KS" where
  "getpid = kwith (\<lambda>s.
     if processQuantity (sched s) = 0 then kret (-1)
     else with_slot (current (sched s)) (\<lambda>n. with_proc (rr_process n) (\<lambda>pr. kret (pr_pid pr))))"

definition getCurrentThread :: "int KS" where
  "getCurrentThread = kwith (\<lambda>s.
     if processQuantity (sched s) = 0 then kret (-1)
     else with_slot (current (sched s)) (\<lambda>n. with_proc (rr_process n) (\<lambda>pr. kret (pr_currentThread pr))))"

definition getCurrentStack :: "addr KS" where
  "getCurrentStack = with_current_thread (\<lambda>_ th. kret (th_stack th))"

definition getEntryPoint :: "addr KS" where
  "getEntryPoint = with_current_thread (\<lambda>_ th. kret (th_entryPoint th))"

primrec nextProcess_loop :: "nat \<Rightarrow> int \<Rightarrow> int \<Rightarrow> int KS" where
  "nextProcess_loop 0 first next = kfault Diverges"
| "nextProcess_loop (Suc n) first next =
     with_slot next (\<lambda>slot. let next = rr_next slot in
       with_slot next (\<lambda>slot.
         kbind (nextThread (rr_process slot)) (\<lambda>r.
           if r = -1 \<and> first \<noteq> next then nextProcess_loop n first next else kret next)))"

definition nextProcess :: "addr KS" where
  "nextProcess = kwith (\<lambda>s.
     if changeLock (sched s) = 1
     then kthen [upd_sched (\<lambda>c. c\<lparr>lockQuantumExceded := 1\<rparr>)] getCurrentStack
     else let first = current (sched s) in
       kthen [
         with_slot first (\<lambda>slot.
           if rr_process slot \<noteq> NULL
           then with_current_thread (\<lambda>t th.
                  kwhen (th_state th = RUNNING) [upd_thr t (\<lambda>th. th\<lparr>th_state := READY\<rparr>)])
           else kskip),
         kbind (nextProcess_loop (nat MAX_PROCESSES) first first) (\<lambda>next.
           upd_sched (\<lambda>c. c\<lparr>current := next, quantum := QUANTUM\<rparr>)),
         with_current_thread (\<lambda>t th. upd_thr t (\<lambda>th. th\<lparr>th_state := RUNNING\<rparr>))]
         getCurrentStack)"

definition schedule :: "addr KS" where
  "schedule = kwith (\<lambda>s.
     kthen [upd_sched (\<lambda>c. c\<lparr>quantum := quantum c - 1\<rparr>)]
       (if quantum (sched s) < 0 then nextProcess else getCurrentStack))"

definition switchToKernelStack :: "addr \<Rightarrow> addr KS" where
  "switchToKernelStack rsp =
     kthen [with_current_thread (\<lambda>t th. upd_thr t (\<lambda>th. th\<lparr>th_stack := rsp\<rparr>))]
       (kwith (\<lambda>s. kret (schedulerAuxiliaryStack (sched s) + PAGE_SIZE - 1)))"

text \<open>
  \<open>int 40h\<close> and \<open>yieldHandler\<close> (\<open>asm/interruptions.asm\<close>).  While \<open>changeLock\<close> is set, \<open>nextProcess\<close>
  returns the stack just saved and the caller goes on; otherwise the caller goes on when its thread is
  chosen again.
\<close>

definition yield :: "unit KS" where
  "yield =
     kbind (kwith (\<lambda>s. switchToKernelStack (cpu_rsp s))) (\<lambda>rsp.
     kbind (kmod (\<lambda>s. s\<lparr>cpu_rsp := rsp\<rparr>)) (\<lambda>_.
     kbind nextProcess (\<lambda>rsp.
     kbind (kmod (\<lambda>s. s\<lparr>cpu_rsp := rsp\<rparr>)) (\<lambda>_.
     kwith (\<lambda>s. if changeLock (sched s) = 1 then kskip else kgiveup)))))"

definition findFirstAvailableSpace :: "sched_state \<Rightarrow> int" where
  "findFirstAvailableSpace c =
     scan_or PROCESS_LIMIT_REACHED (\<lambda>i. rr_process (processes c i) = NULL) (nat MAX_PROCESSES)"

definition addProcess :: "addr \<Rightarrow> int KS" where
  "addProcess process = kwith (\<lambda>s. let c = sched s in
     if processQuantity c \<noteq> MAX_PROCESSES then
       kthen [
         if processQuantity c = 0 then
           kdo [
             upd_sched (\<lambda>c. c\<lparr>current := 0\<rparr>),
             upd_slot 0 (\<lambda>n. n\<lparr>rr_next := 0\<rparr>),
             upd_slot 0 (\<lambda>n. n\<lparr>rr_process := process\<rparr>)]
         else
           with_slot (current c) (\<lambda>n. let next = rr_next n in
             kdo [
               upd_slot (current c) (\<lambda>n. n\<lparr>rr_next := firstAvailableSpace c\<rparr>),
               upd_slot (firstAvailableSpace c) (\<lambda>n. n\<lparr>rr_process := process\<rparr>),
               upd_slot (firstAvailableSpace c) (\<lambda>n. n\<lparr>rr_next := next\<rparr>)]),
         upd_sched (\<lambda>c. c\<lparr>firstAvailableSpace := findFirstAvailableSpace c\<rparr>),
         upd_sched (\<lambda>c. c\<lparr>processQuantity := processQuantity c + 1\<rparr>)]
         (with_proc process (\<lambda>pr. kret (pr_pid pr)))
     else kret (-1))"

primrec getProcessIndex_loop :: "nat \<Rightarrow> int \<Rightarrow> int \<Rightarrow> int KS" where
  "getProcessIndex_loop 0 pid next = kret PID_NOT_FOUND"
| "getProcessIndex_loop (Suc n) pid next =
     with_slot next (\<lambda>slot. with_proc (rr_process slot) (\<lambda>pr.
       if pr_pid pr = pid then kret next else getProcessIndex_loop n pid (rr_next slot)))"

definition getProcessIndex :: "int \<Rightarrow> int KS" where
  "getProcessIndex pid = kwith (\<lambda>s.
     getProcessIndex_loop (nat (processQuantity (sched s))) pid (current (sched s)))"

definition getProcess :: "int \<Rightarrow> addr KS" where
  "getProcess pid = kbind (getProcessIndex pid) (\<lambda>index.
     if index \<noteq> PID_NOT_FOUND then with_slot index (\<lambda>n. kret (rr_process n)) else kret NULL)"

definition changeThreadState :: "int \<Rightarrow> int \<Rightarrow> processState \<Rightarrow> unit KS" where
  "changeThreadState pid thread state = kbind (getProcess pid) (\<lambda>process.
     kwhen (process \<noteq> NULL \<and> thread \<ge> 0 \<and> thread < MAX_THREADS) [
       with_node process thread (\<lambda>n. upd_thr (tn_thread n) (\<lambda>th. th\<lparr>th_state := state\<rparr>))])"

primrec changeChildrenToOrphan_loop :: "nat \<Rightarrow> int \<Rightarrow> int \<Rightarrow> int \<Rightarrow> unit KS" where
  "changeChildrenToOrphan_loop 0 pid index next = kskip"
| "changeChildrenToOrphan_loop (Suc n) pid index next =
     with_slot next (\<lambda>slot. with_proc (rr_process slot) (\<lambda>pr.
       kdo [
         if pr_ppid pr = pid
         then with_slot index (\<lambda>islot. with_proc (rr_process islot) (\<lambda>ipr.
                upd_proc (rr_process slot) (\<lambda>pr. pr\<lparr>pr_ppid := pr_ppid ipr\<rparr>)))
         else kskip,
         changeChildrenToOrphan_loop n pid index (rr_next slot)]))"

definition changeChildrenToOrphan :: "int \<Rightarrow> unit KS" where
  "changeChildrenToOrphan pid = kbind (getProcessIndex pid) (\<lambda>index.
     kwith (\<lambda>s. changeChildrenToOrphan_loop (nat (processQuantity (sched s))) pid index (current (sched s))))"

section \<open>Foreground process and scheduler lock\<close>

definition setForeground :: "int \<Rightarrow> unit KS" where
  "setForeground pid = kbind (getProcessIndex pid) (\<lambda>index.
     with_slot index (\<lambda>n. upd_sched (\<lambda>c. c\<lparr>foreground := rr_process n\<rparr>)))"

definition getForeground :: "int KS" where
  "getForeground = kwith (\<lambda>s. with_proc (foreground (sched s)) (\<lambda>pr. kret (pr_pid pr)))"

definition isForeground :: "int \<Rightarrow> bool KS" where
  "isForeground pid = kwith (\<lambda>s. with_proc (foreground (sched s)) (\<lambda>pr. kret (pr_pid pr = pid)))"

definition lock :: "unit KS" where
  "lock = upd_sched (\<lambda>c. c\<lparr>changeLock := 1\<rparr>)"

text \<open>\<open>testAndSetLock\<close> (\<open>asm/libasm.asm\<close>) exchanges a 64-bit register that is 0 with memory: it returns the old value of
  the \<open>int\<close>, and writes 0 into it and into the \<open>int\<close> that lies behind it.\<close>

definition testAndSetLock :: "int \<Rightarrow> int \<times> int \<times> int" where
  "testAndSetLock v = (v, 0, 0)"

text \<open>Behind \<open>lockQuantumExceded\<close>, the last variable of the file, there is only the padding in front of the next one's table.\<close>

definition unlock :: "unit KS" where
  "unlock = kdo [
     upd_sched (\<lambda>c. c\<lparr>changeLock := 0\<rparr>),
     kwith (\<lambda>s. let (old, new, behind) = testAndSetLock (lockQuantumExceded (sched s)) in
       kdo [
         upd_sched (\<lambda>c. c\<lparr>lockQuantumExceded := new\<rparr>),
         kwhen (old \<noteq> 0) [yield]])]"

definition with_foreground_thread :: "(addr \<Rightarrow> thread_t \<Rightarrow> 'a KS) \<Rightarrow> 'a KS" where
  "with_foreground_thread f = kwith (\<lambda>s.
     with_proc (foreground (sched s)) (\<lambda>pr.
       with_node (foreground (sched s)) (pr_currentThread pr) (\<lambda>n.
         with_thr (tn_thread n) (\<lambda>th. f (tn_thread n) th))))"

definition blockRead :: "unit KS" where
  "blockRead = with_foreground_thread (\<lambda>t th.
     kwhen (th_state th \<noteq> BLOCKED) [upd_thr t (\<lambda>th. th\<lparr>th_state := BLOCKED\<rparr>), yield])"

definition unblockRead :: "unit KS" where
  "unblockRead = with_foreground_thread (\<lambda>t th.
     kwhen (th_state th = BLOCKED) [upd_thr t (\<lambda>th. th\<lparr>th_state := READY\<rparr>)])"

end
