(* ===== verification/Mutex.thy ===== *)
theory Mutex
  imports Sched
begin

text \<open>
  \<open>Kernel/mutex.c\<close>: named mutexes with a fixed table of blocked threads each.  \<open>mutexDown\<close> on a
  mutex whose blocked table is full kills the calling thread; that call is the argument \<open>kt\<close>.
\<close>

section \<open>Table access\<close>

definition upd_mut :: "(mutex_state \<Rightarrow> mutex_state) \<Rightarrow> unit KS" where
  "upd_mut g = kmod (\<lambda>s. s\<lparr>mut := g (mut s)\<rparr>)"

definition with_mutex :: "int \<Rightarrow> (mutex_t \<Rightarrow> 'a KS) \<Rightarrow> 'a KS" where
  "with_mutex i f =
     kwith (\<lambda>s. if in_range i MAX_MUTEXES then f (mutexes (mut s) i) else kfault OutOfBounds)"

definition upd_mutex :: "int \<Rightarrow> (mutex_t \<Rightarrow> mutex_t) \<Rightarrow> unit KS" where
  "upd_mutex i g =
     with_mutex i (\<lambda>m. upd_mut (\<lambda>c. c\<lparr>mutexes := (mutexes c)(i := g m)\<rparr>))"

abbreviation (input) set_creator_pid :: "int \<Rightarrow> mutex_t \<Rightarrow> mutex_t" where
  "set_creator_pid p m \<equiv> m\<lparr>m_creator := (m_creator m)\<lparr>tid_pid := p\<rparr>\<rparr>"

abbreviation (input) set_lock_pid :: "int \<Rightarrow> mutex_t \<Rightarrow> mutex_t" where
  "set_lock_pid p m \<equiv> m\<lparr>m_lockProcess := (m_lockProcess m)\<lparr>tid_pid := p\<rparr>\<rparr>"

lemmas mutex_access_defs = upd_mut_def with_mutex_def upd_mutex_def

section \<open>Table of mutexes\<close>

definition getNextMutexAvailable :: "mutex_state \<Rightarrow> int" where
  "getNextMutexAvailable c =
     scan_or FULL_LIST (\<lambda>i. tid_pid (m_creator (mutexes c i)) = NOT_USED) (nat MAX_MUTEXES)"

definition nextListIndexAvailable :: "(int \<Rightarrow> threadId_t) \<Rightarrow> int \<Rightarrow> int" where
  "nextListIndexAvailable list len =
     scan_or FULL_LIST (\<lambda>i. tid_pid (list i) = NOT_USED) (nat len)"

definition clearMutex :: "int \<Rightarrow> unit KS" where
  "clearMutex mutex = kwhen (mutex < MAX_MUTEXES) [
     upd_mutex mutex (set_creator_pid NOT_USED),
     upd_mutex mutex (set_lock_pid NOT_USED),
     upd_mutex mutex (\<lambda>m. m\<lparr>m_name := buf_write (m_name m) [NUL]\<rparr>),
     upd_mutex mutex (\<lambda>m. m\<lparr>m_value := UNLOCKED\<rparr>),
     upd_mutex mutex (\<lambda>m. m\<lparr>m_blockedQuantity := 0\<rparr>),
     kfor 0 (nat MAX_BLOCKED) (\<lambda>i. upd_mutex mutex (\<lambda>m.
       m\<lparr>m_blocked := (m_blocked m)(i := (m_blocked m i)\<lparr>tid_pid := NOT_USED\<rparr>)\<rparr>)),
     upd_mut (\<lambda>c. c\<lparr>firstAvailableMutex :=
       (if mutex < firstAvailableMutex c then mutex else getNextMutexAvailable c)\<rparr>)]"

definition setupMutexSystem :: "unit KS" where
  "setupMutexSystem = kdo [
     kfor 0 (nat MAX_MUTEXES) clearMutex,
     kwith (\<lambda>s. upd_mutex (adminMutex (mut s)) (set_creator_pid 0))]"

definition isValidMutex :: "mutex_state \<Rightarrow> int \<Rightarrow> bool" where
  "isValidMutex c mutex =
     (if mutex < 0 \<or> mutex \<ge> MAX_MUTEXES then False
      else tid_pid (m_creator (mutexes c mutex)) \<noteq> NOT_USED)"

definition createMutex :: "int \<Rightarrow> string \<Rightarrow> int \<Rightarrow> int KS" where
  "createMutex pid name thread = kwith (\<lambda>s.
     if usedMutexes (mut s) < MAX_MUTEXES \<and> length name < MAX_NAME then
       let mutex = firstAvailableMutex (mut s) in
       kthen [
         upd_mutex mutex (\<lambda>m. m\<lparr>m_name := buf_write (m_name m) name\<rparr>),
         upd_mutex mutex (set_creator_pid pid),
         upd_mutex mutex (\<lambda>m. m\<lparr>m_creator := (m_creator m)\<lparr>tid_thread := thread\<rparr>\<rparr>),
         upd_mut (\<lambda>c. c\<lparr>usedMutexes := usedMutexes c + 1\<rparr>),
         upd_mut (\<lambda>c. c\<lparr>firstAvailableMutex := getNextMutexAvailable c\<rparr>)]
         (kret mutex)
     else kret MUTEX_CREATION_ERROR)"

section \<open>Blocking and waking\<close>

definition addToBlocked :: "int \<Rightarrow> int \<Rightarrow> int \<Rightarrow> int KS" where
  "addToBlocked mutex pid thread = with_mutex mutex (\<lambda>m.
     let index = nextListIndexAvailable (m_blocked m) MAX_BLOCKED in
     if index \<noteq> FULL_LIST then
       kthen [
         upd_mutex mutex (\<lambda>m. m\<lparr>m_blocked := (m_blocked m)(index := \<lparr>tid_pid = pid, tid_thread = thread\<rparr>)\<rparr>),
         upd_mutex mutex (\<lambda>m. m\<lparr>m_blockedQuantity := m_blockedQuantity m + 1\<rparr>)]
         (kret index)
     else kret index)"

text \<open>\<open>value\<close> is the last field of a \<open>mutex_t\<close>, and an entry of the table has no padding at its end: what lies behind the
  \<open>value\<close> of a mutex is the \<open>pid\<close> of the creator of the next one.  Behind the last entry lies \<open>adminMutex\<close>, which is 0 anyway;
  the model writes into an entry that nobody looks at.\<close>

definition set_behind :: "int \<Rightarrow> int \<Rightarrow> unit KS" where
  "set_behind mutex v = upd_mut (\<lambda>c. c\<lparr>mutexes :=
     (mutexes c)(mutex + 1 := set_creator_pid v (mutexes c (mutex + 1)))\<rparr>)"

definition mutexDown :: "killer \<Rightarrow> int \<Rightarrow> int \<Rightarrow> int \<Rightarrow> unit KS" where
  "mutexDown kt mutex pid thread = kdo [
     lock,
     kwith (\<lambda>s. if isValidMutex (mut s) mutex then
       let (locked, new, behind) = testAndSetLock (m_value (mutexes (mut s) mutex)) in
       kdo [
         upd_mutex mutex (\<lambda>m. m\<lparr>m_value := new\<rparr>),
         set_behind mutex behind,
         if locked = LOCKED then
           kbind (addToBlocked mutex pid thread) (\<lambda>added.
             if added \<noteq> FULL_LIST
             then kdo [changeThreadState pid thread BLOCKED, unlock, yield]
             else kdo [kt pid thread, unlock, yield])
         else
           upd_mutex mutex (\<lambda>m. m\<lparr>m_lockProcess := \<lparr>tid_pid = pid, tid_thread = thread\<rparr>\<rparr>)]
      else kskip),
     unlock]"

text \<open>The \<open>while\<close> of \<open>unlockProcess\<close>: \<open>n\<close> is \<open>MAX_BLOCKED - i\<close>.\<close>

primrec unlockProcess_loop :: "nat \<Rightarrow> int \<Rightarrow> int \<Rightarrow> bool KS" where
  "unlockProcess_loop 0 mutex i = kret False"
| "unlockProcess_loop (Suc n) mutex i = with_mutex mutex (\<lambda>m.
     let b = m_blocked m i in
     if tid_pid b \<noteq> NOT_USED then
       kthen [
         upd_mutex mutex (\<lambda>m. m\<lparr>m_lockProcess := b\<rparr>),
         changeThreadState (tid_pid b) (tid_thread b) READY,
         upd_mutex mutex (\<lambda>m. m\<lparr>m_blocked :=
           (m_blocked m)(i := \<lparr>tid_pid = NOT_USED, tid_thread = NOT_USED\<rparr>)\<rparr>),
         upd_mutex mutex (\<lambda>m. m\<lparr>m_blockedQuantity := m_blockedQuantity m - 1\<rparr>)]
         (kret True)
     else unlockProcess_loop n mutex (i + 1))"

definition unlockProcess :: "int \<Rightarrow> bool KS" where
  "unlockProcess mutex = with_mutex mutex (\<lambda>m.
     if m_blockedQuantity m = 0 then kret False
     else unlockProcess_loop (nat MAX_BLOCKED) mutex 0)"

definition mutexUp :: "int \<Rightarrow> int \<Rightarrow> int \<Rightarrow> unit KS" where
  "mutexUp mutex pid thread = kdo [
     lock,
     kwith (\<lambda>s. let m = mutexes (mut s) mutex in
       if isValidMutex (mut s) mutex \<and> tid_pid (m_lockProcess m) = pid \<and> tid_thread (m_lockProcess m) = thread
       then kbind (unlockProcess mutex) (\<lambda>unlocked.
              kwhen (\<not> unlocked) [upd_mutex mutex (\<lambda>m. m\<lparr>m_value := UNLOCKED\<rparr>)])
       else kskip),
     unlock]"

section \<open>Named mutexes\<close>

text \<open>The early \<open>return i\<close> inside the search leaves the administration mutex taken.\<close>

definition findMutex :: "mutex_state \<Rightarrow> string \<Rightarrow> int option" where
  "findMutex c name = scan (\<lambda>i. cstr (m_name (mutexes c i)) = name
      \<and> tid_pid (m_creator (mutexes c i)) \<noteq> NOT_USED) 0 (nat MAX_MUTEXES)"

definition getMutex :: "killer \<Rightarrow> string \<Rightarrow> int \<Rightarrow> int \<Rightarrow> int KS" where
  "getMutex kt name pid thread =
     kbind (kwith (\<lambda>s. mutexDown kt (adminMutex (mut s)) pid thread)) (\<lambda>_.
     kwith (\<lambda>s. case findMutex (mut s) name of
       Some i \<Rightarrow> kret i
     | None \<Rightarrow> kbind (createMutex pid name thread) (\<lambda>mutex.
         kwith (\<lambda>s. kthen [mutexUp (adminMutex (mut s)) pid thread] (kret mutex)))))"

text \<open>
  \<open>while(blockedQuantity > 0) unlockProcess(mutex);\<close> every round that finds a blocked thread
  frees one of the \<open>MAX_BLOCKED\<close> cells and a round that finds none changes nothing, so a loop that runs
  more than \<open>MAX_BLOCKED\<close> rounds never ends.
\<close>

definition releaseMutex :: "killer \<Rightarrow> int \<Rightarrow> int \<Rightarrow> int \<Rightarrow> bool KS" where
  "releaseMutex kt pid mutex thread =
     kbind (kwith (\<lambda>s. mutexDown kt (adminMutex (mut s)) pid thread)) (\<lambda>_.
     kwith (\<lambda>s. let m = mutexes (mut s) mutex;
         owner = (isValidMutex (mut s) mutex \<and> pid = tid_pid (m_creator m)
                  \<and> thread = tid_thread (m_creator m)) in
       kthen [
         kwhen owner [
           upd_mutex mutex (set_creator_pid NOT_USED),
           upd_mutex mutex (set_lock_pid NOT_USED),
           kwhile (nat MAX_BLOCKED + 1) (\<lambda>s. m_blockedQuantity (mutexes (mut s) mutex) > 0)
             (kbind (unlockProcess mutex) (\<lambda>_. kskip))],
         kwith (\<lambda>s. mutexUp (adminMutex (mut s)) pid thread)]
         (kret owner)))"

text \<open>The inner loop of \<open>removePidFromMutexes\<close> and \<open>removeThreadFromMutexes\<close>, with their test as \<open>P\<close>.\<close>

definition dropBlocked :: "(threadId_t \<Rightarrow> bool) \<Rightarrow> int \<Rightarrow> int \<Rightarrow> unit KS" where
  "dropBlocked P pid i = kfor 0 (nat MAX_BLOCKED) (\<lambda>j. with_mutex i (\<lambda>m. let b = m_blocked m j in
     kwhen (P b) [
       upd_mutex i (\<lambda>m. m\<lparr>m_blocked := (m_blocked m)(j := \<lparr>tid_pid = NOT_USED, tid_thread = NOT_USED\<rparr>)\<rparr>),
       upd_mutex i (\<lambda>m. m\<lparr>m_blockedQuantity := m_blockedQuantity m - 1\<rparr>),
       changeThreadState pid (tid_thread b) READY]))"

definition removePidFromMutexes :: "killer \<Rightarrow> int \<Rightarrow> int \<Rightarrow> unit KS" where
  "removePidFromMutexes kt pid thread = kdo [
     kwith (\<lambda>s. mutexDown kt (adminMutex (mut s)) pid thread),
     kfor 0 (nat MAX_MUTEXES) (\<lambda>i. kdo [
       with_mutex i (\<lambda>m. if tid_pid (m_creator m) = pid
         then kbind (releaseMutex kt pid i thread) (\<lambda>_. kskip) else kskip),
       with_mutex i (\<lambda>m. if tid_pid (m_lockProcess m) = pid
         then mutexUp i pid (tid_pid (m_lockProcess m)) else kskip),
       dropBlocked (\<lambda>b. tid_pid b = pid) pid i]),
     kwith (\<lambda>s. mutexUp (adminMutex (mut s)) pid thread)]"

definition removeThreadFromMutexes :: "killer \<Rightarrow> int \<Rightarrow> int \<Rightarrow> unit KS" where
  "removeThreadFromMutexes kt pid thread = kdo [
     kwith (\<lambda>s. mutexDown kt (adminMutex (mut s)) pid thread),
     kfor 0 (nat MAX_MUTEXES) (\<lambda>i. kdo [
       with_mutex i (\<lambda>m. if tid_pid (m_creator m) = pid \<and> tid_thread (m_creator m) = thread
         then kbind (releaseMutex kt pid i thread) (\<lambda>_. kskip) else kskip),
       with_mutex i (\<lambda>m. if tid_pid (m_lockProcess m) = pid \<and> tid_thread (m_lockProcess m) = thread
         then mutexUp i pid (tid_pid (m_lockProcess m)) else kskip),
       dropBlocked (\<lambda>b. tid_pid b = pid \<and> tid_thread b = thread) pid i]),
     kwith (\<lambda>s. mutexUp (adminMutex (mut s)) pid thread)]"

end
