(* ===== verification/Semaphore.thy ===== *)
theory Semaphore
  imports Mutex
begin

text \<open>
  \<open>Kernel/semaphore.c\<close>: counting semaphores, each protected by a mutex of the same name.
  A negative value counts the blocked threads.
\<close>

section \<open>Table access\<close>

definition upd_sems :: "(sem_state \<Rightarrow> sem_state) \<Rightarrow> unit KS" where
  "upd_sems g = kmod (\<lambda>s. s\<lparr>sems := g (sems s)\<rparr>)"

definition with_sem :: "int \<Rightarrow> (semaphore_t \<Rightarrow> 'a KS) \<Rightarrow> 'a KS" where
  "with_sem i f =
     kwith (\<lambda>s. if in_range i MAX_SEMAPHORES then f (semaphores (sems s) i) else kfault OutOfBounds)"

definition upd_sem :: "int \<Rightarrow> (semaphore_t \<Rightarrow> semaphore_t) \<Rightarrow> unit KS" where
  "upd_sem i g =
     with_sem i (\<lambda>m. upd_sems (\<lambda>c. c\<lparr>semaphores := (semaphores c)(i := g m)\<rparr>))"

abbreviation (input) set_sem_creator_pid :: "int \<Rightarrow> semaphore_t \<Rightarrow> semaphore_t" where
  "set_sem_creator_pid p m \<equiv> m\<lparr>s_creator := (s_creator m)\<lparr>tid_pid := p\<rparr>\<rparr>"

lemmas sem_access_defs = upd_sems_def with_sem_def upd_sem_def

section \<open>Operations\<close>

definition getNextSemaphoreAvailable :: "sem_state \<Rightarrow> int" where
  "getNextSemaphoreAvailable c =
     scan_or FULL_LIST (\<lambda>i. tid_pid (s_creator (semaphores c i)) = NOT_USED) (nat MAX_SEMAPHORES)"

definition clearSemaphore :: "int \<Rightarrow> unit KS" where
  "clearSemaphore semaphore = kwhen (semaphore < MAX_SEMAPHORES) [
     upd_sem semaphore (set_sem_creator_pid NOT_USED),
     upd_sem semaphore (\<lambda>m. m\<lparr>s_name := buf_write (s_name m) [NUL]\<rparr>),
     upd_sem semaphore (\<lambda>m. m\<lparr>s_value := 0\<rparr>),
     upd_sem semaphore (\<lambda>m. m\<lparr>s_blockedQuantity := 0\<rparr>),
     kfor 0 (nat MAX_BLOCKED) (\<lambda>i. upd_sem semaphore (\<lambda>m.
       m\<lparr>s_blocked := (s_blocked m)(i := \<lparr>tid_pid = NOT_USED, tid_thread = NOT_USED\<rparr>)\<rparr>)),
     upd_sems (\<lambda>c. c\<lparr>firstAvailableSemaphore :=
       (if semaphore < firstAvailableSemaphore c then semaphore else getNextSemaphoreAvailable c)\<rparr>)]"

definition setupSemaphoreSystem :: "unit KS" where
  "setupSemaphoreSystem = kdo [
     kfor 0 (nat MAX_SEMAPHORES) clearSemaphore,
     kbind (createMutex 0 ''_SEM_MUTEX_'' 0) (\<lambda>m. upd_sems (\<lambda>c. c\<lparr>semaphoreMutex := m\<rparr>))]"

definition isValidSemaphore :: "sem_state \<Rightarrow> int \<Rightarrow> bool" where
  "isValidSemaphore c semaphore =
     (if semaphore < 0 \<or> semaphore \<ge> MAX_SEMAPHORES then False
      else tid_pid (s_creator (semaphores c semaphore)) \<noteq> NOT_USED)"

text \<open>The name and the creator are written before the mutex is looked up, and stay when that fails.\<close>

definition createSemaphore :: "killer \<Rightarrow> int \<Rightarrow> string \<Rightarrow> int \<Rightarrow> int KS" where
  "createSemaphore kt pid name thread = kwith (\<lambda>s.
     if usedSemaphores (sems s) < MAX_SEMAPHORES \<and> length name < MAX_NAME then
       let semaphore = firstAvailableSemaphore (sems s) in
       kthen [
         upd_sem semaphore (\<lambda>m. m\<lparr>s_name := buf_write (s_name m) name\<rparr>),
         upd_sem semaphore (set_sem_creator_pid pid),
         upd_sem semaphore (\<lambda>m. m\<lparr>s_creator := (s_creator m)\<lparr>tid_thread := thread\<rparr>\<rparr>)]
         (kbind (getMutex kt name pid thread) (\<lambda>mutex.
           if mutex = MUTEX_CREATION_ERROR then kret SEM_CREATION_ERROR
           else kthen [
             upd_sem semaphore (\<lambda>m. m\<lparr>s_mutex := mutex\<rparr>),
             upd_sems (\<lambda>c. c\<lparr>usedSemaphores := usedSemaphores c + 1\<rparr>),
             upd_sems (\<lambda>c. c\<lparr>firstAvailableSemaphore := getNextSemaphoreAvailable c\<rparr>)]
             (kret semaphore)))
     else kret SEM_CREATION_ERROR)"

definition findSemaphore :: "sem_state \<Rightarrow> string \<Rightarrow> int option" where
  "findSemaphore c name = scan (\<lambda>i. cstr (s_name (semaphores c i)) = name
      \<and> tid_pid (s_creator (semaphores c i)) \<noteq> NOT_USED) 0 (nat MAX_SEMAPHORES)"

definition getSemaphore :: "killer \<Rightarrow> string \<Rightarrow> int \<Rightarrow> int \<Rightarrow> int KS" where
  "getSemaphore kt name pid thread =
     kbind (kwith (\<lambda>s. mutexDown kt (semaphoreMutex (sems s)) pid thread)) (\<lambda>_.
     kwith (\<lambda>s. case findSemaphore (sems s) name of
       Some i \<Rightarrow> kret i
     | None \<Rightarrow> kbind (createSemaphore kt pid name thread) (\<lambda>semaphore.
         kwith (\<lambda>s. kthen [mutexUp (semaphoreMutex (sems s)) pid thread] (kret semaphore)))))"

definition addToSemaphoreBlocked :: "int \<Rightarrow> int \<Rightarrow> int \<Rightarrow> int KS" where
  "addToSemaphoreBlocked semaphore pid thread = with_sem semaphore (\<lambda>m.
     let index = nextListIndexAvailable (s_blocked m) MAX_BLOCKED in
     if index \<noteq> FULL_LIST then
       kthen [
         upd_sem semaphore (\<lambda>m. m\<lparr>s_blocked := (s_blocked m)(index := \<lparr>tid_pid = pid, tid_thread = thread\<rparr>)\<rparr>),
         upd_sem semaphore (\<lambda>m. m\<lparr>s_blockedQuantity := s_blockedQuantity m + 1\<rparr>)]
         (kret index)
     else kret index)"

definition wait :: "killer \<Rightarrow> int \<Rightarrow> int \<Rightarrow> int \<Rightarrow> unit KS" where
  "wait kt semaphore pid thread = kwith (\<lambda>s.
     if isValidSemaphore (sems s) semaphore then
       let up = kwith (\<lambda>s. mutexUp (s_mutex (semaphores (sems s) semaphore)) pid thread) in
       kdo [
         mutexDown kt (s_mutex (semaphores (sems s) semaphore)) pid thread,
         upd_sem semaphore (\<lambda>m. m\<lparr>s_value := s_value m - 1\<rparr>),
         with_sem semaphore (\<lambda>m.
           if s_value m < 0 then
             kbind (addToSemaphoreBlocked semaphore pid thread) (\<lambda>added.
               if added \<noteq> FULL_LIST
               then kdo [changeThreadState pid thread BLOCKED, up, yield]
               else kdo [kt pid thread, up, yield])
           else up)]
     else kskip)"

primrec unlockSemaphoreProcess_loop :: "nat \<Rightarrow> int \<Rightarrow> int \<Rightarrow> bool KS" where
  "unlockSemaphoreProcess_loop 0 semaphore i = kret False"
| "unlockSemaphoreProcess_loop (Suc n) semaphore i = with_sem semaphore (\<lambda>m.
     let b = s_blocked m i in
     if tid_pid b \<noteq> NOT_USED then
       kthen [
         changeThreadState (tid_pid b) (tid_thread b) READY,
         upd_sem semaphore (\<lambda>m. m\<lparr>s_blocked :=
           (s_blocked m)(i := \<lparr>tid_pid = NOT_USED, tid_thread = NOT_USED\<rparr>)\<rparr>),
         upd_sem semaphore (\<lambda>m. m\<lparr>s_blockedQuantity := s_blockedQuantity m - 1\<rparr>)]
         (kret True)
     else unlockSemaphoreProcess_loop n semaphore (i + 1))"

definition unlockSemaphoreProcess :: "int \<Rightarrow> bool KS" where
  "unlockSemaphoreProcess semaphore = with_sem semaphore (\<lambda>m.
     if s_blockedQuantity m = 0 then kret False
     else unlockSemaphoreProcess_loop (nat MAX_BLOCKED) semaphore 0)"

definition signal :: "killer \<Rightarrow> int \<Rightarrow> unit KS" where
  "signal kt semaphore =
     kbind getpid (\<lambda>pid. kbind getCurrentThread (\<lambda>thread. kwith (\<lambda>s.
       if isValidSemaphore (sems s) semaphore then kdo [
         mutexDown kt (s_mutex (semaphores (sems s) semaphore)) pid thread,
         kbind (unlockSemaphoreProcess semaphore) (\<lambda>_. kskip),
         upd_sem semaphore (\<lambda>m. m\<lparr>s_value := s_value m + 1\<rparr>),
         with_sem semaphore (\<lambda>m. mutexUp (s_mutex m) pid thread)]
       else kskip)))"

definition setValue :: "killer \<Rightarrow> int \<Rightarrow> int \<Rightarrow> unit KS" where
  "setValue kt semaphore value =
     kbind getpid (\<lambda>pid. kbind getCurrentThread (\<lambda>thread. kwith (\<lambda>s.
       if isValidSemaphore (sems s) semaphore then kdo [
         mutexDown kt (s_mutex (semaphores (sems s) semaphore)) pid thread,
         upd_sem semaphore (\<lambda>m. m\<lparr>s_value := value\<rparr>),
         with_sem semaphore (\<lambda>m. mutexUp (s_mutex m) pid thread)]
       else kskip)))"

text \<open>
  The loop of \<open>releaseSemaphore\<close> calls \<open>unlockProcess\<close>, the function of the mutexes, with the
  number of the semaphore: it leaves the blocked threads of the semaphore where they are.
\<close>

definition releaseSemaphore :: "killer \<Rightarrow> int \<Rightarrow> int \<Rightarrow> int \<Rightarrow> bool KS" where
  "releaseSemaphore kt pid semaphore thread =
     kbind (kwith (\<lambda>s. mutexDown kt (semaphoreMutex (sems s)) pid thread)) (\<lambda>_.
     kwith (\<lambda>s. let m = semaphores (sems s) semaphore;
         owner = (isValidSemaphore (sems s) semaphore \<and> pid = tid_pid (s_creator m)
                  \<and> thread = tid_thread (s_creator m)) in
       kthen [
         kwhen owner [
           kbind (releaseMutex kt pid (s_mutex m) thread) (\<lambda>_. kskip),
           upd_sem semaphore (set_sem_creator_pid NOT_USED),
           kwhile (nat MAX_BLOCKED + 1) (\<lambda>s. s_blockedQuantity (semaphores (sems s) semaphore) > 0)
             (kbind (unlockProcess semaphore) (\<lambda>_. kskip))],
         kwith (\<lambda>s. mutexUp (semaphoreMutex (sems s)) pid thread)]
         (kret owner)))"

definition dropSemaphoreBlocked :: "(threadId_t \<Rightarrow> bool) \<Rightarrow> int \<Rightarrow> int \<Rightarrow> unit KS" where
  "dropSemaphoreBlocked P pid i = kfor 0 (nat MAX_BLOCKED) (\<lambda>j. with_sem i (\<lambda>m. let b = s_blocked m j in
     kwhen (P b) [
       upd_sem i (\<lambda>m. m\<lparr>s_blocked := (s_blocked m)(j := \<lparr>tid_pid = NOT_USED, tid_thread = NOT_USED\<rparr>)\<rparr>),
       upd_sem i (\<lambda>m. m\<lparr>s_blockedQuantity := s_blockedQuantity m - 1\<rparr>),
       upd_sem i (\<lambda>m. m\<lparr>s_value := s_value m + 1\<rparr>),
       changeThreadState pid (tid_thread b) READY]))"

definition removePidFromSemaphores :: "killer \<Rightarrow> int \<Rightarrow> int \<Rightarrow> unit KS" where
  "removePidFromSemaphores kt pid thread = kdo [
     kwith (\<lambda>s. mutexDown kt (semaphoreMutex (sems s)) pid thread),
     kfor 0 (nat MAX_SEMAPHORES) (\<lambda>i. kdo [
       with_sem i (\<lambda>m. if tid_pid (s_creator m) = pid
         then kbind (releaseSemaphore kt pid i thread) (\<lambda>_. kskip) else kskip),
       dropSemaphoreBlocked (\<lambda>b. tid_pid b = pid) pid i]),
     kwith (\<lambda>s. mutexUp (semaphoreMutex (sems s)) pid thread)]"

definition removeThreadFromSemaphores :: "killer \<Rightarrow> int \<Rightarrow> int \<Rightarrow> unit KS" where
  "removeThreadFromSemaphores kt pid thread = kdo [
     kwith (\<lambda>s. mutexDown kt (semaphoreMutex (sems s)) pid thread),
     kfor 0 (nat MAX_SEMAPHORES) (\<lambda>i. kdo [
       with_sem i (\<lambda>m. if tid_pid (s_creator m) = pid \<and> tid_thread (s_creator m) = thread
         then kbind (releaseSemaphore kt pid i thread) (\<lambda>_. kskip) else kskip),
       dropSemaphoreBlocked (\<lambda>b. tid_pid b = pid \<and> tid_thread b = thread) pid i]),
     kwith (\<lambda>s. mutexUp (semaphoreMutex (sems s)) pid thread)]"

end
