(* ===== verification/Memory.thy ===== *)
theory Memory
  imports Mutex
begin

text \<open>
  The entry points of \<open>Kernel/buddyMemoryAllocator.c\<close>: they take the allocator's mutex around the
  tree operations of \<open>Buddy.thy\<close>.
\<close>

definition lift_heap :: "(buddyHeap_t \<Rightarrow> ('a \<times> buddyHeap_t) option) \<Rightarrow> 'a KS" where
  "lift_heap f = kwith (\<lambda>s. case f (buddyHeap s) of
     None \<Rightarrow> kfault OutOfBounds
   | Some (a, h) \<Rightarrow> kthen [kmod (\<lambda>s. s\<lparr>buddyHeap := h\<rparr>)] (kret a))"

definition initHeap :: "unit KS" where
  "initHeap = kdo [
     kmod (\<lambda>s. s\<lparr>buddyHeap := initializeHeap\<rparr>),
     kbind (createMutex 0 ''_BUDDY_MUTEX_'' 0) (\<lambda>m. kmod (\<lambda>s. s\<lparr>buddyMutex := m\<rparr>))]"

definition allocatePages :: "killer \<Rightarrow> int \<Rightarrow> addr KS" where
  "allocatePages kt pages =
     (if pages = 0 \<or> pages > int PAGE_QUANTITY then kret NULL
      else kbind getpid (\<lambda>pid. kbind getCurrentThread (\<lambda>thread.
        kbind (kwith (\<lambda>s. mutexDown kt (buddyMutex s) pid thread)) (\<lambda>_.
        kbind (lift_heap (getPages pages)) (\<lambda>address.
        kthen [kwith (\<lambda>s. mutexUp (buddyMutex s) pid thread)] (kret address))))))"

definition allocateMemory :: "killer \<Rightarrow> nat \<Rightarrow> addr KS" where
  "allocateMemory kt bytes = allocatePages kt (pagesToAllocate bytes)"

text \<open>Whether the block is allocated is tested before the mutex is taken.\<close>

definition freeMemory :: "killer \<Rightarrow> addr \<Rightarrow> bool KS" where
  "freeMemory kt mb =
     kbind getpid (\<lambda>pid. kbind getCurrentThread (\<lambda>thread. kwith (\<lambda>s.
       case isAllocatedPage (buddyHeap s) mb of
         None \<Rightarrow> kfault OutOfBounds
       | Some r \<Rightarrow>
           if r \<noteq> 0 then
             kthen [
               kwith (\<lambda>s. mutexDown kt (buddyMutex s) pid thread),
               lift_heap (\<lambda>h. map_option (Pair ()) (freeBlock mb h)),
               kwith (\<lambda>s. mutexUp (buddyMutex s) pid thread)]
               (kret True)
           else kret False)))"

text \<open>
  The block to copy is computed as \<open>int\<close>s, and \<open>memcpy\<close> is called with the old block as its
  destination.
\<close>

definition reallocatePages :: "killer \<Rightarrow> int \<Rightarrow> addr \<Rightarrow> addr KS" where
  "reallocatePages kt pages address = kwith (\<lambda>s.
     case getParentIndex (buddyHeap s) address of
       None \<Rightarrow> kfault OutOfBounds
     | Some parent \<Rightarrow> let divisions = log2 (to_uint64 parent) + 1 in
         if pages = 0 \<or> pages > int PAGE_QUANTITY then kret NULL
         else kbind (freeMemory kt address) (\<lambda>freed.
           if freed then
             let previousPages = int (PAGE_SIZE * PAGE_QUANTITY) div 2 ^ nat divisions in
             kbind (allocatePages kt pages) (\<lambda>aux.
               kthen [
                 kwhen (aux \<noteq> NULL) [
                   kmod (\<lambda>s. s\<lparr>kmem :=
                     memcpy address aux (to_uint64 (to_int32 (previousPages * int PAGE_SIZE))) (kmem s)\<rparr>)]]
                 (kret aux))
           else kret NULL))"

definition reallocateMemory :: "killer \<Rightarrow> nat \<Rightarrow> addr \<Rightarrow> addr KS" where
  "reallocateMemory kt bytes address = reallocatePages kt (pagesToAllocate bytes) address"

section \<open>Strings in memory\<close>

definition with_str :: "addr \<Rightarrow> (string \<Rightarrow> 'a KS) \<Rightarrow> 'a KS" where
  "with_str p f = kwith (\<lambda>s.
     if p = NULL then kfault NullDeref
     else case read_str (kmem s) p of None \<Rightarrow> kfault Diverges | Some str \<Rightarrow> f str)"

end
