(* ===== verification/Terminal.thy ===== *)
theory Terminal
  imports Sched
begin

text \<open>
  \<open>Kernel/video.c\<close> and \<open>Kernel/terminal.c\<close>: the 80 by 25 text screen with its cursor, and the
  ring buffer of typed characters.  \<open>video[y][x]\<close> is cell \<open>80 * y + x\<close>, as in the flat video memory the
  code points to; an access outside the 2000 cells is \<open>OutOfBounds\<close>.  Cursor positions are 8-bit and buffer
  indices 16-bit unsigned, so their decrements wrap.
\<close>

unbundle bit_operations_syntax

type_synonym 'a T = "(term_state, 'a) K"

section \<open>Cells and cursor\<close>

definition cell_ix :: "int \<Rightarrow> int \<Rightarrow> int" where
  "cell_ix y x = WIDTH * y + x"

definition with_cell :: "int \<Rightarrow> int \<Rightarrow> (cell_t \<Rightarrow> 'a T) \<Rightarrow> 'a T" where
  "with_cell y x f = kwith (\<lambda>t.
     if in_range (cell_ix y x) (WIDTH * HEIGHT) then f (video t (cell_ix y x)) else kfault OutOfBounds)"

definition upd_cell :: "int \<Rightarrow> int \<Rightarrow> (cell_t \<Rightarrow> cell_t) \<Rightarrow> unit T" where
  "upd_cell y x g = with_cell y x (\<lambda>c. kmod (\<lambda>t. t\<lparr>video := (video t)(cell_ix y x := g c)\<rparr>))"

definition updateCursor :: "u8 \<Rightarrow> u8 \<Rightarrow> unit T" where
  "updateCursor x y = kmod (\<lambda>t. t\<lparr>videoCursorX := x, videoCursorY := y\<rparr>)"

abbreviation (input) shown :: "char \<Rightarrow> char" where
  "shown c \<equiv> if c = NUL then CHR '' '' else c"

definition writeScreen :: "u8 \<Rightarrow> u8 \<Rightarrow> char \<Rightarrow> u8 \<Rightarrow> unit T" where
  "writeScreen x y c st = upd_cell (uint y) (uint x) (\<lambda>_. \<lparr>cell_ch = shown c, cell_style = st\<rparr>)"

definition writeAtCursor :: "char \<Rightarrow> u8 \<Rightarrow> unit T" where
  "writeAtCursor c st = kwith (\<lambda>t.
     upd_cell (uint (videoCursorY t)) (uint (videoCursorX t)) (\<lambda>_. \<lparr>cell_ch = shown c, cell_style = st\<rparr>))"

definition at_cursor :: "(cell_t \<Rightarrow> cell_t) \<Rightarrow> unit T" where
  "at_cursor g = kwith (\<lambda>t. upd_cell (uint (cursorY t)) (uint (cursorX t)) g)"

definition toggleCursors :: "unit T" where
  "toggleCursors = kwith (\<lambda>t.
     if cursorVisible t then at_cursor (\<lambda>c. c\<lparr>cell_style := 0x77 XOR cell_style c\<rparr>) else kskip)"

definition blinkCursor :: "unit T" where
  "blinkCursor = kdo [
     at_cursor (\<lambda>c. c\<lparr>cell_style := 0x77 XOR cell_style c\<rparr>),
     kmod (\<lambda>t. t\<lparr>cursorVisible := \<not> cursorVisible t\<rparr>)]"

text \<open>\<open>memcpy\<close> of rows 1 to 24 over rows 0 to 23, then the last row is cleared.\<close>

definition shiftScreen :: "unit T" where
  "shiftScreen = kmod (\<lambda>t. t\<lparr>video := (\<lambda>i.
     if 0 \<le> i \<and> i < WIDTH * (HEIGHT - 1) then video t (i + WIDTH)
     else if WIDTH * (HEIGHT - 1) \<le> i \<and> i < WIDTH * HEIGHT then \<lparr>cell_ch = NUL, cell_style = defaultStyle t\<rparr>
     else video t i)\<rparr>)"

definition clearScreen :: "unit T" where
  "clearScreen = kdo [
     toggleCursors,
     kmod (\<lambda>t. t\<lparr>video := (\<lambda>i.
       if 0 \<le> i \<and> i < WIDTH * HEIGHT then \<lparr>cell_ch = NUL, cell_style = defaultStyle t\<rparr> else video t i)\<rparr>),
     kmod (\<lambda>t. t\<lparr>cursorX := 0, cursorY := 0\<rparr>),
     updateCursor 0 0,
     toggleCursors]"

definition incrementCursor :: "unit T" where
  "incrementCursor = kdo [
     kwith (\<lambda>t. if uint (cursorX t) = WIDTH - 1 then
         kdo [
           kmod (\<lambda>t. t\<lparr>cursorX := 0\<rparr>),
           if uint (cursorY t) = HEIGHT - 1 then shiftScreen
           else kmod (\<lambda>t. t\<lparr>cursorY := cursorY t + 1\<rparr>)]
       else kmod (\<lambda>t. t\<lparr>cursorX := cursorX t + 1\<rparr>)),
     kwith (\<lambda>t. updateCursor (cursorX t) (cursorY t))]"

section \<open>Printing\<close>

text \<open>
  The first loop of \<open>printChar\<close> looks for the next empty cell from the cursor on; \<open>None\<close> is the
  early \<open>return\<close>.  It passes every cell at most once, so \<open>WIDTH * HEIGHT + 1\<close> rounds are enough; the second
  loop walks back over the same cells.
\<close>

definition SCREEN_FUEL :: nat where
  "SCREEN_FUEL = nat (WIDTH * HEIGHT) + 1"

primrec printChar_find :: "nat \<Rightarrow> int \<Rightarrow> int \<Rightarrow> (int \<times> int) option T" where
  "printChar_find 0 x y = kfault Diverges"
| "printChar_find (Suc n) x y = with_cell y x (\<lambda>c.
     if cell_ch c \<noteq> NUL then
       let x = x + 1 in
       if x = WIDTH then
         (if y = HEIGHT - 1 then kwith (\<lambda>t.
            if cursorY t = 0 then kret None
            else kthen [shiftScreen, kmod (\<lambda>t. t\<lparr>cursorY := cursorY t - 1\<rparr>)] (printChar_find n 0 y))
          else printChar_find n 0 (y + 1))
       else printChar_find n x y
     else kret (Some (x, y)))"

primrec printChar_shift :: "nat \<Rightarrow> int \<Rightarrow> int \<Rightarrow> unit T" where
  "printChar_shift 0 x y = kfault Diverges"
| "printChar_shift (Suc n) x y = kwith (\<lambda>t.
     if x \<noteq> uint (cursorX t) \<or> y \<noteq> uint (cursorY t) then
       let prevX = (if x - 1 < 0 then WIDTH - 1 else x - 1);
           prevY = (if x - 1 < 0 then y - 1 else y) in
       kdo [
         with_cell prevY prevX (\<lambda>c. upd_cell y x (\<lambda>_. c)),
         printChar_shift n prevX prevY]
     else kskip)"

definition printChar :: "char \<Rightarrow> u8 \<Rightarrow> unit T" where
  "printChar c st = kwith (\<lambda>t.
     kbind (printChar_find SCREEN_FUEL (uint (cursorX t)) (uint (cursorY t))) (\<lambda>r.
       case r of
         None \<Rightarrow> kskip
       | Some (x, y) \<Rightarrow> kwith (\<lambda>t. kdo [
           printChar_shift SCREEN_FUEL x y,
           at_cursor (\<lambda>cell. cell\<lparr>cell_style := st\<rparr>),
           at_cursor (\<lambda>cell. cell\<lparr>cell_ch := c\<rparr>),
           if x = uint (cursorX t) \<and> y = uint (cursorY t) then writeAtCursor c st else kskip,
           incrementCursor])))"

definition printCharAtPos :: "char \<Rightarrow> int \<Rightarrow> int \<Rightarrow> unit T" where
  "printCharAtPos c posX posY =
     (if posX < 0 \<or> posX > WIDTH \<or> posY < 0 \<or> posY > HEIGHT then kskip
      else kdo [
        kwith (\<lambda>t. upd_cell posY posX (\<lambda>cell. cell\<lparr>cell_style := defaultStyle t\<rparr>)),
        upd_cell posY posX (\<lambda>cell. cell\<lparr>cell_ch := c\<rparr>)])"

primrec newLine_loop :: "nat \<Rightarrow> unit T" where
  "newLine_loop 0 = kfault Diverges"
| "newLine_loop (Suc n) = kwith (\<lambda>t. with_cell (uint (cursorY t)) (uint (cursorX t)) (\<lambda>c.
     if cell_ch c \<noteq> NUL then
       kdo [
         if uint (cursorX t) = WIDTH - 1 then
           kdo [
             kmod (\<lambda>t. t\<lparr>cursorX := 0\<rparr>),
             if uint (cursorY t) = HEIGHT - 1 then shiftScreen
             else kmod (\<lambda>t. t\<lparr>cursorY := cursorY t + 1\<rparr>)]
         else kmod (\<lambda>t. t\<lparr>cursorX := cursorX t + 1\<rparr>),
         newLine_loop n]
     else kskip))"

definition newLine :: "unit T" where
  "newLine = kdo [
     toggleCursors,
     newLine_loop SCREEN_FUEL,
     kmod (\<lambda>t. t\<lparr>cursorX := 0\<rparr>),
     kwith (\<lambda>t. if uint (cursorY t) = HEIGHT - 1 then shiftScreen
       else kmod (\<lambda>t. t\<lparr>cursorY := cursorY t + 1\<rparr>)),
     kwith (\<lambda>t. updateCursor (cursorX t) (cursorY t)),
     toggleCursors]"

text \<open>The first loop of \<open>backspace\<close> returns \<open>offset\<close> and moves the cursor.\<close>

primrec backspace_find :: "nat \<Rightarrow> int \<Rightarrow> int \<Rightarrow> int \<Rightarrow> int T" where
  "backspace_find 0 prevX prevY offset = kfault Diverges"
| "backspace_find (Suc n) prevX prevY offset =
     (if prevY \<ge> 0 then with_cell prevY prevX (\<lambda>c.
        if cell_ch c = NUL then
          kthen [kmod (\<lambda>t. t\<lparr>cursorX := word_of_int prevX, cursorY := word_of_int prevY\<rparr>)]
            (if prevX - 1 < 0 then backspace_find n (WIDTH - 1) (prevY - 1) (offset + 1)
             else backspace_find n (prevX - 1) prevY (offset + 1))
        else kret offset)
      else kret offset)"

text \<open>\<open>while(prevX < 0) { prevX += WIDTH; prevY--; }\<close> is \<open>mod\<close> and \<open>div\<close>, since \<open>prevX < WIDTH\<close>.\<close>

primrec backspace_pull :: "nat \<Rightarrow> int \<Rightarrow> int \<Rightarrow> int \<Rightarrow> unit T" where
  "backspace_pull 0 x y offset = kfault Diverges"
| "backspace_pull (Suc n) x y offset =
     (let prevX = (x - offset) mod WIDTH; prevY = y + (x - offset) div WIDTH;
          x' = (if x = WIDTH - 1 then 0 else x + 1);
          y' = (if x = WIDTH - 1 then y + 1 else y) in
      kdo [
        with_cell y x (\<lambda>c. upd_cell prevY prevX (\<lambda>_. c)),
        upd_cell y x (\<lambda>c. c\<lparr>cell_ch := NUL\<rparr>),
        if y' < HEIGHT
        then with_cell prevY prevX (\<lambda>c.
          if cell_ch c \<noteq> NUL then backspace_pull n x' y' offset else kskip)
        else kskip])"

definition backspace :: "unit T" where
  "backspace = kwith (\<lambda>t. if cursorY t > 0 \<or> cursorX t > 0 then
     let x = uint (cursorX t); y = uint (cursorY t);
         prevX = (if x = 0 then WIDTH - 1 else x - 1);
         prevY = (if x = 0 then y - 1 else y) in
     kdo [
       toggleCursors,
       kmod (\<lambda>t. t\<lparr>cursorX := word_of_int prevX, cursorY := word_of_int prevY\<rparr>),
       kbind (backspace_find SCREEN_FUEL prevX prevY 0) (\<lambda>offset.
         backspace_pull SCREEN_FUEL x y (if offset = 0 then 1 else offset)),
       kwith (\<lambda>t. updateCursor (cursorX t) (cursorY t)),
       toggleCursors]
     else kskip)"

definition printcWithStyle :: "char \<Rightarrow> u8 \<Rightarrow> unit T" where
  "printcWithStyle c st =
     (if c = CHR 0x08 then backspace
      else if c = CHR 0x0A then newLine
      else kdo [toggleCursors, printChar c st, toggleCursors])"

definition printc :: "char \<Rightarrow> unit T" where
  "printc c = kwith (\<lambda>t. printcWithStyle c (defaultStyle t))"

definition print :: "string \<Rightarrow> unit T" where
  "print s = kdo (toggleCursors # map (\<lambda>c. kwith (\<lambda>t. printChar c (defaultStyle t))) s @ [toggleCursors])"

definition println :: "string \<Rightarrow> unit T" where
  "println s = kdo [print s, newLine]"

definition setStyle :: "u8 \<Rightarrow> unit T" where
  "setStyle st = kmod (\<lambda>t. t\<lparr>defaultStyle := st\<rparr>)"

definition getCharAt :: "u8 \<Rightarrow> u8 \<Rightarrow> char T" where
  "getCharAt x y = with_cell (uint y) (uint x) (\<lambda>c. kret (cell_ch c))"

text \<open>\<open>uintToBase\<close> writes to the static \<open>char buffer[64]\<close>: 64 digits and the NUL do not fit.\<close>

definition printBase :: "nat \<Rightarrow> nat \<Rightarrow> unit T" where
  "printBase value b = (case base_text value b of
     None \<Rightarrow> kfault Diverges
   | Some txt \<Rightarrow> if length txt < 64 then print txt else kfault OutOfBounds)"

definition printDec :: "nat \<Rightarrow> unit T" where "printDec value = printBase value 10"
definition printHex :: "nat \<Rightarrow> unit T" where "printHex value = printBase value 16"
definition printBin :: "nat \<Rightarrow> unit T" where "printBin value = printBase value 2"

section \<open>Cursor keys\<close>

text \<open>\<open>while(cursorX > 0 && video[cursorY][cursorX].ch == 0) cursorX--;\<close> for at most \<open>WIDTH\<close> cells.\<close>

primrec retreat :: "nat \<Rightarrow> unit T" where
  "retreat 0 = kfault Diverges"
| "retreat (Suc n) = kwith (\<lambda>t. if cursorX t > 0 then
     with_cell (uint (cursorY t)) (uint (cursorX t)) (\<lambda>c.
       if cell_ch c = NUL then kdo [kmod (\<lambda>t. t\<lparr>cursorX := cursorX t - 1\<rparr>), retreat n] else kskip)
     else kskip)"

primrec advance :: "nat \<Rightarrow> unit T" where
  "advance 0 = kfault Diverges"
| "advance (Suc n) = kwith (\<lambda>t. if uint (cursorX t) < WIDTH - 1 then
     with_cell (uint (cursorY t)) (uint (cursorX t)) (\<lambda>c.
       if cell_ch c \<noteq> NUL then kdo [kmod (\<lambda>t. t\<lparr>cursorX := cursorX t + 1\<rparr>), advance n] else kskip)
     else kskip)"

definition cursorUp :: "unit T" where
  "cursorUp = kdo [
     toggleCursors,
     kmod (\<lambda>t. if cursorY t > 0 then t\<lparr>cursorY := cursorY t - 1\<rparr> else t),
     retreat 256,
     kwith (\<lambda>t. updateCursor (cursorX t) (cursorY t)),
     toggleCursors]"

definition cursorDown :: "unit T" where
  "cursorDown = kdo [
     toggleCursors,
     kmod (\<lambda>t. if uint (cursorY t) < HEIGHT - 1 then t\<lparr>cursorY := cursorY t + 1\<rparr> else t),
     retreat 256,
     kwith (\<lambda>t. updateCursor (cursorX t) (cursorY t)),
     toggleCursors]"

definition cursorLeft :: "unit T" where
  "cursorLeft = kdo [
     toggleCursors,
     kwith (\<lambda>t.
       if cursorX t > 0 then kmod (\<lambda>t. t\<lparr>cursorX := cursorX t - 1\<rparr>)
       else if cursorY t > 0 then kdo [kmod (\<lambda>t. t\<lparr>cursorY := cursorY t - 1\<rparr>), advance 256]
       else kskip),
     kwith (\<lambda>t. updateCursor (cursorX t) (cursorY t)),
     toggleCursors]"

definition cursorRight :: "unit T" where
  "cursorRight = kdo [
     toggleCursors,
     kwith (\<lambda>t.
       let go = kmod (\<lambda>t. if uint (cursorY t) < HEIGHT - 1 then t\<lparr>cursorY := cursorY t + 1, cursorX := 0\<rparr> else t) in
       if uint (cursorX t) = WIDTH - 1 then go
       else with_cell (uint (cursorY t)) (uint (cursorX t)) (\<lambda>c.
         if cell_ch c = NUL then go else kmod (\<lambda>t. t\<lparr>cursorX := cursorX t + 1\<rparr>))),
     kwith (\<lambda>t. updateCursor (cursorX t) (cursorY t)),
     toggleCursors]"

section \<open>Typed characters\<close>

definition BUFFER_SIZE :: int where [consts_defs]: "BUFFER_SIZE = WIDTH * HEIGHT + 1000"

definition kb_read :: "u16 \<Rightarrow> (char \<Rightarrow> 'a T) \<Rightarrow> 'a T" where
  "kb_read i f = kwith (\<lambda>t.
     if uint i < BUFFER_SIZE then f (kbBuffer t (uint i)) else kfault OutOfBounds)"

definition kb_write :: "u16 \<Rightarrow> char \<Rightarrow> unit T" where
  "kb_write i c = kwith (\<lambda>t.
     if uint i < BUFFER_SIZE then kmod (\<lambda>t. t\<lparr>kbBuffer := (kbBuffer t)(uint i := c)\<rparr>) else kfault OutOfBounds)"

text \<open>\<open>x++; if(x == BUFFER_SIZE) x = 0;\<close>\<close>

definition succ_ix :: "u16 \<Rightarrow> u16" where
  "succ_ix i = (let j = i + 1 in if uint j = BUFFER_SIZE then 0 else j)"

text \<open>\<open>x--; if(x < 0) x = BUFFER_SIZE;\<close> on a \<open>uint16_t\<close>, which is never below 0.\<close>

definition pred_ix :: "u16 \<Rightarrow> u16" where
  "pred_ix i = (let j = i - 1 in if uint j < 0 then word_of_int BUFFER_SIZE else j)"

text \<open>
  Indices beyond the buffer fault, so a round that does not fault has \<open>from\<close> inside it: \<open>BUFFER_SIZE + 1\<close>
  rounds visit every index or never end.
\<close>

primrec shiftLeft_loop :: "nat \<Rightarrow> u16 \<Rightarrow> unit T" where
  "shiftLeft_loop 0 src = kfault Diverges"
| "shiftLeft_loop (Suc n) src = kwith (\<lambda>t.
     if src \<noteq> endIndex t then
       kdo [
         kb_read (succ_ix src) (\<lambda>c. kb_write src c),
         shiftLeft_loop n (succ_ix src)]
     else kskip)"

definition shiftLeft :: "unit T" where
  "shiftLeft = kwith (\<lambda>t. if writeIndex t \<noteq> startIndex t
     then shiftLeft_loop (nat BUFFER_SIZE + 1) (pred_ix (writeIndex t)) else kskip)"

primrec shiftRight_loop :: "nat \<Rightarrow> u16 \<Rightarrow> unit T" where
  "shiftRight_loop 0 src = kfault Diverges"
| "shiftRight_loop (Suc n) src = kdo [
     kb_read (pred_ix src) (\<lambda>c. kb_write src c),
     kwith (\<lambda>t. if pred_ix src \<noteq> writeIndex t then shiftRight_loop n (pred_ix src) else kskip)]"

definition shiftRight :: "unit T" where
  "shiftRight = kwith (\<lambda>t. if writeIndex t \<noteq> endIndex t
     then shiftRight_loop (nat BUFFER_SIZE + 1) (endIndex t) else kskip)"

definition echo_char :: "char \<Rightarrow> unit T" where
  "echo_char c = kwith (\<lambda>t. if echo t \<noteq> 0 then printc c else kskip)"

text \<open>Terminal operations inside the kernel.\<close>

definition in_term :: "'a T \<Rightarrow> 'a KS" where
  "in_term m = (\<lambda>s. case m (terminal s) of
     Done a t \<Rightarrow> Done a (s\<lparr>terminal := t\<rparr>)
   | Yield t k \<Rightarrow> Fault Diverges
   | Fault e \<Rightarrow> Fault e)"

definition writeBuffer :: "char \<Rightarrow> unit KS" where
  "writeBuffer c =
     (if c = CHR 0x08 then in_term (kwith (\<lambda>t.
        if writeIndex t \<noteq> startIndex t then
          kdo [
            shiftLeft,
            kmod (\<lambda>t. t\<lparr>writeIndex := pred_ix (writeIndex t)\<rparr>),
            kmod (\<lambda>t. t\<lparr>endIndex := pred_ix (endIndex t)\<rparr>),
            kmod (\<lambda>t. t\<lparr>kbSize := kbSize t - 1\<rparr>),
            echo_char c]
        else kskip))
      else if c = CHR 0x0A then kdo [
        in_term (kdo [
          kwith (\<lambda>t. kb_write (endIndex t) c),
          kmod (\<lambda>t. t\<lparr>endIndex := succ_ix (endIndex t), kbSize := kbSize t + 1\<rparr>),
          kmod (\<lambda>t. t\<lparr>writeIndex := endIndex t, startIndex := endIndex t\<rparr>),
          echo_char c]),
        unblockRead]
      else in_term (kdo [
        kwith (\<lambda>t. if uint (kbSize t) < BUFFER_SIZE - 1 then
          kdo [
            shiftRight,
            kwith (\<lambda>t. kb_write (writeIndex t) c),
            kmod (\<lambda>t. t\<lparr>writeIndex := succ_ix (writeIndex t)\<rparr>),
            kmod (\<lambda>t. t\<lparr>endIndex := succ_ix (endIndex t)\<rparr>),
            kmod (\<lambda>t. t\<lparr>kbSize := kbSize t + 1\<rparr>)]
          else kskip),
        echo_char c]))"

definition take_char :: "char T" where
  "take_char = kwith (\<lambda>t. kb_read (readIndex t) (\<lambda>c.
     kthen [kmod (\<lambda>t. t\<lparr>readIndex := succ_ix (readIndex t), kbSize := kbSize t - 1\<rparr>)] (kret c)))"

definition readBuffer :: "char KS" where
  "readBuffer =
     kbind (kwith (\<lambda>s. kwhen (readIndex (terminal s) \<ge> startIndex (terminal s)) [blockRead])) (\<lambda>_.
     kwith (\<lambda>s. if readIndex (terminal s) < startIndex (terminal s) then in_term take_char else kret NUL))"

definition nonBlockRead :: "char T" where
  "nonBlockRead = kwith (\<lambda>t. if readIndex t < writeIndex t then take_char else kret NUL)"

definition keyboardLeft :: "unit T" where
  "keyboardLeft = kwith (\<lambda>t. if writeIndex t \<noteq> startIndex t then
     kdo [kmod (\<lambda>t. t\<lparr>writeIndex := pred_ix (writeIndex t)\<rparr>),
          if echo t \<noteq> 0 then cursorLeft else kskip]
     else kskip)"

definition keyboardRight :: "unit T" where
  "keyboardRight = kwith (\<lambda>t. if writeIndex t \<noteq> endIndex t then
     kdo [kmod (\<lambda>t. t\<lparr>writeIndex := succ_ix (writeIndex t)\<rparr>),
          if echo t \<noteq> 0 then cursorRight else kskip]
     else kskip)"

definition setEcho :: "u8 \<Rightarrow> unit T" where
  "setEcho b = kmod (\<lambda>t. t\<lparr>echo := b\<rparr>)"

definition resetBuffer :: "unit T" where
  "resetBuffer = kmod (\<lambda>t. t\<lparr>startIndex := 0, endIndex := 0, writeIndex := 0, readIndex := 0\<rparr>)"

end
