(* ===== verification/Process.thy ===== *)
theory Process
  imports Semaphore Memory Terminal
begin

text \<open>
  Creation and destruction: \<open>Kernel/process.c\<close>, \<open>Kernel/threads.c\<close> and the kill functions of
  \<open>Kernel/scheduler.c\<close>.  At the end the recursion of \<open>mutexDown\<close> through \<open>killThread\<close> is tied.
\<close>

section \<open>Threads\<close>

text \<open>\<open>sizeof(thread_t)\<close>, \<open>sizeof(process_t)\<close> and \<open>sizeof(stackFrame_t)\<close> on x86-64.\<close>

definition SIZEOF_THREAD :: nat where [consts_defs]: "SIZEOF_THREAD = 32"
definition SIZEOF_PROCESS :: nat where [consts_defs]: "SIZEOF_PROCESS = 592"
definition SIZEOF_FRAME :: nat where [consts_defs]: "SIZEOF_FRAME = 184"

definition fillStackFrame :: "addr \<Rightarrow> addr \<Rightarrow> int \<Rightarrow> addr \<Rightarrow> addr KS" where
  "fillStackFrame entry stk argc argv = (let frame = stk - SIZEOF_FRAME in
     kthen [kmod (\<lambda>s. s\<lparr>frames := (frames s)(frame \<mapsto>
       \<lparr>f_gs = 0x001, f_fs = 0x002,
        f_r15 = 0x003, f_r14 = 0x004, f_r13 = 0x005, f_r12 = 0x006,
        f_r11 = 0x007, f_r10 = 0x008, f_r9 = 0x009, f_r8 = 0x00A,
        f_rsi = argv, f_rdi = to_uint64 argc, f_rbp = 0x00D, f_rdx = entry,
        f_rcx = 0x00F, f_rbx = 0x010, f_rax = 0x011,
        f_rip = callProcessAddr (layout s), f_cs = 0x008, f_eflags = 0x202,
        f_rsp = frame + 176, f_ss = 0x000, f_base = 0x000\<rparr>)\<rparr>)]
     (kret frame))"

definition createThread :: "killer \<Rightarrow> int \<Rightarrow> addr \<Rightarrow> addr \<Rightarrow> addr KS" where
  "createThread kt argc argv entry =
     kbind (allocatePages kt (int THREAD_INITIAL_PAGES)) (\<lambda>aux.
     if aux = NULL then kfault NullDeref
     else let thread = aux + THREAD_INITIAL_PAGES * PAGE_SIZE - 1 - SIZEOF_THREAD in
       kbind (fillStackFrame entry thread argc argv) (\<lambda>frame.
       kthen [kmod (\<lambda>s. s\<lparr>thrs := (thrs s)(thread \<mapsto>
         \<lparr>th_stack = frame, th_entryPoint = entry, th_memoryBase = aux,
          th_state = READY, th_waitingThread = NOT_WAITING\<rparr>)\<rparr>)]
       (kret thread)))"

definition deleteThread :: "killer \<Rightarrow> addr \<Rightarrow> unit KS" where
  "deleteThread kt thread = with_thr thread (\<lambda>th.
     kbind (freeMemory kt (th_memoryBase th)) (\<lambda>_. kskip))"

definition killThreads :: "killer \<Rightarrow> addr \<Rightarrow> unit KS" where
  "killThreads kt process = kfor 0 (nat MAX_THREADS) (\<lambda>i.
     with_node process i (\<lambda>n. kwhen (tn_thread n \<noteq> NULL) [deleteThread kt (tn_thread n)]))"

definition unlockWaitingThreads :: "addr \<Rightarrow> int \<Rightarrow> unit KS" where
  "unlockWaitingThreads process thread = kfor 0 (nat MAX_THREADS) (\<lambda>i.
     with_node process i (\<lambda>n. if tn_thread n \<noteq> NULL then with_thr (tn_thread n) (\<lambda>th.
       kwhen (th_state th = SLEEPING \<and> th_waitingThread th = thread) [
         upd_thr (tn_thread n) (\<lambda>th. th\<lparr>th_waitingThread := NOT_WAITING\<rparr>),
         with_proc process (\<lambda>pr. changeThreadState (pr_pid pr) i READY)])
       else kskip))"

definition joinThread :: "addr \<Rightarrow> int \<Rightarrow> int \<Rightarrow> unit KS" where
  "joinThread process thread toJoin = kwhen (process \<noteq> NULL) [
     with_node process toJoin (\<lambda>n. kwhen (tn_thread n \<noteq> NULL) [
       with_node process thread (\<lambda>n. upd_thr (tn_thread n) (\<lambda>th. th\<lparr>th_waitingThread := toJoin\<rparr>)),
       with_node process thread (\<lambda>n. upd_thr (tn_thread n) (\<lambda>th. th\<lparr>th_state := SLEEPING\<rparr>)),
       yield])]"

definition firstAvailableThreadSpace :: "process_t \<Rightarrow> int" where
  "firstAvailableThreadSpace pr =
     scan_or THREAD_LIMIT_REACHED (\<lambda>i. tn_thread (pr_threads pr i) = NULL) (nat MAX_THREADS)"

definition addThread :: "addr \<Rightarrow> addr \<Rightarrow> int KS" where
  "addThread process thread = with_proc process (\<lambda>pr. let index = firstAvailableThreadSpace pr in
     if index \<noteq> THREAD_LIMIT_REACHED then
       kthen [
         upd_node process index (\<lambda>n. n\<lparr>tn_thread := thread\<rparr>),
         with_node process (pr_currentThread pr) (\<lambda>cn. let next = tn_next cn in
           kdo [
             upd_node process (pr_currentThread pr) (\<lambda>n. n\<lparr>tn_next := index\<rparr>),
             upd_node process index (\<lambda>n. n\<lparr>tn_next := next\<rparr>)])]
         (kret index)
     else kret (-1))"

section \<open>Processes\<close>

definition initializeThreads :: "addr \<Rightarrow> unit KS" where
  "initializeThreads process = kfor 0 (nat MAX_THREADS) (\<lambda>i. upd_node process i (\<lambda>n. n\<lparr>tn_thread := NULL\<rparr>))"

text \<open>The bytes of a new object are whatever the memory held; zeroes stand for them here.\<close>

definition blank_process :: process_t where
  "blank_process = \<lparr>pr_pid = 0, pr_ppid = 0, pr_name = replicate MAX_NAME NUL,
     pr_threads = (\<lambda>_. \<lparr>tn_thread = NULL, tn_next = 0\<rparr>), pr_currentThread = 0, pr_standardPipes = (\<lambda>_. 0)\<rparr>"

definition createProcess :: "killer \<Rightarrow> addr \<Rightarrow> int \<Rightarrow> addr \<Rightarrow> string \<Rightarrow> addr KS" where
  "createProcess kt entry argc argv name =
     kbind (allocateMemory kt SIZEOF_PROCESS) (\<lambda>process.
     if process = NULL then kfault NullDeref
     else kthen [
       kwith (\<lambda>s. kmod (\<lambda>s. s\<lparr>procs := (procs s)(process \<mapsto> blank_process\<lparr>pr_pid := nextPid s\<rparr>),
                              nextPid := nextPid s + 1\<rparr>)),
       kbind getpid (\<lambda>parent. upd_proc process (\<lambda>pr. pr\<lparr>pr_ppid := parent\<rparr>)),
       upd_proc process (\<lambda>pr. pr\<lparr>pr_standardPipes := (pr_standardPipes pr)(0 := -1, 1 := -1)\<rparr>),
       initializeThreads process,
       upd_proc process (\<lambda>pr. pr\<lparr>pr_currentThread := 0\<rparr>),
       kbind (createThread kt argc argv entry) (\<lambda>thread.
         upd_node process 0 (\<lambda>n. n\<lparr>tn_thread := thread\<rparr>)),
       upd_node process 0 (\<lambda>n. n\<lparr>tn_next := 0\<rparr>),
       upd_proc process (\<lambda>pr. pr\<lparr>pr_name := buf_write (pr_name pr)
         (if length name < MAX_NAME then name @ [NUL] else [NUL])\<rparr>)]
       (kret process))"

definition deleteProcess :: "killer \<Rightarrow> addr \<Rightarrow> unit KS" where
  "deleteProcess kt process = kdo [
     killThreads kt process,
     kbind (freeMemory kt process) (\<lambda>_. kskip)]"

primrec removeProcess_find :: "nat \<Rightarrow> int \<Rightarrow> int \<Rightarrow> int \<Rightarrow> int \<Rightarrow> (int \<times> int) option KS" where
  "removeProcess_find 0 pid first previous toRemove = kfault Diverges"
| "removeProcess_find (Suc n) pid first previous toRemove =
     with_slot toRemove (\<lambda>slot. with_proc (rr_process slot) (\<lambda>pr.
       if pr_pid pr \<noteq> pid then
         (if rr_next slot = first then kret None
          else removeProcess_find n pid first toRemove (rr_next slot))
       else kret (Some (previous, toRemove))))"

text \<open>
  The search of \<open>removeProcess\<close> starts behind \<open>current\<close>; slots of the ring are all below
  \<open>MAX_PROCESSES\<close>, so a search that visits more of them never comes back to \<open>first\<close>.
\<close>

definition removeProcess :: "killer \<Rightarrow> addr \<Rightarrow> unit KS" where
  "removeProcess kt process = kwith (\<lambda>s. let previous = current (sched s) in
     with_slot previous (\<lambda>cslot. let first = rr_next cslot in
       if processQuantity (sched s) = 0 \<or> process = NULL then kskip
       else with_proc process (\<lambda>pr. with_proc (rr_process cslot) (\<lambda>cpr.
         if previous = first \<and> pr_pid cpr = pr_pid pr then
           kdo [
             deleteProcess kt (rr_process cslot),
             kwith (\<lambda>s. upd_slot (current (sched s)) (\<lambda>n. n\<lparr>rr_process := NULL\<rparr>)),
             upd_sched (\<lambda>c. c\<lparr>current := 0\<rparr>),
             upd_sched (\<lambda>c. c\<lparr>processQuantity := processQuantity c - 1\<rparr>)]
         else kbind (removeProcess_find (nat MAX_PROCESSES) (pr_pid pr) first previous first) (\<lambda>r.
           case r of
             None \<Rightarrow> kskip
           | Some (previous, toRemove) \<Rightarrow>
               kdo [
                 with_slot toRemove (\<lambda>n. upd_slot previous (\<lambda>p. p\<lparr>rr_next := rr_next n\<rparr>)),
                 with_slot toRemove (\<lambda>n. deleteProcess kt (rr_process n)),
                 upd_slot toRemove (\<lambda>n. n\<lparr>rr_process := NULL\<rparr>),
                 upd_sched (\<lambda>c. c\<lparr>processQuantity := processQuantity c - 1\<rparr>),
                 upd_sched (\<lambda>c. c\<lparr>firstAvailableSpace :=
                   (if firstAvailableSpace c > toRemove then toRemove else firstAvailableSpace c)\<rparr>),
                 kwith (\<lambda>s. kwhen (current (sched s) = toRemove) [yield])])))))"

definition initializeScheduler :: "killer \<Rightarrow> unit KS" where
  "initializeScheduler kt = kdo [
     kbind (allocatePages kt 1) (\<lambda>a. upd_sched (\<lambda>c. c\<lparr>schedulerAuxiliaryStack := a\<rparr>)),
     kfor 0 (nat MAX_PROCESSES) (\<lambda>i. upd_slot i (\<lambda>n. n\<lparr>rr_process := NULL\<rparr>))]"

section \<open>Killing\<close>

definition killProcess :: "killer \<Rightarrow> int \<Rightarrow> unit KS" where
  "killProcess kt pid = kbind (getProcessIndex pid) (\<lambda>index.
     kwhen (index \<noteq> PID_NOT_FOUND) [
       changeChildrenToOrphan pid,
       kbind (isForeground pid) (\<lambda>fg. kwhen fg [
         in_term resetBuffer,
         kwith (\<lambda>s. with_proc (foreground (sched s)) (\<lambda>f. setForeground (pr_ppid f))),
         kwith (\<lambda>s. with_proc (foreground (sched s)) (\<lambda>f.
           changeThreadState (pr_pid f) (pr_currentThread f) READY))]),
       with_slot index (\<lambda>n. with_proc (rr_process n) (\<lambda>pr.
         removePidFromMutexes kt pid (pr_currentThread pr))),
       with_slot index (\<lambda>n. with_proc (rr_process n) (\<lambda>pr.
         removePidFromSemaphores kt pid (pr_currentThread pr))),
       with_slot index (\<lambda>n. removeProcess kt (rr_process n))])"

definition killForeground :: "killer \<Rightarrow> unit KS" where
  "killForeground kt = kdo [
     kwith (\<lambda>s. if foreground (sched s) \<noteq> NULL
       then kbind getForeground (killProcess kt) else kskip),
     yield]"

definition killCurrent :: "killer \<Rightarrow> unit KS" where
  "killCurrent kt = kdo [
     kwith (\<lambda>s. with_slot (current (sched s)) (\<lambda>n. with_proc (rr_process n) (\<lambda>pr. killProcess kt (pr_pid pr)))),
     yield]"

primrec terminateThread_find :: "nat \<Rightarrow> addr \<Rightarrow> int \<Rightarrow> int \<Rightarrow> int \<Rightarrow> int \<Rightarrow> int option KS" where
  "terminateThread_find 0 process thread first previous toRemove = kfault Diverges"
| "terminateThread_find (Suc n) process thread first previous toRemove =
     (if toRemove \<noteq> thread then
        with_node process toRemove (\<lambda>node.
          if tn_next node = first then kret None
          else terminateThread_find n process thread first toRemove (tn_next node))
      else kret (Some previous))"

definition terminateThread :: "killer \<Rightarrow> addr \<Rightarrow> int \<Rightarrow> unit KS" where
  "terminateThread kt process thread = with_proc process (\<lambda>pr. let previous = pr_currentThread pr in
     with_node process previous (\<lambda>node. let first = tn_next node in
       if thread = 0 then kdo [killThreads kt process, killCurrent kt]
       else kbind (terminateThread_find (nat MAX_THREADS) process thread first previous first) (\<lambda>r.
         case r of
           None \<Rightarrow> kskip
         | Some previous \<Rightarrow>
             kdo [
               with_node process thread (\<lambda>n. upd_node process previous (\<lambda>p. p\<lparr>tn_next := tn_next n\<rparr>)),
               with_node process thread (\<lambda>n. deleteThread kt (tn_thread n)),
               upd_node process thread (\<lambda>n. n\<lparr>tn_thread := NULL\<rparr>),
               unlockWaitingThreads process thread])))"

definition killThread_body :: "killer \<Rightarrow> killer" where
  "killThread_body kt pid thread = kbind (getProcess pid) (\<lambda>process.
     kwhen (process \<noteq> NULL) [
       removeThreadFromMutexes kt pid thread,
       removeThreadFromSemaphores kt pid thread,
       terminateThread kt process thread])"

text \<open>
  \<open>killThread\<close> itself: its recursion through \<open>mutexDown\<close>, cut off at a given depth.  A nested call
  happens only when the blocked table of the mutex being taken is full, and the mutexes taken while
  killing are always the same three (administration, semaphores, allocator) and those of the dying thread.
\<close>

primrec killThread :: "nat \<Rightarrow> killer" where
  "killThread 0 = (\<lambda>pid thread. kfault Diverges)"
| "killThread (Suc n) = killThread_body (killThread n)"

text \<open>What runs on the new thread's stack: the program, then its clean-up.\<close>

primrec freeArgs :: "killer \<Rightarrow> nat \<Rightarrow> addr \<Rightarrow> unit KS" where
  "freeArgs kt 0 argv = kskip"
| "freeArgs kt (Suc n) argv = kdo [
     kwith (\<lambda>s. kbind (freeMemory kt (kptrs s (argv + 8 * n))) (\<lambda>_. kskip)),
     freeArgs kt n argv]"

definition callProcess :: "killer \<Rightarrow> (addr \<Rightarrow> int \<Rightarrow> addr \<Rightarrow> unit KS) \<Rightarrow> int \<Rightarrow> addr \<Rightarrow> addr \<Rightarrow> unit KS" where
  "callProcess kt program argc argv entry = kdo [
     program entry argc argv,
     if argv \<noteq> NULL then
       (if argc < 0 then kfault Diverges
        else kdo [freeArgs kt (nat argc) argv, kbind (freeMemory kt argv) (\<lambda>_. kskip)])
     else kskip,
     kbind getpid (\<lambda>pid. kbind (getProcess pid) (\<lambda>process.
       with_proc process (\<lambda>pr. terminateThread kt process (pr_currentThread pr)))),
     yield]"

end
