(* ===== verification/Ring.thy ===== *)
theory Ring
  imports Prelude
begin

text \<open>
  Rings of table slots: the scheduler links its processes, and every process its threads, by
  \<open>next\<close> indices into a fixed table.  A ring is described by the list of its slots from a starting
  slot on; insertion, removal and the search for the next ready slot are stated on that list.
  The contract of the two round-robin searches is the locale \<open>round_robin\<close>.
\<close>

section \<open>Paths\<close>

text \<open>\<open>path nxt x ys z\<close>: from \<open>x\<close> the links lead through \<open>ys\<close> to \<open>z\<close>.\<close>

fun path :: "(int \<Rightarrow> int) \<Rightarrow> int \<Rightarrow> int list \<Rightarrow> int \<Rightarrow> bool" where
  "path nxt x [] z \<longleftrightarrow> nxt x = z"
| "path nxt x (y # ys) z \<longleftrightarrow> nxt x = y \<and> path nxt y ys z"

fun ring :: "(int \<Rightarrow> int) \<Rightarrow> int list \<Rightarrow> bool" where
  "ring nxt [] \<longleftrightarrow> False"
| "ring nxt (c # ys) \<longleftrightarrow> path nxt c ys c \<and> distinct (c # ys)"

lemma path_append: "path nxt x (ys @ y # zs) z \<longleftrightarrow> path nxt x ys y \<and> path nxt y zs z"
  by (induction ys arbitrary: x) auto

lemma path_cong: "(\<And>i. i \<in> set (x # ys) \<Longrightarrow> nxt i = nxt' i) \<Longrightarrow> path nxt x ys z = path nxt' x ys z"
  by (induction ys arbitrary: x) auto

lemma path_upd_other [simp]: "a \<notin> set (x # ys) \<Longrightarrow> path (nxt(a := b)) x ys z = path nxt x ys z"
  by (rule path_cong) auto

lemma ring_rotate: "ring nxt (c # ys @ d # zs) \<Longrightarrow> ring nxt (d # zs @ c # ys)"
  by (auto simp: path_append)

lemma ring_rotate1: "ring nxt (c # d # ys) \<Longrightarrow> ring nxt (d # ys @ [c])"
  using ring_rotate[of nxt c "[]" d ys] by simp

text \<open>A new slot behind the first one, and the removal of the slot behind it.\<close>

lemma ring_insert:
  assumes "ring nxt (c # ys)" "d \<notin> set (c # ys)"
  shows "ring (nxt(c := d, d := nxt c)) (c # d # ys)"
  using assms by (cases ys) auto

lemma ring_remove:
  assumes "ring nxt (p # x # ys)"
  shows "ring (nxt(p := nxt x)) (p # ys)"
  using assms by (cases ys) auto

section \<open>The list of a ring\<close>

primrec follow :: "(int \<Rightarrow> int) \<Rightarrow> nat \<Rightarrow> int \<Rightarrow> int \<Rightarrow> int list" where
  "follow nxt 0 c i = []"
| "follow nxt (Suc n) c i = (if nxt i = c then [] else nxt i # follow nxt n c (nxt i))"

lemma follow_path: "path nxt i ys c \<Longrightarrow> c \<notin> set ys \<Longrightarrow> length ys < n \<Longrightarrow> follow nxt n c i = ys"
proof (induction ys arbitrary: i n)
  case Nil
  then show ?case by (cases n) auto
next
  case (Cons y ys)
  then show ?case by (cases n) auto
qed

text \<open>The ring seen from another of its slots.\<close>

definition rot_to :: "int \<Rightarrow> int list \<Rightarrow> int list" where
  "rot_to t xs = dropWhile (\<lambda>x. x \<noteq> t) xs @ takeWhile (\<lambda>x. x \<noteq> t) xs"

lemma set_rot_to [simp]: "set (rot_to t xs) = set xs"
  by (metis Un_commute rot_to_def set_append takeWhile_dropWhile_id)

lemma length_rot_to [simp]: "length (rot_to t xs) = length xs"
  by (metis add.commute length_append rot_to_def takeWhile_dropWhile_id)

lemma rot_to_hd [simp]: "rot_to c (c # ys) = c # ys"
  by (simp add: rot_to_def)

lemma rot_to_split: "t \<notin> set as \<Longrightarrow> rot_to t (as @ t # bs) = t # bs @ as"
  by (induction as) (auto simp: rot_to_def takeWhile_append)

lemma ring_rot_to:
  assumes "ring nxt (c # ys)" "t \<in> set (c # ys)" "length ys < n"
  shows "ring nxt (rot_to t (c # ys)) \<and> t # follow nxt n t t = rot_to t (c # ys)"
proof (cases "t = c")
  case True
  then show ?thesis using assms follow_path[of nxt c ys c n] by auto
next
  case False
  then obtain as bs where ys: "ys = as @ t # bs" "t \<notin> set as" using assms(2) by (auto dest: split_list_first)
  then have rot: "rot_to t (c # ys) = t # bs @ c # as" using False rot_to_split[of t "c # as" bs] by simp
  have r: "ring nxt (t # bs @ c # as)" using assms(1) ys ring_rotate[of nxt c as t bs] by simp
  moreover have "follow nxt n t t = bs @ c # as"
    using r assms(3) ys by (intro follow_path) auto
  ultimately show ?thesis by (simp add: rot)
qed

section \<open>Bounds\<close>

lemma distinct_in_range_length:
  assumes "distinct xs" "\<And>i. i \<in> set xs \<Longrightarrow> 0 \<le> i \<and> i < int n"
  shows "length xs \<le> n"
proof -
  have "set xs \<subseteq> {0..<int n}" using assms(2) by auto
  then have "card (set xs) \<le> card {0..<int n}" by (intro card_mono) auto
  then show ?thesis using assms(1) by (simp add: distinct_card)
qed

section \<open>Round robin\<close>

text \<open>
  \<open>slots s\<close> is the ring from the slot in use on; a search passes over the others in ring order and comes
  to the slot in use last.
\<close>

locale round_robin =
  fixes valid :: "'s \<Rightarrow> bool"
    and slots :: "'s \<Rightarrow> int list"
    and is_ready :: "'s \<Rightarrow> int \<Rightarrow> bool"
    and pick :: "'s \<Rightarrow> int option"
  assumes pick_eq: "valid s \<Longrightarrow> pick s = find (is_ready s) (tl (slots s) @ [hd (slots s)])"
    and slots_nonempty: "valid s \<Longrightarrow> slots s \<noteq> []"
begin

lemma pick_None: "valid s \<Longrightarrow> pick s = None \<longleftrightarrow> (\<forall>i \<in> set (slots s). \<not> is_ready s i)"
  using slots_nonempty[of s] by (cases "slots s") (auto simp: pick_eq find_None_iff)

lemma pick_Some: "valid s \<Longrightarrow> pick s = Some i \<Longrightarrow> i \<in> set (slots s) \<and> is_ready s i"
  using slots_nonempty[of s] by (cases "slots s") (auto simp: pick_eq find_Some_iff nth_append split: if_splits)

text \<open>No ready slot is passed over: everything between the slot in use and the one picked is not ready.\<close>

lemma pick_first:
  assumes "valid s" "slots s = c # ys @ d # zs" "is_ready s d"
  shows "pick s = Some d \<or> (\<exists>i \<in> set ys. pick s = Some i)"
proof -
  have "find (is_ready s) (ys @ d # zs @ [c]) = Some d \<or> (\<exists>i \<in> set ys. find (is_ready s) (ys @ d # zs @ [c]) = Some i)"
    using assms(3) by (induction ys) auto
  then show ?thesis using assms(1,2) by (simp add: pick_eq)
qed

end

text \<open>
  A ring that grows: a new slot comes directly behind the one in use, so a search that starts right afterwards finds
  it first.
\<close>

locale growing_round_robin = round_robin valid slots is_ready pick
  for valid :: "'s \<Rightarrow> bool" and slots :: "'s \<Rightarrow> int list" and is_ready :: "'s \<Rightarrow> int \<Rightarrow> bool" and pick :: "'s \<Rightarrow> int option" +
  fixes room :: "'s \<Rightarrow> bool"
    and new_slot :: "'s \<Rightarrow> int"
    and grow :: "'s \<Rightarrow> 's"
  assumes grow_valid: "room s \<Longrightarrow> valid (grow s)"
    and grow_slots: "room s \<Longrightarrow> slots (grow s) = hd (slots s) # new_slot s # tl (slots s)"
begin

lemma new_is_next: "room s \<Longrightarrow> is_ready (grow s) (new_slot s) \<Longrightarrow> pick (grow s) = Some (new_slot s)"
  by (simp add: pick_eq grow_valid grow_slots)

text \<open>A new slot that is not ready takes nobody's turn.\<close>

lemma new_not_ready:
  assumes "room s" "\<not> is_ready (grow s) (new_slot s)" "\<And>i. i \<in> set (slots s) \<Longrightarrow> is_ready (grow s) i = is_ready s i"
    "valid s"
  shows "pick (grow s) = pick s"
proof -
  have "find (is_ready (grow s)) (tl (slots s) @ [hd (slots s)]) = find (is_ready s) (tl (slots s) @ [hd (slots s)])"
    using assms(3) slots_nonempty[OF assms(4)] by (intro find_cong) (auto dest: list.set_sel(2))
  then show ?thesis using assms(1,2,4) by (simp add: pick_eq grow_valid grow_slots)
qed

end

end
