(* ===== verification/SchedCorrect.thy ===== *)
theory SchedCorrect
  imports Sched Ring
begin

text \<open>
  The scheduler on well-formed rings: the searches of \<open>nextThread\<close> and \<open>nextProcess\<close> are round robin
  (both interpret the locale of \<open>Ring.thy\<close>), \<open>addProcess\<close> inserts behind the process in use, and look-ups by
  process number follow the ring without changing anything.
\<close>

section \<open>Well-formed rings\<close>

definition tlink :: "process_t \<Rightarrow> int \<Rightarrow> int" where
  "tlink pr i = tn_next (pr_threads pr i)"

definition thread_slots :: "process_t \<Rightarrow> int list" where
  "thread_slots pr = pr_currentThread pr # follow (tlink pr) (nat MAX_THREADS) (pr_currentThread pr) (pr_currentThread pr)"

definition proc_ok :: "kstate \<Rightarrow> addr \<Rightarrow> bool" where
  "proc_ok s p = (case procs s p of None \<Rightarrow> False
     | Some pr \<Rightarrow> ring (tlink pr) (thread_slots pr) \<and>
         (\<forall>t \<in> set (thread_slots pr). in_range t MAX_THREADS \<and> thrs s (tn_thread (pr_threads pr t)) \<noteq> None))"

definition thread_ready :: "kstate \<Rightarrow> process_t \<Rightarrow> int \<Rightarrow> bool" where
  "thread_ready s pr t = (case thrs s (tn_thread (pr_threads pr t)) of None \<Rightarrow> False | Some th \<Rightarrow> th_state th = READY)"

definition plink :: "sched_state \<Rightarrow> int \<Rightarrow> int" where
  "plink c i = rr_next (processes c i)"

definition proc_slots :: "sched_state \<Rightarrow> int list" where
  "proc_slots c = current c # follow (plink c) (nat MAX_PROCESSES) (current c) (current c)"

definition proc_at :: "kstate \<Rightarrow> int \<Rightarrow> process_t" where
  "proc_at s i = the (procs s (rr_process (processes (sched s) i)))"

definition sched_ok :: "kstate \<Rightarrow> bool" where
  "sched_ok s \<longleftrightarrow> ring (plink (sched s)) (proc_slots (sched s)) \<and>
     processQuantity (sched s) = int (length (proc_slots (sched s))) \<and>
     (\<forall>i \<in> set (proc_slots (sched s)). in_range i MAX_PROCESSES \<and>
        rr_process (processes (sched s) i) \<noteq> NULL \<and> proc_ok s (rr_process (processes (sched s) i)))"

text \<open>The thread a search of the process would pick.\<close>

definition pick_thread :: "kstate \<Rightarrow> process_t \<Rightarrow> int option" where
  "pick_thread s pr = find (thread_ready s pr) (tl (thread_slots pr) @ [pr_currentThread pr])"

definition has_ready :: "kstate \<Rightarrow> int \<Rightarrow> bool" where
  "has_ready s i \<longleftrightarrow> pick_thread s (proc_at s i) \<noteq> None"

section \<open>Threads\<close>

lemma MAX_THREADS_nat [simp]: "nat MAX_THREADS = 32" by (simp add: MAX_THREADS_def)
lemma MAX_PROCESSES_nat [simp]: "nat MAX_PROCESSES = 100" by (simp add: MAX_PROCESSES_def)

lemma proc_okE:
  assumes "proc_ok s p"
  obtains pr ys where "procs s p = Some pr" "thread_slots pr = pr_currentThread pr # ys"
    "path (tlink pr) (pr_currentThread pr) ys (pr_currentThread pr)" "distinct (pr_currentThread pr # ys)"
    "\<And>t. t \<in> set (pr_currentThread pr # ys) \<Longrightarrow> in_range t MAX_THREADS"
    "\<And>t. t \<in> set (pr_currentThread pr # ys) \<Longrightarrow> \<exists>th. thrs s (tn_thread (pr_threads pr t)) = Some th"
    "length ys < 32"
proof -
  obtain pr where pr: "procs s p = Some pr" using assms by (auto simp: proc_ok_def split: option.splits)
  obtain ys where ys: "thread_slots pr = pr_currentThread pr # ys" by (simp add: thread_slots_def)
  have ok: "ring (tlink pr) (pr_currentThread pr # ys)"
    "\<And>t. t \<in> set (pr_currentThread pr # ys) \<Longrightarrow> in_range t MAX_THREADS \<and> thrs s (tn_thread (pr_threads pr t)) \<noteq> None"
    using assms pr ys by (auto simp: proc_ok_def)
  have "length (pr_currentThread pr # ys) \<le> 32"
    using ok by (intro distinct_in_range_length) (auto simp: in_range_def MAX_THREADS_def)
  then show ?thesis using that[OF pr ys] ok by auto
qed

lemma with_node_app:
  "procs s p = Some pr \<Longrightarrow> in_range i MAX_THREADS \<Longrightarrow> with_node p i f s = f (pr_threads pr i) s"
  by (simp add: with_node_def with_proc_def)

lemma with_thr_app: "thrs s t = Some th \<Longrightarrow> with_thr t f s = f th s"
  by (simp add: with_thr_def)

lemma with_proc_app: "procs s p = Some pr \<Longrightarrow> with_proc p f s = f pr s"
  by (simp add: with_proc_def)

lemma with_slot_app: "in_range i MAX_PROCESSES \<Longrightarrow> with_slot i f s = f (processes (sched s) i) s"
  by (simp add: with_slot_def)

lemma upd_proc_app: "procs s p = Some pr \<Longrightarrow> upd_proc p g s = Done () (s\<lparr>procs := (procs s)(p \<mapsto> g pr)\<rparr>)"
  by (simp add: upd_proc_def with_proc_def)

lemma upd_thr_app: "thrs s t = Some th \<Longrightarrow> upd_thr t g s = Done () (s\<lparr>thrs := (thrs s)(t \<mapsto> g th)\<rparr>)"
  by (simp add: upd_thr_def with_thr_def)

lemmas access_app = with_node_app with_thr_app with_proc_app with_slot_app upd_proc_app upd_thr_app

lemma nextThread_loop_eq:
  assumes "procs s p = Some pr" "path (tlink pr) i zs c" "c \<notin> set zs" "length zs < n"
    "\<And>t. t \<in> set (i # c # zs) \<Longrightarrow> in_range t MAX_THREADS \<and> (\<exists>th. thrs s (tn_thread (pr_threads pr t)) = Some th)"
  shows "nextThread_loop n p c i s =
    Done (case find (thread_ready s pr) zs of Some t \<Rightarrow> t | None \<Rightarrow> c) s"
  using assms
proof (induction zs arbitrary: i n)
  case Nil
  obtain m where n: "n = Suc m" using Nil by (cases n) auto
  obtain th where th: "thrs s (tn_thread (pr_threads pr c)) = Some th" using Nil(5)[of c] by auto
  have "tn_next (pr_threads pr i) = c" using Nil(2) by (simp add: tlink_def)
  then show ?case using Nil(1) Nil(5)[of i] Nil(5)[of c] th
    by (simp add: n access_app Let_def)
next
  case (Cons z zs)
  obtain m where n: "n = Suc m" using Cons.prems by (cases n) auto
  obtain th where th: "thrs s (tn_thread (pr_threads pr z)) = Some th" using Cons.prems(5)[of z] by auto
  have z: "tn_next (pr_threads pr i) = z" using Cons.prems(2) by (simp add: tlink_def)
  have ne: "c \<noteq> z" using Cons.prems(3) by auto
  have ready: "thread_ready s pr z \<longleftrightarrow> th_state th = READY" by (simp add: thread_ready_def th)
  have "nextThread_loop n p c i s = (if th_state th \<noteq> READY then nextThread_loop m p c z s else Done z s)"
    using Cons.prems(1) Cons.prems(5)[of i] Cons.prems(5)[of z] th z ne
    by (simp add: n access_app Let_def)
  moreover have "nextThread_loop m p c z s =
      Done (case find (thread_ready s pr) zs of Some t \<Rightarrow> t | None \<Rightarrow> c) s"
    using Cons.prems n by (intro Cons.IH) auto
  ultimately show ?case by (simp add: ready)
qed

lemma find_append: "find P (xs @ ys) = (case find P xs of Some x \<Rightarrow> Some x | None \<Rightarrow> find P ys)"
  by (induction xs) auto

lemma find_SomeD: "find P xs = Some x \<Longrightarrow> x \<in> set xs \<and> P x"
  by (induction xs) (auto split: if_splits)

lemma nextThread_eq:
  assumes "proc_ok s p"
  shows "nextThread p s = (case pick_thread s (the (procs s p)) of
      None \<Rightarrow> Done (-1) s
    | Some t \<Rightarrow> Done t (s\<lparr>procs := (procs s)(p \<mapsto> (the (procs s p))\<lparr>pr_currentThread := t\<rparr>)\<rparr>))"
proof -
  obtain pr ys where pr: "procs s p = Some pr" "thread_slots pr = pr_currentThread pr # ys"
    and ring: "path (tlink pr) (pr_currentThread pr) ys (pr_currentThread pr)" "distinct (pr_currentThread pr # ys)"
    and rng: "\<And>t. t \<in> set (pr_currentThread pr # ys) \<Longrightarrow> in_range t MAX_THREADS"
    and thr: "\<And>t. t \<in> set (pr_currentThread pr # ys) \<Longrightarrow> \<exists>th. thrs s (tn_thread (pr_threads pr t)) = Some th"
    and len: "length ys < 32"
    using proc_okE[OF assms] by metis
  let ?c = "pr_currentThread pr"
  define r where "r = (case find (thread_ready s pr) ys of Some t \<Rightarrow> t | None \<Rightarrow> ?c)"
  have loop: "nextThread_loop (nat MAX_THREADS) p ?c ?c s = Done r s"
    unfolding r_def using pr ring rng thr len by (intro nextThread_loop_eq) auto
  have r: "r \<in> set (?c # ys)" using find_SomeD by (fastforce simp: r_def split: option.splits)
  obtain th where th: "thrs s (tn_thread (pr_threads pr r)) = Some th" using thr[OF r] by blast
  have pick: "pick_thread s pr = (if r = ?c \<and> th_state th \<noteq> READY then None else Some r)"
  proof (cases "find (thread_ready s pr) ys")
    case None
    then have "r = ?c" by (simp add: r_def)
    then show ?thesis using None th by (simp add: pick_thread_def pr find_append thread_ready_def)
  next
    case (Some t)
    then have "r = t" "t \<in> set ys" "thread_ready s pr t" using find_SomeD[OF Some] by (auto simp: r_def)
    then show ?thesis using Some th ring by (auto simp: pick_thread_def pr find_append thread_ready_def)
  qed
  show ?thesis
    using pr loop th rng[OF r] pick
    by (simp add: nextThread_def access_app Let_def)
qed

section \<open>Frames\<close>

lemma thread_slots_cong: "pr_threads pr' = pr_threads pr \<Longrightarrow> pr_currentThread pr' = pr_currentThread pr
    \<Longrightarrow> thread_slots pr' = thread_slots pr"
  by (simp add: thread_slots_def tlink_def[abs_def])

lemma proc_ok_thr_upd:
  "thrs s t \<noteq> None \<Longrightarrow> proc_ok (s\<lparr>thrs := (thrs s)(t \<mapsto> th)\<rparr>) p = proc_ok s p"
  by (auto simp: proc_ok_def split: option.splits)

lemma proc_ok_sched [simp]: "proc_ok (s\<lparr>sched := c\<rparr>) p = proc_ok s p"
  by (simp add: proc_ok_def split: option.split)

lemma thread_ready_sched [simp]: "thread_ready (s\<lparr>sched := c\<rparr>) pr t = thread_ready s pr t"
  by (simp add: thread_ready_def)

lemma thread_slots_elect:
  assumes "procs s p = Some pr" "proc_ok s p" "t \<in> set (thread_slots pr)"
  shows "thread_slots (pr\<lparr>pr_currentThread := t\<rparr>) = rot_to t (thread_slots pr)"
proof -
  obtain ys where "thread_slots pr = pr_currentThread pr # ys" "ring (tlink pr) (pr_currentThread pr # ys)" "length ys < 32"
    using proc_okE[OF assms(2)] assms(1) by (metis option.inject ring.simps(2))
  moreover have "tlink (pr\<lparr>pr_currentThread := t\<rparr>) = tlink pr" by (simp add: tlink_def[abs_def])
  ultimately show ?thesis
    using ring_rot_to[of "tlink pr" "pr_currentThread pr" ys t 32] assms(3)
    by (simp add: thread_slots_def)
qed

lemma proc_ok_elect:
  assumes "procs s p = Some pr" "proc_ok s p" "t \<in> set (thread_slots pr)"
  shows "proc_ok (s\<lparr>procs := (procs s)(p \<mapsto> pr\<lparr>pr_currentThread := t\<rparr>)\<rparr>) q \<longleftrightarrow> proc_ok s q"
proof (cases "q = p")
  case True
  obtain ys where ys: "thread_slots pr = pr_currentThread pr # ys" "ring (tlink pr) (pr_currentThread pr # ys)" "length ys < 32"
    using proc_okE[OF assms(2)] assms(1) by (metis option.inject ring.simps(2))
  moreover have "tlink (pr\<lparr>pr_currentThread := t\<rparr>) = tlink pr" by (simp add: tlink_def[abs_def])
  ultimately show ?thesis
    using True assms thread_slots_elect[OF assms]
      ring_rot_to[of "tlink pr" "pr_currentThread pr" ys t 32]
    by (auto simp: proc_ok_def)
next
  case False
  then show ?thesis by (simp add: proc_ok_def split: option.split)
qed

lemma pick_threadD: "pick_thread s pr = Some t \<Longrightarrow> t \<in> set (thread_slots pr) \<and> thread_ready s pr t"
  by (auto simp: pick_thread_def thread_slots_def dest!: find_SomeD)

section \<open>Processes\<close>

definition elect :: "kstate \<Rightarrow> int \<Rightarrow> kstate" where
  "elect s i = s\<lparr>procs := (procs s)(rr_process (processes (sched s) i) \<mapsto>
     (proc_at s i)\<lparr>pr_currentThread := the (pick_thread s (proc_at s i))\<rparr>)\<rparr>"

lemma proc_ok_at: "proc_ok s (rr_process (processes (sched s) i)) \<Longrightarrow>
    procs s (rr_process (processes (sched s) i)) = Some (proc_at s i)"
  by (auto simp: proc_ok_def proc_at_def split: option.splits)

lemma nextThread_at:
  assumes "proc_ok s (rr_process (processes (sched s) i))"
  shows "nextThread (rr_process (processes (sched s) i)) s =
    (if has_ready s i then Done (the (pick_thread s (proc_at s i))) (elect s i) else Done (-1) s)"
  using nextThread_eq[OF assms] proc_ok_at[OF assms]
  by (auto simp: has_ready_def elect_def split: option.splits)

lemma pick_in_range:
  assumes "proc_ok s (rr_process (processes (sched s) i))" "has_ready s i"
  shows "in_range (the (pick_thread s (proc_at s i))) MAX_THREADS"
    "the (pick_thread s (proc_at s i)) \<in> set (thread_slots (proc_at s i))"
  using assms pick_threadD proc_ok_at[OF assms(1)] by (auto simp: has_ready_def proc_ok_def)

lemma nextProcess_loop_eq:
  assumes "path (plink (sched s)) i zs c" "c \<notin> set zs" "length zs < n" "in_range i MAX_PROCESSES"
    "\<And>j. j \<in> set (c # zs) \<Longrightarrow> in_range j MAX_PROCESSES \<and> proc_ok s (rr_process (processes (sched s) j))"
  shows "nextProcess_loop n c i s =
    (case find (has_ready s) (zs @ [c]) of Some j \<Rightarrow> Done j (elect s j) | None \<Rightarrow> Done c s)"
  using assms
proof (induction zs arbitrary: i n)
  case Nil
  obtain m where n: "n = Suc m" using Nil by (cases n) auto
  have "rr_next (processes (sched s) i) = c" using Nil(1) by (simp add: plink_def)
  then show ?case using Nil(4) Nil(5)[of c] nextThread_at[of s c]
    by (auto simp: n access_app Let_def)
next
  case (Cons z zs)
  obtain m where n: "n = Suc m" using Cons.prems by (cases n) auto
  have z: "rr_next (processes (sched s) i) = z" using Cons.prems(1) by (simp add: plink_def)
  have zok: "in_range z MAX_PROCESSES" "proc_ok s (rr_process (processes (sched s) z))"
    using Cons.prems(5)[of z] by auto
  have ne: "c \<noteq> z" using Cons.prems(2) by auto
  have pos: "the (pick_thread s (proc_at s z)) \<noteq> -1" if "has_ready s z"
    using pick_in_range(1)[OF zok(2) that] by (auto simp: in_range_def)
  have "nextProcess_loop n c i s =
    (if has_ready s z then Done z (elect s z) else nextProcess_loop m c z s)"
    using Cons.prems(4) zok nextThread_at[OF zok(2)] z ne pos
    by (auto simp: n access_app Let_def)
  moreover have "nextProcess_loop m c z s =
    (case find (has_ready s) (zs @ [c]) of Some j \<Rightarrow> Done j (elect s j) | None \<Rightarrow> Done c s)"
    using Cons.prems zok n by (intro Cons.IH) auto
  ultimately show ?case by simp
qed

text \<open>The thread in use loses the processor: \<open>RUNNING\<close> becomes \<open>READY\<close>.\<close>

definition cur_thread_addr :: "kstate \<Rightarrow> addr" where
  "cur_thread_addr s = (let pr = proc_at s (current (sched s)) in tn_thread (pr_threads pr (pr_currentThread pr)))"

definition cur_thread :: "kstate \<Rightarrow> thread_t" where
  "cur_thread s = the (thrs s (cur_thread_addr s))"

definition set_cur_state :: "processState \<Rightarrow> kstate \<Rightarrow> kstate" where
  "set_cur_state st s = s\<lparr>thrs := (thrs s)(cur_thread_addr s \<mapsto> (cur_thread s)\<lparr>th_state := st\<rparr>)\<rparr>"

definition demote :: "kstate \<Rightarrow> kstate" where
  "demote s = (if th_state (cur_thread s) = RUNNING then set_cur_state READY s else s)"

lemma sched_okD:
  assumes "sched_ok s"
  shows "in_range (current (sched s)) MAX_PROCESSES"
    "rr_process (processes (sched s) (current (sched s))) \<noteq> NULL"
    "proc_ok s (rr_process (processes (sched s) (current (sched s))))"
  using assms by (auto simp: sched_ok_def proc_slots_def)

lemma cur_threadI:
  assumes "proc_ok s (rr_process (processes (sched s) (current (sched s))))"
  shows "thrs s (cur_thread_addr s) = Some (cur_thread s)"
    "in_range (pr_currentThread (proc_at s (current (sched s)))) MAX_THREADS"
  using proc_okE[OF assms] proc_ok_at[OF assms]
  by (simp_all add: cur_thread_addr_def cur_thread_def Let_def) (metis list.set_intros(1) option.inject option.sel)+

lemma with_current_thread_app:
  assumes "sched_ok s"
  shows "with_current_thread f s = f (cur_thread_addr s) (cur_thread s) s"
  using sched_okD[OF assms] cur_threadI[of s] proc_ok_at[of s "current (sched s)"]
  by (simp add: with_current_thread_def access_app) (simp add: cur_thread_addr_def Let_def access_app)

lemma proc_slots_cong: "processes c' = processes c \<Longrightarrow> current c' = current c \<Longrightarrow> proc_slots c' = proc_slots c"
  by (simp add: proc_slots_def plink_def[abs_def])

lemma set_cur_state_sched [simp]: "sched (set_cur_state st s) = sched s" "procs (set_cur_state st s) = procs s"
  by (simp_all add: set_cur_state_def)

lemma demote_sched [simp]: "sched (demote s) = sched s" "procs (demote s) = procs s"
  by (simp_all add: demote_def)

lemma elect_sched [simp]: "sched (elect s i) = sched s" "thrs (elect s i) = thrs s"
  by (simp_all add: elect_def)

lemma sched_ok_set_cur_state: "sched_ok s \<Longrightarrow> sched_ok (set_cur_state st s)"
proof -
  assume ok: "sched_ok s"
  then have "thrs s (cur_thread_addr s) \<noteq> None" using sched_okD cur_threadI by simp
  then have "proc_ok (set_cur_state st s) p = proc_ok s p" for p
    by (simp add: set_cur_state_def proc_ok_thr_upd)
  then show ?thesis using ok by (simp add: sched_ok_def)
qed

lemma sched_ok_demote: "sched_ok s \<Longrightarrow> sched_ok (demote s)"
  by (simp add: demote_def sched_ok_set_cur_state)

lemma sched_ok_elect:
  assumes "sched_ok s" "i \<in> set (proc_slots (sched s))" "has_ready s i"
  shows "sched_ok (elect s i)"
proof -
  have ok: "proc_ok s (rr_process (processes (sched s) i))" using assms by (auto simp: sched_ok_def)
  have "proc_ok (elect s i) p = proc_ok s p" for p
    using proc_ok_elect[OF proc_ok_at[OF ok] ok pick_in_range(2)[OF ok assms(3)]] by (simp add: elect_def)
  then show ?thesis using assms(1) by (simp add: sched_ok_def)
qed

lemma sched_ok_ring:
  assumes "sched_ok s"
  obtains ys where "proc_slots (sched s) = current (sched s) # ys" "ring (plink (sched s)) (current (sched s) # ys)"
    "length ys < 100"
proof -
  obtain ys where ys: "proc_slots (sched s) = current (sched s) # ys" by (simp add: proc_slots_def)
  have "length (current (sched s) # ys) \<le> 100"
    using assms ys by (intro distinct_in_range_length) (auto simp: sched_ok_def in_range_def MAX_PROCESSES_def)
  then show ?thesis using that[OF ys] assms ys by (auto simp: sched_ok_def)
qed

definition switch_to :: "int \<Rightarrow> kstate \<Rightarrow> kstate" where
  "switch_to i s = s\<lparr>sched := (sched s)\<lparr>current := i, quantum := QUANTUM\<rparr>\<rparr>"

lemma proc_slots_switch:
  assumes "sched_ok s" "i \<in> set (proc_slots (sched s))"
  shows "proc_slots (sched (switch_to i s)) = rot_to i (proc_slots (sched s))"
    "ring (plink (sched s)) (rot_to i (proc_slots (sched s)))"
proof -
  obtain ys where ys: "proc_slots (sched s) = current (sched s) # ys"
    "ring (plink (sched s)) (current (sched s) # ys)" "length ys < 100"
    using sched_ok_ring[OF assms(1)] by blast
  have "plink (sched (switch_to i s)) = plink (sched s)" by (simp add: plink_def[abs_def] switch_to_def)
  then show "proc_slots (sched (switch_to i s)) = rot_to i (proc_slots (sched s))"
    "ring (plink (sched s)) (rot_to i (proc_slots (sched s)))"
    using ring_rot_to[OF ys(2) _ ys(3), of i] assms(2) ys
    by (auto simp: proc_slots_def[of "sched (switch_to i s)"]) (simp_all add: switch_to_def)
qed

lemma sched_ok_switch:
  assumes "sched_ok s" "i \<in> set (proc_slots (sched s))"
  shows "sched_ok (switch_to i s)"
proof -
  have "plink (sched (switch_to i s)) = plink (sched s)" by (simp add: plink_def[abs_def] switch_to_def)
  then have "ring (plink (sched (switch_to i s))) (proc_slots (sched (switch_to i s)))"
    using proc_slots_switch[OF assms] by simp
  then show ?thesis
    using assms(1) proc_slots_switch(1)[OF assms]
    by (simp add: sched_ok_def) (simp add: switch_to_def)
qed

text \<open>The slot \<open>nextProcess\<close> switches to, and the state it leaves.\<close>

definition next_slot :: "kstate \<Rightarrow> int option" where
  "next_slot s = find (has_ready s) (tl (proc_slots (sched s)) @ [current (sched s)])"

definition switched :: "kstate \<Rightarrow> kstate" where
  "switched s = (case next_slot (demote s) of
     Some i \<Rightarrow> switch_to i (elect (demote s) i)
   | None \<Rightarrow> switch_to (current (sched s)) (demote s))"

lemma next_slotD: "next_slot s = Some i \<Longrightarrow> i \<in> set (proc_slots (sched s)) \<and> has_ready s i"
  by (auto simp: next_slot_def proc_slots_def dest!: find_SomeD)

lemma sched_ok_switched: "sched_ok s \<Longrightarrow> sched_ok (switched s)"
  using next_slotD[of "demote s"]
  by (auto simp: switched_def proc_slots_def split: option.split
      intro!: sched_ok_switch sched_ok_elect sched_ok_demote)

lemma nextProcess_eq:
  assumes ok: "sched_ok s" and "changeLock (sched s) \<noteq> 1"
  shows "nextProcess s = Done (th_stack (cur_thread (switched s))) (set_cur_state RUNNING (switched s))"
proof -
  let ?c = "current (sched s)"
  obtain ys where ys: "proc_slots (sched s) = ?c # ys" "ring (plink (sched s)) (?c # ys)" "length ys < 100"
    using sched_ok_ring[OF ok] by blast
  have slots: "in_range j MAX_PROCESSES \<and> proc_ok (demote s) (rr_process (processes (sched s) j))"
    if "j \<in> set (?c # ys)" for j
    using sched_ok_demote[OF ok] that ys(1) by (auto simp: sched_ok_def)
  have loop: "nextProcess_loop (nat MAX_PROCESSES) ?c ?c (demote s) =
    (case next_slot (demote s) of Some i \<Rightarrow> Done i (elect (demote s) i) | None \<Rightarrow> Done ?c (demote s))"
    using nextProcess_loop_eq[of "demote s" ?c ys ?c 100] ys slots by (simp add: next_slot_def)
  have first: "with_slot ?c (\<lambda>slot.
           if rr_process slot \<noteq> NULL
           then with_current_thread (\<lambda>t th.
                  kwhen (th_state th = RUNNING) [upd_thr t (\<lambda>th. th\<lparr>th_state := READY\<rparr>)])
           else kskip) s = Done () (demote s)"
    using sched_okD[OF ok] cur_threadI[OF sched_okD(3)[OF ok]]
    by (auto simp: access_app with_current_thread_app[OF ok] kwhen_def demote_def set_cur_state_def)
  have swok: "sched_ok (switched s)" by (rule sched_ok_switched[OF ok])
  have upd: "(case next_slot (demote s) of
       Some i \<Rightarrow> upd_sched (\<lambda>c. c\<lparr>current := i, quantum := QUANTUM\<rparr>) (elect (demote s) i)
     | None \<Rightarrow> upd_sched (\<lambda>c. c\<lparr>current := ?c, quantum := QUANTUM\<rparr>) (demote s)) = Done () (switched s)"
    by (simp add: switched_def upd_sched_def switch_to_def split: option.split)
  have run: "with_current_thread (\<lambda>t th. upd_thr t (\<lambda>th. th\<lparr>th_state := RUNNING\<rparr>)) (switched s) =
      Done () (set_cur_state RUNNING (switched s))"
    using cur_threadI[OF sched_okD(3)[OF swok]]
    by (simp add: with_current_thread_app[OF swok] access_app set_cur_state_def)
  have cur: "cur_thread_addr (set_cur_state RUNNING (switched s)) = cur_thread_addr (switched s)"
    by (simp add: cur_thread_addr_def proc_at_def)
  have stack: "getCurrentStack (set_cur_state RUNNING (switched s)) =
      Done (th_stack (cur_thread (switched s))) (set_cur_state RUNNING (switched s))"
    unfolding getCurrentStack_def with_current_thread_app[OF sched_ok_set_cur_state[OF swok]] cur
    by (simp add: cur_thread_def[of "set_cur_state RUNNING (switched s)"] cur) (simp add: set_cur_state_def)
  show ?thesis
    using assms(2) upd
    by (simp add: nextProcess_def Let_def first[simplified] loop[simplified] run[simplified] stack split: option.splits)
qed

section \<open>Both searches are round robin\<close>

interpretation threads: round_robin
  "\<lambda>(s, p). proc_ok s p"
  "\<lambda>(s, p). thread_slots (the (procs s p))"
  "\<lambda>(s, p). thread_ready s (the (procs s p))"
  "\<lambda>(s, p). case nextThread p s of Done r s' \<Rightarrow> if r = -1 then None else Some r | _ \<Rightarrow> None"
proof
  fix sp :: "kstate \<times> addr"
  obtain s p where sp: "sp = (s, p)" by (cases sp)
  assume v: "case sp of (s, p) \<Rightarrow> proc_ok s p"
  then obtain pr where pr: "procs s p = Some pr" using sp by (auto simp: proc_ok_def split: option.splits)
  have ne: "t \<noteq> -1" if "pick_thread s pr = Some t" for t
    using pick_threadD[OF that] v sp pr by (auto simp: proc_ok_def in_range_def)
  have hd: "hd (thread_slots pr) = pr_currentThread pr" by (simp add: thread_slots_def)
  show "(case sp of (s, p) \<Rightarrow> case nextThread p s of Done r s' \<Rightarrow> if r = -1 then None else Some r | _ \<Rightarrow> None) =
    find (case sp of (s, p) \<Rightarrow> thread_ready s (the (procs s p)))
      (tl (case sp of (s, p) \<Rightarrow> thread_slots (the (procs s p))) @
       [hd (case sp of (s, p) \<Rightarrow> thread_slots (the (procs s p)))])"
    using v sp pr ne nextThread_eq[of s p] by (auto simp: hd pick_thread_def[symmetric] split: option.splits)
  show "(case sp of (s, p) \<Rightarrow> thread_slots (the (procs s p))) \<noteq> []" by (simp add: sp thread_slots_def)
qed

lemma switched_current:
  "current (sched (switched s)) = (case next_slot (demote s) of Some i \<Rightarrow> i | None \<Rightarrow> current (sched s))"
  by (simp add: switched_def switch_to_def split: option.split)

lemma next_slot_ready: "next_slot s = Some i \<Longrightarrow> has_ready s i"
  by (simp add: next_slotD)

interpretation processes: round_robin
  "\<lambda>s. sched_ok s \<and> changeLock (sched s) \<noteq> 1"
  "\<lambda>s. proc_slots (sched s)"
  "\<lambda>s. has_ready (demote s)"
  "\<lambda>s. case nextProcess s of
       Done _ s' \<Rightarrow> if has_ready (demote s) (current (sched s')) then Some (current (sched s')) else None
     | _ \<Rightarrow> None"
proof
  fix s assume v: "sched_ok s \<and> changeLock (sched s) \<noteq> 1"
  have "next_slot (demote s) = None \<Longrightarrow> \<not> has_ready (demote s) (current (sched s))"
    by (auto simp: next_slot_def find_None_iff)
  then show "(case nextProcess s of
       Done _ s' \<Rightarrow> if has_ready (demote s) (current (sched s')) then Some (current (sched s')) else None
     | _ \<Rightarrow> None) = find (has_ready (demote s)) (tl (proc_slots (sched s)) @ [hd (proc_slots (sched s))])"
    using v nextProcess_eq[of s] next_slot_ready[of "demote s"]
    by (simp add: switched_current split: option.split)
       (auto simp: next_slot_def proc_slots_def split: option.splits)
  show "proc_slots (sched s) \<noteq> []" by (simp add: proc_slots_def)
qed

section \<open>Look-up by process number\<close>

definition lookup :: "kstate \<Rightarrow> int \<Rightarrow> int option" where
  "lookup s pid = find (\<lambda>i. pr_pid (proc_at s i) = pid) (proc_slots (sched s))"

lemma getProcessIndex_loop_eq:
  assumes "path (plink (sched s)) i zs c" "n = length (i # zs)"
    "\<And>j. j \<in> set (i # zs) \<Longrightarrow> in_range j MAX_PROCESSES \<and> proc_ok s (rr_process (processes (sched s) j))"
  shows "getProcessIndex_loop n pid i s =
    Done (case find (\<lambda>i. pr_pid (proc_at s i) = pid) (i # zs) of Some j \<Rightarrow> j | None \<Rightarrow> PID_NOT_FOUND) s"
  using assms
proof (induction zs arbitrary: i n)
  case Nil
  then show ?case using proc_ok_at[of s i] by (auto simp: access_app)
next
  case (Cons z zs)
  have "rr_next (processes (sched s) i) = z" using Cons.prems(1) by (simp add: plink_def)
  moreover have "getProcessIndex_loop (length (z # zs)) pid z s =
    Done (case find (\<lambda>i. pr_pid (proc_at s i) = pid) (z # zs) of Some j \<Rightarrow> j | None \<Rightarrow> PID_NOT_FOUND) s"
    using Cons.prems by (intro Cons.IH) auto
  moreover have "in_range i MAX_PROCESSES" "procs s (rr_process (processes (sched s) i)) = Some (proc_at s i)"
    using Cons.prems(3)[of i] proc_ok_at[of s i] by auto
  ultimately show ?case using Cons.prems(2) by (simp add: access_app del: getProcessIndex_loop.simps(2))
    (simp add: access_app)
qed

lemma getProcessIndex_eq:
  assumes "sched_ok s"
  shows "getProcessIndex pid s = Done (case lookup s pid of Some j \<Rightarrow> j | None \<Rightarrow> PID_NOT_FOUND) s"
proof -
  obtain ys where ys: "proc_slots (sched s) = current (sched s) # ys" "ring (plink (sched s)) (current (sched s) # ys)"
    using sched_ok_ring[OF assms] by blast
  have "nat (processQuantity (sched s)) = length (current (sched s) # ys)"
    using assms ys by (simp add: sched_ok_def)
  moreover have "getProcessIndex_loop (length (current (sched s) # ys)) pid (current (sched s)) s =
    Done (case lookup s pid of Some j \<Rightarrow> j | None \<Rightarrow> PID_NOT_FOUND) s"
    unfolding lookup_def ys(1)
    using ys assms by (intro getProcessIndex_loop_eq[where c = "current (sched s)"]) (auto simp: sched_ok_def)
  ultimately show ?thesis by (simp only: getProcessIndex_def kwith_app)
qed

lemma lookupD: "sched_ok s \<Longrightarrow> lookup s pid = Some i \<Longrightarrow>
    i \<in> set (proc_slots (sched s)) \<and> in_range i MAX_PROCESSES \<and> rr_process (processes (sched s) i) \<noteq> NULL \<and>
    proc_ok s (rr_process (processes (sched s) i)) \<and> pr_pid (proc_at s i) = pid"
  unfolding lookup_def sched_ok_def by (drule find_SomeD) auto

lemma getProcess_eq:
  assumes "sched_ok s"
  shows "getProcess pid s =
    Done (case lookup s pid of Some i \<Rightarrow> rr_process (processes (sched s) i) | None \<Rightarrow> NULL) s"
  using lookupD[OF assms, of pid]
  by (auto simp: getProcess_def getProcessIndex_eq[OF assms] access_app in_range_def PID_NOT_FOUND_def split: option.split)

text \<open>A thread the table of its process lists.\<close>

definition thread_at :: "kstate \<Rightarrow> int \<Rightarrow> int \<Rightarrow> addr option" where
  "thread_at s pid t = (case lookup s pid of None \<Rightarrow> None
     | Some i \<Rightarrow> if in_range t MAX_THREADS then Some (tn_thread (pr_threads (proc_at s i) t)) else None)"

lemma changeThreadState_eq:
  assumes "sched_ok s" "thread_at s pid t = Some a" "thrs s a = Some th"
  shows "changeThreadState pid t st s = Done () (s\<lparr>thrs := (thrs s)(a \<mapsto> th\<lparr>th_state := st\<rparr>)\<rparr>)"
proof -
  obtain i where i: "lookup s pid = Some i" "in_range t MAX_THREADS" "a = tn_thread (pr_threads (proc_at s i) t)"
    using assms(2) by (auto simp: thread_at_def split: option.splits if_splits)
  moreover note lookupD[OF assms(1) i(1)]
  ultimately show ?thesis
    using assms(3) proc_ok_at[of s i]
    by (simp add: changeThreadState_def getProcess_eq[OF assms(1)] kwhen_def) (auto simp: access_app in_range_def)
qed

lemma changeThreadState_none:
  assumes "sched_ok s" "thread_at s pid t = None"
  shows "changeThreadState pid t st s = Done () s"
  using assms(2) lookupD[OF assms(1)]
  by (auto simp: changeThreadState_def getProcess_eq[OF assms(1)] kwhen_def thread_at_def in_range_def split: option.splits if_splits)

end
