(* ===== verification/SchedProps.thy ===== *)
theory SchedProps
  imports SchedCorrect
begin

text \<open>
  The properties of the scheduler: what a switch chooses, why no ready process waits for ever, and
  the insertion of processes into the ring and its table.
\<close>

section \<open>Adding a process\<close>

interpretation free_process_slot: slot_search findFirstAvailableSpace
  "\<lambda>c i. rr_process (processes c i) = NULL" "int (nat MAX_PROCESSES)" PROCESS_LIMIT_REACHED
  unfolding findFirstAvailableSpace_def[abs_def]
  by (rule scan_or_slot_search) (simp add: PROCESS_LIMIT_REACHED_def)

text \<open>Slots outside the ring are empty, and \<open>firstAvailableSpace\<close> is the first empty one.\<close>

definition slots_inv :: "kstate \<Rightarrow> bool" where
  "slots_inv s \<longleftrightarrow> sched_ok s \<and>
     (\<forall>i. in_range i MAX_PROCESSES \<and> i \<notin> set (proc_slots (sched s)) \<longrightarrow> rr_process (processes (sched s) i) = NULL) \<and>
     firstAvailableSpace (sched s) = findFirstAvailableSpace (sched s)"

lemma free_slot:
  assumes "slots_inv s" "processQuantity (sched s) < MAX_PROCESSES"
  shows "in_range (firstAvailableSpace (sched s)) MAX_PROCESSES"
    "firstAvailableSpace (sched s) \<notin> set (proc_slots (sched s))"
proof -
  let ?xs = "proc_slots (sched s)"
  have "distinct ?xs" "length ?xs < 100"
    using assms by (auto simp: slots_inv_def sched_ok_def proc_slots_def MAX_PROCESSES_def)
  then have "card (set ?xs) < card {0..<100::int}" by (simp add: distinct_card)
  then have "\<not> {0..<100} \<subseteq> set ?xs" by (metis List.finite_set card_mono not_le)
  then obtain i where "i \<in> {0..<100}" and ix: "i \<notin> set ?xs" by blast
  then have i: "0 \<le> i" "i < 100" by simp_all
  then have "rr_process (processes (sched s) i) = NULL"
    using ix assms by (auto simp: slots_inv_def in_range_def MAX_PROCESSES_def)
  then have ne: "findFirstAvailableSpace (sched s) \<noteq> PROCESS_LIMIT_REACHED"
    using i free_process_slot.full[of "sched s" i] by (auto simp: MAX_PROCESSES_def)
  note found = free_process_slot.found[OF ne]
  show "in_range (firstAvailableSpace (sched s)) MAX_PROCESSES"
    using found assms(1) by (simp add: slots_inv_def in_range_def MAX_PROCESSES_def)
  show "firstAvailableSpace (sched s) \<notin> set ?xs"
    using found assms(1) by (auto simp: slots_inv_def sched_ok_def)
qed

definition inserted :: "addr \<Rightarrow> sched_state \<Rightarrow> sched_state" where
  "inserted process c =
     (let f = firstAvailableSpace c;
          c1 = c\<lparr>processes := (processes c)(
            current c := (processes c (current c))\<lparr>rr_next := f\<rparr>,
            f := \<lparr>rr_next = rr_next (processes c (current c)), rr_process = process\<rparr>)\<rparr>
      in c1\<lparr>firstAvailableSpace := findFirstAvailableSpace c1, processQuantity := processQuantity c + 1\<rparr>)"

lemma addProcess_eq:
  assumes "slots_inv s" "processQuantity (sched s) < MAX_PROCESSES" "procs s process = Some pr"
  shows "addProcess process s = Done (pr_pid pr) (s\<lparr>sched := inserted process (sched s)\<rparr>)"
proof -
  let ?c = "sched s"
  have f: "in_range (firstAvailableSpace ?c) MAX_PROCESSES" "firstAvailableSpace ?c \<noteq> current ?c"
    using free_slot[OF assms(1,2)] by (auto simp: proc_slots_def)
  have "sched_ok s" using assms(1) by (simp add: slots_inv_def)
  then have cur: "in_range (current ?c) MAX_PROCESSES" and q: "0 < processQuantity ?c"
    by (auto simp: sched_ok_def proc_slots_def)
  have node: "x\<lparr>rr_process := p, rr_next := n\<rparr> = \<lparr>rr_next = n, rr_process = p\<rparr>" for x :: roundRobinNode_t and p n
    by (cases x) simp
  have ff: "findFirstAvailableSpace (c\<lparr>firstAvailableSpace := x, processQuantity := y\<rparr>) = findFirstAvailableSpace c" for c x y
    by (simp add: findFirstAvailableSpace_def)
  show ?thesis
    using f cur q assms(2,3)
    by (simp add: addProcess_def Let_def inserted_def upd_slot_def access_app upd_sched_def node)
qed

lemma proc_slots_inserted:
  assumes "slots_inv s" "processQuantity (sched s) < MAX_PROCESSES"
  shows "proc_slots (inserted p (sched s)) =
      current (sched s) # firstAvailableSpace (sched s) # tl (proc_slots (sched s))"
    "ring (plink (inserted p (sched s))) (proc_slots (inserted p (sched s)))"
proof -
  let ?c = "sched s" and ?f = "firstAvailableSpace (sched s)"
  have ok: "sched_ok s" using assms(1) by (simp add: slots_inv_def)
  obtain ys where ys: "proc_slots ?c = current ?c # ys" "ring (plink ?c) (current ?c # ys)" "length ys < 100"
    using sched_ok_ring[OF ok] by blast
  have fresh: "?f \<notin> set (current ?c # ys)" using free_slot[OF assms] ys(1) by simp
  have link: "plink (inserted p ?c) = (plink ?c)(current ?c := ?f, ?f := plink ?c (current ?c))"
    using fresh by (auto simp: plink_def inserted_def Let_def fun_eq_iff)
  have ring: "ring (plink (inserted p ?c)) (current ?c # ?f # ys)"
    unfolding link by (rule ring_insert[OF ys(2) fresh])
  have len: "length (current ?c # ys) < 100"
    using assms ok ys(1) by (simp add: sched_ok_def MAX_PROCESSES_def)
  have cur: "current (inserted p ?c) = current ?c" by (simp add: inserted_def Let_def)
  have "follow (plink (inserted p ?c)) 100 (current ?c) (current ?c) = ?f # ys"
    using ring len by (intro follow_path) auto
  then show "proc_slots (inserted p ?c) = current ?c # ?f # tl (proc_slots ?c)"
    by (simp add: proc_slots_def[of "inserted p ?c"] cur ys(1))
  with ring ys(1) show "ring (plink (inserted p ?c)) (proc_slots (inserted p ?c))" by simp
qed

lemma slots_inv_inserted:
  assumes "slots_inv s" "processQuantity (sched s) < MAX_PROCESSES" "p \<noteq> NULL" "proc_ok s p"
  shows "slots_inv (s\<lparr>sched := inserted p (sched s)\<rparr>)"
proof -
  let ?c = "sched s" and ?f = "firstAvailableSpace (sched s)"
  have ok: "sched_ok s" using assms(1) by (simp add: slots_inv_def)
  note f = free_slot[OF assms(1,2)]
  note slots = proc_slots_inserted[OF assms(1,2), of p]
  obtain ys where ys: "proc_slots ?c = current ?c # ys" by (simp add: proc_slots_def)
  have proc: "rr_process (processes (inserted p ?c) i) = (if i = ?f then p else rr_process (processes ?c i))" for i
    using f ys by (simp add: inserted_def Let_def)
  have "processQuantity (inserted p ?c) = int (length (proc_slots (inserted p ?c)))"
    using ok by (simp add: slots ys) (simp add: inserted_def Let_def sched_ok_def ys)
  moreover have "in_range i MAX_PROCESSES \<and> rr_process (processes (inserted p ?c) i) \<noteq> NULL \<and>
      proc_ok s (rr_process (processes (inserted p ?c) i))" if "i \<in> set (proc_slots (inserted p ?c))" for i
    using that ok f assms(3,4) ys by (auto simp: slots(1) proc sched_ok_def)
  moreover have "rr_process (processes (inserted p ?c) i) = NULL"
    if "in_range i MAX_PROCESSES" "i \<notin> set (proc_slots (inserted p ?c))" for i
    using that assms(1) ys by (auto simp: slots(1) proc slots_inv_def)
  moreover have "firstAvailableSpace (inserted p ?c) = findFirstAvailableSpace (inserted p ?c)"
    by (simp add: inserted_def Let_def findFirstAvailableSpace_def)
  ultimately show ?thesis
    using slots(2) by (simp add: slots_inv_def sched_ok_def)
qed

text \<open>The ring of processes grows with \<open>addProcess\<close>.\<close>

interpretation grown: growing_round_robin
  "\<lambda>s. sched_ok s \<and> changeLock (sched s) \<noteq> 1"
  "\<lambda>s. proc_slots (sched s)"
  "\<lambda>s. has_ready (demote s)"
  "\<lambda>s. case nextProcess s of
       Done _ s' \<Rightarrow> if has_ready (demote s) (current (sched s')) then Some (current (sched s')) else None
     | _ \<Rightarrow> None"
  "\<lambda>s. slots_inv s \<and> processQuantity (sched s) < MAX_PROCESSES \<and> p \<noteq> NULL \<and> proc_ok s p \<and> changeLock (sched s) \<noteq> 1"
  "\<lambda>s. firstAvailableSpace (sched s)"
  "\<lambda>s. s\<lparr>sched := inserted p (sched s)\<rparr>" for p
proof unfold_locales
  fix s assume r: "slots_inv s \<and> processQuantity (sched s) < MAX_PROCESSES \<and> p \<noteq> NULL \<and> proc_ok s p \<and> changeLock (sched s) \<noteq> 1"
  then show "sched_ok (s\<lparr>sched := inserted p (sched s)\<rparr>) \<and> changeLock (sched (s\<lparr>sched := inserted p (sched s)\<rparr>)) \<noteq> 1"
    using slots_inv_inserted[of s p] by (simp add: slots_inv_def) (simp add: inserted_def Let_def)
  show "proc_slots (sched (s\<lparr>sched := inserted p (sched s)\<rparr>)) =
      hd (proc_slots (sched s)) # firstAvailableSpace (sched s) # tl (proc_slots (sched s))"
    using r proc_slots_inserted(1)[of s p] by (simp add: proc_slots_def[of "sched s"])
qed

lemma added_runs_next:
  assumes "slots_inv s" "processQuantity (sched s) < MAX_PROCESSES" "p \<noteq> NULL" "proc_ok s p" "changeLock (sched s) \<noteq> 1"
    "has_ready (demote (s\<lparr>sched := inserted p (sched s)\<rparr>)) (firstAvailableSpace (sched s))"
  shows "\<exists>rsp s'. nextProcess (s\<lparr>sched := inserted p (sched s)\<rparr>) = Done rsp s' \<and> current (sched s') = firstAvailableSpace (sched s)"
proof -
  let ?s = "s\<lparr>sched := inserted p (sched s)\<rparr>"
  have r: "slots_inv s \<and> processQuantity (sched s) < MAX_PROCESSES \<and> p \<noteq> NULL \<and> proc_ok s p \<and> changeLock (sched s) \<noteq> 1"
    using assms(1-5) by simp
  have "sched_ok ?s" "changeLock (sched ?s) \<noteq> 1" using grown.grow_valid[OF r] by simp_all
  note np = nextProcess_eq[OF this]
  show ?thesis using grown.new_is_next[OF r assms(6)] np by (auto split: if_splits)
qed

section \<open>A concrete system\<close>

text \<open>Two processes of one thread each, in slots 0 and 1; the thread of the second is ready.\<close>

definition ex_proc :: "int \<Rightarrow> addr \<Rightarrow> process_t" where
  "ex_proc pid t = \<lparr>pr_pid = pid, pr_ppid = 0, pr_name = [], pr_threads = (\<lambda>_. \<lparr>tn_thread = t, tn_next = 0\<rparr>),
     pr_currentThread = 0, pr_standardPipes = (\<lambda>_. -1)\<rparr>"

definition ex_thread :: "processState \<Rightarrow> thread_t" where
  "ex_thread st = \<lparr>th_stack = 500, th_entryPoint = 0, th_memoryBase = 0, th_state = st, th_waitingThread = -1\<rparr>"

definition ex_sched :: sched_state where
  "ex_sched = \<lparr>processes = (\<lambda>_. \<lparr>rr_next = 0, rr_process = NULL\<rparr>)(
       0 := \<lparr>rr_next = 1, rr_process = 10\<rparr>, 1 := \<lparr>rr_next = 0, rr_process = 20\<rparr>),
     firstAvailableSpace = 2, foreground = 10, current = 0, processQuantity = 2, quantum = 2,
     schedulerAuxiliaryStack = 9000, changeLock = 0, lockQuantumExceded = 0\<rparr>"

definition ex_state :: "kstate \<Rightarrow> kstate" where
  "ex_state s = s\<lparr>procs := [10 \<mapsto> ex_proc 1 11, 20 \<mapsto> ex_proc 2 21],
     thrs := [11 \<mapsto> ex_thread RUNNING, 21 \<mapsto> ex_thread READY], sched := ex_sched\<rparr>"

lemma ex_proc_slots: "proc_slots ex_sched = [0, 1]"
  by (simp add: proc_slots_def ex_sched_def plink_def numeral_eq_Suc)

lemma ex_thread_slots [simp]: "thread_slots (ex_proc pid t) = [0]"
  by (simp add: thread_slots_def tlink_def ex_proc_def numeral_eq_Suc)

lemma ex_proc_ok: "proc_ok (ex_state s) 10" "proc_ok (ex_state s) 20"
  by (simp_all add: proc_ok_def ex_state_def) (simp_all add: tlink_def ex_proc_def in_range_def MAX_THREADS_def)

lemma ex_sched_state [simp]: "sched (ex_state s) = ex_sched"
  by (simp add: ex_state_def)

lemma ex_sched_ok: "sched_ok (ex_state s)"
  using ex_proc_ok by (simp add: sched_ok_def ex_proc_slots)
    (simp add: plink_def ex_sched_def in_range_def MAX_PROCESSES_def)

lemma ex_slots_inv: "slots_inv (ex_state s)"
proof -
  have "findFirstAvailableSpace ex_sched = 2"
    by (rule free_process_slot.search_unique) (auto simp: MAX_PROCESSES_def ex_sched_def)
  then show ?thesis using ex_sched_ok[of s]
    by (simp add: slots_inv_def ex_proc_slots) (simp add: ex_sched_def)
qed

lemma ex_demote: "demote (ex_state s) = ex_state s\<lparr>thrs := [11 \<mapsto> ex_thread READY, 21 \<mapsto> ex_thread READY]\<rparr>"
  by (simp add: demote_def set_cur_state_def cur_thread_def cur_thread_addr_def proc_at_def ex_sched_def ex_thread_def)
     (simp add: ex_state_def ex_sched_def ex_proc_def ex_thread_def fun_upd_twist)

lemma ex_sched_simps [simp]:
  "current ex_sched = 0" "changeLock ex_sched = 0" "processQuantity ex_sched = 2" "rr_process (processes ex_sched 1) = 20"
  by (simp_all add: ex_sched_def)

lemma ex_ready: "has_ready (demote (ex_state s)) 1"
proof -
  have "proc_at (demote (ex_state s)) 1 = ex_proc 2 21"
    by (simp add: proc_at_def) (simp add: ex_state_def)
  moreover have "thread_ready (demote (ex_state s)) (ex_proc 2 21) 0"
    by (simp add: thread_ready_def ex_demote ex_proc_def) (simp add: ex_thread_def)
  moreover have "pr_currentThread (ex_proc 2 21) = 0" by (simp add: ex_proc_def)
  ultimately show ?thesis by (simp add: has_ready_def pick_thread_def)
qed

section \<open>Properties\<close>

definition ring_distance :: "int \<Rightarrow> int list \<Rightarrow> nat" where
  "ring_distance d xs = length (takeWhile (\<lambda>x. x \<noteq> d) xs)"

text \<open>C9: A call of \<open>nextProcess\<close> that may switch is a round-robin step: the running thread becomes ready;
  the processor goes to the first process behind the one in use, in ring order and that one last, that has a
  ready thread, and in it to the first ready thread of its own ring; that thread is \<open>RUNNING\<close>, its
  saved stack is returned, and the rings stay well-formed.\<close>

theorem nextProcess_round_robin:
  assumes "sched_ok s" "changeLock (sched s) \<noteq> 1"
    and "find (has_ready (demote s)) (tl (proc_slots (sched s)) @ [current (sched s)]) = Some i"
  shows "\<exists>s'. nextProcess s = Done (th_stack (cur_thread s')) s' \<and> sched_ok s' \<and>
    current (sched s') = i \<and> proc_slots (sched s') = rot_to i (proc_slots (sched s)) \<and>
    Some (pr_currentThread (proc_at s' i)) = pick_thread (demote s) (proc_at (demote s) i) \<and>
    th_state (cur_thread s') = RUNNING \<and> quantum (sched s') = QUANTUM"
proof -
  let ?s' = "set_cur_state RUNNING (switched s)"
  have nx: "next_slot (demote s) = Some i" using assms(3) by (simp add: next_slot_def)
  note i = next_slotD[OF nx]
  have sw: "switched s = switch_to i (elect (demote s) i)" by (simp add: switched_def nx)
  have ok: "sched_ok (switched s)" by (rule sched_ok_switched[OF assms(1)])
  have el: "sched_ok (elect (demote s) i)" using i sched_ok_elect[OF sched_ok_demote[OF assms(1)]] by simp
  have addr: "cur_thread_addr ?s' = cur_thread_addr (switched s)"
    by (simp add: cur_thread_addr_def proc_at_def)
  then have th: "cur_thread ?s' = (cur_thread (switched s))\<lparr>th_state := RUNNING\<rparr>"
    by (simp add: cur_thread_def[of ?s']) (simp add: set_cur_state_def)
  have slots: "proc_slots (sched ?s') = rot_to i (proc_slots (sched s))"
    using proc_slots_switch(1)[OF el, of i] i by (simp add: sw)
  have pick: "Some (pr_currentThread (proc_at ?s' i)) = pick_thread (demote s) (proc_at (demote s) i)"
    using i by (auto simp: proc_at_def sw has_ready_def) (simp add: switch_to_def elect_def proc_at_def)
  show ?thesis
    using nextProcess_eq[OF assms(1,2)] sched_ok_set_cur_state[OF ok, of RUNNING] th slots pick
    by (intro exI[of _ ?s']) (simp add: sw switch_to_def)
qed

theorem nextProcess_round_robin_witness:
  "\<forall>s. \<exists>s'. nextProcess (ex_state s) = Done (th_stack (cur_thread s')) s' \<and> current (sched s') = 1 \<and>
    proc_slots (sched s') = [1, 0]"
proof
  fix s
  have "find (has_ready (demote (ex_state s)))
      (tl (proc_slots (sched (ex_state s))) @ [current (sched (ex_state s))]) = Some 1"
    using ex_ready[of s] by (simp add: ex_proc_slots)
  from nextProcess_round_robin[OF ex_sched_ok _ this] show "\<exists>s'. nextProcess (ex_state s) = Done (th_stack (cur_thread s')) s' \<and> current (sched s') = 1 \<and>
    proc_slots (sched s') = [1, 0]"
    by (fastforce simp: ex_proc_slots rot_to_def)
qed

lemma switch_progress:
  assumes "sched_ok s" "changeLock (sched s) \<noteq> 1" "d \<in> set (tl (proc_slots (sched s)))" "has_ready (demote s) d"
  shows "\<exists>rsp s'. nextProcess s = Done rsp s' \<and> (current (sched s') = d \<or>
    ring_distance d (proc_slots (sched s')) < ring_distance d (proc_slots (sched s)))"
proof -
  obtain ys where ring: "proc_slots (sched s) = current (sched s) # ys" "ring (plink (sched s)) (current (sched s) # ys)"
    using sched_ok_ring[OF assms(1)] by blast
  obtain as bs where ys: "ys = as @ d # bs" "d \<notin> set as"
    using assms(3) ring(1) by (auto dest: split_list_first)
  let ?s' = "set_cur_state RUNNING (switched s)"
  have np: "nextProcess s = Done (th_stack (cur_thread (switched s))) ?s'" by (rule nextProcess_eq[OF assms(1,2)])
  have "next_slot (demote s) = Some d \<or> (\<exists>i \<in> set as. next_slot (demote s) = Some i)"
    using processes.pick_first[of s "current (sched s)" as d bs] assms np ring(1) ys
      processes.pick_eq[of s] by (simp add: next_slot_def)
  then show ?thesis
  proof
    assume "next_slot (demote s) = Some d"
    then have "current (sched ?s') = d" by (simp add: switched_current)
    then show ?thesis using np by blast
  next
    assume "\<exists>i \<in> set as. next_slot (demote s) = Some i"
    then obtain i where i: "i \<in> set as" "next_slot (demote s) = Some i" by blast
    obtain bs' cs where as: "as = bs' @ i # cs" "i \<notin> set bs'" using i(1) by (auto dest: split_list_first)
    have ne: "i \<noteq> current (sched s)" "d \<noteq> current (sched s)" using ring(2) ys as by auto
    have el: "sched_ok (elect (demote s) i)"
      using i next_slotD[OF i(2)] sched_ok_elect[OF sched_ok_demote[OF assms(1)]] by simp
    have "proc_slots (sched ?s') = rot_to i (proc_slots (sched s))"
      using proc_slots_switch(1)[OF el, of i] next_slotD[OF i(2)] by (simp add: switched_def i)
    also have "\<dots> = i # cs @ d # bs @ current (sched s) # bs'"
      using rot_to_split[of i "current (sched s) # bs'" "cs @ d # bs"] ring(1) ys as ne by simp
    finally have "ring_distance d (proc_slots (sched ?s')) = Suc (length cs)"
      using ys as by (auto simp: ring_distance_def takeWhile_append)
    moreover have "ring_distance d (proc_slots (sched s)) = Suc (length as)"
      using ring(1) ys ne by (auto simp: ring_distance_def takeWhile_append)
    ultimately show ?thesis using np as by auto
  qed
qed

text \<open>C10: No process with a ready thread starves: after a switch it is either the one in use or strictly
  nearer to the front of the ring than before.\<close>

theorem nextProcess_progress:
  assumes "sched_ok s" "changeLock (sched s) \<noteq> 1" "d \<in> set (tl (proc_slots (sched s)))" "has_ready (demote s) d"
  shows "\<exists>rsp s'. nextProcess s = Done rsp s' \<and> (current (sched s') = d \<or>
    ring_distance d (proc_slots (sched s')) < ring_distance d (proc_slots (sched s)))"
  by (rule switch_progress[OF assms])

theorem nextProcess_progress_witness:
  "\<forall>s. \<exists>rsp s'. nextProcess (ex_state s) = Done rsp s' \<and> (current (sched s') = 1 \<or>
    ring_distance 1 (proc_slots (sched s')) < 1)"
proof
  fix s
  have "changeLock (sched (ex_state s)) \<noteq> 1" by (simp add: ex_sched_def)
  from nextProcess_progress[OF ex_sched_ok this _ ex_ready] show "\<exists>rsp s'. nextProcess (ex_state s) = Done rsp s' \<and> (current (sched s') = 1 \<or>
    ring_distance 1 (proc_slots (sched s')) < 1)"
    by (simp add: ex_proc_slots ring_distance_def)
qed

text \<open>C11: \<open>addProcess\<close> puts the new process directly behind the one in use, in the first empty slot, keeps the
  order of the others, and preserves the invariant of ring and table; if the new process has a ready thread it is the
  next to get the processor.\<close>

theorem addProcess_inserts:
  assumes "slots_inv s" "processQuantity (sched s) < MAX_PROCESSES" "process \<noteq> NULL" "proc_ok s process"
  shows "\<exists>s'. addProcess process s = Done (pr_pid (the (procs s process))) s' \<and> slots_inv s' \<and>
    proc_slots (sched s') =
      current (sched s) # findFirstAvailableSpace (sched s) # tl (proc_slots (sched s)) \<and>
    rr_process (processes (sched s') (findFirstAvailableSpace (sched s))) = process \<and>
    processQuantity (sched s') = processQuantity (sched s) + 1 \<and>
    (changeLock (sched s) \<noteq> 1 \<and> has_ready (demote s') (findFirstAvailableSpace (sched s)) \<longrightarrow>
      (\<exists>rsp s''. nextProcess s' = Done rsp s'' \<and> current (sched s'') = findFirstAvailableSpace (sched s)))"
proof -
  obtain pr where pr: "procs s process = Some pr" using assms(4) by (auto simp: proc_ok_def split: option.splits)
  have "findFirstAvailableSpace (sched s) = firstAvailableSpace (sched s)" using assms(1) by (simp add: slots_inv_def)
  then show ?thesis
    using addProcess_eq[OF assms(1,2) pr] slots_inv_inserted[OF assms] proc_slots_inserted(1)[OF assms(1,2), of process] pr
      added_runs_next[OF assms]
    by (simp add: exI[of _ "s\<lparr>sched := inserted process (sched s)\<rparr>"]) (simp add: inserted_def Let_def)
qed

theorem addProcess_inserts_witness:
  "\<forall>s. \<exists>s'. addProcess 20 (ex_state s) = Done 2 s' \<and> proc_slots (sched s') = [0, 2, 1]"
proof
  fix s
  have "findFirstAvailableSpace ex_sched = 2" using ex_slots_inv[of s] by (simp add: slots_inv_def) (simp add: ex_sched_def)
  moreover have "processQuantity (sched (ex_state s)) < MAX_PROCESSES" by (simp add: ex_sched_def MAX_PROCESSES_def)
  moreover have "pr_pid (the (procs (ex_state s) 20)) = 2" by (simp add: ex_state_def ex_proc_def)
  ultimately show "\<exists>s'. addProcess 20 (ex_state s) = Done 2 s' \<and> proc_slots (sched s') = [0, 2, 1]"
    using addProcess_inserts[OF ex_slots_inv, of s 20] ex_proc_ok[of s] by (auto simp: ex_proc_slots)
qed

text \<open>When every slot has been taken once, \<open>firstAvailableSpace\<close> holds the sentinel; removing a process does
  not lower it, so the next \<open>addProcess\<close> writes \<open>processes[-1]\<close>.\<close>

theorem addProcess_after_full:
  assumes "sched_ok s" "processQuantity (sched s) \<noteq> MAX_PROCESSES"
    "firstAvailableSpace (sched s) = PROCESS_LIMIT_REACHED"
  shows "addProcess process s = Fault OutOfBounds"
proof -
  have "0 < processQuantity (sched s)" using assms(1) by (simp add: sched_ok_def proc_slots_def)
  then show ?thesis
    using assms sched_okD(1)[OF assms(1)]
    by (simp add: addProcess_def Let_def access_defs in_range_def PROCESS_LIMIT_REACHED_def)
qed

theorem addProcess_after_full_witness:
  "\<forall>s. addProcess 20 (ex_state s\<lparr>sched := ex_sched\<lparr>firstAvailableSpace := -1\<rparr>\<rparr>) = Fault OutOfBounds"
proof (rule allI, rule addProcess_after_full)
  fix s
  let ?s = "ex_state s\<lparr>sched := ex_sched\<lparr>firstAvailableSpace := -1\<rparr>\<rparr>"
  have "proc_slots (ex_sched\<lparr>firstAvailableSpace := -1\<rparr>) = proc_slots ex_sched" by (rule proc_slots_cong) simp_all
  moreover have "plink (ex_sched\<lparr>firstAvailableSpace := -1\<rparr>) = plink ex_sched" by (simp add: plink_def[abs_def])
  ultimately show "sched_ok ?s" using ex_sched_ok[of s] by (simp add: sched_ok_def)
qed (simp_all add: ex_sched_def MAX_PROCESSES_def PROCESS_LIMIT_REACHED_def)

end
