(* ===== verification/MutexCorrect.thy ===== *)
theory MutexCorrect
  imports Mutex SchedProps
begin

text \<open>
  Mutexes on a well-formed scheduler: what taking, contending for and giving back a mutex do, as
  equations over the table entry (\<open>queued\<close>, \<open>up_tab\<close>), the invariant of an entry, and the refinement of a
  lock with an owner and a set of waiters.
\<close>

section \<open>The scheduler does not see the tables\<close>

lemma sched_ok_cong:
  assumes "processes (sched s') = processes (sched s)" "current (sched s') = current (sched s)"
    "processQuantity (sched s') = processQuantity (sched s)" "procs s' = procs s" "thrs s' = thrs s"
  shows "sched_ok s' = sched_ok s"
proof -
  have "proc_ok s' p = proc_ok s p" for p using assms by (simp add: proc_ok_def split: option.split)
  moreover have "plink (sched s') = plink (sched s)" using assms by (simp add: plink_def[abs_def])
  moreover have "proc_slots (sched s') = proc_slots (sched s)" using assms by (intro proc_slots_cong)
  ultimately show ?thesis using assms by (simp add: sched_ok_def)
qed

lemma lookup_cong:
  assumes "processes (sched s') = processes (sched s)" "current (sched s') = current (sched s)" "procs s' = procs s"
  shows "lookup s' pid = lookup s pid"
proof -
  have "proc_slots (sched s') = proc_slots (sched s)" using assms by (intro proc_slots_cong)
  moreover have "proc_at s' i = proc_at s i" for i using assms by (simp add: proc_at_def)
  ultimately show ?thesis by (simp add: lookup_def)
qed

lemma thread_at_cong:
  assumes "processes (sched s') = processes (sched s)" "current (sched s') = current (sched s)" "procs s' = procs s"
  shows "thread_at s' pid t = thread_at s pid t"
proof -
  have "proc_at s' = proc_at s" using assms by (simp add: proc_at_def[abs_def])
  then show ?thesis using lookup_cong[OF assms] by (simp add: thread_at_def split: option.split)
qed

text \<open>Every thread a process lists exists.\<close>

definition threads_ok :: "kstate \<Rightarrow> bool" where
  "threads_ok s \<longleftrightarrow> sched_ok s \<and> (\<forall>pid t a. thread_at s pid t = Some a \<longrightarrow> thrs s a \<noteq> None)"

lemma threads_okD: "threads_ok s \<Longrightarrow> sched_ok s"
  by (simp add: threads_ok_def)

lemma threads_ok_cong:
  assumes "processes (sched s') = processes (sched s)" "current (sched s') = current (sched s)"
    "processQuantity (sched s') = processQuantity (sched s)" "procs s' = procs s" "thrs s' = thrs s"
  shows "threads_ok s' = threads_ok s"
  using assms sched_ok_cong[OF assms] thread_at_cong[OF assms(1,2,4)] by (simp add: threads_ok_def)

text \<open>\<open>changeThreadState\<close> as a function on states.\<close>

definition set_state :: "int \<Rightarrow> int \<Rightarrow> processState \<Rightarrow> kstate \<Rightarrow> kstate" where
  "set_state pid t st s = (case thread_at s pid t of None \<Rightarrow> s
     | Some a \<Rightarrow> s\<lparr>thrs := (thrs s)(a \<mapsto> (the (thrs s a))\<lparr>th_state := st\<rparr>)\<rparr>)"

lemma set_state_simps [simp]:
  "sched (set_state pid t st s) = sched s" "procs (set_state pid t st s) = procs s" "mut (set_state pid t st s) = mut s"
  "sems (set_state pid t st s) = sems s" "cpu_rsp (set_state pid t st s) = cpu_rsp s"
  "buddyHeap (set_state pid t st s) = buddyHeap s" "terminal (set_state pid t st s) = terminal s" "tim (set_state pid t st s) = tim s"
  by (simp_all add: set_state_def split: option.split)

lemma changeThreadState_set_state:
  "threads_ok s \<Longrightarrow> changeThreadState pid t st s = Done () (set_state pid t st s)"
proof (cases "thread_at s pid t")
  case None
  then show "threads_ok s \<Longrightarrow> ?thesis" by (simp add: set_state_def threads_ok_def changeThreadState_none)
next
  case (Some a)
  assume ok: "threads_ok s"
  then have "thrs s a \<noteq> None" using Some unfolding threads_ok_def by blast
  then obtain th where "thrs s a = Some th" by blast
  then show ?thesis using ok Some changeThreadState_eq[of s pid t a th st] by (simp add: set_state_def threads_ok_def)
qed

lemma threads_ok_set_state:
  assumes "threads_ok s"
  shows "threads_ok (set_state pid t st s)"
proof (cases "thread_at s pid t")
  case None
  then show ?thesis using assms by (simp add: set_state_def)
next
  case (Some a)
  then have "thrs s a \<noteq> None" using assms by (auto simp: threads_ok_def)
  then have "proc_ok (set_state pid t st s) p = proc_ok s p" for p
    using Some by (simp add: set_state_def proc_ok_thr_upd)
  then have "sched_ok (set_state pid t st s)" using assms by (simp add: threads_ok_def sched_ok_def)
  moreover have "thrs (set_state pid t st s) b \<noteq> None" if "thrs s b \<noteq> None" for b
    using that Some by (simp add: set_state_def)
  moreover have "thread_at (set_state pid t st s) q u = thread_at s q u" for q u
    by (rule thread_at_cong) simp_all
  ultimately show ?thesis using assms by (auto simp: threads_ok_def)
qed

definition set_lock :: "int \<Rightarrow> kstate \<Rightarrow> kstate" where
  "set_lock v s = s\<lparr>sched := (sched s)\<lparr>changeLock := v\<rparr>\<rparr>"

lemma set_lock_simps [simp]:
  "processes (sched (set_lock v s)) = processes (sched s)" "current (sched (set_lock v s)) = current (sched s)"
  "processQuantity (sched (set_lock v s)) = processQuantity (sched s)" "procs (set_lock v s) = procs s"
  "thrs (set_lock v s) = thrs s" "mut (set_lock v s) = mut s" "sems (set_lock v s) = sems s" "cpu_rsp (set_lock v s) = cpu_rsp s"
  "lockQuantumExceded (sched (set_lock v s)) = lockQuantumExceded (sched s)" "changeLock (sched (set_lock v s)) = v"
  "set_lock v (set_lock w s) = set_lock v s" "set_lock v (s\<lparr>mut := x\<rparr>) = set_lock v s\<lparr>mut := x\<rparr>"
  by (simp_all add: set_lock_def)

lemma threads_ok_set_lock [simp]: "threads_ok (set_lock v s) = threads_ok s"
  by (rule threads_ok_cong) simp_all

lemma threads_ok_mut [simp]: "threads_ok (s\<lparr>mut := x\<rparr>) = threads_ok s"
  by (rule threads_ok_cong) simp_all

lemma set_state_set_lock: "set_state pid t st (set_lock v s) = set_lock v (set_state pid t st s)"
  using thread_at_cong[of "set_lock v s" s pid t] by (simp add: set_state_def) (simp add: set_lock_def split: option.split)

lemma set_state_mut: "set_state pid t st (s\<lparr>mut := x\<rparr>) = set_state pid t st s\<lparr>mut := x\<rparr>"
  using thread_at_cong[of "s\<lparr>mut := x\<rparr>" s pid t] by (simp add: set_state_def split: option.split)

lemma lock_app [simp]: "lock s = Done () (set_lock 1 s)"
  by (simp add: lock_def upd_sched_def set_lock_def)

lemma unlock_app:
  assumes "lockQuantumExceded (sched s) = 0"
  shows "unlock s = Done () (set_lock 0 s)"
proof -
  have "s\<lparr>sched := sched s\<lparr>changeLock := 0, lockQuantumExceded := 0\<rparr>\<rparr> = set_lock 0 s"
    using assms by (simp add: set_lock_def)
  then show ?thesis using assms by (simp add: unlock_def upd_sched_def testAndSetLock_def kwhen_def)
qed

section \<open>Table entries\<close>

interpretation free_mutex: slot_search getNextMutexAvailable
  "\<lambda>c i. tid_pid (m_creator (mutexes c i)) = NOT_USED" "int (nat MAX_MUTEXES)" FULL_LIST
  unfolding getNextMutexAvailable_def[abs_def]
  by (rule scan_or_slot_search) (simp add: FULL_LIST_def)

interpretation free_cell: slot_search "\<lambda>list. nextListIndexAvailable list MAX_BLOCKED"
  "\<lambda>list i. tid_pid (list i) = NOT_USED" "int (nat MAX_BLOCKED)" FULL_LIST
  unfolding nextListIndexAvailable_def[abs_def]
  by (rule scan_or_slot_search) (simp add: FULL_LIST_def)

definition entry :: "kstate \<Rightarrow> int \<Rightarrow> mutex_t" where
  "entry s m = mutexes (mut s) m"

definition set_entry :: "int \<Rightarrow> mutex_t \<Rightarrow> kstate \<Rightarrow> kstate" where
  "set_entry m x s = s\<lparr>mut := (mut s)\<lparr>mutexes := (mutexes (mut s))(m := x)\<rparr>\<rparr>"

lemma set_entry_simps [simp]:
  "sched (set_entry m x s) = sched s" "procs (set_entry m x s) = procs s" "thrs (set_entry m x s) = thrs s"
  "cpu_rsp (set_entry m x s) = cpu_rsp s" "sems (set_entry m x s) = sems s"
  "entry (set_entry m x s) n = (if n = m then x else entry s n)"
  "set_entry m x (set_entry m y s) = set_entry m x s"
  "adminMutex (mut (set_entry m x s)) = adminMutex (mut s)"
  by (simp_all add: set_entry_def entry_def)

lemma entry_frames [simp]:
  "entry (set_lock v s) m = entry s m" "entry (set_state pid t st s) m = entry s m"
  "entry (s\<lparr>cpu_rsp := r\<rparr>) m = entry s m"
  by (simp_all add: entry_def)

lemma threads_ok_set_entry [simp]: "threads_ok (set_entry m x s) = threads_ok s"
  by (simp add: set_entry_def)

lemma set_entry_set_lock: "set_entry m x (set_lock v s) = set_lock v (set_entry m x s)"
  by (simp add: set_entry_def)

lemma set_state_set_entry: "set_state pid t st (set_entry m x s) = set_entry m x (set_state pid t st s)"
  by (simp add: set_entry_def set_state_mut)

definition valid_mutex :: "kstate \<Rightarrow> int \<Rightarrow> bool" where
  "valid_mutex s m \<longleftrightarrow> isValidMutex (mut s) m"

lemma valid_mutexD: "valid_mutex s m \<Longrightarrow> in_range m MAX_MUTEXES \<and> tid_pid (m_creator (entry s m)) \<noteq> NOT_USED"
  by (auto simp: valid_mutex_def isValidMutex_def in_range_def entry_def split: if_splits)

lemma with_mutex_app: "in_range m MAX_MUTEXES \<Longrightarrow> with_mutex m f s = f (entry s m) s"
  by (simp add: with_mutex_def entry_def)

lemma upd_mutex_app: "in_range m MAX_MUTEXES \<Longrightarrow> upd_mutex m g s = Done () (set_entry m (g (entry s m)) s)"
  by (simp add: upd_mutex_def with_mutex_app upd_mut_def set_entry_def entry_def)

section \<open>Taking a mutex\<close>

text \<open>Taking mutex \<open>m\<close> also makes process 0 the creator of the mutex behind it in the table.\<close>

definition seized :: "int \<Rightarrow> mutex_t \<Rightarrow> kstate \<Rightarrow> kstate" where
  "seized m x s = set_entry m x (set_entry (m + 1) (set_creator_pid 0 (entry s (m + 1))) s)"

lemma set_behind_app: "set_behind m 0 (set_lock v (set_entry m x s)) = Done () (set_lock v (seized m x s))"
  by (simp add: set_behind_def upd_mut_def seized_def set_entry_def entry_def fun_upd_twist set_lock_def)

lemma seized_simps [simp]:
  "sched (seized m x s) = sched s" "procs (seized m x s) = procs s" "thrs (seized m x s) = thrs s"
  "cpu_rsp (seized m x s) = cpu_rsp s" "sems (seized m x s) = sems s" "adminMutex (mut (seized m x s)) = adminMutex (mut s)"
  "threads_ok (seized m x s) = threads_ok s"
  "entry (seized m x s) n = (if n = m then x else if n = m + 1 then set_creator_pid 0 (entry s n) else entry s n)"
  "set_entry m y (seized m x s) = seized m y s"
  "kmem (seized m x s) = kmem s" "pipes (seized m x s) = pipes s" "buddyHeap (seized m x s) = buddyHeap s"
  "buddyMutex (seized m x s) = buddyMutex s" "msgs (seized m x s) = msgs s" "chans (seized m x s) = chans s" "chs (seized m x s) = chs s"
  by (simp_all add: seized_def) (simp_all add: set_entry_def)

lemma seized_set_lock: "seized m x (set_lock v s) = set_lock v (seized m x s)"
  by (simp add: seized_def set_entry_set_lock)

lemma set_state_seized: "set_state pid t st (seized m x s) = seized m x (set_state pid t st s)"
  by (simp add: seized_def set_state_set_entry)

lemma valid_mutex_seized: "valid_mutex s n \<Longrightarrow> m_creator x = m_creator (entry s m) \<Longrightarrow> valid_mutex (seized m x s) n"
  by (auto simp: valid_mutex_def isValidMutex_def seized_def set_entry_def entry_def NOT_USED_def split: if_splits)

text \<open>The entry after \<open>mutexDown\<close> by an uncontended caller, and after one that has to wait.\<close>

definition down_free :: "threadId_t \<Rightarrow> mutex_t \<Rightarrow> mutex_t" where
  "down_free who m = m\<lparr>m_value := LOCKED, m_lockProcess := who\<rparr>"

definition queued :: "threadId_t \<Rightarrow> mutex_t \<Rightarrow> mutex_t" where
  "queued who m = m\<lparr>m_value := LOCKED,
     m_blocked := (m_blocked m)(nextListIndexAvailable (m_blocked m) MAX_BLOCKED := who),
     m_blockedQuantity := m_blockedQuantity m + 1\<rparr>"

abbreviation (input) tid :: "int \<Rightarrow> int \<Rightarrow> threadId_t" where
  "tid p t \<equiv> \<lparr>tid_pid = p, tid_thread = t\<rparr>"

lemma mutexDown_free_eq:
  assumes "valid_mutex s m" "m_value (entry s m) \<noteq> LOCKED" "lockQuantumExceded (sched s) = 0"
  shows "mutexDown kt m pid t s = Done () (set_lock 0 (seized m (down_free (tid pid t) (entry s m)) s))"
proof -
  have v: "isValidMutex (mut s) m" and r: "in_range m MAX_MUTEXES"
    using assms(1) valid_mutexD by (auto simp: valid_mutex_def)
  have e: "m_value (mutexes (mut s) m) \<noteq> LOCKED" using assms(2) by (simp add: entry_def)
  show ?thesis
    using v r e assms(3)
    by (simp add: mutexDown_def testAndSetLock_def upd_mutex_app unlock_app set_entry_set_lock seized_set_lock set_behind_app down_free_def LOCKED_def)
qed

text \<open>\<open>yield\<close> saves the stack pointer and switches.\<close>

definition save_stack :: "kstate \<Rightarrow> kstate" where
  "save_stack s = s\<lparr>thrs := (thrs s)(cur_thread_addr s \<mapsto> (cur_thread s)\<lparr>th_stack := cpu_rsp s\<rparr>),
     cpu_rsp := schedulerAuxiliaryStack (sched s) + PAGE_SIZE - 1\<rparr>"

definition yielded :: "kstate \<Rightarrow> kstate" where
  "yielded s = (let s1 = switched (save_stack s) in
     set_cur_state RUNNING s1\<lparr>cpu_rsp := th_stack (cur_thread s1)\<rparr>)"

lemma sched_ok_save_stack: "sched_ok s \<Longrightarrow> sched_ok (save_stack s)"
proof -
  assume ok: "sched_ok s"
  then have "thrs s (cur_thread_addr s) \<noteq> None" using sched_okD cur_threadI by simp
  then have p: "proc_ok (s\<lparr>thrs := (thrs s)(cur_thread_addr s \<mapsto> th)\<rparr>) p = proc_ok s p" for th p
    by (simp add: proc_ok_thr_upd)
  have "sched_ok (s\<lparr>thrs := (thrs s)(cur_thread_addr s \<mapsto> (cur_thread s)\<lparr>th_stack := cpu_rsp s\<rparr>)\<rparr>)"
    using ok by (simp add: sched_ok_def p)
  then show ?thesis
    by (subst sched_ok_cong[of _ "s\<lparr>thrs := (thrs s)(cur_thread_addr s \<mapsto> (cur_thread s)\<lparr>th_stack := cpu_rsp s\<rparr>)\<rparr>"])
       (simp_all add: save_stack_def)
qed

lemma save_stack_sched [simp]: "sched (save_stack s) = sched s" "mut (save_stack s) = mut s" "sems (save_stack s) = sems s"
  by (simp_all add: save_stack_def)

lemma switched_frames [simp]:
  "changeLock (sched (switched s)) = changeLock (sched s)" "mut (switched s) = mut s" "sems (switched s) = sems s"
  "lockQuantumExceded (sched (switched s)) = lockQuantumExceded (sched s)"
  by (simp_all add: switched_def switch_to_def elect_def demote_def set_cur_state_def split: option.split)

lemma yield_eq:
  assumes "sched_ok s" "changeLock (sched s) \<noteq> 1"
  shows "yield s = Yield (yielded s) (Done ())"
proof -
  have sw: "switchToKernelStack rsp s = Done (schedulerAuxiliaryStack (sched s) + PAGE_SIZE - 1)
      (s\<lparr>thrs := (thrs s)(cur_thread_addr s \<mapsto> (cur_thread s)\<lparr>th_stack := rsp\<rparr>)\<rparr>)" for rsp
    using cur_threadI(1)[OF sched_okD(3)[OF assms(1)]]
    by (simp add: switchToKernelStack_def with_current_thread_app[OF assms(1)] upd_thr_app)
  have np: "nextProcess (save_stack s) = Done (th_stack (cur_thread (switched (save_stack s))))
      (set_cur_state RUNNING (switched (save_stack s)))"
    using assms by (intro nextProcess_eq sched_ok_save_stack) simp_all
  have ss: "(s\<lparr>thrs := (thrs s)(cur_thread_addr s \<mapsto> (cur_thread s)\<lparr>th_stack := cpu_rsp s\<rparr>)\<rparr>)
      \<lparr>cpu_rsp := schedulerAuxiliaryStack (sched s) + PAGE_SIZE - 1\<rparr> = save_stack s"
    by (simp add: save_stack_def)
  have "changeLock (sched (yielded s)) = changeLock (sched s)"
    by (simp add: yielded_def Let_def)
  then show ?thesis
    unfolding yield_def kbind_app kwith_app sw obind.simps kmod_app ss np
    using assms(2) by (simp add: yielded_def Let_def)
qed

lemma yielded_frames [simp]:
  "mut (yielded s) = mut s" "sems (yielded s) = sems s" "entry (yielded s) m = entry s m"
  by (simp_all add: yielded_def Let_def set_cur_state_def entry_def)

lemma mutexDown_held_eq:
  assumes "valid_mutex s m" "m_value (entry s m) = LOCKED" "lockQuantumExceded (sched s) = 0"
    "nextListIndexAvailable (m_blocked (entry s m)) MAX_BLOCKED \<noteq> FULL_LIST" "threads_ok s"
  shows "mutexDown kt m pid t s =
    Yield (yielded (set_lock 0 (set_state pid t BLOCKED (seized m (queued (tid pid t) (entry s m)) s)))) unlock"
proof -
  have v: "isValidMutex (mut s) m" and r: "in_range m MAX_MUTEXES"
    using assms(1) valid_mutexD by (auto simp: valid_mutex_def)
  have e: "m_value (mutexes (mut s) m) = LOCKED" using assms(2) by (simp add: entry_def)
  let ?e = "(entry s m)\<lparr>m_value := 0\<rparr>"
  let ?s1 = "set_lock 1 (seized m ?e s)"
  have add: "addToBlocked m pid t ?s1 =
      Done (nextListIndexAvailable (m_blocked (entry s m)) MAX_BLOCKED)
        (set_lock 1 (seized m (queued (tid pid t) (entry s m)) s))"
    using r assms(4)
    by (simp add: addToBlocked_def with_mutex_app upd_mutex_app set_entry_set_lock seized_set_lock Let_def queued_def LOCKED_def)
  let ?s2 = "seized m (queued (tid pid t) (entry s m)) s"
  have ok: "sched_ok (set_lock 0 (set_state pid t BLOCKED ?s2))"
    by (rule threads_okD) (simp add: threads_ok_set_state assms(5))
  have un: "unlock (set_lock 1 (set_state pid t BLOCKED ?s2)) = Done () (set_lock 0 (set_state pid t BLOCKED ?s2))"
    using assms(3) by (simp add: unlock_app)
  have "mutexDown kt m pid t s = obind (yield (set_lock 0 (set_state pid t BLOCKED ?s2))) (\<lambda>_. unlock)"
    using v r e add assms(4,5) un
    by (simp add: mutexDown_def testAndSetLock_def upd_mutex_app set_behind_app set_entry_set_lock seized_set_lock changeThreadState_set_state
        set_state_set_lock obind_assoc)
  also have "\<dots> = Yield (yielded (set_lock 0 (set_state pid t BLOCKED ?s2))) unlock"
    using ok by (simp add: yield_eq)
  finally show ?thesis .
qed

section \<open>Giving a mutex back\<close>

definition first_waiter :: "mutex_t \<Rightarrow> int option" where
  "first_waiter m = scan (\<lambda>i. tid_pid (m_blocked m i) \<noteq> NOT_USED) 0 (nat MAX_BLOCKED)"

definition handover :: "int \<Rightarrow> mutex_t \<Rightarrow> mutex_t" where
  "handover i m = m\<lparr>m_lockProcess := m_blocked m i,
     m_blocked := (m_blocked m)(i := tid NOT_USED NOT_USED), m_blockedQuantity := m_blockedQuantity m - 1\<rparr>"

lemma unlockProcess_loop_eq:
  assumes "in_range m MAX_MUTEXES" "threads_ok s"
  shows "unlockProcess_loop n m i s =
    (case scan (\<lambda>i. tid_pid (m_blocked (entry s m) i) \<noteq> NOT_USED) i n of
       None \<Rightarrow> Done False s
     | Some j \<Rightarrow> let b = m_blocked (entry s m) j in
         Done True (set_entry m (handover j (entry s m)) (set_state (tid_pid b) (tid_thread b) READY s)))"
proof (induction n arbitrary: i)
  case 0
  then show ?case by simp
next
  case (Suc n)
  then show ?case
    using assms
    by (simp add: with_mutex_app upd_mutex_app changeThreadState_set_state set_state_set_entry handover_def Let_def)
qed

lemma unlockProcess_eq:
  assumes "in_range m MAX_MUTEXES" "threads_ok s"
  shows "unlockProcess m s =
    (case (if m_blockedQuantity (entry s m) = 0 then None else first_waiter (entry s m)) of
       None \<Rightarrow> Done False s
     | Some j \<Rightarrow> let b = m_blocked (entry s m) j in
         Done True (set_entry m (handover j (entry s m)) (set_state (tid_pid b) (tid_thread b) READY s)))"
  using unlockProcess_loop_eq[OF assms, of "nat MAX_BLOCKED" 0] assms(1)
  by (simp add: unlockProcess_def with_mutex_app first_waiter_def)

lemma mutexUp_owner_eq:
  assumes "valid_mutex s m" "m_lockProcess (entry s m) = tid pid t" "lockQuantumExceded (sched s) = 0" "threads_ok s"
  shows "mutexUp m pid t s = Done () (set_lock 0
    (case (if m_blockedQuantity (entry s m) = 0 then None else first_waiter (entry s m)) of
       None \<Rightarrow> set_entry m ((entry s m)\<lparr>m_value := UNLOCKED\<rparr>) s
     | Some j \<Rightarrow> let b = m_blocked (entry s m) j in
         set_entry m (handover j (entry s m)) (set_state (tid_pid b) (tid_thread b) READY s)))"
proof -
  have v: "isValidMutex (mut s) m" and r: "in_range m MAX_MUTEXES"
    using assms(1) valid_mutexD by (auto simp: valid_mutex_def)
  have e: "m_lockProcess (mutexes (mut s) m) = tid pid t" using assms(2) by (simp add: entry_def)
  show ?thesis
    using v r e assms(3,4)
    by (auto simp: mutexUp_def Let_def unlockProcess_eq kwhen_def upd_mutex_app unlock_app
        set_entry_set_lock set_state_set_lock split: option.split)
qed

lemma mutexUp_other_eq:
  assumes "m_lockProcess (entry s m) \<noteq> tid pid t" "lockQuantumExceded (sched s) = 0"
  shows "mutexUp m pid t s = Done () (set_lock 0 s)"
proof -
  have "\<not> (tid_pid (m_lockProcess (mutexes (mut s) m)) = pid \<and> tid_thread (m_lockProcess (mutexes (mut s) m)) = t)"
    using assms(1) by (cases "m_lockProcess (entry s m)") (auto simp: entry_def)
  then show ?thesis using assms(2) by (auto simp: mutexUp_def Let_def unlock_app)
qed

section \<open>Invariant and abstract lock\<close>

definition waiting :: "mutex_t \<Rightarrow> int set" where
  "waiting m = {i. 0 \<le> i \<and> i < MAX_BLOCKED \<and> tid_pid (m_blocked m i) \<noteq> NOT_USED}"

text \<open>A free mutex has no waiters, the counter counts them, and nobody waits as the unused process.\<close>

definition mutex_wf :: "mutex_t \<Rightarrow> bool" where
  "mutex_wf m \<longleftrightarrow> (m_value m = LOCKED \<or> m_value m = UNLOCKED) \<and>
     m_blockedQuantity m = int (card (waiting m)) \<and> (m_value m = UNLOCKED \<longrightarrow> waiting m = {})"

text \<open>The specification: a lock has an owner or none, and waiters on numbered places.\<close>

record lock_spec =
  holder :: "threadId_t option"
  waiters :: "int \<Rightarrow> threadId_t option"

definition abs_mutex :: "mutex_t \<Rightarrow> lock_spec" where
  "abs_mutex m = \<lparr>holder = (if m_value m = LOCKED then Some (m_lockProcess m) else None),
     waiters = (\<lambda>i. if i \<in> waiting m then Some (m_blocked m i) else None)\<rparr>"

text \<open>Acquiring a free lock makes the caller its owner; a held one takes the caller's place \<open>i\<close>.  Releasing
  hands the lock to the waiter on the first place taken, or frees it.\<close>

definition spec_acquire :: "threadId_t \<Rightarrow> int \<Rightarrow> lock_spec \<Rightarrow> lock_spec" where
  "spec_acquire who i l = (case holder l of None \<Rightarrow> l\<lparr>holder := Some who\<rparr>
     | Some _ \<Rightarrow> l\<lparr>waiters := (waiters l)(i := Some who)\<rparr>)"

definition spec_release :: "lock_spec \<Rightarrow> lock_spec" where
  "spec_release l = (case scan (\<lambda>i. waiters l i \<noteq> None) 0 (nat MAX_BLOCKED) of
     None \<Rightarrow> l\<lparr>holder := None\<rparr>
   | Some i \<Rightarrow> l\<lparr>holder := waiters l i, waiters := (waiters l)(i := None)\<rparr>)"

lemma finite_waiting [simp]: "finite (waiting m)"
  by (rule finite_subset[of _ "{0..<MAX_BLOCKED}"]) (auto simp: waiting_def)

lemma MAX_BLOCKED_nat [simp]: "nat MAX_BLOCKED = 30" "int (nat MAX_BLOCKED) = MAX_BLOCKED"
  by (simp_all add: MAX_BLOCKED_def)

lemma LOCKED_UNLOCKED [simp]: "LOCKED \<noteq> UNLOCKED" "UNLOCKED \<noteq> LOCKED"
  by (simp_all add: LOCKED_def UNLOCKED_def)

lemma first_waiter_None: "first_waiter m = None \<longleftrightarrow> waiting m = {}"
  using scan_None[of "\<lambda>i. tid_pid (m_blocked m i) \<noteq> NOT_USED" 0 30]
  by (auto simp: first_waiter_def waiting_def MAX_BLOCKED_def)

lemma first_waiter_Some: "first_waiter m = Some i \<Longrightarrow> i \<in> waiting m"
  using scan_Some[of "\<lambda>i. tid_pid (m_blocked m i) \<noteq> NOT_USED" 0 30]
  by (auto simp: first_waiter_def waiting_def MAX_BLOCKED_def)

lemma waiting_handover: "waiting (handover i m) = waiting m - {i}"
  by (auto simp: waiting_def handover_def)

lemma wf_handover:
  assumes "mutex_wf m" "i \<in> waiting m"
  shows "mutex_wf (handover i m)"
proof -
  have "0 < card (waiting m)" using assms(2) card_gt_0_iff finite_waiting by blast
  then have "int (card (waiting m)) - 1 = int (card (waiting m - {i}))"
    using assms(2) by (simp add: card_Diff_singleton)
  moreover have "m_value m = LOCKED" using assms by (auto simp: mutex_wf_def)
  ultimately show ?thesis
    using assms(1) unfolding mutex_wf_def waiting_handover by (simp add: handover_def)
qed

lemma free_cellD:
  assumes "nextListIndexAvailable (m_blocked m) MAX_BLOCKED \<noteq> FULL_LIST"
  shows "nextListIndexAvailable (m_blocked m) MAX_BLOCKED \<notin> waiting m"
    "0 \<le> nextListIndexAvailable (m_blocked m) MAX_BLOCKED" "nextListIndexAvailable (m_blocked m) MAX_BLOCKED < MAX_BLOCKED"
  using free_cell.found[OF assms] by (auto simp: waiting_def MAX_BLOCKED_def)

lemma waiting_queued:
  assumes "nextListIndexAvailable (m_blocked m) MAX_BLOCKED \<noteq> FULL_LIST" "tid_pid who \<noteq> NOT_USED"
  shows "waiting (queued who m) = insert (nextListIndexAvailable (m_blocked m) MAX_BLOCKED) (waiting m)"
  using free_cellD[OF assms(1)] assms(2) by (auto simp: waiting_def queued_def)

lemma wf_queued:
  assumes "mutex_wf m" "nextListIndexAvailable (m_blocked m) MAX_BLOCKED \<noteq> FULL_LIST" "tid_pid who \<noteq> NOT_USED"
  shows "mutex_wf (queued who m)"
  using assms(1) free_cellD[OF assms(2)] waiting_queued[OF assms(2,3)]
  by (auto simp: mutex_wf_def) (simp_all add: queued_def)

lemma wf_down_free: "mutex_wf m \<Longrightarrow> mutex_wf (down_free who m)"
  by (simp add: mutex_wf_def down_free_def waiting_def)

lemma wf_free: "mutex_wf m \<Longrightarrow> m_blockedQuantity m = 0 \<Longrightarrow> mutex_wf (m\<lparr>m_value := UNLOCKED\<rparr>)"
proof -
  have "waiting (m\<lparr>m_value := UNLOCKED\<rparr>) = waiting m" by (simp add: waiting_def)
  then show "mutex_wf m \<Longrightarrow> m_blockedQuantity m = 0 \<Longrightarrow> ?thesis" by (simp add: mutex_wf_def)
qed

section \<open>Clearing the table\<close>

definition cleared :: "mutex_t \<Rightarrow> bool" where
  "cleared m \<longleftrightarrow> tid_pid (m_creator m) = NOT_USED \<and> tid_pid (m_lockProcess m) = NOT_USED \<and>
     m_value m = UNLOCKED \<and> m_blockedQuantity m = 0 \<and> waiting m = {}"

lemma upd_mut_frames [simp]:
  "entry (s\<lparr>mut := (mut s)\<lparr>firstAvailableMutex := x\<rparr>\<rparr>) n = entry s n"
  by (simp add: entry_def)

lemma clear_cells:
  assumes "in_range i MAX_MUTEXES"
  shows "\<exists>s'. kfor 0 (nat MAX_BLOCKED) (\<lambda>j. upd_mutex i (\<lambda>m.
       m\<lparr>m_blocked := (m_blocked m)(j := (m_blocked m j)\<lparr>tid_pid := NOT_USED\<rparr>)\<rparr>)) s = Done () s' \<and>
    (\<exists>b. s' = set_entry i ((entry s i)\<lparr>m_blocked := b\<rparr>) s \<and> (\<forall>j. 0 \<le> j \<and> j < MAX_BLOCKED \<longrightarrow> tid_pid (b j) = NOT_USED))"
proof -
  let ?I = "\<lambda>k s'. \<exists>b. s' = set_entry i ((entry s i)\<lparr>m_blocked := b\<rparr>) s \<and> (\<forall>j. 0 \<le> j \<and> j < k \<longrightarrow> tid_pid (b j) = NOT_USED)"
  have base: "?I 0 s"
    by (intro exI[of _ "m_blocked (entry s i)"]) (simp add: set_entry_def entry_def)
  have "\<exists>s'. kfor 0 (nat MAX_BLOCKED) (\<lambda>j. upd_mutex i (\<lambda>m.
       m\<lparr>m_blocked := (m_blocked m)(j := (m_blocked m j)\<lparr>tid_pid := NOT_USED\<rparr>)\<rparr>)) s = Done () s' \<and> ?I (0 + int (nat MAX_BLOCKED)) s'"
    by (rule kfor_inv[of ?I, OF base]) (use assms in \<open>auto simp: upd_mutex_app\<close>)
  then show ?thesis by (simp add: MAX_BLOCKED_def)
qed

lemma clearMutex_spec:
  assumes "in_range i MAX_MUTEXES"
  shows "\<exists>s'. clearMutex i s = Done () s' \<and> cleared (entry s' i) \<and> (\<forall>n. n \<noteq> i \<longrightarrow> entry s' n = entry s n) \<and>
    firstAvailableMutex (mut s') =
      (if i < firstAvailableMutex (mut s) then i else getNextMutexAvailable (mut s')) \<and>
    adminMutex (mut s') = adminMutex (mut s) \<and> usedMutexes (mut s') = usedMutexes (mut s) \<and>
    m_name (entry s' i) = buf_write (m_name (entry s i)) [NUL]"
proof -
  let ?e = "entry s i"
  let ?e1 = "?e\<lparr>m_creator := (m_creator ?e)\<lparr>tid_pid := NOT_USED\<rparr>, m_lockProcess := (m_lockProcess ?e)\<lparr>tid_pid := NOT_USED\<rparr>,
     m_name := buf_write (m_name ?e) [NUL], m_value := UNLOCKED, m_blockedQuantity := 0\<rparr>"
  let ?s1 = "set_entry i ?e1 s"
  obtain b where b: "kfor 0 (nat MAX_BLOCKED) (\<lambda>j. upd_mutex i (\<lambda>m.
       m\<lparr>m_blocked := (m_blocked m)(j := (m_blocked m j)\<lparr>tid_pid := NOT_USED\<rparr>)\<rparr>)) ?s1 =
      Done () (set_entry i (?e1\<lparr>m_blocked := b\<rparr>) ?s1)"
    "\<forall>j. 0 \<le> j \<and> j < MAX_BLOCKED \<longrightarrow> tid_pid (b j) = NOT_USED"
    using clear_cells[OF assms, of ?s1] by auto
  let ?s2 = "set_entry i (?e1\<lparr>m_blocked := b\<rparr>) s"
  have fa: "firstAvailableMutex (mut ?s2) = firstAvailableMutex (mut s)" "usedMutexes (mut ?s2) = usedMutexes (mut s)"
    by (simp_all add: set_entry_def)
  have gn: "getNextMutexAvailable (c\<lparr>firstAvailableMutex := x\<rparr>) = getNextMutexAvailable c" for c x
    by (simp add: getNextMutexAvailable_def)
  have "i < MAX_MUTEXES" using assms by (simp add: in_range_def)
  then have "clearMutex i s = Done () (?s2\<lparr>mut := (mut ?s2)\<lparr>firstAvailableMutex :=
       (if i < firstAvailableMutex (mut ?s2) then i else getNextMutexAvailable (mut ?s2))\<rparr>\<rparr>)"
    using assms b(1)[simplified] by (simp add: clearMutex_def kwhen_def upd_mutex_app upd_mut_def)
  moreover have "cleared (?e1\<lparr>m_blocked := b\<rparr>)" using b(2) by (auto simp: cleared_def waiting_def)
  ultimately show ?thesis by (simp add: fa gn)
qed

lemma cleared_wf: "cleared m \<Longrightarrow> mutex_wf m"
  by (simp add: cleared_def mutex_wf_def)

end
