(* ===== verification/MutexProps.thy ===== *)
theory MutexProps
  imports MutexCorrect
begin

text \<open>The properties of the mutexes, with concrete instances over the two-process system of \<open>SchedProps\<close>.\<close>

section \<open>Refinement of the abstract lock\<close>

lemma abs_down_free: "mutex_wf m \<Longrightarrow> m_value m \<noteq> LOCKED \<Longrightarrow>
    abs_mutex (down_free who m) = spec_acquire who i (abs_mutex m)"
  by (auto simp: abs_mutex_def spec_acquire_def down_free_def waiting_def)

lemma abs_queued:
  assumes "m_value m = LOCKED" "nextListIndexAvailable (m_blocked m) MAX_BLOCKED \<noteq> FULL_LIST" "tid_pid who \<noteq> NOT_USED"
  shows "abs_mutex (queued who m) = spec_acquire who (nextListIndexAvailable (m_blocked m) MAX_BLOCKED) (abs_mutex m)"
  using assms(1) waiting_queued[OF assms(2,3)]
  by (auto simp: abs_mutex_def spec_acquire_def fun_eq_iff) (auto simp: queued_def)

lemma scan_waiters: "scan (\<lambda>i. waiters (abs_mutex m) i \<noteq> None) 0 (nat MAX_BLOCKED) = first_waiter m"
  unfolding first_waiter_def by (rule scan_cong) (auto simp: abs_mutex_def waiting_def MAX_BLOCKED_def)

lemma spec_release_abs: "spec_release (abs_mutex m) = (case first_waiter m of
     None \<Rightarrow> (abs_mutex m)\<lparr>holder := None\<rparr>
   | Some i \<Rightarrow> (abs_mutex m)\<lparr>holder := waiters (abs_mutex m) i, waiters := (waiters (abs_mutex m))(i := None)\<rparr>)"
  unfolding spec_release_def scan_waiters ..

lemma abs_handover:
  assumes "first_waiter m = Some i" "m_value m = LOCKED"
  shows "abs_mutex (handover i m) = spec_release (abs_mutex m)"
proof -
  have "m_value (handover i m) = LOCKED" "m_lockProcess (handover i m) = m_blocked m i"
    "\<And>j. j \<noteq> i \<Longrightarrow> m_blocked (handover i m) j = m_blocked m j"
    using assms(2) by (simp_all add: handover_def)
  then show ?thesis
    using assms first_waiter_Some[OF assms(1)]
    by (simp add: spec_release_abs) (auto simp: abs_mutex_def waiting_handover fun_eq_iff)
qed

lemma abs_free: "first_waiter m = None \<Longrightarrow> m_value m = LOCKED \<Longrightarrow>
    abs_mutex (m\<lparr>m_value := UNLOCKED\<rparr>) = spec_release (abs_mutex m)"
  by (simp add: spec_release_abs) (simp add: abs_mutex_def waiting_def fun_eq_iff)

lemma quantity_first: "mutex_wf m \<Longrightarrow> m_blockedQuantity m = 0 \<longleftrightarrow> first_waiter m = None"
  by (simp add: mutex_wf_def first_waiter_None)

lemma set_state_ready:
  assumes "threads_ok s" "thread_at s pid t = Some a"
  shows "\<exists>th. thrs (set_state pid t st s) a = Some th \<and> th_state th = st"
  using assms by (simp add: set_state_def)

section \<open>A concrete mutex\<close>

definition ex_mutex :: "int \<Rightarrow> (int \<Rightarrow> threadId_t) \<Rightarrow> int \<Rightarrow> mutex_t" where
  "ex_mutex val blocked n = \<lparr>m_creator = tid 1 0, m_lockProcess = tid 1 0, m_name = [], m_blocked = blocked,
     m_blockedQuantity = n, m_value = val\<rparr>"

definition ex_mutex_state :: "mutex_t \<Rightarrow> kstate \<Rightarrow> kstate" where
  "ex_mutex_state m s = ex_state s\<lparr>mut :=
     \<lparr>mutexes = (\<lambda>_. m), firstAvailableMutex = 1, usedMutexes = 1, adminMutex = 0\<rparr>\<rparr>"

abbreviation (input) nobody :: "int \<Rightarrow> threadId_t" where
  "nobody \<equiv> \<lambda>_. tid NOT_USED NOT_USED"

lemma ex_threads_ok: "threads_ok (ex_state s)"
proof -
  have "proc_at (ex_state s) i = ex_proc 1 11 \<or> proc_at (ex_state s) i = ex_proc 2 21"
    if "lookup (ex_state s) pid = Some i" for i pid
    using lookupD[OF ex_sched_ok that]
    by (auto simp: ex_proc_slots proc_at_def) (simp_all add: ex_state_def ex_sched_def)
  then show ?thesis
    using ex_sched_ok[of s]
    by (auto simp: threads_ok_def thread_at_def split: option.splits if_splits)
       (fastforce simp: ex_proc_def ex_state_def)
qed

lemma ex_mutex_state_simps [simp]:
  "sched (ex_mutex_state m s) = ex_sched" "entry (ex_mutex_state m s) i = m" "threads_ok (ex_mutex_state m s)"
  "procs (ex_mutex_state m s) = procs (ex_state s)" "adminMutex (mut (ex_mutex_state m s)) = 0"
  using ex_threads_ok[of s] by (simp_all add: ex_mutex_state_def entry_def)

lemma ex_used [simp]: "(1::int) \<noteq> NOT_USED" "(2::int) \<noteq> NOT_USED" "(0::int) \<noteq> FULL_LIST"
  by (simp_all add: NOT_USED_def FULL_LIST_def)

lemma ex_lockQ [simp]: "lockQuantumExceded ex_sched = 0"
  by (simp add: ex_sched_def)

lemma ex_valid [simp]: "valid_mutex (ex_mutex_state (ex_mutex v b n) s) 3"
  by (simp add: valid_mutex_def isValidMutex_def ex_mutex_state_def ex_mutex_def MAX_MUTEXES_def NOT_USED_def)

lemma ex_mutex_wf [simp]: "mutex_wf (ex_mutex UNLOCKED nobody 0)" "mutex_wf (ex_mutex LOCKED nobody 0)"
  by (simp_all add: mutex_wf_def waiting_def ex_mutex_def)

lemma ex_free_cell: "nextListIndexAvailable nobody MAX_BLOCKED = 0"
  by (simp add: nextListIndexAvailable_def scan_or_def)

lemma ex_mutex_wf_waiter:
  "mutex_wf (ex_mutex LOCKED (nobody(4 := tid 2 0)) 1)" "first_waiter (ex_mutex LOCKED (nobody(4 := tid 2 0)) 1) = Some 4"
proof -
  have "waiting (ex_mutex LOCKED (nobody(4 := tid 2 0)) 1) = {4}"
    by (auto simp: waiting_def ex_mutex_def NOT_USED_def MAX_BLOCKED_def split: if_splits)
  then show "mutex_wf (ex_mutex LOCKED (nobody(4 := tid 2 0)) 1)" by (simp add: mutex_wf_def) (simp add: ex_mutex_def)
  show "first_waiter (ex_mutex LOCKED (nobody(4 := tid 2 0)) 1) = Some 4"
    by (simp add: first_waiter_def ex_mutex_def NOT_USED_def numeral_eq_Suc)
qed

text \<open>Who created a mutex is not part of the lock.\<close>

lemma abs_set_creator: "abs_mutex (set_creator_pid p m) = abs_mutex m"
  by (simp add: abs_mutex_def waiting_def cong: if_cong)

section \<open>Properties\<close>

text \<open>C13: \<open>mutexDown\<close> implements the acquisition of the abstract lock and preserves the invariant of the entry:
  it returns at once exactly when the lock had no owner; otherwise the caller is put on the first free place
  and gives up the processor.  The mutex behind it in the table loses its creator to process 0; apart from that no other
  mutex changes.\<close>

theorem mutexDown_refines:
  assumes "valid_mutex s m" "threads_ok s" "lockQuantumExceded (sched s) = 0" "mutex_wf (entry s m)"
    "pid \<noteq> NOT_USED" "nextListIndexAvailable (m_blocked (entry s m)) MAX_BLOCKED \<noteq> FULL_LIST"
  shows "\<exists>s'. mutexDown kt m pid t s =
      (if holder (abs_mutex (entry s m)) = None then Done () s' else Yield s' unlock) \<and>
    abs_mutex (entry s' m) =
      spec_acquire (tid pid t) (nextListIndexAvailable (m_blocked (entry s m)) MAX_BLOCKED) (abs_mutex (entry s m)) \<and>
    mutex_wf (entry s' m) \<and> m_creator (entry s' m) = m_creator (entry s m) \<and>
    entry s' (m + 1) = set_creator_pid 0 (entry s (m + 1)) \<and>
    (\<forall>n. n \<noteq> m \<longrightarrow> abs_mutex (entry s' n) = abs_mutex (entry s n) \<and> (n \<noteq> m + 1 \<longrightarrow> entry s' n = entry s n))"
proof (cases "m_value (entry s m) = LOCKED")
  case True
  then have "holder (abs_mutex (entry s m)) \<noteq> None" by (simp add: abs_mutex_def)
  then show ?thesis
    using mutexDown_held_eq[OF assms(1) True assms(3,6,2), of kt pid t] abs_queued[OF True assms(6)] assms(5)
      wf_queued[OF assms(4,6)] by (simp add: abs_set_creator) (simp add: queued_def)
next
  case False
  then have "holder (abs_mutex (entry s m)) = None" by (simp add: abs_mutex_def)
  then show ?thesis
    using mutexDown_free_eq[OF assms(1) False assms(3), of kt pid t] abs_down_free[OF assms(4) False] wf_down_free[OF assms(4)]
    by (simp add: abs_set_creator) (simp add: down_free_def)
qed

theorem mutexDown_refines_witness:
  "\<forall>s kt. \<exists>s'. mutexDown kt 3 2 0 (ex_mutex_state (ex_mutex LOCKED nobody 0) s) = Yield s' unlock \<and>
    waiters (abs_mutex (entry s' 3)) 0 = Some (tid 2 0)"
proof (intro allI)
  fix s kt
  let ?m = "ex_mutex LOCKED nobody 0"
  have free: "nextListIndexAvailable (m_blocked ?m) MAX_BLOCKED = 0" by (simp add: ex_mutex_def ex_free_cell)
  have held: "holder (abs_mutex ?m) = Some (tid 1 0)" by (simp add: abs_mutex_def) (simp add: ex_mutex_def)
  obtain s' where s': "mutexDown kt 3 2 0 (ex_mutex_state ?m s) = Yield s' unlock"
    "abs_mutex (entry s' 3) = spec_acquire (tid 2 0) 0 (abs_mutex ?m)"
    using mutexDown_refines[of "ex_mutex_state ?m s" 3 2 kt 0] free held
    by auto
  then show "\<exists>s'. mutexDown kt 3 2 0 (ex_mutex_state ?m s) = Yield s' unlock \<and>
      waiters (abs_mutex (entry s' 3)) 0 = Some (tid 2 0)"
    by (auto simp: spec_acquire_def held)
qed

text \<open>C14: \<open>mutexUp\<close> by the owner implements the release of the abstract lock and preserves the invariant: the
  waiter on the first place taken becomes the owner and its thread ready, the lock never being free in
  between; without waiters the lock is freed.  It always returns.\<close>

theorem mutexUp_refines:
  assumes "valid_mutex s m" "threads_ok s" "lockQuantumExceded (sched s) = 0" "mutex_wf (entry s m)"
    "holder (abs_mutex (entry s m)) = Some (tid pid t)"
  shows "\<exists>s'. mutexUp m pid t s = Done () s' \<and>
    abs_mutex (entry s' m) = spec_release (abs_mutex (entry s m)) \<and> mutex_wf (entry s' m) \<and>
    (\<forall>n. n \<noteq> m \<longrightarrow> entry s' n = entry s n) \<and>
    (\<forall>q a. holder (abs_mutex (entry s' m)) = Some q \<and> thread_at s (tid_pid q) (tid_thread q) = Some a \<longrightarrow>
      (\<exists>th. thrs s' a = Some th \<and> th_state th = READY))"
proof -
  have v: "m_value (entry s m) = LOCKED" "m_lockProcess (entry s m) = tid pid t"
    using assms(5) by (auto simp: abs_mutex_def split: if_splits)
  note up = mutexUp_owner_eq[OF assms(1) v(2) assms(3,2)]
  show ?thesis
  proof (cases "first_waiter (entry s m)")
    case None
    then have q: "m_blockedQuantity (entry s m) = 0" using quantity_first[OF assms(4)] by simp
    have "holder (abs_mutex (entry s m\<lparr>m_value := UNLOCKED\<rparr>)) = None" by (simp add: abs_mutex_def)
    then show ?thesis
      using up None q abs_free[OF None v(1)] wf_free[OF assms(4) q] by auto
  next
    case (Some j)
    let ?b = "m_blocked (entry s m) j"
    have q: "m_blockedQuantity (entry s m) \<noteq> 0" using quantity_first[OF assms(4)] Some by simp
    have h: "holder (abs_mutex (handover j (entry s m))) = Some ?b"
      using v(1) by (simp add: abs_mutex_def handover_def)
    show ?thesis
      using up Some q h abs_handover[OF Some v(1)] wf_handover[OF assms(4) first_waiter_Some[OF Some]]
        set_state_ready[OF assms(2)]
      by (auto simp: Let_def)
  qed
qed

theorem mutexUp_refines_witness:
  "\<forall>s. \<exists>s'. mutexUp 3 1 0 (ex_mutex_state (ex_mutex LOCKED (nobody(4 := tid 2 0)) 1) s) = Done () s' \<and>
    holder (abs_mutex (entry s' 3)) = Some (tid 2 0)"
proof
  fix s
  let ?m = "ex_mutex LOCKED (nobody(4 := tid 2 0)) 1"
  have "holder (abs_mutex ?m) = Some (tid 1 0)" by (simp add: abs_mutex_def) (simp add: ex_mutex_def)
  moreover have "holder (spec_release (abs_mutex ?m)) = Some (tid 2 0)"
    using first_waiter_Some[OF ex_mutex_wf_waiter(2)]
    by (simp add: spec_release_abs ex_mutex_wf_waiter) (simp add: abs_mutex_def ex_mutex_def)
  ultimately show "\<exists>s'. mutexUp 3 1 0 (ex_mutex_state ?m s) = Done () s' \<and> holder (abs_mutex (entry s' 3)) = Some (tid 2 0)"
    using mutexUp_refines[of "ex_mutex_state ?m s" 3 1 0] ex_mutex_wf_waiter(1) by auto
qed

text \<open>Only the owner can release: called for any other thread \<open>mutexUp\<close> changes no mutex and no thread.\<close>

theorem mutexUp_not_owner:
  assumes "holder (abs_mutex (entry s m)) = Some q" "q \<noteq> tid pid t" "lockQuantumExceded (sched s) = 0"
  shows "\<exists>s'. mutexUp m pid t s = Done () s' \<and> mut s' = mut s \<and> thrs s' = thrs s \<and> procs s' = procs s"
proof -
  have "m_lockProcess (entry s m) \<noteq> tid pid t"
    using assms(1,2) by (auto simp: abs_mutex_def split: if_splits)
  then show ?thesis using mutexUp_other_eq[OF _ assms(3)] by simp
qed

theorem mutexUp_not_owner_witness:
  "\<forall>s. \<exists>s'. mutexUp 3 2 0 (ex_mutex_state (ex_mutex LOCKED nobody 0) s) = Done () s' \<and>
    mut s' = mut (ex_mutex_state (ex_mutex LOCKED nobody 0) s)"
proof
  fix s
  have "holder (abs_mutex (ex_mutex LOCKED nobody 0)) = Some (tid 1 0)" by (simp add: abs_mutex_def) (simp add: ex_mutex_def)
  then show "\<exists>s'. mutexUp 3 2 0 (ex_mutex_state (ex_mutex LOCKED nobody 0) s) = Done () s' \<and>
    mut s' = mut (ex_mutex_state (ex_mutex LOCKED nobody 0) s)"
    using mutexUp_not_owner[of "ex_mutex_state (ex_mutex LOCKED nobody 0) s" 3 "tid 1 0" 2 0] by auto
qed

definition clearing :: "int \<Rightarrow> kstate \<Rightarrow> bool" where
  "clearing i s \<longleftrightarrow> (\<forall>j. 0 \<le> j \<and> j < i \<longrightarrow> cleared (entry s j)) \<and> adminMutex (mut s) = 0 \<and> usedMutexes (mut s) = 1 \<and>
    firstAvailableMutex (mut s) = (if i = 0 then 1 else 0)"

lemma clearing_step:
  assumes "0 \<le> i" "i < 0 + int (nat MAX_MUTEXES)" "clearing i t"
  shows "\<exists>t'. clearMutex i t = Done () t' \<and> clearing (i + 1) t'"
proof -
  note i = assms(1,2) and I = assms(3)[unfolded clearing_def]
  have r: "in_range i MAX_MUTEXES" using i by (simp add: in_range_def MAX_MUTEXES_def)
  obtain t' where t': "clearMutex i t = Done () t'" "cleared (entry t' i)" "\<forall>n. n \<noteq> i \<longrightarrow> entry t' n = entry t n"
    "firstAvailableMutex (mut t') = (if i < firstAvailableMutex (mut t) then i else getNextMutexAvailable (mut t'))"
    "adminMutex (mut t') = adminMutex (mut t)" "usedMutexes (mut t') = usedMutexes (mut t)"
    using clearMutex_spec[OF r, of t] by blast
  have c0: "cleared (entry t' 0)" using t'(2,3) I i by (cases "i = 0") auto
  have "getNextMutexAvailable (mut t') = 0"
    by (rule free_mutex.search_unique) (use c0 in \<open>auto simp: cleared_def entry_def MAX_MUTEXES_def\<close>)
  then have "firstAvailableMutex (mut t') = 0" using t'(4) I i by auto
  moreover have "cleared (entry t' j)" if "0 \<le> j" "j < i + 1" for j
    using that t'(2,3) I by (cases "j = i") auto
  ultimately show ?thesis using t'(1,5,6) I i by (auto simp: clearing_def)
qed

text \<open>C35: After boot every mutex is free and only the administration mutex exists.  But clearing the table left
  its slot as the first available one, so the first mutex created (the allocator's) gets the slot of the administration
  mutex: from then on both are the same lock.\<close>

theorem setupMutexSystem_shares_slot:
  assumes "firstAvailableMutex (mut s) = 1" "adminMutex (mut s) = 0" "usedMutexes (mut s) = 1"
  shows "\<exists>s'. setupMutexSystem s = Done () s' \<and> (\<forall>m. valid_mutex s' m \<longleftrightarrow> m = adminMutex (mut s')) \<and>
    (\<forall>m. in_range m MAX_MUTEXES \<longrightarrow> holder (abs_mutex (entry s' m)) = None \<and> mutex_wf (entry s' m)) \<and>
    (\<exists>s''. createMutex 0 ''_BUDDY_MUTEX_'' 0 s' = Done (adminMutex (mut s')) s'')"
proof -
  have "\<exists>s1. kfor 0 (nat MAX_MUTEXES) clearMutex s = Done () s1 \<and> clearing (0 + int (nat MAX_MUTEXES)) s1"
    by (rule kfor_inv[where I = clearing]) (use assms clearing_step in \<open>auto simp: clearing_def\<close>)
  then obtain s1 where s1: "kfor 0 (nat MAX_MUTEXES) clearMutex s = Done () s1"
    "\<And>j. 0 \<le> j \<Longrightarrow> j < MAX_MUTEXES \<Longrightarrow> cleared (entry s1 j)" "adminMutex (mut s1) = 0" "usedMutexes (mut s1) = 1"
    "firstAvailableMutex (mut s1) = 0" by (auto simp: MAX_MUTEXES_def clearing_def)
  have r0: "in_range 0 MAX_MUTEXES" by (simp add: in_range_def MAX_MUTEXES_def)
  let ?e = "(entry s1 0)\<lparr>m_creator := (m_creator (entry s1 0))\<lparr>tid_pid := 0\<rparr>\<rparr>"
  let ?s2 = "set_entry 0 ?e s1"
  have boot: "setupMutexSystem s = Done () ?s2"
    using s1(1,3) r0 by (simp add: setupMutexSystem_def upd_mutex_app)
  have valid: "valid_mutex ?s2 m \<longleftrightarrow> m = 0" for m
  proof (cases "in_range m MAX_MUTEXES")
    case True
    have "tid_pid (m_creator (mutexes (mut ?s2) m)) = (if m = 0 then 0 else NOT_USED)"
      using True s1(2)[of m] by (auto simp: cleared_def entry_def in_range_def set_entry_def)
    then show ?thesis using True by (auto simp: valid_mutex_def isValidMutex_def in_range_def NOT_USED_def)
  next
    case False
    then show ?thesis using r0 by (auto simp: valid_mutex_def isValidMutex_def in_range_def)
  qed
  have wf: "holder (abs_mutex (entry ?s2 m)) = None \<and> mutex_wf (entry ?s2 m)" if "in_range m MAX_MUTEXES" for m
  proof -
    have "m_value (entry ?s2 m) = UNLOCKED \<and> m_blockedQuantity (entry ?s2 m) = 0 \<and> waiting (entry ?s2 m) = {}"
      using s1(2)[of m] that by (auto simp: in_range_def cleared_def waiting_def)
    then show ?thesis by (auto simp: abs_mutex_def mutex_wf_def)
  qed
  have "\<exists>s''. createMutex 0 ''_BUDDY_MUTEX_'' 0 ?s2 = Done 0 s''"
  proof -
    have "usedMutexes (mut ?s2) = 1" "firstAvailableMutex (mut ?s2) = 0" using s1 by (simp_all add: set_entry_def)
    then show ?thesis using r0 by (simp add: createMutex_def MAX_MUTEXES_def MAX_NAME_def upd_mutex_app upd_mut_def)
  qed
  then show ?thesis using boot valid wf s1(3) by (intro exI[of _ ?s2]) simp
qed

theorem setupMutexSystem_shares_slot_witness:
  "\<forall>s. \<exists>s'. setupMutexSystem (ex_mutex_state (ex_mutex LOCKED nobody 0) s) = Done () s' \<and>
    (\<exists>s''. createMutex 0 ''_BUDDY_MUTEX_'' 0 s' = Done (adminMutex (mut s')) s'')"
proof
  fix s
  show "\<exists>s'. setupMutexSystem (ex_mutex_state (ex_mutex LOCKED nobody 0) s) = Done () s' \<and>
    (\<exists>s''. createMutex 0 ''_BUDDY_MUTEX_'' 0 s' = Done (adminMutex (mut s')) s'')"
    using setupMutexSystem_shares_slot[of "ex_mutex_state (ex_mutex LOCKED nobody 0) s"]
    by (fastforce simp: ex_mutex_state_def)
qed

end
