(* ===== verification/SemCorrect.thy ===== *)
theory SemCorrect
  imports Semaphore MutexProps
begin

text \<open>
  Semaphores whose mutex is free: \<open>wait\<close> and \<open>signal\<close> as equations over the table entry, the invariant
  (a negative value is the number of blocked threads) and the refinement of a counting semaphore.
\<close>

section \<open>Frames\<close>

definition sem :: "kstate \<Rightarrow> int \<Rightarrow> semaphore_t" where
  "sem s k = semaphores (sems s) k"

definition set_sem :: "int \<Rightarrow> semaphore_t \<Rightarrow> kstate \<Rightarrow> kstate" where
  "set_sem k x s = s\<lparr>sems := (sems s)\<lparr>semaphores := (semaphores (sems s))(k := x)\<rparr>\<rparr>"

lemma set_sem_simps [simp]:
  "sched (set_sem k x s) = sched s" "procs (set_sem k x s) = procs s" "thrs (set_sem k x s) = thrs s"
  "mut (set_sem k x s) = mut s" "entry (set_sem k x s) m = entry s m" "cpu_rsp (set_sem k x s) = cpu_rsp s"
  "sem (set_sem k x s) n = (if n = k then x else sem s n)"
  "set_sem k x (set_sem k y s) = set_sem k x s"
  by (simp_all add: set_sem_def sem_def entry_def)

lemma sem_frames [simp]:
  "sem (set_lock v s) k = sem s k" "sem (set_entry m x s) k = sem s k" "sem (set_state pid t st s) k = sem s k"
  "sem (yielded s) k = sem s k" "sem (seized m x s) k = sem s k"
  by (simp_all add: sem_def)

lemma threads_ok_set_sem [simp]: "threads_ok (set_sem k x s) = threads_ok s"
  by (rule threads_ok_cong) simp_all

lemma set_sem_commute:
  "set_sem k x (set_lock v s) = set_lock v (set_sem k x s)"
  "set_entry m y (set_sem k x s) = set_sem k x (set_entry m y s)"
  "seized m y (set_sem k x s) = set_sem k x (seized m y s)"
  by (simp_all add: set_sem_def set_lock_def set_entry_def seized_def entry_def)

lemma set_state_set_sem: "set_state pid t st (set_sem k x s) = set_sem k x (set_state pid t st s)"
  using thread_at_cong[of "set_sem k x s" s pid t] by (simp add: set_state_def) (simp add: set_sem_def split: option.split)

definition valid_sem :: "kstate \<Rightarrow> int \<Rightarrow> bool" where
  "valid_sem s k \<longleftrightarrow> isValidSemaphore (sems s) k"

lemma valid_semD: "valid_sem s k \<Longrightarrow> in_range k MAX_SEMAPHORES"
  by (auto simp: valid_sem_def isValidSemaphore_def in_range_def split: if_splits)

lemma with_sem_app: "in_range k MAX_SEMAPHORES \<Longrightarrow> with_sem k f s = f (sem s k) s"
  by (simp add: with_sem_def sem_def)

lemma upd_sem_app: "in_range k MAX_SEMAPHORES \<Longrightarrow> upd_sem k g s = Done () (set_sem k (g (sem s k)) s)"
  by (simp add: upd_sem_def with_sem_app upd_sems_def set_sem_def sem_def)

lemma valid_mutex_frames [simp]:
  "valid_mutex (set_lock v s) m = valid_mutex s m" "valid_mutex (set_sem k x s) m = valid_mutex s m"
  "valid_mutex (set_state pid t st s) m = valid_mutex s m"
  by (simp_all add: valid_mutex_def)

lemma valid_mutex_set_entry:
  "m_creator x = m_creator (entry s m) \<Longrightarrow> valid_mutex (set_entry m x s) n = valid_mutex s n"
  by (auto simp: valid_mutex_def isValidMutex_def set_entry_def entry_def)

lemma valid_mutex_seized_self [simp]: "m_creator x = m_creator (entry s m) \<Longrightarrow> valid_mutex (seized m x s) m = valid_mutex s m"
  by (auto simp: valid_mutex_def isValidMutex_def seized_def set_entry_def entry_def)

text \<open>\<open>getpid\<close> and \<open>getCurrentThread\<close> name the thread in use.\<close>

definition cur_pid :: "kstate \<Rightarrow> int" where
  "cur_pid s = pr_pid (proc_at s (current (sched s)))"

definition cur_tid :: "kstate \<Rightarrow> int" where
  "cur_tid s = pr_currentThread (proc_at s (current (sched s)))"

lemma getpid_app:
  assumes "sched_ok s"
  shows "getpid s = Done (cur_pid s) s" "getCurrentThread s = Done (cur_tid s) s"
proof -
  have "processQuantity (sched s) \<noteq> 0" using assms by (simp add: sched_ok_def proc_slots_def)
  then show "getpid s = Done (cur_pid s) s" "getCurrentThread s = Done (cur_tid s) s"
    using sched_okD[OF assms] proc_ok_at[of s "current (sched s)"]
    by (simp_all add: getpid_def getCurrentThread_def access_app cur_pid_def cur_tid_def)
qed

section \<open>The mutex of the semaphore\<close>

definition free_mutex_at :: "kstate \<Rightarrow> int \<Rightarrow> bool" where
  "free_mutex_at s m \<longleftrightarrow> valid_mutex s m \<and> m_value (entry s m) = UNLOCKED \<and> m_blockedQuantity (entry s m) = 0"

text \<open>Taking one mutex leaves the others free.\<close>

lemma free_seized: "free_mutex_at s n \<Longrightarrow> n \<noteq> m \<Longrightarrow> free_mutex_at (seized m x s) n"
  by (auto simp: free_mutex_at_def valid_mutex_def isValidMutex_def seized_def set_entry_def entry_def NOT_USED_def split: if_splits)

lemma free_mutex_set_lock [simp]: "free_mutex_at (set_lock v s) m = free_mutex_at s m"
  by (simp add: free_mutex_at_def)

lemma down_free_app:
  assumes "free_mutex_at s m" "lockQuantumExceded (sched s) = 0"
  shows "mutexDown kt m pid t s = Done () (set_lock 0 (seized m (down_free (tid pid t) (entry s m)) s))"
  using assms by (intro mutexDown_free_eq) (simp_all add: free_mutex_at_def)

text \<open>Taken and given back by the same thread, the mutex is free again and remembers who had it.\<close>

definition touched :: "threadId_t \<Rightarrow> mutex_t \<Rightarrow> mutex_t" where
  "touched who m = m\<lparr>m_value := UNLOCKED, m_lockProcess := who\<rparr>"

lemma touched_down [simp]: "(down_free who m)\<lparr>m_value := UNLOCKED\<rparr> = touched who m"
  by (simp add: down_free_def touched_def)

lemma down_free_simps [simp]:
  "m_creator (down_free who m) = m_creator m" "m_lockProcess (down_free who m) = who"
  "m_blockedQuantity (down_free who m) = m_blockedQuantity m"
  by (simp_all add: down_free_def)

lemma up_free_app:
  assumes "valid_mutex s m" "m_lockProcess (entry s m) = tid pid t" "m_blockedQuantity (entry s m) = 0"
    "lockQuantumExceded (sched s) = 0" "threads_ok s"
  shows "mutexUp m pid t s = Done () (set_lock 0 (set_entry m ((entry s m)\<lparr>m_value := UNLOCKED\<rparr>) s))"
  using mutexUp_owner_eq[OF assms(1,2,4,5)] assms(3) by simp

section \<open>Waiters of a semaphore\<close>

definition swaiting :: "semaphore_t \<Rightarrow> int set" where
  "swaiting x = {i. 0 \<le> i \<and> i < MAX_BLOCKED \<and> tid_pid (s_blocked x i) \<noteq> NOT_USED}"

definition first_swaiter :: "semaphore_t \<Rightarrow> int option" where
  "first_swaiter x = scan (\<lambda>i. tid_pid (s_blocked x i) \<noteq> NOT_USED) 0 (nat MAX_BLOCKED)"

definition squeued :: "threadId_t \<Rightarrow> semaphore_t \<Rightarrow> semaphore_t" where
  "squeued who x = x\<lparr>s_value := s_value x - 1,
     s_blocked := (s_blocked x)(nextListIndexAvailable (s_blocked x) MAX_BLOCKED := who),
     s_blockedQuantity := s_blockedQuantity x + 1\<rparr>"

definition swoken :: "int \<Rightarrow> semaphore_t \<Rightarrow> semaphore_t" where
  "swoken i x = x\<lparr>s_blocked := (s_blocked x)(i := tid NOT_USED NOT_USED),
     s_blockedQuantity := s_blockedQuantity x - 1\<rparr>"

lemma wait_free_eq:
  assumes "valid_sem s k" "free_mutex_at s (s_mutex (sem s k))" "threads_ok s" "lockQuantumExceded (sched s) = 0"
    "0 < s_value (sem s k)"
  shows "wait kt k pid t s = Done () (set_lock 0
     (set_sem k ((sem s k)\<lparr>s_value := s_value (sem s k) - 1\<rparr>)
       (seized (s_mutex (sem s k)) (touched (tid pid t) (entry s (s_mutex (sem s k)))) s)))"
proof -
  let ?m = "s_mutex (sem s k)"
  have v: "isValidSemaphore (sems s) k" "in_range k MAX_SEMAPHORES" using assms(1) valid_semD by (auto simp: valid_sem_def)
  have mx: "s_mutex (semaphores (sems s') k) = s_mutex (sem s' k)" for s' by (simp add: sem_def)
  have fm: "valid_mutex s ?m" "m_blockedQuantity (entry s ?m) = 0" using assms(2) by (simp_all add: free_mutex_at_def)
  let ?s1 = "set_lock 0 (seized ?m (down_free (tid pid t) (entry s ?m)) s)"
  let ?x = "(sem s k)\<lparr>s_value := s_value (sem s k) - 1\<rparr>"
  have vs: "isValidSemaphore (sems s) k = True" using v by simp
  have x: "sem ?s1 k = sem s k" by simp
  have y: "sem (set_sem k ?x ?s1) k = ?x" by simp
  have nb: "(s_value ?x < 0) = False" using assms(5) by simp
  have ok: "threads_ok (set_sem k ?x ?s1)" using assms(3) by simp
  have up: "mutexUp ?m pid t (set_sem k ?x ?s1) =
      Done () (set_lock 0 (set_sem k ?x (seized ?m (touched (tid pid t) (entry s ?m)) s)))"
    using up_free_app[OF _ _ _ _ ok, of ?m pid t] fm assms(4)
    by (simp add: valid_mutex_set_entry set_sem_commute set_entry_set_lock)
  have sx: "s_mutex ?x = ?m" by simp
  show ?thesis
    unfolding wait_def Let_def kwith_app vs if_True mx kdo.simps kbind_kskip kbind_app down_free_app[OF assms(2,4)]
      obind.simps upd_sem_app[OF v(2)] with_sem_app[OF v(2)] x y nb if_False if_app
    unfolding kwith_app mx y sx by (rule up)
qed

lemma wait_block_eq:
  assumes "valid_sem s k" "free_mutex_at s (s_mutex (sem s k))" "threads_ok s" "lockQuantumExceded (sched s) = 0"
    "s_value (sem s k) \<le> 0" "nextListIndexAvailable (s_blocked (sem s k)) MAX_BLOCKED \<noteq> FULL_LIST"
  shows "wait kt k pid t s = Yield (yielded (set_lock 0 (set_sem k (squeued (tid pid t) (sem s k))
       (seized (s_mutex (sem s k)) (touched (tid pid t) (entry s (s_mutex (sem s k))))
         (set_state pid t BLOCKED s))))) (Done ())"
proof -
  let ?m = "s_mutex (sem s k)"
  have v: "isValidSemaphore (sems s) k" "in_range k MAX_SEMAPHORES" using assms(1) valid_semD by (auto simp: valid_sem_def)
  have mx: "s_mutex (semaphores (sems s') k) = s_mutex (sem s' k)" for s' by (simp add: sem_def)
  have fm: "valid_mutex s ?m" "m_blockedQuantity (entry s ?m) = 0" using assms(2) by (simp_all add: free_mutex_at_def)
  let ?s1 = "set_lock 0 (seized ?m (down_free (tid pid t) (entry s ?m)) s)"
  let ?x = "(sem s k)\<lparr>s_value := s_value (sem s k) - 1\<rparr>"
  have add: "addToSemaphoreBlocked k pid t (set_sem k ?x ?s1) =
      Done (nextListIndexAvailable (s_blocked (sem s k)) MAX_BLOCKED) (set_sem k (squeued (tid pid t) (sem s k)) ?s1)"
    using v assms(6) by (simp add: addToSemaphoreBlocked_def with_sem_app upd_sem_app Let_def squeued_def)
  let ?s2 = "set_sem k (squeued (tid pid t) (sem s k)) ?s1"
  have ok2: "threads_ok ?s2" using assms(3) by simp
  have st: "changeThreadState pid t BLOCKED ?s2 = Done () (set_state pid t BLOCKED ?s2)"
    by (rule changeThreadState_set_state[OF ok2])
  have ok3: "threads_ok (set_state pid t BLOCKED ?s2)" by (rule threads_ok_set_state[OF ok2])
  have sm: "s_mutex (squeued (tid pid t) (sem s k)) = ?m" by (simp add: squeued_def)
  have up: "mutexUp ?m pid t (set_state pid t BLOCKED ?s2) = Done () (set_lock 0 (set_entry ?m (touched (tid pid t) (entry s ?m)) (set_state pid t BLOCKED ?s2)))"
    using up_free_app[OF _ _ _ _ ok3, of ?m pid t] fm assms(4) by (simp add: valid_mutex_set_entry)
  have eq: "set_lock 0 (set_entry ?m (touched (tid pid t) (entry s ?m)) (set_state pid t BLOCKED ?s2)) =
      set_lock 0 (set_sem k (squeued (tid pid t) (sem s k)) (seized ?m (touched (tid pid t) (entry s ?m)) (set_state pid t BLOCKED s)))"
    by (simp add: set_state_set_sem set_state_set_lock set_state_seized set_sem_commute set_entry_set_lock)
  have oky: "sched_ok (set_lock 0 (set_sem k (squeued (tid pid t) (sem s k)) (seized ?m (touched (tid pid t) (entry s ?m)) (set_state pid t BLOCKED s))))"
    by (rule threads_okD) (simp add: threads_ok_set_state assms(3))
  have vs: "isValidSemaphore (sems s) k = True" using v by simp
  have x: "sem ?s1 k = sem s k" by simp
  have y: "sem (set_sem k ?x ?s1) k = ?x" by simp
  have nb: "(s_value ?x < 0) = True" using assms(5) by simp
  have full: "(nextListIndexAvailable (s_blocked (sem s k)) MAX_BLOCKED \<noteq> FULL_LIST) = True" using assms(6) by simp
  have z: "sem (set_state pid t BLOCKED ?s2) k = squeued (tid pid t) (sem s k)" by simp
  have yl: "yield (set_lock 0 (set_sem k (squeued (tid pid t) (sem s k)) (seized ?m (touched (tid pid t) (entry s ?m)) (set_state pid t BLOCKED s)))) =
      Yield (yielded (set_lock 0 (set_sem k (squeued (tid pid t) (sem s k)) (seized ?m (touched (tid pid t) (entry s ?m)) (set_state pid t BLOCKED s))))) (Done ())"
    by (rule yield_eq[OF oky]) simp
  show ?thesis
    unfolding wait_def Let_def kwith_app vs if_True mx kdo.simps kbind_kskip kbind_app down_free_app[OF assms(2,4)]
      obind.simps upd_sem_app[OF v(2)] with_sem_app[OF v(2)] x y nb if_app add full st
    unfolding kwith_app mx z sm up obind.simps eq by (rule yl)
qed

section \<open>signal\<close>

lemma unlockSemaphoreProcess_loop_eq:
  assumes "in_range k MAX_SEMAPHORES" "threads_ok s"
  shows "unlockSemaphoreProcess_loop n k i s =
    (case scan (\<lambda>i. tid_pid (s_blocked (sem s k) i) \<noteq> NOT_USED) i n of
       None \<Rightarrow> Done False s
     | Some j \<Rightarrow> let b = s_blocked (sem s k) j in
         Done True (set_sem k (swoken j (sem s k)) (set_state (tid_pid b) (tid_thread b) READY s)))"
proof (induction n arbitrary: i)
  case 0
  then show ?case by simp
next
  case (Suc n)
  then show ?case
    using assms
    by (simp add: with_sem_app upd_sem_app changeThreadState_set_state swoken_def Let_def)
qed

definition next_woken :: "semaphore_t \<Rightarrow> int option" where
  "next_woken x = (if s_blockedQuantity x = 0 then None else first_swaiter x)"

definition woken_state :: "int \<Rightarrow> kstate \<Rightarrow> kstate" where
  "woken_state k s = (case next_woken (sem s k) of None \<Rightarrow> s
     | Some j \<Rightarrow> let b = s_blocked (sem s k) j in
         set_sem k (swoken j (sem s k)) (set_state (tid_pid b) (tid_thread b) READY s))"

lemma unlockSemaphoreProcess_eq:
  assumes "in_range k MAX_SEMAPHORES" "threads_ok s"
  shows "unlockSemaphoreProcess k s = Done (next_woken (sem s k) \<noteq> None) (woken_state k s)"
  using unlockSemaphoreProcess_loop_eq[OF assms, of "nat MAX_BLOCKED" 0] assms(1)
  by (auto simp: unlockSemaphoreProcess_def with_sem_app first_swaiter_def next_woken_def woken_state_def Let_def
      split: option.split)

definition woken_sem :: "semaphore_t \<Rightarrow> semaphore_t" where
  "woken_sem x = (case next_woken x of None \<Rightarrow> x | Some j \<Rightarrow> swoken j x)"

lemma woken_state_simps [simp]:
  "sem (woken_state k s) k = woken_sem (sem s k)" "n \<noteq> k \<Longrightarrow> sem (woken_state k s) n = sem s n"
  "mut (woken_state k s) = mut s" "sched (woken_state k s) = sched s" "entry (woken_state k s) m = entry s m"
  "valid_mutex (woken_state k s) m = valid_mutex s m" "procs (woken_state k s) = procs s"
  by (simp_all add: woken_state_def woken_sem_def Let_def split: option.split)

lemma threads_ok_woken: "threads_ok s \<Longrightarrow> threads_ok (woken_state k s)"
  by (simp add: woken_state_def Let_def threads_ok_set_state split: option.split)

lemma woken_sem_simps [simp]: "s_mutex (woken_sem x) = s_mutex x" "s_value (woken_sem x) = s_value x"
  "s_creator (woken_sem x) = s_creator x"
  by (simp_all add: woken_sem_def swoken_def split: option.split)

lemma signal_eq:
  assumes "valid_sem s k" "free_mutex_at s (s_mutex (sem s k))" "threads_ok s" "lockQuantumExceded (sched s) = 0"
  defines "who \<equiv> tid (cur_pid s) (cur_tid s)" and "m \<equiv> s_mutex (sem s k)"
  shows "signal kt k s = Done () (set_lock 0
     (set_sem k ((woken_sem (sem s k))\<lparr>s_value := s_value (sem s k) + 1\<rparr>)
       (set_entry m (touched who (entry s m)) (woken_state k (set_lock 0 (seized m (down_free who (entry s m)) s))))))"
proof -
  have v: "isValidSemaphore (sems s) k = True" "in_range k MAX_SEMAPHORES"
    using assms(1) valid_semD by (auto simp: valid_sem_def)
  have mx: "s_mutex (semaphores (sems s') k) = s_mutex (sem s' k)" for s' by (simp add: sem_def)
  have fm: "valid_mutex s m" "m_blockedQuantity (entry s m) = 0" using assms(2) by (simp_all add: free_mutex_at_def m_def)
  let ?s1 = "set_lock 0 (seized m (down_free who (entry s m)) s)"
  have dn: "mutexDown kt m (cur_pid s) (cur_tid s) s = Done () ?s1"
    unfolding who_def m_def by (rule down_free_app[OF assms(2,4)])
  have ok1: "threads_ok ?s1" using assms(3) by simp
  have un: "unlockSemaphoreProcess k ?s1 = Done (next_woken (sem s k) \<noteq> None) (woken_state k ?s1)"
    using unlockSemaphoreProcess_eq[OF v(2) ok1] by simp
  let ?x = "(woken_sem (sem s k))\<lparr>s_value := s_value (sem s k) + 1\<rparr>"
  let ?s2 = "set_sem k ?x (woken_state k ?s1)"
  have up1: "upd_sem k (\<lambda>m. m\<lparr>s_value := s_value m + 1\<rparr>) (woken_state k ?s1) = Done () ?s2"
    using upd_sem_app[OF v(2)] by simp
  have ok2: "threads_ok ?s2" using threads_ok_woken[OF ok1] by simp
  have up2: "mutexUp m (cur_pid s) (cur_tid s) ?s2 = Done () (set_lock 0
      (set_sem k ?x (set_entry m (touched who (entry s m)) (woken_state k ?s1))))"
    using up_free_app[OF _ _ _ _ ok2, of m "cur_pid s" "cur_tid s"] fm assms(4)
    by (simp add: valid_mutex_set_entry who_def set_sem_commute)
  have sx: "s_mutex (sem ?s2 k) = m" by (simp add: m_def)
  show ?thesis
    unfolding signal_def kbind_app getpid_app[OF threads_okD[OF assms(3)]] obind.simps kwith_app v(1) if_True mx
      kdo.simps m_def[symmetric] dn kbind_kskip un
    unfolding kskip_app obind.simps up1 with_sem_app[OF v(2)] sx up2 ..
qed

end
