(* ===== verification/SemProps.thy ===== *)
theory SemProps
  imports SemCorrect
begin

text \<open>
  The refinement of a counting semaphore by \<open>wait\<close> and \<open>signal\<close>, and what releasing a semaphore does to
  the threads blocked on it.
\<close>

section \<open>Searches\<close>

interpretation free_sem: slot_search getNextSemaphoreAvailable
  "\<lambda>c i. tid_pid (s_creator (semaphores c i)) = NOT_USED" "int (nat MAX_SEMAPHORES)" FULL_LIST
  unfolding getNextSemaphoreAvailable_def[abs_def]
  by (rule scan_or_slot_search) (simp add: FULL_LIST_def)

section \<open>Invariant and specification\<close>

text \<open>A semaphore with permits has no waiters, and a negative value counts them.\<close>

definition sem_wf :: "semaphore_t \<Rightarrow> bool" where
  "sem_wf x \<longleftrightarrow> s_blockedQuantity x = int (card (swaiting x)) \<and>
     s_blockedQuantity x = max 0 (- s_value x)"

record sem_spec =
  permits :: int
  swaiters :: "int \<Rightarrow> threadId_t option"

definition abs_sem :: "semaphore_t \<Rightarrow> sem_spec" where
  "abs_sem x = \<lparr>permits = max 0 (s_value x),
     swaiters = (\<lambda>i. if i \<in> swaiting x then Some (s_blocked x i) else None)\<rparr>"

definition spec_wait :: "threadId_t \<Rightarrow> int \<Rightarrow> sem_spec \<Rightarrow> sem_spec" where
  "spec_wait who i p = (if 0 < permits p then p\<lparr>permits := permits p - 1\<rparr>
     else p\<lparr>swaiters := (swaiters p)(i := Some who)\<rparr>)"

definition spec_signal :: "sem_spec \<Rightarrow> sem_spec" where
  "spec_signal p = (case scan (\<lambda>i. swaiters p i \<noteq> None) 0 (nat MAX_BLOCKED) of
     None \<Rightarrow> p\<lparr>permits := permits p + 1\<rparr>
   | Some i \<Rightarrow> p\<lparr>swaiters := (swaiters p)(i := None)\<rparr>)"

lemma finite_swaiting [simp]: "finite (swaiting x)"
  by (rule finite_subset[of _ "{0..<MAX_BLOCKED}"]) (auto simp: swaiting_def)

lemma swaiting_value [simp]: "swaiting (x\<lparr>s_value := v\<rparr>) = swaiting x"
  by (simp add: swaiting_def)

lemma first_swaiter_None: "first_swaiter x = None \<longleftrightarrow> swaiting x = {}"
  using scan_None[of "\<lambda>i. tid_pid (s_blocked x i) \<noteq> NOT_USED" 0 30]
  by (auto simp: first_swaiter_def swaiting_def MAX_BLOCKED_def)

lemma first_swaiter_Some: "first_swaiter x = Some i \<Longrightarrow> i \<in> swaiting x"
  using scan_Some[of "\<lambda>i. tid_pid (s_blocked x i) \<noteq> NOT_USED" 0 30]
  by (auto simp: first_swaiter_def swaiting_def MAX_BLOCKED_def)

lemma next_woken_wf: "sem_wf x \<Longrightarrow> next_woken x = first_swaiter x"
  using first_swaiter_None[of x] by (auto simp: next_woken_def sem_wf_def)

lemma scan_swaiters: "scan (\<lambda>i. swaiters (abs_sem x) i \<noteq> None) 0 (nat MAX_BLOCKED) = first_swaiter x"
  unfolding first_swaiter_def by (rule scan_cong) (auto simp: abs_sem_def swaiting_def MAX_BLOCKED_def)

lemma swaiting_squeued:
  assumes "nextListIndexAvailable (s_blocked x) MAX_BLOCKED \<noteq> FULL_LIST" "tid_pid who \<noteq> NOT_USED"
  shows "swaiting (squeued who x) = insert (nextListIndexAvailable (s_blocked x) MAX_BLOCKED) (swaiting x)"
    "nextListIndexAvailable (s_blocked x) MAX_BLOCKED \<notin> swaiting x"
  using free_cell.found[OF assms(1)] assms(2) by (auto simp: swaiting_def squeued_def MAX_BLOCKED_def)

lemma swaiting_swoken: "swaiting (swoken i x) = swaiting x - {i}"
  by (auto simp: swaiting_def swoken_def)

lemma abs_permit: "0 < s_value x \<Longrightarrow> sem_wf x \<Longrightarrow>
    abs_sem (x\<lparr>s_value := s_value x - 1\<rparr>) = spec_wait who i (abs_sem x) \<and> sem_wf (x\<lparr>s_value := s_value x - 1\<rparr>)"
  by (auto simp: abs_sem_def spec_wait_def sem_wf_def)

lemma abs_squeued:
  assumes "s_value x \<le> 0" "sem_wf x" "nextListIndexAvailable (s_blocked x) MAX_BLOCKED \<noteq> FULL_LIST" "tid_pid who \<noteq> NOT_USED"
  shows "abs_sem (squeued who x) = spec_wait who (nextListIndexAvailable (s_blocked x) MAX_BLOCKED) (abs_sem x)"
    "sem_wf (squeued who x)"
proof -
  note sw = swaiting_squeued[OF assms(3,4)]
  have "s_value (squeued who x) = s_value x - 1" "s_blockedQuantity (squeued who x) = s_blockedQuantity x + 1"
    "s_blocked (squeued who x) = (s_blocked x)(nextListIndexAvailable (s_blocked x) MAX_BLOCKED := who)"
    by (simp_all add: squeued_def)
  note fields = this
  show "abs_sem (squeued who x) = spec_wait who (nextListIndexAvailable (s_blocked x) MAX_BLOCKED) (abs_sem x)"
    using assms(1) sw by (auto simp: abs_sem_def spec_wait_def fields fun_eq_iff)
  show "sem_wf (squeued who x)"
    using assms(1,2) sw by (auto simp: sem_wf_def fields)
qed

lemma abs_woken:
  assumes "sem_wf x"
  defines "y \<equiv> (woken_sem x)\<lparr>s_value := s_value x + 1\<rparr>"
  shows "abs_sem y = spec_signal (abs_sem x)" "sem_wf y"
proof -
  have "abs_sem y = spec_signal (abs_sem x) \<and> sem_wf y"
  proof (cases "first_swaiter x")
    case None
    then have "swaiting x = {}" by (simp add: first_swaiter_None)
    then show ?thesis
      using None assms(1) next_woken_wf[OF assms(1)]
      unfolding y_def spec_signal_def scan_swaiters
      by (auto simp: woken_sem_def abs_sem_def sem_wf_def)
  next
    case (Some j)
    then have j: "j \<in> swaiting x" by (rule first_swaiter_Some)
    then have c: "int (card (swaiting x - {j})) = int (card (swaiting x)) - 1" "0 < card (swaiting x)"
      using card_gt_0_iff[of "swaiting x"] by (auto simp: card_Diff_singleton)
    then have neg: "s_value x < 0" using assms(1) by (auto simp: sem_wf_def)
    have q: "s_blockedQuantity (swoken j x) = s_blockedQuantity x - 1"
      "s_blocked (swoken j x) = (s_blocked x)(j := tid NOT_USED NOT_USED)" by (simp_all add: swoken_def)
    show ?thesis
      using Some neg c assms(1) next_woken_wf[OF assms(1)] q j
      unfolding y_def spec_signal_def scan_swaiters
      by (auto simp: woken_sem_def abs_sem_def sem_wf_def swaiting_swoken fun_eq_iff)
  qed
  then show "abs_sem y = spec_signal (abs_sem x)" "sem_wf y" by simp_all
qed

lemma free_touched: "free_mutex_at s m \<Longrightarrow> m_value (touched who (entry s m)) = UNLOCKED \<and>
    m_blockedQuantity (touched who (entry s m)) = 0 \<and> m_creator (touched who (entry s m)) = m_creator (entry s m)"
  by (simp add: free_mutex_at_def touched_def)

lemma free_mutex_after:
  assumes "free_mutex_at s m" "entry s' m = touched who (entry s m)"
  shows "free_mutex_at s' m"
proof -
  have "valid_mutex s' m"
    using assms free_touched[OF assms(1), of who]
    by (auto simp: free_mutex_at_def valid_mutex_def isValidMutex_def entry_def split: if_splits)
  then show ?thesis using assms(2) free_touched[OF assms(1)] by (simp add: free_mutex_at_def)
qed

section \<open>Releasing\<close>

text \<open>What the calls made while a semaphore is released keep.\<close>

definition keeps :: "kstate \<Rightarrow> kstate \<Rightarrow> bool" where
  "keeps s s' \<longleftrightarrow> threads_ok s' \<and> lockQuantumExceded (sched s') = 0 \<and> sems s' = sems s"

lemma unlockProcess_keeps:
  assumes "threads_ok s" "lockQuantumExceded (sched s) = 0" "in_range m MAX_MUTEXES"
  shows "\<exists>b s'. unlockProcess m s = Done b s' \<and> keeps s s'"
  using assms unlockProcess_eq[OF assms(3,1)]
  by (auto simp: keeps_def Let_def threads_ok_set_state split: option.split)

lemma mutexUp_keeps:
  assumes "threads_ok s" "lockQuantumExceded (sched s) = 0" "valid_mutex s m"
  shows "\<exists>s'. mutexUp m pid t s = Done () s' \<and> keeps s s'"
proof (cases "m_lockProcess (entry s m) = tid pid t")
  case True
  show ?thesis
    unfolding mutexUp_owner_eq[OF assms(3) True assms(2,1)]
    using assms by (auto simp: keeps_def Let_def threads_ok_set_state split: option.split)
next
  case False
  then show ?thesis using mutexUp_other_eq[OF False assms(2)] assms by (simp add: keeps_def)
qed

lemma releaseMutex_keeps:
  assumes "threads_ok s" "lockQuantumExceded (sched s) = 0" "free_mutex_at s (adminMutex (mut s))"
    "in_range m MAX_MUTEXES" "m_blockedQuantity (entry s m) = 0" "m \<noteq> adminMutex (mut s)"
  shows "\<exists>b s'. releaseMutex kt pid m t s = Done b s' \<and> keeps s s'"
proof -
  let ?a = "adminMutex (mut s)"
  define s1 where "s1 = set_lock 0 (seized ?a (down_free (tid pid t) (entry s ?a)) s)"
  have dn: "mutexDown kt ?a pid t s = Done () s1" unfolding s1_def by (rule down_free_app[OF assms(3,2)])
  have q1: "m_blockedQuantity (entry s1 m) = 0" using assms(5,6) by (cases "m = ?a + 1") (simp_all add: s1_def)
  have f1: "threads_ok s1" "lockQuantumExceded (sched s1) = 0" "sems s1 = sems s" "adminMutex (mut s1) = ?a" "valid_mutex s1 ?a"
    using assms(1,2,3) by (simp_all add: s1_def free_mutex_at_def)
  have e1: "mutexes (mut s1) m = entry s1 m" by (simp add: entry_def)
  let ?owner = "isValidMutex (mut s1) m \<and> pid = tid_pid (m_creator (entry s1 m)) \<and> t = tid_thread (m_creator (entry s1 m))"
  let ?e1 = "(entry s1 m)\<lparr>m_creator := (m_creator (entry s1 m))\<lparr>tid_pid := NOT_USED\<rparr>\<rparr>"
  let ?e2 = "?e1\<lparr>m_lockProcess := (m_lockProcess (entry s1 m))\<lparr>tid_pid := NOT_USED\<rparr>\<rparr>"
  let ?s2 = "if ?owner then set_entry m ?e2 s1 else s1"
  have w: "kwhile (Suc n) (\<lambda>s. m_blockedQuantity (mutexes (mut s) m) > 0) b (set_entry m ?e2 s1) = Done () (set_entry m ?e2 s1)" for n b
    using q1 by (simp add: set_entry_def)
  have body: "kwhen ?owner [upd_mutex m (set_creator_pid NOT_USED), upd_mutex m (set_lock_pid NOT_USED),
      kwhile (nat MAX_BLOCKED + 1) (\<lambda>s. m_blockedQuantity (mutexes (mut s) m) > 0) (kbind (unlockProcess m) (\<lambda>_. kskip))] s1 = Done () ?s2"
  proof (cases ?owner)
    case True
    have "upd_mutex m (set_creator_pid NOT_USED) s1 = Done () (set_entry m ?e1 s1)" using upd_mutex_app[OF assms(4)] by simp
    moreover have "upd_mutex m (set_lock_pid NOT_USED) (set_entry m ?e1 s1) = Done () (set_entry m ?e2 s1)"
      using upd_mutex_app[OF assms(4)] by simp
    ultimately show ?thesis
      unfolding kwhen_def if_P[OF True] kdo.simps kbind_kskip kbind_app
      using w[of "nat MAX_BLOCKED"] by simp
  next
    case False
    then show ?thesis unfolding kwhen_def if_not_P[OF False] by simp
  qed
  have ok: "threads_ok ?s2" "lockQuantumExceded (sched ?s2) = 0" "sems ?s2 = sems s" "adminMutex (mut ?s2) = ?a"
    using f1 by auto
  have "valid_mutex ?s2 ?a"
    using f1(5) assms(6) by (auto simp: valid_mutex_def isValidMutex_def set_entry_def split: if_splits)
  from mutexUp_keeps[OF ok(1,2) this, of pid t] obtain s3 where s3: "mutexUp ?a pid t ?s2 = Done () s3" "keeps ?s2 s3" by blast
  have "releaseMutex kt pid m t s = Done ?owner s3"
    unfolding releaseMutex_def Let_def kbind_app kwith_app dn obind.simps e1 kthen.simps body
    unfolding obind.simps kwith_app ok(4) s3(1) kret_app ..
  then show ?thesis using s3(2) ok(3) by (auto simp: keeps_def)
qed

lemma release_loop_diverges:
  assumes "threads_ok s" "lockQuantumExceded (sched s) = 0" "in_range k MAX_SEMAPHORES" "0 < s_blockedQuantity (sem s k)"
  shows "kwhile n (\<lambda>s. s_blockedQuantity (semaphores (sems s) k) > 0) (kbind (unlockProcess k) (\<lambda>_. kskip)) s = Fault Diverges"
  using assms
proof (induction n arbitrary: s)
  case 0
  then show ?case by simp
next
  case (Suc n)
  have "in_range k MAX_MUTEXES" using Suc.prems(3) by (simp add: in_range_def MAX_MUTEXES_def MAX_SEMAPHORES_def)
  from unlockProcess_keeps[OF Suc.prems(1,2) this] obtain b s' where s': "unlockProcess k s = Done b s'" "keeps s s'" by blast
  have c: "(s_blockedQuantity (semaphores (sems s) k) > 0) = True" using Suc.prems(4) by (simp add: sem_def)
  have "0 < s_blockedQuantity (sem s' k)" using s'(2) Suc.prems(4) by (simp add: keeps_def sem_def)
  then have "kwhile n (\<lambda>s. s_blockedQuantity (semaphores (sems s) k) > 0) (kbind (unlockProcess k) (\<lambda>_. kskip)) s' = Fault Diverges"
    using s'(2) Suc.prems(3) by (intro Suc.IH) (auto simp: keeps_def)
  then show ?case unfolding kwhile.simps kwith_app c if_True kbind_app s'(1) obind.simps kskip_app .
qed

section \<open>A concrete semaphore\<close>

definition ex_sem :: "int \<Rightarrow> (int \<Rightarrow> threadId_t) \<Rightarrow> int \<Rightarrow> semaphore_t" where
  "ex_sem val blocked n = \<lparr>s_creator = tid 1 0, s_name = [], s_blocked = blocked, s_blockedQuantity = n,
     s_value = val, s_mutex = 3\<rparr>"

definition ex_sem_state :: "semaphore_t \<Rightarrow> kstate \<Rightarrow> kstate" where
  "ex_sem_state x s = set_sem 5 x (ex_mutex_state (ex_mutex UNLOCKED nobody 0) s)"

lemma ex_sem_state_simps [simp]:
  "sched (ex_sem_state x s) = ex_sched" "sem (ex_sem_state x s) 5 = x" "threads_ok (ex_sem_state x s)"
  "entry (ex_sem_state x s) m = ex_mutex UNLOCKED nobody 0"
  by (simp_all add: ex_sem_state_def)

lemma ex_sem_valid [simp]: "valid_sem (ex_sem_state (ex_sem v b n) s) 5" "free_mutex_at (ex_sem_state x s) 3"
proof -
  have "semaphores (sems (ex_sem_state (ex_sem v b n) s)) 5 = ex_sem v b n"
    by (simp add: ex_sem_state_def set_sem_def)
  then show "valid_sem (ex_sem_state (ex_sem v b n) s) 5"
    by (simp add: valid_sem_def isValidSemaphore_def ex_sem_def MAX_SEMAPHORES_def)
  have "valid_mutex (ex_sem_state x s) 3" by (simp add: ex_sem_state_def)
  then show "free_mutex_at (ex_sem_state x s) 3" by (simp add: free_mutex_at_def) (simp add: ex_mutex_def)
qed

section \<open>Properties\<close>

text \<open>C15: \<open>wait\<close> implements the decrement of a counting semaphore and preserves the invariant that a negative
  value counts the waiters: with a permit the caller takes it and goes on; without one it is put on the first
  free place and gives up the processor.  The mutex of the semaphore is free again when it does, and no other
  semaphore changes.\<close>

theorem wait_refines:
  assumes "valid_sem s k" "free_mutex_at s (s_mutex (sem s k))" "threads_ok s" "lockQuantumExceded (sched s) = 0"
    "sem_wf (sem s k)" "pid \<noteq> NOT_USED" "nextListIndexAvailable (s_blocked (sem s k)) MAX_BLOCKED \<noteq> FULL_LIST"
  shows "\<exists>s'. wait kt k pid t s =
      (if 0 < permits (abs_sem (sem s k)) then Done () s' else Yield s' (Done ())) \<and>
    abs_sem (sem s' k) =
      spec_wait (tid pid t) (nextListIndexAvailable (s_blocked (sem s k)) MAX_BLOCKED) (abs_sem (sem s k)) \<and>
    sem_wf (sem s' k) \<and> free_mutex_at s' (s_mutex (sem s' k)) \<and> (\<forall>n. n \<noteq> k \<longrightarrow> sem s' n = sem s n)"
proof (cases "0 < s_value (sem s k)")
  case True
  let ?s' = "set_lock 0 (set_sem k ((sem s k)\<lparr>s_value := s_value (sem s k) - 1\<rparr>)
       (seized (s_mutex (sem s k)) (touched (tid pid t) (entry s (s_mutex (sem s k)))) s))"
  have p: "0 < permits (abs_sem (sem s k))" using True by (simp add: abs_sem_def)
  have e: "wait kt k pid t s = (if 0 < permits (abs_sem (sem s k)) then Done () ?s' else Yield ?s' (Done ()))"
    unfolding if_P[OF p] by (rule wait_free_eq[OF assms(1-4) True])
  have y: "sem ?s' k = (sem s k)\<lparr>s_value := s_value (sem s k) - 1\<rparr>" by simp
  have fm: "free_mutex_at ?s' (s_mutex (sem ?s' k))"
    using free_mutex_after[OF assms(2), of ?s' "tid pid t"] by simp
  have "\<forall>n. n \<noteq> k \<longrightarrow> sem ?s' n = sem s n" by simp
  with e fm abs_permit[OF True assms(5)] show ?thesis by (intro exI[of _ ?s']) (simp only: y simp_thms)
next
  case False
  let ?s' = "yielded (set_lock 0 (set_sem k (squeued (tid pid t) (sem s k))
       (seized (s_mutex (sem s k)) (touched (tid pid t) (entry s (s_mutex (sem s k))))
         (set_state pid t BLOCKED s))))"
  have le: "s_value (sem s k) \<le> 0" using False by simp
  have p: "\<not> 0 < permits (abs_sem (sem s k))" using False by (simp add: abs_sem_def)
  have e: "wait kt k pid t s = (if 0 < permits (abs_sem (sem s k)) then Done () ?s' else Yield ?s' (Done ()))"
    unfolding if_not_P[OF p] by (rule wait_block_eq[OF assms(1-4) le assms(7)])
  have y: "sem ?s' k = squeued (tid pid t) (sem s k)" by simp
  have m: "s_mutex (squeued (tid pid t) (sem s k)) = s_mutex (sem s k)" by (simp add: squeued_def)
  have fm: "free_mutex_at ?s' (s_mutex (sem ?s' k))"
    using free_mutex_after[OF assms(2), of ?s' "tid pid t"] m by simp
  have u: "tid_pid (tid pid t) \<noteq> NOT_USED" using assms(6) by simp
  have "\<forall>n. n \<noteq> k \<longrightarrow> sem ?s' n = sem s n" by simp
  with e fm abs_squeued[OF le assms(5,7) u] show ?thesis by (intro exI[of _ ?s']) (simp only: y simp_thms)
qed

lemma ex_sem_wf [simp]: "sem_wf (ex_sem 0 nobody 0)" "sem_wf (ex_sem 2 nobody 0)"
  by (simp_all add: sem_wf_def swaiting_def ex_sem_def)

theorem wait_refines_witness:
  "\<forall>s kt. \<exists>s'. wait kt 5 2 0 (ex_sem_state (ex_sem 0 nobody 0) s) = Yield s' (Done ()) \<and>
    swaiters (abs_sem (sem s' 5)) 0 = Some (tid 2 0)"
proof (intro allI)
  fix s kt
  let ?x = "ex_sem 0 nobody 0"
  have free: "nextListIndexAvailable (s_blocked ?x) MAX_BLOCKED = 0" by (simp add: ex_sem_def ex_free_cell)
  have m: "s_mutex ?x = 3" "permits (abs_sem ?x) = 0" by (simp_all add: ex_sem_def abs_sem_def)
  have x: "sem (ex_sem_state ?x s) 5 = ?x" by simp
  have ok: "free_mutex_at (ex_sem_state ?x s) 3" "lockQuantumExceded (sched (ex_sem_state ?x s)) = 0" by simp_all
  have f: "nextListIndexAvailable (s_blocked ?x) MAX_BLOCKED \<noteq> FULL_LIST" by (simp add: free)
  have "\<exists>s'. wait kt 5 2 0 (ex_sem_state ?x s) =
      (if 0 < permits (abs_sem ?x) then Done () s' else Yield s' (Done ())) \<and>
    abs_sem (sem s' 5) = spec_wait (tid 2 0) 0 (abs_sem ?x) \<and>
    sem_wf (sem s' 5) \<and> free_mutex_at s' (s_mutex (sem s' 5)) \<and> (\<forall>n. n \<noteq> 5 \<longrightarrow> sem s' n = sem (ex_sem_state ?x s) n)"
    using wait_refines[of "ex_sem_state ?x s" 5 2 kt 0] unfolding x m(1) free
    using ok ex_sem_valid(1) ex_sem_state_simps(3) ex_sem_wf(1) ex_used(2,3) by blast
  then obtain s' where s': "wait kt 5 2 0 (ex_sem_state ?x s) = (if 0 < (0::int) then Done () s' else Yield s' (Done ()))"
    "abs_sem (sem s' 5) = spec_wait (tid 2 0) 0 (abs_sem ?x)"
    unfolding m by blast
  have "swaiters (abs_sem (sem s' 5)) 0 = Some (tid 2 0)" unfolding s'(2) by (simp add: spec_wait_def m)
  moreover have "(0 < (0::int)) = False" by simp
  moreover note s'(1)[unfolded this if_False]
  ultimately show "\<exists>s'. wait kt 5 2 0 (ex_sem_state ?x s) = Yield s' (Done ()) \<and>
      swaiters (abs_sem (sem s' 5)) 0 = Some (tid 2 0)"
    by blast
qed

text \<open>C16: \<open>signal\<close> implements the increment of a counting semaphore and preserves the invariant: with waiters
  the one on the first place taken becomes ready and no permit appears, without waiters there is one
  permit more.  It never blocks, the mutex of the semaphore is free again, and no other semaphore changes.\<close>

theorem signal_refines:
  assumes "valid_sem s k" "free_mutex_at s (s_mutex (sem s k))" "threads_ok s" "lockQuantumExceded (sched s) = 0"
    "sem_wf (sem s k)"
  shows "\<exists>s'. signal kt k s = Done () s' \<and> abs_sem (sem s' k) = spec_signal (abs_sem (sem s k)) \<and>
    sem_wf (sem s' k) \<and> free_mutex_at s' (s_mutex (sem s' k)) \<and> (\<forall>n. n \<noteq> k \<longrightarrow> sem s' n = sem s n) \<and>
    (\<forall>i q a. swaiters (abs_sem (sem s k)) i = Some q \<and> swaiters (abs_sem (sem s' k)) i = None \<and>
        thread_at s (tid_pid q) (tid_thread q) = Some a \<longrightarrow> (\<exists>th. thrs s' a = Some th \<and> th_state th = READY))"
proof -
  let ?m = "s_mutex (sem s k)" and ?who = "tid (cur_pid s) (cur_tid s)"
  let ?s1 = "set_lock 0 (seized ?m (down_free ?who (entry s ?m)) s)"
  let ?y = "(woken_sem (sem s k))\<lparr>s_value := s_value (sem s k) + 1\<rparr>"
  let ?s' = "set_lock 0 (set_sem k ?y (set_entry ?m (touched ?who (entry s ?m)) (woken_state k ?s1)))"
  have fr: "free_mutex_at ?s' (s_mutex (sem ?s' k))"
    using free_mutex_after[OF assms(2), of ?s' ?who] by simp
  have wake: "\<exists>th. thrs ?s' a = Some th \<and> th_state th = READY"
    if "swaiters (abs_sem (sem s k)) i = Some q" "swaiters (abs_sem ?y) i = None"
      "thread_at s (tid_pid q) (tid_thread q) = Some a" for i q a
  proof -
    have i: "i \<in> swaiting (sem s k)" "s_blocked (sem s k) i = q" "i \<notin> swaiting (woken_sem (sem s k))"
      using that(1,2) by (auto simp: abs_sem_def split: if_splits)
    then obtain j where j: "next_woken (sem s k) = Some j" "i = j"
      by (cases "next_woken (sem s k)") (auto simp: woken_sem_def swaiting_swoken)
    have ta: "thread_at ?s1 (tid_pid q) (tid_thread q) = Some a"
      using that(3) thread_at_cong[of ?s1 s] by simp
    have "threads_ok ?s1" using assms(3) by simp
    from set_state_ready[OF this ta, of READY]
    show ?thesis using j i(2) by (simp add: woken_state_def Let_def)
  qed
  have y: "sem ?s' k = ?y" by simp
  have oth: "\<forall>n. n \<noteq> k \<longrightarrow> sem ?s' n = sem s n" by simp
  have "\<forall>i q a. swaiters (abs_sem (sem s k)) i = Some q \<and> swaiters (abs_sem (sem ?s' k)) i = None \<and>
        thread_at s (tid_pid q) (tid_thread q) = Some a \<longrightarrow> (\<exists>th. thrs ?s' a = Some th \<and> th_state th = READY)"
    unfolding y using wake by blast
  then show ?thesis
    using signal_eq[OF assms(1-4), of kt] abs_woken[OF assms(5)] fr oth
    by (intro exI[of _ ?s']) (simp only: y simp_thms)
qed

theorem signal_refines_witness:
  "\<forall>s kt. \<exists>s'. signal kt 5 (ex_sem_state (ex_sem 2 nobody 0) s) = Done () s' \<and> permits (abs_sem (sem s' 5)) = 3"
proof (intro allI)
  fix s kt
  let ?x = "ex_sem 2 nobody 0"
  have m: "s_mutex ?x = 3" by (simp add: ex_sem_def)
  have "first_swaiter ?x = None" by (simp add: first_swaiter_None swaiting_def ex_sem_def)
  then have "spec_signal (abs_sem ?x) = (abs_sem ?x)\<lparr>permits := permits (abs_sem ?x) + 1\<rparr>"
    unfolding spec_signal_def scan_swaiters by simp
  moreover have "permits (abs_sem ?x) = 2" by (simp add: abs_sem_def ex_sem_def)
  ultimately show "\<exists>s'. signal kt 5 (ex_sem_state ?x s) = Done () s' \<and> permits (abs_sem (sem s' 5)) = 3"
    using signal_refines[of "ex_sem_state ?x s" 5 kt] m by auto
qed

text \<open>C36: Releasing a semaphore that has blocked threads never returns: the loop that is meant to wake them
  calls the function of the mutexes, so the number of threads blocked on the semaphore never changes.\<close>

theorem releaseSemaphore_diverges:
  assumes "threads_ok s" "lockQuantumExceded (sched s) = 0" "valid_sem s k" "s_creator (sem s k) = tid pid t"
    "0 < s_blockedQuantity (sem s k)" "free_mutex_at s (semaphoreMutex (sems s))" "free_mutex_at s (adminMutex (mut s))"
    "free_mutex_at s (s_mutex (sem s k))"
    "distinct [semaphoreMutex (sems s), adminMutex (mut s), s_mutex (sem s k)]"
  shows "releaseSemaphore kt pid k t s = Fault Diverges"
proof -
  let ?m = "semaphoreMutex (sems s)"
  let ?s1 = "set_lock 0 (seized ?m (down_free (tid pid t) (entry s ?m)) s)"
  have dn: "mutexDown kt ?m pid t s = Done () ?s1" by (rule down_free_app[OF assms(6,2)])
  have r: "in_range k MAX_SEMAPHORES" using valid_semD[OF assms(3)] .
  have v: "(isValidSemaphore (sems ?s1) k \<and> pid = tid_pid (s_creator (semaphores (sems ?s1) k))
      \<and> t = tid_thread (s_creator (semaphores (sems ?s1) k))) = True"
    using assms(3,4) by (simp add: valid_sem_def sem_def)
  have mm: "s_mutex (semaphores (sems ?s1) k) = s_mutex (sem s k)" by (simp add: sem_def)
  have rm: "\<exists>b s'. releaseMutex kt pid (s_mutex (sem s k)) t ?s1 = Done b s' \<and> keeps ?s1 s'"
  proof (rule releaseMutex_keeps)
    show "free_mutex_at ?s1 (adminMutex (mut ?s1))"
      using assms(7,9) free_seized by auto
    show "in_range (s_mutex (sem s k)) MAX_MUTEXES" using assms(8) valid_mutexD by (auto simp: free_mutex_at_def)
    show "m_blockedQuantity (entry ?s1 (s_mutex (sem s k))) = 0" using assms(8,9) by (auto simp: free_mutex_at_def)
    show "s_mutex (sem s k) \<noteq> adminMutex (mut ?s1)" using assms(9) by auto
  qed (use assms(1,2) in simp_all)
  then obtain b s2 where s2: "releaseMutex kt pid (s_mutex (sem s k)) t ?s1 = Done b s2" "keeps ?s1 s2" by blast
  have q: "sem s2 k = sem s k" using s2(2) by (simp add: keeps_def sem_def)
  let ?x = "set_sem_creator_pid NOT_USED (sem s k)"
  have up: "upd_sem k (set_sem_creator_pid NOT_USED) s2 = Done () (set_sem k ?x s2)" using upd_sem_app[OF r] q by simp
  have d: "kwhile (nat MAX_BLOCKED + 1) (\<lambda>s. s_blockedQuantity (semaphores (sems s) k) > 0)
      (kbind (unlockProcess k) (\<lambda>_. kskip)) (set_sem k ?x s2) = Fault Diverges"
    by (rule release_loop_diverges) (use s2(2) r assms(5) in \<open>simp_all add: keeps_def\<close>)
  show ?thesis
    unfolding releaseSemaphore_def Let_def kbind_app kwith_app dn obind.simps kthen.simps kwhen_def v if_True kdo.simps mm
      s2(1) kskip_app up kbind_kskip d
    unfolding obind.simps ..
qed

theorem releaseSemaphore_diverges_witness:
  "\<forall>s kt. \<exists>s0. 0 < s_blockedQuantity (sem s0 5) \<and> releaseSemaphore kt 1 5 0 s0 = Fault Diverges"
proof (intro allI)
  fix s kt
  let ?x = "ex_sem (-1) (nobody(4 := tid 2 0)) 1" and ?b = "ex_sem_state (ex_sem (-1) (nobody(4 := tid 2 0)) 1) s"
  let ?s = "?b\<lparr>sems := (sems ?b)\<lparr>semaphoreMutex := 1\<rparr>\<rparr>"
  have simps: "sched ?s = ex_sched" "mut ?s = mut ?b" "semaphoreMutex (sems ?s) = 1" by simp_all
  have x: "sem ?s 5 = ?x" using ex_sem_state_simps(2)[of ?x s] by (simp add: sem_def)
  have ok: "threads_ok ?s" by (subst threads_ok_cong[of ?s ?b]) simp_all
  have v: "valid_sem ?s 5" using ex_sem_valid(1)[of "-1" "nobody(4 := tid 2 0)" 1 s] by (simp add: valid_sem_def isValidSemaphore_def MAX_SEMAPHORES_def)
  have fm: "free_mutex_at ?s m" if "in_range m MAX_MUTEXES" for m
    using that by (simp add: free_mutex_at_def valid_mutex_def isValidMutex_def ex_sem_state_def set_sem_def
        ex_mutex_state_def ex_mutex_def entry_def in_range_def)
  have r: "in_range 0 MAX_MUTEXES" "in_range 1 MAX_MUTEXES" "in_range 3 MAX_MUTEXES" by (simp_all add: in_range_def MAX_MUTEXES_def)
  have f: "s_creator ?x = tid 1 0" "0 < s_blockedQuantity ?x" "s_mutex ?x = 3" by (simp_all add: ex_sem_def)
  have a: "adminMutex (mut ?s) = 0" by (simp add: ex_sem_state_def set_sem_def)
  have "releaseSemaphore kt 1 5 0 ?s = Fault Diverges"
    by (rule releaseSemaphore_diverges[OF ok]) (unfold x f a simps(3), (use v f fm r simps(1) in simp)+)
  then show "\<exists>s0. 0 < s_blockedQuantity (sem s0 5) \<and> releaseSemaphore kt 1 5 0 s0 = Fault Diverges"
    using f(2) x by (intro exI[of _ ?s]) (simp only: x simp_thms)
qed

end
