(* ===== verification/BuddyTree.thy ===== *)
theory BuddyTree
  imports Buddy
begin

text \<open>
  The geometry of the tree stored in the allocator's arrays: depth of a node, descendants, the
  address and size of the block a node stands for, and the local condition on usage marks that
  the allocator keeps at every node.
\<close>

section \<open>Depth and descendants\<close>

fun depth :: "int \<Rightarrow> nat" where
  "depth i = (if i \<le> 1 then 0 else Suc (depth (i div 2)))"

declare depth.simps [simp del]

definition desc :: "int \<Rightarrow> int \<Rightarrow> bool" where
  "desc i k \<longleftrightarrow> (\<exists>m. k div 2 ^ m = i)"

lemma depth_1 [simp]: "depth 1 = 0"
  by (simp add: depth.simps)

lemma depth_LEFT [simp]: "1 \<le> i \<Longrightarrow> depth (LEFT i) = Suc (depth i)"
  by (subst depth.simps) simp

lemma depth_RIGHT [simp]: "1 \<le> i \<Longrightarrow> depth (RIGHT i) = Suc (depth i)"
  by (subst depth.simps) simp

lemma depth_bounds: "1 \<le> i \<Longrightarrow> 2 ^ depth i \<le> i \<and> i < 2 ^ Suc (depth i)"
proof (induction i rule: depth.induct)
  case (1 i)
  show ?case
  proof (cases "i \<le> 1")
    case True
    with "1.prems" show ?thesis by simp
  next
    case False
    then have IH: "2 ^ depth (i div 2) \<le> i div 2 \<and> i div 2 < 2 ^ Suc (depth (i div 2))"
      by (intro "1.IH") auto
    have "depth i = Suc (depth (i div 2))" using False by (simp add: depth.simps)
    moreover have "2 * (i div 2) \<le> i" "i < 2 * (i div 2) + 2" by linarith+
    ultimately show ?thesis using IH by simp
  qed
qed

lemma depth_le_11: "in_heap i \<Longrightarrow> depth i \<le> 11"
proof (rule ccontr)
  assume i: "in_heap i" and "\<not> depth i \<le> 11"
  then have "(2::int) ^ 12 \<le> 2 ^ depth i" by (intro power_increasing) auto
  moreover have "2 ^ depth i \<le> i" using depth_bounds[of i] i by (simp add: in_heap_def)
  ultimately show False using i by (simp add: in_heap_def)
qed

lemma depth_unique:
  assumes "2 ^ d \<le> i" "i < 2 ^ Suc d"
  shows "depth i = d"
proof -
  have i: "1 \<le> i" using assms(1) by (metis order.trans one_le_numeral one_le_power)
  have "(2::int) ^ d < 2 ^ Suc (depth i)" "(2::int) ^ depth i < 2 ^ Suc d"
    using depth_bounds[OF i] assms by linarith+
  then have "d < Suc (depth i)" "depth i < Suc d"
    by (metis one_less_numeral_iff power_less_imp_less_exp semiring_norm(76))+
  then show ?thesis by simp
qed

lemma in_heap_iff_depth: "1 \<le> i \<Longrightarrow> in_heap i \<longleftrightarrow> depth i \<le> 11"
proof
  assume i: "1 \<le> i" and "depth i \<le> 11"
  then have "(2::int) ^ Suc (depth i) \<le> 2 ^ 12" by (intro power_increasing) auto
  then show "in_heap i" using depth_bounds[OF i] i by (simp add: in_heap_def)
qed (rule depth_le_11)

lemma in_heap_ge_1: "in_heap i \<Longrightarrow> 1 \<le> i"
  by (simp add: in_heap_def)

lemma in_heap_children:
  "in_heap i \<Longrightarrow> depth i < 11 \<Longrightarrow> in_heap (LEFT i) \<and> in_heap (RIGHT i)"
  using in_heap_ge_1[of i] by (simp add: in_heap_iff_depth)

lemma in_heap_RIGHT_depth: "1 \<le> i \<Longrightarrow> in_heap (RIGHT i) \<longleftrightarrow> depth i < 11"
  by (simp add: in_heap_iff_depth less_eq_Suc_le)

lemma desc_refl [simp]: "desc i i"
  unfolding desc_def by (rule exI[of _ 0]) simp

lemma desc_step: "desc i k \<longleftrightarrow> k = i \<or> desc i (k div 2)"
proof
  assume "desc i k"
  then obtain m where m: "k div 2 ^ m = i" by (auto simp: desc_def)
  then show "k = i \<or> desc i (k div 2)"
    by (cases m) (auto simp: desc_def zdiv_zmult2_eq)
next
  assume "k = i \<or> desc i (k div 2)"
  then show "desc i k"
  proof
    assume "desc i (k div 2)"
    then obtain m where "k div 2 div 2 ^ m = i" by (auto simp: desc_def)
    then have "k div 2 ^ Suc m = i" by (simp add: zdiv_zmult2_eq)
    then show ?thesis unfolding desc_def by blast
  qed simp
qed

lemma div_pow_Suc: "(k::int) div 2 ^ Suc m = k div 2 ^ m div 2"
  by (simp add: zdiv_zmult2_eq mult.commute[of 2])

lemma desc_child: "desc c k \<Longrightarrow> c div 2 = i \<Longrightarrow> desc i k"
  by (metis desc_def div_pow_Suc)

lemma desc_LEFT: "desc (LEFT i) k \<Longrightarrow> desc i k"
  by (rule desc_child) auto

lemma desc_RIGHT: "desc (RIGHT i) k \<Longrightarrow> desc i k"
  by (rule desc_child) auto

lemma desc_cases:
  assumes "desc i k"
  obtains "k = i" | "desc (LEFT i) k" | "desc (RIGHT i) k"
proof -
  from assms obtain m where m: "k div 2 ^ m = i" by (auto simp: desc_def)
  show ?thesis
  proof (cases m)
    case 0
    with m that(1) show ?thesis by simp
  next
    case (Suc n)
    with m have "k div 2 ^ n div 2 = i" by (simp add: div_pow_Suc del: power_Suc)
    moreover have "c div 2 = i \<Longrightarrow> c = LEFT i \<or> c = RIGHT i" for c :: int by presburger
    ultimately have "k div 2 ^ n = LEFT i \<or> k div 2 ^ n = RIGHT i" by blast
    with that(2,3) show ?thesis unfolding desc_def by blast
  qed
qed

lemma desc_trans: "desc i j \<Longrightarrow> desc j k \<Longrightarrow> desc i k"
proof -
  assume "desc i j" "desc j k"
  then obtain m n where "j div 2 ^ m = i" "k div 2 ^ n = j" by (auto simp: desc_def)
  then have "k div 2 ^ (n + m) = i"
    by (simp add: power_add zdiv_zmult2_eq)
  then show ?thesis unfolding desc_def by blast
qed

lemma div_pow_depth:
  "1 \<le> (i::int) \<Longrightarrow> k div 2 ^ m = i \<Longrightarrow> depth k = depth i + m \<and> i \<le> k"
proof (induction m arbitrary: i)
  case 0
  then show ?case by simp
next
  case (Suc m)
  let ?c = "k div 2 ^ m"
  have c: "?c div 2 = i" using Suc.prems(2) by (simp add: div_pow_Suc del: power_Suc)
  then have "1 \<le> ?c" "1 < ?c" "i \<le> ?c" using Suc.prems(1) by linarith+
  moreover from \<open>1 < ?c\<close> c have "depth ?c = Suc (depth i)" by (simp add: depth.simps[of ?c])
  ultimately show ?case using Suc.IH[of ?c] by simp
qed

lemma desc_depth:
  assumes "1 \<le> i" "desc i k"
  shows "k div 2 ^ (depth k - depth i) = i" "depth i \<le> depth k" "i \<le> k"
proof -
  from assms(2) obtain m where m: "k div 2 ^ m = i" by (auto simp: desc_def)
  from div_pow_depth[OF assms(1) m] have "depth k = depth i + m" "i \<le> k" by simp_all
  with m show "k div 2 ^ (depth k - depth i) = i" "depth i \<le> depth k" "i \<le> k" by simp_all
qed

lemma desc_in_heap: "1 \<le> i \<Longrightarrow> desc i k \<Longrightarrow> in_heap k \<Longrightarrow> in_heap i"
  using desc_depth[of i k] by (simp add: in_heap_def)

lemma desc_same_depth: "1 \<le> i \<Longrightarrow> desc i k \<Longrightarrow> depth k = depth i \<Longrightarrow> k = i"
  using desc_depth(1)[of i k] by simp

lemma desc_children_disjoint:
  assumes "1 \<le> i" "desc (LEFT i) k" "desc (RIGHT i) k"
  shows False
proof -
  have "k div 2 ^ (depth k - depth (LEFT i)) = LEFT i"
    using assms(1) by (rule_tac desc_depth(1)[OF _ assms(2)]) simp
  moreover have "k div 2 ^ (depth k - depth (RIGHT i)) = RIGHT i"
    using assms(1) by (rule_tac desc_depth(1)[OF _ assms(3)]) simp
  ultimately have "LEFT i = RIGHT i" using assms(1) by simp
  then show False by presburger
qed

lemma not_desc_LEFT_self: "1 \<le> i \<Longrightarrow> \<not> desc (LEFT i) i"
proof
  assume i: "1 \<le> i" "desc (LEFT i) i"
  have "LEFT i \<le> i" using i(1) by (rule_tac desc_depth(3)[OF _ i(2)]) simp
  with i show False by linarith
qed

lemma not_desc_RIGHT_self: "1 \<le> i \<Longrightarrow> \<not> desc (RIGHT i) i"
proof
  assume i: "1 \<le> i" "desc (RIGHT i) i"
  have "RIGHT i \<le> i" using i(1) by (rule_tac desc_depth(3)[OF _ i(2)]) simp
  with i show False by linarith
qed

lemma not_desc_LEFT_RIGHT: "1 \<le> i \<Longrightarrow> \<not> desc (LEFT i) (RIGHT i)"
  using desc_children_disjoint[of i "RIGHT i"] by auto

lemma not_desc_RIGHT_LEFT: "1 \<le> i \<Longrightarrow> \<not> desc (RIGHT i) (LEFT i)"
  using desc_children_disjoint[of i "LEFT i"] by auto

lemmas not_desc = not_desc_LEFT_self not_desc_RIGHT_self not_desc_LEFT_RIGHT not_desc_RIGHT_LEFT

text \<open>Two nodes with a common descendant lie on one path.\<close>

lemma desc_comparable:
  assumes "1 \<le> i" "1 \<le> j" "desc i k" "desc j k"
  shows "desc i j \<or> desc j i"
proof -
  have i: "k div 2 ^ (depth k - depth i) = i" "depth i \<le> depth k"
    and j: "k div 2 ^ (depth k - depth j) = j" "depth j \<le> depth k"
    using assms desc_depth by blast+
  show ?thesis
  proof (cases "depth i \<le> depth j")
    case True
    then have "depth k - depth i = (depth k - depth j) + (depth j - depth i)" using j by simp
    then have "j div 2 ^ (depth j - depth i) = i"
      using i j by (metis power_add zdiv_zmult2_eq zero_le_numeral zero_le_power)
    then show ?thesis unfolding desc_def by blast
  next
    case False
    then have "depth k - depth j = (depth k - depth i) + (depth i - depth j)" using i by simp
    then have "i div 2 ^ (depth i - depth j) = j"
      using i j by (metis power_add zdiv_zmult2_eq zero_le_numeral zero_le_power)
    then show ?thesis unfolding desc_def by blast
  qed
qed

section \<open>Blocks\<close>

text \<open>The pages below a node are the leaves \<open>i * 2 ^ (11 - depth i)\<close> and the following ones.\<close>

definition node_pages :: "int \<Rightarrow> nat" where
  "node_pages i = 2 ^ (11 - depth i)"

definition first_leaf :: "int \<Rightarrow> int" where
  "first_leaf i = i * 2 ^ (11 - depth i)"

definition node_base :: "int \<Rightarrow> addr" where
  "node_base i = base + nat (first_leaf i - 2048) * PAGE_SIZE"

definition block :: "int \<Rightarrow> addr set" where
  "block i = {node_base i ..< node_base i + node_pages i * PAGE_SIZE}"

lemma first_leaf_bounds:
  assumes "in_heap i"
  shows "2048 \<le> first_leaf i" "first_leaf i + int (node_pages i) \<le> 4096"
proof -
  have i: "2 ^ depth i \<le> i" "i + 1 \<le> 2 ^ Suc (depth i)" and d: "depth i \<le> 11"
    using depth_bounds[of i] assms by (simp_all add: in_heap_def depth_le_11)
  have "(2048::int) = 2 ^ depth i * 2 ^ (11 - depth i)"
    using d by (simp flip: power_add)
  also have "\<dots> \<le> i * 2 ^ (11 - depth i)" using i(1) by (rule mult_right_mono) simp
  finally show "2048 \<le> first_leaf i" by (simp add: first_leaf_def)
  have "(i + 1) * 2 ^ (11 - depth i) \<le> 2 ^ Suc (depth i) * 2 ^ (11 - depth i)"
    using i(2) by (rule mult_right_mono) simp
  also have "\<dots> = (4096::int)" using d by (simp flip: power_add)
  finally show "first_leaf i + int (node_pages i) \<le> 4096"
    by (simp add: first_leaf_def node_pages_def algebra_simps)
qed

lemma node_base_bounds:
  assumes "in_heap i"
  shows "base \<le> node_base i"
    "node_base i + node_pages i * PAGE_SIZE \<le> base + PAGE_QUANTITY * PAGE_SIZE"
proof -
  show "base \<le> node_base i" by (simp add: node_base_def)
  have "nat (first_leaf i - 2048) + node_pages i \<le> 2048"
    using first_leaf_bounds[OF assms] by linarith
  then show "node_base i + node_pages i * PAGE_SIZE \<le> base + PAGE_QUANTITY * PAGE_SIZE"
    by (simp add: node_base_def)
qed

lemma node_base_nonzero [simp]: "node_base i \<noteq> 0"
  by (simp add: node_base_def)

lemma node_base_1 [simp]: "node_base 1 = base"
  by (simp add: node_base_def first_leaf_def)

lemma first_leaf_LEFT: "1 \<le> i \<Longrightarrow> depth i < 11 \<Longrightarrow> first_leaf (LEFT i) = first_leaf i"
  by (simp add: first_leaf_def Suc_diff_Suc flip: power_Suc)

lemma first_leaf_RIGHT:
  "1 \<le> i \<Longrightarrow> depth i < 11 \<Longrightarrow> first_leaf (RIGHT i) = first_leaf i + 2 ^ (10 - depth i)"
proof -
  assume a: "1 \<le> i" "depth i < 11"
  then have e: "11 - depth i = Suc (10 - depth i)" by simp
  have "first_leaf (RIGHT i) = RIGHT i * 2 ^ (10 - depth i)" using a by (simp add: first_leaf_def)
  also have "\<dots> = first_leaf i + 2 ^ (10 - depth i)" unfolding first_leaf_def e by (simp add: algebra_simps)
  finally show ?thesis .
qed

lemma node_base_LEFT: "1 \<le> i \<Longrightarrow> depth i < 11 \<Longrightarrow> node_base (LEFT i) = node_base i"
  by (simp add: node_base_def first_leaf_LEFT)

lemma node_base_RIGHT:
  assumes "in_heap i" "depth i < 11"
  shows "node_base (RIGHT i) = PAGE_SIZE * PAGE_QUANTITY div 2 ^ Suc (depth i) + node_base i"
proof -
  have "nat (first_leaf i + 2 ^ (10 - depth i) - 2048) = nat (first_leaf i - 2048) + 2 ^ (10 - depth i)"
  proof -
    have "first_leaf i + 2 ^ (10 - depth i) - 2048 = (first_leaf i - 2048) + int (2 ^ (10 - depth i))" by simp
    moreover have "nat ((first_leaf i - 2048) + int (2 ^ (10 - depth i))) = nat (first_leaf i - 2048) + 2 ^ (10 - depth i)"
      using first_leaf_bounds(1)[OF assms(1)] by (subst nat_add_distrib) (simp_all del: of_nat_power)
    ultimately show ?thesis by metis
  qed
  moreover have "(8388608::nat) div 2 ^ Suc (depth i) = 2 ^ (10 - depth i) * 4096"
  proof -
    have "(8388608::nat) = 2 ^ Suc (depth i) * (2 ^ (10 - depth i) * 4096)"
      using assms(2) by (simp flip: power_add)
    then show ?thesis by (metis nonzero_mult_div_cancel_left power_not_zero zero_neq_numeral)
  qed
  moreover have "first_leaf (RIGHT i) = first_leaf i + 2 ^ (10 - depth i)"
    using assms by (intro first_leaf_RIGHT) (simp_all add: in_heap_def)
  ultimately show ?thesis unfolding node_base_def by simp
qed

lemma log2_loop_eq:
  "2 ^ d \<le> x \<Longrightarrow> x < 2 ^ Suc d \<Longrightarrow> log2_loop x r = r + int d"
proof (induction d arbitrary: x r)
  case 0
  then have "x = 1" by simp
  then show ?case by (subst log2_loop.simps) simp
next
  case (Suc d)
  then have "2 ^ d \<le> x div 2" "x div 2 < 2 ^ Suc d" by simp_all
  moreover from this have "x div 2 \<noteq> 0" by (metis le_zero_eq power_not_zero zero_neq_numeral)
  ultimately show ?case using Suc.IH[of "x div 2" "r + 1"] by (subst log2_loop.simps) simp
qed

lemma log2_eq: "2 ^ d \<le> x \<Longrightarrow> x < 2 ^ Suc d \<Longrightarrow> log2 x = int d + int (x mod 2)"
  by (auto simp: log2_def log2_loop_eq)

lemma log2_depth: "1 \<le> i \<Longrightarrow> log2 (nat i) = int (depth i) + i mod 2"
proof -
  assume i: "1 \<le> i"
  have "2 ^ depth i \<le> nat i" "nat i < 2 ^ Suc (depth i)"
    using depth_bounds[OF i] by (simp_all add: nat_le_iff le_nat_iff nat_less_iff)
  then have "log2 (nat i) = int (depth i) + int (nat i mod 2)" by (rule log2_eq)
  also have "int (nat i mod 2) = i mod 2" using i by (simp add: nat_mod_distrib zmod_int)
  finally show ?thesis .
qed

lemma maxLevels_eq [simp]: "maxLevels = 11"
  unfolding maxLevels_def by (subst log2_eq[of 11]) simp_all

text \<open>Blocks of incomparable nodes are disjoint, and each leaf of a block finds its node.\<close>

lemma leaf_in_block:
  assumes "in_heap i" "desc i k" "depth k = 11"
  shows "first_leaf i \<le> k \<and> k < first_leaf i + int (node_pages i)"
proof -
  have "k div 2 ^ (11 - depth i) = i"
    using assms desc_depth(1)[of i k] by (simp add: in_heap_ge_1)
  then have "k = i * 2 ^ (11 - depth i) + k mod 2 ^ (11 - depth i)"
    using div_mult_mod_eq[of k "2 ^ (11 - depth i)"] by simp
  moreover have "0 \<le> k mod 2 ^ (11 - depth i)" "k mod 2 ^ (11 - depth i) < 2 ^ (11 - depth i)"
    by simp_all
  ultimately show ?thesis unfolding first_leaf_def node_pages_def by (simp, linarith)
qed

lemma block_leaf:
  assumes "in_heap i" "a \<in> block i"
  defines "k \<equiv> 2048 + int ((a - base) div PAGE_SIZE)"
  shows "desc i k" "depth k = 11"
proof -
  let ?p = "(a - base) div PAGE_SIZE" and ?f = "nat (first_leaf i - 2048)"
  have fl: "2048 \<le> first_leaf i" "first_leaf i + int (node_pages i) \<le> 4096"
    using first_leaf_bounds[OF assms(1)] .
  have a: "base + ?f * PAGE_SIZE \<le> a" "a < base + ?f * PAGE_SIZE + node_pages i * PAGE_SIZE"
    using assms(2) by (auto simp: block_def node_base_def)
  then have "?f \<le> ?p" "?p < ?f + node_pages i" by simp_all
  then have "int ?f \<le> int ?p" "int ?p < int ?f + int (node_pages i)" by linarith+
  moreover have "int ?f = first_leaf i - 2048" using fl(1) by simp
  moreover have "int (node_pages i) = 2 ^ (11 - depth i)" by (simp add: node_pages_def)
  ultimately have k: "first_leaf i \<le> k" "k < first_leaf i + 2 ^ (11 - depth i)"
    unfolding k_def by linarith+
  then have "k div 2 ^ (11 - depth i) = i"
    unfolding first_leaf_def by (intro int_div_pos_eq[where r = "k - i * 2 ^ (11 - depth i)"]) auto
  then show "desc i k" unfolding desc_def by blast
  have "2 ^ 11 \<le> k" "k < 2 ^ Suc 11" using k fl by (simp_all add: node_pages_def)
  then show "depth k = 11" by (rule depth_unique)
qed

lemma blocks_disjoint:
  assumes "in_heap i" "in_heap j" "\<not> desc i j" "\<not> desc j i"
  shows "block i \<inter> block j = {}"
proof (rule ccontr)
  assume "block i \<inter> block j \<noteq> {}"
  then obtain a where "a \<in> block i" "a \<in> block j" by auto
  then have "desc i (2048 + int ((a - base) div PAGE_SIZE))" "desc j (2048 + int ((a - base) div PAGE_SIZE))"
    using block_leaf(1) assms(1,2) by blast+
  then show False using desc_comparable assms by (meson in_heap_ge_1)
qed

lemma block_subset:
  assumes "in_heap i" "in_heap j" "desc i j"
  shows "block j \<subseteq> block i"
proof
  fix a assume a: "a \<in> block j"
  let ?k = "2048 + int ((a - base) div PAGE_SIZE)"
  have "desc j ?k" "depth ?k = 11" using block_leaf[OF assms(2) a] .
  then have "desc i ?k" using assms(3) desc_trans by blast
  then have "first_leaf i \<le> ?k \<and> ?k < first_leaf i + int (node_pages i)"
    using leaf_in_block[OF assms(1)] \<open>depth ?k = 11\<close> by blast
  moreover have "base \<le> a" using a by (auto simp: block_def node_base_def)
  moreover have "2048 \<le> first_leaf i" using first_leaf_bounds(1)[OF assms(1)] .
  ultimately show "a \<in> block i"
    by (auto simp: block_def node_base_def)
qed

lemma block_nonempty: "block i \<noteq> {}"
  by (simp add: block_def node_pages_def)

end
