(* ===== verification/BuddyCorrect.thy ===== *)
theory BuddyCorrect
  imports BuddyTree
begin

text \<open>
  Correctness of the page allocator: the invariant of the two arrays, soundness and completeness of
  the search for a free block, release of a block, and the interface the rest of the kernel
  relies on.
\<close>

section \<open>The invariant\<close>

text \<open>
  \<open>node_ok\<close> is the local condition between a node's mark and its children's; \<open>live\<close> is the set of
  nodes marked \<open>ALLOCATED\<close>, the blocks handed out.
\<close>

definition node_ok :: "(int \<Rightarrow> usage) \<Rightarrow> int \<Rightarrow> bool" where
  "node_ok u k \<longleftrightarrow>
     (if in_heap (RIGHT k) then
        (case u k of
           UNUSED \<Rightarrow> u (LEFT k) = UNUSED \<and> u (RIGHT k) = UNUSED
         | ALLOCATED \<Rightarrow> u (LEFT k) = UNUSED \<and> u (RIGHT k) = UNUSED
         | FULLY_USED \<Rightarrow> u (LEFT k) \<in> {FULLY_USED, ALLOCATED} \<and> u (RIGHT k) \<in> {FULLY_USED, ALLOCATED}
         | HALF_USED \<Rightarrow> u (LEFT k) \<noteq> UNUSED \<or> u (RIGHT k) \<noteq> UNUSED)
      else u k \<in> {UNUSED, ALLOCATED})"

definition bases_ok :: "buddyHeap_t \<Rightarrow> bool" where
  "bases_ok h \<longleftrightarrow> (\<forall>k. in_heap k \<longrightarrow>
     (base_at h k = NULL \<or> base_at h k = node_base k) \<and>
     (usage_at h k = ALLOCATED \<longrightarrow> base_at h k = node_base k))"

definition heap_inv :: "buddyHeap_t \<Rightarrow> bool" where
  "heap_inv h \<longleftrightarrow> (\<forall>k. in_heap k \<longrightarrow> node_ok (usage_at h) k) \<and> bases_ok h \<and> base_at h 1 = base"

definition live :: "buddyHeap_t \<Rightarrow> int set" where
  "live h = {k. in_heap k \<and> usage_at h k = ALLOCATED}"

lemma node_ok_quiet:
  "node_ok u k \<Longrightarrow> in_heap (RIGHT k) \<Longrightarrow> u k = UNUSED \<or> u k = ALLOCATED \<Longrightarrow>
   u (LEFT k) = UNUSED \<and> u (RIGHT k) = UNUSED"
  by (auto simp: node_ok_def)

lemma node_ok_cong:
  "u k = v k \<Longrightarrow> u (LEFT k) = v (LEFT k) \<Longrightarrow> u (RIGHT k) = v (RIGHT k) \<Longrightarrow> node_ok u k = node_ok v k"
  by (simp only: node_ok_def)

lemma half_less: "1 \<le> (k::int) \<Longrightarrow> k div 2 < k"
  by presburger

lemma in_heap_LEFT_RIGHT: "in_heap (LEFT i) \<longleftrightarrow> in_heap (RIGHT i) \<and> 1 \<le> i"
  by (auto simp: in_heap_def)

lemma in_heap_parent: "in_heap k \<Longrightarrow> k \<noteq> 1 \<Longrightarrow> in_heap (k div 2) \<and> in_heap (RIGHT (k div 2))"
  by (auto simp: in_heap_def)

text \<open>Below an unused node, and strictly below an allocated one, everything is unused.\<close>

lemma quiet_below:
  assumes "\<forall>k. desc i k \<and> in_heap k \<longrightarrow> node_ok u k" "1 \<le> i"
    "u i = UNUSED \<or> u i = ALLOCATED" "desc i k" "in_heap k" "k \<noteq> i"
  shows "u k = UNUSED"
  using assms(4-6)
proof (induction "nat k" arbitrary: k rule: less_induct)
  case less
  let ?p = "k div 2"
  have p: "desc i ?p" using less.prems desc_step by blast
  have k1: "k \<noteq> 1" using less.prems assms(2) desc_depth(3)[OF assms(2) p] by auto
  then have hp: "in_heap ?p" "in_heap (RIGHT ?p)" using less.prems(2) in_heap_parent by blast+
  have "u ?p = UNUSED \<or> u ?p = ALLOCATED"
  proof (cases "?p = i")
    case True then show ?thesis using assms(3) by simp
  next
    case False
    have "nat ?p < nat k" using less.prems(2) half_less[of k] by (simp add: in_heap_def)
    then show ?thesis using less.hyps p hp(1) False by blast
  qed
  then have "u (LEFT ?p) = UNUSED \<and> u (RIGHT ?p) = UNUSED"
    using assms(1) p hp node_ok_quiet by blast
  moreover have "k = LEFT ?p \<or> k = RIGHT ?p" by presburger
  ultimately show ?case by metis
qed

text \<open>Below a full node an unused node lies under an allocated one.\<close>

lemma full_below:
  assumes "\<forall>k. desc i k \<and> in_heap k \<longrightarrow> node_ok u k" "1 \<le> i" "u i = FULLY_USED"
    "desc i k" "in_heap k"
  shows "u k = FULLY_USED \<or> u k = ALLOCATED \<or> (\<exists>a. desc i a \<and> desc a k \<and> in_heap a \<and> u a = ALLOCATED)"
  using assms(4,5)
proof (induction "nat k" arbitrary: k rule: less_induct)
  case less
  show ?case
  proof (cases "k = i")
    case True then show ?thesis using assms(3) by simp
  next
    case False
    let ?p = "k div 2"
    have p: "desc i ?p" using less.prems False desc_step by blast
    have "k \<noteq> 1" using less.prems assms(2) desc_depth(3)[OF assms(2) p] by auto
    then have hp: "in_heap ?p" "in_heap (RIGHT ?p)" using less.prems(2) in_heap_parent by blast+
    have pk: "desc ?p k" using desc_step by blast
    have "nat ?p < nat k" using less.prems(2) half_less[of k] by (simp add: in_heap_def)
    from less.hyps[OF this p hp(1)] consider "u ?p = FULLY_USED" | "u ?p = ALLOCATED"
      | a where "desc i a" "desc a ?p" "in_heap a" "u a = ALLOCATED" by blast
    then show ?thesis
    proof cases
      case 1
      then have "u (LEFT ?p) \<in> {FULLY_USED, ALLOCATED} \<and> u (RIGHT ?p) \<in> {FULLY_USED, ALLOCATED}"
        using assms(1) p hp by (auto simp: node_ok_def)
      moreover have "k = LEFT ?p \<or> k = RIGHT ?p" by presburger
      ultimately show ?thesis by (metis insertE singletonD)
    next
      case 2 then show ?thesis using p pk hp by blast
    next
      case 3 then show ?thesis using pk desc_trans by blast
    qed
  qed
qed

lemma heap_inv_node_ok: "heap_inv h \<Longrightarrow> in_heap k \<Longrightarrow> node_ok (usage_at h) k"
  by (simp add: heap_inv_def)

lemma live_not_nested:
  assumes "heap_inv h" "i \<in> live h" "j \<in> live h" "desc i j"
  shows "i = j"
proof (rule ccontr)
  assume "i \<noteq> j"
  then have "usage_at h j = UNUSED"
    using assms by (intro quiet_below[of i]) (auto simp: live_def heap_inv_def in_heap_ge_1)
  then show False using assms(3) by (simp add: live_def)
qed

lemma live_disjoint:
  "heap_inv h \<Longrightarrow> i \<in> live h \<Longrightarrow> j \<in> live h \<Longrightarrow> i \<noteq> j \<Longrightarrow> block i \<inter> block j = {}"
  using live_not_nested by (intro blocks_disjoint) (auto simp: live_def)

lemma heap_inv_init: "heap_inv initializeHeap" and live_init: "live initializeHeap = {}"
  by (auto simp: heap_inv_def initializeHeap_def node_ok_def bases_ok_def usage_at_def base_at_def live_def)

section \<open>Searching for a free block\<close>

text \<open>\<open>setMemoryBlockDivisionBases\<close> gives both children their addresses.\<close>

lemma setBases_ok:
  assumes "bases_ok h" "in_heap i" "depth i < 11" "base_at h i = node_base i"
  obtains h' where "setMemoryBlockDivisionBases i h = Some h'" "bases_ok h'"
    "\<And>k. usage_at h' k = usage_at h k"
    "base_at h' (LEFT i) = node_base (LEFT i)" "base_at h' (RIGHT i) = node_base (RIGHT i)"
    "\<And>k. base_at h k \<noteq> 0 \<Longrightarrow> in_heap k \<Longrightarrow> base_at h' k = base_at h k"
proof -
  have c: "in_heap (LEFT i)" "in_heap (RIGHT i)" and i: "1 \<le> i"
    using assms(2,3) in_heap_children by (auto simp: in_heap_ge_1)
  have nb: "node_base (LEFT i) = node_base i"
    "node_base (RIGHT i) = PAGE_SIZE * PAGE_QUANTITY div 2 ^ Suc (depth i) + node_base i"
    using assms(2,3) i node_base_LEFT node_base_RIGHT by blast+
  have ok: "base_at h k = NULL \<or> base_at h k = node_base k"
    "usage_at h k = ALLOCATED \<Longrightarrow> base_at h k = node_base k" if "in_heap k" for k
    using assms(1) that by (auto simp: bases_ok_def)
  show ?thesis
  proof (cases "base_at h (LEFT i) = NULL \<or> base_at h (RIGHT i) = NULL")
    case False
    then have "setMemoryBlockDivisionBases i h = Some h"
      unfolding setMemoryBlockDivisionBases_def using assms(2) c by (simp only: not_True_eq_False simp_thms if_False)
    moreover have "base_at h (LEFT i) = node_base (LEFT i)" "base_at h (RIGHT i) = node_base (RIGHT i)"
      using ok(1)[OF c(1)] ok(1)[OF c(2)] False by simp_all
    ultimately show ?thesis using assms(1) by (intro that[of h]) simp_all
  next
    case True
    have dv: "(if i mod 2 \<noteq> 0 then log2 (nat i) + 1 - 1 else log2 (nat i) + 1) = int (Suc (depth i))"
    proof -
      have "i mod 2 = 0 \<or> i mod 2 = 1" by presburger
      moreover have "log2 (nat i) = int (depth i) + i mod 2" using i by (rule log2_depth)
      ultimately show ?thesis by auto
    qed
    let ?h = "set_base (RIGHT i) (node_base (RIGHT i)) (set_base (LEFT i) (node_base (LEFT i)) h)"
    have s: "setMemoryBlockDivisionBases i h = Some ?h"
      unfolding setMemoryBlockDivisionBases_def Let_def dv nb nat_int assms(4)
      using True assms(2) c by (simp only: not_True_eq_False simp_thms if_False if_True base_at_set_base)
    have "bases_ok ?h" using ok by (auto simp: bases_ok_def)
    moreover have "base_at ?h k = base_at h k" if "base_at h k \<noteq> 0" "in_heap k" for k
      using ok(1)[OF that(2)] that(1) by auto
    moreover have "LEFT i \<noteq> RIGHT i" by presburger
    ultimately show ?thesis by (intro that[OF s]) auto
  qed
qed

text \<open>What one call of \<open>getPagesRecursive\<close> on node \<open>i\<close>, \<open>n\<close> levels above the size asked for, does.\<close>

definition nodes_ok :: "int \<Rightarrow> buddyHeap_t \<Rightarrow> bool" where
  "nodes_ok i h \<longleftrightarrow> (\<forall>k. desc i k \<and> in_heap k \<longrightarrow> node_ok (usage_at h) k)"

definition covered :: "buddyHeap_t \<Rightarrow> int \<Rightarrow> int \<Rightarrow> bool" where
  "covered h i j \<longleftrightarrow> usage_at h j \<noteq> UNUSED \<or>
     (\<exists>a. desc i a \<and> desc a j \<and> in_heap a \<and> usage_at h a = ALLOCATED)"

definition alloc_failed :: "int \<Rightarrow> nat \<Rightarrow> buddyHeap_t \<Rightarrow> addr \<Rightarrow> buddyHeap_t \<Rightarrow> bool" where
  "alloc_failed i n h r h' \<longleftrightarrow> r = NULL \<and> (\<forall>k. usage_at h' k = usage_at h k) \<and>
     (\<forall>j. desc i j \<and> depth j = depth i + n \<longrightarrow> covered h i j)"

definition alloc_done :: "int \<Rightarrow> nat \<Rightarrow> buddyHeap_t \<Rightarrow> addr \<Rightarrow> buddyHeap_t \<Rightarrow> int \<Rightarrow> bool" where
  "alloc_done i n h r h' j \<longleftrightarrow> desc i j \<and> depth j = depth i + n \<and> r = node_base j \<and>
     usage_at h j = UNUSED \<and> usage_at h' j = ALLOCATED \<and> usage_at h' i \<noteq> UNUSED \<and>
     (usage_at h i = UNUSED \<or> usage_at h i = HALF_USED) \<and>
     (\<forall>k. k \<noteq> j \<longrightarrow> (usage_at h' k = ALLOCATED \<longleftrightarrow> usage_at h k = ALLOCATED)) \<and>
     (\<forall>k. \<not> desc i k \<longrightarrow> usage_at h' k = usage_at h k) \<and> nodes_ok i h'"

definition alloc_post :: "int \<Rightarrow> nat \<Rightarrow> buddyHeap_t \<Rightarrow> addr \<Rightarrow> buddyHeap_t \<Rightarrow> bool" where
  "alloc_post i n h r h' \<longleftrightarrow> bases_ok h' \<and>
     (\<forall>k. base_at h k \<noteq> 0 \<and> in_heap k \<longrightarrow> base_at h' k = base_at h k) \<and>
     (alloc_failed i n h r h' \<or> (\<exists>j. alloc_done i n h r h' j))"

lemma nodes_ok_LEFT: "nodes_ok i h \<Longrightarrow> nodes_ok (LEFT i) h"
  and nodes_ok_RIGHT: "nodes_ok i h \<Longrightarrow> nodes_ok (RIGHT i) h"
  by (auto simp: nodes_ok_def dest: desc_LEFT desc_RIGHT)

lemma nodes_ok_cong: "(\<And>k. usage_at h k = usage_at h' k) \<Longrightarrow> nodes_ok i h \<longleftrightarrow> nodes_ok i h'"
  unfolding nodes_ok_def by (metis ext)

text \<open>An unused node is never passed over: some node of every depth below it is unused and uncovered.\<close>

lemma unused_not_failed:
  assumes "nodes_ok i h" "in_heap i" "depth i + n \<le> 11" "usage_at h i = UNUSED"
  shows "\<not> alloc_failed i n h r h'"
proof
  assume f: "alloc_failed i n h r h'"
  let ?j = "i * 2 ^ n"
  have i: "1 \<le> i" using assms(2) by (rule in_heap_ge_1)
  have dj: "?j div 2 ^ n = i" by simp
  then have d: "desc i ?j" unfolding desc_def by blast
  have dep: "depth ?j = depth i + n" "i \<le> ?j" using div_pow_depth[OF i dj] by simp_all
  then have "1 \<le> ?j" "depth ?j \<le> 11" using i assms(3) by linarith+
  then have hj: "in_heap ?j" using in_heap_iff_depth by blast
  have q: "usage_at h k = UNUSED" if "desc i k" "in_heap k" for k
    using quiet_below[of i "usage_at h" k] assms(1,4) i that by (auto simp: nodes_ok_def)
  have "covered h i ?j" using f d dep by (simp add: alloc_failed_def)
  then show False using q d hj by (auto simp: covered_def)
qed

lemma covered_child:
  "covered h c j \<Longrightarrow> c div 2 = i \<Longrightarrow> covered h i j"
  unfolding covered_def using desc_child by blast

text \<open>The two ways a call on node \<open>i\<close> ends once the left or the right child has been allocated.\<close>

lemma alloc_done_parent:
  assumes ok: "nodes_ok i h" and i: "in_heap i" "in_heap (RIGHT i)"
    and u: "usage_at h i = UNUSED \<or> usage_at h i = HALF_USED"
    and c: "c = LEFT i \<or> c = RIGHT i"
    and d: "alloc_done c n h r h1 j"
    and h2: "\<And>k. usage_at h2 k = (if k = i then v else usage_at h1 k)"
    and v: "v = HALF_USED \<or> (v = FULLY_USED \<and> usage_at h1 (LEFT i) \<in> {FULLY_USED, ALLOCATED} \<and>
              usage_at h1 (RIGHT i) \<in> {FULLY_USED, ALLOCATED})"
  shows "alloc_done i (Suc n) h r h2 j"
proof -
  have i1: "1 \<le> i" using i(1) by (rule in_heap_ge_1)
  have cdiv: "c div 2 = i" using c by auto
  have dc: "desc i k" if "desc c k" for k using that cdiv by (rule desc_child)
  have ni: "\<not> desc c i" using c not_desc_LEFT_self[OF i1] not_desc_RIGHT_self[OF i1] by blast
  have dep: "depth c = Suc (depth i)" using c i1 by auto
  note D = d[unfolded alloc_done_def]
  have ji: "j \<noteq> i" using D ni by blast
  have "node_ok (usage_at h2) k" if k: "desc i k" "in_heap k" for k
  proof (cases "k = i")
    case True
    have "usage_at h1 c \<noteq> UNUSED" using D by blast
    then show ?thesis using True v c h2 i(2) i1 by (auto simp: node_ok_def)
  next
    case False
    have k1: "1 \<le> k" using k(2) by (rule in_heap_ge_1)
    have below: "LEFT k \<noteq> i" "RIGHT k \<noteq> i"
      using desc_depth(3)[OF i1 k(1)] k1 by auto
    have "node_ok (usage_at h1) k"
    proof (cases "desc c k")
      case True then show ?thesis using D k(2) by (auto simp: nodes_ok_def)
    next
      case out: False
      have "\<not> desc c (LEFT k)" "\<not> desc c (RIGHT k)"
        using out False c desc_step[of c "LEFT k"] desc_step[of c "RIGHT k"] cdiv by auto
      then have "node_ok (usage_at h1) k = node_ok (usage_at h) k"
        using D out by (intro node_ok_cong) auto
      then show ?thesis using ok k by (auto simp: nodes_ok_def)
    qed
    then show ?thesis using below False h2 node_ok_cong[of "usage_at h2" k "usage_at h1"] by simp
  qed
  moreover have "\<forall>k. k \<noteq> j \<longrightarrow> (usage_at h2 k = ALLOCATED \<longleftrightarrow> usage_at h k = ALLOCATED)"
    using D h2 u v ni by (metis usage.distinct(3,5,9,11))
  moreover have "\<forall>k. \<not> desc i k \<longrightarrow> usage_at h2 k = usage_at h k"
    using D h2 dc desc_refl by metis
  ultimately show ?thesis using D u v h2 ji dep dc
    by (auto simp: alloc_done_def nodes_ok_def)
qed

lemma alloc_done_same:
  assumes "\<And>k. usage_at h k = usage_at g k" "alloc_done i n h r h' j"
  shows "alloc_done i n g r h' j"
  using assms by (simp add: alloc_done_def)

lemma alloc_failed_trans:
  assumes "1 \<le> i" "\<And>k. usage_at h0 k = usage_at h k"
    "alloc_failed (LEFT i) n h0 l h1" "alloc_failed (RIGHT i) n h1 r h2"
  shows "alloc_failed i (Suc n) h r h2"
proof -
  have "covered h i j" if j: "desc i j" "depth j = depth i + Suc n" for j
  proof -
    from j(1) have "desc (LEFT i) j \<or> desc (RIGHT i) j"
    proof (cases rule: desc_cases)
      case 1 then show ?thesis using j(2) by simp
    qed auto
    moreover have "covered h (LEFT i) j" if "desc (LEFT i) j"
      using assms that j(2) by (simp add: alloc_failed_def covered_def)
    moreover have "covered h (RIGHT i) j" if "desc (RIGHT i) j"
      using assms that j(2) by (simp add: alloc_failed_def covered_def)
    ultimately show ?thesis using covered_child[of h "LEFT i" j i] covered_child[of h "RIGHT i" j i] by auto
  qed
  then show ?thesis using assms by (simp add: alloc_failed_def)
qed

lemma covered_full:
  assumes "nodes_ok i h" "in_heap i" "usage_at h i = FULLY_USED \<or> usage_at h i = ALLOCATED" "desc i j" "in_heap j"
  shows "covered h i j"
proof (cases "usage_at h i = ALLOCATED")
  case True then show ?thesis using assms(2,4) desc_refl unfolding covered_def by blast
next
  case False
  then show ?thesis
    using full_below[of i "usage_at h" j] assms in_heap_ge_1 by (auto simp: covered_def nodes_ok_def)
qed

text \<open>A call on a node that cannot be used, and one that arrives at an unused node of the size asked for.\<close>

lemma alloc_refused:
  assumes "in_heap i" "depth i + n \<le> 11" "nodes_ok i h" "bases_ok h" "usage_at h i = FULLY_USED \<or> usage_at h i = ALLOCATED"
  shows "getPagesRecursive i (int n) h = Some (0, h) \<and> alloc_post i n h 0 h"
proof -
  have i: "1 \<le> i" using assms(1) by (rule in_heap_ge_1)
  have "covered h i j" if "desc i j" "depth j = depth i + n" for j
  proof -
    have "1 \<le> j" using desc_depth(3)[OF i that(1)] i by linarith
    then have "in_heap j" using that(2) assms(2) by (simp add: in_heap_iff_depth)
    then show ?thesis using covered_full assms(1,3,5) that(1) by blast
  qed
  then have "alloc_post i n h 0 h" using assms(4) by (simp add: alloc_post_def alloc_failed_def)
  then show ?thesis using assms(1,5) by (subst getPagesRecursive.simps) auto
qed

lemma alloc_leaf:
  assumes "in_heap i" "nodes_ok i h" "bases_ok h" "base_at h i = node_base i"
  shows "\<exists>r h'. getPagesRecursive i 0 h = Some (r, h') \<and> alloc_post i 0 h r h'"
proof (cases "usage_at h i = UNUSED")
  case False
  have "1 \<le> i" using assms(1) by (rule in_heap_ge_1)
  then have "alloc_failed i 0 h 0 h"
    using desc_same_depth[of i] False by (auto simp: alloc_failed_def covered_def)
  then show ?thesis using assms False
    by (subst getPagesRecursive.simps) (cases "usage_at h i"; simp add: alloc_post_def)
next
  case True
  have i: "1 \<le> i" using assms(1) by (rule in_heap_ge_1)
  let ?h = "set_usage i ALLOCATED h"
  have "node_ok (usage_at ?h) k" if k: "desc i k" "in_heap k" for k
  proof (cases "k = i")
    case True
    then show ?thesis using \<open>usage_at h i = UNUSED\<close> assms(2) k i by (auto simp: node_ok_def nodes_ok_def split: if_splits)
  next
    case False
    have "LEFT k \<noteq> i" "RIGHT k \<noteq> i" using desc_depth(3)[OF i k(1)] i by auto
    then have "node_ok (usage_at ?h) k = node_ok (usage_at h) k" using False by (intro node_ok_cong) auto
    then show ?thesis using assms(2) k by (simp add: nodes_ok_def)
  qed
  then have "alloc_done i 0 h (node_base i) ?h i" using True by (auto simp: alloc_done_def nodes_ok_def)
  moreover have "bases_ok ?h" using assms(3,4) by (auto simp: bases_ok_def)
  ultimately have "alloc_post i 0 h (node_base i) ?h" by (auto simp: alloc_post_def)
  then show ?thesis using True assms by (subst getPagesRecursive.simps) simp
qed

text \<open>What a call on node \<open>i\<close> has to show after its left child was tried: \<open>h0\<close> is \<open>h\<close> with the bases of the children set.\<close>

lemma alloc_left:
  assumes "in_heap i" "in_heap (RIGHT i)" "nodes_ok i h" "usage_at h i = UNUSED \<or> usage_at h i = HALF_USED"
    and h0: "\<And>k. usage_at h0 k = usage_at h k" "\<And>k. base_at h k \<noteq> 0 \<Longrightarrow> in_heap k \<Longrightarrow> base_at h0 k = base_at h k"
    and l: "alloc_post (LEFT i) n h0 l h1" "\<not> alloc_failed (LEFT i) n h0 l h1"
  shows "l \<noteq> 0" "alloc_post i (Suc n) h l (set_usage i HALF_USED h1)"
proof -
  obtain j where j: "alloc_done (LEFT i) n h0 l h1 j" using l by (auto simp: alloc_post_def)
  then show "l \<noteq> 0" by (auto simp: alloc_done_def)
  let ?h = "set_usage i HALF_USED h1"
  have "alloc_done i (Suc n) h l ?h j"
    using assms(1-4) j h0(1)
    by (intro alloc_done_parent[of i h "LEFT i" n l h1 j ?h HALF_USED]) (auto intro: alloc_done_same)
  moreover have "bases_ok ?h" using l(1) assms(4) h0(1) by (auto simp: alloc_post_def bases_ok_def)
  ultimately show "alloc_post i (Suc n) h l ?h" using l(1) h0(2) by (auto simp: alloc_post_def)
qed

lemma alloc_right:
  assumes "in_heap i" "in_heap (RIGHT i)" "nodes_ok i h" "usage_at h i = HALF_USED" "usage_at h (LEFT i) \<noteq> UNUSED"
    and h1: "\<And>k. usage_at h1 k = usage_at h k" and bases: "\<forall>k. base_at h k \<noteq> 0 \<and> in_heap k \<longrightarrow> base_at h2 k = base_at h k"
    and r: "alloc_post (RIGHT i) n h1 r h2" "\<not> alloc_failed (RIGHT i) n h1 r h2"
  defines "full \<equiv> usage_at h2 (RIGHT i) \<noteq> HALF_USED \<and> usage_at h2 (LEFT i) \<noteq> HALF_USED"
  shows "r \<noteq> 0" "alloc_post i (Suc n) h r (if full then set_usage i FULLY_USED h2 else h2)"
proof -
  have i: "1 \<le> i" using assms(1) by (rule in_heap_ge_1)
  obtain j where j: "alloc_done (RIGHT i) n h1 r h2 j" using r by (auto simp: alloc_post_def)
  then show "r \<noteq> 0" by (auto simp: alloc_done_def)
  have ihi: "usage_at h2 i = HALF_USED"
    using j not_desc_RIGHT_self[OF i] h1 assms(4) by (auto simp: alloc_done_def)
  have l2: "usage_at h2 (LEFT i) \<noteq> UNUSED"
    using j not_desc_RIGHT_LEFT[OF i] assms(5) h1 by (auto simp: alloc_done_def)
  have r2: "usage_at h2 (RIGHT i) \<noteq> UNUSED" using j by (auto simp: alloc_done_def)
  let ?h = "if full then set_usage i FULLY_USED h2 else h2"
  have v: "full \<Longrightarrow> usage_at h2 (LEFT i) \<in> {FULLY_USED, ALLOCATED} \<and> usage_at h2 (RIGHT i) \<in> {FULLY_USED, ALLOCATED}"
    using l2 r2 unfolding full_def by (cases "usage_at h2 (LEFT i)"; cases "usage_at h2 (RIGHT i)") auto
  have "alloc_done i (Suc n) h r ?h j"
    using assms(1-4) j h1 ihi v
    by (intro alloc_done_parent[of i h "RIGHT i" n r h2 j ?h "if full then FULLY_USED else HALF_USED"])
      (auto intro: alloc_done_same)
  moreover have "bases_ok ?h" using r(1) by (auto simp: alloc_post_def bases_ok_def)
  ultimately show "alloc_post i (Suc n) h r ?h" using bases by (auto simp: alloc_post_def)
qed

lemma getPagesRecursive_spec:
  assumes "in_heap i" "depth i + n \<le> 11" "nodes_ok i h" "bases_ok h" "base_at h i = node_base i"
  shows "\<exists>r h'. getPagesRecursive i (int n) h = Some (r, h') \<and> alloc_post i n h r h'"
  using assms
proof (induction n arbitrary: i h)
  case 0
  then show ?case using alloc_leaf[of i h] by simp
next
  case (Suc n)
  have i: "1 \<le> i" using Suc.prems(1) by (rule in_heap_ge_1)
  show ?case
  proof (cases "usage_at h i = FULLY_USED \<or> usage_at h i = ALLOCATED")
    case True
    then show ?thesis using alloc_refused[OF Suc.prems(1-4)] by blast
  next
    case False
    then have u: "usage_at h i = UNUSED \<or> usage_at h i = HALF_USED" by (cases "usage_at h i") auto
    have d: "depth i < 11" using Suc.prems(2) by simp
    have hc: "in_heap (LEFT i)" "in_heap (RIGHT i)" using in_heap_children[OF Suc.prems(1) d] by blast+
    have dc: "depth (LEFT i) + n \<le> 11" "depth (RIGHT i) + n \<le> 11" using Suc.prems(2) i by simp_all
    obtain h0 where h0: "setMemoryBlockDivisionBases i h = Some h0" "bases_ok h0"
      "\<And>k. usage_at h0 k = usage_at h k"
      "base_at h0 (LEFT i) = node_base (LEFT i)" "base_at h0 (RIGHT i) = node_base (RIGHT i)"
      "\<And>k. base_at h k \<noteq> 0 \<Longrightarrow> in_heap k \<Longrightarrow> base_at h0 k = base_at h k"
      using setBases_ok[OF Suc.prems(4,1) d Suc.prems(5)] by metis
    have ok0: "nodes_ok i h0" using nodes_ok_cong[OF h0(3)] Suc.prems(3) by blast
    obtain l h1 where l: "getPagesRecursive (LEFT i) (int n) h0 = Some (l, h1)" "alloc_post (LEFT i) n h0 l h1"
      using Suc.IH[OF hc(1) dc(1) nodes_ok_LEFT[OF ok0] h0(2,4)] by blast
    note unfold = getPagesRecursive.simps[of i "int (Suc n)" h]
    show ?thesis
    proof (cases "alloc_failed (LEFT i) n h0 l h1")
      case False
      then show ?thesis
        using alloc_left[OF Suc.prems(1) hc(2) Suc.prems(3) u h0(3,6) l(2)] unfold u Suc.prems(1) h0(1) l(1) by auto
    next
      case lf: True
      then have h1: "\<And>k. usage_at h1 k = usage_at h0 k" "l = 0" by (auto simp: alloc_failed_def)
      have lu: "usage_at h (LEFT i) \<noteq> UNUSED"
        using unused_not_failed[OF nodes_ok_LEFT[OF ok0] hc(1) dc(1)] lf h0(3) by metis
      then have uh: "usage_at h i = HALF_USED"
        using u node_ok_quiet[of "usage_at h" i] Suc.prems(1,3) hc(2) by (auto simp: nodes_ok_def)
      have ok1: "nodes_ok i h1" using nodes_ok_cong[OF h1(1)] ok0 by blast
      have "bases_ok h1" "\<forall>k. base_at h0 k \<noteq> 0 \<and> in_heap k \<longrightarrow> base_at h1 k = base_at h0 k"
        using l(2) unfolding alloc_post_def by blast+
      moreover have "base_at h0 (RIGHT i) \<noteq> 0" using h0(5) by simp
      ultimately have "bases_ok h1" "base_at h1 (RIGHT i) = node_base (RIGHT i)"
        using h0(5) hc(2) by metis+
      then obtain r h2 where r: "getPagesRecursive (RIGHT i) (int n) h1 = Some (r, h2)" "alloc_post (RIGHT i) n h1 r h2"
        using Suc.IH[OF hc(2) dc(2) nodes_ok_RIGHT[OF ok1]] by blast
      have bases: "\<forall>k. base_at h k \<noteq> 0 \<and> in_heap k \<longrightarrow> base_at h2 k = base_at h k"
        using h0(6) l(2) r(2) by (simp add: alloc_post_def)
      show ?thesis
      proof (cases "alloc_failed (RIGHT i) n h1 r h2")
        case True
        then have "alloc_failed i (Suc n) h r h2" using alloc_failed_trans[OF i h0(3) lf] by blast
        then have "alloc_post i (Suc n) h r h2" using r(2) bases by (simp add: alloc_post_def)
        moreover have "r = 0" using True by (simp add: alloc_failed_def)
        ultimately show ?thesis using unfold u Suc.prems(1) h0(1) l(1) h1(2) r(1) by auto
      next
        case False
        have hh: "\<And>k. usage_at h1 k = usage_at h k" using h1(1) h0(3) by simp
        show ?thesis
          using alloc_right[OF Suc.prems(1) hc(2) Suc.prems(3) uh lu hh bases r(2) False] unfold u Suc.prems(1) h0(1) l(1) h1(2) r(1)
          by auto
      qed
    qed
  qed
qed

section \<open>Allocation\<close>

text \<open>The number of levels \<open>getPages\<close> descends, and the size of the block it hands out.\<close>

definition levels_of :: "int \<Rightarrow> nat" where
  "levels_of quantity = (if quantity = 1 then 11 else nat (11 - log2 (nat quantity)))"

lemma log2_range: "1 < q \<Longrightarrow> q \<le> 2048 \<Longrightarrow> 0 \<le> log2 (nat q) \<and> log2 (nat q) \<le> 11"
proof -
  assume q: "1 < q" "q \<le> 2048"
  have d: "depth q \<le> 11" using q by (intro depth_le_11) (simp add: in_heap_def)
  have l: "log2 (nat q) = int (depth q) + q mod 2" using q by (simp add: log2_depth)
  have "q mod 2 = 0 \<or> q mod 2 = 1" by presburger
  moreover have "depth q \<le> 10" if "q mod 2 = 1"
  proof (rule ccontr)
    assume "\<not> depth q \<le> 10"
    with d have "depth q = 11" by simp
    with depth_bounds[of q] q have "q = 2048" by simp
    with that show False by simp
  qed
  ultimately show ?thesis using l d by auto
qed

lemma getPages_eq:
  assumes "0 < q" "q \<le> 2048"
  shows "getPages q h = getPagesRecursive 1 (int (levels_of q)) h" "levels_of q \<le> 11"
  using log2_range[of q] assms by (auto simp: getPages_def levels_of_def Let_def)

lemma desc_1: "in_heap k \<Longrightarrow> desc 1 k"
proof (induction "nat k" arbitrary: k rule: less_induct)
  case less
  show ?case
  proof (cases "k = 1")
    case False
    then have "in_heap (k div 2)" "nat (k div 2) < nat k"
      using less.prems half_less[of k] by (auto simp: in_heap_def)
    then show ?thesis using less.hyps desc_step by blast
  qed simp
qed

lemma heap_inv_iff: "heap_inv h \<longleftrightarrow> nodes_ok 1 h \<and> bases_ok h \<and> base_at h 1 = base"
  using desc_1 by (auto simp: heap_inv_def nodes_ok_def)

text \<open>Soundness: the block handed out is a whole unused block, and the invariant is kept.\<close>

lemma getPages_sound:
  assumes "heap_inv h" "0 < q" "q \<le> 2048"
  obtains r h' where "getPages q h = Some (r, h')" "heap_inv h'"
    "(r = NULL \<and> live h' = live h \<and> alloc_failed 1 (levels_of q) h r h') \<or>
     (\<exists>k. r = node_base k \<and> k \<notin> live h \<and> live h' = insert k (live h) \<and> depth k = levels_of q)"
proof -
  note H = assms(1)[unfolded heap_inv_iff]
  have "in_heap 1" by (simp add: in_heap_def)
  moreover have "base_at h 1 = node_base 1" using H by simp
  ultimately obtain r h' where r: "getPages q h = Some (r, h')" "alloc_post 1 (levels_of q) h r h'"
    using getPagesRecursive_spec[of 1 "levels_of q" h] getPages_eq[OF assms(2,3)] H by auto
  have b: "bases_ok h'" "base_at h' 1 = base"
    using r(2) H \<open>in_heap 1\<close> by (auto simp: alloc_post_def)
  from r(2) consider "alloc_failed 1 (levels_of q) h r h'" | j where "alloc_done 1 (levels_of q) h r h' j"
    by (auto simp: alloc_post_def)
  then show ?thesis
  proof cases
    case 1
    then have u: "\<And>k. usage_at h' k = usage_at h k" by (simp add: alloc_failed_def)
    then have "heap_inv h'" using H b nodes_ok_cong[of h' h 1] by (simp add: heap_inv_iff)
    moreover have "live h' = live h" using u by (simp add: live_def)
    moreover have "r = 0" using 1 by (simp add: alloc_failed_def)
    ultimately show ?thesis using that r(1) 1 by blast
  next
    case (2 j)
    note D = this[unfolded alloc_done_def]
    have "1 \<le> j" using D desc_depth(3)[of 1 j] by simp
    then have j: "in_heap j" using D getPages_eq(2)[OF assms(2,3)] by (simp add: in_heap_iff_depth)
    have "heap_inv h'" using D b by (simp add: heap_inv_iff)
    moreover have "live h' = insert j (live h)" using D j by (auto simp: live_def)
    moreover have "j \<notin> live h" using D by (simp add: live_def)
    ultimately show ?thesis using that r(1) D by auto
  qed
qed

text \<open>
  Completeness: when the search fails, every block of the size asked for overlaps a live one.  A
  node whose mark says it is used has a live block somewhere below or above it.
\<close>

lemma used_has_live:
  assumes "heap_inv h" "in_heap k" "usage_at h k \<noteq> UNUSED"
  shows "\<exists>a \<in> live h. desc k a"
  using assms(2,3)
proof (induction "nat (4096 - k)" arbitrary: k rule: less_induct)
  case less
  have ok: "node_ok (usage_at h) k" using assms(1) less.prems(1) by (rule heap_inv_node_ok)
  show ?case
  proof (cases "usage_at h k = ALLOCATED")
    case True then show ?thesis using less.prems(1) desc_refl by (auto simp: live_def)
  next
    case False
    then have hr: "in_heap (RIGHT k)" using ok less.prems(2) by (auto simp: node_ok_def split: if_splits)
    have "usage_at h (LEFT k) \<noteq> UNUSED \<or> usage_at h (RIGHT k) \<noteq> UNUSED"
      using ok hr False less.prems(2) by (cases "usage_at h k") (auto simp: node_ok_def)
    then obtain c where c: "c = LEFT k \<or> c = RIGHT k" "usage_at h c \<noteq> UNUSED" by blast
    have k1: "1 \<le> k" using less.prems(1) by (rule in_heap_ge_1)
    have "in_heap c" using c(1) hr k1 by (auto simp: in_heap_def)
    moreover have "nat (4096 - c) < nat (4096 - k)" using c(1) k1 \<open>in_heap c\<close> by (auto simp: in_heap_def)
    ultimately obtain a where "a \<in> live h" "desc c a" using less.hyps c(2) by blast
    then show ?thesis using c(1) desc_LEFT desc_RIGHT by blast
  qed
qed

lemma getPages_complete:
  assumes "heap_inv h" "0 < q" "q \<le> 2048" "getPages q h = Some (NULL, h')" "in_heap k" "depth k = levels_of q"
  shows "\<exists>a \<in> live h. block a \<inter> block k \<noteq> {}"
proof -
  obtain r h'' where "getPages q h = Some (r, h'')"
    "(r = NULL \<and> live h'' = live h \<and> alloc_failed 1 (levels_of q) h r h'') \<or>
     (\<exists>k. r = node_base k \<and> k \<notin> live h \<and> live h'' = insert k (live h) \<and> depth k = levels_of q)"
    using getPages_sound[OF assms(1-3)] by metis
  then have "alloc_failed 1 (levels_of q) h NULL h'" using assms(4) by auto
  then have "covered h 1 k" using desc_1[OF assms(5)] assms(6) by (simp add: alloc_failed_def)
  then obtain a where "a \<in> live h" "desc k a \<or> desc a k"
    using used_has_live[OF assms(1,5)] by (auto simp: covered_def live_def)
  moreover from this have "in_heap a" by (simp add: live_def)
  ultimately have "block a \<subseteq> block k \<or> block k \<subseteq> block a" using block_subset assms(5) by blast
  then show ?thesis using \<open>a \<in> live h\<close> block_nonempty by blast
qed

section \<open>Release\<close>

text \<open>Going back to the root, every ancestor is recomputed from its two children.\<close>

lemma free_step:
  assumes "1 \<le> i" "in_heap (RIGHT i)"
  obtains g where "freeMemoryRecursive i h = freeMemoryRecursive (i div 2) g"
    "\<And>k. usage_at g k = (if k = i then if usage_at h (LEFT i) = UNUSED \<and> usage_at h (RIGHT i) = UNUSED then UNUSED else HALF_USED
       else usage_at h k)" "\<And>k. base_at g k = base_at h k"
proof -
  let ?g = "let l = usage_at h (LEFT i); r = usage_at h (RIGHT i);
           h = (if l = UNUSED \<and> r = UNUSED then set_usage i UNUSED h else h);
           h = (if l = FULLY_USED \<or> r = FULLY_USED then set_usage i HALF_USED h else h);
           h = (if l = HALF_USED \<or> r = HALF_USED then set_usage i HALF_USED h else h)
       in (if l = ALLOCATED \<or> r = ALLOCATED then set_usage i HALF_USED h else h)"
  have "freeMemoryRecursive i h = freeMemoryRecursive (i div 2) ?g"
    using assms by (subst freeMemoryRecursive.simps) (simp add: Let_def)
  moreover have "usage_at ?g k = (if k = i
      then if usage_at h (LEFT i) = UNUSED \<and> usage_at h (RIGHT i) = UNUSED then UNUSED else HALF_USED else usage_at h k)" for k
    by (cases "usage_at h (LEFT i)"; cases "usage_at h (RIGHT i)"; simp add: Let_def)
  moreover have "base_at ?g k = base_at h k" for k by (simp add: Let_def)
  ultimately show ?thesis using that by blast
qed

lemma free_step_ok:
  assumes "1 \<le> i" "in_heap (RIGHT i)" "\<forall>k. in_heap k \<and> \<not> desc k i \<longrightarrow> node_ok (usage_at h) k" "in_heap k" "\<not> desc k (i div 2)"
    "\<And>k. usage_at g k = (if k = i then if usage_at h (LEFT i) = UNUSED \<and> usage_at h (RIGHT i) = UNUSED then UNUSED else HALF_USED
       else usage_at h k)"
  shows "node_ok (usage_at g) k"
proof (cases "k = i")
  case True
  then show ?thesis using assms(1,2,6) by (auto simp: node_ok_def)
next
  case False
  then have "node_ok (usage_at h) k" using assms(3-5) desc_step[of k i] by blast
  moreover have "LEFT k \<noteq> i" "RIGHT k \<noteq> i" using assms(5) desc_refl[of k] by auto
  ultimately show ?thesis using assms(6) False node_ok_cong[of "usage_at g" k "usage_at h"] by simp
qed

lemma freeMemoryRecursive_spec:
  assumes "0 \<le> i" "0 < i \<Longrightarrow> in_heap (RIGHT i)"
    "\<forall>k. in_heap k \<and> \<not> desc k i \<longrightarrow> node_ok (usage_at h) k"
  shows "\<exists>h'. freeMemoryRecursive i h = Some h' \<and> (\<forall>k. in_heap k \<longrightarrow> node_ok (usage_at h') k) \<and>
     (\<forall>k. base_at h' k = base_at h k) \<and>
     (\<forall>k. in_heap k \<and> desc k i \<longrightarrow> usage_at h' k = UNUSED \<or> usage_at h' k = HALF_USED) \<and>
     (\<forall>k. in_heap k \<and> \<not> desc k i \<longrightarrow> usage_at h' k = usage_at h k)"
  using assms
proof (induction "nat i" arbitrary: i h rule: less_induct)
  case less
  show ?case
  proof (cases "i = 0")
    case True
    have "\<not> desc k 0" if "in_heap k" for k using that by (auto simp: desc_def in_heap_def)
    then show ?thesis using less.prems True by (subst freeMemoryRecursive.simps) auto
  next
    case False
    then have i: "1 \<le> i" "in_heap (RIGHT i)" using less.prems by auto
    obtain g where g: "freeMemoryRecursive i h = freeMemoryRecursive (i div 2) g"
      "\<And>k. usage_at g k = (if k = i then if usage_at h (LEFT i) = UNUSED \<and> usage_at h (RIGHT i) = UNUSED then UNUSED else HALF_USED
         else usage_at h k)" "\<And>k. base_at g k = base_at h k"
      using free_step[OF i] by blast
    note free_step_ok[OF i less.prems(3) _ _ g(2)]
    moreover have "nat (i div 2) < nat i" using i half_less by simp
    moreover have "0 < i div 2 \<Longrightarrow> in_heap (RIGHT (i div 2))" using i by (auto simp: in_heap_def)
    ultimately obtain h' where h': "freeMemoryRecursive (i div 2) g = Some h'"
      "\<forall>k. in_heap k \<longrightarrow> node_ok (usage_at h') k" "\<forall>k. base_at h' k = base_at g k"
      "\<forall>k. in_heap k \<and> desc k (i div 2) \<longrightarrow> usage_at h' k = UNUSED \<or> usage_at h' k = HALF_USED"
      "\<forall>k. in_heap k \<and> \<not> desc k (i div 2) \<longrightarrow> usage_at h' k = usage_at g k"
      using less.hyps[of "i div 2" g] i by auto
    have up: "usage_at h' k = UNUSED \<or> usage_at h' k = HALF_USED" if "in_heap k" "desc k i" for k
    proof (cases "desc k (i div 2)")
      case False
      then have "k = i" using that(2) desc_step[of k i] by blast
      then show ?thesis using h'(5) False that(1) g(2)[of i] by (auto split: if_splits)
    qed (use h'(4) that in blast)
    moreover have "usage_at h' k = usage_at h k" if "in_heap k" "\<not> desc k i" for k
      using h'(5) that g(2) desc_step[of k i] desc_refl by metis
    ultimately show ?thesis using h'(1-3) g(1,3) by auto
  qed
qed

text \<open>The index the code computes from an address of a block is the block's first leaf.\<close>

lemma leaf_index:
  assumes "in_heap k"
  shows "int (usub64 (node_base k) base div PAGE_SIZE) = first_leaf k - 2048"
    "first_leaf k < 4096" "2048 \<le> first_leaf k"
proof -
  have f: "2048 \<le> first_leaf k" "first_leaf k + int (node_pages k) \<le> 4096"
    using first_leaf_bounds[OF assms] .
  have "0 < node_pages k" by (simp add: node_pages_def)
  then show lt: "first_leaf k < 4096" and "2048 \<le> first_leaf k" using f by linarith+
  have "nat (first_leaf k - 2048) < 2048" using lt by simp
  then have "usub64 (node_base k) base = nat (first_leaf k - 2048) * 4096"
    by (subst usub64_ge) (auto simp: node_base_def)
  then show "int (usub64 (node_base k) base div PAGE_SIZE) = first_leaf k - 2048" using f by simp
qed

lemma desc_first_leaf: "in_heap k \<Longrightarrow> desc k (first_leaf k)"
  unfolding desc_def first_leaf_def by (rule exI[of _ "11 - depth k"]) simp

lemma isAllocatedPage_live:
  assumes "heap_inv h" "k \<in> live h"
  shows "isAllocatedPage h (node_base k) = Some 1"
proof -
  have hk: "in_heap k" and uk: "usage_at h k = ALLOCATED" using assms(2) by (auto simp: live_def)
  then have bk: "base_at h k = node_base k" using assms(1) by (auto simp: heap_inv_def bases_ok_def)
  have path: "isAllocatedPageRecursive h (node_base k) j = Some 1" if "desc k j" "in_heap j" for j
    using that
  proof (induction "nat j" arbitrary: j rule: less_induct)
    case less
    show ?case
    proof (cases "j = k")
      case True
      then show ?thesis using uk bk less.prems(2)
        by (subst isAllocatedPageRecursive.simps) (simp add: in_heap_def)
    next
      case False
      then have p: "desc k (j div 2)" using less.prems(1) desc_step by blast
      then have "1 \<le> j div 2" using desc_depth(3)[OF _ p] hk by (simp add: in_heap_def)
      then have hp: "in_heap (j div 2)" "nat (j div 2) < nat j"
        using less.prems(2) half_less[of j] by (auto simp: in_heap_def)
      have "usage_at h j = UNUSED"
        using quiet_below[of k "usage_at h" j] assms(1) hk uk less.prems False
        by (auto simp: heap_inv_def in_heap_def)
      then show ?thesis using less.hyps[OF hp(2) p hp(1)] less.prems(2)
        by (subst isAllocatedPageRecursive.simps) (simp add: in_heap_def)
    qed
  qed
  have "in_heap (first_leaf k)" using leaf_index(2,3)[OF hk] by (simp add: in_heap_def)
  then show ?thesis
    using path[OF desc_first_leaf[OF hk]] leaf_index[OF hk]
    by (simp add: isAllocatedPage_def Let_def del: heap_consts(1,4))
qed

lemma isAllocatedPage_sound:
  assumes "heap_inv h" "isAllocatedPage h mb = Some 1"
  shows "\<exists>k \<in> live h. mb = node_base k"
proof -
  have "\<exists>k \<in> live h. mb = base_at h k" if "isAllocatedPageRecursive h mb i = Some 1" for i
    using that
  proof (induction h mb i rule: isAllocatedPageRecursive.induct)
    case (1 h mb index)
    from "1.prems" show ?case
      using "1.IH" by (subst (asm) isAllocatedPageRecursive.simps) (auto simp: live_def split: if_splits)
  qed
  moreover have "base_at h k = node_base k" if "k \<in> live h" for k
    using assms(1) that by (auto simp: heap_inv_def bases_ok_def live_def)
  ultimately show ?thesis using assms(2) by (fastforce simp: isAllocatedPage_def Let_def)
qed

lemma live_starts:
  assumes "heap_inv h" "a \<in> live h" "b \<in> live h" "a \<noteq> b"
  shows "node_base a \<noteq> node_base b"
  using live_disjoint[OF assms(1-3)] assms(4) by (auto simp: block_def node_pages_def)

lemma freeBlock_spec:
  assumes inv: "heap_inv h" and k: "k \<in> live h"
  obtains h' where "freeBlock (node_base k) h = Some h'" "heap_inv h'" "live h' = live h - {k}"
proof -
  let ?L = "first_leaf k" and ?g = "set_usage (first_leaf k) UNUSED h"
  have hk: "in_heap k" using k by (simp add: live_def)
  have L: "2048 \<le> ?L" "?L < 4096" "in_heap ?L" using leaf_index(2,3)[OF hk] by (auto simp: in_heap_def)
  have dL: "desc k ?L" using desc_first_leaf[OF hk] .
  have "node_ok (usage_at ?g) j" if j: "in_heap j" "\<not> desc j (?L div 2)" for j
  proof -
    have "?L div 2 \<noteq> j" using j(2) desc_refl by metis
    then have "LEFT j \<noteq> ?L" "RIGHT j \<noteq> ?L" by auto
    then show ?thesis
      using heap_inv_node_ok[OF inv j(1)] L(1) node_ok_cong[of "usage_at ?g" j "usage_at h"]
      by (cases "j = ?L") (auto simp: node_ok_def in_heap_def)
  qed
  moreover have "in_heap (RIGHT (?L div 2))" using L(1,2) by (auto simp: in_heap_def)
  ultimately obtain h' where h': "freeMemoryRecursive (?L div 2) ?g = Some h'"
    "\<forall>k. in_heap k \<longrightarrow> node_ok (usage_at h') k" "\<forall>k. base_at h' k = base_at ?g k"
    "\<forall>j. in_heap j \<and> desc j (?L div 2) \<longrightarrow> usage_at h' j = UNUSED \<or> usage_at h' j = HALF_USED"
    "\<forall>j. in_heap j \<and> \<not> desc j (?L div 2) \<longrightarrow> usage_at h' j = usage_at ?g j"
    using freeMemoryRecursive_spec[of "?L div 2" ?g] L(1) by auto
  have f: "freeBlock (node_base k) h = Some h'"
    using h'(1) leaf_index[OF hk] L by (simp add: freeBlock_def Let_def del: heap_consts(1,4))
  have al: "usage_at h' j = ALLOCATED \<longleftrightarrow> usage_at h j = ALLOCATED \<and> \<not> desc j ?L" if "in_heap j" for j
  proof (cases "desc j (?L div 2)")
    case True
    then have "usage_at h' j = UNUSED \<or> usage_at h' j = HALF_USED" "desc j ?L"
      using h'(4) that desc_step[of j ?L] by blast+
    then show ?thesis by auto
  next
    case False
    then have "usage_at h' j = usage_at ?g j" using h'(5) that by blast
    then show ?thesis using False desc_step[of j ?L] by auto
  qed
  have only: "j = k" if "j \<in> live h" "desc j ?L" for j
    using desc_comparable[of j k ?L] that dL hk live_not_nested[OF inv] k
    by (metis in_heap_ge_1 live_def mem_Collect_eq)
  have "live h' = live h - {k}" using al only dL by (auto simp: live_def)
  moreover have "heap_inv h'"
    using inv h'(2,3) al by (auto simp: heap_inv_def bases_ok_def)
  ultimately show ?thesis using that f by blast
qed

section \<open>The allocator as the rest of the kernel sees it\<close>

text \<open>
  Processes, threads, pipes and channels rely on these laws only: a successful request yields a
  fresh block, a release removes exactly the block that starts at the address, and blocks that
  are held at the same time never overlap.
\<close>

locale page_allocator =
  fixes alloc :: "int \<Rightarrow> 'h \<Rightarrow> (addr \<times> 'h) option"
    and release :: "addr \<Rightarrow> 'h \<Rightarrow> 'h option"
    and inv :: "'h \<Rightarrow> bool"
    and held :: "'h \<Rightarrow> 'b set"
    and start :: "'b \<Rightarrow> addr"
    and extent :: "'b \<Rightarrow> addr set"
    and request :: "int \<Rightarrow> bool"
  assumes alloc_law: "inv h \<Longrightarrow> request q \<Longrightarrow> \<exists>r h'. alloc q h = Some (r, h') \<and> inv h' \<and>
      ((r = NULL \<and> held h' = held h) \<or> (\<exists>b. r = start b \<and> b \<notin> held h \<and> held h' = insert b (held h)))"
    and release_law: "inv h \<Longrightarrow> b \<in> held h \<Longrightarrow>
      \<exists>h'. release (start b) h = Some h' \<and> inv h' \<and> held h' = held h - {b}"
    and separate: "inv h \<Longrightarrow> b \<in> held h \<Longrightarrow> c \<in> held h \<Longrightarrow> b \<noteq> c \<Longrightarrow> extent b \<inter> extent c = {}"
    and start_in: "start b \<in> extent b"
    and start_not_NULL: "start b \<noteq> NULL"
begin

lemma start_inj: "inv h \<Longrightarrow> b \<in> held h \<Longrightarrow> c \<in> held h \<Longrightarrow> start b = start c \<Longrightarrow> b = c"
  using separate start_in by (metis disjoint_iff)

lemma alloc_fresh:
  assumes "inv h" "request q" "alloc q h = Some (r, h')" "r \<noteq> NULL"
  obtains b where "r = start b" "held h' = insert b (held h)" "inv h'" "b \<notin> held h"
    "\<And>c. c \<in> held h \<Longrightarrow> extent c \<inter> extent b = {}"
proof -
  obtain b where b: "inv h'" "r = start b" "b \<notin> held h" "held h' = insert b (held h)"
    using alloc_law[OF assms(1,2)] assms(3,4) by auto
  have "extent c \<inter> extent b = {}" if "c \<in> held h" for c
    using separate[OF b(1), of c b] that b(3,4) by auto
  with b show ?thesis using that by blast
qed

lemma alloc_release:
  assumes "inv h" "request q" "alloc q h = Some (r, h')" "r \<noteq> NULL"
  shows "\<exists>h''. release r h' = Some h'' \<and> inv h'' \<and> held h'' = held h"
  using alloc_fresh[OF assms] release_law by (metis Diff_insert_absorb insertI1)

end

interpretation buddy: page_allocator getPages freeBlock heap_inv live node_base block "\<lambda>q. 0 < q \<and> q \<le> 2048"
proof
  fix h q assume "heap_inv h" "0 < q \<and> q \<le> (2048::int)"
  then show "\<exists>r h'. getPages q h = Some (r, h') \<and> heap_inv h' \<and>
      ((r = NULL \<and> live h' = live h) \<or> (\<exists>b. r = node_base b \<and> b \<notin> live h \<and> live h' = insert b (live h)))"
    using getPages_sound[of h q] by metis
next
  fix h b assume "heap_inv h" "b \<in> live h"
  then show "\<exists>h'. freeBlock (node_base b) h = Some h' \<and> heap_inv h' \<and> live h' = live h - {b}"
    using freeBlock_spec[of h b] by metis
next
  fix h b c assume "heap_inv h" "b \<in> live h" "c \<in> live h" "b \<noteq> c"
  then show "block b \<inter> block c = {}" by (rule live_disjoint)
qed (auto simp: block_def node_pages_def node_base_def)

text \<open>A concrete heap used by the witnesses: the whole memory handed out as one block.\<close>

definition whole_heap :: buddyHeap_t where
  "whole_heap = set_usage 1 ALLOCATED initializeHeap"

lemma getPages_whole: "getPages 2048 initializeHeap = Some (base, whole_heap)"
proof -
  have "levels_of 2048 = 0"
    unfolding levels_of_def by (subst log2_eq[of 11]) simp_all
  then show ?thesis
    by (simp add: getPages_eq getPagesRecursive.simps[of 1 0] in_heap_def initializeHeap_def
        usage_at_def base_at_def whole_heap_def)
qed

lemma whole_heap_inv: "heap_inv whole_heap" "live whole_heap = {1}"
proof -
  obtain r h' where r: "getPages 2048 initializeHeap = Some (r, h')" "heap_inv h'"
    using buddy.alloc_law[OF heap_inv_init, of 2048] by auto
  then show "heap_inv whole_heap" using getPages_whole by simp
  show "live whole_heap = {1}"
    by (auto simp: live_def whole_heap_def initializeHeap_def usage_at_def set_usage_def in_heap_def)
qed

lemma whole_heap_full: "getPages 1 whole_heap = Some (NULL, whole_heap)"
  by (simp add: getPages_def getPagesRecursive.simps[of 1] in_heap_def whole_heap_def)

text \<open>The heaps that requests and releases can lead to from the initial one.\<close>

inductive heap_reachable :: "buddyHeap_t \<Rightarrow> bool" where
  boot: "heap_reachable initializeHeap"
| get: "heap_reachable h \<Longrightarrow> 0 < q \<Longrightarrow> q \<le> 2048 \<Longrightarrow> getPages q h = Some (r, h') \<Longrightarrow> heap_reachable h'"
| free: "heap_reachable h \<Longrightarrow> isAllocatedPage h mb = Some 1 \<Longrightarrow> freeBlock mb h = Some h' \<Longrightarrow> heap_reachable h'"

lemma heap_reachable_inv: "heap_reachable h \<Longrightarrow> heap_inv h"
proof (induction rule: heap_reachable.induct)
  case boot
  show ?case by (rule heap_inv_init)
next
  case (get h q r h')
  then show ?case using getPages_sound[of h q] by (metis Pair_inject option.inject)
next
  case (free h mb h')
  then show ?case using isAllocatedPage_sound freeBlock_spec by (metis option.inject)
qed

lemma node_pages_levels:
  assumes "0 < q" "q \<le> 2048" "depth k = levels_of q"
  shows "node_pages k = (if q = 1 then 1 else 2 ^ (depth q + nat (q mod 2)))"
proof (cases "q = 1")
  case False
  have l: "log2 (nat q) = int (depth q) + q mod 2" using assms(1) by (simp add: log2_depth)
  have "log2 (nat q) \<le> 11" using log2_range assms False by simp
  moreover have "nat (int (depth q) + q mod 2) = depth q + nat (q mod 2)"
    by (simp add: nat_add_distrib)
  moreover from calculation have "depth q + nat (q mod 2) \<le> 11" using l by linarith
  ultimately show ?thesis using False assms(3) l by (auto simp: node_pages_def levels_of_def nat_diff_distrib')
qed (simp add: assms(3) node_pages_def levels_of_def)

section \<open>Properties\<close>

text \<open>C6: \<open>getPages\<close>, for every request of 1 to \<open>PAGE_QUANTITY\<close> pages on a well-formed heap, does
  not leave the arrays, keeps the heap well-formed, and returns either NULL with the set of blocks
  in use unchanged or the address of a block of the level asked for that overlaps no block in
  use, which is then the only block added.\<close>

theorem getPages_safe:
  assumes "heap_inv h" "0 < q" "q \<le> 2048"
  shows "\<exists>r h'. getPages q h = Some (r, h') \<and> heap_inv h' \<and>
    ((r = NULL \<and> live h' = live h) \<or>
     (\<exists>k. r = node_base k \<and> depth k = levels_of q \<and> live h' = insert k (live h) \<and>
        (\<forall>a \<in> live h. block a \<inter> block k = {})))"
proof -
  obtain r h' where r: "getPages q h = Some (r, h')" "heap_inv h'"
    "(r = NULL \<and> live h' = live h \<and> alloc_failed 1 (levels_of q) h r h') \<or>
     (\<exists>k. r = node_base k \<and> k \<notin> live h \<and> live h' = insert k (live h) \<and> depth k = levels_of q)"
    using getPages_sound[OF assms] by metis
  have "\<forall>a \<in> live h. block a \<inter> block k = {}" if "k \<notin> live h" "live h' = insert k (live h)" for k
    using live_disjoint[OF r(2)] that by auto
  with r show ?thesis by blast
qed

theorem getPages_safe_witness:
  "\<exists>r h'. getPages 1 initializeHeap = Some (r, h') \<and> heap_inv h'"
  using getPages_safe[OF heap_inv_init, of 1] by auto

text \<open>C7: the search is complete: \<open>getPages\<close> returns NULL only when every block of the size asked for
  overlaps a block that is in use.\<close>

theorem getPages_fails_only_if_full:
  assumes "heap_inv h" "0 < q" "q \<le> 2048" "getPages q h = Some (NULL, h')"
  shows "\<forall>k. in_heap k \<and> depth k = levels_of q \<longrightarrow> (\<exists>a \<in> live h. block a \<inter> block k \<noteq> {})"
  using getPages_complete[OF assms] by blast

text \<open>C8: \<open>isAllocatedPage\<close> answers 1 for an address if and only if it is the start of a block in use, and releasing a block in
  use removes it, and only it, from the blocks in use, keeps the heap well-formed and ends the answer 1 for its start.\<close>

theorem free_releases_exactly:
  assumes "heap_inv h"
  shows "(isAllocatedPage h mb = Some 1 \<longleftrightarrow> (\<exists>k \<in> live h. mb = node_base k)) \<and>
    (\<forall>k \<in> live h. \<exists>h'. freeBlock (node_base k) h = Some h' \<and> heap_inv h' \<and> live h' = live h - {k} \<and>
      isAllocatedPage h' (node_base k) \<noteq> Some 1)"
proof -
  have "isAllocatedPage h mb = Some 1 \<longleftrightarrow> (\<exists>k \<in> live h. mb = node_base k)"
    using isAllocatedPage_sound[OF assms] isAllocatedPage_live[OF assms] by blast
  moreover have "\<exists>h'. freeBlock (node_base k) h = Some h' \<and> heap_inv h' \<and> live h' = live h - {k} \<and>
      isAllocatedPage h' (node_base k) \<noteq> Some 1" if k: "k \<in> live h" for k
  proof -
    obtain h' where h': "freeBlock (node_base k) h = Some h'" "heap_inv h'" "live h' = live h - {k}"
      by (rule freeBlock_spec[OF assms k])
    have "node_base k \<noteq> node_base j" if "j \<in> live h - {k}" for j using live_starts[OF assms] k that by blast
    then have "isAllocatedPage h' (node_base k) \<noteq> Some 1" using isAllocatedPage_sound[OF h'(2)] h'(3) by blast
    then show ?thesis using h' by blast
  qed
  ultimately show ?thesis by blast
qed

text \<open>Round trip: a block that was handed out can be given back, which restores the blocks in use.\<close>

theorem getPages_free_roundtrip:
  assumes "heap_inv h" "0 < q" "q \<le> 2048" "getPages q h = Some (r, h')" "r \<noteq> NULL"
  shows "\<exists>h''. isAllocatedPage h' r = Some 1 \<and> freeBlock r h' = Some h'' \<and> heap_inv h'' \<and> live h'' = live h"
proof -
  have rq: "0 < q \<and> q \<le> 2048" using assms by simp
  obtain k where "r = node_base k" "live h' = insert k (live h)" "heap_inv h'"
    using buddy.alloc_fresh[OF assms(1) rq assms(4,5)] by metis
  then have "isAllocatedPage h' r = Some 1" using isAllocatedPage_live by blast
  then show ?thesis using buddy.alloc_release[OF assms(1) rq assms(4,5)] by blast
qed

theorem getPages_fails_only_if_full_witness: "\<exists>a \<in> live whole_heap. block a \<inter> block 2048 \<noteq> {}"
proof -
  have "in_heap 2048 \<and> depth 2048 = levels_of 1"
    using depth_unique[of 11 2048] by (simp add: in_heap_def levels_of_def)
  then show ?thesis
    using getPages_fails_only_if_full[OF whole_heap_inv(1) _ _ whole_heap_full] by simp
qed

theorem free_releases_exactly_witness:
  "isAllocatedPage whole_heap base = Some 1 \<and> isAllocatedPage whole_heap (base + 1) \<noteq> Some 1 \<and>
   (\<exists>h'. freeBlock base whole_heap = Some h' \<and> live h' = {} \<and> isAllocatedPage h' base \<noteq> Some 1)"
proof -
  have b: "node_base 1 = base" by (rule node_base_1)
  note F = free_releases_exactly[OF whole_heap_inv(1)]
  have "isAllocatedPage whole_heap base = Some 1" "isAllocatedPage whole_heap (base + 1) \<noteq> Some 1"
    using F[of base] F[of "base + 1"] whole_heap_inv(2) b by (simp_all del: base_def)
  moreover have "\<exists>h'. freeBlock base whole_heap = Some h' \<and> live h' = {} \<and> isAllocatedPage h' base \<noteq> Some 1"
    using F[of base] whole_heap_inv(2) b by (auto simp del: base_def)
  ultimately show ?thesis by blast
qed

theorem getPages_free_roundtrip_witness: "\<exists>h''. freeBlock base whole_heap = Some h'' \<and> live h'' = {}"
proof -
  have "base \<noteq> NULL" by simp
  from getPages_free_roundtrip[OF heap_inv_init _ _ getPages_whole this] show ?thesis
    by (auto simp: live_init simp del: base_def)
qed

text \<open>C1: however requests and releases are interleaved after boot, two blocks in use never share an
  address, and every block lies in the 8 MiB above \<open>base\<close>.\<close>

theorem reachable_blocks_disjoint:
  assumes "heap_reachable h" "a \<in> live h" "b \<in> live h"
  shows "(a \<noteq> b \<longrightarrow> block a \<inter> block b = {}) \<and> block a \<subseteq> {base ..< base + PAGE_QUANTITY * PAGE_SIZE}"
proof -
  have inv: "heap_inv h" using assms(1) by (rule heap_reachable_inv)
  have "in_heap a" using assms(2) by (simp add: live_def)
  then have "block a \<subseteq> {base ..< base + PAGE_QUANTITY * PAGE_SIZE}"
    using node_base_bounds[of a] unfolding block_def by force
  then show ?thesis using live_disjoint[OF inv assms(2,3)] by blast
qed

theorem reachable_blocks_disjoint_witness: "block 1 \<subseteq> {base ..< base + PAGE_QUANTITY * PAGE_SIZE}"
proof -
  have "heap_reachable whole_heap"
    by (rule heap_reachable.get[OF heap_reachable.boot _ _ getPages_whole]) simp_all
  from reachable_blocks_disjoint[OF this, of 1 1] show ?thesis using whole_heap_inv(2) by simp
qed

text \<open>C34: the block chosen for a request of \<open>q\<close> pages holds \<open>q\<close> pages exactly when \<open>q\<close> is odd or a power of
  two: for every other even request the allocator's \<open>log2\<close> rounds down and the block is too small.\<close>

theorem block_size_iff:
  assumes "0 < q" "q \<le> 2048" "depth k = levels_of q"
  shows "q \<le> int (node_pages k) \<longleftrightarrow> odd q \<or> q = 2 ^ depth q"
proof (cases "odd q")
  case True
  have "q < 2 ^ Suc (depth q)" using depth_bounds[of q] assms(1) by simp
  moreover have "q mod 2 = 1" using True by presburger
  ultimately show ?thesis using node_pages_levels[OF assms] True by auto
next
  case False
  have "2 ^ depth q \<le> q" using depth_bounds[of q] assms(1) by simp
  moreover have "q mod 2 = 0" "q \<noteq> 1" using False by presburger+
  ultimately show ?thesis using node_pages_levels[OF assms] False by auto
qed

theorem block_size_iff_witness: "\<not> (6::int) \<le> int (node_pages 512)"
proof -
  have d: "depth 512 = 9" "depth 6 = 2" using depth_unique[of 9 512] depth_unique[of 2 6] by simp_all
  have "levels_of 6 = 9" unfolding levels_of_def by (subst log2_eq[of 2]) simp_all
  then show ?thesis using block_size_iff[of 6 512] d by simp
qed

end
