(* ===== verification/MemoryProps.thy ===== *)
theory MemoryProps
  imports Memory SemProps BuddyCorrect
begin

text \<open>The entry points of the allocator: with its mutex free they are the tree operations, and leave it free.\<close>

lemma heap_frames [simp]:
  "buddyHeap (set_lock v s) = buddyHeap s" "buddyHeap (set_entry m x s) = buddyHeap s"
  "buddyMutex (set_lock v s) = buddyMutex s" "buddyMutex (set_entry m x s) = buddyMutex s"
  by (simp_all add: set_lock_def set_entry_def)

text \<open>The entry points ask who calls; that needs the process in the slot in use, not the ring.\<close>

definition caller_ok :: "kstate \<Rightarrow> bool" where
  "caller_ok s \<longleftrightarrow> processQuantity (sched s) \<noteq> 0 \<and> in_range (current (sched s)) MAX_PROCESSES \<and>
     procs s (rr_process (processes (sched s) (current (sched s)))) \<noteq> None"

lemma caller_ok_ids: "caller_ok s \<Longrightarrow> getpid s = Done (cur_pid s) s \<and> getCurrentThread s = Done (cur_tid s) s"
  by (auto simp: caller_ok_def getpid_def getCurrentThread_def cur_pid_def cur_tid_def proc_at_def access_app)

lemma threads_caller_ok:
  assumes "threads_ok s"
  shows "caller_ok s"
proof -
  have ok: "sched_ok s" by (rule threads_okD[OF assms])
  then have "processQuantity (sched s) \<noteq> 0" by (simp add: sched_ok_def proc_slots_def)
  then show ?thesis using sched_okD[OF ok] proc_ok_at[of s "current (sched s)"] by (simp add: caller_ok_def)
qed

text \<open>Nobody waits for the mutex: it is freed, whatever the threads are.\<close>

lemma mutexUp_alone:
  assumes "valid_mutex s m" "m_lockProcess (entry s m) = tid pid t" "m_blockedQuantity (entry s m) = 0"
    "lockQuantumExceded (sched s) = 0"
  shows "mutexUp m pid t s = Done () (set_lock 0 (set_entry m ((entry s m)\<lparr>m_value := UNLOCKED\<rparr>) s))"
proof -
  have v: "isValidMutex (mut s) m" and r: "in_range m MAX_MUTEXES"
    using assms(1) valid_mutexD by (auto simp: valid_mutex_def)
  have e: "m_lockProcess (mutexes (mut s) m) = tid pid t" using assms(2) by (simp add: entry_def)
  have none: "unlockProcess m (set_lock 1 s) = Done False (set_lock 1 s)"
    using r assms(3) by (simp add: unlockProcess_def with_mutex_app)
  show ?thesis
    using v r e assms(4) none
    by (simp add: mutexUp_def Let_def kwhen_def upd_mutex_app unlock_app set_entry_set_lock)
qed

text \<open>The state after the mutex \<open>m\<close> was held while the heap became \<open>h\<close>.\<close>

definition after_heap :: "int \<Rightarrow> threadId_t \<Rightarrow> buddyHeap_t \<Rightarrow> kstate \<Rightarrow> kstate" where
  "after_heap m who h s = set_lock 0 (seized m (touched who (entry s m)) s\<lparr>buddyHeap := h\<rparr>)"

lemma after_heap_simps [simp]:
  "buddyHeap (after_heap m who h s) = h" "buddyMutex (after_heap m who h s) = buddyMutex s"
  "lockQuantumExceded (sched (after_heap m who h s)) = lockQuantumExceded (sched s)"
  by (simp_all add: after_heap_def set_lock_def)

lemma after_heap_ok:
  assumes "threads_ok s"
  shows "threads_ok (after_heap m who h s)"
  using assms by (subst threads_ok_cong[of _ s]) (simp_all add: after_heap_def)

lemma after_heap_free: "free_mutex_at s m \<Longrightarrow> free_mutex_at (after_heap m who h s) m"
  by (rule free_mutex_after[of s m _ who]) (simp_all add: after_heap_def set_lock_def seized_def set_entry_def entry_def)

lemma cur_after_heap [simp]: "cur_pid (after_heap m who h s) = cur_pid s" "cur_tid (after_heap m who h s) = cur_tid s"
  by (simp_all add: after_heap_def cur_pid_def cur_tid_def proc_at_def)

lemma heap_section:
  fixes pid t :: int
  assumes "free_mutex_at s m" "lockQuantumExceded (sched s) = 0"
  defines "s1 \<equiv> set_lock 0 (seized m (down_free (tid pid t) (entry s m)) s)"
  shows "mutexDown kt m pid t s = Done () s1" "buddyHeap s1 = buddyHeap s" "buddyMutex s1 = buddyMutex s"
    "mutexUp m pid t (s1\<lparr>buddyHeap := h\<rparr>) = Done () (after_heap m (tid pid t) h s)"
proof -
  show "mutexDown kt m pid t s = Done () s1" unfolding s1_def by (rule down_free_app[OF assms(1,2)])
  show "buddyHeap s1 = buddyHeap s" "buddyMutex s1 = buddyMutex s" by (simp_all add: s1_def)
  let ?s2 = "s1\<lparr>buddyHeap := h\<rparr>"
  have e: "entry ?s2 m = down_free (tid pid t) (entry s m)" by (simp add: s1_def entry_def[abs_def] set_lock_def seized_def set_entry_def)
  have v: "valid_mutex ?s2 m" using assms(1)
    by (auto simp: s1_def free_mutex_at_def valid_mutex_def isValidMutex_def seized_def set_entry_def set_lock_def down_free_def entry_def)
  have q: "m_blockedQuantity (entry s m) = 0" using assms(1) by (simp add: free_mutex_at_def)
  have l: "lockQuantumExceded (sched ?s2) = 0" using assms(2) by (simp add: s1_def)
  have "mutexUp m pid t ?s2 = Done () (set_lock 0 (set_entry m ((entry ?s2 m)\<lparr>m_value := UNLOCKED\<rparr>) ?s2))"
    by (rule mutexUp_alone[OF v _ _ l]) (simp_all add: e q)
  also have "set_lock 0 (set_entry m ((entry ?s2 m)\<lparr>m_value := UNLOCKED\<rparr>) ?s2) = after_heap m (tid pid t) h s"
    unfolding e touched_down by (simp add: s1_def after_heap_def set_lock_def seized_def set_entry_def entry_def)
  finally show "mutexUp m pid t ?s2 = Done () (after_heap m (tid pid t) h s)" .
qed

lemma allocatePages_eq:
  assumes "free_mutex_at s (buddyMutex s)" "caller_ok s" "lockQuantumExceded (sched s) = 0"
    "0 < q" "q \<le> 2048" "getPages q (buddyHeap s) = Some (r, h)"
  shows "allocatePages kt q s = Done r (after_heap (buddyMutex s) (tid (cur_pid s) (cur_tid s)) h s)"
proof -
  note ids = caller_ok_ids[OF assms(2)] and sec = heap_section[OF assms(1,3), where pid = "cur_pid s" and t = "cur_tid s"]
  have q: "(q = 0 \<or> q > int PAGE_QUANTITY) = False" using assms(4,5) by (simp add: PAGE_QUANTITY_def)
  let ?s1 = "set_lock 0 (seized (buddyMutex s) (down_free (tid (cur_pid s) (cur_tid s)) (entry s (buddyMutex s))) s)"
  have l: "lift_heap (getPages q) ?s1 = Done r (?s1\<lparr>buddyHeap := h\<rparr>)"
    using assms(6) by (simp add: lift_heap_def)
  have b: "buddyMutex (?s1\<lparr>buddyHeap := h\<rparr>) = buddyMutex s" by simp
  show ?thesis
    unfolding allocatePages_def q if_False kbind_app conjunct1[OF ids] conjunct2[OF ids] obind.simps kwith_app sec(1) l
      kthen.simps b sec(4) kret_app ..
qed

lemma freeMemory_eq:
  assumes "free_mutex_at s (buddyMutex s)" "caller_ok s" "lockQuantumExceded (sched s) = 0"
    "isAllocatedPage (buddyHeap s) mb = Some 1" "freeBlock mb (buddyHeap s) = Some h"
  shows "freeMemory kt mb s = Done True (after_heap (buddyMutex s) (tid (cur_pid s) (cur_tid s)) h s)"
proof -
  note ids = caller_ok_ids[OF assms(2)] and sec = heap_section[OF assms(1,3), where pid = "cur_pid s" and t = "cur_tid s"]
  let ?s1 = "set_lock 0 (seized (buddyMutex s) (down_free (tid (cur_pid s) (cur_tid s)) (entry s (buddyMutex s))) s)"
  have l: "lift_heap (\<lambda>h. map_option (Pair ()) (freeBlock mb h)) ?s1 = Done () (?s1\<lparr>buddyHeap := h\<rparr>)"
    using assms(5) by (simp add: lift_heap_def)
  have b: "buddyMutex (?s1\<lparr>buddyHeap := h\<rparr>) = buddyMutex s" by simp
  have one: "((1::int) \<noteq> 0) = True" by simp
  show ?thesis
    unfolding freeMemory_def kbind_app conjunct1[OF ids] conjunct2[OF ids] obind.simps kwith_app assms(4) option.case one if_True
      kthen.simps kbind_app obind.simps kwith_app sec(1) l b sec(4) kret_app ..
qed

section \<open>Properties\<close>

text \<open>C23: Round trip through the kernel's entry points: a request of 1 to \<open>PAGE_QUANTITY\<close> pages returns without
  blocking when the allocator's mutex is free; the block it hands out can be given back, which succeeds and restores
  the set of blocks in use; the mutex is free after each of the two calls.\<close>

theorem allocate_free_roundtrip:
  assumes "free_mutex_at s (buddyMutex s)" "threads_ok s" "lockQuantumExceded (sched s) = 0" "heap_inv (buddyHeap s)"
    "0 < q" "q \<le> 2048"
  shows "\<exists>r s1. allocatePages kt q s = Done r s1 \<and> heap_inv (buddyHeap s1) \<and> free_mutex_at s1 (buddyMutex s1) \<and>
    (if r = NULL then live (buddyHeap s1) = live (buddyHeap s)
     else \<exists>s2. freeMemory kt r s1 = Done True s2 \<and> heap_inv (buddyHeap s2) \<and> free_mutex_at s2 (buddyMutex s2) \<and>
       live (buddyHeap s2) = live (buddyHeap s))"
proof -
  let ?who = "tid (cur_pid s) (cur_tid s)"
  obtain r h where r: "getPages q (buddyHeap s) = Some (r, h)" "heap_inv h" "r = NULL \<longrightarrow> live h = live (buddyHeap s)"
    using getPages_sound[OF assms(4-6)] by (metis node_base_nonzero)
  let ?s1 = "after_heap (buddyMutex s) ?who h s"
  have a: "allocatePages kt q s = Done r ?s1" by (rule allocatePages_eq[OF assms(1) threads_caller_ok[OF assms(2)] assms(3,5,6) r(1)])
  have f1: "free_mutex_at ?s1 (buddyMutex ?s1)" using after_heap_free[OF assms(1)] by simp
  have "\<exists>s2. freeMemory kt r ?s1 = Done True s2 \<and> heap_inv (buddyHeap s2) \<and> free_mutex_at s2 (buddyMutex s2) \<and>
      live (buddyHeap s2) = live (buddyHeap s)" if nz: "r \<noteq> NULL"
  proof -
    have rq: "0 < q \<and> q \<le> 2048" using assms(5,6) by simp
    obtain k where "r = node_base k" "live h = insert k (live (buddyHeap s))"
      using buddy.alloc_fresh[OF assms(4) rq r(1) nz] by metis
    then have ia: "isAllocatedPage h r = Some 1" using isAllocatedPage_live r(2) by blast
    obtain h2 where h2: "freeBlock r h = Some h2" "heap_inv h2" "live h2 = live (buddyHeap s)"
      using buddy.alloc_release[OF assms(4) rq r(1) nz] by blast
    have ok: "threads_ok ?s1" "lockQuantumExceded (sched ?s1) = 0" using after_heap_ok[OF assms(2)] assms(3) by simp_all
    have "freeMemory kt r ?s1 = Done True (after_heap (buddyMutex ?s1) (tid (cur_pid ?s1) (cur_tid ?s1)) h2 ?s1)"
      by (rule freeMemory_eq[OF f1 threads_caller_ok[OF ok(1)] ok(2)]) (simp_all add: ia h2(1))
    moreover have "free_mutex_at (after_heap (buddyMutex ?s1) (tid (cur_pid ?s1) (cur_tid ?s1)) h2 ?s1) (buddyMutex ?s1)"
      by (rule after_heap_free[OF f1])
    ultimately show ?thesis using h2(2,3) by (intro exI conjI) (assumption | simp)+
  qed
  then show ?thesis using a f1 r(2,3) by (intro exI[of _ r] exI[of _ ?s1]) simp
qed

theorem allocate_free_roundtrip_witness:
  "\<forall>s kt. \<exists>s0 r s1. allocatePages kt 4 s0 = Done r s1 \<and> heap_inv (buddyHeap s1)"
proof (intro allI)
  fix s kt
  let ?b = "ex_sem_state (ex_sem 1 nobody 0) s"
  let ?s = "?b\<lparr>buddyHeap := initializeHeap, buddyMutex := 3\<rparr>"
  have f: "free_mutex_at ?s (buddyMutex ?s)"
    using ex_sem_valid(2)[of "ex_sem 1 nobody 0" s] by (simp add: free_mutex_at_def valid_mutex_def entry_def)
  have ok: "threads_ok ?s" by (subst threads_ok_cong[of ?s ?b]) simp_all
  have l: "lockQuantumExceded (sched ?s) = 0" by simp
  have i: "heap_inv (buddyHeap ?s)" using heap_inv_init by simp
  from allocate_free_roundtrip[OF f ok l i, of 4 kt]
  show "\<exists>s0 r s1. allocatePages kt 4 s0 = Done r s1 \<and> heap_inv (buddyHeap s1)" by auto
qed

end
