(* ===== verification/MutexExcl.thy ===== *)
theory MutexExcl
  imports MutexProps
begin

text \<open>
  Mutual exclusion over whole executions: any number of threads take and give back one mutex, the processor is
  taken from them at any time, and the ones that have to wait go on when the scheduler chooses them again.
  The steps are those of \<open>mutexDown\<close>, \<open>mutexUp\<close> and \<open>nextProcess\<close>; the invariant joins the entry of the
  mutex, the states of the threads and what the threads believe.
\<close>

section \<open>What a thread believes\<close>

text \<open>A thread is outside of the critical section, waits in \<open>mutexDown\<close> with the rest of the call to do, or is inside.\<close>

datatype region = Outside | Waiting "unit KS" | Inside

text \<open>The entry of the mutex and the beliefs fit together; \<open>asleep\<close> holds for the threads that are \<open>BLOCKED\<close>.\<close>

definition excl :: "mutex_t \<Rightarrow> (threadId_t \<Rightarrow> region) \<Rightarrow> (threadId_t \<Rightarrow> bool) \<Rightarrow> bool" where
  "excl e r asleep \<longleftrightarrow> mutex_wf e \<and> inj_on (m_blocked e) (waiting e) \<and>
     (\<forall>q. r q = Inside \<longrightarrow> m_value e = LOCKED \<and> m_lockProcess e = q) \<and>
     (\<forall>q k. r q = Waiting k \<longrightarrow> k = unlock \<and> m_value e = LOCKED \<and> (q \<in> m_blocked e ` waiting e \<or> m_lockProcess e = q)) \<and>
     (\<forall>i \<in> waiting e. r (m_blocked e i) = Waiting unlock \<and> m_blocked e i \<noteq> m_lockProcess e \<and> asleep (m_blocked e i)) \<and>
     (m_value e = LOCKED \<longrightarrow> r (m_lockProcess e) \<noteq> Outside \<and> \<not> asleep (m_lockProcess e))"

lemma exclD:
  assumes "excl e r asleep"
  shows "mutex_wf e" "inj_on (m_blocked e) (waiting e)"
    "r q = Inside \<Longrightarrow> m_value e = LOCKED \<and> m_lockProcess e = q"
    "r q = Waiting k \<Longrightarrow> k = unlock \<and> m_value e = LOCKED \<and> (q \<in> m_blocked e ` waiting e \<or> m_lockProcess e = q)"
    "i \<in> waiting e \<Longrightarrow> r (m_blocked e i) = Waiting unlock \<and> m_blocked e i \<noteq> m_lockProcess e \<and> asleep (m_blocked e i)"
    "m_value e = LOCKED \<Longrightarrow> r (m_lockProcess e) \<noteq> Outside \<and> \<not> asleep (m_lockProcess e)"
  using assms unfolding excl_def by blast+

lemma excl_cong:
  assumes "excl e r asleep" "\<And>q. r q \<noteq> Outside \<Longrightarrow> asleep' q = asleep q"
  shows "excl e r asleep'"
proof -
  note D = exclD[OF assms(1)]
  have "asleep' (m_blocked e i)" if "i \<in> waiting e" for i
    using D(5)[OF that] assms(2)[of "m_blocked e i"] by simp
  moreover have "\<not> asleep' (m_lockProcess e)" if "m_value e = LOCKED"
    using D(6)[OF that] assms(2)[of "m_lockProcess e"] by simp
  ultimately show ?thesis using assms(1) unfolding excl_def by blast
qed

text \<open>Nobody waits at a free mutex, and nobody is inside.\<close>

lemma excl_unlocked:
  assumes "excl e r asleep" "m_value e \<noteq> LOCKED"
  shows "r q = Outside" "waiting e = {}"
  using exclD(1,3,4)[OF assms(1)] assms(2) by (cases "r q"; force simp: mutex_wf_def)+

lemma waiting_lockProcess [simp]: "waiting (e\<lparr>m_lockProcess := q\<rparr>) = waiting e" "waiting (e\<lparr>m_value := v\<rparr>) = waiting e"
  by (simp_all add: waiting_def)

lemma excl_take:
  assumes "excl e r asleep" "m_value e \<noteq> LOCKED" "\<not> asleep q"
  shows "excl (down_free q e) (r(q := Inside)) asleep"
proof -
  have "waiting (down_free q e) = {}" using excl_unlocked(2)[OF assms(1,2)] by (simp add: down_free_def)
  moreover have "mutex_wf (down_free q e)" by (rule wf_down_free[OF exclD(1)[OF assms(1)]])
  ultimately show ?thesis
    using excl_unlocked(1)[OF assms(1,2)] assms(3) by (simp add: excl_def) (simp add: down_free_def)
qed

lemma excl_queue:
  assumes "excl e r asleep" "m_value e = LOCKED" "r q = Outside" "tid_pid q \<noteq> NOT_USED"
    "nextListIndexAvailable (m_blocked e) MAX_BLOCKED \<noteq> FULL_LIST"
  shows "excl (queued q e) (r(q := Waiting unlock)) (asleep(q := True))"
proof -
  let ?i = "nextListIndexAvailable (m_blocked e) MAX_BLOCKED"
  note D = exclD[OF assms(1)]
  have w: "waiting (queued q e) = insert ?i (waiting e)" "?i \<notin> waiting e"
    using waiting_queued[OF assms(5,4)] free_cellD(1)[OF assms(5)] by simp_all
  have b: "m_blocked (queued q e) = (m_blocked e)(?i := q)" "m_value (queued q e) = LOCKED"
    "m_lockProcess (queued q e) = m_lockProcess e"
    by (simp_all add: queued_def)
  have new: "q \<noteq> m_lockProcess e" "\<And>j. j \<in> waiting e \<Longrightarrow> m_blocked e j \<noteq> q"
    using D(5,6) assms(2,3) by fastforce+
  have img: "m_blocked (queued q e) ` waiting (queued q e) = insert q (m_blocked e ` waiting e)"
    using w by (auto simp: b)
  have inj: "inj_on (m_blocked (queued q e)) (waiting (queued q e))"
    using D(2) w new by (auto simp: b inj_on_def)
  have D4: "k = unlock \<and> (p \<in> m_blocked e ` waiting e \<or> m_lockProcess e = p)" if "r p = Waiting k" for p k
    using D(4)[OF that] by simp
  have D5: "r (m_blocked e j) = Waiting unlock \<and> m_blocked e j \<noteq> m_lockProcess e \<and> asleep (m_blocked e j)"
    if "j \<in> waiting e" for j using D(5)[OF that] .
  show ?thesis
    unfolding excl_def img
    using wf_queued[OF D(1) assms(5,4)] inj D(3) D4 D5 D(6)[OF assms(2)] new assms(2) w(2)
    by (simp add: b(2,3)) (auto simp: w b)
qed

lemma excl_resume:
  assumes "excl e r asleep" "r q = Waiting k" "\<not> asleep q"
  shows "excl e (r(q := Inside)) asleep"
proof -
  note D = exclD[OF assms(1)]
  have q: "m_value e = LOCKED" "m_lockProcess e = q" using D(4)[OF assms(2)] D(5) assms(3) by auto
  then show ?thesis using D assms(3) unfolding excl_def by auto
qed

lemma excl_handover:
  assumes "excl e r asleep" "r q = Inside" "first_waiter e = Some j"
  shows "excl (handover j e) (r(q := Outside)) (asleep(m_blocked e j := False))"
proof -
  note D = exclD[OF assms(1)]
  have q: "m_value e = LOCKED" "m_lockProcess e = q" using D(3)[OF assms(2)] by auto
  have j: "j \<in> waiting e" by (rule first_waiter_Some[OF assms(3)])
  have w: "waiting (handover j e) = waiting e - {j}" by (rule waiting_handover)
  have b: "m_blocked (handover j e) = (m_blocked e)(j := tid NOT_USED NOT_USED)" "m_value (handover j e) = LOCKED"
    "m_lockProcess (handover j e) = m_blocked e j"
    using q by (simp_all add: handover_def)
  have other: "m_blocked e i \<noteq> m_blocked e j \<and> m_blocked e i \<noteq> q" if "i \<in> waiting e - {j}" for i
    using that D(2,5) j q by (auto simp: inj_on_def)
  have img: "m_blocked (handover j e) ` waiting (handover j e) = m_blocked e ` waiting e - {m_blocked e j}"
    using other by (auto simp: w b)
  have inj: "inj_on (m_blocked (handover j e)) (waiting (handover j e))"
    using D(2) by (auto simp: w b inj_on_def)
  have jq: "m_blocked e j \<noteq> q" "r (m_blocked e j) = Waiting unlock" using D(5)[OF j] q by auto
  let ?r = "r(q := Outside)"
  have "?r p \<noteq> Inside" for p using D(3)[of p] q by auto
  moreover have "k = unlock \<and> (p \<in> m_blocked e ` waiting e - {m_blocked e j} \<or> m_blocked e j = p)"
    if "?r p = Waiting k" for p k
    using that D(4)[of p k] q by (auto split: if_splits)
  moreover have "?r (m_blocked e i) = Waiting unlock \<and> m_blocked e i \<noteq> m_blocked e j \<and> asleep (m_blocked e i)"
    if "i \<in> waiting e - {j}" for i
    using that other[OF that] D(5)[of i] by simp
  ultimately show ?thesis
    unfolding excl_def img
    using wf_handover[OF D(1) j] inj jq by (simp add: b w)
qed

lemma excl_free:
  assumes "excl e r asleep" "r q = Inside" "first_waiter e = None"
  shows "excl (e\<lparr>m_value := UNLOCKED\<rparr>) (r(q := Outside)) asleep"
proof -
  note D = exclD[OF assms(1)]
  have q: "m_value e = LOCKED" "m_lockProcess e = q" using D(3)[OF assms(2)] by auto
  have w: "waiting e = {}" using assms(3) by (simp add: first_waiter_None)
  then have "m_blockedQuantity e = 0" using D(1) by (simp add: mutex_wf_def)
  then have "mutex_wf (e\<lparr>m_value := UNLOCKED\<rparr>)" by (rule wf_free[OF D(1)])
  moreover have "r p = Outside" if "p \<noteq> q" for p
    using that D(3)[of p] D(4)[of p] w q by (cases "r p") auto
  ultimately show ?thesis using w by (simp add: excl_def)
qed

text \<open>With at most 31 users there is always a place to wait.\<close>

lemma excl_room:
  assumes "excl e r asleep" "m_value e = LOCKED" "r q = Outside" "q \<in> users" "\<And>p. r p \<noteq> Outside \<Longrightarrow> p \<in> users"
    "finite users" "card users \<le> 31"
  shows "nextListIndexAvailable (m_blocked e) MAX_BLOCKED \<noteq> FULL_LIST"
proof
  assume full: "nextListIndexAvailable (m_blocked e) MAX_BLOCKED = FULL_LIST"
  note D = exclD[OF assms(1)]
  have all: "waiting e = {0..<MAX_BLOCKED}"
    using free_cell.full[OF full] by (auto simp: waiting_def MAX_BLOCKED_def)
  have "m_blocked e ` waiting e \<subseteq> users - {m_lockProcess e, q}"
    using D(5) assms(3,5) by force
  then have "card (m_blocked e ` waiting e) \<le> card (users - {m_lockProcess e, q})"
    using assms(6) by (intro card_mono) auto
  moreover have "card (m_blocked e ` waiting e) = 30"
    by (subst card_image[OF D(2)]) (simp add: all MAX_BLOCKED_def)
  moreover have "m_lockProcess e \<noteq> q" "m_lockProcess e \<in> users" using D(6)[OF assms(2)] assms(3,5) by auto
  then have "card (users - {m_lockProcess e, q}) = card users - 2"
    using assms(4,6) by (subst card_Diff_subset) auto
  ultimately show False using assms(7) by simp
qed

section \<open>Switching between threads\<close>

definition addr_of :: "kstate \<Rightarrow> threadId_t \<Rightarrow> addr option" where
  "addr_of s q = thread_at s (tid_pid q) (tid_thread q)"

definition state_of :: "kstate \<Rightarrow> addr \<Rightarrow> processState" where
  "state_of s a = th_state (the (thrs s a))"

definition asleep :: "kstate \<Rightarrow> threadId_t \<Rightarrow> bool" where
  "asleep s q \<longleftrightarrow> (\<exists>a. addr_of s q = Some a \<and> state_of s a = BLOCKED)"

text \<open>The thread in use, by its numbers.\<close>

definition cur_id :: "kstate \<Rightarrow> threadId_t" where
  "cur_id s = (let pr = proc_at s (current (sched s)) in tid (pr_pid pr) (pr_currentThread pr))"

definition pids_distinct :: "kstate \<Rightarrow> bool" where
  "pids_distinct s \<longleftrightarrow> inj_on (\<lambda>i. pr_pid (proc_at s i)) (set (proc_slots (sched s)))"

text \<open>Two states whose tables list the same processes and threads.\<close>

definition same_view :: "kstate \<Rightarrow> kstate \<Rightarrow> bool" where
  "same_view s s' \<longleftrightarrow> set (proc_slots (sched s')) = set (proc_slots (sched s)) \<and>
     (\<forall>i \<in> set (proc_slots (sched s)). pr_pid (proc_at s' i) = pr_pid (proc_at s i) \<and>
        pr_threads (proc_at s' i) = pr_threads (proc_at s i) \<and>
        set (thread_slots (proc_at s' i)) = set (thread_slots (proc_at s i)))"

lemma same_view_trans: "same_view s s' \<Longrightarrow> same_view s' s'' \<Longrightarrow> same_view s s''"
  by (simp add: same_view_def)

lemma same_viewI:
  assumes "processes (sched s') = processes (sched s)" "current (sched s') = current (sched s)" "procs s' = procs s"
  shows "same_view s s'"
proof -
  have "proc_slots (sched s') = proc_slots (sched s)" using assms by (intro proc_slots_cong)
  moreover have "proc_at s' i = proc_at s i" for i using assms by (simp add: proc_at_def)
  ultimately show ?thesis by (simp add: same_view_def)
qed

lemma lookup_iff: "pids_distinct s \<Longrightarrow>
    lookup s pid = Some i \<longleftrightarrow> i \<in> set (proc_slots (sched s)) \<and> pr_pid (proc_at s i) = pid"
proof
  assume d: "pids_distinct s" and i: "i \<in> set (proc_slots (sched s)) \<and> pr_pid (proc_at s i) = pid"
  then have "lookup s pid \<noteq> None" by (auto simp: lookup_def find_None_iff)
  then obtain j where j: "lookup s pid = Some j" by auto
  then have "j \<in> set (proc_slots (sched s))" "pr_pid (proc_at s j) = pid"
    unfolding lookup_def using find_SomeD[OF j[unfolded lookup_def]] by simp_all
  then show "lookup s pid = Some i" using i d j by (auto simp: pids_distinct_def inj_on_def)
qed (auto simp: lookup_def dest!: find_SomeD)

lemma same_view_lookup:
  assumes "same_view s s'" "pids_distinct s"
  shows "pids_distinct s'" "lookup s' pid = lookup s pid"
proof -
  show d: "pids_distinct s'" using assms by (auto simp: pids_distinct_def same_view_def inj_on_def)
  have "lookup s' pid = Some i \<longleftrightarrow> lookup s pid = Some i" for i
    using assms by (auto simp: lookup_iff[OF d] lookup_iff[OF assms(2)] same_view_def)
  then show "lookup s' pid = lookup s pid" by (metis not_None_eq)
qed

lemma same_view_addr:
  assumes "same_view s s'" "pids_distinct s"
  shows "addr_of s' q = addr_of s q"
proof -
  have "pr_threads (proc_at s' i) = pr_threads (proc_at s i)" if "lookup s pid = Some i" for i pid
    using that assms(1) by (simp add: lookup_iff[OF assms(2)] same_view_def)
  then show ?thesis
    by (auto simp: addr_of_def thread_at_def same_view_lookup[OF assms] split: option.split)
qed

text \<open>The thread in use is found by its numbers.\<close>

lemma addr_of_cur:
  assumes "sched_ok s"
  shows "addr_of s (cur_id s) = Some (cur_thread_addr s)"
proof -
  have "lookup s (tid_pid (cur_id s)) = Some (current (sched s))"
    by (simp add: lookup_def proc_slots_def cur_id_def Let_def)
  then show ?thesis
    using cur_threadI(2)[OF sched_okD(3)[OF assms]]
    by (simp add: addr_of_def thread_at_def cur_id_def cur_thread_addr_def Let_def)
qed

lemma proc_at_elected: "proc_at (switch_to i (elect s i)) j =
    (if rr_process (processes (sched s) j) = rr_process (processes (sched s) i)
     then (proc_at s i)\<lparr>pr_currentThread := the (pick_thread s (proc_at s i))\<rparr> else proc_at s j)"
  by (simp add: switch_to_def proc_at_def[of _ j]) (simp add: elect_def)

lemma same_view_switched:
  assumes "sched_ok s"
  shows "same_view s (switched s)"
proof (cases "next_slot (demote s)")
  case None
  have "switch_to (current (sched s)) (demote s) = switched s" using None by (simp add: switched_def)
  then show ?thesis by (intro same_viewI) (simp_all add: switched_def None switch_to_def)
next
  case (Some i)
  let ?d = "demote s" and ?e = "elect (demote s) i"
  have ok: "sched_ok ?d" by (rule sched_ok_demote[OF assms])
  note i = next_slotD[OF Some]
  have ip: "proc_ok ?d (rr_process (processes (sched s) i))" using ok i by (simp add: sched_ok_def)
  have slots: "set (proc_slots (sched (switched s))) = set (proc_slots (sched s))"
    using proc_slots_switch(1)[OF sched_ok_elect[OF ok], of i i] i by (simp add: switched_def Some)
  have at: "proc_at (switched s) j = (if rr_process (processes (sched s) j) = rr_process (processes (sched s) i)
      then (proc_at ?d i)\<lparr>pr_currentThread := the (pick_thread ?d (proc_at ?d i))\<rparr> else proc_at s j)" for j
    by (simp add: switched_def Some proc_at_elected) (simp add: proc_at_def)
  have at_i: "proc_at ?d i = proc_at s i" by (simp add: proc_at_def)
  have same: "proc_at s j = proc_at s i" if "rr_process (processes (sched s) j) = rr_process (processes (sched s) i)" for j
    using that by (simp add: proc_at_def)
  have "procs ?d (rr_process (processes (sched s) i)) = Some (proc_at s i)"
    using proc_ok_at[of ?d i] ip at_i by simp
  then have set_i: "set (thread_slots ((proc_at s i)\<lparr>pr_currentThread := the (pick_thread ?d (proc_at s i))\<rparr>)) =
      set (thread_slots (proc_at s i))"
    using thread_slots_elect[OF _ ip] pick_in_range(2)[of ?d i] ip i at_i by simp
  have "pr_pid (proc_at (switched s) j) = pr_pid (proc_at s j) \<and>
      pr_threads (proc_at (switched s) j) = pr_threads (proc_at s j) \<and>
      set (thread_slots (proc_at (switched s) j)) = set (thread_slots (proc_at s j))" for j
    using set_i same[of j] unfolding at at_i by simp
  then show ?thesis using slots by (simp add: same_view_def)
qed

section \<open>A thread that never sleeps\<close>

text \<open>
  The process \<open>init\<close> halts in a loop and never blocks: its thread is ready, or it runs and is the one in use.
  So a thread that blocks always finds another one to switch to.
\<close>

definition idle_runs :: "threadId_t \<Rightarrow> kstate \<Rightarrow> bool" where
  "idle_runs q s \<longleftrightarrow> (\<exists>i \<in> set (proc_slots (sched s)). pr_pid (proc_at s i) = tid_pid q \<and>
     tid_thread q \<in> set (thread_slots (proc_at s i)) \<and>
     (let a = tn_thread (pr_threads (proc_at s i) (tid_thread q)) in
       state_of s a = READY \<or> state_of s a = RUNNING \<and> a = cur_thread_addr s))"

definition sys_ok :: "threadId_t \<Rightarrow> kstate \<Rightarrow> bool" where
  "sys_ok idle s \<longleftrightarrow> threads_ok s \<and> lockQuantumExceded (sched s) = 0 \<and> changeLock (sched s) \<noteq> 1 \<and>
     pids_distinct s \<and> idle_runs idle s"

lemma state_of_demote:
  assumes "sched_ok s"
  shows "state_of (demote s) a = (if a = cur_thread_addr s \<and> state_of s a = RUNNING then READY else state_of s a)"
  by (auto simp: demote_def set_cur_state_def state_of_def cur_thread_def)

lemma ready_slot:
  assumes "sched_ok s" "pids_distinct s" "idle_runs q s" "i \<in> set (proc_slots (sched s))" "pr_pid (proc_at s i) = tid_pid q"
  shows "has_ready (demote s) i"
proof -
  let ?d = "demote s"
  have j: "tid_thread q \<in> set (thread_slots (proc_at s i))"
    "state_of ?d (tn_thread (pr_threads (proc_at s i) (tid_thread q))) = READY"
    using assms(2-5) by (auto simp: idle_runs_def state_of_demote[OF assms(1)] Let_def pids_distinct_def inj_on_def)
  have at: "proc_at ?d i = proc_at s i" by (simp add: proc_at_def)
  have p: "proc_ok ?d (rr_process (processes (sched s) i))"
    using sched_ok_demote[OF assms(1)] assms(4) by (simp add: sched_ok_def)
  then have "thrs ?d (tn_thread (pr_threads (proc_at s i) (tid_thread q))) \<noteq> None"
    using j(1) proc_ok_at[of ?d i] at by (auto simp: proc_ok_def)
  then have "thread_ready ?d (proc_at s i) (tid_thread q)"
    using j(2) by (auto simp: thread_ready_def state_of_def)
  then show ?thesis using j(1) at by (auto simp: has_ready_def pick_thread_def find_None_iff thread_slots_def)
qed

lemma idle_ready:
  assumes "sched_ok s" "pids_distinct s" "idle_runs q s"
  obtains i where "next_slot (demote s) = Some i"
proof -
  obtain j where "j \<in> set (proc_slots (sched s))" "pr_pid (proc_at s j) = tid_pid q"
    using assms(3) by (auto simp: idle_runs_def)
  then have "next_slot (demote s) \<noteq> None"
    using ready_slot[OF assms] by (auto simp: next_slot_def find_None_iff proc_slots_def)
  then show ?thesis using that by auto
qed

text \<open>What a switch does to the threads: the one in use has given up the processor, a ready one runs.\<close>

lemma cur_after_switch:
  assumes "sched_ok s" "next_slot (demote s) = Some i"
  shows "state_of (demote s) (cur_thread_addr (switched s)) = READY" "thrs (switched s) = thrs (demote s)"
proof -
  let ?d = "demote s"
  have ok: "sched_ok ?d" by (rule sched_ok_demote[OF assms(1)])
  note i = next_slotD[OF assms(2)]
  then obtain t where t: "pick_thread ?d (proc_at ?d i) = Some t" by (auto simp: has_ready_def)
  have at: "proc_at (switched s) i = (proc_at ?d i)\<lparr>pr_currentThread := t\<rparr>" "current (sched (switched s)) = i"
    using proc_at_elected[of i ?d i] by (simp_all add: switched_def assms(2) t) (simp add: switch_to_def)
  then have "cur_thread_addr (switched s) = tn_thread (pr_threads (proc_at ?d i) t)"
    by (simp add: cur_thread_addr_def Let_def)
  then show "state_of ?d (cur_thread_addr (switched s)) = READY"
    using pick_threadD[OF t] by (auto simp: thread_ready_def state_of_def split: option.splits)
  show "thrs (switched s) = thrs ?d" by (simp add: switched_def assms(2) switch_to_def)
qed

definition resched :: "kstate \<Rightarrow> kstate" where
  "resched s = set_cur_state RUNNING (switched s)"

lemma resched_frames [simp]:
  "mut (resched s) = mut s" "entry (resched s) m = entry s m"
  "changeLock (sched (resched s)) = changeLock (sched s)"
  "lockQuantumExceded (sched (resched s)) = lockQuantumExceded (sched s)"
  by (simp_all add: resched_def entry_def) (simp_all add: set_cur_state_def)

lemma state_of_resched:
  assumes "sched_ok s" "next_slot (demote s) = Some i"
  shows "cur_thread_addr (resched s) = cur_thread_addr (switched s)"
    "state_of (resched s) a = (if a = cur_thread_addr (switched s) then RUNNING else state_of (demote s) a)"
proof -
  show "cur_thread_addr (resched s) = cur_thread_addr (switched s)"
    by (simp add: resched_def cur_thread_addr_def proc_at_def)
  show "state_of (resched s) a = (if a = cur_thread_addr (switched s) then RUNNING else state_of (demote s) a)"
    by (simp add: resched_def set_cur_state_def state_of_def cur_after_switch[OF assms])
qed

lemma idle_runs_addr:
  assumes "sched_ok s" "pids_distinct s" "idle_runs q s"
  obtains i a where "i \<in> set (proc_slots (sched s))" "pr_pid (proc_at s i) = tid_pid q"
    "tid_thread q \<in> set (thread_slots (proc_at s i))" "a = tn_thread (pr_threads (proc_at s i) (tid_thread q))"
    "addr_of s q = Some a" "state_of s a = READY \<or> state_of s a = RUNNING \<and> a = cur_thread_addr s"
proof -
  obtain i where i: "i \<in> set (proc_slots (sched s))" "pr_pid (proc_at s i) = tid_pid q"
    "tid_thread q \<in> set (thread_slots (proc_at s i))"
    "let a = tn_thread (pr_threads (proc_at s i) (tid_thread q)) in
       state_of s a = READY \<or> state_of s a = RUNNING \<and> a = cur_thread_addr s"
    using assms(3) by (auto simp: idle_runs_def)
  have "lookup s (tid_pid q) = Some i" using i by (simp add: lookup_iff[OF assms(2)])
  moreover have "proc_ok s (rr_process (processes (sched s) i))" using assms(1) i(1) by (simp add: sched_ok_def)
  then have "in_range (tid_thread q) MAX_THREADS" using i(3) proc_ok_at[of s i] by (auto simp: proc_ok_def)
  ultimately have "addr_of s q = Some (tn_thread (pr_threads (proc_at s i) (tid_thread q)))"
    by (simp add: addr_of_def thread_at_def)
  then show ?thesis using that[OF i(1-3) refl] i(4) by (simp add: Let_def)
qed

lemma idle_runs_view:
  assumes "same_view s s'" "sched_ok s" "pids_distinct s" "idle_runs q s"
    and "\<And>a. addr_of s q = Some a \<Longrightarrow> state_of s a = READY \<or> state_of s a = RUNNING \<and> a = cur_thread_addr s \<Longrightarrow>
      state_of s' a = READY \<or> state_of s' a = RUNNING \<and> a = cur_thread_addr s'"
  shows "idle_runs q s'"
proof -
  obtain i a where i: "i \<in> set (proc_slots (sched s))" "pr_pid (proc_at s i) = tid_pid q"
    "tid_thread q \<in> set (thread_slots (proc_at s i))" "a = tn_thread (pr_threads (proc_at s i) (tid_thread q))"
    "addr_of s q = Some a" "state_of s a = READY \<or> state_of s a = RUNNING \<and> a = cur_thread_addr s"
    by (rule idle_runs_addr[OF assms(2-4)])
  then show ?thesis
    using assms(1) assms(5)[OF i(5,6)] unfolding idle_runs_def same_view_def by (intro bexI[of _ i]) auto
qed

lemma threads_ok_view:
  assumes "same_view s s'" "pids_distinct s" "threads_ok s" "sched_ok s'" "\<And>a. thrs s a \<noteq> None \<Longrightarrow> thrs s' a \<noteq> None"
  shows "threads_ok s'"
proof -
  have "thread_at s' pid t = thread_at s pid t" for pid t
    using same_view_addr[OF assms(1,2), of "tid pid t"] by (simp add: addr_of_def)
  then show ?thesis using assms(3-5) by (auto simp: threads_ok_def)
qed

lemma same_view_resched: "sched_ok s \<Longrightarrow> same_view s (resched s)"
  by (rule same_view_trans[OF same_view_switched same_viewI]) (simp_all add: resched_def)

lemma sys_ok_resched:
  assumes "sys_ok idle s"
  shows "sys_ok idle (resched s)" "state_of (resched s) (cur_thread_addr (resched s)) = RUNNING"
    "addr_of (resched s) q = addr_of s q" "asleep (resched s) q = asleep s q"
proof -
  have S: "threads_ok s" "sched_ok s" "pids_distinct s" "idle_runs idle s" using assms by (auto simp: sys_ok_def threads_ok_def)
  obtain i where i: "next_slot (demote s) = Some i" by (rule idle_ready[OF S(2-4)])
  note st = state_of_resched[OF S(2) i]
  note view = same_view_resched[OF S(2)]
  show addr: "addr_of (resched s) q = addr_of s q" for q by (rule same_view_addr[OF view S(3)])
  show "state_of (resched s) (cur_thread_addr (resched s)) = RUNNING" using st by simp
  have blocked: "state_of (resched s) a = BLOCKED \<longleftrightarrow> state_of s a = BLOCKED" for a
    using st(2) cur_after_switch(1)[OF S(2) i] by (auto simp: state_of_demote[OF S(2)] split: if_splits)
  then show "asleep (resched s) q = asleep s q" by (simp add: asleep_def addr)
  have "sched_ok (resched s)"
    unfolding resched_def by (rule sched_ok_set_cur_state[OF sched_ok_switched[OF S(2)]])
  moreover have "thrs (resched s) a \<noteq> None" if "thrs s a \<noteq> None" for a
    using that cur_after_switch(2)[OF S(2) i] by (simp add: resched_def set_cur_state_def demote_def)
  ultimately have "threads_ok (resched s)" using threads_ok_view[OF view S(3,1)] by blast
  moreover have "idle_runs idle (resched s)"
    by (rule idle_runs_view[OF view S(2-4)]) (auto simp: st state_of_demote[OF S(2)])
  ultimately show "sys_ok idle (resched s)"
    using assms same_view_lookup(1)[OF view S(3)] by (simp add: sys_ok_def)
qed

text \<open>Changes that keep the tables and the states of the threads.\<close>

lemma sys_ok_cong:
  assumes "sys_ok idle s" "threads_ok s'" "processes (sched s') = processes (sched s)"
    "current (sched s') = current (sched s)" "procs s' = procs s" "\<And>a. state_of s' a = state_of s a"
    "lockQuantumExceded (sched s') = 0" "changeLock (sched s') \<noteq> 1"
  shows "sys_ok idle s'" "addr_of s' q = addr_of s q" "asleep s' q = asleep s q" "cur_thread_addr s' = cur_thread_addr s"
    "cur_id s' = cur_id s"
proof -
  have S: "sched_ok s" "pids_distinct s" "idle_runs idle s" using assms(1) by (auto simp: sys_ok_def threads_ok_def)
  have view: "same_view s s'" by (rule same_viewI) fact+
  show addr: "addr_of s' q = addr_of s q" for q by (rule same_view_addr[OF view S(2)])
  have at: "proc_at s' i = proc_at s i" for i using assms(3,5) by (simp add: proc_at_def)
  then show cur: "cur_thread_addr s' = cur_thread_addr s" "cur_id s' = cur_id s"
    using assms(4) by (simp_all add: cur_thread_addr_def cur_id_def)
  show "asleep s' q = asleep s q" by (simp add: asleep_def addr assms(6))
  have "idle_runs idle s'" by (rule idle_runs_view[OF view S]) (simp add: assms(6) cur)
  then show "sys_ok idle s'"
    using assms(2,7,8) same_view_lookup(1)[OF view S(2)] by (simp add: sys_ok_def)
qed

lemma state_of_frames [simp]:
  "state_of (set_lock v s) = state_of s" "state_of (set_entry m x s) = state_of s" "state_of (seized m x s) = state_of s" "state_of (s\<lparr>cpu_rsp := p\<rparr>) = state_of s"
  by (simp_all add: state_of_def[abs_def])

lemma sys_ok_entry:
  assumes "sys_ok idle s"
  shows "sys_ok idle (set_lock 0 (set_entry m x s))"
    "addr_of (set_lock 0 (set_entry m x s)) q = addr_of s q" "asleep (set_lock 0 (set_entry m x s)) q = asleep s q"
    "cur_thread_addr (set_lock 0 (set_entry m x s)) = cur_thread_addr s"
proof -
  have "threads_ok (set_lock 0 (set_entry m x s))" "lockQuantumExceded (sched s) = 0"
    using assms by (simp_all add: sys_ok_def)
  then show "sys_ok idle (set_lock 0 (set_entry m x s))"
    "addr_of (set_lock 0 (set_entry m x s)) q = addr_of s q" "asleep (set_lock 0 (set_entry m x s)) q = asleep s q"
    "cur_thread_addr (set_lock 0 (set_entry m x s)) = cur_thread_addr s"
    using sys_ok_cong[OF assms, of "set_lock 0 (set_entry m x s)"] by simp_all
qed

lemma sys_ok_seized:
  assumes "sys_ok idle s"
  shows "sys_ok idle (set_lock 0 (seized m x s))"
    "addr_of (set_lock 0 (seized m x s)) q = addr_of s q" "asleep (set_lock 0 (seized m x s)) q = asleep s q"
    "cur_thread_addr (set_lock 0 (seized m x s)) = cur_thread_addr s"
proof -
  have "threads_ok (set_lock 0 (seized m x s))" "lockQuantumExceded (sched s) = 0"
    using assms by (simp_all add: sys_ok_def)
  then show "sys_ok idle (set_lock 0 (seized m x s))"
    "addr_of (set_lock 0 (seized m x s)) q = addr_of s q" "asleep (set_lock 0 (seized m x s)) q = asleep s q"
    "cur_thread_addr (set_lock 0 (seized m x s)) = cur_thread_addr s"
    using sys_ok_cong[OF assms, of "set_lock 0 (seized m x s)"] by simp_all
qed

lemma yielded_resched:
  "yielded s = (resched (save_stack s))\<lparr>cpu_rsp := th_stack (cur_thread (switched (save_stack s)))\<rparr>"
  by (simp add: yielded_def Let_def resched_def set_cur_state_def cur_thread_def cur_thread_addr_def proc_at_def)

lemma same_view_yielded:
  assumes "sched_ok s"
  shows "same_view s (yielded s)"
proof -
  have "same_view s (save_stack s)" by (rule same_viewI) (simp_all add: save_stack_def)
  moreover have "same_view (save_stack s) (resched (save_stack s))"
    by (rule same_view_resched[OF sched_ok_save_stack[OF assms]])
  moreover have "same_view (resched (save_stack s)) (yielded s)"
    by (rule same_viewI) (simp_all add: yielded_resched)
  ultimately show ?thesis by (blast intro: same_view_trans)
qed

lemma sys_ok_yielded:
  assumes "sys_ok idle s"
  shows "sys_ok idle (yielded s)" "state_of (yielded s) (cur_thread_addr (yielded s)) = RUNNING"
    "addr_of (yielded s) q = addr_of s q" "asleep (yielded s) q = asleep s q"
proof -
  have S: "threads_ok s" "sched_ok s" using assms by (auto simp: sys_ok_def threads_ok_def)
  have st: "state_of (save_stack s) a = state_of s a" for a
    by (simp add: state_of_def save_stack_def cur_thread_def)
  have "thread_at (save_stack s) pid t = thread_at s pid t" for pid t
    by (rule thread_at_cong) (simp_all add: save_stack_def)
  moreover have "thrs (save_stack s) a \<noteq> None" if "thrs s a \<noteq> None" for a using that by (simp add: save_stack_def)
  ultimately have "threads_ok (save_stack s)"
    using S sched_ok_save_stack[OF S(2)] by (auto simp: threads_ok_def)
  note save = sys_ok_cong[OF assms this _ _ _ st]
  have "procs (save_stack s) = procs s" by (simp add: save_stack_def)
  then have sv: "sys_ok idle (save_stack s)" "addr_of (save_stack s) q = addr_of s q" "asleep (save_stack s) q = asleep s q"
    using save assms by (simp_all add: sys_ok_def)
  note re = sys_ok_resched[OF sv(1)]
  have "sched_ok (resched (save_stack s))" using re(1) by (simp add: sys_ok_def threads_ok_def)
  moreover have "threads_ok (yielded s) = threads_ok (resched (save_stack s))"
    unfolding yielded_resched by (rule threads_ok_cong) simp_all
  ultimately have "threads_ok (yielded s)" using re(1) by (simp add: sys_ok_def)
  note y = sys_ok_cong[OF re(1) this]
  have *: "processes (sched (yielded s)) = processes (sched (resched (save_stack s)))"
    "current (sched (yielded s)) = current (sched (resched (save_stack s)))" "procs (yielded s) = procs (resched (save_stack s))"
    "\<And>a. state_of (yielded s) a = state_of (resched (save_stack s)) a"
    "lockQuantumExceded (sched (yielded s)) = 0" "changeLock (sched (yielded s)) \<noteq> 1"
    using assms by (simp_all add: yielded_resched sys_ok_def)
  show "sys_ok idle (yielded s)" "addr_of (yielded s) q = addr_of s q" "asleep (yielded s) q = asleep s q"
    using y[OF *] re sv by simp_all
  show "state_of (yielded s) (cur_thread_addr (yielded s)) = RUNNING"
    using y(4)[OF *] re(2) *(4) by simp
qed

lemma sys_ok_set_state:
  assumes "sys_ok idle s" "addr_of s q = Some a" "addr_of s idle \<noteq> Some a"
  shows "sys_ok idle (set_state (tid_pid q) (tid_thread q) st s)"
    "addr_of (set_state (tid_pid q) (tid_thread q) st s) p = addr_of s p"
    "asleep (set_state (tid_pid q) (tid_thread q) st s) p = (if addr_of s p = Some a then st = BLOCKED else asleep s p)"
    "cur_thread_addr (set_state (tid_pid q) (tid_thread q) st s) = cur_thread_addr s"
    "state_of (set_state (tid_pid q) (tid_thread q) st s) b = (if b = a then st else state_of s b)"
proof -
  let ?s = "set_state (tid_pid q) (tid_thread q) st s"
  have S: "threads_ok s" "sched_ok s" "pids_distinct s" "idle_runs idle s" using assms by (auto simp: sys_ok_def threads_ok_def)
  have view: "same_view s ?s" by (rule same_viewI) simp_all
  show addr: "addr_of ?s p = addr_of s p" for p by (rule same_view_addr[OF view S(3)])
  show state: "state_of ?s b = (if b = a then st else state_of s b)" for b
    using assms(2) by (simp add: state_of_def set_state_def addr_of_def)
  then show "asleep ?s p = (if addr_of s p = Some a then st = BLOCKED else asleep s p)"
    by (auto simp: asleep_def addr)
  show cur: "cur_thread_addr ?s = cur_thread_addr s" by (simp add: cur_thread_addr_def proc_at_def)
  have "idle_runs idle ?s" by (rule idle_runs_view[OF view S(2-4)]) (use assms(3) in \<open>auto simp: state cur\<close>)
  then show "sys_ok idle ?s"
    using assms(1) same_view_lookup(1)[OF view S(3)] threads_ok_set_state[OF S(1)] by (simp add: sys_ok_def)
qed

section \<open>Steps of the system\<close>

text \<open>
  The thread in use calls \<open>mutexDown\<close>, which returns or leaves it waiting with a rest to do; goes on with that
  rest; gives the mutex back; or calls \<open>mutexUp\<close> without being inside.  The timer may switch at any time.
\<close>

inductive mstep :: "killer \<Rightarrow> int \<Rightarrow> threadId_t set \<Rightarrow>
    kstate \<times> (threadId_t \<Rightarrow> region) \<Rightarrow> kstate \<times> (threadId_t \<Rightarrow> region) \<Rightarrow> bool"
  for kt m users where
  take: "\<lbrakk>cur_id s = q; q \<in> users; r q = Outside; mutexDown kt m (tid_pid q) (tid_thread q) s = Done () s'\<rbrakk> \<Longrightarrow>
    mstep kt m users (s, r) (s', r(q := Inside))"
| wait: "\<lbrakk>cur_id s = q; q \<in> users; r q = Outside; mutexDown kt m (tid_pid q) (tid_thread q) s = Yield s' k\<rbrakk> \<Longrightarrow>
    mstep kt m users (s, r) (s', r(q := Waiting k))"
| resume: "\<lbrakk>cur_id s = q; r q = Waiting k; k s = Done () s'\<rbrakk> \<Longrightarrow> mstep kt m users (s, r) (s', r(q := Inside))"
| give: "\<lbrakk>cur_id s = q; r q = Inside; mutexUp m (tid_pid q) (tid_thread q) s = Done () s'\<rbrakk> \<Longrightarrow>
    mstep kt m users (s, r) (s', r(q := Outside))"
| intrude: "\<lbrakk>cur_id s = q; r q = Outside; mutexUp m (tid_pid q) (tid_thread q) s = Done () s'\<rbrakk> \<Longrightarrow>
    mstep kt m users (s, r) (s', r)"
| tick: "nextProcess s = Done rsp s' \<Longrightarrow> mstep kt m users (s, r) (s', r)"

text \<open>The users of the mutex: at most 31 threads, none of them the one that never sleeps.\<close>

definition clients :: "threadId_t set \<Rightarrow> threadId_t \<Rightarrow> kstate \<Rightarrow> bool" where
  "clients users idle s \<longleftrightarrow> finite users \<and> card users \<le> 31 \<and> idle \<notin> users \<and>
     (\<forall>q \<in> users. tid_pid q \<noteq> NOT_USED \<and> addr_of s q \<noteq> None) \<and> inj_on (addr_of s) (insert idle users)"

definition minv :: "int \<Rightarrow> threadId_t set \<Rightarrow> threadId_t \<Rightarrow> kstate \<times> (threadId_t \<Rightarrow> region) \<Rightarrow> bool" where
  "minv m users idle = (\<lambda>(s, r). sys_ok idle s \<and> clients users idle s \<and> valid_mutex s m \<and>
     state_of s (cur_thread_addr s) \<noteq> BLOCKED \<and> (\<forall>q. r q \<noteq> Outside \<longrightarrow> q \<in> users) \<and> excl (entry s m) r (asleep s))"

lemma minvD:
  assumes "minv m users idle (s, r)"
  shows "sys_ok idle s" "clients users idle s" "valid_mutex s m" "r q \<noteq> Outside \<Longrightarrow> q \<in> users"
    "excl (entry s m) r (asleep s)" "\<not> asleep s (cur_id s)" "threads_ok s" "lockQuantumExceded (sched s) = 0"
    "state_of s (cur_thread_addr s) \<noteq> BLOCKED" "changeLock (sched s) \<noteq> 1" "sched_ok s"
  using assms addr_of_cur[of s] by (auto simp: minv_def sys_ok_def asleep_def threads_ok_def)

lemma valid_mutex_iff: "valid_mutex s m \<longleftrightarrow> in_range m MAX_MUTEXES \<and> tid_pid (m_creator (entry s m)) \<noteq> NOT_USED"
  by (auto simp: valid_mutex_def isValidMutex_def in_range_def entry_def)

lemma minvI:
  assumes "minv m users idle (s, r)" "sys_ok idle s'" "\<And>q. addr_of s' q = addr_of s q"
    "m_creator (entry s' m) = m_creator (entry s m)" "state_of s' (cur_thread_addr s') \<noteq> BLOCKED"
    "\<And>q. r' q \<noteq> Outside \<Longrightarrow> q \<in> users" "excl (entry s' m) r' (asleep s')"
  shows "minv m users idle (s', r')"
proof -
  have "addr_of s' = addr_of s" using assms(3) by blast
  then show ?thesis using assms by (auto simp: minv_def clients_def valid_mutex_iff)
qed

section \<open>Every step keeps the invariant\<close>

lemma clientsD:
  assumes "clients users idle s" "q \<in> users"
  shows "tid_pid q \<noteq> NOT_USED" "\<exists>a. addr_of s q = Some a \<and> addr_of s idle \<noteq> Some a"
    "p \<in> users \<Longrightarrow> addr_of s p = addr_of s q \<longleftrightarrow> p = q" "finite users" "card users \<le> 31"
  using assms unfolding clients_def inj_on_def by (auto; metis)+

lemma tid_eta [simp]: "tid (tid_pid q) (tid_thread q) = q"
  by simp

lemma fun_upd_Outside: "(\<And>p. r p \<noteq> Outside \<Longrightarrow> p \<in> A) \<Longrightarrow> q \<in> A \<Longrightarrow> (r(q := x)) p \<noteq> Outside \<Longrightarrow> p \<in> A"
  by (auto split: if_splits)

lemma sched_frames [simp]:
  "processes (sched (resched s)) = processes (sched s)" "foreground (sched (resched s)) = foreground (sched s)"
  "processes (sched (yielded s)) = processes (sched s)" "foreground (sched (yielded s)) = foreground (sched s)"
  "foreground (sched (set_lock v s)) = foreground (sched s)"
  by (simp_all add: resched_def yielded_resched switched_def switch_to_def set_lock_def split: option.split)

lemma device_frames [simp]:
  "terminal (set_lock v s) = terminal s" "kbd (set_lock v s) = kbd s" "terminal (seized m x s) = terminal s" "kbd (seized m x s) = kbd s"
  "kbd (set_state pid t st s) = kbd s" "terminal (resched s) = terminal s" "kbd (resched s) = kbd s"
  "terminal (yielded s) = terminal s" "kbd (yielded s) = kbd s"
  by (simp_all add: set_lock_def seized_def set_entry_def set_state_def yielded_resched resched_def switched_def switch_to_def
      elect_def demote_def set_cur_state_def save_stack_def split: option.split)

lemma creator_kept [simp]:
  "m_creator (down_free q e) = m_creator e" "m_creator (queued q e) = m_creator e" "m_creator (handover j e) = m_creator e"
  by (simp_all add: down_free_def queued_def handover_def)

lemma minv_down_free:
  assumes "minv m users idle (s, r)" "cur_id s = q" "q \<in> users" "m_value (entry s m) \<noteq> LOCKED"
  shows "\<exists>s'. mutexDown kt m (tid_pid q) (tid_thread q) s = Done () s' \<and> minv m users idle (s', r(q := Inside))"
proof -
  note I = minvD[OF assms(1)]
  let ?s' = "set_lock 0 (seized m (down_free q (entry s m)) s)"
  note frame = sys_ok_seized[OF I(1), of m "down_free q (entry s m)"]
  have a: "asleep ?s' = asleep s" using frame(3) by blast
  have "excl (down_free q (entry s m)) (r(q := Inside)) (asleep s)"
    by (rule excl_take[OF I(5) assms(4)]) (use I(6) assms(2) in simp)
  then have "minv m users idle (?s', r(q := Inside))"
    using I(4,9) assms(3)
    by (intro minvI[OF assms(1) frame(1,2)]) (auto simp: frame(4) a split: if_splits)
  then show ?thesis using mutexDown_free_eq[OF I(3) assms(4) I(8), of kt "tid_pid q" "tid_thread q"] by simp
qed

lemma minv_down_held:
  assumes "minv m users idle (s, r)" "cur_id s = q" "q \<in> users" "r q = Outside" "m_value (entry s m) = LOCKED"
  shows "\<exists>s'. mutexDown kt m (tid_pid q) (tid_thread q) s = Yield s' unlock \<and>
    minv m users idle (s', r(q := Waiting unlock)) \<and> same_view s s' \<and>
    processes (sched s') = processes (sched s) \<and> foreground (sched s') = foreground (sched s) \<and>
    terminal s' = terminal s \<and> kbd s' = kbd s"
proof -
  note I = minvD[OF assms(1)] and C = clientsD[OF minvD(2)[OF assms(1)] assms(3)]
  have room: "nextListIndexAvailable (m_blocked (entry s m)) MAX_BLOCKED \<noteq> FULL_LIST"
    by (rule excl_room[OF I(5) assms(5,4,3) I(4) C(4,5)])
  obtain a where a: "addr_of s q = Some a" "addr_of s idle \<noteq> Some a" using C(2) by blast
  let ?e = "queued q (entry s m)"
  let ?s1 = "set_state (tid_pid q) (tid_thread q) BLOCKED s"
  let ?s2 = "set_lock 0 (seized m ?e ?s1)"
  let ?s3 = "yielded ?s2"
  note f1 = sys_ok_set_state[OF I(1) a, of BLOCKED]
  note f2 = sys_ok_seized[OF f1(1), of m ?e]
  note f3 = sys_ok_yielded[OF f2(1)]
  have addr: "addr_of ?s3 p = addr_of s p" for p using f1(2) f2(2) f3(3) by simp
  have sl: "asleep ?s3 p = ((asleep s)(q := True)) p" if "(r(q := Waiting unlock)) p \<noteq> Outside" for p
    using f1(3) f2(3) f3(4) that I(4)[of p] C(3)[of p] a by (auto split: if_splits)
  have "excl ?e (r(q := Waiting unlock)) (asleep ?s3)"
    by (rule excl_cong[OF excl_queue[OF I(5) assms(5,4) C(1) room]]) (use sl in blast)
  then have "minv m users idle (?s3, r(q := Waiting unlock))"
    using I(4) assms(3) f3(2)
    by (intro minvI[OF assms(1) f3(1) addr]) (auto split: if_splits)
  moreover have "same_view s ?s2" by (rule same_viewI) (simp_all add: seized_def set_entry_def)
  then have "same_view s ?s3"
    using same_view_trans same_view_yielded f2(1) unfolding sys_ok_def threads_ok_def by blast
  moreover have "processes (sched ?s3) = processes (sched s)" "foreground (sched ?s3) = foreground (sched s)"
    "terminal ?s3 = terminal s" "kbd ?s3 = kbd s" by simp_all
  moreover have "mutexDown kt m (tid_pid q) (tid_thread q) s = Yield ?s3 unlock"
    using mutexDown_held_eq[OF I(3) assms(5) I(8) room I(7), of kt "tid_pid q" "tid_thread q"]
    by (simp add: set_state_seized)
  ultimately show ?thesis by blast
qed

lemma minv_up_inside:
  assumes "minv m users idle (s, r)" "r q = Inside"
  shows "\<exists>s'. mutexUp m (tid_pid q) (tid_thread q) s = Done () s' \<and> minv m users idle (s', r(q := Outside))"
proof -
  note I = minvD[OF assms(1)]
  have q: "m_value (entry s m) = LOCKED" "m_lockProcess (entry s m) = q" using exclD(3)[OF I(5) assms(2)] by auto
  note up = mutexUp_owner_eq[OF I(3) _ I(8,7), of "tid_pid q" "tid_thread q"]
  note qty = quantity_first[OF exclD(1)[OF I(5)]]
  have out: "p \<in> users" if "(r(q := Outside)) p \<noteq> Outside" for p using that I(4) by (auto split: if_splits)
  show ?thesis
  proof (cases "first_waiter (entry s m)")
    case None
    let ?e = "(entry s m)\<lparr>m_value := UNLOCKED\<rparr>"
    note frame = sys_ok_entry[OF I(1), of m ?e]
    have "asleep (set_lock 0 (set_entry m ?e s)) = asleep s" using frame(3) by blast
    then have "minv m users idle (set_lock 0 (set_entry m ?e s), r(q := Outside))"
      using excl_free[OF I(5) assms(2) None] I(9) out
      by (intro minvI[OF assms(1) frame(1,2)]) (simp_all add: frame(4))
    then show ?thesis using up qty None q(2) by simp
  next
    case (Some j)
    let ?b = "m_blocked (entry s m) j" and ?e = "handover j (entry s m)"
    have b: "r ?b = Waiting unlock" "?b \<in> users"
      using exclD(5)[OF I(5) first_waiter_Some[OF Some]] I(4)[of ?b] by auto
    note C = clientsD[OF I(2) b(2)]
    obtain a where a: "addr_of s ?b = Some a" "addr_of s idle \<noteq> Some a" using C(2) by blast
    let ?s1 = "set_state (tid_pid ?b) (tid_thread ?b) READY s"
    let ?s2 = "set_lock 0 (set_entry m ?e ?s1)"
    note f1 = sys_ok_set_state[OF I(1) a, of READY]
    note f2 = sys_ok_entry[OF f1(1), of m ?e]
    have addr: "addr_of ?s2 p = addr_of s p" for p using f1(2) f2(2) by simp
    have sl: "asleep ?s2 p = ((asleep s)(?b := False)) p" if "(r(q := Outside)) p \<noteq> Outside" for p
      using f1(3) f2(3) out[OF that] C(3)[of p] a by auto
    have "excl ?e (r(q := Outside)) (asleep ?s2)"
      by (rule excl_cong[OF excl_handover[OF I(5) assms(2) Some]]) (use sl in blast)
    then have "minv m users idle (?s2, r(q := Outside))"
      using I(9) out
      by (intro minvI[OF assms(1) f2(1) addr]) (simp_all add: f2(4) f1(4,5))
    then show ?thesis using up qty Some q(2) by (simp add: Let_def)
  qed
qed

lemma minv_up_outside:
  assumes "minv m users idle (s, r)" "r q = Outside"
  shows "\<exists>s'. mutexUp m (tid_pid q) (tid_thread q) s = Done () s' \<and> minv m users idle (s', r)"
proof -
  note I = minvD[OF assms(1)]
  have "mutexUp m (tid_pid q) (tid_thread q) s = Done () (set_lock 0 (set_entry m (entry s m) s))"
  proof (cases "m_lockProcess (entry s m) = q")
    case True
    then have v: "m_value (entry s m) = UNLOCKED"
      using exclD(6)[OF I(5)] exclD(1)[OF I(5)] assms(2) by (auto simp: mutex_wf_def)
    then have "first_waiter (entry s m) = None"
      using exclD(1)[OF I(5)] by (simp add: mutex_wf_def first_waiter_None)
    moreover have "(entry s m)\<lparr>m_value := UNLOCKED\<rparr> = entry s m" using v by (cases "entry s m") simp
    ultimately show ?thesis
      using mutexUp_owner_eq[OF I(3) _ I(8,7), of "tid_pid q" "tid_thread q"] True by simp
  next
    case False
    then show ?thesis using mutexUp_other_eq[of s m "tid_pid q" "tid_thread q"] I(8) by (simp add: set_entry_def entry_def)
  qed
  moreover note frame = sys_ok_entry[OF I(1), of m "entry s m"]
  have "asleep (set_lock 0 (set_entry m (entry s m) s)) = asleep s" using frame(3) by blast
  then have "minv m users idle (set_lock 0 (set_entry m (entry s m) s), r)"
    using I(4,5,9) by (intro minvI[OF assms(1) frame(1,2)]) (simp_all add: frame(4))
  ultimately show ?thesis by blast
qed

lemma minv_resume:
  assumes "minv m users idle (s, r)" "cur_id s = q" "r q = Waiting k"
  shows "\<exists>s'. k s = Done () s' \<and> minv m users idle (s', r(q := Inside))"
proof -
  note I = minvD[OF assms(1)]
  have k: "k = unlock" using exclD(4)[OF I(5) assms(3)] by simp
  have eq: "set_lock 0 s = set_lock 0 (set_entry m (entry s m) s)" by (simp add: set_entry_def entry_def)
  note frame = sys_ok_entry[OF I(1), of m "entry s m", folded eq]
  have a: "asleep (set_lock 0 s) = asleep s" using frame(3) by blast
  have "excl (entry s m) (r(q := Inside)) (asleep s)"
    by (rule excl_resume[OF I(5) assms(3)]) (use I(6) assms(2) in simp)
  then have "minv m users idle (set_lock 0 s, r(q := Inside))"
    using I(4,9) assms(3) by (intro minvI[OF assms(1) frame(1,2)]) (auto simp: frame(4) a split: if_splits)
  then show ?thesis by (simp add: k unlock_app I(8))
qed

lemma minv_tick:
  assumes "minv m users idle (s, r)" "nextProcess s = Done rsp s'"
  shows "minv m users idle (s', r)"
proof -
  note I = minvD[OF assms(1)]
  have s': "s' = resched s" using nextProcess_eq[OF I(11,10)] assms(2) by (simp add: resched_def)
  note re = sys_ok_resched[OF I(1)]
  have "asleep (resched s) = asleep s" using re(4) by blast
  then show ?thesis
    unfolding s' using I(4,5) re(2) by (intro minvI[OF assms(1) re(1,3)]) simp_all
qed

lemma minv_step:
  assumes "minv m users idle c" "mstep kt m users c c'"
  shows "minv m users idle c'"
  using assms(2,1)
proof (cases rule: mstep.cases)
  case (take s q r s')
  then have "m_value (entry s m) \<noteq> LOCKED"
    using minv_down_held[of m users idle s r q kt] assms(1) by auto
  then show ?thesis using minv_down_free[of m users idle s r q kt] take assms(1) by auto
next
  case (wait s q r s' k)
  then have "m_value (entry s m) = LOCKED"
    using minv_down_free[of m users idle s r q kt] assms(1) by auto
  then show ?thesis using minv_down_held[of m users idle s r q kt] wait assms(1) by auto
next
  case (resume s q r k s')
  then show ?thesis using minv_resume[of m users idle s r q k] assms(1) by auto
next
  case (give s q r s')
  then show ?thesis using minv_up_inside[of m users idle s r q] assms(1) by auto
next
  case (intrude s q r s')
  then show ?thesis using minv_up_outside[of m users idle s r q] assms(1) by auto
next
  case (tick s rsp s' r)
  then show ?thesis using minv_tick[of m users idle s r] assms(1) by auto
qed

lemma minv_reachable: "(mstep kt m users)\<^sup>*\<^sup>* c c' \<Longrightarrow> minv m users idle c \<Longrightarrow> minv m users idle c'"
  by (induction rule: rtranclp_induct) (auto intro: minv_step)

section \<open>A concrete system\<close>

text \<open>
  Three processes of one thread each: the thread of the first runs, the second is in the foreground, and the third one
  is \<open>init\<close>.
\<close>

definition ex3_sched :: sched_state where
  "ex3_sched = ex_sched\<lparr>processes := (\<lambda>_. \<lparr>rr_next = 0, rr_process = NULL\<rparr>)(
     0 := \<lparr>rr_next = 1, rr_process = 10\<rparr>, 1 := \<lparr>rr_next = 2, rr_process = 20\<rparr>, 2 := \<lparr>rr_next = 0, rr_process = 30\<rparr>),
     processQuantity := 3, foreground := 20\<rparr>"

definition ex3_state :: "kstate \<Rightarrow> kstate" where
  "ex3_state s = (ex_mutex_state (ex_mutex UNLOCKED nobody 0) s)\<lparr>
     procs := [10 \<mapsto> ex_proc 1 11, 20 \<mapsto> ex_proc 2 21, 30 \<mapsto> ex_proc 3 31],
     thrs := [11 \<mapsto> ex_thread RUNNING, 21 \<mapsto> ex_thread READY, 31 \<mapsto> ex_thread READY], sched := ex3_sched\<rparr>"

lemma ex3_slots: "proc_slots ex3_sched = [0, 1, 2]"
  by (simp add: proc_slots_def ex3_sched_def ex_sched_def plink_def numeral_eq_Suc)

lemma ex3_simps [simp]:
  "sched (ex3_state s) = ex3_sched" "entry (ex3_state s) m = ex_mutex UNLOCKED nobody 0"
  "proc_at (ex3_state s) 0 = ex_proc 1 11" "proc_at (ex3_state s) 1 = ex_proc 2 21" "proc_at (ex3_state s) 2 = ex_proc 3 31"
  "current ex3_sched = 0" "changeLock ex3_sched = 0" "lockQuantumExceded ex3_sched = 0"
  by (simp_all add: ex3_state_def proc_at_def entry_def ex_mutex_state_def) (simp_all add: ex3_sched_def)

lemma ex3_proc_ok: "proc_ok (ex3_state s) 10" "proc_ok (ex3_state s) 20" "proc_ok (ex3_state s) 30"
  by (simp_all add: proc_ok_def ex3_state_def) (simp_all add: tlink_def ex_proc_def in_range_def MAX_THREADS_def)

lemma ex3_procs: "rr_process (processes ex3_sched 0) = 10" "rr_process (processes ex3_sched 1) = 20"
  "rr_process (processes ex3_sched 2) = 30" "plink ex3_sched 0 = 1" "plink ex3_sched 1 = 2" "plink ex3_sched 2 = 0"
  "processQuantity ex3_sched = 3"
  by (simp_all add: ex3_sched_def plink_def)

lemma ex3_sched_ok: "sched_ok (ex3_state s)"
  by (simp add: sched_ok_def ex3_slots ex3_procs ex3_proc_ok in_range_def MAX_PROCESSES_def)

lemma ex_proc_fields: "pr_pid (ex_proc p t) = p" "pr_threads (ex_proc p t) i = \<lparr>tn_thread = t, tn_next = 0\<rparr>"
  "pr_currentThread (ex_proc p t) = 0"
  by (simp_all add: ex_proc_def)

lemma ex3_addr: "addr_of (ex3_state s) (tid p t) = (if in_range t MAX_THREADS
    then if p = 1 then Some 11 else if p = 2 then Some 21 else if p = 3 then Some 31 else None else None)"
proof -
  have "lookup (ex3_state s) p = (if p = 1 then Some 0 else if p = 2 then Some 1 else if p = 3 then Some 2 else None)"
    by (simp add: lookup_def ex3_slots ex_proc_fields)
  then show ?thesis by (auto simp: addr_of_def thread_at_def ex_proc_fields)
qed

lemma ex3_state_of: "state_of (ex3_state s) 11 = RUNNING" "state_of (ex3_state s) 21 = READY" "state_of (ex3_state s) 31 = READY"
  by (simp_all add: state_of_def ex3_state_def ex_thread_def)

lemma ex3_sys_ok: "sys_ok (tid 3 0) (ex3_state s)"
proof -
  have "thrs (ex3_state s) a \<noteq> None" if "thread_at (ex3_state s) p t = Some a" for p t a
    using that ex3_addr[of s p t] by (auto simp: addr_of_def ex3_state_def split: if_splits)
  then have "threads_ok (ex3_state s)" using ex3_sched_ok by (auto simp: threads_ok_def)
  moreover have "pids_distinct (ex3_state s)" by (simp add: pids_distinct_def ex3_slots) (simp add: ex_proc_def)
  moreover have "idle_runs (tid 3 0) (ex3_state s)"
    unfolding idle_runs_def
    by (rule bexI[of _ 2]) (simp_all add: ex3_slots, simp add: ex_proc_def ex3_state_of)
  ultimately show ?thesis by (simp add: sys_ok_def)
qed

lemma ex3_clients: "clients {tid 1 0, tid 2 0} (tid 3 0) (ex3_state s)"
  by (auto simp: clients_def ex3_addr in_range_def MAX_THREADS_def inj_on_def)

lemma ex3_cur: "cur_id (ex3_state s) = tid 1 0" "cur_thread_addr (ex3_state s) = 11"
  by (simp_all add: cur_id_def cur_thread_addr_def ex_proc_fields)

text \<open>The timer takes the processor from the first process to the second, whatever the mutexes and semaphores are.\<close>

lemma ex3_tick:
  assumes "sched t = ex3_sched" "procs t = procs (ex3_state s)" "thrs t = thrs (ex3_state s)"
  shows "\<exists>rsp s'. nextProcess t = Done rsp s' \<and> cur_id s' = tid 2 0 \<and> same_view (ex3_state s) s' \<and>
    processes (sched s') = processes ex3_sched \<and> foreground (sched s') = 20 \<and> terminal s' = terminal t \<and> kbd s' = kbd t"
proof -
  have state: "state_of t = state_of (ex3_state s)" by (simp add: state_of_def[abs_def] assms(3))
  have "threads_ok t = threads_ok (ex3_state s)" by (rule threads_ok_cong) (simp_all add: assms)
  then have tok: "threads_ok t" using ex3_sys_ok by (simp add: sys_ok_def)
  then have ok: "sched_ok t" by (simp add: threads_ok_def)
  note cong = sys_ok_cong[OF ex3_sys_ok tok, of s]
  have at: "proc_at t i = proc_at (ex3_state s) i" for i by (simp add: proc_at_def assms)
  have addr: "cur_thread_addr t = 11" using ex3_cur(2)[of s] by (simp add: cur_thread_addr_def at assms(1))
  have "state_of (demote t) 21 = READY" by (simp add: state_of_demote[OF ok] addr state ex3_state_of)
  moreover have "thrs (demote t) 21 \<noteq> None"
    by (simp add: demote_def set_cur_state_def assms(3)) (simp add: ex3_state_def)
  ultimately have "thread_ready (demote t) (ex_proc 2 21) 0"
    by (auto simp: thread_ready_def ex_proc_fields state_of_def)
  then have pick: "pick_thread (demote t) (ex_proc 2 21) = Some 0" by (simp add: pick_thread_def ex_proc_fields)
  have atd: "proc_at (demote t) 1 = ex_proc 2 21" by (simp add: proc_at_def assms) (simp add: ex3_state_def ex3_procs)
  then have nx: "next_slot (demote t) = Some 1"
    using pick by (simp add: next_slot_def has_ready_def assms(1) ex3_slots)
  have "proc_at (switched t) 1 = ex_proc 2 21"
    using proc_at_elected[of 1 "demote t" 1] atd pick by (simp add: switched_def nx) (simp add: ex_proc_def)
  moreover have "current (sched (switched t)) = 1" by (simp add: switched_current nx)
  ultimately have "cur_id (resched t) = tid 2 0"
    by (simp add: cur_id_def resched_def) (simp add: proc_at_def ex_proc_fields)
  moreover have "same_view (ex3_state s) t" by (rule same_viewI) (simp_all add: assms)
  then have "same_view (ex3_state s) (resched t)" by (rule same_view_trans[OF _ same_view_resched[OF ok]])
  moreover have "foreground (sched t) = 20" by (simp add: assms(1) ex3_sched_def)
  ultimately show ?thesis using nextProcess_eq[OF ok] by (simp add: resched_def[symmetric] assms(1))
qed

lemma ex3_lock: "sched t = ex3_sched \<Longrightarrow> sched (set_lock 0 t) = ex3_sched"
  by (simp add: set_lock_def ex3_sched_def ex_sched_def)

section \<open>Properties\<close>

text \<open>
  The start: the mutex is free and everybody is outside; a thread that is not among the users never sleeps.
\<close>

definition mutex_start :: "int \<Rightarrow> threadId_t set \<Rightarrow> threadId_t \<Rightarrow> kstate \<Rightarrow> bool" where
  "mutex_start m users idle s \<longleftrightarrow> sys_ok idle s \<and> clients users idle s \<and> valid_mutex s m \<and> mutex_wf (entry s m) \<and>
     m_value (entry s m) = UNLOCKED \<and> state_of s (cur_thread_addr s) = RUNNING"

lemma start_minv: "mutex_start m users idle s \<Longrightarrow> minv m users idle (s, \<lambda>_. Outside)"
  by (auto simp: mutex_start_def minv_def excl_def mutex_wf_def)

lemma minv_progress:
  assumes "minv m users idle (s, r)" "cur_id s = q" "q \<in> users"
  shows "\<exists>c'. mstep kt m users (s, r) c' \<and> snd c' q \<noteq> r q"
proof (cases "r q")
  case Outside
  show ?thesis
  proof (cases "m_value (entry s m) = LOCKED")
    case True
    obtain s' where "mutexDown kt m (tid_pid q) (tid_thread q) s = Yield s' unlock"
      using minv_down_held[OF assms Outside True] by blast
    then show ?thesis
      using mstep.wait[of s q users r kt m s' unlock] assms(2,3) Outside by (intro exI[of _ "(s', r(q := Waiting unlock))"]) simp
  next
    case False
    obtain s' where "mutexDown kt m (tid_pid q) (tid_thread q) s = Done () s'"
      using minv_down_free[OF assms False] by blast
    then show ?thesis
      using mstep.take[of s q users r kt m s'] assms(2,3) Outside by (intro exI[of _ "(s', r(q := Inside))"]) simp
  qed
next
  case (Waiting k)
  obtain s' where "k s = Done () s'" using minv_resume[OF assms(1,2) Waiting] by blast
  then show ?thesis
    using mstep.resume[of s q r k s' kt m users] assms(2) Waiting by (intro exI[of _ "(s', r(q := Inside))"]) simp
next
  case Inside
  obtain s' where "mutexUp m (tid_pid q) (tid_thread q) s = Done () s'" using minv_up_inside[OF assms(1) Inside] by blast
  then show ?thesis
    using mstep.give[of s q r m s' kt users] assms(2) Inside by (intro exI[of _ "(s', r(q := Outside))"]) simp
qed

text \<open>The thread \<open>unblockRead\<close> looks at.\<close>

definition foreground_thread :: "kstate \<Rightarrow> addr option" where
  "foreground_thread s = (case procs s (foreground (sched s)) of None \<Rightarrow> None
     | Some pr \<Rightarrow> if in_range (pr_currentThread pr) MAX_THREADS \<and> foreground (sched s) \<noteq> NULL
         then Some (tn_thread (pr_threads pr (pr_currentThread pr))) else None)"

lemma unblockRead_app:
  assumes "foreground_thread s = Some a" "addr_of s q = Some a" "state_of s a = BLOCKED" "threads_ok s"
  shows "unblockRead s = Done () (set_state (tid_pid q) (tid_thread q) READY s)"
proof -
  obtain pr where pr: "procs s (foreground (sched s)) = Some pr" "in_range (pr_currentThread pr) MAX_THREADS"
    "tn_thread (pr_threads pr (pr_currentThread pr)) = a"
    using assms(1) by (auto simp: foreground_thread_def split: option.splits if_splits)
  have "thrs s a \<noteq> None" using assms(2,4) unfolding threads_ok_def addr_of_def by blast
  then obtain th where th: "thrs s a = Some th" by blast
  then show ?thesis
    using assms(2,3) pr
    by (simp add: unblockRead_def with_foreground_thread_def access_app kwhen_def set_state_def addr_of_def state_of_def)
qed

text \<open>In the concrete system the first process takes the mutex, the timer switches to the second, which has to wait.\<close>

lemma ex3_start: "mutex_start 3 {tid 1 0, tid 2 0} (tid 3 0) (ex3_state s0)"
proof -
  have "m_value (ex_mutex UNLOCKED nobody 0) = UNLOCKED" "tid_pid (m_creator (ex_mutex UNLOCKED nobody 0)) = 1"
    by (simp_all add: ex_mutex_def)
  then show ?thesis
    by (simp add: mutex_start_def ex3_sys_ok ex3_clients valid_mutex_iff ex3_cur ex3_state_of in_range_def MAX_MUTEXES_def)
qed

lemma ex3_foreground:
  assumes "minv 3 users idle (s, r)" "same_view (ex3_state s0) s" "processes (sched s) = processes ex3_sched"
    "foreground (sched s) = 20"
  shows "foreground_thread s = addr_of s (tid 2 0)"
proof -
  have ok: "proc_ok s 20"
    using minvD(11)[OF assms(1)] assms(2,3) by (auto simp: sched_ok_def same_view_def ex3_slots ex3_procs)
  have at: "proc_at s 1 = the (procs s 20)" by (simp add: proc_at_def assms(3) ex3_procs)
  obtain pr ys where pr: "procs s 20 = Some pr" "\<And>t. t \<in> set (pr_currentThread pr # ys) \<Longrightarrow> in_range t MAX_THREADS"
    by (rule proc_okE[OF ok]) blast
  have "pr_threads pr = pr_threads (ex_proc 2 21)" using assms(2) at pr(1) by (simp add: same_view_def ex3_slots)
  then have "foreground_thread s = Some 21"
    using pr assms(4) by (simp add: foreground_thread_def ex_proc_fields)
  moreover have "addr_of s (tid 2 0) = Some 21"
    using same_view_addr[OF assms(2)] ex3_sys_ok by (simp add: sys_ok_def ex3_addr in_range_def MAX_THREADS_def)
  ultimately show ?thesis by simp
qed

lemma ex3_run:
  obtains s r where "(mstep kt 3 {tid 1 0, tid 2 0})\<^sup>*\<^sup>* (ex3_state s0, \<lambda>_. Outside) (s, r)"
    "r (tid 1 0) = Inside" "r (tid 2 0) = Waiting unlock" "foreground_thread s = addr_of s (tid 2 0)"
    "same_view (ex3_state s0) s" "terminal s = terminal s0" "kbd s = kbd s0"
proof -
  let ?U = "{tid 1 0, tid 2 0}" and ?r0 = "\<lambda>_. Outside" and ?e = "ex_mutex UNLOCKED nobody 0"
  let ?s1 = "set_lock 0 (seized 3 (down_free (tid 1 0) ?e) (ex3_state s0))" and ?r1 = "?r0(tid 1 0 := Inside)"
  note start = ex3_start[of s0]
  have "m_value ?e = UNLOCKED" by (simp add: ex_mutex_def)
  then have "mutexDown kt 3 1 0 (ex3_state s0) = Done () ?s1"
    using mutexDown_free_eq[of "ex3_state s0" 3 kt 1 0] start by (simp add: mutex_start_def)
  then have one: "mstep kt 3 ?U (ex3_state s0, ?r0) (?s1, ?r1)"
    using mstep.take[of "ex3_state s0" "tid 1 0" ?U ?r0 kt 3 ?s1] ex3_cur(1) by simp
  obtain rsp s2 where s2: "nextProcess ?s1 = Done rsp s2" "cur_id s2 = tid 2 0" "same_view (ex3_state s0) s2"
    "processes (sched s2) = processes ex3_sched" "foreground (sched s2) = 20" "terminal s2 = terminal ?s1" "kbd s2 = kbd ?s1"
    using ex3_tick[OF ex3_lock, of "seized 3 (down_free (tid 1 0) ?e) (ex3_state s0)" s0] by fastforce
  have two: "mstep kt 3 ?U (?s1, ?r1) (s2, ?r1)" by (rule mstep.tick[OF s2(1)])
  have inv: "minv 3 ?U (tid 3 0) (s2, ?r1)"
    by (rule minv_step[OF minv_step[OF start_minv[OF start] one] two])
  have "m_value (entry s2 3) = LOCKED" using exclD(3)[OF minvD(5)[OF inv], of "tid 1 0"] by simp
  then obtain s3 where s3: "mutexDown kt 3 2 0 s2 = Yield s3 unlock"
    "minv 3 ?U (tid 3 0) (s3, ?r1(tid 2 0 := Waiting unlock))" "same_view s2 s3"
    "processes (sched s3) = processes ex3_sched" "foreground (sched s3) = 20" "terminal s3 = terminal s2" "kbd s3 = kbd s2"
    using minv_down_held[OF inv s2(2), of kt] s2(4,5) by auto
  let ?r3 = "?r1(tid 2 0 := Waiting unlock)"
  have three: "mstep kt 3 ?U (s2, ?r1) (s3, ?r3)"
    using mstep.wait[of s2 "tid 2 0" ?U ?r1 kt 3 s3 unlock] s2(2) s3(1) by simp
  have "(mstep kt 3 ?U)\<^sup>*\<^sup>* (ex3_state s0, ?r0) (s3, ?r3)"
    using one two three by (meson converse_rtranclp_into_rtranclp rtranclp.rtrancl_refl)
  moreover have "foreground_thread s3 = addr_of s3 (tid 2 0)"
    by (rule ex3_foreground[OF s3(2) same_view_trans[OF s2(3) s3(3)] s3(4,5)])
  moreover have "terminal s3 = terminal s0" "kbd s3 = kbd s0"
    using s2(6,7) s3(6,7) by (simp_all add: ex3_state_def ex_mutex_state_def ex_state_def)
  ultimately show ?thesis using that[of s3 ?r3] same_view_trans[OF s2(3) s3(3)] by simp
qed

text \<open>C2: Whatever the order in which the users take and give back a mutex, whoever else calls
  \<open>mutexUp\<close>, and whenever the timer switches: at most one thread is inside and it is the holder in the table; while a
  thread waits there is a holder, which is inside or about to be and not asleep, so no wake-up is lost; and the user
  that has the processor can always go on.\<close>

theorem mutex_exclusion:
  assumes "mutex_start m users idle s0" "(mstep kt m users)\<^sup>*\<^sup>* (s0, \<lambda>_. Outside) (s, r)"
  shows "(\<forall>p q. r p = Inside \<and> r q = Inside \<longrightarrow> p = q) \<and>
    (\<forall>q. r q = Inside \<longrightarrow> holder (abs_mutex (entry s m)) = Some q) \<and>
    (\<forall>q k. r q = Waiting k \<longrightarrow>
      (\<exists>h. holder (abs_mutex (entry s m)) = Some h \<and> r h \<noteq> Outside \<and> \<not> asleep s h)) \<and>
    (\<forall>q \<in> users. cur_id s = q \<longrightarrow> (\<exists>c'. mstep kt m users (s, r) c' \<and> snd c' q \<noteq> r q))"
proof -
  have inv: "minv m users idle (s, r)" by (rule minv_reachable[OF assms(2) start_minv[OF assms(1)]])
  note E = exclD[OF minvD(5)[OF inv]]
  have hold: "holder (abs_mutex (entry s m)) = Some q" if "r q = Inside" for q using E(3)[OF that] by (simp add: abs_mutex_def)
  moreover have "p = q" if "r p = Inside" "r q = Inside" for p q using hold[OF that(1)] hold[OF that(2)] by simp
  moreover have "\<exists>h. holder (abs_mutex (entry s m)) = Some h \<and> r h \<noteq> Outside \<and> \<not> asleep s h" if "r q = Waiting k" for q k
    using E(4)[OF that] E(6) by (simp add: abs_mutex_def)
  moreover have "\<exists>c'. mstep kt m users (s, r) c' \<and> snd c' q \<noteq> r q" if "q \<in> users" "cur_id s = q" for q
    using minv_progress[OF inv that(2,1)] .
  ultimately show ?thesis by blast
qed

theorem mutex_exclusion_witness:
  "\<forall>s0 kt. \<exists>s r. (mstep kt 3 {tid 1 0, tid 2 0})\<^sup>*\<^sup>* (ex3_state s0, \<lambda>_. Outside) (s, r) \<and> r (tid 1 0) = Inside \<and>
    r (tid 2 0) = Waiting unlock \<and> holder (abs_mutex (entry s 3)) = Some (tid 1 0)"
proof (intro allI)
  fix s0 kt
  obtain s r where s: "(mstep kt 3 {tid 1 0, tid 2 0})\<^sup>*\<^sup>* (ex3_state s0, \<lambda>_. Outside) (s, r)"
    "r (tid 1 0) = Inside" "r (tid 2 0) = Waiting unlock" by (rule ex3_run)
  have "\<forall>q. r q = Inside \<longrightarrow> holder (abs_mutex (entry s 3)) = Some q"
    using mutex_exclusion[OF ex3_start s(1)] by (elim conjE)
  then show "\<exists>s r. (mstep kt 3 {tid 1 0, tid 2 0})\<^sup>*\<^sup>* (ex3_state s0, \<lambda>_. Outside) (s, r) \<and> r (tid 1 0) = Inside \<and>
      r (tid 2 0) = Waiting unlock \<and> holder (abs_mutex (entry s 3)) = Some (tid 1 0)" using s by blast
qed

end
