(* ===== verification/ProcessProps.thy ===== *)
theory ProcessProps
  imports Process MemoryProps MutexExcl
begin

text \<open>
  The end of a process: what \<open>deleteProcess\<close> gives back to the allocator, and what \<open>removeProcess\<close> does to the ring
  and the table of processes when the process is not the one in use, and when it is.
\<close>

section \<open>Calls of the allocator\<close>

definition mem_ok :: "kstate \<Rightarrow> bool" where
  "mem_ok s \<longleftrightarrow> caller_ok s \<and> free_mutex_at s (buddyMutex s) \<and> lockQuantumExceded (sched s) = 0 \<and> heap_inv (buddyHeap s)"

text \<open>What the allocator leaves alone.\<close>

definition tables_kept :: "kstate \<Rightarrow> kstate \<Rightarrow> bool" where
  "tables_kept s s' \<longleftrightarrow> processes (sched s') = processes (sched s) \<and> current (sched s') = current (sched s) \<and>
     processQuantity (sched s') = processQuantity (sched s) \<and> firstAvailableSpace (sched s') = firstAvailableSpace (sched s) \<and>
     foreground (sched s') = foreground (sched s) \<and> procs s' = procs s \<and> thrs s' = thrs s"

lemma tables_kept_refl [simp]: "tables_kept s s"
  by (simp add: tables_kept_def)

lemma tables_kept_trans: "tables_kept s s' \<Longrightarrow> tables_kept s' s'' \<Longrightarrow> tables_kept s s''"
  by (simp add: tables_kept_def)

lemma tables_kept_after_heap: "tables_kept s (after_heap m who h s)"
  by (simp add: tables_kept_def after_heap_def set_lock_def set_entry_def)

lemma freeMemory_live:
  assumes "mem_ok s" "k \<in> live (buddyHeap s)"
  shows "\<exists>s'. freeMemory kt (node_base k) s = Done True s' \<and> mem_ok s' \<and> tables_kept s s' \<and>
    live (buddyHeap s') = live (buddyHeap s) - {k}"
proof -
  let ?m = "buddyMutex s" and ?who = "tid (cur_pid s) (cur_tid s)"
  have M: "free_mutex_at s ?m" "lockQuantumExceded (sched s) = 0" "heap_inv (buddyHeap s)" "caller_ok s"
    using assms(1) by (simp_all add: mem_ok_def)
  obtain h where h: "freeBlock (node_base k) (buddyHeap s) = Some h" "heap_inv h" "live h = live (buddyHeap s) - {k}"
    by (rule freeBlock_spec[OF M(3) assms(2)])
  have ia: "isAllocatedPage (buddyHeap s) (node_base k) = Some 1" by (rule isAllocatedPage_live[OF M(3) assms(2)])
  have "freeMemory kt (node_base k) s = Done True (after_heap ?m ?who h s)"
    by (rule freeMemory_eq[OF M(1,4,2) ia h(1)])
  moreover have "mem_ok (after_heap ?m ?who h s)"
    using M h(2) after_heap_free[OF M(1), of ?who h] tables_kept_after_heap[of s ?m ?who h]
    by (simp add: mem_ok_def caller_ok_def tables_kept_def)
  ultimately show ?thesis using h(3) tables_kept_after_heap by auto
qed

section \<open>The memory of a process\<close>

text \<open>The stacks of the threads in the first \<open>n\<close> places of its table, and all it owns: those and the process itself.\<close>

definition stacks :: "kstate \<Rightarrow> process_t \<Rightarrow> int \<Rightarrow> addr list" where
  "stacks s pr n = map (\<lambda>i. th_memoryBase (the (thrs s (tn_thread (pr_threads pr i)))))
     (filter (\<lambda>i. tn_thread (pr_threads pr i) \<noteq> NULL) [0..n - 1])"

definition memory_of :: "kstate \<Rightarrow> process_t \<Rightarrow> addr \<Rightarrow> addr list" where
  "memory_of s pr p = stacks s pr MAX_THREADS @ [p]"

text \<open>The threads in the table exist, and all the memory was handed out by the allocator, each piece for itself.\<close>

definition owns :: "kstate \<Rightarrow> process_t \<Rightarrow> addr \<Rightarrow> bool" where
  "owns s pr p \<longleftrightarrow> procs s p = Some pr \<and>
     (\<forall>i. in_range i MAX_THREADS \<and> tn_thread (pr_threads pr i) \<noteq> NULL \<longrightarrow> thrs s (tn_thread (pr_threads pr i)) \<noteq> None) \<and>
     distinct (memory_of s pr p) \<and> set (memory_of s pr p) \<subseteq> node_base ` live (buddyHeap s)"

definition without :: "addr set \<Rightarrow> int set \<Rightarrow> int set" where
  "without A ks = {k \<in> ks. node_base k \<notin> A}"

lemma live_base_inj: "heap_inv h \<Longrightarrow> inj_on node_base (live h)"
  by (rule inj_onI) (metis buddy.start_in live_disjoint disjoint_iff)

lemma without_insert:
  assumes "inj_on node_base ks" "k \<in> ks"
  shows "without A ks - {k} = without (insert (node_base k) A) ks"
  using assms by (auto simp: without_def inj_on_def)

lemma without_empty [simp]: "without {} ks = ks"
  by (simp add: without_def)

text \<open>Freeing one of the pieces of memory a process has left.\<close>

lemma free_piece:
  assumes "mem_ok s'" "heap_inv h0" "live (buddyHeap s') = without A (live h0)" "a \<in> node_base ` live h0" "a \<notin> A"
  shows "\<exists>s''. freeMemory kt a s' = Done True s'' \<and> mem_ok s'' \<and> tables_kept s' s'' \<and>
    live (buddyHeap s'') = without (insert a A) (live h0)"
proof -
  obtain k where k: "k \<in> live h0" "a = node_base k" using assms(4) by blast
  then have "k \<in> live (buddyHeap s')" using assms(3,5) by (simp add: without_def)
  then obtain s'' where "freeMemory kt a s' = Done True s''" "mem_ok s''" "tables_kept s' s''"
    "live (buddyHeap s'') = live (buddyHeap s') - {k}"
    using freeMemory_live[OF assms(1)] k(2) by blast
  then show ?thesis using without_insert[OF live_base_inj[OF assms(2)] k(1)] assms(3) k(2) by auto
qed

lemma stacks_Suc: "0 \<le> i \<Longrightarrow> stacks s pr (i + 1) = stacks s pr i @
    (if tn_thread (pr_threads pr i) = NULL then [] else [th_memoryBase (the (thrs s (tn_thread (pr_threads pr i))))])"
  by (simp add: stacks_def upto_rec2)

lemma stacks_split:
  assumes "0 \<le> i" "i \<le> n"
  shows "\<exists>ys. stacks s pr n = stacks s pr i @ ys"
proof -
  have "[0..n - 1] = [0..i - 1] @ [i..n - 1]" using assms upto_split1[of 0 i "n - 1"] by (cases "i = n") auto
  then show ?thesis by (simp add: stacks_def)
qed

lemma killThreads_live:
  assumes "mem_ok s" "owns s pr p"
  shows "\<exists>s'. killThreads kt p s = Done () s' \<and> mem_ok s' \<and> tables_kept s s' \<and>
    live (buddyHeap s') = without (set (stacks s pr MAX_THREADS)) (live (buddyHeap s))"
proof -
  let ?I = "\<lambda>i s'. mem_ok s' \<and> tables_kept s s' \<and> live (buddyHeap s') = without (set (stacks s pr i)) (live (buddyHeap s))"
  have O: "procs s p = Some pr"
    "\<And>i. in_range i MAX_THREADS \<Longrightarrow> tn_thread (pr_threads pr i) \<noteq> NULL \<Longrightarrow> thrs s (tn_thread (pr_threads pr i)) \<noteq> None"
    "distinct (stacks s pr MAX_THREADS)" "set (stacks s pr MAX_THREADS) \<subseteq> node_base ` live (buddyHeap s)"
    using assms(2) by (auto simp: owns_def memory_of_def)
  have "\<exists>s'. kfor 0 (nat MAX_THREADS) (\<lambda>i. with_node p i (\<lambda>n. kwhen (tn_thread n \<noteq> NULL) [deleteThread kt (tn_thread n)])) s =
      Done () s' \<and> ?I (0 + int (nat MAX_THREADS)) s'"
  proof (rule kfor_inv[where I = ?I])
    show "?I 0 s" using assms(1) by (simp add: stacks_def)
  next
    fix i s' assume i: "0 \<le> i" "i < 0 + int (nat MAX_THREADS)" and I: "?I i s'"
    let ?t = "tn_thread (pr_threads pr i)"
    have r: "in_range i MAX_THREADS" using i by (simp add: in_range_def MAX_THREADS_def)
    have P: "procs s' p = Some pr" "thrs s' = thrs s" using I O(1) by (simp_all add: tables_kept_def)
    show "\<exists>s''. with_node p i (\<lambda>n. kwhen (tn_thread n \<noteq> NULL) [deleteThread kt (tn_thread n)]) s' = Done () s'' \<and> ?I (i + 1) s''"
    proof (cases "?t = NULL")
      case True
      then show ?thesis using I r P i by (simp add: access_app kwhen_def stacks_Suc)
    next
      case False
      obtain th where th: "thrs s ?t = Some th" using O(2)[OF r False] by blast
      let ?a = "th_memoryBase th"
      have st: "stacks s pr (i + 1) = stacks s pr i @ [?a]" using i False th by (simp add: stacks_Suc)
      obtain ys where "stacks s pr MAX_THREADS = stacks s pr (i + 1) @ ys"
        using stacks_split[of "i + 1" MAX_THREADS s pr] i by (auto simp: MAX_THREADS_def)
      then have "?a \<notin> set (stacks s pr i)" "?a \<in> node_base ` live (buddyHeap s)" using st O(3,4) by auto
      then obtain s'' where "freeMemory kt ?a s' = Done True s''" "mem_ok s''" "tables_kept s' s''"
        "live (buddyHeap s'') = without (insert ?a (set (stacks s pr i))) (live (buddyHeap s))"
        using free_piece[of s' "buddyHeap s" "set (stacks s pr i)" ?a kt] I assms(1) by (auto simp: mem_ok_def)
      then show ?thesis
        using I r P False th by (auto simp: access_app kwhen_def deleteThread_def st intro: tables_kept_trans)
    qed
  qed
  then show ?thesis by (simp add: killThreads_def MAX_THREADS_def)
qed

text \<open>\<open>deleteProcess\<close> gives back exactly the memory of the process.\<close>

lemma deleteProcess_live:
  assumes "mem_ok s" "owns s pr p"
  shows "\<exists>s'. deleteProcess kt p s = Done () s' \<and> mem_ok s' \<and> tables_kept s s' \<and>
    live (buddyHeap s') = without (set (memory_of s pr p)) (live (buddyHeap s))"
proof -
  obtain s1 where s1: "killThreads kt p s = Done () s1" "mem_ok s1" "tables_kept s s1"
    "live (buddyHeap s1) = without (set (stacks s pr MAX_THREADS)) (live (buddyHeap s))"
    using killThreads_live[OF assms] by blast
  have hi: "heap_inv (buddyHeap s)" using assms(1) by (simp add: mem_ok_def)
  have "p \<in> node_base ` live (buddyHeap s)" "p \<notin> set (stacks s pr MAX_THREADS)"
    using assms(2) by (auto simp: owns_def memory_of_def)
  then obtain s2 where "freeMemory kt p s1 = Done True s2" "mem_ok s2" "tables_kept s1 s2"
    "live (buddyHeap s2) = without (insert p (set (stacks s pr MAX_THREADS))) (live (buddyHeap s))"
    using free_piece[OF s1(2) hi s1(4), of p kt] by blast
  then show ?thesis using s1 by (auto simp: deleteProcess_def memory_of_def intro: tables_kept_trans)
qed

section \<open>Taking a process out of the ring\<close>

text \<open>The search walks from slot to slot and stops at the process with the number asked for.\<close>

lemma removeProcess_find_eq:
  assumes "path (plink (sched s)) prev as d" "length as < n" "first \<notin> set (tl (as @ [d]))"
    "\<And>j. j \<in> set (as @ [d]) \<Longrightarrow> in_range j MAX_PROCESSES \<and> procs s (rr_process (processes (sched s) j)) = Some (proc_at s j)"
    "\<And>j. j \<in> set as \<Longrightarrow> pr_pid (proc_at s j) \<noteq> pid" "pr_pid (proc_at s d) = pid"
  shows "removeProcess_find n pid first prev (hd (as @ [d])) s = Done (Some (last (prev # as), d)) s"
  using assms
proof (induction as arbitrary: prev n)
  case Nil
  then obtain m where "n = Suc m" by (cases n) auto
  then show ?case using Nil by (simp add: access_app)
next
  case (Cons a as)
  obtain m where n: "n = Suc m" using Cons.prems(2) by (cases n) auto
  have next_a: "rr_next (processes (sched s) a) = hd (as @ [d])"
    using Cons.prems(1) by (cases as) (auto simp: plink_def)
  have ne: "hd (as @ [d]) \<noteq> first" using Cons.prems(3) by (cases as) auto
  have "removeProcess_find m pid first a (hd (as @ [d])) s = Done (Some (last (a # as), d)) s"
    using Cons.prems n by (intro Cons.IH) (auto dest: list.set_sel(2)[rotated])
  then show ?case using Cons.prems(4)[of a] Cons.prems(5)[of a] next_a ne by (simp add: n access_app)
qed

text \<open>The two changes of the table, before and after the memory is given back.\<close>

definition unlinked :: "int \<Rightarrow> int \<Rightarrow> sched_state \<Rightarrow> sched_state" where
  "unlinked prev d c = c\<lparr>processes := (processes c)(prev := (processes c prev)\<lparr>rr_next := rr_next (processes c d)\<rparr>)\<rparr>"

definition emptied :: "int \<Rightarrow> sched_state \<Rightarrow> sched_state" where
  "emptied d c = c\<lparr>processes := (processes c)(d := (processes c d)\<lparr>rr_process := NULL\<rparr>),
     processQuantity := processQuantity c - 1,
     firstAvailableSpace := (if firstAvailableSpace c > d then d else firstAvailableSpace c)\<rparr>"

lemma path_prefix: "path nxt x ys z \<Longrightarrow> ys @ [z] = as @ d # bs \<Longrightarrow> path nxt x as d"
  by (cases bs rule: rev_cases) (auto simp: path_append)

lemma removeProcess_eq:
  assumes ok: "sched_ok s" and distinct: "pids_distinct s"
    and slots: "proc_slots (sched s) = current (sched s) # ys" "ys \<noteq> []" "ys @ [current (sched s)] = as @ d # bs"
    and p: "p = rr_process (processes (sched s) d)"
    and del: "deleteProcess kt p (s\<lparr>sched := unlinked (last (current (sched s) # as)) d (sched s)\<rparr>) = Done () s2"
      "tables_kept (s\<lparr>sched := unlinked (last (current (sched s) # as)) d (sched s)\<rparr>) s2"
  shows "removeProcess kt p s = (let s3 = s2\<lparr>sched := emptied d (sched s2)\<rparr> in if current (sched s) = d then yield s3 else Done () s3)"
proof -
  define prev where "prev = last (current (sched s) # as)"
  note del = del[folded prev_def]
  let ?c = "current (sched s)" and ?first = "rr_next (processes (sched s) (current (sched s)))"
  have ring: "path (plink (sched s)) ?c ys ?c" "distinct (ys @ [?c])" using ok slots(1) by (auto simp: sched_ok_def)
  have mem: "set (as @ [d]) \<subseteq> set (ys @ [?c])" "distinct (as @ [d])" using slots(3) ring(2) by auto
  have slot: "in_range j MAX_PROCESSES \<and> procs s (rr_process (processes (sched s) j)) = Some (proc_at s j) \<and>
      rr_process (processes (sched s) j) \<noteq> NULL" if "j \<in> set (ys @ [?c])" for j
    using that ok slots(1) proc_ok_at[of s j] by (auto simp: sched_ok_def)
  have path: "path (plink (sched s)) ?c as d" by (rule path_prefix[OF ring(1) slots(3)])
  have "?first = hd ys" using ring(1) slots(2) by (cases ys) (auto simp: plink_def)
  then have ne: "?first \<noteq> ?c" using ring(2) slots(2) by (cases ys) auto
  have head: "?first = hd (as @ [d])" using path by (cases as) (auto simp: plink_def)
  have other: "pr_pid (proc_at s j) \<noteq> pr_pid (proc_at s d)" if "j \<in> set as" for j
  proof -
    have "j \<in> set (proc_slots (sched s))" "d \<in> set (proc_slots (sched s))" "j \<noteq> d" using that mem slots(1) by auto
    then show ?thesis using distinct unfolding pids_distinct_def inj_on_def by blast
  qed
  have "hd (as @ [d]) \<notin> set (tl (as @ [d]))" using mem(2) by (cases as) auto
  moreover have "length (as @ [d]) \<le> 100"
    using slot mem by (intro distinct_in_range_length) (auto simp: in_range_def MAX_PROCESSES_def)
  ultimately have find: "removeProcess_find (nat MAX_PROCESSES) (pr_pid (proc_at s d)) ?first ?c ?first s = Done (Some (prev, d)) s"
    unfolding head prev_def using path mem slot other by (intro removeProcess_find_eq) auto
  let ?s1 = "s\<lparr>sched := unlinked prev d (sched s)\<rparr>"
  have "prev \<in> set (ys @ [?c]) \<and> prev \<noteq> d"
  proof (cases as rule: rev_cases)
    case Nil
    then have "d \<in> set ys" using slots(2,3) by (cases ys) auto
    then show ?thesis using Nil ring(2) prev_def by auto
  next
    case (snoc as' x)
    then show ?thesis using mem prev_def by auto
  qed
  then have in_prev: "prev \<in> set (ys @ [?c])" "prev \<noteq> d" by simp_all
  have r: "in_range d MAX_PROCESSES" "in_range prev MAX_PROCESSES" "in_range ?c MAX_PROCESSES" using slot in_prev mem by auto
  have q: "processQuantity (sched s) \<noteq> 0" using ok slots(1) by (simp add: sched_ok_def)
  have pr: "procs s p = Some (proc_at s d)" "p \<noteq> NULL" "rr_process (processes (sched ?s1) d) = p"
    "procs s (rr_process (processes (sched s) ?c)) = Some (proc_at s ?c)"
    using slot[of d] slot[of ?c] mem p in_prev(2) by (simp_all add: unlinked_def)
  have cur: "current (sched s2) = ?c" using del(2) by (simp add: tables_kept_def unlinked_def)
  have link: "with_slot d (\<lambda>n. upd_slot prev (\<lambda>p. p\<lparr>rr_next := rr_next n\<rparr>)) s = Done () ?s1"
    using r by (simp add: upd_slot_def access_app upd_sched_def unlinked_def)
  have delete: "with_slot d (\<lambda>n. deleteProcess kt (rr_process n)) ?s1 = Done () s2"
    using r(1) pr(3) del(1) by (simp add: with_slot_app)
  show ?thesis
    unfolding removeProcess_def kwith_app Let_def with_slot_app[OF r(3)]
    using q pr(2) ne r(1) cur
    by (simp add: with_proc_app[OF pr(1)] with_proc_app[OF pr(4)] find[simplified] link delete)
       (simp add: upd_slot_def access_app upd_sched_def kwhen_def emptied_def)
qed

lemma plink_removed: "plink (emptied d (unlinked prev d c)) = (plink c)(prev := plink c d)"
  by (auto simp: plink_def emptied_def unlinked_def fun_eq_iff)

lemma ring_without:
  assumes "ring nxt (c # as @ d # bs)"
  shows "ring (nxt(last (c # as) := nxt d)) (c # as @ bs)"
proof (cases as rule: rev_cases)
  case Nil
  then show ?thesis using ring_remove[of nxt c d bs] assms by simp
next
  case (snoc as' x)
  have "ring nxt (x # d # bs @ c # as')" using ring_rotate[of nxt c as' x "d # bs"] assms snoc by simp
  then have "ring (nxt(x := nxt d)) (x # (bs @ c # as'))" by (rule ring_remove)
  then have "ring (nxt(x := nxt d)) (c # as' @ x # bs)" by (rule ring_rotate)
  then show ?thesis by (simp add: snoc)
qed

lemma proc_slots_removed:
  assumes "sched_ok s" "proc_slots (sched s) = current (sched s) # as @ d # bs"
  defines "c' \<equiv> emptied d (unlinked (last (current (sched s) # as)) d (sched s))"
  shows "proc_slots c' = current (sched s) # as @ bs" "ring (plink c') (current (sched s) # as @ bs)"
proof -
  have r: "ring (plink (sched s)) (current (sched s) # as @ d # bs)" using assms(1,2) by (simp add: sched_ok_def)
  then show ring: "ring (plink c') (current (sched s) # as @ bs)"
    unfolding c'_def plink_removed by (rule ring_without)
  obtain ys where "proc_slots (sched s) = current (sched s) # ys" "length ys < 100" by (rule sched_ok_ring[OF assms(1)])
  then have "length (as @ d # bs) < 100" using assms(2) by simp
  then have "follow (plink c') 100 (current (sched s)) (current (sched s)) = as @ bs"
    using ring by (intro follow_path) auto
  moreover have "current c' = current (sched s)" by (simp add: c'_def emptied_def unlinked_def)
  ultimately show "proc_slots c' = current (sched s) # as @ bs" by (simp only: proc_slots_def MAX_PROCESSES_nat)
qed

text \<open>The table changed as by the removal: the invariant of the scheduler holds again.\<close>

lemma slots_inv_removed:
  assumes inv: "slots_inv s" "processQuantity (sched s) < MAX_PROCESSES"
    and slots: "proc_slots (sched s) = current (sched s) # as @ d # bs"
    and s': "sched s' = emptied d c" "processes c = processes (unlinked (last (current (sched s) # as)) d (sched s))"
      "current c = current (sched s)" "processQuantity c = processQuantity (sched s)"
      "firstAvailableSpace c = firstAvailableSpace (sched s)" "procs s' = procs s" "thrs s' = thrs s"
  shows "slots_inv s'" "proc_slots (sched s') = current (sched s) # as @ bs"
proof -
  let ?c = "current (sched s)" and ?u = "unlinked (last (current (sched s) # as)) d (sched s)"
  have ok: "sched_ok s" using inv(1) by (simp add: slots_inv_def)
  have eq: "processes (sched s') = processes (emptied d ?u)" "current (sched s') = ?c"
    using s'(1-3) by (simp_all add: emptied_def)
  have same: "proc_slots (sched s') = proc_slots (emptied d ?u)" "plink (sched s') = plink (emptied d ?u)"
    using eq(1) proc_slots_cong[OF eq(1)] eq(2) by (simp_all add: plink_def[abs_def]) (simp add: emptied_def unlinked_def)
  show ps: "proc_slots (sched s') = ?c # as @ bs" using proc_slots_removed(1)[OF ok slots] same by simp
  have ring: "ring (plink (sched s')) (?c # as @ bs)" using proc_slots_removed(2)[OF ok slots] same by simp
  have proc: "rr_process (processes (sched s') i) = (if i = d then NULL else rr_process (processes (sched s) i))" for i
    unfolding eq by (simp add: emptied_def unlinked_def)
  have pok: "proc_ok s' p = proc_ok s p" for p using s'(6,7) by (simp add: proc_ok_def split: option.split)
  have d: "distinct (?c # as @ d # bs)" "in_range d MAX_PROCESSES" using ok slots by (auto simp: sched_ok_def)
  have "processQuantity (sched s') = int (length (?c # as @ bs))"
    using ok slots s'(1,4) by (simp add: sched_ok_def emptied_def)
  then have ok': "sched_ok s'"
    using ring ps ok slots d by (auto simp: sched_ok_def proc pok)
  let ?f = "firstAvailableSpace (sched s)"
  have f: "?f = findFirstAvailableSpace (sched s)" "in_range ?f MAX_PROCESSES"
    using inv(1) free_slot(1)[OF inv] by (auto simp: slots_inv_def)
  then have nf: "findFirstAvailableSpace (sched s) \<noteq> PROCESS_LIMIT_REACHED"
    by (auto simp: in_range_def PROCESS_LIMIT_REACHED_def)
  have "findFirstAvailableSpace (sched s') = (if ?f > d then d else ?f)"
    by (rule free_process_slot.search_unique)
       (use f d(2) free_process_slot.found[OF nf] free_process_slot.least[of _ "sched s"] in
         \<open>auto simp: proc in_range_def MAX_PROCESSES_def split: if_splits\<close>)
  then have "firstAvailableSpace (sched s') = findFirstAvailableSpace (sched s')"
    using s'(1,5) by (simp add: emptied_def)
  then show "slots_inv s'" using ok' inv(1) slots ps by (auto simp: slots_inv_def proc)
qed

section \<open>Properties\<close>

lemma mem_ok_unlinked: "mem_ok s \<Longrightarrow> mem_ok (s\<lparr>sched := unlinked prev d (sched s)\<rparr>)"
  by (auto simp: mem_ok_def caller_ok_def unlinked_def free_mutex_at_def valid_mutex_iff entry_def)

lemma owns_unlinked: "owns s pr p \<Longrightarrow> owns (s\<lparr>sched := c\<rparr>) pr p" "memory_of (s\<lparr>sched := c\<rparr>) pr p = memory_of s pr p"
  by (simp_all add: owns_def memory_of_def stacks_def)

text \<open>C12: Removing a process that is not the one in use returns: its slot leaves the ring and becomes empty, the order
  of the others stays, the invariant of ring and table holds again, and exactly the memory of the process, its stacks
  included, is given back to the allocator.\<close>

theorem removeProcess_removes:
  assumes "slots_inv s" "processQuantity (sched s) < MAX_PROCESSES" "pids_distinct s" "mem_ok s"
    "d \<in> set (tl (proc_slots (sched s)))" "owns s (proc_at s d) (rr_process (processes (sched s) d))"
  shows "\<exists>s'. removeProcess kt (rr_process (processes (sched s) d)) s = Done () s' \<and> slots_inv s' \<and>
    proc_slots (sched s') = remove1 d (proc_slots (sched s)) \<and> rr_process (processes (sched s') d) = NULL \<and>
    processQuantity (sched s') = processQuantity (sched s) - 1 \<and>
    live (buddyHeap s') =
      without (set (memory_of s (proc_at s d) (rr_process (processes (sched s) d)))) (live (buddyHeap s))"
proof -
  let ?c = "current (sched s)" and ?p = "rr_process (processes (sched s) d)"
  have ok: "sched_ok s" using assms(1) by (simp add: slots_inv_def)
  obtain as bs where slots: "proc_slots (sched s) = ?c # as @ d # bs"
    using split_list[OF assms(5)] by (auto simp: proc_slots_def)
  have dist: "distinct (?c # as @ d # bs)" using ok slots by (auto simp: sched_ok_def)
  let ?u = "unlinked (last (?c # as)) d (sched s)"
  let ?s1 = "s\<lparr>sched := ?u\<rparr>"
  obtain s2 where s2: "deleteProcess kt ?p ?s1 = Done () s2" "mem_ok s2" "tables_kept ?s1 s2"
    "live (buddyHeap s2) = without (set (memory_of ?s1 (proc_at s d) ?p)) (live (buddyHeap ?s1))"
    using deleteProcess_live[OF mem_ok_unlinked[OF assms(4)] owns_unlinked(1)[OF assms(6)]] by blast
  let ?s3 = "s2\<lparr>sched := emptied d (sched s2)\<rparr>"
  have k: "processes (sched s2) = processes ?u" "current (sched s2) = ?c" "processQuantity (sched s2) = processQuantity (sched s)"
    "firstAvailableSpace (sched s2) = firstAvailableSpace (sched s)" "procs ?s3 = procs s" "thrs ?s3 = thrs s"
    using s2(3) by (simp_all add: tables_kept_def unlinked_def)
  have "removeProcess kt ?p s = Done () ?s3"
    using removeProcess_eq[OF ok assms(3) slots, of as d "bs @ [?c]" ?p kt s2] s2(1,3) dist by (simp add: Let_def)
  moreover note slots_inv_removed[OF assms(1,2) slots, of ?s3 "sched s2"]
  then have "slots_inv ?s3" "proc_slots (sched ?s3) = ?c # as @ bs" using k by simp_all
  moreover have "remove1 d (proc_slots (sched s)) = ?c # as @ bs" using dist by (simp add: slots remove1_append)
  moreover have "rr_process (processes (sched ?s3) d) = NULL" "processQuantity (sched ?s3) = processQuantity (sched s) - 1"
    using k by (simp_all add: emptied_def)
  ultimately show ?thesis using s2(4) by (intro exI[of _ ?s3]) (simp add: owns_unlinked)
qed

text \<open>C33: Removing the process in use, which is how a process ends, goes wrong whenever there are others: its slot is
  emptied before \<open>yield\<close> saves the stack pointer through that slot, which dereferences NULL.\<close>

theorem removeProcess_in_use_faults:
  assumes "sched_ok s" "pids_distinct s" "mem_ok s" "tl (proc_slots (sched s)) \<noteq> []" "procs s NULL = None"
    "owns s (proc_at s (current (sched s))) (rr_process (processes (sched s) (current (sched s))))"
  shows "removeProcess kt (rr_process (processes (sched s) (current (sched s)))) s = Fault NullDeref"
proof -
  let ?c = "current (sched s)"
  let ?p = "rr_process (processes (sched s) ?c)"
  obtain ys where slots: "proc_slots (sched s) = ?c # ys" by (simp add: proc_slots_def)
  let ?s1 = "s\<lparr>sched := unlinked (last (?c # ys)) ?c (sched s)\<rparr>"
  obtain s2 where s2: "deleteProcess kt ?p ?s1 = Done () s2" "tables_kept ?s1 s2"
    using deleteProcess_live[OF mem_ok_unlinked[OF assms(3)] owns_unlinked(1)[OF assms(6)]] by blast
  let ?s3 = "s2\<lparr>sched := emptied ?c (sched s2)\<rparr>"
  have c: "current (sched ?s3) = ?c" "rr_process (processes (sched ?s3) ?c) = NULL" "procs ?s3 NULL = None"
    using s2(2) assms(5) by (simp_all add: tables_kept_def unlinked_def emptied_def)
  have r: "in_range ?c MAX_PROCESSES" by (rule sched_okD(1)[OF assms(1)])
  have "with_current_thread f ?s3 = Fault NullDeref" for f :: "addr \<Rightarrow> thread_t \<Rightarrow> unit KS"
    using c r by (simp add: with_current_thread_def with_slot_def with_proc_def)
  then have "yield ?s3 = Fault NullDeref" by (simp add: yield_def switchToKernelStack_def)
  moreover have "removeProcess kt ?p s = yield ?s3"
    using removeProcess_eq[OF assms(1,2) slots, of ys ?c "[]" ?p kt s2] s2 assms(4) slots by (simp add: Let_def)
  ultimately show ?thesis by simp
qed

section \<open>A concrete system\<close>

text \<open>
  The two-process system of \<open>SchedProps\<close>, with processes and stacks in memory: the heap is split in four blocks, and each
  process has one thread.
\<close>

definition ex_heap :: buddyHeap_t where
  "ex_heap = \<lparr>memoryBase = (\<lambda>j. if 0 \<le> j \<and> j \<le> 6 then node_base (j + 1) else NULL),
     blockUsage = (\<lambda>j. if 0 \<le> j \<and> j \<le> 2 then FULLY_USED else if 3 \<le> j \<and> j \<le> 6 then ALLOCATED else UNUSED)\<rparr>"

definition ex_owner :: "int \<Rightarrow> addr \<Rightarrow> process_t" where
  "ex_owner pid t = (ex_proc pid t)\<lparr>pr_threads := (\<lambda>_. \<lparr>tn_thread = NULL, tn_next = 0\<rparr>)(0 := \<lparr>tn_thread = t, tn_next = 0\<rparr>)\<rparr>"

definition ex_owners :: "kstate \<Rightarrow> kstate" where
  "ex_owners s = (ex_mutex_state (ex_mutex UNLOCKED nobody 0) s)\<lparr>
     procs := [node_base 4 \<mapsto> ex_owner 1 11, node_base 6 \<mapsto> ex_owner 2 21],
     thrs := [11 \<mapsto> (ex_thread RUNNING)\<lparr>th_memoryBase := node_base 5\<rparr>, 21 \<mapsto> (ex_thread READY)\<lparr>th_memoryBase := node_base 7\<rparr>],
     sched := ex_sched\<lparr>processes := (\<lambda>_. \<lparr>rr_next = 0, rr_process = NULL\<rparr>)(
       0 := \<lparr>rr_next = 1, rr_process = node_base 4\<rparr>, 1 := \<lparr>rr_next = 0, rr_process = node_base 6\<rparr>)\<rparr>,
     buddyHeap := ex_heap, buddyMutex := 3\<rparr>"

lemma ex_heap_inv: "heap_inv ex_heap" "live ex_heap = {4, 5, 6, 7}"
proof -
  have u: "usage_at ex_heap k = (if 1 \<le> k \<and> k \<le> 3 then FULLY_USED else if 4 \<le> k \<and> k \<le> 7 then ALLOCATED else UNUSED)" for k
    by (auto simp: usage_at_def ex_heap_def)
  have b: "base_at ex_heap k = (if 1 \<le> k \<and> k \<le> 7 then node_base k else NULL)" for k
    by (auto simp: base_at_def ex_heap_def)
  have "node_ok (usage_at ex_heap) k" if "in_heap k" for k
    using that by (auto simp: node_ok_def u in_heap_def)
  moreover have "node_base 1 = base" using heap_inv_init by (simp add: heap_inv_def bases_ok_def)
  ultimately show "heap_inv ex_heap" by (auto simp: heap_inv_def bases_ok_def u b)
  show "live ex_heap = {4, 5, 6, 7}" by (auto simp: live_def u in_heap_def)
qed

lemma ex_bases: "node_base 4 \<noteq> node_base 5" "node_base 4 \<noteq> node_base 6" "node_base 4 \<noteq> node_base 7"
  "node_base 5 \<noteq> node_base 6" "node_base 5 \<noteq> node_base 7" "node_base 6 \<noteq> node_base 7"
  using live_base_inj[OF ex_heap_inv(1)] by (auto simp: ex_heap_inv(2) inj_on_def)

lemma ex_owner_fields: "pr_pid (ex_owner p t) = p" "pr_currentThread (ex_owner p t) = 0"
  "pr_threads (ex_owner p t) i = (if i = 0 then \<lparr>tn_thread = t, tn_next = 0\<rparr> else \<lparr>tn_thread = NULL, tn_next = 0\<rparr>)"
  by (simp_all add: ex_owner_def ex_proc_def)

lemma ex_owners_fields:
  "procs (ex_owners s) = [node_base 4 \<mapsto> ex_owner 1 11, node_base 6 \<mapsto> ex_owner 2 21]"
  "thrs (ex_owners s) = [11 \<mapsto> (ex_thread RUNNING)\<lparr>th_memoryBase := node_base 5\<rparr>, 21 \<mapsto> (ex_thread READY)\<lparr>th_memoryBase := node_base 7\<rparr>]"
  "current (sched (ex_owners s)) = 0" "processQuantity (sched (ex_owners s)) = 2" "lockQuantumExceded (sched (ex_owners s)) = 0"
  "firstAvailableSpace (sched (ex_owners s)) = 2" "buddyHeap (ex_owners s) = ex_heap" "buddyMutex (ex_owners s) = 3"
  "processes (sched (ex_owners s)) i = (if i = 0 then \<lparr>rr_next = 1, rr_process = node_base 4\<rparr>
     else if i = 1 then \<lparr>rr_next = 0, rr_process = node_base 6\<rparr> else \<lparr>rr_next = 0, rr_process = NULL\<rparr>)"
  by (simp_all add: ex_owners_def ex_sched_def)

lemma ex_owners_slots: "proc_slots (sched (ex_owners s)) = [0, 1]"
  by (simp add: proc_slots_def plink_def ex_owners_fields numeral_eq_Suc)

lemma ex_owners_at: "proc_at (ex_owners s) 0 = ex_owner 1 11" "proc_at (ex_owners s) 1 = ex_owner 2 21"
  using ex_bases by (simp_all add: proc_at_def ex_owners_fields)

lemma ex_owners_sched: "sched_ok (ex_owners s)" "pids_distinct (ex_owners s)" "slots_inv (ex_owners s)"
proof -
  have pos: "0 < node_base k" for k by (rule gr0I) simp
  have slots: "thread_slots (ex_owner p t) = [0]" for p t
    by (simp add: thread_slots_def tlink_def ex_owner_fields numeral_eq_Suc)
  have "proc_ok (ex_owners s) (node_base 4)" "proc_ok (ex_owners s) (node_base 6)"
    using ex_bases by (simp_all add: proc_ok_def ex_owners_fields slots) (simp_all add: tlink_def ex_owner_fields in_range_def MAX_THREADS_def)
  then show ok: "sched_ok (ex_owners s)"
    using pos by (simp add: sched_ok_def ex_owners_slots ex_owners_fields in_range_def MAX_PROCESSES_def plink_def)
  show "pids_distinct (ex_owners s)"
    by (simp add: pids_distinct_def ex_owners_slots ex_owners_at ex_owner_fields)
  have "findFirstAvailableSpace (sched (ex_owners s)) = 2"
    by (rule free_process_slot.search_unique) (auto simp: MAX_PROCESSES_def ex_owners_fields pos)
  then show "slots_inv (ex_owners s)" using ok by (auto simp: slots_inv_def ex_owners_slots ex_owners_fields)
qed

lemma ex_owners_mem: "mem_ok (ex_owners s)"
proof -
  have "entry (ex_owners s) 3 = ex_mutex UNLOCKED nobody 0" by (simp add: ex_owners_def entry_def ex_mutex_state_def)
  moreover have "m_value (ex_mutex UNLOCKED nobody 0) = UNLOCKED" "m_blockedQuantity (ex_mutex UNLOCKED nobody 0) = 0"
    "tid_pid (m_creator (ex_mutex UNLOCKED nobody 0)) = 1" by (simp_all add: ex_mutex_def)
  ultimately have "free_mutex_at (ex_owners s) 3"
    by (simp add: free_mutex_at_def valid_mutex_iff in_range_def MAX_MUTEXES_def)
  then show ?thesis using ex_heap_inv(1)
    by (simp add: mem_ok_def caller_ok_def ex_owners_fields in_range_def MAX_PROCESSES_def)
qed

lemma ex_owners_owns:
  "owns (ex_owners s) (ex_owner 1 11) (node_base 4)" "memory_of (ex_owners s) (ex_owner 1 11) (node_base 4) = [node_base 5, node_base 4]"
  "owns (ex_owners s) (ex_owner 2 21) (node_base 6)" "memory_of (ex_owners s) (ex_owner 2 21) (node_base 6) = [node_base 7, node_base 6]"
proof -
  have "filter (\<lambda>i. tn_thread (pr_threads (ex_owner p t) i) \<noteq> NULL) [0..31] = (if t = NULL then [] else [0])" for p t
  proof -
    have "filter (\<lambda>i. tn_thread (pr_threads (ex_owner p t) i) \<noteq> NULL) [1..31] = []"
      by (simp add: filter_empty_conv ex_owner_fields)
    moreover have "[0..31] = 0 # [1..31::int]" by (simp add: upto_rec1)
    ultimately show ?thesis by (simp add: ex_owner_fields)
  qed
  then show m: "memory_of (ex_owners s) (ex_owner 1 11) (node_base 4) = [node_base 5, node_base 4]"
    "memory_of (ex_owners s) (ex_owner 2 21) (node_base 6) = [node_base 7, node_base 6]"
    by (simp_all add: memory_of_def stacks_def MAX_THREADS_def ex_owner_fields ex_owners_fields)
  show "owns (ex_owners s) (ex_owner 1 11) (node_base 4)" "owns (ex_owners s) (ex_owner 2 21) (node_base 6)"
    using ex_bases by (auto simp: owns_def m ex_owners_fields ex_owner_fields ex_heap_inv(2))
qed

theorem removeProcess_removes_witness:
  "\<forall>s kt. \<exists>s'. removeProcess kt (node_base 6) (ex_owners s) = Done () s' \<and> proc_slots (sched s') = [0] \<and>
    live (buddyHeap s') = {4, 5}"
proof (intro allI)
  fix s kt
  have p: "rr_process (processes (sched (ex_owners s)) 1) = node_base 6" by (simp add: ex_owners_fields)
  obtain s' where s': "removeProcess kt (node_base 6) (ex_owners s) = Done () s'" "proc_slots (sched s') = remove1 1 [0, 1]"
    "live (buddyHeap s') = without (set [node_base 7, node_base 6]) {4, 5, 6, 7}"
    using removeProcess_removes[of "ex_owners s" 1 kt, unfolded p ex_owners_at ex_owners_owns ex_owners_slots]
      ex_owners_sched ex_owners_mem ex_owners_owns(3) by (fastforce simp: ex_owners_fields MAX_PROCESSES_def ex_heap_inv(2))
  then show "\<exists>s'. removeProcess kt (node_base 6) (ex_owners s) = Done () s' \<and> proc_slots (sched s') = [0] \<and>
      live (buddyHeap s') = {4, 5}"
    using ex_bases by (intro exI[of _ s']) (auto simp: without_def)
qed

theorem removeProcess_in_use_faults_witness:
  "\<forall>s kt. removeProcess kt (node_base 4) (ex_owners s) = Fault NullDeref"
proof (intro allI)
  fix s kt
  have c: "rr_process (processes (sched (ex_owners s)) 0) = node_base 4" "procs (ex_owners s) NULL = None"
    by (simp_all add: ex_owners_fields)
  show "removeProcess kt (node_base 4) (ex_owners s) = Fault NullDeref"
    using removeProcess_in_use_faults[OF ex_owners_sched(1,2) ex_owners_mem, of s kt] c(2) ex_owners_owns(1)
    by (simp add: ex_owners_fields(3) c(1) ex_owners_at ex_owners_slots)
qed

end
