(* ===== verification/ThreadProps.thy ===== *)
theory ThreadProps
  imports ProcessProps
begin

text \<open>
  The table of threads of a process: \<open>addThread\<close> makes its ring grow by the first free place, and the new thread is the next
  of the process to run.
\<close>

interpretation free_thread: slot_search firstAvailableThreadSpace
  "\<lambda>pr i. tn_thread (pr_threads pr i) = NULL" "int (nat MAX_THREADS)" THREAD_LIMIT_REACHED
  unfolding firstAvailableThreadSpace_def[abs_def]
  by (rule scan_or_slot_search) (simp add: THREAD_LIMIT_REACHED_def)

text \<open>The places of the ring hold threads.\<close>

definition table_ok :: "process_t \<Rightarrow> bool" where
  "table_ok pr \<longleftrightarrow> (\<forall>i \<in> set (thread_slots pr). tn_thread (pr_threads pr i) \<noteq> NULL)"

definition with_thread :: "addr \<Rightarrow> process_t \<Rightarrow> process_t" where
  "with_thread t pr = (let i = firstAvailableThreadSpace pr; c = pr_currentThread pr in
     pr\<lparr>pr_threads := (pr_threads pr)(
       c := (pr_threads pr c)\<lparr>tn_next := i\<rparr>,
       i := \<lparr>tn_thread = t, tn_next = tn_next (pr_threads pr c)\<rparr>)\<rparr>)"

definition thread_room :: "kstate \<Rightarrow> addr \<Rightarrow> bool" where
  "thread_room s p \<longleftrightarrow> proc_ok s p \<and> table_ok (the (procs s p)) \<and>
     firstAvailableThreadSpace (the (procs s p)) \<noteq> THREAD_LIMIT_REACHED"

lemma thread_roomE:
  assumes "thread_room s p"
  obtains pr ys where "procs s p = Some pr" "thread_slots pr = pr_currentThread pr # ys"
    "ring (tlink pr) (pr_currentThread pr # ys)" "firstAvailableThreadSpace pr \<notin> set (pr_currentThread pr # ys)"
    "in_range (firstAvailableThreadSpace pr) MAX_THREADS" "in_range (pr_currentThread pr) MAX_THREADS"
    "firstAvailableThreadSpace pr \<noteq> THREAD_LIMIT_REACHED" "length ys < 31"
proof -
  have ok: "proc_ok s p" using assms by (simp add: thread_room_def)
  obtain pr ys where pr: "procs s p = Some pr" "thread_slots pr = pr_currentThread pr # ys"
    "path (tlink pr) (pr_currentThread pr) ys (pr_currentThread pr)" "distinct (pr_currentThread pr # ys)"
    "\<And>t. t \<in> set (pr_currentThread pr # ys) \<Longrightarrow> in_range t MAX_THREADS"
    by (rule proc_okE[OF ok]) blast
  have ne: "firstAvailableThreadSpace pr \<noteq> THREAD_LIMIT_REACHED" "table_ok pr"
    using assms pr(1) by (simp_all add: thread_room_def)
  note f = free_thread.found[OF ne(1)]
  have fresh: "firstAvailableThreadSpace pr \<notin> set (pr_currentThread pr # ys)"
    using f ne(2) pr(2) by (auto simp: table_ok_def)
  have rng: "in_range (firstAvailableThreadSpace pr) MAX_THREADS" using f by (simp add: in_range_def MAX_THREADS_def)
  have "length (firstAvailableThreadSpace pr # pr_currentThread pr # ys) \<le> 32"
    using pr(4,5) fresh rng by (intro distinct_in_range_length) (auto simp: in_range_def MAX_THREADS_def)
  then show ?thesis using that[OF pr(1,2) _ fresh rng] pr(3-5) ne(1) by simp
qed

lemma addThread_eq:
  assumes "thread_room s p" "procs s p = Some pr"
  shows "addThread p t s = Done (firstAvailableThreadSpace pr) (s\<lparr>procs := (procs s)(p \<mapsto> with_thread t pr)\<rparr>)"
proof -
  obtain ys where "firstAvailableThreadSpace pr \<notin> set (pr_currentThread pr # ys)" and
    r: "in_range (firstAvailableThreadSpace pr) MAX_THREADS" "in_range (pr_currentThread pr) MAX_THREADS"
    "firstAvailableThreadSpace pr \<noteq> THREAD_LIMIT_REACHED"
    by (rule thread_roomE[OF assms(1)]) (use assms(2) in auto)
  then have ne: "firstAvailableThreadSpace pr \<noteq> pr_currentThread pr" by auto
  have node: "x\<lparr>tn_thread := a, tn_next := b\<rparr> = \<lparr>tn_thread = a, tn_next = b\<rparr>" for x :: threadNode_t and a b by (cases x) simp
  show ?thesis
    using assms(2) r ne
    by (simp add: addThread_def upd_node_def access_app Let_def with_thread_def node fun_upd_twist)
qed

lemma thread_slots_with:
  assumes "thread_room s p" "procs s p = Some pr"
  shows "thread_slots (with_thread t pr) = pr_currentThread pr # firstAvailableThreadSpace pr # tl (thread_slots pr)"
    "ring (tlink (with_thread t pr)) (thread_slots (with_thread t pr))"
proof -
  let ?f = "firstAvailableThreadSpace pr" and ?c = "pr_currentThread pr"
  obtain ys where ys: "thread_slots pr = ?c # ys" "ring (tlink pr) (?c # ys)" "?f \<notin> set (?c # ys)" "length ys < 31"
    by (rule thread_roomE[OF assms(1)]) (use assms(2) in auto)
  have link: "tlink (with_thread t pr) = (tlink pr)(?c := ?f, ?f := tlink pr ?c)"
    using ys(3) by (auto simp: tlink_def with_thread_def Let_def fun_eq_iff)
  have ring: "ring (tlink (with_thread t pr)) (?c # ?f # ys)" unfolding link by (rule ring_insert[OF ys(2,3)])
  then have "follow (tlink (with_thread t pr)) 32 ?c ?c = ?f # ys" using ys(4) by (intro follow_path) auto
  moreover have "pr_currentThread (with_thread t pr) = ?c" by (simp add: with_thread_def Let_def)
  ultimately show eq: "thread_slots (with_thread t pr) = ?c # ?f # tl (thread_slots pr)"
    by (simp add: thread_slots_def[of "with_thread t pr"] ys(1))
  show "ring (tlink (with_thread t pr)) (thread_slots (with_thread t pr))" using ring unfolding eq by (simp add: ys(1))
qed

lemma proc_ok_with:
  assumes "thread_room s p" "procs s p = Some pr" "thrs s t \<noteq> None"
  shows "proc_ok (s\<lparr>procs := (procs s)(p \<mapsto> with_thread t pr)\<rparr>) p"
proof -
  obtain ys where ys: "thread_slots pr = pr_currentThread pr # ys" "firstAvailableThreadSpace pr \<notin> set (pr_currentThread pr # ys)"
    "in_range (firstAvailableThreadSpace pr) MAX_THREADS"
    by (rule thread_roomE[OF assms(1)]) (use assms(2) in auto)
  have ok: "\<And>i. i \<in> set (pr_currentThread pr # ys) \<Longrightarrow> in_range i MAX_THREADS \<and> thrs s (tn_thread (pr_threads pr i)) \<noteq> None"
    using assms(1,2) ys(1) by (auto simp: thread_room_def proc_ok_def)
  have "in_range i MAX_THREADS \<and> thrs s (tn_thread (pr_threads (with_thread t pr) i)) \<noteq> None"
    if "i \<in> set (thread_slots (with_thread t pr))" for i
    using that ok[of i] ys assms(3) unfolding thread_slots_with(1)[OF assms(1,2)]
    by (auto simp: with_thread_def Let_def)
  then show ?thesis using thread_slots_with(2)[OF assms(1,2)] by (simp add: proc_ok_def)
qed

text \<open>So the ring of the threads is a growing one too.\<close>

interpretation threads_grown: growing_round_robin
  "\<lambda>(s, p). proc_ok s p"
  "\<lambda>(s, p). thread_slots (the (procs s p))"
  "\<lambda>(s, p). thread_ready s (the (procs s p))"
  "\<lambda>(s, p). case nextThread p s of Done r s' \<Rightarrow> if r = -1 then None else Some r | _ \<Rightarrow> None"
  "\<lambda>(s, p). thread_room s p \<and> thrs s t \<noteq> None"
  "\<lambda>(s, p). firstAvailableThreadSpace (the (procs s p))"
  "\<lambda>(s, p). (s\<lparr>procs := (procs s)(p \<mapsto> with_thread t (the (procs s p)))\<rparr>, p)" for t
proof unfold_locales
  fix sp :: "kstate \<times> addr"
  obtain s p where sp: "sp = (s, p)" by (cases sp)
  assume "case sp of (s, p) \<Rightarrow> thread_room s p \<and> thrs s t \<noteq> None"
  then have r: "thread_room s p" "thrs s t \<noteq> None" by (simp_all add: sp)
  then obtain pr where pr: "procs s p = Some pr" by (auto simp: thread_room_def proc_ok_def split: option.splits)
  show "case case sp of (s, p) \<Rightarrow> (s\<lparr>procs := (procs s)(p \<mapsto> with_thread t (the (procs s p)))\<rparr>, p) of (s, p) \<Rightarrow> proc_ok s p"
    using proc_ok_with[OF r(1) pr r(2)] by (simp add: sp pr)
  show "(case case sp of (s, p) \<Rightarrow> (s\<lparr>procs := (procs s)(p \<mapsto> with_thread t (the (procs s p)))\<rparr>, p) of
        (s, p) \<Rightarrow> thread_slots (the (procs s p))) =
      hd (case sp of (s, p) \<Rightarrow> thread_slots (the (procs s p))) #
      (case sp of (s, p) \<Rightarrow> firstAvailableThreadSpace (the (procs s p))) #
      tl (case sp of (s, p) \<Rightarrow> thread_slots (the (procs s p)))"
    using thread_slots_with(1)[OF r(1) pr] by (simp add: sp pr thread_slots_def[of pr])
qed

text \<open>A new thread that is ready is the next of its process to run.\<close>

theorem addThread_runs_next:
  assumes "thread_room s p" "thrs s t = Some th" "th_state th = READY"
  shows "\<exists>i s'. addThread p t s = Done i s' \<and> proc_ok s' p \<and> i = firstAvailableThreadSpace (the (procs s p)) \<and>
    thread_slots (the (procs s' p)) = pr_currentThread (the (procs s p)) # i # tl (thread_slots (the (procs s p))) \<and>
    (\<exists>s''. nextThread p s' = Done i s'')"
proof -
  obtain pr where pr: "procs s p = Some pr" using assms(1) by (auto simp: thread_room_def proc_ok_def split: option.splits)
  let ?i = "firstAvailableThreadSpace pr" and ?s = "s\<lparr>procs := (procs s)(p \<mapsto> with_thread t pr)\<rparr>"
  have t: "thrs s t \<noteq> None" using assms(2) by simp
  have "thread_ready ?s (with_thread t pr) ?i"
    using assms(2,3) by (simp add: thread_ready_def with_thread_def Let_def)
  then have "(case nextThread p ?s of Done r s' \<Rightarrow> if r = -1 then None else Some r | _ \<Rightarrow> None) = Some ?i"
    using threads_grown.new_is_next[where s = "(s, p)" and t = t] assms(1) t pr by simp
  then have "\<exists>s''. nextThread p ?s = Done ?i s''" by (auto split: outcome.splits if_splits)
  then show ?thesis
    using addThread_eq[OF assms(1) pr] proc_ok_with[OF assms(1) pr t] thread_slots_with(1)[OF assms(1) pr] pr by auto
qed

end
