(* ===== verification/SemRuns.thy ===== *)
theory SemRuns
  imports SemProps MutexExcl
begin

text \<open>
  A semaphore over whole executions: any number of threads wait and signal, the processor is taken from them at any
  time, and the ones that have to wait go on when the scheduler chooses them again.  The steps are those of
  \<open>wait\<close>, \<open>signal\<close> and \<open>nextProcess\<close>; the invariant balances the permits that were given against the waits that were let
  through, and says who sleeps.
\<close>

section \<open>The balance of a semaphore\<close>

text \<open>
  A thread in the domain of \<open>r\<close> is inside of a call of \<open>wait\<close> that gave up the processor, with the rest of the call to do.
  The number \<open>n\<close> is what was there at the start and given since, less what was taken.
\<close>

definition balanced :: "semaphore_t \<Rightarrow> (threadId_t \<Rightarrow> unit KS option) \<Rightarrow> (threadId_t \<Rightarrow> bool) \<Rightarrow> int \<Rightarrow> bool" where
  "balanced x r sl n \<longleftrightarrow> sem_wf x \<and> inj_on (s_blocked x) (swaiting x) \<and> finite (dom r) \<and>
     (\<forall>i \<in> swaiting x. s_blocked x i \<in> dom r) \<and>
     (\<forall>q c. r q = Some c \<longrightarrow> c = Done () \<and> (sl q \<longleftrightarrow> q \<in> s_blocked x ` swaiting x)) \<and>
     int (card (dom r)) + s_value x = n"

lemma balancedD:
  assumes "balanced x r sl n"
  shows "sem_wf x" "inj_on (s_blocked x) (swaiting x)" "finite (dom r)" "i \<in> swaiting x \<Longrightarrow> \<exists>c. r (s_blocked x i) = Some c"
    "r q = Some c \<Longrightarrow> c = Done () \<and> (sl q \<longleftrightarrow> q \<in> s_blocked x ` swaiting x)"
    "int (card (dom r)) + s_value x = n"
  using assms unfolding balanced_def dom_def by blast+

lemma balanced_cong:
  assumes "balanced x r sl n" "\<And>q. r q \<noteq> None \<Longrightarrow> sl' q = sl q"
  shows "balanced x r sl' n"
  using assms(1) assms(2) unfolding balanced_def by (metis option.distinct(1))

lemma balanced_take:
  assumes "balanced x r sl n" "0 < s_value x"
  shows "balanced (x\<lparr>s_value := s_value x - 1\<rparr>) r sl (n - 1)"
  using assms abs_permit[OF assms(2) balancedD(1)[OF assms(1)]] by (simp add: balanced_def)

lemma balanced_queue:
  assumes "balanced x r sl n" "s_value x \<le> 0" "r q = None" "tid_pid q \<noteq> NOT_USED"
    "nextListIndexAvailable (s_blocked x) MAX_BLOCKED \<noteq> FULL_LIST"
  shows "balanced (squeued q x) (r(q \<mapsto> Done ())) (sl(q := True)) n"
proof -
  let ?i = "nextListIndexAvailable (s_blocked x) MAX_BLOCKED"
  note D = balancedD[OF assms(1)]
  note w = swaiting_squeued[OF assms(5,4)]
  have b: "s_blocked (squeued q x) = (s_blocked x)(?i := q)" "s_value (squeued q x) = s_value x - 1"
    by (simp_all add: squeued_def)
  have new: "s_blocked x j \<noteq> q" if "j \<in> swaiting x" for j using D(4)[OF that] assms(3) by auto
  have img: "s_blocked (squeued q x) ` swaiting (squeued q x) = insert q (s_blocked x ` swaiting x)"
    using w by (auto simp: b)
  have "inj_on (s_blocked (squeued q x)) (swaiting (squeued q x))" using D(2) w new by (auto simp: b inj_on_def)
  moreover have "\<forall>i \<in> swaiting (squeued q x). s_blocked (squeued q x) i \<in> dom (r(q \<mapsto> Done ()))"
    using D(4) w by (auto simp: b)
  moreover have "int (card (dom (r(q \<mapsto> Done ())))) = int (card (dom r)) + 1"
    using D(3) assms(3) by (simp add: card_insert_disjoint domIff)
  ultimately show ?thesis
    unfolding balanced_def img using abs_squeued(2)[OF assms(2) D(1) assms(5,4)] D(3,5,6) by (simp add: b(2))
qed

lemma balanced_leave:
  assumes "balanced x r sl n" "r q = Some c" "\<not> sl q"
  shows "balanced x (r(q := None)) sl (n - 1)"
proof -
  note D = balancedD[OF assms(1)]
  have out: "q \<notin> s_blocked x ` swaiting x" using D(5)[OF assms(2)] assms(3) by blast
  have "card (dom r) = Suc (card (dom r - {q}))"
    using D(3) assms(2) by (intro card_Suc_Diff1[symmetric]) auto
  then show ?thesis using D out unfolding balanced_def by auto
qed

lemma balanced_signal:
  assumes "balanced x r sl n"
  shows "balanced ((woken_sem x)\<lparr>s_value := s_value x + 1\<rparr>) r
    (case next_woken x of None \<Rightarrow> sl | Some j \<Rightarrow> sl(s_blocked x j := False)) (n + 1)"
proof (cases "next_woken x")
  case None
  then have x: "woken_sem x = x" by (simp add: woken_sem_def)
  show ?thesis using assms abs_woken(2)[OF balancedD(1)[OF assms]] unfolding x None by (simp add: balanced_def)
next
  case (Some j)
  note D = balancedD[OF assms]
  have j: "j \<in> swaiting x" using Some first_swaiter_Some next_woken_wf[OF D(1)] by simp
  have x: "woken_sem x = swoken j x" by (simp add: woken_sem_def Some)
  have b: "s_blocked (swoken j x) = (s_blocked x)(j := tid NOT_USED NOT_USED)" by (simp add: swoken_def)
  have other: "s_blocked x i \<noteq> s_blocked x j" if "i \<in> swaiting x - {j}" for i
    using that D(2) j by (auto simp: inj_on_def)
  have img: "s_blocked (swoken j x) ` swaiting (swoken j x) = s_blocked x ` swaiting x - {s_blocked x j}"
    using other by (auto simp: b swaiting_swoken)
  have "inj_on (s_blocked (swoken j x)) (swaiting (swoken j x))"
    using D(2) by (auto simp: b swaiting_swoken inj_on_def)
  moreover have "\<forall>i \<in> swaiting (swoken j x). s_blocked (swoken j x) i \<in> dom r"
    using D(4) by (auto simp: b swaiting_swoken)
  ultimately show ?thesis
    using abs_woken(2)[OF D(1)] D(3,5,6) by (auto simp: balanced_def x Some img)
qed

text \<open>With at most 30 users there is always a place to wait.\<close>

lemma balanced_room:
  assumes "balanced x r sl n" "r q = None" "q \<in> users" "dom r \<subseteq> users" "finite users" "card users \<le> 30"
  shows "nextListIndexAvailable (s_blocked x) MAX_BLOCKED \<noteq> FULL_LIST"
proof
  assume full: "nextListIndexAvailable (s_blocked x) MAX_BLOCKED = FULL_LIST"
  note D = balancedD[OF assms(1)]
  have all: "swaiting x = {0..<MAX_BLOCKED}"
    using free_cell.full[OF full] by (auto simp: swaiting_def MAX_BLOCKED_def)
  have "s_blocked x ` swaiting x \<subseteq> users - {q}" using D(4) assms(2,4) by force
  then have "card (s_blocked x ` swaiting x) \<le> card (users - {q})" using assms(5) by (intro card_mono) auto
  moreover have "card (s_blocked x ` swaiting x) = 30" by (subst card_image[OF D(2)]) (simp add: all MAX_BLOCKED_def)
  moreover have "card (users - {q}) = card users - 1" using assms(3,5) by simp
  ultimately show False using assms(6) by simp
qed

text \<open>What was given is there, or was taken, or belongs to a thread that was woken and has not had the processor yet.\<close>

lemma balanced_permits:
  assumes "balanced x r sl n"
  shows "int (card {q \<in> dom r. \<not> sl q}) + permits (abs_sem x) = n"
    "r q \<noteq> None \<Longrightarrow> sl q \<longleftrightarrow> (\<exists>i. swaiters (abs_sem x) i = Some q)"
    "r q \<noteq> None \<Longrightarrow> sl q \<Longrightarrow> permits (abs_sem x) = 0"
proof -
  note D = balancedD[OF assms]
  have sleepers: "{q \<in> dom r. sl q} = s_blocked x ` swaiting x" using D(4,5) by blast
  have "dom r = {q \<in> dom r. \<not> sl q} \<union> s_blocked x ` swaiting x"
    "{q \<in> dom r. \<not> sl q} \<inter> s_blocked x ` swaiting x = {}" using sleepers by blast+
  then have "card (dom r) = card {q \<in> dom r. \<not> sl q} + card (s_blocked x ` swaiting x)"
    using card_Un_disjoint[of "{q \<in> dom r. \<not> sl q}" "s_blocked x ` swaiting x"] D(3) by simp
  moreover have "card (s_blocked x ` swaiting x) = card (swaiting x)" by (rule card_image[OF D(2)])
  ultimately show "int (card {q \<in> dom r. \<not> sl q}) + permits (abs_sem x) = n"
    using D(1,6) by (auto simp: abs_sem_def sem_wf_def max_def split: if_splits)
  show "sl q \<longleftrightarrow> (\<exists>i. swaiters (abs_sem x) i = Some q)" if "r q \<noteq> None"
    using that D(5)[of q] by (auto simp: abs_sem_def)
  show "permits (abs_sem x) = 0" if "r q \<noteq> None" "sl q"
  proof -
    have "swaiting x \<noteq> {}" using that D(5)[of q] by auto
    then have "0 < card (swaiting x)" by (simp add: card_gt_0_iff)
    then show ?thesis using D(1) by (auto simp: abs_sem_def sem_wf_def max_def split: if_splits)
  qed
qed

section \<open>Steps of the system\<close>

text \<open>
  The thread in use calls \<open>wait\<close>, which returns or leaves it with a rest to do; goes on with that rest; or calls \<open>signal\<close>.
  The timer may switch at any time.  The two numbers count the signals and the waits that were let through.
\<close>

type_synonym sem_run = "kstate \<times> (threadId_t \<Rightarrow> unit KS option) \<times> nat \<times> nat"

inductive sstep :: "killer \<Rightarrow> int \<Rightarrow> threadId_t set \<Rightarrow> sem_run \<Rightarrow> sem_run \<Rightarrow> bool"
  for kt k users where
  pass: "\<lbrakk>cur_id s = q; q \<in> users; r q = None; wait kt k (tid_pid q) (tid_thread q) s = Done () s'\<rbrakk> \<Longrightarrow>
    sstep kt k users (s, r, g, t) (s', r, g, Suc t)"
| block: "\<lbrakk>cur_id s = q; q \<in> users; r q = None; wait kt k (tid_pid q) (tid_thread q) s = Yield s' c\<rbrakk> \<Longrightarrow>
    sstep kt k users (s, r, g, t) (s', r(q \<mapsto> c), g, t)"
| goes_on: "\<lbrakk>cur_id s = q; r q = Some c; c s = Done () s'\<rbrakk> \<Longrightarrow> sstep kt k users (s, r, g, t) (s', r(q := None), g, Suc t)"
| signals: "\<lbrakk>r (cur_id s) = None; signal kt k s = Done () s'\<rbrakk> \<Longrightarrow> sstep kt k users (s, r, g, t) (s', r, Suc g, t)"
| switch: "nextProcess s = Done rsp s' \<Longrightarrow> sstep kt k users (s, r, g, t) (s', r, g, t)"

definition sinv :: "int \<Rightarrow> threadId_t set \<Rightarrow> threadId_t \<Rightarrow> int \<Rightarrow> sem_run \<Rightarrow> bool" where
  "sinv k users idle v = (\<lambda>(s, r, g, t). sys_ok idle s \<and> clients users idle s \<and> card users \<le> 30 \<and> valid_sem s k \<and>
     free_mutex_at s (s_mutex (sem s k)) \<and> state_of s (cur_thread_addr s) \<noteq> BLOCKED \<and> dom r \<subseteq> users \<and>
     balanced (sem s k) r (asleep s) (v + int g - int t))"

lemma sinvD:
  assumes "sinv k users idle v (s, r, g, t)"
  shows "sys_ok idle s" "clients users idle s" "card users \<le> 30" "valid_sem s k" "free_mutex_at s (s_mutex (sem s k))"
    "state_of s (cur_thread_addr s) \<noteq> BLOCKED" "dom r \<subseteq> users" "balanced (sem s k) r (asleep s) (v + int g - int t)"
    "threads_ok s" "lockQuantumExceded (sched s) = 0" "changeLock (sched s) \<noteq> 1" "sched_ok s" "\<not> asleep s (cur_id s)"
  using assms addr_of_cur[of s] by (auto simp: sinv_def sys_ok_def threads_ok_def asleep_def)

lemma valid_sem_iff': "valid_sem s k \<longleftrightarrow> in_range k MAX_SEMAPHORES \<and> tid_pid (s_creator (sem s k)) \<noteq> NOT_USED"
  by (auto simp: valid_sem_def isValidSemaphore_def in_range_def sem_def)

lemma free_mutex_same: "free_mutex_at s m \<Longrightarrow> entry s' m = entry s m \<Longrightarrow> free_mutex_at s' m"
  by (simp add: free_mutex_at_def valid_mutex_iff)

lemma sinvI:
  assumes "sinv k users idle v (s, r, g, t)" "sys_ok idle s'" "\<And>q. addr_of s' q = addr_of s q"
    "s_creator (sem s' k) = s_creator (sem s k)" "free_mutex_at s' (s_mutex (sem s' k))"
    "state_of s' (cur_thread_addr s') \<noteq> BLOCKED" "dom r' \<subseteq> users" "balanced (sem s' k) r' (asleep s') (v + int g' - int t')"
  shows "sinv k users idle v (s', r', g', t')"
proof -
  have "addr_of s' = addr_of s" using assms(3) by blast
  then show ?thesis using assms by (auto simp: sinv_def clients_def valid_sem_iff')
qed

section \<open>Every step keeps the invariant\<close>

text \<open>Changes of the two tables alone.\<close>

lemma state_of_set_sem [simp]: "state_of (set_sem k x s) = state_of s"
  by (simp add: state_of_def[abs_def])

lemma sems_resched [simp]: "sems (resched s) = sems s" "sem (resched s) k = sem s k"
  by (simp_all add: resched_def sem_def) (simp_all add: set_cur_state_def)

lemma sys_ok_sem:
  assumes "sys_ok idle s"
  shows "sys_ok idle (set_lock 0 (set_sem k x (set_entry m e s)))"
    "addr_of (set_lock 0 (set_sem k x (set_entry m e s))) q = addr_of s q"
    "asleep (set_lock 0 (set_sem k x (set_entry m e s))) q = asleep s q"
    "cur_thread_addr (set_lock 0 (set_sem k x (set_entry m e s))) = cur_thread_addr s"
proof -
  have "threads_ok (set_lock 0 (set_sem k x (set_entry m e s)))" "lockQuantumExceded (sched s) = 0"
    using assms by (simp_all add: sys_ok_def)
  then show "sys_ok idle (set_lock 0 (set_sem k x (set_entry m e s)))"
    "addr_of (set_lock 0 (set_sem k x (set_entry m e s))) q = addr_of s q"
    "asleep (set_lock 0 (set_sem k x (set_entry m e s))) q = asleep s q"
    "cur_thread_addr (set_lock 0 (set_sem k x (set_entry m e s))) = cur_thread_addr s"
    using sys_ok_cong[OF assms, of "set_lock 0 (set_sem k x (set_entry m e s))"] by simp_all
qed

lemma sys_ok_sem_seized:
  assumes "sys_ok idle s"
  shows "sys_ok idle (set_lock 0 (set_sem k x (seized m e s)))"
    "addr_of (set_lock 0 (set_sem k x (seized m e s))) q = addr_of s q"
    "asleep (set_lock 0 (set_sem k x (seized m e s))) q = asleep s q"
    "cur_thread_addr (set_lock 0 (set_sem k x (seized m e s))) = cur_thread_addr s"
proof -
  have "threads_ok (set_lock 0 (set_sem k x (seized m e s)))" "lockQuantumExceded (sched s) = 0"
    using assms by (simp_all add: sys_ok_def)
  then show "sys_ok idle (set_lock 0 (set_sem k x (seized m e s)))"
    "addr_of (set_lock 0 (set_sem k x (seized m e s))) q = addr_of s q"
    "asleep (set_lock 0 (set_sem k x (seized m e s))) q = asleep s q"
    "cur_thread_addr (set_lock 0 (set_sem k x (seized m e s))) = cur_thread_addr s"
    using sys_ok_cong[OF assms, of "set_lock 0 (set_sem k x (seized m e s))"] by simp_all
qed

lemma sinv_wait_pass:
  assumes "sinv k users idle v (s, r, g, t)" "0 < s_value (sem s k)"
  shows "\<exists>s'. wait kt k pid i s = Done () s' \<and> sinv k users idle v (s', r, g, Suc t)"
proof -
  note I = sinvD[OF assms(1)]
  let ?m = "s_mutex (sem s k)" and ?x = "(sem s k)\<lparr>s_value := s_value (sem s k) - 1\<rparr>"
  let ?s = "set_lock 0 (set_sem k ?x (seized ?m (touched (tid pid i) (entry s ?m)) s))"
  note f = sys_ok_sem_seized[OF I(1), of k ?x ?m "touched (tid pid i) (entry s ?m)"]
  have "asleep ?s = asleep s" using f(3) by blast
  moreover have "free_mutex_at ?s ?m" by (rule free_mutex_after[OF I(5)]) simp
  moreover have "balanced ?x r (asleep s) (v + int g - int (Suc t))" using balanced_take[OF I(8) assms(2)] by (simp add: diff_diff_eq add.commute)
  ultimately have "sinv k users idle v (?s, r, g, Suc t)"
    using I(6,7) by (intro sinvI[OF assms(1) f(1,2)]) (simp_all add: f(4))
  then show ?thesis using wait_free_eq[OF I(4,5,9,10) assms(2)] by blast
qed

lemma sinv_wait_block:
  assumes "sinv k users idle v (s, r, g, t)" "q \<in> users" "r q = None" "s_value (sem s k) \<le> 0"
  shows "\<exists>s'. wait kt k (tid_pid q) (tid_thread q) s = Yield s' (Done ()) \<and> sinv k users idle v (s', r(q \<mapsto> Done ()), g, t)"
proof -
  note I = sinvD[OF assms(1)] and C = clientsD[OF sinvD(2)[OF assms(1)] assms(2)]
  have room: "nextListIndexAvailable (s_blocked (sem s k)) MAX_BLOCKED \<noteq> FULL_LIST"
    by (rule balanced_room[OF I(8) assms(3,2) I(7) C(4) I(3)])
  obtain a where a: "addr_of s q = Some a" "addr_of s idle \<noteq> Some a" using C(2) by blast
  let ?m = "s_mutex (sem s k)" and ?x = "squeued q (sem s k)"
  let ?e = "touched q (entry s ?m)"
  let ?s1 = "set_state (tid_pid q) (tid_thread q) BLOCKED s"
  let ?s2 = "set_lock 0 (set_sem k ?x (seized ?m ?e ?s1))"
  let ?s3 = "yielded ?s2"
  note f1 = sys_ok_set_state[OF I(1) a, of BLOCKED]
  note f2 = sys_ok_sem_seized[OF f1(1), of k ?x ?m ?e]
  note f3 = sys_ok_yielded[OF f2(1)]
  have addr: "addr_of ?s3 p = addr_of s p" for p using f1(2) f2(2) f3(3) by simp
  have sl: "asleep ?s3 p = ((asleep s)(q := True)) p" if "(r(q \<mapsto> Done ())) p \<noteq> None" for p
    using f1(3) f2(3) f3(4) that I(7) C(3)[of p] a by (auto split: if_splits)
  have "balanced ?x (r(q \<mapsto> Done ())) (asleep ?s3) (v + int g - int t)"
    by (rule balanced_cong[OF balanced_queue[OF I(8) assms(4,3) C(1) room]]) (use sl in blast)
  moreover have "free_mutex_at ?s3 (s_mutex ?x)" using free_mutex_after[OF I(5), of ?s3 q] by (simp add: squeued_def)
  moreover have "s_creator ?x = s_creator (sem s k)" by (simp add: squeued_def)
  ultimately have "sinv k users idle v (?s3, r(q \<mapsto> Done ()), g, t)"
    using I(7) assms(2) f3(2) by (intro sinvI[OF assms(1) f3(1) addr]) simp_all
  then show ?thesis
    using wait_block_eq[OF I(4,5,9,10) assms(4) room, of kt "tid_pid q" "tid_thread q", unfolded tid_eta] by blast
qed

lemma sinv_goes_on:
  assumes "sinv k users idle v (s, r, g, t)" "cur_id s = q" "r q = Some c"
  shows "c = Done ()" "sinv k users idle v (s, r(q := None), g, Suc t)"
proof -
  note I = sinvD[OF assms(1)]
  show "c = Done ()" using balancedD(5)[OF I(8) assms(3)] by blast
  have "balanced (sem s k) (r(q := None)) (asleep s) (v + int g - int (Suc t))"
    using balanced_leave[OF I(8) assms(3)] I(13) assms(2) by (simp add: diff_diff_eq add.commute)
  then show "sinv k users idle v (s, r(q := None), g, Suc t)"
    using I by (intro sinvI[OF assms(1)]) auto
qed

lemma sinv_switch:
  assumes "sinv k users idle v (s, r, g, t)" "nextProcess s = Done rsp s'"
  shows "sinv k users idle v (s', r, g, t)"
proof -
  note I = sinvD[OF assms(1)]
  have s': "s' = resched s" using nextProcess_eq[OF I(12,11)] assms(2) by (simp add: resched_def)
  note re = sys_ok_resched[OF I(1)]
  have "asleep (resched s) = asleep s" using re(4) by blast
  moreover have "free_mutex_at (resched s) (s_mutex (sem s k))" by (rule free_mutex_same[OF I(5)]) simp
  ultimately show ?thesis
    unfolding s' using I(7,8) re(2) by (intro sinvI[OF assms(1) re(1,3)]) simp_all
qed

lemma sinv_signal:
  assumes "sinv k users idle v (s, r, g, t)"
  shows "\<exists>s'. signal kt k s = Done () s' \<and> sinv k users idle v (s', r, Suc g, t)"
proof -
  note I = sinvD[OF assms(1)]
  let ?x = "sem s k" and ?m = "s_mutex (sem s k)" and ?who = "tid (cur_pid s) (cur_tid s)"
  let ?y = "(woken_sem ?x)\<lparr>s_value := s_value ?x + 1\<rparr>" and ?e = "touched ?who (entry s ?m)"
  let ?s1 = "set_lock 0 (seized ?m (down_free ?who (entry s ?m)) s)"
  let ?s' = "set_lock 0 (set_sem k ?y (set_entry ?m ?e (woken_state k ?s1)))"
  note f1 = sys_ok_seized[OF I(1), of ?m "down_free ?who (entry s ?m)"]
  have n: "v + int (Suc g) - int t = v + int g - int t + 1" by simp
  note bal = balanced_signal[OF I(8), folded n]
  have mx: "free_mutex_at ?s' ?m" by (rule free_mutex_after[OF I(5), of _ ?who]) simp
  have "sinv k users idle v (?s', r, Suc g, t)"
  proof (cases "next_woken ?x")
    case None
    then have w: "woken_state k ?s1 = ?s1" by (simp add: woken_state_def)
    note f2 = sys_ok_sem[OF f1(1), of k ?y ?m ?e]
    have "asleep (set_lock 0 (set_sem k ?y (set_entry ?m ?e ?s1))) = asleep s" using f1(3) f2(3) by blast
    moreover have "balanced ?y r (asleep s) (v + int (Suc g) - int t)" using bal None by simp
    moreover have "addr_of (set_lock 0 (set_sem k ?y (set_entry ?m ?e ?s1))) q = addr_of s q" for q
      using f1(2) f2(2) by simp
    ultimately show ?thesis
      using mx f1(4) f2(4) I(6,7) unfolding w by (intro sinvI[OF assms f2(1)]) simp_all
  next
    case (Some j)
    let ?b = "s_blocked ?x j"
    have j: "j \<in> swaiting ?x" using Some first_swaiter_Some next_woken_wf[OF balancedD(1)[OF I(8)]] by simp
    have b: "r ?b \<noteq> None" "?b \<in> users" using balancedD(4)[OF I(8) j] I(7) by auto
    note C = clientsD[OF I(2) b(2)]
    obtain a where a: "addr_of s ?b = Some a" "addr_of s idle \<noteq> Some a" using C(2) by blast
    let ?s2 = "set_state (tid_pid ?b) (tid_thread ?b) READY ?s1"
    have w: "woken_state k ?s1 = set_sem k (swoken j ?x) ?s2" by (simp add: woken_state_def Some Let_def)
    have s': "?s' = set_lock 0 (set_sem k ?y (set_entry ?m ?e ?s2))" unfolding w set_sem_commute by simp
    have a1: "addr_of ?s1 ?b = Some a" "addr_of ?s1 idle \<noteq> Some a" using a f1(2) by simp_all
    note f2 = sys_ok_set_state[OF f1(1) a1, of READY]
    note f3 = sys_ok_sem[OF f2(1), of k ?y ?m ?e]
    have addr: "addr_of ?s' p = addr_of s p" for p using f1(2) f2(2) f3(2) unfolding s' by simp
    have sl: "asleep ?s' p = ((asleep s)(?b := False)) p" if "r p \<noteq> None" for p
      using f1(2,3) f2(3) f3(3) that I(7) C(3)[of p] a unfolding s' by auto
    have "balanced ?y r (asleep ?s') (v + int (Suc g) - int t)"
      using balanced_cong[OF bal, of "asleep ?s'"] sl by (simp add: Some)
    moreover have "state_of ?s' (cur_thread_addr ?s') \<noteq> BLOCKED"
      unfolding s' using I(6) f1(4) f2(4,5) f3(4) by simp
    moreover have "sys_ok idle ?s'" unfolding s' by (rule f3(1))
    ultimately show ?thesis using I(7) mx by (intro sinvI[OF assms _ addr]) simp_all
  qed
  then show ?thesis using signal_eq[OF I(4,5,9,10), of kt] by blast
qed

lemma sinv_step:
  assumes "sinv k users idle v c" "sstep kt k users c c'"
  shows "sinv k users idle v c'"
  using assms(2,1)
proof (cases rule: sstep.cases)
  case (pass s q r s' g t)
  then have "0 < s_value (sem s k)" using sinv_wait_block[of k users idle v s r g t q kt] assms(1) by force
  then show ?thesis using sinv_wait_pass[of k users idle v s r g t kt "tid_pid q" "tid_thread q"] pass assms(1) by auto
next
  case (block s q r s' d g t)
  then have "s_value (sem s k) \<le> 0"
    using sinv_wait_pass[of k users idle v s r g t kt "tid_pid q" "tid_thread q"] assms(1) by force
  moreover obtain s'' where "wait kt k (tid_pid q) (tid_thread q) s = Yield s'' (Done ())"
      "sinv k users idle v (s'', r(q \<mapsto> Done ()), g, t)"
    using sinv_wait_block[of k users idle v s r g t q kt] calculation block(1,4,5) assms(1) by metis
  ultimately have "s'' = s'" "d = Done ()" using block(6) by (metis outcome.inject(2))+
  then show ?thesis using block(2) \<open>sinv k users idle v (s'', r(q \<mapsto> Done ()), g, t)\<close> by blast
next
  case (goes_on s q r c s' g t)
  then show ?thesis using sinv_goes_on[of k users idle v s r g t q c] assms(1) by auto
next
  case (signals r s s' g t)
  then show ?thesis using sinv_signal[of k users idle v s r g t kt] assms(1) by auto
next
  case (switch s rsp s' r g t)
  then show ?thesis using sinv_switch[of k users idle v s r g t] assms(1) by auto
qed

lemma sinv_reachable: "(sstep kt k users)\<^sup>*\<^sup>* c c' \<Longrightarrow> sinv k users idle v c \<Longrightarrow> sinv k users idle v c'"
  by (induction rule: rtranclp_induct) (auto intro: sinv_step)

lemma card_sole: "card {q \<in> {p}. P q} = (if P p then 1 else 0)"
proof -
  have "{q \<in> {p}. P q} = (if P p then {p} else {})" by auto
  then show ?thesis by simp
qed

section \<open>A concrete run\<close>

text \<open>
  The system of three processes with a semaphore of one permit.  The first process takes it, the timer switches to the
  second one, which has to wait, and whoever runs then signals.
\<close>

definition sem_start :: "int \<Rightarrow> threadId_t set \<Rightarrow> threadId_t \<Rightarrow> kstate \<Rightarrow> bool" where
  "sem_start k users idle s \<longleftrightarrow> sys_ok idle s \<and> clients users idle s \<and> card users \<le> 30 \<and> valid_sem s k \<and>
     free_mutex_at s (s_mutex (sem s k)) \<and> sem_wf (sem s k) \<and> 0 \<le> s_value (sem s k) \<and>
     state_of s (cur_thread_addr s) = RUNNING"

lemma start_sinv: "sem_start k users idle s \<Longrightarrow> sinv k users idle (s_value (sem s k)) (s, \<lambda>_. None, 0, 0)"
  by (auto simp: sem_start_def sinv_def balanced_def sem_wf_def)

definition ex3_sem :: "kstate \<Rightarrow> kstate" where
  "ex3_sem s = set_lock 0 (set_sem 5 (ex_sem 1 nobody 0) (set_entry 3 (ex_mutex UNLOCKED nobody 0) (ex3_state s)))"

lemma ex3_sem_simps [simp]: "sem (ex3_sem s) 5 = ex_sem 1 nobody 0" "entry (ex3_sem s) m = ex_mutex UNLOCKED nobody 0"
  "sched (ex3_sem s) = ex3_sched" "procs (ex3_sem s) = procs (ex3_state s)" "thrs (ex3_sem s) = thrs (ex3_state s)"
  by (simp_all add: ex3_sem_def ex3_lock)

lemma ex3_sem_start: "sem_start 5 {tid 1 0, tid 2 0} (tid 3 0) (ex3_sem s)"
proof -
  note f = sys_ok_sem[OF ex3_sys_ok, of 5 "ex_sem 1 nobody 0" 3 "ex_mutex UNLOCKED nobody 0", folded ex3_sem_def]
  have "addr_of (ex3_sem s) = addr_of (ex3_state s)" using f(2) by blast
  then have "clients {tid 1 0, tid 2 0} (tid 3 0) (ex3_sem s)" using ex3_clients[of s] by (simp add: clients_def)
  moreover have "free_mutex_at (ex3_sem s) 3"
    by (simp add: free_mutex_at_def valid_mutex_iff in_range_def MAX_MUTEXES_def) (simp add: ex_mutex_def)
  moreover have "state_of (ex3_sem s) 11 = RUNNING" using ex3_state_of(1)[of s] by (simp add: state_of_def)
  ultimately show ?thesis
    using f(1,4) by (simp add: sem_start_def valid_sem_iff' ex3_cur)
      (simp add: ex_sem_def sem_wf_def swaiting_def in_range_def MAX_SEMAPHORES_def)
qed

lemma ex3_sem_run:
  obtains s where "(sstep kt 5 {tid 1 0, tid 2 0})\<^sup>*\<^sup>* (ex3_sem s0, \<lambda>_. None, 0, 0) (s, [tid 2 0 \<mapsto> Done ()], 1, 1)"
proof -
  let ?U = "{tid 1 0, tid 2 0}" and ?x = "ex_sem 1 nobody 0" and ?e = "ex_mutex UNLOCKED nobody 0"
  let ?s1 = "set_lock 0 (set_sem 5 (?x\<lparr>s_value := 0\<rparr>) (seized 3 (touched (tid 1 0) ?e) (ex3_sem s0)))"
  note start = start_sinv[OF ex3_sem_start[of s0]]
  have x: "s_value ?x = 1" "s_mutex ?x = 3" by (simp_all add: ex_sem_def)
  have "wait kt 5 1 0 (ex3_sem s0) = Done () ?s1"
    using wait_free_eq[of "ex3_sem s0" 5 kt 1 0] sinvD(4,5,9,10)[OF start] by (simp add: x)
  moreover have "cur_id (ex3_sem s0) = tid 1 0" using ex3_cur(1)[of s0] by (simp add: cur_id_def proc_at_def)
  ultimately have one: "sstep kt 5 ?U (ex3_sem s0, \<lambda>_. None, 0, 0) (?s1, \<lambda>_. None, 0, 1)"
    using sstep.pass[of "ex3_sem s0" "tid 1 0" ?U "\<lambda>_. None" kt 5 ?s1 0 0] by simp
  obtain rsp s2 where s2: "nextProcess ?s1 = Done rsp s2" "cur_id s2 = tid 2 0"
    using ex3_tick[OF ex3_lock, of "set_sem 5 (?x\<lparr>s_value := 0\<rparr>) (seized 3 (touched (tid 1 0) ?e) (ex3_sem s0))" s0]
    by fastforce
  have two: "sstep kt 5 ?U (?s1, \<lambda>_. None, 0, 1) (s2, \<lambda>_. None, 0, 1)" by (rule sstep.switch[OF s2(1)])
  have inv2: "sinv 5 ?U (tid 3 0) 1 (s2, \<lambda>_. None, 0, 1)"
    using sinv_step[OF sinv_step[OF start one] two] by (simp add: x)
  have "s_value (sem s2 5) \<le> 0" using balancedD(6)[OF sinvD(8)[OF inv2]] by simp
  then obtain s3 where s3: "wait kt 5 2 0 s2 = Yield s3 (Done ())" "sinv 5 ?U (tid 3 0) 1 (s3, [tid 2 0 \<mapsto> Done ()], 0, 1)"
    using sinv_wait_block[OF inv2, of "tid 2 0" kt, unfolded threadId_t.simps, OF insertI2[OF singletonI] refl] by blast
  have three: "sstep kt 5 ?U (s2, \<lambda>_. None, 0, 1) (s3, [tid 2 0 \<mapsto> Done ()], 0, 1)"
    by (rule sstep.block[of s2 "tid 2 0" ?U "\<lambda>_. None" kt 5 s3 "Done ()" 0 1])
      (use s2(2) in simp, simp, simp, unfold threadId_t.simps, rule s3(1))
  note I = sinvD[OF s3(2)]
  have "int (card {q \<in> {tid 2 0}. \<not> asleep s3 q}) + permits (abs_sem (sem s3 5)) = 0"
    using balanced_permits(1)[OF I(8)] by simp
  then have "asleep s3 (tid 2 0)" unfolding card_sole by (simp add: abs_sem_def split: if_splits)
  then have free: "[tid 2 0 \<mapsto> Done ()] (cur_id s3) = (None :: unit KS option)" using I(13) by auto
  obtain s4 where "signal kt 5 s3 = Done () s4" using sinv_signal[OF s3(2)] by blast
  then have "sstep kt 5 ?U (s3, [tid 2 0 \<mapsto> Done ()], 0, 1) (s4, [tid 2 0 \<mapsto> Done ()], 1, 1)"
    using sstep.signals[of "[tid 2 0 \<mapsto> Done ()]" s3 kt 5 s4 ?U 0 1] free by simp
  then show ?thesis
    using one two three that by (meson converse_rtranclp_into_rtranclp rtranclp.rtrancl_refl)
qed

section \<open>Properties\<close>

lemma sinv_progress:
  assumes "sinv k users idle v (s, r, g, t)" "cur_id s = q" "q \<in> users"
  shows "\<exists>s' r' t'. sstep kt k users (s, r, g, t) (s', r', g, t') \<and> (r' q \<noteq> r q \<or> t' = Suc t)"
proof (cases "r q")
  case None
  show ?thesis
  proof (cases "0 < s_value (sem s k)")
    case True
    obtain s' where "wait kt k (tid_pid q) (tid_thread q) s = Done () s'" using sinv_wait_pass[OF assms(1) True] by blast
    then show ?thesis using sstep.pass[of s q users r kt k s' g t] assms(2,3) None by blast
  next
    case False
    then have "s_value (sem s k) \<le> 0" by simp
    then obtain s' where "wait kt k (tid_pid q) (tid_thread q) s = Yield s' (Done ())"
      using sinv_wait_block[OF assms(1,3) None, of kt] by blast
    then have "sstep kt k users (s, r, g, t) (s', r(q \<mapsto> Done ()), g, t)"
      using sstep.block[of s q users r kt k s' "Done ()" g t] assms(2,3) None by blast
    moreover have "(r(q \<mapsto> Done ())) q \<noteq> r q" using None by simp
    ultimately show ?thesis by blast
  qed
next
  case (Some c)
  have "c s = Done () s" using sinv_goes_on(1)[OF assms(1,2) Some] by simp
  then show ?thesis using sstep.goes_on[of s q r c s kt k users g t] assms(2) Some by blast
qed

text \<open>C3: Whatever the order in which at most 30 threads wait at a semaphore and anybody signals it, and whenever the timer
  switches: the permits of the start and the ones signalled since are exactly the ones still there, the waits let through and the
  threads that were woken and have not run yet.  A thread inside of \<open>wait\<close> sleeps exactly while it is in the table, and only while
  there is no permit, so no wake-up is lost; the thread that has the processor can always go on, and can always signal.\<close>

theorem semaphore_conservation:
  assumes "sem_start k users idle s0" "(sstep kt k users)\<^sup>*\<^sup>* (s0, \<lambda>_. None, 0, 0) (s, r, given, taken)"
  shows "int taken + int (card {q \<in> dom r. \<not> asleep s q}) + permits (abs_sem (sem s k)) =
      permits (abs_sem (sem s0 k)) + int given \<and>
    (\<forall>q \<in> dom r. asleep s q \<longleftrightarrow> (\<exists>i. swaiters (abs_sem (sem s k)) i = Some q)) \<and>
    (\<forall>q \<in> dom r. asleep s q \<longrightarrow> permits (abs_sem (sem s k)) = 0) \<and>
    (\<forall>q \<in> users. cur_id s = q \<longrightarrow>
      (\<exists>s' r' t'. sstep kt k users (s, r, given, taken) (s', r', given, t') \<and> (r' q \<noteq> r q \<or> t' = Suc taken))) \<and>
    (\<exists>s'. signal kt k s = Done () s')"
proof -
  have inv: "sinv k users idle (s_value (sem s0 k)) (s, r, given, taken)"
    by (rule sinv_reachable[OF assms(2) start_sinv[OF assms(1)]])
  note B = balanced_permits[OF sinvD(8)[OF inv]]
  have "permits (abs_sem (sem s0 k)) = s_value (sem s0 k)" using assms(1) by (simp add: sem_start_def abs_sem_def)
  then have "int taken + int (card {q \<in> dom r. \<not> asleep s q}) + permits (abs_sem (sem s k)) =
      permits (abs_sem (sem s0 k)) + int given" using B(1) by simp
  then show ?thesis using B(2,3) sinv_progress[OF inv] sinv_signal[OF inv, of kt] by blast
qed

theorem semaphore_conservation_witness:
  "\<forall>s0 kt. \<exists>s. (sstep kt 5 {tid 1 0, tid 2 0})\<^sup>*\<^sup>* (ex3_sem s0, \<lambda>_. None, 0, 0) (s, [tid 2 0 \<mapsto> Done ()], 1, 1) \<and>
    \<not> asleep s (tid 2 0) \<and> permits (abs_sem (sem s 5)) = 0"
proof (intro allI)
  fix s0 kt
  obtain s where s: "(sstep kt 5 {tid 1 0, tid 2 0})\<^sup>*\<^sup>* (ex3_sem s0, \<lambda>_. None, 0, 0) (s, [tid 2 0 \<mapsto> Done ()], 1, 1)"
    by (rule ex3_sem_run)
  have "permits (abs_sem (ex_sem 1 nobody 0)) = 1" by (simp add: abs_sem_def ex_sem_def)
  then have "int (card {q \<in> {tid 2 0}. \<not> asleep s q}) + permits (abs_sem (sem s 5)) = 1"
    "asleep s (tid 2 0) \<longrightarrow> permits (abs_sem (sem s 5)) = 0"
    using semaphore_conservation[OF ex3_sem_start s] by simp_all
  then have "\<not> asleep s (tid 2 0) \<and> permits (abs_sem (sem s 5)) = 0" unfolding card_sole by (auto split: if_splits)
  then show "\<exists>s. (sstep kt 5 {tid 1 0, tid 2 0})\<^sup>*\<^sup>* (ex3_sem s0, \<lambda>_. None, 0, 0) (s, [tid 2 0 \<mapsto> Done ()], 1, 1) \<and>
      \<not> asleep s (tid 2 0) \<and> permits (abs_sem (sem s 5)) = 0" using s by blast
qed

end
