(* ===== verification/Host.thy ===== *)
theory Host
  imports KMonad
begin

text \<open>
  The POSIX host the programs of \<open>src/TP1\<close> run on, as far as they use it: descriptors and pipes, \<open>select\<close>, \<open>fork\<close>,
  a set of two semaphores, a shared memory segment, standard input and output.  A call that may block yields; when
  control comes back the other processes have run, and \<open>waits\<close> says what the call was waiting for.

  A pipe is all that was ever written to it with the number of bytes read so far.  Results only the host can know
  (process numbers, the descriptors \<open>select\<close> finds readable, whether there is memory) are fields of the state.
\<close>

section \<open>State\<close>

datatype pipe_end = ReadEnd nat | WriteEnd nat | OtherFile

datatype waits = Waits_input | Waits_read nat | Waits_select | Waits_sem int int | Exited int | Execs string

record hstate =
  fdt :: "int \<Rightarrow> pipe_end option"
  pdata :: "nat \<Rightarrow> char list"
  ppos :: "nat \<Rightarrow> nat"
  nextPipe :: nat
  readable :: "int \<Rightarrow> bool"
  forks :: "int list"
  signals :: "(int \<times> int) list"
  execOk :: bool
  semget_result :: "int \<Rightarrow> int"
  semval :: "int \<Rightarrow> int"
  semRemoved :: bool
  shmget_result :: "int \<Rightarrow> int"
  shmat_result :: int
  shmAttached :: bool
  shmRemoved :: bool
  shm :: "int \<Rightarrow> char"
  stdIn :: "char list"
  stdOut :: "char list"
  stdErr :: "string list"
  fopenOk :: bool
  outFile :: "char list"
  ownPid :: int
  statOf :: "string \<Rightarrow> bool option"
  allocOk :: "int \<Rightarrow> bool"
  waits :: waits

type_synonym ('z, 'a) H = "('z hstate_scheme, 'a) K"

definition blocks :: "waits \<Rightarrow> ('z, unit) H" where
  "blocks w = kdo [kmod (\<lambda>s. s\<lparr>waits := w\<rparr>), kgiveup]"

text \<open>A process that has exited does not go on.\<close>

definition exit_h :: "int \<Rightarrow> ('z, 'a) H" where
  "exit_h code = kthen [blocks (Exited code)] (kfault Undefined)"

definition perror :: "string \<Rightarrow> ('z, unit) H" where
  "perror msg = kmod (\<lambda>s. s\<lparr>stdErr := stdErr s @ [msg]\<rparr>)"

definition printf_h :: "string \<Rightarrow> ('z, unit) H" where
  "printf_h msg = kmod (\<lambda>s. s\<lparr>stdOut := stdOut s @ msg\<rparr>)"

section \<open>Descriptors and pipes\<close>

definition OPEN_MAX :: nat where "OPEN_MAX = 1024"

definition lowest_fd :: "(int \<Rightarrow> pipe_end option) \<Rightarrow> int option" where
  "lowest_fd t = scan (\<lambda>fd. t fd = None) 0 OPEN_MAX"

text \<open>
  \<open>pipe(fds)\<close> takes the two lowest descriptors that are free.  When there are none it leaves the array as it
  is; the programs do not test for that and go on with what it happens to hold.
\<close>

definition pipe_h :: "(int \<Rightarrow> int \<Rightarrow> ('z, 'a) H) \<Rightarrow> ('z, 'a) H" where
  "pipe_h f = kwith (\<lambda>s. case lowest_fd (fdt s) of
      None \<Rightarrow> kfault Undefined
    | Some r \<Rightarrow> (let t = (fdt s)(r := Some (ReadEnd (nextPipe s))) in case lowest_fd t of
        None \<Rightarrow> kfault Undefined
      | Some w \<Rightarrow> kbind (kmod (\<lambda>s. s\<lparr>fdt := t(w := Some (WriteEnd (nextPipe s))), nextPipe := nextPipe s + 1\<rparr>))
          (\<lambda>_. f r w)))"

definition close_h :: "int \<Rightarrow> ('z, unit) H" where
  "close_h fd = kmod (\<lambda>s. s\<lparr>fdt := (fdt s)(fd := None)\<rparr>)"

definition dup2_h :: "int \<Rightarrow> int \<Rightarrow> ('z, unit) H" where
  "dup2_h old new = kmod (\<lambda>s. if fdt s old = None then s else s\<lparr>fdt := (fdt s)(new := fdt s old)\<rparr>)"

definition write_h :: "int \<Rightarrow> char list \<Rightarrow> ('z, unit) H" where
  "write_h fd bs = kmod (\<lambda>s. case fdt s fd of
      Some (WriteEnd p) \<Rightarrow> s\<lparr>pdata := (pdata s)(p := pdata s p @ bs)\<rparr>
    | _ \<Rightarrow> s)"

text \<open>\<open>read(fd, &c, 1)\<close>: \<open>None\<close> is the end of the data or an error.  Without data the reader waits for some or for the end.\<close>

definition take_byte :: "nat \<Rightarrow> ('z, char option) H" where
  "take_byte p = kwith (\<lambda>s. if ppos s p < length (pdata s p)
     then kthen [kmod (\<lambda>s. s\<lparr>ppos := (ppos s)(p := ppos s p + 1)\<rparr>)] (kret (Some (pdata s p ! ppos s p)))
     else kret None)"

definition read1_h :: "int \<Rightarrow> ('z, char option) H" where
  "read1_h fd = kwith (\<lambda>s. case fdt s fd of
      Some (ReadEnd p) \<Rightarrow>
        if ppos s p < length (pdata s p) then take_byte p else kthen [blocks (Waits_read p)] (take_byte p)
    | _ \<Rightarrow> kret None)"

definition fork_h :: "('z, int) H" where
  "fork_h = kwith (\<lambda>s. case forks s of
      [] \<Rightarrow> kret (- 1)
    | pid # rest \<Rightarrow> kthen [kmod (\<lambda>s. s\<lparr>forks := rest\<rparr>)] (kret pid))"

definition kill_h :: "int \<Rightarrow> int \<Rightarrow> ('z, unit) H" where
  "kill_h pid sig = kmod (\<lambda>s. s\<lparr>signals := signals s @ [(pid, sig)]\<rparr>)"

text \<open>\<open>execlp(file, file, NULL)\<close>: a successful call does not return.\<close>

definition execlp_h :: "string \<Rightarrow> ('z, unit) H" where
  "execlp_h path = kwith (\<lambda>s. if execOk s then kthen [blocks (Execs path)] (kfault Undefined) else kskip)"

text \<open>\<open>fopen(name, "w")\<close>; \<open>False\<close> is NULL.\<close>

definition fopen_h :: "('z, bool) H" where
  "fopen_h = kwith (\<lambda>s. case lowest_fd (fdt s) of
      None \<Rightarrow> kret False
    | Some fd \<Rightarrow> if fopenOk s
        then kthen [kmod (\<lambda>s. s\<lparr>fdt := (fdt s)(fd := Some OtherFile), outFile := []\<rparr>)] (kret True)
        else kret False)"

section \<open>Semaphores and shared memory\<close>

text \<open>
  \<open>semop\<close> with one operation.  Taking units lets the other processes run until there are enough, or until the call
  fails because the set was removed or a signal came; the programs do not look at the result.
\<close>

definition semop_h :: "int \<Rightarrow> int \<Rightarrow> ('z, unit) H" where
  "semop_h num change = kdo [
     if change < 0 then blocks (Waits_sem num (- change)) else kskip,
     kmod (\<lambda>s. if semRemoved s \<or> semval s num + change < 0 then s
       else s\<lparr>semval := (semval s)(num := semval s num + change)\<rparr>)]"

definition setval_h :: "int \<Rightarrow> int \<Rightarrow> ('z, unit) H" where
  "setval_h num v = kmod (\<lambda>s. if semRemoved s then s else s\<lparr>semval := (semval s)(num := v)\<rparr>)"

definition rmid_h :: "('z, unit) H" where
  "rmid_h = kmod (\<lambda>s. s\<lparr>semRemoved := True\<rparr>)"

section \<open>Running beside other processes\<close>

text \<open>
  \<open>under E Q r\<close>: if what the other processes do between a yield in state \<open>s\<close> and the return of control in state \<open>s'\<close> satisfies
  \<open>E s s'\<close>, then \<open>r\<close> runs to its end without a fault and ends with \<open>Q\<close>; and they can always let it go on.
\<close>

inductive under :: "('s \<Rightarrow> 's \<Rightarrow> bool) \<Rightarrow> ('a \<Rightarrow> 's \<Rightarrow> bool) \<Rightarrow> ('s, 'a) outcome \<Rightarrow> bool"
  for E :: "'s \<Rightarrow> 's \<Rightarrow> bool" and Q :: "'a \<Rightarrow> 's \<Rightarrow> bool" where
  under_Done: "Q a s \<Longrightarrow> under E Q (Done a s)"
| under_Yield: "(\<exists>s'. E s s') \<Longrightarrow> (\<And>s'. E s s' \<Longrightarrow> under E Q (k s')) \<Longrightarrow> under E Q (Yield s k)"

inductive_simps under_Done_iff [simp]: "under E Q (Done a s)"
inductive_simps under_Yield_iff [simp]: "under E Q (Yield s k)"
inductive_simps under_Fault_iff [simp]: "under E Q (Fault e)"

lemma under_obind:
  "under E P r \<Longrightarrow> (\<And>a s. P a s \<Longrightarrow> under E Q (f a s)) \<Longrightarrow> under E Q (obind r f)"
  by (induction rule: under.induct) auto

lemma under_mono:
  "under E P r \<Longrightarrow> (\<And>a s. P a s \<Longrightarrow> Q a s) \<Longrightarrow> under E Q r"
  by (induction rule: under.induct) auto

lemma under_yields:
  assumes "r = Yield u k" "\<exists>s'. E u s'" "\<And>s'. E u s' \<Longrightarrow> \<exists>a s''. k s' = Done a s'' \<and> Q a s''"
  shows "under E Q r"
proof -
  have "under E Q (k s')" if "E u s'" for s'
    using assms(3)[OF that] by (elim exE conjE) simp
  then show ?thesis using assms(1,2) by simp
qed

lemma under_kbind:
  "under E P (m s) \<Longrightarrow> (\<And>a s. P a s \<Longrightarrow> under E Q (f a s)) \<Longrightarrow> under E Q (kbind m f s)"
  by (simp add: under_obind)

lemma under_kdo:
  "under E (\<lambda>_. P) (m s) \<Longrightarrow> (\<And>s. P s \<Longrightarrow> under E Q (kdo ms s)) \<Longrightarrow> under E Q (kdo (m # ms) s)"
  by (simp add: under_obind)

lemma under_kthen:
  "under E (\<lambda>_. P) (m s) \<Longrightarrow> (\<And>s. P s \<Longrightarrow> under E Q (kthen ms f s)) \<Longrightarrow> under E Q (kthen (m # ms) f s)"
  by (simp add: under_obind)

lemma under_kfor:
  assumes "I lo s" "\<And>i s. lo \<le> i \<Longrightarrow> i < lo + int n \<Longrightarrow> I i s \<Longrightarrow> under E (\<lambda>_. I (i + 1)) (body i s)"
  shows "under E (\<lambda>_. I (lo + int n)) (kfor lo n body s)"
  using assms
proof (induction n arbitrary: lo s)
  case (Suc n)
  have "under E (\<lambda>_. I (lo + 1)) (body lo s)" using Suc.prems by simp
  moreover have "under E (\<lambda>_. I (lo + 1 + int n)) (kfor (lo + 1) n body s')" if "I (lo + 1) s'" for s'
    using that Suc.prems(2) by (intro Suc.IH) auto
  ultimately show ?case by (auto intro: under_obind simp: algebra_simps)
qed simp

text \<open>A loop whose every round decreases a measure ends.\<close>

lemma under_kwhile:
  assumes "I s" "\<mu> s < n"
    "\<And>s. I s \<Longrightarrow> c s \<Longrightarrow> under E (\<lambda>_ s'. I s' \<and> \<mu> s' < \<mu> s) (body s)"
  shows "under E (\<lambda>_ s'. I s' \<and> \<not> c s') (kwhile n c body s)"
  using assms(1,2)
proof (induction n arbitrary: s)
  case (Suc n)
  show ?case
  proof (cases "c s")
    case True
    have "under E (\<lambda>_ s'. I s' \<and> \<mu> s' < \<mu> s) (body s)" using assms(3) Suc.prems(1) True .
    then have "under E (\<lambda>_ s'. I s' \<and> \<not> c s') (kbind body (\<lambda>_. kwhile n c body) s)"
      using Suc.prems(2) by (elim under_kbind) (auto intro: Suc.IH)
    then show ?thesis using True by simp
  qed (use Suc.prems in simp)
qed simp

end
