(* ===== verification/HashApp.thy ===== *)
theory HashApp
  imports Host
begin

text \<open>
  The programs of \<open>src/TP1\<close>: \<open>application\<close> hands the files named on its command line to four \<open>slave\<close> processes, which run
  \<open>md5sum\<close> on them; it collects their output, writes it to a file and puts it in a shared memory segment, from which
  \<open>view\<close> prints it.
\<close>

definition NUM_OF_SLAVES :: nat where "NUM_OF_SLAVES = 4"
definition STOP_CODE :: char where "STOP_CODE = CHR 0x05"
definition MAX_FILENAME :: nat where "MAX_FILENAME = 256"
definition MD5_LENGTH :: nat where "MD5_LENGTH = 32"
definition BATCH_SIZE :: nat where "BATCH_SIZE = 2"
definition MEMORY_BLOCK :: int where "MEMORY_BLOCK = 10"
definition SHMSIZE :: int where "SHMSIZE = 100000"

record slave =
  sl_pid :: int
  sl_readFd :: int
  sl_writeFd :: int
  sl_remainingFiles :: int

text \<open>The local variables of \<open>main\<close> that are passed by address, and the two arrays on the heap.\<close>

record app = hstate +
  slaves :: "int \<Rightarrow> slave"
  slaveCount :: int
  readFds :: "int \<Rightarrow> bool"
  maxFd :: int
  filenames :: "int \<Rightarrow> string"
  filenamesCap :: int
  numOfFiles :: int
  distributedFiles :: int
  finishedFiles :: int
  sharedMemoryIndex :: int

type_synonym 'a A = "(app, 'a) K"

section \<open>sharedMemory.c\<close>

text \<open>The segment's address and its identifier.  A failing \<open>shmat\<close> returns -1, which is not the NULL the code tests for.\<close>

definition generateSharedMemory :: "int \<Rightarrow> ('z, int \<times> int) H" where
  "generateSharedMemory key = kwith (\<lambda>s. let memoryId = shmget_result s key in
     if memoryId = - 1 then kthen [perror ''Shared Memory creation error''] (exit_h 1)
     else kthen [kmod (\<lambda>s. s\<lparr>shmAttached := (shmat_result s \<noteq> - 1)\<rparr>)]
       (if shmat_result s = 0 then kthen [perror ''Shared Memory creation error''] (exit_h 1)
        else kret (shmat_result s, memoryId)))"

definition generateSemaphore :: "int \<Rightarrow> ('z, int) H" where
  "generateSemaphore key = kwith (\<lambda>s. let semaphoreId = semget_result s key in
     if semaphoreId = - 1 then kthen [perror ''Semaphore creation error''] (exit_h 1) else kret semaphoreId)"

definition initializeSemaphore :: "int \<Rightarrow> ('z, unit) H" where
  "initializeSemaphore semaphoreId = kdo [setval_h 0 1, setval_h 1 1]"

definition changeSemaphore :: "int \<Rightarrow> int \<Rightarrow> int \<Rightarrow> ('z, unit) H" where
  "changeSemaphore semaphoreNum semaphoreId change = semop_h semaphoreNum change"

definition getSemaphoreValue :: "int \<Rightarrow> int \<Rightarrow> ('z, int) H" where
  "getSemaphoreValue semaphoreNum semaphoreId =
     kwith (\<lambda>s. kret (if semRemoved s then - 1 else semval s semaphoreNum))"

definition verifySharedMemoryIndexBounds :: "int \<Rightarrow> bool" where
  "verifySharedMemoryIndexBounds index \<longleftrightarrow> index < SHMSIZE"

definition detachMemory :: "int \<Rightarrow> ('z, unit) H" where
  "detachMemory sharedMemory = kmod (\<lambda>s. if sharedMemory = shmat_result s then s\<lparr>shmAttached := False\<rparr> else s)"

definition destroyMemory :: "int \<Rightarrow> int \<Rightarrow> ('z, unit) H" where
  "destroyMemory memoryId sharedMemory = kdo [detachMemory sharedMemory, kmod (\<lambda>s. s\<lparr>shmRemoved := True\<rparr>)]"

definition destroySemaphore :: "int \<Rightarrow> ('z, unit) H" where
  "destroySemaphore semaphoreId = kdo [rmid_h, rmid_h]"

text \<open>\<open>sharedMemory[index]\<close>\<close>

definition shm_ok :: "int \<Rightarrow> int \<Rightarrow> 'z hstate_scheme \<Rightarrow> bool" where
  "shm_ok sharedMemory index s \<longleftrightarrow>
     shmAttached s \<and> sharedMemory = shmat_result s \<and> 0 \<le> index \<and> index < SHMSIZE"

definition shm_put :: "int \<Rightarrow> int \<Rightarrow> char \<Rightarrow> ('z, unit) H" where
  "shm_put sharedMemory index c = kwith (\<lambda>s. if shm_ok sharedMemory index s
     then kmod (\<lambda>s. s\<lparr>shm := (shm s)(index := c)\<rparr>) else kfault OutOfBounds)"

definition shm_get :: "int \<Rightarrow> int \<Rightarrow> ('z, char) H" where
  "shm_get sharedMemory index = kwith (\<lambda>s. if shm_ok sharedMemory index s
     then kret (shm s index) else kfault OutOfBounds)"

section \<open>fileListParser.c\<close>

definition addFileToList :: "string \<Rightarrow> unit A" where
  "addFileToList fileName = kdo [
     kwith (\<lambda>s. if numOfFiles s mod MEMORY_BLOCK = 0
       then (if allocOk s (8 * (numOfFiles s + MEMORY_BLOCK))
         then kmod (\<lambda>s. s\<lparr>filenamesCap := numOfFiles s + MEMORY_BLOCK\<rparr>)
         else kdo [perror ''Error allocating memory.'', exit_h 1])
       else kskip),
     kwith (\<lambda>s. if 0 \<le> numOfFiles s \<and> numOfFiles s < filenamesCap s
       then kmod (\<lambda>s. s\<lparr>filenames := (filenames s)(numOfFiles s := fileName), numOfFiles := numOfFiles s + 1\<rparr>)
       else kfault OutOfBounds)]"

primrec parseFileList_loop :: "string list \<Rightarrow> unit A" where
  "parseFileList_loop [] = kskip"
| "parseFileList_loop (arg # args) = kdo [
     kwith (\<lambda>s. if statOf s arg = Some False then addFileToList arg else kskip),
     parseFileList_loop args]"

definition parseFileList :: "string list \<Rightarrow> unit A" where
  "parseFileList argv = kdo [
     kmod (\<lambda>s. s\<lparr>numOfFiles := 0\<rparr>),
     kwith (\<lambda>s. if allocOk s (8 * MEMORY_BLOCK) then kmod (\<lambda>s. s\<lparr>filenamesCap := MEMORY_BLOCK\<rparr>)
       else kdo [perror ''Error allocating memory.'', exit_h 1]),
     parseFileList_loop (tl argv)]"

section \<open>applicationLib.c: slaves\<close>

definition with_slave :: "int \<Rightarrow> (slave \<Rightarrow> 'a A) \<Rightarrow> 'a A" where
  "with_slave i f = kwith (\<lambda>s. if 0 \<le> i \<and> i < slaveCount s then f (slaves s i) else kfault OutOfBounds)"

definition upd_slave :: "int \<Rightarrow> (slave \<Rightarrow> slave) \<Rightarrow> unit A" where
  "upd_slave i g = with_slave i (\<lambda>sl. kmod (\<lambda>s. s\<lparr>slaves := (slaves s)(i := g sl)\<rparr>))"

definition SIGINT :: int where "SIGINT = 2"

definition abortProgram :: "unit A" where
  "abortProgram = kdo [
     kfor 0 NUM_OF_SLAVES (\<lambda>i. with_slave i (\<lambda>sl. if sl_pid sl \<noteq> 0 then kill_h (sl_pid sl) SIGINT else kskip)),
     exit_h 1]"

definition stopSlave :: "int \<Rightarrow> unit A" where
  "stopSlave i = kdo [
     with_slave i (\<lambda>sl. kdo [
       write_h (sl_writeFd sl) [STOP_CODE],
       write_h (sl_writeFd sl) [NUL]]),
     upd_slave i (\<lambda>sl. sl\<lparr>sl_pid := 0\<rparr>)]"

definition stopSlaves :: "unit A" where
  "stopSlaves = kfor 0 NUM_OF_SLAVES (\<lambda>i. with_slave i (\<lambda>sl. if sl_pid sl \<noteq> 0 then stopSlave i else kskip))"

text \<open>What the child does between \<open>fork\<close> and \<open>exec\<close>: its standard input and output become the ends of the two pipes.\<close>

definition slave_child :: "int \<Rightarrow> int \<Rightarrow> int \<Rightarrow> int \<Rightarrow> ('z, unit) H" where
  "slave_child auxRead0 auxRead1 auxWrite0 auxWrite1 = kdo [
     dup2_h auxWrite0 0, dup2_h auxRead1 1,
     close_h auxWrite0, close_h auxWrite1, close_h auxRead0, close_h auxRead1,
     execlp_h ''./slave.o'', perror ''Slave process exec() failed.'', exit_h 1]"

definition FD_SET :: "int \<Rightarrow> unit A" where
  "FD_SET fd = kmod (\<lambda>s. s\<lparr>readFds := (readFds s)(fd := True)\<rparr>)"

definition createSlave :: "int \<Rightarrow> unit A" where
  "createSlave i = pipe_h (\<lambda>auxRead0 auxRead1. pipe_h (\<lambda>auxWrite0 auxWrite1. kdo [
     FD_SET auxRead0,
     kmod (\<lambda>s. if auxRead0 > maxFd s then s\<lparr>maxFd := auxRead0\<rparr> else s),
     upd_slave i (\<lambda>sl. sl\<lparr>sl_readFd := auxRead0, sl_writeFd := auxWrite1\<rparr>),
     kbind fork_h (\<lambda>auxPid.
       if auxPid = - 1 then kdo [perror ''Slave fork() failed.'', abortProgram,
         slave_child auxRead0 auxRead1 auxWrite0 auxWrite1]
       else if auxPid = 0 then slave_child auxRead0 auxRead1 auxWrite0 auxWrite1
       else kdo [upd_slave i (\<lambda>sl. sl\<lparr>sl_pid := auxPid\<rparr>), close_h auxWrite0, close_h auxRead1])]))"

definition createSlaves :: "nat \<Rightarrow> unit A" where
  "createSlaves quantity = kdo [
     kmod (\<lambda>s. s\<lparr>maxFd := 0\<rparr>),
     kwith (\<lambda>s. if allocOk s (16 * int quantity)
       then kmod (\<lambda>s. s\<lparr>slaves := (\<lambda>_. \<lparr>sl_pid = 0, sl_readFd = 0, sl_writeFd = 0, sl_remainingFiles = 0\<rparr>),
         slaveCount := int quantity\<rparr>)
       else kdo [perror ''Couldn't allocate memory for slaves :( (Line 40)'', exit_h 1]),
     kfor 0 quantity createSlave]"

section \<open>applicationLib.c: distribution\<close>

definition with_filename :: "int \<Rightarrow> (string \<Rightarrow> 'a A) \<Rightarrow> 'a A" where
  "with_filename i f = kwith (\<lambda>s. if 0 \<le> i \<and> i < filenamesCap s then f (filenames s i) else kfault OutOfBounds)"

text \<open>The inner loop, with the rounds it has left.\<close>

primrec distribute_batch :: "nat \<Rightarrow> int \<Rightarrow> bool \<Rightarrow> int \<Rightarrow> unit A" where
  "distribute_batch 0 i distributingBatch fileQuantity = kskip"
| "distribute_batch (Suc n) i distributingBatch fileQuantity = kwith (\<lambda>s.
     if fileQuantity - distributedFiles s > 0 then with_slave i (\<lambda>sl.
       if sl_remainingFiles sl = 0 \<or> distributingBatch
       then kdo [
         with_filename (distributedFiles s) (\<lambda>name. write_h (sl_writeFd sl) (name @ [NUL])),
         kmod (\<lambda>s. s\<lparr>distributedFiles := distributedFiles s + 1\<rparr>),
         upd_slave i (\<lambda>sl. sl\<lparr>sl_remainingFiles := sl_remainingFiles sl + 1\<rparr>),
         distribute_batch n i True fileQuantity]
       else distribute_batch n i distributingBatch fileQuantity)
     else kskip)"

definition distributeFiles :: "int \<Rightarrow> unit A" where
  "distributeFiles fileQuantity = kfor 0 NUM_OF_SLAVES (\<lambda>i. kwith (\<lambda>s.
     if fileQuantity - distributedFiles s > 0 then distribute_batch BATCH_SIZE i False fileQuantity
     else stopSlave i))"

section \<open>applicationLib.c: results\<close>

text \<open>Strings in an array of bytes; \<open>None\<close> is a string without end or a write outside of the array.\<close>

definition cstr :: "char list \<Rightarrow> string option" where
  "cstr bs = (if NUL \<in> set bs then Some (takeWhile (\<lambda>c. c \<noteq> NUL) bs) else None)"

definition strncpy_h :: "char list \<Rightarrow> nat \<Rightarrow> char list \<Rightarrow> nat \<Rightarrow> char list option" where
  "strncpy_h dst off src n =
     (let t = takeWhile (\<lambda>c. c \<noteq> NUL) (take n src) in
      if off + n \<le> length dst \<and> (n \<le> length src \<or> NUL \<in> set src)
      then Some (take off dst @ t @ replicate (n - length t) NUL @ drop (off + n) dst) else None)"

definition strcpy_h :: "char list \<Rightarrow> nat \<Rightarrow> char list \<Rightarrow> char list option" where
  "strcpy_h dst off src = (case cstr src of None \<Rightarrow> None
     | Some t \<Rightarrow> if off + length t < length dst
         then Some (take off dst @ t @ [NUL] @ drop (off + length t + 1) dst) else None)"

definition strcat_h :: "char list \<Rightarrow> char list \<Rightarrow> char list option" where
  "strcat_h dst src = (case cstr dst of None \<Rightarrow> None | Some t \<Rightarrow> strcpy_h dst (length t) src)"

text \<open>
  \<open>reformatMd5Output\<close>.  The array \<open>filename\<close> is not initialised: \<open>junk\<close> is what it holds.
\<close>

definition reformatMd5Output :: "char list \<Rightarrow> char list \<Rightarrow> char list option" where
  "reformatMd5Output junk output = do {
     hash \<leftarrow> strncpy_h ('': '' @ replicate (MD5_LENGTH + 1) NUL) 2 output MD5_LENGTH;
     let hash = hash[MD5_LENGTH + 2 := NUL];
     filename \<leftarrow> strncpy_h junk 0 (drop (MD5_LENGTH + 2) output) MAX_FILENAME;
     filename \<leftarrow> strcat_h filename hash;
     strcpy_h output 0 filename }"

text \<open>\<open>readLine\<close> writes the bytes it reads to \<open>buffer\<close>; \<open>n\<close> is the room left from position \<open>i\<close> on.\<close>

primrec readLine_loop :: "nat \<Rightarrow> int \<Rightarrow> nat \<Rightarrow> char list \<Rightarrow> ('z, nat \<times> char list) H" where
  "readLine_loop 0 fd i buffer = kfault OutOfBounds"
| "readLine_loop (Suc n) fd i buffer = kbind (read1_h fd) (\<lambda>r. case r of
      None \<Rightarrow> kret (i, buffer)
    | Some c \<Rightarrow> if c = CHR 0x0A then kret (i, buffer[i := c]) else readLine_loop n fd (i + 1) (buffer[i := c]))"

definition readLine :: "slave \<Rightarrow> char list \<Rightarrow> ('z, bool \<times> char list) H" where
  "readLine sl buffer = kbind (readLine_loop (length buffer) (sl_readFd sl) 0 buffer) (\<lambda>(messageLength, buffer).
     kret (messageLength > 0, if buffer ! messageLength = CHR 0x0A then buffer[messageLength := NUL] else buffer))"

definition fprintf_line :: "char list \<Rightarrow> ('z, unit) H" where
  "fprintf_line message = (case cstr message of None \<Rightarrow> kfault OutOfBounds
     | Some t \<Rightarrow> kmod (\<lambda>s. s\<lparr>outFile := outFile s @ t @ [CHR 0x0A]\<rparr>))"

definition shm_append :: "int \<Rightarrow> char \<Rightarrow> unit A" where
  "shm_append sharedMemory c = kdo [
     kwith (\<lambda>s. shm_put sharedMemory (sharedMemoryIndex s) c),
     kmod (\<lambda>s. s\<lparr>sharedMemoryIndex := sharedMemoryIndex s + 1\<rparr>)]"

primrec publish_loop :: "char list \<Rightarrow> int \<Rightarrow> unit A" where
  "publish_loop [] sharedMemory = kfault OutOfBounds"
| "publish_loop (c # cs) sharedMemory = kwith (\<lambda>s.
     if c \<noteq> NUL \<and> verifySharedMemoryIndexBounds (sharedMemoryIndex s)
     then kdo [shm_append sharedMemory c, publish_loop cs sharedMemory] else kskip)"

definition select_h :: "unit A" where
  "select_h = kdo [
     blocks Waits_select,
     kmod (\<lambda>s. s\<lparr>readFds := (\<lambda>fd. readFds s fd \<and> 0 \<le> fd \<and> fd < maxFd s + 1 \<and> readable s fd)\<rparr>)]"

definition publish :: "int \<Rightarrow> int \<Rightarrow> int \<Rightarrow> char list \<Rightarrow> unit A" where
  "publish i sharedMemory semaphoreId message = kdo [
     fprintf_line message,
     changeSemaphore 0 semaphoreId (- 1),
     publish_loop message sharedMemory,
     kwith (\<lambda>s. if verifySharedMemoryIndexBounds (sharedMemoryIndex s) then shm_append sharedMemory NUL else kskip),
     changeSemaphore 0 semaphoreId 1,
     changeSemaphore 1 semaphoreId 1,
     upd_slave i (\<lambda>sl. sl\<lparr>sl_remainingFiles := sl_remainingFiles sl - 1\<rparr>),
     kmod (\<lambda>s. s\<lparr>finishedFiles := finishedFiles s + 1\<rparr>)]"

definition listen_one :: "char list \<Rightarrow> int \<Rightarrow> int \<Rightarrow> int \<Rightarrow> char list \<Rightarrow> char list A" where
  "listen_one junk sharedMemory semaphoreId i message = with_slave i (\<lambda>sl.
     kbind (kwith (\<lambda>s. if readFds s (sl_readFd sl)
       then kbind (readLine sl message) (\<lambda>(got, message).
         if got then (case reformatMd5Output junk message of None \<Rightarrow> kfault Undefined
           | Some message \<Rightarrow> kthen [publish i sharedMemory semaphoreId message] (kret message))
         else kret message)
       else kret message))
     (\<lambda>message. kthen [with_slave i (\<lambda>sl. FD_SET (sl_readFd sl))] (kret message)))"

primrec listen_loop :: "char list \<Rightarrow> int \<Rightarrow> int \<Rightarrow> nat \<Rightarrow> int \<Rightarrow> char list \<Rightarrow> unit A" where
  "listen_loop junk sharedMemory semaphoreId 0 i message = kskip"
| "listen_loop junk sharedMemory semaphoreId (Suc n) i message =
     kbind (listen_one junk sharedMemory semaphoreId i message) (listen_loop junk sharedMemory semaphoreId n (i + 1))"

definition slaveListener :: "char list \<Rightarrow> int \<Rightarrow> int \<Rightarrow> unit A" where
  "slaveListener junk sharedMemory semaphoreId = kdo [
     select_h,
     listen_loop junk sharedMemory semaphoreId NUM_OF_SLAVES 0 (replicate (MAX_FILENAME + MD5_LENGTH + 3) NUL)]"


section \<open>application.c\<close>

text \<open>\<open>while(getchar() != 'y')\<close>: at the end of the input \<open>getchar\<close> returns \<open>EOF\<close> for ever.\<close>

primrec skip_to_y :: "char list \<Rightarrow> char list option" where
  "skip_to_y [] = None"
| "skip_to_y (c # cs) = (if c = CHR ''y'' then Some cs else skip_to_y cs)"

definition wait_for_y :: "('z, unit) H" where
  "wait_for_y = kthen [blocks Waits_input]
     (kwith (\<lambda>s. case skip_to_y (stdIn s) of None \<Rightarrow> kfault Diverges
       | Some cs \<Rightarrow> kmod (\<lambda>s. s\<lparr>stdIn := cs\<rparr>)))"

text \<open>One round of the loop of \<open>main\<close>.\<close>

definition application_round :: "char list \<Rightarrow> int \<Rightarrow> int \<Rightarrow> unit A" where
  "application_round junk sharedMemory semaphoreId = kdo [
     kwith (\<lambda>s. if distributedFiles s \<noteq> numOfFiles s then distributeFiles (numOfFiles s) else kskip),
     slaveListener junk sharedMemory semaphoreId]"

text \<open>\<open>n\<close> bounds the rounds that are observed, \<open>pid_text\<close> is \<open>key\<close> in decimal as \<open>printf\<close> writes it.\<close>

definition application_main :: "nat \<Rightarrow> char list \<Rightarrow> string \<Rightarrow> string list \<Rightarrow> int A" where
  "application_main n junk pid_text argv = kthen [
     kmod (\<lambda>s. s\<lparr>numOfFiles := 0, distributedFiles := 0, finishedFiles := 0, sharedMemoryIndex := 1,
       readFds := (\<lambda>_. False)\<rparr>),
     if length argv < 2
       then kdo [printf_h (''No files were specified to be hashed.'' @ [CHR 0x0A]), exit_h 1] else kskip,
     kbind fopen_h (\<lambda>ok. if ok then kskip else kdo [perror ''File creation error.'', exit_h 1])]
     (kwith (\<lambda>s. kbind (generateSharedMemory (ownPid s)) (\<lambda>(sharedMemory, sharedMemoryId). kthen [
       shm_put sharedMemory 0 NUL]
       (kbind (generateSemaphore (ownPid s)) (\<lambda>semaphoreId. kthen [
         initializeSemaphore semaphoreId,
         changeSemaphore 1 semaphoreId (- 1),
         printf_h (''This process pid is: '' @ pid_text @ [CHR 0x0A]),
         printf_h (''To continue type '' @ [CHR 0x27, CHR ''y'', CHR 0x27, CHR 0x0A]),
         wait_for_y,
         createSlaves NUM_OF_SLAVES,
         parseFileList argv,
         kwhile n (\<lambda>s. finishedFiles s \<noteq> numOfFiles s) (application_round junk sharedMemory semaphoreId),
         changeSemaphore 0 semaphoreId (- 1),
         shm_put sharedMemory 0 (CHR 0xFF),
         changeSemaphore 0 semaphoreId 1,
         stopSlaves,
         destroyMemory sharedMemoryId sharedMemory,
         destroySemaphore semaphoreId]
         (kret 0))))))"

section \<open>slave.c\<close>

text \<open>
  The slave as a function of the bytes that have come in: the commands it runs, and how it ends.  When it has read all there is
  it waits, or, if \<open>eof\<close> says that no more can come, \<open>getchar\<close> returns \<open>EOF\<close> for ever, which is stored without end.
  What does not fit \<open>message\<close> is written behind the array.
\<close>

datatype slave_end = Stopped | Waiting | Overrun

primrec read_message :: "bool \<Rightarrow> char list \<Rightarrow> nat \<Rightarrow> char list \<Rightarrow> slave_end + char list \<times> char list" where
  "read_message eof [] cur message = Inl (if eof then Overrun else Waiting)"
| "read_message eof (c # input) cur message =
     (if cur < length message
      then if c = NUL then Inr (message[cur := c], input) else read_message eof input (Suc cur) (message[cur := c])
      else Inl Overrun)"

definition startSlaveListener :: "char list \<Rightarrow> string option" where
  "startSlaveListener message =
     Option.bind (strcat_h (''md5sum '' @ replicate MAX_FILENAME NUL) message) cstr"

lemma read_message_shorter: "read_message eof input cur message = Inr (m, rest) \<Longrightarrow> length rest < length input"
proof (induction input arbitrary: cur message)
  case (Cons c input)
  show ?case
    using Cons.prems Cons.IH[of "Suc cur" "message[cur := c]"] by (auto split: if_splits intro: less_SucI)
qed simp

function slave_main :: "bool \<Rightarrow> char list \<Rightarrow> char list \<Rightarrow> string list \<times> slave_end" where
  "slave_main eof message input = (case read_message eof input 0 message of
      Inl e \<Rightarrow> ([], e)
    | Inr (message, input) \<Rightarrow>
        if message ! 0 \<noteq> STOP_CODE
        then (case startSlaveListener message of
            None \<Rightarrow> ([], Overrun)
          | Some command \<Rightarrow> (case slave_main eof message input of (cs, e) \<Rightarrow> (command # cs, e)))
        else ([], Stopped))"
  by pat_completeness auto
termination
  by (relation "measure (\<lambda>(eof, message, input). length input)") (auto dest: read_message_shorter)

declare slave_main.simps [simp del]

section \<open>view.c\<close>

text \<open>\<open>while((c = sharedMemory[index++]) != '\\0') putchar(c)\<close>; \<open>n\<close> is the room left in the segment.\<close>

primrec view_message :: "nat \<Rightarrow> int \<Rightarrow> int \<Rightarrow> ('z, int) H" where
  "view_message 0 sharedMemory index = kfault OutOfBounds"
| "view_message (Suc n) sharedMemory index = kbind (shm_get sharedMemory index) (\<lambda>c.
     if c \<noteq> NUL then kthen [printf_h [c]] (view_message n sharedMemory (index + 1)) else kret (index + 1))"

primrec view_loop :: "nat \<Rightarrow> int \<Rightarrow> int \<Rightarrow> int \<Rightarrow> ('z, unit) H" where
  "view_loop 0 sharedMemory semaphoreId index = kfault Diverges"
| "view_loop (Suc n) sharedMemory semaphoreId index = kthen [
     changeSemaphore 1 semaphoreId (- 1),
     changeSemaphore 0 semaphoreId (- 1)]
     (kbind (shm_get sharedMemory 0) (\<lambda>c.
       if c \<noteq> CHR 0xFF then
         kbind (view_message (nat (SHMSIZE - index) + 1) sharedMemory index) (\<lambda>index. kthen [
           printf_h [CHR 0x0A],
           changeSemaphore 0 semaphoreId 1]
           (view_loop n sharedMemory semaphoreId index))
       else changeSemaphore 0 semaphoreId 1))"

text \<open>\<open>atoi\<close> of the host's library, on numbers that fit an \<open>int\<close>.\<close>

definition is_digit :: "char \<Rightarrow> bool" where
  "is_digit c \<longleftrightarrow> 48 \<le> (of_char c :: nat) \<and> (of_char c :: nat) \<le> 57"

definition digits_value :: "string \<Rightarrow> int" where
  "digits_value ds = foldl (\<lambda>v c. 10 * v + (of_char c - 48)) 0 (takeWhile is_digit ds)"

definition atoi :: "string \<Rightarrow> int" where
  "atoi s = (case dropWhile (\<lambda>c. c \<in> set [CHR '' '', CHR 0x09, CHR 0x0A, CHR 0x0B, CHR 0x0C, CHR 0x0D]) s of
      [] \<Rightarrow> 0
    | c # cs \<Rightarrow> if c = CHR ''-'' then - digits_value cs
        else if c = CHR ''+'' then digits_value cs else digits_value (c # cs))"

definition view_main :: "nat \<Rightarrow> string list \<Rightarrow> ('z, int) H" where
  "view_main n argv = (if length argv < 2 then kfault NullDeref else
     kbind (generateSharedMemory (atoi (argv ! 1))) (\<lambda>(sharedMemory, sharedMemoryId).
     kbind (generateSemaphore (atoi (argv ! 1))) (\<lambda>semaphoreId. kthen [
       view_loop n sharedMemory semaphoreId 1,
       detachMemory sharedMemory,
       destroySemaphore semaphoreId]
       (kret 0))))"

end
