(* ===== verification/SlaveProps.thy ===== *)
theory SlaveProps
  imports HashApp
begin

text \<open>What one slave does with the bytes it is sent, and what the application does with one line that comes back.\<close>

section \<open>Names and lines\<close>

definition NL :: char where "NL = CHR 0x0A"

text \<open>A name that survives the way through the pipe, the shell aside.\<close>

definition name_ok :: "string \<Rightarrow> bool" where
  "name_ok f \<longleftrightarrow> f \<noteq> [] \<and> NUL \<notin> set f \<and> NL \<notin> set f \<and> length f < MAX_FILENAME \<and> f ! 0 \<noteq> STOP_CODE"

definition frames :: "string list \<Rightarrow> char list" where
  "frames fs = concat (map (\<lambda>f. f @ [NUL]) fs)"

definition stop_frame :: "char list" where "stop_frame = [STOP_CODE, NUL]"

lemma frames_simps [simp]: "frames [] = []" "frames (f # fs) = f @ NUL # frames fs" "frames (fs @ gs) = frames fs @ frames gs"
  by (simp_all add: frames_def)

section \<open>The slave\<close>

lemma read_message_frame:
  assumes "NUL \<notin> set f" "cur + length f < length message"
  shows "read_message False (f @ NUL # rest) cur message =
    Inr (take cur message @ f @ NUL # drop (Suc (cur + length f)) message, rest)"
  using assms
proof (induction f arbitrary: cur message)
  case Nil
  then show ?case by (simp add: upd_conv_take_nth_drop)
next
  case (Cons c f)
  then show ?case by (auto simp: Cons.IH take_Suc_conv_app_nth list_update_append take_update_swap)
qed

lemma startSlaveListener_name:
  assumes "NUL \<notin> set f" "length f < MAX_FILENAME" "message = f @ NUL # rest"
  shows "startSlaveListener message = Some (''md5sum '' @ f)"
  using assms by (simp add: startSlaveListener_def strcat_h_def strcpy_h_def cstr_def MAX_FILENAME_def takeWhile_append)

lemma slave_main_frames:
  assumes "list_all name_ok fs" "length message = MAX_FILENAME"
  shows "\<exists>m. length m = MAX_FILENAME \<and> slave_main False message (frames fs @ rest) =
    (map ((@) ''md5sum '') fs @ fst (slave_main False m rest), snd (slave_main False m rest))"
  using assms
proof (induction fs arbitrary: message)
  case Nil
  then show ?case by auto
next
  case (Cons f fs)
  let ?m = "f @ NUL # drop (Suc (length f)) message"
  have f: "NUL \<notin> set f" "length f < MAX_FILENAME" "f \<noteq> []" "f ! 0 \<noteq> STOP_CODE"
    using Cons.prems(1) by (auto simp: name_ok_def)
  have m: "length ?m = MAX_FILENAME" using f(2) Cons.prems(2) by simp
  obtain m' where m': "length m' = MAX_FILENAME" "slave_main False ?m (frames fs @ rest) =
      (map ((@) ''md5sum '') fs @ fst (slave_main False m' rest), snd (slave_main False m' rest))"
    using Cons.IH[OF _ m] Cons.prems(1) by auto
  have "read_message False (frames (f # fs) @ rest) 0 message = Inr (?m, frames fs @ rest)"
    using read_message_frame[of f 0 message "frames fs @ rest"] f(1,2) Cons.prems(2) by simp
  moreover have "?m ! 0 \<noteq> STOP_CODE" using f(3,4) by (simp add: nth_append)
  moreover have "startSlaveListener ?m = Some (''md5sum '' @ f)" using startSlaveListener_name f(1,2) by blast
  ultimately have "slave_main False message (frames (f # fs) @ rest) =
      (map ((@) ''md5sum '') (f # fs) @ fst (slave_main False m' rest), snd (slave_main False m' rest))"
    by (simp add: slave_main.simps[of False message] m'(2))
  then show ?case using m'(1) by blast
qed

lemma slave_main_waits:
  assumes "list_all name_ok fs" "length message = MAX_FILENAME"
  shows "slave_main False message (frames fs) = (map ((@) ''md5sum '') fs, Waiting)"
  using slave_main_frames[OF assms, of "[]"] by (auto simp: slave_main.simps[where input = "[]"])

lemma slave_main_stops:
  assumes "list_all name_ok fs" "length message = MAX_FILENAME"
  shows "slave_main False message (frames fs @ stop_frame) = (map ((@) ''md5sum '') fs, Stopped)"
proof -
  have "slave_main False m stop_frame = ([], Stopped)" if "length m = MAX_FILENAME" for m
  proof -
    have "read_message False stop_frame 0 m = Inr (STOP_CODE # NUL # drop 2 m, [])"
      using read_message_frame[of "[STOP_CODE]" 0 m "[]"] that
      by (simp add: stop_frame_def STOP_CODE_def MAX_FILENAME_def numeral_2_eq_2)
    then show ?thesis by (simp add: slave_main.simps)
  qed
  then show ?thesis using slave_main_frames[OF assms, of stop_frame] by auto
qed

section \<open>A line of md5sum\<close>

definition hash_ok :: "string \<Rightarrow> bool" where
  "hash_ok h \<longleftrightarrow> length h = MD5_LENGTH \<and> NUL \<notin> set h \<and> NL \<notin> set h"

definition sum_line :: "string \<Rightarrow> string \<Rightarrow> char list" where
  "sum_line h f = h @ ''  '' @ f"

definition result_line :: "string \<Rightarrow> string \<Rightarrow> char list" where
  "result_line h f = f @ '': '' @ h"

lemma takeWhile_NUL: "NUL \<notin> set t \<Longrightarrow> takeWhile (\<lambda>c. c \<noteq> NUL) (t @ NUL # rest) = t"
  by (simp add: takeWhile_append)

lemma cstr_app [simp]: "NUL \<notin> set t \<Longrightarrow> cstr (t @ NUL # rest) = Some t"
  by (simp add: cstr_def takeWhile_append)

lemma strcpy_app:
  assumes "NUL \<notin> set t" "off + length t < length dst"
  shows "strcpy_h dst off (t @ NUL # rest) = Some (take off dst @ t @ NUL # drop (off + length t + 1) dst)"
  using assms by (simp add: strcpy_h_def)

lemma strcat_app:
  assumes "NUL \<notin> set t" "NUL \<notin> set u" "length t + length u < length (t @ NUL # dst)"
  shows "strcat_h (t @ NUL # dst) (u @ NUL # rest) =
    Some (t @ u @ NUL # drop (length t + length u + 1) (t @ NUL # dst))"
  using assms by (simp add: strcat_h_def strcpy_app)

lemma strncpy_app:
  assumes "NUL \<notin> set t" "length t < n" "off + n \<le> length dst"
  shows "strncpy_h dst off (t @ NUL # rest) n =
    Some (take off dst @ t @ NUL # replicate (n - Suc (length t)) NUL @ drop (off + n) dst)"
proof -
  have "take n (t @ NUL # rest) = t @ NUL # take (n - Suc (length t)) rest"
    using assms(2) by (simp add: take_Cons' less_imp_le)
  moreover have "n - length t = Suc (n - Suc (length t))" using assms(2) by simp
  ultimately show ?thesis using assms by (simp add: strncpy_h_def Let_def takeWhile_NUL)
qed

lemma strncpy_full:
  assumes "NUL \<notin> set t" "length t = n" "off + n \<le> length dst"
  shows "strncpy_h dst off (t @ rest) n = Some (take off dst @ t @ drop (off + n) dst)"
proof -
  have t: "takeWhile (\<lambda>c. c \<noteq> NUL) t = t" using assms(1) by (auto simp: takeWhile_eq_all_conv)
  have "take n (t @ rest) = t" using assms(2) by simp
  then show ?thesis using assms by (simp add: strncpy_h_def Let_def t)
qed

text \<open>\<open>reformatMd5Output\<close> turns the line around, whatever its uninitialised array holds.\<close>

lemma reformat_line:
  assumes "hash_ok h" "NUL \<notin> set f" "length f < MAX_FILENAME"
    "length junk = MAX_FILENAME + MD5_LENGTH + 2" "length (sum_line h f @ NUL # rest) = MAX_FILENAME + MD5_LENGTH + 3"
  shows "\<exists>rest'. length (result_line h f @ NUL # rest') = MAX_FILENAME + MD5_LENGTH + 3 \<and>
    reformatMd5Output junk (sum_line h f @ NUL # rest) = Some (result_line h f @ NUL # rest')"
proof -
  note W = MAX_FILENAME_def MD5_LENGTH_def
  have h: "NUL \<notin> set h" "length h = MD5_LENGTH" using assms(1) by (auto simp: hash_ok_def)
  let ?d = "'': '' @ replicate (MD5_LENGTH + 1) NUL"
  have 1: "strncpy_h ?d 2 (sum_line h f @ NUL # rest) MD5_LENGTH = Some ('': '' @ h @ [NUL])"
    unfolding sum_line_def append_assoc by (subst strncpy_full) (use h in \<open>simp_all add: W\<close>)
  have 2: "('': '' @ h @ [NUL])[MD5_LENGTH + 2 := NUL] = ('': '' @ h) @ NUL # []"
    using h(2) by (simp add: list_update_append W)
  let ?t = "NUL # replicate (MAX_FILENAME - Suc (length f)) NUL @ drop MAX_FILENAME junk"
  have 3: "strncpy_h junk 0 (drop (MD5_LENGTH + 2) (sum_line h f @ NUL # rest)) MAX_FILENAME = Some (f @ ?t)"
    using h(2) assms(2-4) by (simp add: sum_line_def strncpy_app W)
  let ?u = "drop (length f + length ('': '' @ h) + 1) (f @ ?t)"
  have 4: "strcat_h (f @ ?t) (('': '' @ h) @ NUL # []) = Some (f @ ('': '' @ h) @ NUL # ?u)"
    by (rule strcat_app) (use assms(2-4) h in \<open>simp_all add: W\<close>)
  have "strcpy_h (sum_line h f @ NUL # rest) 0 (result_line h f @ NUL # ?u) =
      Some (result_line h f @ NUL # drop (length (f @ '': '' @ h) + 1) (sum_line h f @ NUL # rest))"
    by (subst strcpy_app) (use assms h in \<open>simp_all add: sum_line_def result_line_def\<close>)
  then have 5: "strcpy_h (sum_line h f @ NUL # rest) 0 (f @ ('': '' @ h) @ NUL # ?u) =
      Some (result_line h f @ NUL # drop (length (f @ '': '' @ h) + 1) (sum_line h f @ NUL # rest))"
    by (simp add: result_line_def)
  have "reformatMd5Output junk (sum_line h f @ NUL # rest) =
      Some (result_line h f @ NUL # drop (length (f @ '': '' @ h) + 1) (sum_line h f @ NUL # rest))"
    by (simp only: reformatMd5Output_def 1 2 3 4 5 Option.bind.simps Let_def)
  moreover have "length (result_line h f @ NUL # drop (length (f @ '': '' @ h) + 1) (sum_line h f @ NUL # rest)) =
      MAX_FILENAME + MD5_LENGTH + 3"
    using assms(3,5) by (simp add: result_line_def sum_line_def)
  ultimately show ?thesis by blast
qed

section \<open>Reading a line\<close>

definition pipe_has :: "int \<Rightarrow> nat \<Rightarrow> char list \<Rightarrow> 'z hstate_scheme \<Rightarrow> bool" where
  "pipe_has fd p bs s \<longleftrightarrow> fdt s fd = Some (ReadEnd p) \<and> (\<exists>rest. drop (ppos s p) (pdata s p) = bs @ rest)"

definition consumed :: "nat \<Rightarrow> nat \<Rightarrow> 'z hstate_scheme \<Rightarrow> 'z hstate_scheme" where
  "consumed p n s = s\<lparr>ppos := (ppos s)(p := ppos s p + n)\<rparr>"

lemma consumed_0 [simp]: "consumed p 0 s = s"
  by (simp add: consumed_def)

lemma consumed_consumed [simp]: "consumed p m (consumed p n s) = consumed p (n + m) s"
  by (simp add: consumed_def add.assoc)

lemma read1_has:
  assumes "pipe_has fd p (c # bs) s"
  shows "read1_h fd s = Done (Some c) (consumed p 1 s)" "pipe_has fd p bs (consumed p 1 s)"
proof -
  obtain rest where r: "fdt s fd = Some (ReadEnd p)" "drop (ppos s p) (pdata s p) = c # bs @ rest"
    using assms by (auto simp: pipe_has_def)
  have l: "ppos s p < length (pdata s p)" using r(2) by (metis drop_all linorder_not_less list.distinct(1))
  have "pdata s p ! ppos s p = c" using r(2) l by (metis Cons_nth_drop_Suc list.inject)
  then show "read1_h fd s = Done (Some c) (consumed p 1 s)"
    using r(1) l by (simp add: read1_h_def take_byte_def consumed_def)
  have "drop (Suc (ppos s p)) (pdata s p) = bs @ rest" using r(2) l by (metis Cons_nth_drop_Suc list.inject)
  then show "pipe_has fd p bs (consumed p 1 s)" using r(1) by (simp add: pipe_has_def consumed_def)
qed

lemma readLine_loop_line:
  assumes "pipe_has fd p (t @ [NL]) s" "NL \<notin> set t" "i + length t < length buffer"
  shows "readLine_loop (length buffer - i) fd i buffer s =
    Done (i + length t, take i buffer @ t @ NL # drop (Suc (i + length t)) buffer) (consumed p (Suc (length t)) s)"
  using assms
proof (induction t arbitrary: i buffer s)
  case Nil
  obtain k where k: "length buffer - i = Suc k" using Nil.prems(3) by (cases "length buffer - i") auto
  show ?case using read1_has(1)[of fd p NL "[]" s] Nil.prems
    by (simp add: k NL_def upd_conv_take_nth_drop)
next
  case (Cons c t)
  obtain k where k: "length buffer - i = Suc k" using Cons.prems(3) by (cases "length buffer - i") auto
  then have k': "k = length (buffer[i := c]) - Suc i" by simp
  have "readLine_loop k fd (i + 1) (buffer[i := c]) (consumed p 1 s) =
      Done (Suc i + length t, take (Suc i) (buffer[i := c]) @ t @ NL # drop (Suc (Suc i + length t)) (buffer[i := c]))
        (consumed p (Suc (length t)) (consumed p 1 s))"
    using Cons.IH[of "consumed p 1 s" "Suc i" "buffer[i := c]"] read1_has(2)[of fd p c "t @ [NL]" s] Cons.prems
    unfolding k' by simp
  then show ?case using read1_has(1)[of fd p c "t @ [NL]" s] Cons.prems
    by (auto simp: k NL_def take_Suc_conv_app_nth list_update_append take_update_swap)
qed

lemma readLine_line:
  assumes "pipe_has (sl_readFd sl) p (t @ [NL]) s" "NL \<notin> set t" "t \<noteq> []" "length t < length buffer"
  shows "readLine sl buffer s = Done (True, t @ NUL # drop (Suc (length t)) buffer) (consumed p (Suc (length t)) s)"
  using readLine_loop_line[of "sl_readFd sl" p t s 0 buffer] assms
  by (simp add: readLine_def nth_append list_update_append NL_def)

text \<open>A host for the examples: one file \<open>a\<close> and a directory \<open>d\<close>.\<close>

definition ex_host :: hstate where
  "ex_host = \<lparr>fdt = (\<lambda>_. None), pdata = (\<lambda>_. []), ppos = (\<lambda>_. 0), nextPipe = 0, readable = (\<lambda>_. False), forks = [11, 12, 13, 14],
     signals = [], execOk = True, semget_result = (\<lambda>_. 5), semval = (\<lambda>_. 1), semRemoved = False, shmget_result = (\<lambda>_. 6),
     shmat_result = 4096, shmAttached = False, shmRemoved = False, shm = (\<lambda>_. NUL), stdIn = ''y'', stdOut = [], stdErr = [],
     fopenOk = True, outFile = [], ownPid = 10, statOf = (\<lambda>f. if f = ''a'' then Some False else if f = ''d'' then Some True else None),
     allocOk = (\<lambda>_. True), waits = Waits_input\<rparr>"

end
