(* ===== verification/HashFlow.thy ===== *)
theory HashFlow
  imports SlaveProps "HOL-Library.Multiset"
begin

text \<open>
  The application with its four slaves: an invariant that says which file is where, kept by every step of
  the application and of the processes beside it, and the result of a whole run.
\<close>

section \<open>What is where\<close>

text \<open>
  \<open>p0\<close> is the first pipe the application makes; slave \<open>i\<close> writes to pipe \<open>rp p0 i\<close> and reads from \<open>wp p0 i\<close>.
\<close>

definition rp :: "nat \<Rightarrow> int \<Rightarrow> nat" where "rp p0 i = p0 + 2 * nat i"
definition wp :: "nat \<Rightarrow> int \<Rightarrow> nat" where "wp p0 i = p0 + 2 * nat i + 1"

abbreviation slots :: "int set" where "slots \<equiv> {0..<4}"

lemma pipes_distinct [simp]:
  "rp p0 i \<noteq> wp p0 j" "wp p0 j \<noteq> rp p0 i"
  "i \<in> slots \<Longrightarrow> j \<in> slots \<Longrightarrow> rp p0 i = rp p0 j \<longleftrightarrow> i = j"
  "i \<in> slots \<Longrightarrow> j \<in> slots \<Longrightarrow> wp p0 i = wp p0 j \<longleftrightarrow> i = j"
proof -
  have "2 * m \<noteq> Suc (2 * n)" "Suc (2 * n) \<noteq> 2 * m" for m n :: nat by presburger+
  then show "rp p0 i \<noteq> wp p0 j" "wp p0 j \<noteq> rp p0 i" by (simp_all add: rp_def wp_def)
qed (auto simp: rp_def wp_def)

definition lines_of :: "(string \<Rightarrow> string) \<Rightarrow> string list \<Rightarrow> char list" where
  "lines_of md5 fs = concat (map (\<lambda>f. sum_line (md5 f) f @ [NL]) fs)"

definition report :: "(string \<Rightarrow> string) \<Rightarrow> string list \<Rightarrow> char list" where
  "report md5 fs = concat (map (\<lambda>f. result_line (md5 f) f @ [NL]) fs)"

definition messages :: "(string \<Rightarrow> string) \<Rightarrow> string list \<Rightarrow> char list" where
  "messages md5 fs = concat (map (\<lambda>f. result_line (md5 f) f @ [NUL]) fs)"

lemma lines_simps [simp]: "lines_of md5 [] = []" "lines_of md5 (fs @ gs) = lines_of md5 fs @ lines_of md5 gs"
    "lines_of md5 (f # fs) = sum_line (md5 f) f @ NL # lines_of md5 fs"
    "report md5 (fs @ [f]) = report md5 fs @ result_line (md5 f) f @ [NL]"
    "messages md5 (fs @ [f]) = messages md5 fs @ result_line (md5 f) f @ [NUL]"
  by (simp_all add: lines_of_def report_def messages_def)

lemma lines_take_less:
  assumes "i < j" "j \<le> length fs"
  shows "length (lines_of md5 (take i fs)) < length (lines_of md5 (take j fs))"
proof -
  have "take j fs = take i fs @ fs ! i # drop (Suc i) (take j fs)"
    using assms by (metis Cons_nth_drop_Suc append_take_drop_id length_take less_or_eq_imp_le min.absorb2 nth_take take_take min.absorb1)
  then show ?thesis by (metis lines_simps(2,3) length_append add_less_cancel_left length_Cons add_Suc_right less_add_Suc1 add_0_right zero_less_Suc)
qed

text \<open>What is known of one slave: the files it was sent and the number of its answers that were taken.\<close>

definition slave_flow :: "nat \<Rightarrow> (string \<Rightarrow> string) \<Rightarrow> string list \<Rightarrow> nat \<Rightarrow> int \<Rightarrow> app \<Rightarrow> bool" where
  "slave_flow p0 md5 fs g i s \<longleftrightarrow>
     fdt s (sl_readFd (slaves s i)) = Some (ReadEnd (rp p0 i)) \<and>
     fdt s (sl_writeFd (slaves s i)) = Some (WriteEnd (wp p0 i)) \<and>
     0 \<le> sl_readFd (slaves s i) \<and> sl_readFd (slaves s i) \<le> maxFd s \<and>
     pdata s (wp p0 i) = frames fs @ (if sl_pid (slaves s i) = 0 then stop_frame else []) \<and>
     g \<le> length fs \<and>
     ppos s (rp p0 i) = length (lines_of md5 (take g fs)) \<and>
     (\<exists>k. g \<le> k \<and> k \<le> length fs \<and> pdata s (rp p0 i) = lines_of md5 (take k fs))"

text \<open>What was published: the lines of the output file, and the messages in the segment as far as they fit.\<close>

definition published :: "(string \<Rightarrow> string) \<Rightarrow> string list \<Rightarrow> app \<Rightarrow> bool" where
  "published md5 ps s \<longleftrightarrow> outFile s = report md5 ps \<and> finishedFiles s = int (length ps)"

definition in_segment :: "char list \<Rightarrow> app \<Rightarrow> bool" where
  "in_segment bs s \<longleftrightarrow> sharedMemoryIndex s = min SHMSIZE (1 + int (length bs)) \<and> shm s 0 = NUL \<and>
     (\<forall>j < length bs. int j + 1 < SHMSIZE \<longrightarrow> shm s (int j + 1) = bs ! j)"

definition usable :: "int \<Rightarrow> app \<Rightarrow> bool" where
  "usable mem s \<longleftrightarrow> shmAttached s \<and> shmat_result s = mem \<and> \<not> semRemoved s \<and> slaveCount s = 4"

definition listed :: "string list \<Rightarrow> app \<Rightarrow> bool" where
  "listed files s \<longleftrightarrow> numOfFiles s = int (length files) \<and> int (length files) \<le> filenamesCap s \<and>
     (\<forall>i < length files. filenames s (int i) = files ! i)"

definition given :: "string list \<Rightarrow> (int \<Rightarrow> string list) \<Rightarrow> app \<Rightarrow> bool" where
  "given files sent s \<longleftrightarrow> 0 \<le> distributedFiles s \<and> distributedFiles s \<le> int (length files) \<and>
     (\<Sum>i\<in>slots. mset (sent i)) = mset (take (nat (distributedFiles s)) files)"

definition stop_late :: "string list \<Rightarrow> app \<Rightarrow> bool" where
  "stop_late files s \<longleftrightarrow> (\<forall>i\<in>slots. sl_pid (slaves s i) = 0 \<longrightarrow> distributedFiles s = int (length files))"

definition owes :: "(int \<Rightarrow> string list) \<Rightarrow> (int \<Rightarrow> nat) \<Rightarrow> app \<Rightarrow> bool" where
  "owes sent got s \<longleftrightarrow> (\<forall>i\<in>slots. sl_remainingFiles (slaves s i) = int (length (sent i) - got i))"

definition core :: "nat \<Rightarrow> (string \<Rightarrow> string) \<Rightarrow> int \<Rightarrow> string list \<Rightarrow>
    (int \<Rightarrow> string list) \<Rightarrow> (int \<Rightarrow> nat) \<Rightarrow> app \<Rightarrow> bool" where
  "core p0 md5 mem files sent got s \<longleftrightarrow> (\<forall>i\<in>slots. slave_flow p0 md5 (sent i) (got i) i s) \<and>
     given files sent s \<and> stop_late files s \<and> listed files s \<and> usable mem s"

definition app_inv :: "nat \<Rightarrow> (string \<Rightarrow> string) \<Rightarrow> int \<Rightarrow> string list \<Rightarrow>
    (int \<Rightarrow> string list) \<Rightarrow> (int \<Rightarrow> nat) \<Rightarrow> string list \<Rightarrow> app \<Rightarrow> bool" where
  "app_inv p0 md5 mem files sent got ps s \<longleftrightarrow>
     core p0 md5 mem files sent got s \<and> owes sent got s \<and>
     published md5 ps s \<and> in_segment (messages md5 ps) s \<and> mset ps = (\<Sum>i\<in>slots. mset (take (got i) (sent i)))"

lemma sum_add_at:
  fixes h :: "'b \<Rightarrow> 'a multiset"
  assumes "finite S" "i \<in> S" "h' i = h i + m" "\<And>j. j \<in> S \<Longrightarrow> j \<noteq> i \<Longrightarrow> h' j = h j"
  shows "sum h' S = sum h S + m"
proof -
  have "sum h' (S - {i}) = sum h (S - {i})" using assms(4) by (intro sum.cong) auto
  then show ?thesis using assms(1-3) by (simp add: sum.remove[of S i])
qed

lemma given_subset:
  assumes "given files sent s" "i \<in> slots"
  shows "set (sent i) \<subseteq> set files"
proof
  fix f assume "f \<in> set (sent i)"
  then have "f \<in># (\<Sum>i\<in>slots. mset (sent i))" using assms(2) by (subst set_mset_sum) auto
  then show "f \<in> set files" using assms(1) by (auto simp: given_def dest: in_set_takeD)
qed

section \<open>Handing out the files\<close>

definition sent_file :: "int \<Rightarrow> nat \<Rightarrow> string \<Rightarrow> app \<Rightarrow> app" where
  "sent_file i p f s = s\<lparr>pdata := (pdata s)(p := pdata s p @ f @ [NUL]), distributedFiles := distributedFiles s + 1,
     slaves := (slaves s)(i := (slaves s i)\<lparr>sl_remainingFiles := sl_remainingFiles (slaves s i) + 1\<rparr>)\<rparr>"

lemma distribute_batch_step:
  assumes "slave_flow p0 md5 fs g i s" "usable mem s" "listed files s" "i \<in> slots"
    "0 \<le> distributedFiles s" "distributedFiles s < int (length files)" "sl_remainingFiles (slaves s i) = 0 \<or> b"
  shows "distribute_batch (Suc n) i b (int (length files)) s =
    distribute_batch n i True (int (length files)) (sent_file i (wp p0 i) (files ! nat (distributedFiles s)) s)"
proof -
  have f: "filenames s (distributedFiles s) = files ! nat (distributedFiles s)"
    using assms(3,5,6) by (metis listed_def nat_less_iff int_nat_eq)
  show ?thesis using assms
    by (simp add: with_slave_def upd_slave_def with_filename_def write_h_def slave_flow_def usable_def listed_def f sent_file_def)
qed

lemma inv_sent_file:
  assumes "app_inv p0 md5 mem files sent got ps s" "i \<in> slots" "distributedFiles s < int (length files)"
    "f = files ! nat (distributedFiles s)"
  shows "app_inv p0 md5 mem files (sent(i := sent i @ [f])) got ps (sent_file i (wp p0 i) f s)"
proof -
  let ?s = "sent_file i (wp p0 i) f s" and ?sent = "sent(i := sent i @ [f])"
  note I = assms(1)[unfolded app_inv_def core_def]
  have pid: "sl_pid (slaves s i) \<noteq> 0" using I assms(2,3) by (auto simp: stop_late_def)
  have "slave_flow p0 md5 (?sent j) (got j) j ?s" if "j \<in> slots" for j
  proof -
    have "slave_flow p0 md5 (sent j) (got j) j s" using I that by blast
    then show ?thesis using pid assms(2) that by (auto simp: slave_flow_def sent_file_def le_Suc_eq of_nat_diff)
  qed
  moreover have "owes ?sent got ?s"
    using I assms(2) by (auto simp: owes_def sent_file_def slave_flow_def of_nat_diff Suc_diff_le)
  moreover have "given files ?sent ?s"
  proof -
    have g: "0 \<le> distributedFiles s" "(\<Sum>i\<in>slots. mset (sent i)) = mset (take (nat (distributedFiles s)) files)"
      using I by (auto simp: given_def)
    have "(\<Sum>j\<in>slots. mset (?sent j)) = (\<Sum>j\<in>slots. mset (sent j)) + {#f#}"
      by (rule sum_add_at[of _ i]) (use assms(2) in auto)
    also have "\<dots> = mset (take (nat (distributedFiles s) + 1) files)"
      using g(1) assms(3,4) by (simp add: g(2) take_Suc_conv_app_nth)
    finally show ?thesis using g(1) assms(3) by (simp add: given_def sent_file_def nat_add_distrib)
  qed
  moreover have "stop_late files ?s" using I pid assms(3) by (auto simp: stop_late_def sent_file_def)
  moreover have "listed files ?s" "usable mem ?s" "published md5 ps ?s" "in_segment (messages md5 ps) ?s"
    using I by (simp_all add: listed_def usable_def published_def in_segment_def sent_file_def)
  moreover have "mset ps = (\<Sum>j\<in>slots. mset (take (got j) (?sent j)))"
  proof -
    have "got i \<le> length (sent i)" using I assms(2) by (auto simp: slave_flow_def)
    then have "(\<Sum>j\<in>slots. mset (take (got j) (?sent j))) = (\<Sum>j\<in>slots. mset (take (got j) (sent j)))"
      by (intro sum.cong) auto
    then show ?thesis using I by simp
  qed
  ultimately show ?thesis unfolding app_inv_def core_def by blast
qed

text \<open>What no step of the distribution changes.\<close>

definition same_results :: "app \<Rightarrow> app \<Rightarrow> bool" where
  "same_results s t \<longleftrightarrow> finishedFiles t = finishedFiles s \<and> numOfFiles t = numOfFiles s \<and> readFds t = readFds s \<and>
     (\<forall>i. sl_readFd (slaves t i) = sl_readFd (slaves s i))"

definition outstanding :: "app \<Rightarrow> bool" where
  "outstanding s \<longleftrightarrow> (\<exists>i\<in>slots. 0 < sl_remainingFiles (slaves s i))"

lemma distribute_batch_inv:
  assumes "app_inv p0 md5 mem files sent got ps s" "i \<in> slots"
  shows "\<exists>s' sent'. distribute_batch n i b (int (length files)) s = Done () s' \<and> app_inv p0 md5 mem files sent' got ps s' \<and>
    same_results s s' \<and> (\<forall>j. sl_pid (slaves s' j) = sl_pid (slaves s j)) \<and>
    (\<forall>j. sl_remainingFiles (slaves s j) \<le> sl_remainingFiles (slaves s' j)) \<and>
    (0 < n \<and> distributedFiles s < int (length files) \<longrightarrow> 0 < sl_remainingFiles (slaves s' i))"
  using assms
proof (induction n arbitrary: s sent b)
  case 0
  then show ?case by (auto simp: same_results_def)
next
  case (Suc n)
  note I = Suc.prems(1)[unfolded app_inv_def core_def]
  have flow: "slave_flow p0 md5 (sent i) (got i) i s" "usable mem s" "listed files s" "0 \<le> distributedFiles s"
      "0 \<le> sl_remainingFiles (slaves s i)"
    using I Suc.prems(2) by (auto simp: given_def owes_def)
  consider (no) "\<not> distributedFiles s < int (length files)"
    | (skip) "distributedFiles s < int (length files)" "\<not> (sl_remainingFiles (slaves s i) = 0 \<or> b)"
    | (send) "distributedFiles s < int (length files)" "sl_remainingFiles (slaves s i) = 0 \<or> b" by blast
  then show ?case
  proof cases
    case no
    then show ?thesis using Suc.prems(1) by (auto simp: same_results_def)
  next
    case skip
    have "distribute_batch (Suc n) i b (int (length files)) s = distribute_batch n i b (int (length files)) s"
      using skip flow(2) Suc.prems(2) by (simp add: with_slave_def usable_def)
    moreover have pos: "0 < sl_remainingFiles (slaves s i)" using skip flow(5) by auto
    obtain s' sent' where "distribute_batch n i b (int (length files)) s = Done () s'" "app_inv p0 md5 mem files sent' got ps s'"
        "same_results s s'" "\<forall>j. sl_pid (slaves s' j) = sl_pid (slaves s j)"
        "\<forall>j. sl_remainingFiles (slaves s j) \<le> sl_remainingFiles (slaves s' j)"
      using Suc.IH[OF Suc.prems, of b] by blast
    moreover have "0 < sl_remainingFiles (slaves s' i)" using pos calculation(6) by (auto intro: order_less_le_trans)
    ultimately show ?thesis by auto
  next
    case send
    let ?f = "files ! nat (distributedFiles s)" and ?t = "sent_file i (wp p0 i) (files ! nat (distributedFiles s)) s"
    have step: "distribute_batch (Suc n) i b (int (length files)) s = distribute_batch n i True (int (length files)) ?t"
      by (rule distribute_batch_step[OF flow(1-3) Suc.prems(2) flow(4) send])
    have t: "app_inv p0 md5 mem files (sent(i := sent i @ [?f])) got ps ?t"
      by (rule inv_sent_file[OF Suc.prems send(1) refl])
    have fl: "same_results s ?t" "\<forall>j. sl_pid (slaves ?t j) = sl_pid (slaves s j)"
        "\<forall>j. sl_remainingFiles (slaves s j) \<le> sl_remainingFiles (slaves ?t j)" "0 < sl_remainingFiles (slaves ?t i)"
      using flow(5) by (auto simp: same_results_def sent_file_def)
    obtain s' sent' where "distribute_batch n i True (int (length files)) ?t = Done () s'" "app_inv p0 md5 mem files sent' got ps s'"
        "same_results ?t s'" "\<forall>j. sl_pid (slaves s' j) = sl_pid (slaves ?t j)"
        "\<forall>j. sl_remainingFiles (slaves ?t j) \<le> sl_remainingFiles (slaves s' j)"
      using Suc.IH[OF t Suc.prems(2), of True] by blast
    moreover have "same_results s s'" using fl(1) calculation(3) by (simp add: same_results_def)
    ultimately show ?thesis using step fl by (metis order_trans order_less_le_trans)
  qed
qed

definition stopped :: "int \<Rightarrow> nat \<Rightarrow> app \<Rightarrow> app" where
  "stopped i p s = s\<lparr>pdata := (pdata s)(p := pdata s p @ stop_frame),
     slaves := (slaves s)(i := (slaves s i)\<lparr>sl_pid := 0\<rparr>)\<rparr>"

lemma stopSlave_stopped:
  assumes "slave_flow p0 md5 fs g i s" "usable mem s" "i \<in> slots"
  shows "stopSlave i s = Done () (stopped i (wp p0 i) s)"
  using assms by (simp add: stopSlave_def with_slave_def upd_slave_def write_h_def slave_flow_def usable_def stopped_def stop_frame_def)

lemma core_stopped:
  assumes "core p0 md5 mem files sent got s" "i \<in> slots" "sl_pid (slaves s i) \<noteq> 0"
    "distributedFiles s = int (length files)"
  shows "core p0 md5 mem files sent got (stopped i (wp p0 i) s)"
proof -
  note I = assms(1)[unfolded core_def]
  have "slave_flow p0 md5 (sent j) (got j) j (stopped i (wp p0 i) s)" if "j \<in> slots" for j
  proof -
    have "slave_flow p0 md5 (sent j) (got j) j s" using I that by blast
    then show ?thesis using assms(2,3) that by (auto simp: slave_flow_def stopped_def)
  qed
  moreover have "given files sent (stopped i (wp p0 i) s)" using I by (simp add: given_def stopped_def)
  moreover have "stop_late files (stopped i (wp p0 i) s)" using assms(4) by (simp add: stop_late_def stopped_def)
  moreover have "listed files (stopped i (wp p0 i) s)" "usable mem (stopped i (wp p0 i) s)"
    using I by (simp_all add: listed_def usable_def stopped_def)
  ultimately show ?thesis unfolding core_def by blast
qed

lemma inv_stopped:
  assumes "app_inv p0 md5 mem files sent got ps s" "i \<in> slots" "sl_pid (slaves s i) \<noteq> 0"
    "distributedFiles s = int (length files)"
  shows "app_inv p0 md5 mem files sent got ps (stopped i (wp p0 i) s)"
proof -
  note I = assms(1)[unfolded app_inv_def]
  have "core p0 md5 mem files sent got (stopped i (wp p0 i) s)" using core_stopped I assms(2-4) by blast
  moreover have "owes sent got (stopped i (wp p0 i) s)" using I by (simp add: owes_def stopped_def)
  moreover have "published md5 ps (stopped i (wp p0 i) s)" "in_segment (messages md5 ps) (stopped i (wp p0 i) s)"
    using I by (simp_all add: published_def in_segment_def stopped_def)
  ultimately show ?thesis using I unfolding app_inv_def by blast
qed

lemma stopped_frame:
  "same_results s (stopped i p s)" "sl_remainingFiles (slaves (stopped i p s) j) = sl_remainingFiles (slaves s j)"
  "sl_pid (slaves (stopped i p s) j) = (if j = i then 0 else sl_pid (slaves s j))"
  "distributedFiles (stopped i p s) = distributedFiles s"
  by (simp_all add: same_results_def stopped_def)

lemma same_results_refl: "same_results s s"
  by (simp add: same_results_def)

lemma same_results_trans: "same_results s t \<Longrightarrow> same_results t u \<Longrightarrow> same_results s u"
  by (simp add: same_results_def)

text \<open>The state of the loop over the slaves in front of slave \<open>i\<close>.\<close>

definition distributing :: "nat \<Rightarrow> (string \<Rightarrow> string) \<Rightarrow> int \<Rightarrow> string list \<Rightarrow> (int \<Rightarrow> nat) \<Rightarrow> string list \<Rightarrow> app \<Rightarrow> int \<Rightarrow> app \<Rightarrow> bool" where
  "distributing p0 md5 mem files got ps s0 i s \<longleftrightarrow> (\<exists>sent. app_inv p0 md5 mem files sent got ps s) \<and> same_results s0 s \<and>
     (\<forall>j\<in>slots. i \<le> j \<longrightarrow> sl_pid (slaves s j) \<noteq> 0) \<and>
     (if i = 0 then distributedFiles s < int (length files) else 0 < sl_remainingFiles (slaves s 0))"

lemma distribute_one:
  assumes "distributing p0 md5 mem files got ps s0 i s" "i \<in> slots"
  shows "\<exists>s'. kwith (\<lambda>s. if int (length files) - distributedFiles s > 0
      then distribute_batch BATCH_SIZE i False (int (length files)) else stopSlave i) s = Done () s' \<and> distributing p0 md5 mem files got ps s0 (i + 1) s'"
proof -
  obtain sent where inv: "app_inv p0 md5 mem files sent got ps s" and D: "same_results s0 s"
      "\<forall>j\<in>slots. i \<le> j \<longrightarrow> sl_pid (slaves s j) \<noteq> 0"
      "if i = 0 then distributedFiles s < int (length files) else 0 < sl_remainingFiles (slaves s 0)"
    using assms(1) unfolding distributing_def by blast
  show ?thesis
  proof (cases "distributedFiles s < int (length files)")
    case True
    obtain s' sent' where s': "distribute_batch BATCH_SIZE i False (int (length files)) s = Done () s'"
        "app_inv p0 md5 mem files sent' got ps s'" "same_results s s'" "\<forall>j. sl_pid (slaves s' j) = sl_pid (slaves s j)"
        "\<forall>j. sl_remainingFiles (slaves s j) \<le> sl_remainingFiles (slaves s' j)" "0 < sl_remainingFiles (slaves s' i)"
      using distribute_batch_inv[OF inv assms(2), of BATCH_SIZE False] True by (auto simp: BATCH_SIZE_def)
    have "0 < sl_remainingFiles (slaves s' 0)" using D(3) s'(5,6) by (auto split: if_splits intro: order_less_le_trans)
    then have "distributing p0 md5 mem files got ps s0 (i + 1) s'"
      unfolding distributing_def using s'(2,3,4) D(1,2) assms(2) by (auto intro: same_results_trans)
    then show ?thesis using True s'(1) by simp
  next
    case False
    note I = inv[unfolded app_inv_def core_def]
    have e: "distributedFiles s = int (length files)" using False I by (auto simp: given_def)
    have pid: "sl_pid (slaves s i) \<noteq> 0" and "i \<noteq> 0" using D(2,3) assms(2) False by auto
    have "stopSlave i s = Done () (stopped i (wp p0 i) s)" using I assms(2) by (blast intro: stopSlave_stopped)
    moreover have "distributing p0 md5 mem files got ps s0 (i + 1) (stopped i (wp p0 i) s)"
      unfolding distributing_def using inv_stopped[OF inv assms(2) pid e] D assms(2) \<open>i \<noteq> 0\<close> stopped_frame
      by (auto intro: same_results_trans)
    ultimately show ?thesis using e by simp
  qed
qed

lemma distributeFiles_inv:
  assumes "app_inv p0 md5 mem files sent got ps s" "distributedFiles s < int (length files)"
  shows "\<exists>s' sent'. distributeFiles (int (length files)) s = Done () s' \<and> app_inv p0 md5 mem files sent' got ps s' \<and>
    same_results s s' \<and> outstanding s'"
proof -
  have "distributing p0 md5 mem files got ps s 0 s"
    using assms by (auto simp: distributing_def same_results_refl app_inv_def core_def stop_late_def)
  then have "\<exists>s'. distributeFiles (int (length files)) s = Done () s' \<and>
      distributing p0 md5 mem files got ps s (0 + int NUM_OF_SLAVES) s'"
    unfolding distributeFiles_def
    by (intro kfor_inv[where I = "distributing p0 md5 mem files got ps s"] distribute_one)
      (auto simp: NUM_OF_SLAVES_def)
  then obtain s' sent' where "distributeFiles (int (length files)) s = Done () s'" "app_inv p0 md5 mem files sent' got ps s'"
      "same_results s s'" "0 < sl_remainingFiles (slaves s' 0)"
    by (auto simp: distributing_def NUM_OF_SLAVES_def)
  moreover have "(0 :: int) \<in> slots" by simp
  ultimately show ?thesis unfolding outstanding_def by blast
qed

section \<open>The processes beside the application\<close>

text \<open>
  What the host, the slaves and a viewer do while the application waits.  A slave runs the commands \<open>slave_main\<close> gives for
  what it was sent, from an array \<open>msg0\<close> that is not initialised, and the shell answers each; pipes carry whole answers and lose
  nothing.  A process that waits for a semaphore goes on when there are enough units; \<open>select\<close> returns descriptors with data,
  and at least one as long as answers are to come.
\<close>

definition commands :: "nat \<Rightarrow> char list \<Rightarrow> app \<Rightarrow> int \<Rightarrow> string list" where
  "commands p0 msg0 s i = fst (slave_main False msg0 (pdata s (wp p0 i)))"

definition answers :: "(string \<Rightarrow> char list) \<Rightarrow> string list \<Rightarrow> char list" where
  "answers shell cs = concat (map shell cs)"

definition beside :: "nat \<Rightarrow> char list \<Rightarrow> (string \<Rightarrow> char list) \<Rightarrow> app \<Rightarrow> app \<Rightarrow> bool" where
  "beside p0 msg0 shell s s' \<longleftrightarrow> (\<exists>pd pp rd sv.
     s' = s\<lparr>pdata := pd, ppos := pp, readable := rd, semval := sv\<rparr> \<and>
     (\<forall>p. (\<forall>i\<in>slots. p \<noteq> rp p0 i) \<longrightarrow> pd p = pdata s p) \<and>
     (\<forall>i\<in>slots. pp (rp p0 i) = ppos s (rp p0 i) \<and> length (pdata s (rp p0 i)) \<le> length (pd (rp p0 i)) \<and>
        (\<exists>k \<le> length (commands p0 msg0 s i). pd (rp p0 i) = answers shell (take k (commands p0 msg0 s i)))) \<and>
     (case waits s of
        Waits_sem n k \<Rightarrow> k \<le> sv n
      | Waits_select \<Rightarrow>
          (\<forall>i\<in>slots. rd (sl_readFd (slaves s i)) \<longrightarrow> ppos s (rp p0 i) < length (pd (rp p0 i))) \<and>
          ((\<exists>i\<in>slots. ppos s (rp p0 i) < length (answers shell (commands p0 msg0 s i))) \<longrightarrow>
           (\<exists>i\<in>slots. rd (sl_readFd (slaves s i))))
      | _ \<Rightarrow> True))"

text \<open>The shell runs \<open>md5sum\<close> as documented on every file.\<close>

definition hashes :: "(string \<Rightarrow> char list) \<Rightarrow> (string \<Rightarrow> string) \<Rightarrow> string list \<Rightarrow> bool" where
  "hashes shell md5 files \<longleftrightarrow> (\<forall>f\<in>set files. name_ok f \<and> hash_ok (md5 f) \<and>
     shell (''md5sum '' @ f) = sum_line (md5 f) f @ [NL])"

lemma commands_sent:
  assumes "core p0 md5 mem files sent got s" "hashes shell md5 files" "length msg0 = MAX_FILENAME" "i \<in> slots"
  shows "commands p0 msg0 s i = map ((@) ''md5sum '') (sent i)"
    "answers shell (take k (commands p0 msg0 s i)) = lines_of md5 (take k (sent i))"
proof -
  have sub: "set (sent i) \<subseteq> set files" by (rule given_subset[of _ _ s]) (use assms(1,4) in \<open>simp_all add: core_def\<close>)
  then have ok: "list_all name_ok (sent i)" using assms(2) by (auto simp: hashes_def list_all_iff)
  have "pdata s (wp p0 i) = frames (sent i) @ (if sl_pid (slaves s i) = 0 then stop_frame else [])"
    using assms(1,4) by (simp add: core_def slave_flow_def)
  then show c: "commands p0 msg0 s i = map ((@) ''md5sum '') (sent i)"
    using slave_main_waits[OF ok assms(3)] slave_main_stops[OF ok assms(3)] by (simp add: commands_def)
  have "map (shell \<circ> (@) ''md5sum '') (take k (sent i)) = map (\<lambda>f. sum_line (md5 f) f @ [NL]) (take k (sent i))"
    using sub assms(2) by (intro map_cong refl) (auto simp: hashes_def dest: in_set_takeD)
  then show "answers shell (take k (commands p0 msg0 s i)) = lines_of md5 (take k (sent i))"
    by (simp only: c answers_def lines_of_def take_map map_map)
qed

text \<open>Nothing the others do breaks the invariant.\<close>

lemma core_beside:
  assumes "core p0 md5 mem files sent got s" "hashes shell md5 files" "length msg0 = MAX_FILENAME" "beside p0 msg0 shell s s'"
  shows "core p0 md5 mem files sent got s'"
proof -
  obtain pd pp rd sv where s': "s' = s\<lparr>pdata := pd, ppos := pp, readable := rd, semval := sv\<rparr>"
    and other: "\<And>p. \<forall>i\<in>slots. p \<noteq> rp p0 i \<Longrightarrow> pd p = pdata s p"
    and mine: "\<And>i. i \<in> slots \<Longrightarrow> pp (rp p0 i) = ppos s (rp p0 i) \<and> length (pdata s (rp p0 i)) \<le> length (pd (rp p0 i)) \<and>
        (\<exists>k \<le> length (commands p0 msg0 s i). pd (rp p0 i) = answers shell (take k (commands p0 msg0 s i)))"
    using assms(4) unfolding beside_def by blast
  have "slave_flow p0 md5 (sent i) (got i) i s'" if i: "i \<in> slots" for i
  proof -
    have flow: "slave_flow p0 md5 (sent i) (got i) i s" using assms(1) i by (simp add: core_def)
    have c: "length (commands p0 msg0 s i) = length (sent i)" using commands_sent(1)[OF assms(1-3) i] by simp
    obtain k where k: "k \<le> length (sent i)" "pd (rp p0 i) = lines_of md5 (take k (sent i))"
      using mine[OF i] commands_sent(2)[OF assms(1-3) i] by (auto simp: c)
    obtain k0 where k0: "got i \<le> k0" "k0 \<le> length (sent i)" "pdata s (rp p0 i) = lines_of md5 (take k0 (sent i))"
      using flow by (auto simp: slave_flow_def)
    have "k0 \<le> k"
    proof (rule ccontr)
      assume "\<not> k0 \<le> k"
      then have "length (pd (rp p0 i)) < length (pdata s (rp p0 i))" using lines_take_less[of k k0 "sent i"] k0 k by simp
      then show False using mine[OF i] by simp
    qed
    then have "\<exists>k. got i \<le> k \<and> k \<le> length (sent i) \<and> pd (rp p0 i) = lines_of md5 (take k (sent i))"
      using k k0(1) by (intro exI[of _ k]) simp
    moreover have "pd (wp p0 i) = pdata s (wp p0 i)" by (rule other) simp
    moreover have "pp (rp p0 i) = ppos s (rp p0 i)" using mine[OF i] by blast
    ultimately show ?thesis using flow by (simp add: slave_flow_def s')
  qed
  moreover have "given files sent s'" "stop_late files s'" "listed files s'" "usable mem s'"
    using assms(1) by (simp_all add: s' core_def given_def stop_late_def listed_def usable_def)
  ultimately show ?thesis by (simp add: core_def)
qed

lemma beside_same:
  assumes "beside p0 msg0 shell s s'"
  shows "owes sent got s' = owes sent got s" "published md5 ps s' = published md5 ps s" "in_segment bs s' = in_segment bs s"
    "slaves s' = slaves s" "outFile s' = outFile s" "finishedFiles s' = finishedFiles s" "numOfFiles s' = numOfFiles s"
    "distributedFiles s' = distributedFiles s" "readFds s' = readFds s" "maxFd s' = maxFd s" "semRemoved s' = semRemoved s"
    "shm_ok m j s' = shm_ok m j s" "fdt s' = fdt s" "sharedMemoryIndex s' = sharedMemoryIndex s"
  using assms by (auto simp: beside_def owes_def published_def in_segment_def shm_ok_def)

text \<open>And they can always go on: a slave that is quiet may stay so, and one that owes answers may give them all.\<close>

lemma beside_quiet:
  assumes "\<And>i. i \<in> slots \<Longrightarrow> \<exists>k \<le> length (commands p0 msg0 s i). pdata s (rp p0 i) = answers shell (take k (commands p0 msg0 s i))"
    "waits s \<noteq> Waits_select"
  shows "\<exists>s'. beside p0 msg0 shell s s'"
proof -
  define sv where "sv = (\<lambda>n :: int. case waits s of Waits_sem n k \<Rightarrow> k | _ \<Rightarrow> 0)"
  have "beside p0 msg0 shell s (s\<lparr>pdata := pdata s, ppos := ppos s, readable := readable s, semval := sv\<rparr>)"
    unfolding beside_def using assms
    by (intro exI[of _ "pdata s"] exI[of _ "ppos s"] exI[of _ "readable s"] exI[of _ sv]) (auto simp: sv_def split: waits.splits)
  then show ?thesis by blast
qed

lemma core_answers:
  assumes "core p0 md5 mem files sent got s" "hashes shell md5 files" "length msg0 = MAX_FILENAME" "i \<in> slots"
  shows "\<exists>k \<le> length (commands p0 msg0 s i). pdata s (rp p0 i) = answers shell (take k (commands p0 msg0 s i))"
proof -
  have "slave_flow p0 md5 (sent i) (got i) i s" using assms(1,4) by (simp add: core_def)
  then obtain k where "k \<le> length (sent i)" "pdata s (rp p0 i) = lines_of md5 (take k (sent i))" by (auto simp: slave_flow_def)
  then show ?thesis using commands_sent[OF assms] by (intro exI[of _ k]) simp
qed

lemma core_readFd_inj:
  assumes "core p0 md5 mem files sent got s" "i \<in> slots" "j \<in> slots" "sl_readFd (slaves s j) = sl_readFd (slaves s i)"
  shows "j = i"
proof -
  have "slave_flow p0 md5 (sent j) (got j) j s" "slave_flow p0 md5 (sent i) (got i) i s"
    using assms(1-3) by (simp_all add: core_def)
  then have "rp p0 j = rp p0 i" using assms(4) by (simp add: slave_flow_def)
  then show ?thesis using assms(2,3) by simp
qed

lemma beside_select:
  assumes "core p0 md5 mem files sent got s" "hashes shell md5 files" "length msg0 = MAX_FILENAME" "waits s = Waits_select"
  shows "\<exists>s'. beside p0 msg0 shell s s'"
proof -
  define pd where "pd p = (if \<exists>i\<in>slots. p = rp p0 i then answers shell (commands p0 msg0 s (THE i. i \<in> slots \<and> p = rp p0 i)) else pdata s p)" for p
  define rd where "rd fd \<longleftrightarrow> (\<exists>i\<in>slots. fd = sl_readFd (slaves s i) \<and> ppos s (rp p0 i) < length (pd (rp p0 i)))" for fd
  have pd: "pd (rp p0 i) = answers shell (commands p0 msg0 s i)" if i: "i \<in> slots" for i
  proof -
    have "(THE j. j \<in> slots \<and> rp p0 i = rp p0 j) = i" using i by (intro the_equality) auto
    then show ?thesis using i unfolding pd_def by auto
  qed
  have grows: "length (pdata s (rp p0 i)) \<le> length (pd (rp p0 i))" if i: "i \<in> slots" for i
  proof -
    obtain k where "pdata s (rp p0 i) = answers shell (take k (commands p0 msg0 s i))" using core_answers[OF assms(1-3) i] by blast
    moreover have "length (answers shell (take k cs)) \<le> length (answers shell cs)" for cs
      by (metis answers_def append_take_drop_id concat_append length_append map_append le_add1)
    ultimately show ?thesis by (simp add: pd[OF i])
  qed
  have 1: "\<forall>p. (\<forall>i\<in>slots. p \<noteq> rp p0 i) \<longrightarrow> pd p = pdata s p" by (auto simp: pd_def)
  have 2: "\<forall>i\<in>slots. ppos s (rp p0 i) = ppos s (rp p0 i) \<and> length (pdata s (rp p0 i)) \<le> length (pd (rp p0 i)) \<and>
      (\<exists>k \<le> length (commands p0 msg0 s i). pd (rp p0 i) = answers shell (take k (commands p0 msg0 s i)))"
    using grows pd by (metis order_refl take_all)
  have 3: "\<forall>i\<in>slots. rd (sl_readFd (slaves s i)) \<longrightarrow> ppos s (rp p0 i) < length (pd (rp p0 i))"
    using core_readFd_inj[OF assms(1)] unfolding rd_def by metis
  have 4: "(\<exists>i\<in>slots. ppos s (rp p0 i) < length (answers shell (commands p0 msg0 s i))) \<longrightarrow>
      (\<exists>i\<in>slots. rd (sl_readFd (slaves s i)))" using pd unfolding rd_def by metis
  have "beside p0 msg0 shell s (s\<lparr>pdata := pd, ppos := ppos s, readable := rd, semval := semval s\<rparr>)"
    unfolding beside_def assms(4) waits.case using 1 2 3 4 by blast
  then show ?thesis by blast
qed

lemma app_inv_beside:
  assumes "app_inv p0 md5 mem files sent got ps s" "hashes shell md5 files" "length msg0 = MAX_FILENAME"
    "beside p0 msg0 shell s s'"
  shows "app_inv p0 md5 mem files sent got ps s'"
  using assms core_beside[OF _ assms(2-4)] by (simp add: app_inv_def beside_same[OF assms(4)])

section \<open>Taking one answer\<close>

lemma flow_unread:
  assumes "slave_flow p0 md5 fs g i s" "ppos s (rp p0 i) < length (pdata s (rp p0 i))"
  shows "g < length fs"
    "pipe_has (sl_readFd (slaves s i)) (rp p0 i) (sum_line (md5 (fs ! g)) (fs ! g) @ [NL]) s"
    "slave_flow p0 md5 fs (Suc g) i (consumed (rp p0 i) (Suc (length (sum_line (md5 (fs ! g)) (fs ! g)))) s)"
proof -
  obtain k where k: "g \<le> k" "k \<le> length fs" "pdata s (rp p0 i) = lines_of md5 (take k fs)"
    using assms(1) by (auto simp: slave_flow_def)
  have pos: "ppos s (rp p0 i) = length (lines_of md5 (take g fs))" using assms(1) by (simp add: slave_flow_def)
  have "g \<noteq> k" using k(3) pos assms(2) by auto
  then have "g < k" using k(1) by simp
  then show g: "g < length fs" using k(2) by simp
  have "take k fs = take g fs @ fs ! g # drop (Suc g) (take k fs)"
    using \<open>g < k\<close> k(2) by (metis append_take_drop_id Cons_nth_drop_Suc length_take min.absorb1 min.absorb2 nth_take take_take less_imp_le)
  then have split: "lines_of md5 (take k fs) =
      lines_of md5 (take g fs) @ (sum_line (md5 (fs ! g)) (fs ! g) @ [NL]) @ lines_of md5 (drop (Suc g) (take k fs))"
    by (metis lines_simps(2,3) append.assoc append_Cons append_Nil)
  then show "pipe_has (sl_readFd (slaves s i)) (rp p0 i) (sum_line (md5 (fs ! g)) (fs ! g) @ [NL]) s"
    using assms(1) pos by (simp add: pipe_has_def k(3) slave_flow_def)
  have "lines_of md5 (take (Suc g) fs) = lines_of md5 (take g fs) @ sum_line (md5 (fs ! g)) (fs ! g) @ [NL]"
    using g by (simp add: take_Suc_conv_app_nth)
  then show "slave_flow p0 md5 fs (Suc g) i (consumed (rp p0 i) (Suc (length (sum_line (md5 (fs ! g)) (fs ! g)))) s)"
    using assms(1) pos k \<open>g < k\<close> by (auto simp: slave_flow_def consumed_def intro!: exI[of _ k])
qed

lemma slave_flow_consumed: "j \<in> slots \<Longrightarrow> i \<in> slots \<Longrightarrow> j \<noteq> i \<Longrightarrow>
    slave_flow p0 md5 fs g j (consumed (rp p0 i) n s) = slave_flow p0 md5 fs g j s"
  by (simp add: slave_flow_def consumed_def)

lemma core_consumed:
  assumes "core p0 md5 mem files sent got s" "i \<in> slots" "ppos s (rp p0 i) < length (pdata s (rp p0 i))"
    "f = sent i ! got i"
  shows "core p0 md5 mem files sent (got(i := Suc (got i))) (consumed (rp p0 i) (Suc (length (sum_line (md5 f) f))) s)"
proof -
  let ?s = "consumed (rp p0 i) (Suc (length (sum_line (md5 f) f))) s"
  have "slave_flow p0 md5 (sent i) (got i) i s" using assms(1,2) by (simp add: core_def)
  then have own: "slave_flow p0 md5 (sent i) (Suc (got i)) i ?s" using flow_unread(3) assms(3,4) by blast
  have "slave_flow p0 md5 (sent j) ((got(i := Suc (got i))) j) j ?s" if "j \<in> slots" for j
    using own assms(1,2) that by (cases "j = i") (auto simp: core_def slave_flow_consumed)
  moreover have "given files sent ?s" "stop_late files ?s" "listed files ?s" "usable mem ?s"
    using assms(1) by (simp_all add: core_def given_def stop_late_def listed_def usable_def consumed_def)
  ultimately show ?thesis by (simp add: core_def)
qed

section \<open>The shared segment\<close>

lemma publish_loop_segment:
  assumes "in_segment bs s" "shm_ok mem 0 s" "NUL \<notin> set t"
  shows "\<exists>m j. publish_loop (t @ NUL # rest) mem s = Done () (s\<lparr>shm := m, sharedMemoryIndex := j\<rparr>) \<and>
    in_segment (bs @ t) (s\<lparr>shm := m, sharedMemoryIndex := j\<rparr>)"
  using assms
proof (induction t arbitrary: bs s)
  case Nil
  have "s\<lparr>shm := shm s, sharedMemoryIndex := sharedMemoryIndex s\<rparr> = s" by simp
  then show ?case using Nil.prems(1) by (intro exI[of _ "shm s"] exI[of _ "sharedMemoryIndex s"]) simp
next
  case (Cons c t)
  show ?case
  proof (cases "sharedMemoryIndex s < SHMSIZE")
    case True
    let ?j = "sharedMemoryIndex s" and ?s = "s\<lparr>shm := (shm s)(sharedMemoryIndex s := c), sharedMemoryIndex := sharedMemoryIndex s + 1\<rparr>"
    have j: "?j = 1 + int (length bs)" using Cons.prems(1) True by (auto simp: in_segment_def)
    have seg: "in_segment (bs @ [c]) ?s" using Cons.prems(1) True j
      by (auto simp: in_segment_def nth_append less_Suc_eq)
    have "shm_ok mem 0 ?s" "NUL \<notin> set t" using Cons.prems(2,3) by (simp_all add: shm_ok_def)
    then obtain m k where "publish_loop (t @ NUL # rest) mem ?s = Done () (?s\<lparr>shm := m, sharedMemoryIndex := k\<rparr>)"
        "in_segment ((bs @ [c]) @ t) (?s\<lparr>shm := m, sharedMemoryIndex := k\<rparr>)"
      using Cons.IH[OF seg] by blast
    moreover have "publish_loop ((c # t) @ NUL # rest) mem s = publish_loop (t @ NUL # rest) mem ?s"
      using True Cons.prems(2,3) j by (auto simp: verifySharedMemoryIndexBounds_def shm_append_def shm_put_def shm_ok_def)
    ultimately show ?thesis by (intro exI[of _ m] exI[of _ k]) simp
  next
    case False
    then have "in_segment (bs @ c # t) s" using Cons.prems(1) by (auto simp: in_segment_def nth_append)
    moreover have "s\<lparr>shm := shm s, sharedMemoryIndex := sharedMemoryIndex s\<rparr> = s" by simp
    ultimately show ?thesis using False
      by (intro exI[of _ "shm s"] exI[of _ "sharedMemoryIndex s"]) (simp add: verifySharedMemoryIndexBounds_def)
  qed
qed

lemma append_nul_segment:
  assumes "in_segment bs s" "shm_ok mem 0 s"
  shows "\<exists>m j. (if verifySharedMemoryIndexBounds (sharedMemoryIndex s) then shm_append mem NUL else kskip) s =
      Done () (s\<lparr>shm := m, sharedMemoryIndex := j\<rparr>) \<and> in_segment (bs @ [NUL]) (s\<lparr>shm := m, sharedMemoryIndex := j\<rparr>)"
proof (cases "sharedMemoryIndex s < SHMSIZE")
  case True
  have j: "sharedMemoryIndex s = 1 + int (length bs)" using assms(1) True by (auto simp: in_segment_def)
  show ?thesis using True assms j
    by (intro exI[of _ "(shm s)(sharedMemoryIndex s := NUL)"] exI[of _ "sharedMemoryIndex s + 1"])
      (auto simp: verifySharedMemoryIndexBounds_def shm_append_def shm_put_def shm_ok_def in_segment_def nth_append less_Suc_eq)
next
  case False
  then have "in_segment (bs @ [NUL]) s" using assms(1) by (auto simp: in_segment_def nth_append)
  moreover have "s\<lparr>shm := shm s, sharedMemoryIndex := sharedMemoryIndex s\<rparr> = s" by simp
  ultimately show ?thesis using False
    by (intro exI[of _ "shm s"] exI[of _ "sharedMemoryIndex s"]) (simp add: verifySharedMemoryIndexBounds_def)
qed

section \<open>One answer published\<close>

definition kept :: "nat \<Rightarrow> app \<Rightarrow> app \<Rightarrow> bool" where
  "kept p0 s s' \<longleftrightarrow> readFds s' = readFds s \<and> (\<forall>j. sl_readFd (slaves s' j) = sl_readFd (slaves s j)) \<and>
     (\<forall>j\<in>slots. ppos s' (rp p0 j) = ppos s (rp p0 j) \<and> length (pdata s (rp p0 j)) \<le> length (pdata s' (rp p0 j)))"

lemma kept_beside: "beside p0 msg0 shell s s' \<Longrightarrow> kept p0 s s'"
  by (auto simp: beside_def kept_def)

lemma core_local:
  "core p0 md5 mem files sent got (s\<lparr>outFile := o'\<rparr>) = core p0 md5 mem files sent got s"
  "core p0 md5 mem files sent got (s\<lparr>waits := w\<rparr>) = core p0 md5 mem files sent got s"
  "core p0 md5 mem files sent got (s\<lparr>semval := v\<rparr>) = core p0 md5 mem files sent got s"
  "core p0 md5 mem files sent got (s\<lparr>shm := m\<rparr>) = core p0 md5 mem files sent got s"
  "core p0 md5 mem files sent got (s\<lparr>sharedMemoryIndex := x\<rparr>) = core p0 md5 mem files sent got s"
  "core p0 md5 mem files sent got (s\<lparr>finishedFiles := x\<rparr>) = core p0 md5 mem files sent got s"
  "core p0 md5 mem files sent got (s\<lparr>readFds := r\<rparr>) = core p0 md5 mem files sent got s"
  "core p0 md5 mem files sent got (s\<lparr>slaves := (slaves s)(i := (slaves s i)\<lparr>sl_remainingFiles := x\<rparr>)\<rparr>) =
   core p0 md5 mem files sent got s"
  by (auto simp: core_def slave_flow_def given_def stop_late_def listed_def usable_def)

text \<open>The state after one answer for \<open>f\<close> from slave \<open>i\<close> was published.\<close>

definition published_state :: "int \<Rightarrow> (int \<Rightarrow> int) \<Rightarrow> (int \<Rightarrow> char) \<Rightarrow> int \<Rightarrow> app \<Rightarrow> app" where
  "published_state i v m x s = s\<lparr>semval := v, shm := m, sharedMemoryIndex := x,
     slaves := (slaves s)(i := (slaves s i)\<lparr>sl_remainingFiles := sl_remainingFiles (slaves s i) - 1\<rparr>),
     finishedFiles := finishedFiles s + 1\<rparr>"

text \<open>\<open>publish\<close> behind the one place where it waits, the first semaphore operation.\<close>

definition take_unit :: "app \<Rightarrow> app" where
  "take_unit s = (if semRemoved s \<or> semval s 0 + - 1 < 0 then s else s\<lparr>semval := (semval s)(0 := semval s 0 + - 1)\<rparr>)"

definition publish_tail :: "int \<Rightarrow> int \<Rightarrow> int \<Rightarrow> char list \<Rightarrow> unit A" where
  "publish_tail i mem semaphoreId message = kdo [
     kmod take_unit,
     publish_loop message mem,
     kwith (\<lambda>s. if verifySharedMemoryIndexBounds (sharedMemoryIndex s) then shm_append mem NUL else kskip),
     changeSemaphore 0 semaphoreId 1,
     changeSemaphore 1 semaphoreId 1,
     upd_slave i (\<lambda>sl. sl\<lparr>sl_remainingFiles := sl_remainingFiles sl - 1\<rparr>),
     kmod (\<lambda>s. s\<lparr>finishedFiles := finishedFiles s + 1\<rparr>)]"

lemma publish_waits:
  "NUL \<notin> set t \<Longrightarrow> publish i mem semaphoreId (t @ NUL # rest) s =
    Yield (s\<lparr>outFile := outFile s @ t @ [NL], waits := Waits_sem 0 1\<rparr>) (publish_tail i mem semaphoreId (t @ NUL # rest))"
  unfolding publish_def changeSemaphore_def[of 0 _ "- 1"] semop_h_def publish_tail_def take_unit_def[abs_def]
  by (simp add: fprintf_line_def blocks_def obind_assoc NL_def kskip_eq fun_eq_iff)

lemma kdo_Done: "m s = Done () s' \<Longrightarrow> kdo (m # ms) s = kdo ms s'"
  by simp

lemma publish_rest:
  assumes "usable mem s" "i \<in> slots" "in_segment bs s" "NUL \<notin> set t"
  shows "\<exists>v m x. publish_tail i mem semaphoreId (t @ NUL # rest) s = Done () (published_state i v m x s) \<and>
    in_segment (bs @ t @ [NUL]) (published_state i v m x s)"
proof -
  define v1 where "v1 = (if semRemoved s \<or> semval s 0 + - 1 < 0 then semval s else (semval s)(0 := semval s 0 + - 1))"
  let ?s1 = "s\<lparr>semval := v1\<rparr>"
  have 0: "kmod take_unit s = Done () ?s1" by (simp add: take_unit_def v1_def)
  have "in_segment bs ?s1" "shm_ok mem 0 ?s1" using assms(1,3) by (simp_all add: in_segment_def shm_ok_def usable_def SHMSIZE_def)
  then obtain m1 x1 where 1: "publish_loop (t @ NUL # rest) mem ?s1 = Done () (?s1\<lparr>shm := m1, sharedMemoryIndex := x1\<rparr>)"
      "in_segment (bs @ t) (?s1\<lparr>shm := m1, sharedMemoryIndex := x1\<rparr>)"
    using publish_loop_segment assms(4) by blast
  let ?s2 = "?s1\<lparr>shm := m1, sharedMemoryIndex := x1\<rparr>"
  have "shm_ok mem 0 ?s2" using assms(1) by (simp add: shm_ok_def usable_def SHMSIZE_def)
  then obtain m x where 2: "(if verifySharedMemoryIndexBounds (sharedMemoryIndex ?s2) then shm_append mem NUL else kskip) ?s2 =
      Done () (?s2\<lparr>shm := m, sharedMemoryIndex := x\<rparr>)" "in_segment ((bs @ t) @ [NUL]) (?s2\<lparr>shm := m, sharedMemoryIndex := x\<rparr>)"
    using append_nul_segment[OF 1(2)] by blast
  let ?s3 = "?s2\<lparr>shm := m, sharedMemoryIndex := x\<rparr>"
  have nul: "kwith (\<lambda>s. if verifySharedMemoryIndexBounds (sharedMemoryIndex s) then shm_append mem NUL else kskip) ?s2 = Done () ?s3"
    unfolding kwith_app by (rule 2(1))
  define va where "va = (if v1 0 + 1 < 0 then v1 else v1(0 := v1 0 + 1))"
  define v where "v = (if va 1 + 1 < 0 then va else va(1 := va 1 + 1))"
  have 3: "kdo [changeSemaphore 0 semaphoreId 1, changeSemaphore 1 semaphoreId 1,
      upd_slave i (\<lambda>sl. sl\<lparr>sl_remainingFiles := sl_remainingFiles sl - 1\<rparr>),
      kmod (\<lambda>s. s\<lparr>finishedFiles := finishedFiles s + 1\<rparr>)] ?s3 = Done () (published_state i v m x s)"
    using assms(1,2)
    by (simp add: changeSemaphore_def semop_h_def upd_slave_def with_slave_def usable_def published_state_def va_def v_def)
  have "publish_tail i mem semaphoreId (t @ NUL # rest) s = Done () (published_state i v m x s)"
    unfolding publish_tail_def by (rule trans[OF kdo_Done[of "kmod take_unit", OF 0]
      trans[OF kdo_Done[of "publish_loop (t @ NUL # rest) mem", OF 1(1)] trans[OF kdo_Done[of "kwith _", OF nul] 3]]])
  moreover have "in_segment (bs @ t @ [NUL]) (published_state i v m x s)"
    using 2(2) by (simp add: in_segment_def published_state_def)
  ultimately show ?thesis by blast
qed

lemma published_state_frame:
  "core p0 md5 mem files sent got (published_state i v m x s) = core p0 md5 mem files sent got s"
  "outFile (published_state i v m x s) = outFile s" "finishedFiles (published_state i v m x s) = finishedFiles s + 1"
  "kept p0 s (published_state i v m x s)" "numOfFiles (published_state i v m x s) = numOfFiles s"
  by (auto simp: published_state_def core_def slave_flow_def given_def stop_late_def listed_def usable_def kept_def)

lemma kept_trans: "kept p0 s t \<Longrightarrow> kept p0 t u \<Longrightarrow> kept p0 s u"
  by (auto simp: kept_def intro: order_trans)

lemma publish_inv:
  assumes core: "core p0 md5 mem files sent (got(i := Suc (got i))) s" and i: "i \<in> slots" "got i < length (sent i)"
    and inv: "owes sent got s" "published md5 ps s" "in_segment (messages md5 ps) s"
      "mset ps = (\<Sum>i\<in>slots. mset (take (got i) (sent i)))"
    and f: "f = sent i ! got i" and hashes: "hashes shell md5 files" "length msg0 = MAX_FILENAME"
  shows "under (beside p0 msg0 shell) (\<lambda>_ s'. app_inv p0 md5 mem files sent (got(i := Suc (got i))) (ps @ [f]) s' \<and> kept p0 s s')
    (publish i mem semaphoreId (result_line (md5 f) f @ NUL # rest) s)"
proof -
  let ?got = "got(i := Suc (got i))" and ?t = "result_line (md5 f) f"
  have "given files sent s" using core by (simp add: core_def)
  then have "f \<in> set files" using given_subset[of files sent s i] i f by auto
  then have t: "NUL \<notin> set ?t" using hashes(1) by (auto simp: hashes_def name_ok_def hash_ok_def result_line_def)
  let ?u = "s\<lparr>outFile := outFile s @ ?t @ [NL], waits := Waits_sem 0 1\<rparr>"
  have after: "\<exists>s''. publish_tail i mem semaphoreId (?t @ NUL # rest) s' = Done () s'' \<and>
      app_inv p0 md5 mem files sent ?got (ps @ [f]) s'' \<and> kept p0 s s''" if b: "beside p0 msg0 shell ?u s'" for s'
  proof -
    have "core p0 md5 mem files sent ?got ?u"
      using core by (simp add: core_def slave_flow_def given_def stop_late_def listed_def usable_def)
    then have c: "core p0 md5 mem files sent ?got s'" using core_beside hashes b by blast
    then have "usable mem s'" by (simp add: core_def)
    moreover have "in_segment (messages md5 ps) s'"
      using inv(3) unfolding beside_same(3)[OF b] by (simp add: in_segment_def)
    ultimately obtain v m x where r: "publish_tail i mem semaphoreId (?t @ NUL # rest) s' = Done () (published_state i v m x s')"
      "in_segment (messages md5 ps @ ?t @ [NUL]) (published_state i v m x s')"
      using publish_rest[OF _ i(1) _ t] by blast
    let ?s = "published_state i v m x s'"
    have "core p0 md5 mem files sent ?got ?s" using c by (simp add: published_state_frame)
    moreover have "owes sent ?got ?s"
      using inv(1) i by (auto simp: owes_def published_state_def beside_same(4)[OF b] of_nat_diff)
    moreover have "published md5 (ps @ [f]) ?s"
      using inv(2) by (simp add: published_def published_state_frame beside_same[OF b])
    moreover have "in_segment (messages md5 (ps @ [f])) ?s" using r(2) by simp
    moreover have "mset (ps @ [f]) = (\<Sum>j\<in>slots. mset (take (?got j) (sent j)))"
    proof -
      have "(\<Sum>j\<in>slots. mset (take (?got j) (sent j))) = (\<Sum>j\<in>slots. mset (take (got j) (sent j))) + {#f#}"
        by (rule sum_add_at[of _ i]) (use i f in \<open>auto simp: take_Suc_conv_app_nth\<close>)
      then show ?thesis using inv(4) by simp
    qed
    moreover have "kept p0 s ?s"
    proof -
      have "kept p0 s ?u" by (simp add: kept_def)
      then show ?thesis using kept_beside[OF b] published_state_frame(4) by (blast intro: kept_trans)
    qed
    ultimately show ?thesis using r(1) unfolding app_inv_def by blast
  qed
  have "core p0 md5 mem files sent ?got ?u"
    using core by (simp add: core_def slave_flow_def given_def stop_late_def listed_def usable_def)
  then have "\<exists>s'. beside p0 msg0 shell ?u s'"
    by (intro beside_quiet core_answers[of p0 md5 mem files sent ?got, OF _ hashes]) simp_all
  then show ?thesis by (rule under_yields[OF publish_waits[OF t]]) (use after in blast)
qed

section \<open>One round\<close>

text \<open>In front of slave \<open>i\<close>: the descriptors still marked have data, those behind are marked again.\<close>

definition marked :: "nat \<Rightarrow> int \<Rightarrow> app \<Rightarrow> bool" where
  "marked p0 i s \<longleftrightarrow> (\<forall>j\<in>slots.
     if j < i then readFds s (sl_readFd (slaves s j))
     else readFds s (sl_readFd (slaves s j)) \<longrightarrow> ppos s (rp p0 j) < length (pdata s (rp p0 j)))"

definition others_marked :: "nat \<Rightarrow> int \<Rightarrow> app \<Rightarrow> bool" where
  "others_marked p0 i s \<longleftrightarrow> (\<forall>j\<in>slots. (j < i \<longrightarrow> readFds s (sl_readFd (slaves s j))) \<and>
     (i < j \<longrightarrow> readFds s (sl_readFd (slaves s j)) \<longrightarrow> ppos s (rp p0 j) < length (pdata s (rp p0 j))))"

lemma marked_others: "marked p0 i s \<Longrightarrow> others_marked p0 i s"
  by (auto simp: marked_def others_marked_def)

lemma others_marked_kept:
  assumes "others_marked p0 i s" "kept p0 (consumed (rp p0 i) n s) s'" "i \<in> slots"
  shows "others_marked p0 i s'"
  unfolding others_marked_def
proof (intro ballI conjI impI)
  fix j assume j: "j \<in> slots"
  have k: "readFds s' = readFds s" "sl_readFd (slaves s' j) = sl_readFd (slaves s j)"
      "length (pdata s (rp p0 j)) \<le> length (pdata s' (rp p0 j))" "j \<noteq> i \<Longrightarrow> ppos s' (rp p0 j) = ppos s (rp p0 j)"
    using assms(2,3) j by (auto simp: kept_def consumed_def)
  show "readFds s' (sl_readFd (slaves s' j))" if "j < i" using assms(1) j that k(1,2) by (simp add: others_marked_def)
  show "ppos s' (rp p0 j) < length (pdata s' (rp p0 j))" if "i < j" "readFds s' (sl_readFd (slaves s' j))"
    using assms(1) j that k by (auto simp: others_marked_def intro: order_less_le_trans)
qed

text \<open>At least \<open>n\<close> answers are published, or all but one are and a marked descriptor is still to come.\<close>

definition listening :: "nat \<Rightarrow> (string \<Rightarrow> string) \<Rightarrow> int \<Rightarrow> string list \<Rightarrow> nat \<Rightarrow> int \<Rightarrow> app \<Rightarrow> bool" where
  "listening p0 md5 mem files n i s \<longleftrightarrow> (\<exists>sent got ps. app_inv p0 md5 mem files sent got ps s \<and>
     (n \<le> length ps \<or> n \<le> length ps + 1 \<and> (\<exists>j\<in>slots. i \<le> j \<and> readFds s (sl_readFd (slaves s j))))) \<and>
     marked p0 i s"

lemma with_slave_in: "usable mem s \<Longrightarrow> i \<in> slots \<Longrightarrow> with_slave i f s = f (slaves s i) s"
  by (simp add: with_slave_def usable_def)

lemma app_inv_readFds: "app_inv p0 md5 mem files sent got ps (s\<lparr>readFds := r\<rparr>) = app_inv p0 md5 mem files sent got ps s"
  by (simp add: app_inv_def core_local owes_def published_def in_segment_def)

lemma set_again:
  assumes "app_inv p0 md5 mem files sent got ps s" "others_marked p0 i s" "i \<in> slots"
  shows "with_slave i (\<lambda>sl. FD_SET (sl_readFd sl)) s =
      Done () (s\<lparr>readFds := (readFds s)(sl_readFd (slaves s i) := True)\<rparr>)"
    "marked p0 (i + 1) (s\<lparr>readFds := (readFds s)(sl_readFd (slaves s i) := True)\<rparr>)"
proof -
  note I = assms(1)[unfolded app_inv_def core_def]
  show "with_slave i (\<lambda>sl. FD_SET (sl_readFd sl)) s = Done () (s\<lparr>readFds := (readFds s)(sl_readFd (slaves s i) := True)\<rparr>)"
    using I assms(3) by (simp add: with_slave_def FD_SET_def usable_def)
  have "core p0 md5 mem files sent got s" using assms(1) by (simp add: app_inv_def)
  then have "sl_readFd (slaves s j) \<noteq> sl_readFd (slaves s i)" if "j \<in> slots" "j \<noteq> i" for j
    using core_readFd_inj assms(3) that by blast
  then show "marked p0 (i + 1) (s\<lparr>readFds := (readFds s)(sl_readFd (slaves s i) := True)\<rparr>)"
    using assms(2,3) by (fastforce simp: marked_def others_marked_def)
qed

text \<open>A descriptor without an answer is put back into the set; the other slaves are as they were.\<close>

lemma listen_nothing:
  assumes "listening p0 md5 mem files n i s" "i \<in> slots" "\<not> readFds s (sl_readFd (slaves s i))"
  defines "s' \<equiv> s\<lparr>readFds := (readFds s)(sl_readFd (slaves s i) := True)\<rparr>"
  shows "listen_one junk mem semaphoreId i message s = Done message s'" "listening p0 md5 mem files n (i + 1) s'"
proof -
  obtain sent got ps where inv: "app_inv p0 md5 mem files sent got ps s" and marked: "marked p0 i s"
    and n: "n \<le> length ps \<or> n \<le> length ps + 1 \<and> (\<exists>j\<in>slots. i \<le> j \<and> readFds s (sl_readFd (slaves s j)))"
    using assms(1) unfolding listening_def by blast
  have usable: "usable mem s" using inv by (simp add: app_inv_def core_def)
  note again = set_again[OF inv marked_others[OF marked] assms(2)]
  show "listen_one junk mem semaphoreId i message s = Done message s'"
    using again(1) assms(3) by (simp add: listen_one_def with_slave_in[OF usable assms(2)] s'_def)
  have "n \<le> length ps \<or> n \<le> length ps + 1 \<and> (\<exists>j\<in>slots. i + 1 \<le> j \<and> readFds s' (sl_readFd (slaves s' j)))"
  proof (cases "n \<le> length ps")
    case False
    then obtain j where j: "n \<le> length ps + 1" "j \<in> slots" "i \<le> j" "readFds s (sl_readFd (slaves s j))" using n by blast
    then have "i + 1 \<le> j" using assms(3) by (cases "i = j") auto
    then show ?thesis using j by (auto simp: s'_def)
  qed simp
  moreover have "app_inv p0 md5 mem files sent got ps s'" unfolding s'_def using inv by (simp only: app_inv_readFds)
  ultimately show "listening p0 md5 mem files n (i + 1) s'" using again(2) unfolding listening_def s'_def by blast
qed

text \<open>An answer that is there is read and rewritten, and is the one the slave owes next.\<close>

lemma answer_read:
  assumes inv: "app_inv p0 md5 mem files sent got ps s" "i \<in> slots" "ppos s (rp p0 i) < length (pdata s (rp p0 i))"
    and "hashes shell md5 files" "length junk = MAX_FILENAME + MD5_LENGTH + 2" "length message = MAX_FILENAME + MD5_LENGTH + 3"
  defines "f \<equiv> sent i ! got i" and "s' \<equiv> consumed (rp p0 i) (Suc (length (sum_line (md5 (sent i ! got i)) (sent i ! got i)))) s"
  obtains line rest where "readLine (slaves s i) message s = Done (True, line) s'"
    "reformatMd5Output junk line = Some (result_line (md5 f) f @ NUL # rest)"
    "length (result_line (md5 f) f @ NUL # rest) = MAX_FILENAME + MD5_LENGTH + 3" "got i < length (sent i)"
    "core p0 md5 mem files sent (got(i := Suc (got i))) s'" "owes sent got s'" "published md5 ps s'"
    "in_segment (messages md5 ps) s'"
proof -
  note I = inv(1)[unfolded app_inv_def]
  let ?t = "sum_line (md5 f) f"
  let ?line = "?t @ NUL # drop (Suc (length ?t)) message"
  have flow: "slave_flow p0 md5 (sent i) (got i) i s" using I assms(2) by (simp add: core_def)
  have g: "got i < length (sent i)" using flow_unread(1)[OF flow inv(3)] .
  have "given files sent s" using I by (simp add: core_def)
  then have "f \<in> set files" using given_subset[of files sent s i] g assms(2) by (auto simp: f_def)
  then have ok: "name_ok f" "hash_ok (md5 f)" using assms(4) by (auto simp: hashes_def)
  have len: "length ?t < length message" using ok assms(6) by (simp add: sum_line_def name_ok_def hash_ok_def)
  have nl: "NL \<notin> set ?t" "?t \<noteq> []" using ok by (auto simp: sum_line_def name_ok_def hash_ok_def NL_def)
  have read: "readLine (slaves s i) message s = Done (True, ?line) s'"
    unfolding s'_def f_def
    by (rule readLine_line[OF flow_unread(2)[OF flow inv(3)] nl[unfolded f_def] len[unfolded f_def]])
  have "length ?line = MAX_FILENAME + MD5_LENGTH + 3" using len assms(6) by simp
  then obtain rest where rest: "length (result_line (md5 f) f @ NUL # rest) = MAX_FILENAME + MD5_LENGTH + 3"
      "reformatMd5Output junk ?line = Some (result_line (md5 f) f @ NUL # rest)"
    using reformat_line[OF ok(2) _ _ assms(5)] ok(1) unfolding name_ok_def by blast
  have "core p0 md5 mem files sent (got(i := Suc (got i))) s'"
    unfolding s'_def by (rule core_consumed[OF _ assms(2) inv(3) refl]) (use I in simp)
  moreover have "owes sent got s'" "published md5 ps s'" "in_segment (messages md5 ps) s'"
    using I by (simp_all add: owes_def published_def in_segment_def consumed_def s'_def)
  ultimately show thesis using that[OF read rest(2,1) g] by blast
qed

lemma listen_one_inv:
  assumes "listening p0 md5 mem files n i s" "i \<in> slots"
    "hashes shell md5 files" "length msg0 = MAX_FILENAME" "length junk = MAX_FILENAME + MD5_LENGTH + 2"
    "length message = MAX_FILENAME + MD5_LENGTH + 3"
  shows "under (beside p0 msg0 shell) (\<lambda>message' s'. length message' = MAX_FILENAME + MD5_LENGTH + 3 \<and>
      listening p0 md5 mem files n (i + 1) s') (listen_one junk mem semaphoreId i message s)"
proof (cases "readFds s (sl_readFd (slaves s i))")
  case False
  then show ?thesis using listen_nothing[OF assms(1,2) False] assms(6) by simp
next
  case True
  obtain sent got ps where inv: "app_inv p0 md5 mem files sent got ps s" and marked: "marked p0 i s"
    and n: "n \<le> length ps \<or> n \<le> length ps + 1 \<and> (\<exists>j\<in>slots. i \<le> j \<and> readFds s (sl_readFd (slaves s j)))"
    using assms(1) unfolding listening_def by blast
  note I = inv[unfolded app_inv_def]
  have usable: "usable mem s" using I by (simp add: core_def)
  have data: "ppos s (rp p0 i) < length (pdata s (rp p0 i))" using marked assms(2) True by (simp add: marked_def)
  let ?f = "sent i ! got i" and ?got = "got(i := Suc (got i))"
  let ?s = "consumed (rp p0 i) (Suc (length (sum_line (md5 ?f) ?f))) s"
  obtain line rest where read: "readLine (slaves s i) message s = Done (True, line) ?s"
    and rest: "reformatMd5Output junk line = Some (result_line (md5 ?f) ?f @ NUL # rest)"
      "length (result_line (md5 ?f) ?f @ NUL # rest) = MAX_FILENAME + MD5_LENGTH + 3"
    and s: "got i < length (sent i)" "core p0 md5 mem files sent ?got ?s" "owes sent got ?s" "published md5 ps ?s"
      "in_segment (messages md5 ps) ?s"
    by (rule answer_read[OF inv assms(2) data assms(3,5,6)])
  let ?m = "result_line (md5 ?f) ?f @ NUL # rest"
  have pub: "under (beside p0 msg0 shell)
      (\<lambda>_ s'. app_inv p0 md5 mem files sent ?got (ps @ [?f]) s' \<and> kept p0 ?s s') (publish i mem semaphoreId ?m ?s)"
    using I s(3-5) by (intro publish_inv[OF s(2) assms(2) s(1) _ _ _ _ refl assms(3,4)]) simp_all
  have "listen_one junk mem semaphoreId i message s =
      obind (publish i mem semaphoreId ?m ?s) (\<lambda>_. kthen [with_slave i (\<lambda>sl. FD_SET (sl_readFd sl))] (kret ?m))"
    using True by (simp add: listen_one_def with_slave_in[OF usable assms(2)] read rest(1) obind_assoc kbind_def)
  moreover have "under (beside p0 msg0 shell) (\<lambda>message' s'. length message' = MAX_FILENAME + MD5_LENGTH + 3 \<and>
      listening p0 md5 mem files n (i + 1) s') (kthen [with_slave i (\<lambda>sl. FD_SET (sl_readFd sl))] (kret ?m) s')"
    if s': "app_inv p0 md5 mem files sent ?got (ps @ [?f]) s'" "kept p0 ?s s'" for s'
  proof -
    have o: "others_marked p0 i s'" using others_marked_kept[OF marked_others[OF marked] s'(2) assms(2)] .
    note again = set_again[OF s'(1) o assms(2)]
    have "n \<le> length (ps @ [?f])" using n by auto
    then have "listening p0 md5 mem files n (i + 1) (s'\<lparr>readFds := (readFds s')(sl_readFd (slaves s' i) := True)\<rparr>)"
      unfolding listening_def using s'(1) again(2) app_inv_readFds by blast
    then show ?thesis using rest(2) by (simp add: again(1))
  qed
  ultimately show ?thesis using pub by (auto intro: under_obind)
qed

text \<open>All four slaves.\<close>

lemma listen_loop_inv:
  assumes "listening p0 md5 mem files n i s" "0 \<le> i" "i + int m = 4"
    "hashes shell md5 files" "length msg0 = MAX_FILENAME" "length junk = MAX_FILENAME + MD5_LENGTH + 2"
    "length message = MAX_FILENAME + MD5_LENGTH + 3"
  shows "under (beside p0 msg0 shell) (\<lambda>_. listening p0 md5 mem files n 4) (listen_loop junk mem semaphoreId m i message s)"
  using assms(1-3,7)
proof (induction m arbitrary: i message s)
  case 0
  then show ?case by simp
next
  case (Suc m)
  have i: "i \<in> slots" using Suc.prems(2,3) by simp
  have "under (beside p0 msg0 shell) (\<lambda>message' s'. length message' = MAX_FILENAME + MD5_LENGTH + 3 \<and>
      listening p0 md5 mem files n (i + 1) s') (listen_one junk mem semaphoreId i message s)"
    by (rule listen_one_inv[OF Suc.prems(1) i assms(4-6) Suc.prems(4)])
  moreover have "under (beside p0 msg0 shell) (\<lambda>_. listening p0 md5 mem files n 4)
      (listen_loop junk mem semaphoreId m (i + 1) message' s')"
    if "length message' = MAX_FILENAME + MD5_LENGTH + 3 \<and> listening p0 md5 mem files n (i + 1) s'" for message' s'
    using that Suc.prems(2,3) by (intro Suc.IH) simp_all
  ultimately show ?case by (auto intro: under_obind)
qed

definition between_rounds :: "nat \<Rightarrow> (string \<Rightarrow> string) \<Rightarrow> int \<Rightarrow> string list \<Rightarrow> app \<Rightarrow> bool" where
  "between_rounds p0 md5 mem files s \<longleftrightarrow> (\<exists>sent got ps. app_inv p0 md5 mem files sent got ps s) \<and>
     (\<forall>j\<in>slots. readFds s (sl_readFd (slaves s j)))"

lemma mset_take_sub: "mset (take n xs) \<subseteq># mset xs"
  by (metis append_take_drop_id mset_append mset_subset_eq_add_left)

lemma sum_mset_mono: "finite S \<Longrightarrow> (\<And>i. i \<in> S \<Longrightarrow> f i \<subseteq># g i) \<Longrightarrow> sum f S \<subseteq># sum g S"
  by (induction S rule: finite_induct) (auto intro: subset_mset.add_mono)

lemma answered_bound:
  assumes "app_inv p0 md5 mem files sent got ps s"
  shows "length ps \<le> length files" "length ps < length files \<Longrightarrow> distributedFiles s = int (length files) \<Longrightarrow> outstanding s"
proof -
  note I = assms[unfolded app_inv_def core_def]
  have sub: "(\<Sum>i\<in>slots. mset (take (got i) (sent i))) \<subseteq># (\<Sum>i\<in>slots. mset (sent i))"
    by (rule sum_mset_mono) (simp_all add: mset_take_sub)
  have given: "(\<Sum>i\<in>slots. mset (sent i)) = mset (take (nat (distributedFiles s)) files)" using I by (simp add: given_def)
  have "mset ps \<subseteq># mset files" using I sub given mset_take_sub[of "nat (distributedFiles s)" files] by (metis subset_mset.order_trans)
  then show "length ps \<le> length files" using size_mset_mono by fastforce
  show "outstanding s" if less: "length ps < length files" and D: "distributedFiles s = int (length files)"
  proof (rule ccontr)
    assume "\<not> outstanding s"
    then have "\<forall>i\<in>slots. \<not> got i < length (sent i)" using I by (auto simp: outstanding_def owes_def)
    then have "\<And>i. i \<in> slots \<Longrightarrow> length (sent i) \<le> got i" using not_less by blast
    then have "(\<Sum>i\<in>slots. mset (take (got i) (sent i))) = (\<Sum>i\<in>slots. mset (sent i))" by (intro sum.cong) auto
    then have "mset ps = mset files" using I given D by simp
    then show False using less by (metis mset_eq_length nat_neq_iff)
  qed
qed

lemma answer_waits:
  assumes "app_inv p0 md5 mem files sent got ps s" "outstanding s" "hashes shell md5 files" "length msg0 = MAX_FILENAME"
  shows "\<exists>i\<in>slots. ppos s (rp p0 i) < length (answers shell (commands p0 msg0 (s\<lparr>waits := w\<rparr>) i))"
proof -
  obtain i where i: "i \<in> slots" "0 < sl_remainingFiles (slaves s i)" using assms(2) unfolding outstanding_def by blast
  have core: "core p0 md5 mem files sent got s" using assms(1) by (simp add: app_inv_def)
  have "got i < length (sent i)" using assms(1) i by (auto simp: app_inv_def owes_def)
  then have "length (lines_of md5 (take (got i) (sent i))) < length (lines_of md5 (take (length (sent i)) (sent i)))"
    by (rule lines_take_less) simp
  moreover have "ppos s (rp p0 i) = length (lines_of md5 (take (got i) (sent i)))"
    using core i(1) by (simp add: core_def slave_flow_def)
  moreover have "answers shell (commands p0 msg0 s i) = lines_of md5 (sent i)"
    using commands_sent[OF core assms(3,4) i(1)] by (metis length_map take_all_iff order_refl)
  moreover have "commands p0 msg0 (s\<lparr>waits := w\<rparr>) i = commands p0 msg0 s i" by (simp add: commands_def)
  ultimately show ?thesis by (intro bexI[OF _ i(1)]) simp
qed

lemma select_finds:
  assumes "app_inv p0 md5 mem files sent got ps s" "\<forall>j\<in>slots. readFds s (sl_readFd (slaves s j))" "outstanding s"
    "hashes shell md5 files" "length msg0 = MAX_FILENAME" "beside p0 msg0 shell (s\<lparr>waits := Waits_select\<rparr>) s'"
  shows "listening p0 md5 mem files (length ps + 1) 0
    (s'\<lparr>readFds := (\<lambda>fd. readFds s' fd \<and> 0 \<le> fd \<and> fd < maxFd s' + 1 \<and> readable s' fd)\<rparr>)"
    (is "listening _ _ _ _ _ _ ?s'")
proof -
  let ?u = "s\<lparr>waits := Waits_select\<rparr>"
  have u: "app_inv p0 md5 mem files sent got ps ?u"
    using assms(1) by (simp add: app_inv_def core_local owes_def published_def in_segment_def)
  have inv': "app_inv p0 md5 mem files sent got ps s'" by (rule app_inv_beside[OF u assms(4-6)])
  have b1: "\<forall>i\<in>slots. readable s' (sl_readFd (slaves s i)) \<longrightarrow> ppos s' (rp p0 i) < length (pdata s' (rp p0 i))"
    and b2: "(\<exists>i\<in>slots. ppos s (rp p0 i) < length (answers shell (commands p0 msg0 ?u i))) \<longrightarrow>
         (\<exists>i\<in>slots. readable s' (sl_readFd (slaves s i)))"
    using assms(6) by (auto simp: beside_def)
  obtain j where j: "j \<in> slots" "readable s' (sl_readFd (slaves s j))"
    using b2 answer_waits[OF assms(1,3-5)] by blast
  have same: "slaves s' = slaves s" "readFds s' = readFds s" using beside_same[OF assms(6)] by simp_all
  have "0 \<le> sl_readFd (slaves s' j)" "sl_readFd (slaves s' j) \<le> maxFd s'"
    using inv' j(1) by (auto simp: app_inv_def core_def slave_flow_def)
  then have "readFds ?s' (sl_readFd (slaves ?s' j))" using assms(2) j same by simp
  moreover have "marked p0 0 ?s'" using b1 by (auto simp: marked_def same)
  moreover have "app_inv p0 md5 mem files sent got ps ?s'" using inv' by (simp add: app_inv_readFds)
  ultimately show ?thesis using j(1) unfolding listening_def by fastforce
qed

lemma slaveListener_inv:
  assumes "between_rounds p0 md5 mem files s" "outstanding s" "finishedFiles s = int n"
    "hashes shell md5 files" "length msg0 = MAX_FILENAME" "length junk = MAX_FILENAME + MD5_LENGTH + 2"
  shows "under (beside p0 msg0 shell) (\<lambda>_ s'. between_rounds p0 md5 mem files s' \<and> int n < finishedFiles s')
    (slaveListener junk mem semaphoreId s)"
proof -
  obtain sent got ps where inv: "app_inv p0 md5 mem files sent got ps s" and all: "\<forall>j\<in>slots. readFds s (sl_readFd (slaves s j))"
    using assms(1) unfolding between_rounds_def by blast
  let ?u = "s\<lparr>waits := Waits_select\<rparr>"
  have u: "core p0 md5 mem files sent got ?u" using inv by (simp add: app_inv_def core_local)
  have n: "n = length ps" using inv assms(3) by (simp add: app_inv_def published_def)
  have fin: "between_rounds p0 md5 mem files s' \<and> int n < finishedFiles s'" if "listening p0 md5 mem files (n + 1) 4 s'" for s'
    using that by (auto simp: listening_def between_rounds_def marked_def app_inv_def published_def)
  have "slaveListener junk mem semaphoreId s = Yield ?u (\<lambda>s'. listen_loop junk mem semaphoreId 4 0
      (replicate (MAX_FILENAME + MD5_LENGTH + 3) NUL)
      (s'\<lparr>readFds := (\<lambda>fd. readFds s' fd \<and> 0 \<le> fd \<and> fd < maxFd s' + 1 \<and> readable s' fd)\<rparr>))"
    by (simp add: slaveListener_def select_h_def blocks_def NUM_OF_SLAVES_def)
  moreover have "under (beside p0 msg0 shell) (\<lambda>_ s'. between_rounds p0 md5 mem files s' \<and> int n < finishedFiles s')
      (listen_loop junk mem semaphoreId 4 0 (replicate (MAX_FILENAME + MD5_LENGTH + 3) NUL)
        (s'\<lparr>readFds := (\<lambda>fd. readFds s' fd \<and> 0 \<le> fd \<and> fd < maxFd s' + 1 \<and> readable s' fd)\<rparr>))"
    if b: "beside p0 msg0 shell ?u s'" for s'
    by (rule under_mono[OF listen_loop_inv[OF select_finds[OF inv all assms(2,4,5) b, folded n] _ _ assms(4-6)]])
      (use fin in simp_all)
  moreover have "\<exists>s'. beside p0 msg0 shell ?u s'"
    by (rule beside_select[of p0 md5 mem files sent got, OF _ assms(4,5)]) (use u in simp_all)
  ultimately show ?thesis by simp
qed

lemma application_round_inv:
  assumes "between_rounds p0 md5 mem files s" "finishedFiles s \<noteq> numOfFiles s"
    "hashes shell md5 files" "length msg0 = MAX_FILENAME" "length junk = MAX_FILENAME + MD5_LENGTH + 2"
  shows "under (beside p0 msg0 shell) (\<lambda>_ s'. between_rounds p0 md5 mem files s' \<and>
      length files - nat (finishedFiles s') < length files - nat (finishedFiles s)) (application_round junk mem semaphoreId s)"
proof -
  obtain sent got ps where inv: "app_inv p0 md5 mem files sent got ps s" and all: "\<forall>j\<in>slots. readFds s (sl_readFd (slaves s j))"
    using assms(1) unfolding between_rounds_def by blast
  have N: "numOfFiles s = int (length files)" and n: "finishedFiles s = int (length ps)"
    and D: "distributedFiles s \<le> int (length files)"
    using inv by (simp_all add: app_inv_def core_def listed_def published_def given_def)
  have less: "length ps < length files" using answered_bound(1)[OF inv] assms(2) N n by simp
  obtain s1 where s1: "(if distributedFiles s \<noteq> numOfFiles s then distributeFiles (numOfFiles s) else kskip) s = Done () s1"
      "between_rounds p0 md5 mem files s1" "outstanding s1" "finishedFiles s1 = int (length ps)"
  proof (cases "distributedFiles s = int (length files)")
    case True
    then show ?thesis using that[of s] answered_bound(2)[OF inv less] assms(1) n N by simp
  next
    case False
    then have "distributedFiles s < int (length files)" using D by simp
    then obtain s' sent' where "distributeFiles (int (length files)) s = Done () s'" "app_inv p0 md5 mem files sent' got ps s'"
        "same_results s s'" "outstanding s'" using distributeFiles_inv[OF inv] by blast
    then show ?thesis using that[of s'] False N n all by (auto simp: between_rounds_def same_results_def)
  qed
  have "application_round junk mem semaphoreId s = slaveListener junk mem semaphoreId s1"
    using s1(1) by (simp add: application_round_def del: if_app)
  then show ?thesis using less
    by (auto intro!: under_mono[OF slaveListener_inv[OF s1(2,3,4) assms(3-5)]] simp: n)
qed

end
