(* ===== verification/HashProps.thy ===== *)
theory HashProps
  imports HashFlow
begin

section \<open>Making the list of files\<close>

definition regular :: "'z hstate_scheme \<Rightarrow> string list \<Rightarrow> string list" where
  "regular s argv = filter (\<lambda>f. statOf s f = Some False) (tl argv)"

text \<open>The array has room for the next name, or is about to be enlarged.\<close>

definition listing :: "string list \<Rightarrow> app \<Rightarrow> bool" where
  "listing files s \<longleftrightarrow> listed files s \<and> filenamesCap s mod MEMORY_BLOCK = 0 \<and>
     (int (length files) mod MEMORY_BLOCK = 0 \<or> int (length files) < filenamesCap s)"

definition gives_up :: "('a, 'b) outcome \<Rightarrow> ('a \<Rightarrow> bool) \<Rightarrow> bool" where
  "gives_up r P \<longleftrightarrow> (\<exists>s k. r = Yield s k \<and> P s)"

lemma gives_up_obind: "gives_up r P \<Longrightarrow> gives_up (obind r f) P"
  by (auto simp: gives_up_def)

definition list_changed :: "app \<Rightarrow> app \<Rightarrow> bool" where
  "list_changed s s' \<longleftrightarrow> (\<exists>n F c. s' = s\<lparr>numOfFiles := n, filenames := F, filenamesCap := c\<rparr>)"

lemma list_changed_refl: "list_changed s s"
  unfolding list_changed_def by (intro exI[of _ "numOfFiles s"] exI[of _ "filenames s"] exI[of _ "filenamesCap s"]) simp

lemma list_changed_trans: "list_changed s t \<Longrightarrow> list_changed t u \<Longrightarrow> list_changed s u"
  unfolding list_changed_def by (elim exE, simp, blast)

abbreviation out_of_memory :: "app \<Rightarrow> app \<Rightarrow> bool" where
  "out_of_memory s0 s \<equiv> waits s = Exited 1 \<and> (\<exists>n. \<not> allocOk s0 n)"

lemma addFileToList_adds:
  assumes "listing files s"
  shows "(\<exists>s'. addFileToList f s = Done () s' \<and> listing (files @ [f]) s' \<and> list_changed s s') \<or>
    gives_up (addFileToList f s) (out_of_memory s)"
proof (cases "int (length files) mod MEMORY_BLOCK = 0 \<and> \<not> allocOk s (8 * (int (length files) + MEMORY_BLOCK))")
  case True
  then show ?thesis using assms
    by (auto simp: addFileToList_def listing_def listed_def gives_up_def exit_h_def blocks_def perror_def)
next
  case False
  let ?c = "if int (length files) mod MEMORY_BLOCK = 0 then int (length files) + MEMORY_BLOCK else filenamesCap s"
  let ?s = "s\<lparr>numOfFiles := int (length files) + 1, filenames := (filenames s)(int (length files) := f), filenamesCap := ?c\<rparr>"
  have n: "numOfFiles s = int (length files)" using assms by (simp add: listing_def listed_def)
  have cap: "int (length files) < ?c" using assms by (auto simp: listing_def MEMORY_BLOCK_def)
  have "addFileToList f s = Done () ?s"
    using False cap n by (cases "int (length files) mod MEMORY_BLOCK = 0") (simp_all add: addFileToList_def MEMORY_BLOCK_def)
  moreover have "listing (files @ [f]) ?s"
    using assms cap by (auto simp: listing_def listed_def nth_append MEMORY_BLOCK_def less_Suc_eq) presburger
  moreover have "list_changed s ?s" unfolding list_changed_def by blast
  ultimately show ?thesis by blast
qed

lemma parseFileList_loop_lists:
  assumes "listing files s"
  shows "(\<exists>s'. parseFileList_loop args s = Done () s' \<and>
      listing (files @ filter (\<lambda>f. statOf s f = Some False) args) s' \<and> list_changed s s') \<or>
    gives_up (parseFileList_loop args s) (out_of_memory s)"
  using assms
proof (induction args arbitrary: files s)
  case Nil
  then show ?case using list_changed_refl by simp
next
  case (Cons f args)
  have IH: "(\<exists>s''. parseFileList_loop args s' = Done () s'' \<and>
        listing (files' @ filter (\<lambda>f. statOf s f = Some False) args) s'' \<and> list_changed s s'') \<or>
      gives_up (parseFileList_loop args s') (out_of_memory s)" if "listing files' s'" "list_changed s s'" for files' s'
  proof -
    have "statOf s' = statOf s" "allocOk s' = allocOk s" using that(2) by (auto simp: list_changed_def)
    then show ?thesis using Cons.IH[OF that(1)] list_changed_trans[OF that(2)] by auto
  qed
  show ?case
  proof (cases "statOf s f = Some False")
    case True
    then show ?thesis using addFileToList_adds[OF Cons.prems, of f] IH gives_up_obind[of "addFileToList f s"]
      by fastforce
  next
    case False
    then show ?thesis using IH[OF Cons.prems list_changed_refl] by simp
  qed
qed

lemma parseFileList_lists:
  "(\<exists>s'. parseFileList argv s = Done () s' \<and> listing (regular s argv) s' \<and> list_changed s s') \<or>
    gives_up (parseFileList argv s) (out_of_memory s)"
proof (cases "allocOk s (8 * MEMORY_BLOCK)")
  case False
  then show ?thesis by (auto simp: parseFileList_def gives_up_def exit_h_def blocks_def perror_def)
next
  case True
  let ?s = "s\<lparr>numOfFiles := 0, filenamesCap := MEMORY_BLOCK\<rparr>"
  have l: "listing [] ?s" by (simp add: listing_def listed_def MEMORY_BLOCK_def)
  have c: "list_changed s ?s" unfolding list_changed_def by (intro exI[of _ 0] exI[of _ "filenames s"] exI[of _ MEMORY_BLOCK]) simp
  have "parseFileList argv s = parseFileList_loop (tl argv) ?s" using True by (simp add: parseFileList_def)
  then show ?thesis using parseFileList_loop_lists[OF l, of "tl argv"] list_changed_trans[OF c]
    by (auto simp: regular_def)
qed

section \<open>Starting the slaves\<close>

lemma lowest_fd_free:
  assumes "\<forall>fd \<ge> b. t fd = None" "0 \<le> b" "b < 1024"
  shows "\<exists>r. lowest_fd t = Some r \<and> 0 \<le> r \<and> r \<le> b \<and> t r = None"
proof -
  obtain r where r: "lowest_fd t = Some r"
    using assms by (cases "lowest_fd t") (auto simp: lowest_fd_def scan_None OPEN_MAX_def)
  have "r \<le> b"
  proof (rule ccontr)
    assume "\<not> r \<le> b"
    then have "t b \<noteq> None" using r assms(2) by (auto simp: lowest_fd_def scan_Some)
    then show False using assms(1) by simp
  qed
  then show ?thesis using r by (auto simp: lowest_fd_def scan_Some)
qed

lemma pipe_h_makes:
  assumes "\<forall>fd \<ge> b. fdt s fd = None" "0 \<le> b" "b + 1 < 1024"
  shows "\<exists>r w. 0 \<le> r \<and> r \<le> b \<and> 0 \<le> w \<and> w \<le> b + 1 \<and> r \<noteq> w \<and> fdt s r = None \<and> fdt s w = None \<and>
    (\<forall>f. pipe_h f s = f r w (s\<lparr>fdt := (fdt s)(r := Some (ReadEnd (nextPipe s)), w := Some (WriteEnd (nextPipe s))),
      nextPipe := nextPipe s + 1\<rparr>))"
proof -
  obtain r where r: "lowest_fd (fdt s) = Some r" "0 \<le> r" "r \<le> b" "fdt s r = None"
    using lowest_fd_free[OF assms(1,2)] assms(3) by auto
  let ?t = "(fdt s)(r := Some (ReadEnd (nextPipe s)))"
  obtain w where w: "lowest_fd ?t = Some w" "0 \<le> w" "w \<le> b + 1" "?t w = None"
    using lowest_fd_free[of "b + 1" ?t] assms r(3) by auto
  then have "r \<noteq> w" "fdt s w = None" by (auto split: if_splits)
  then show ?thesis using r w by (intro exI[of _ r] exI[of _ w]) (simp add: pipe_h_def)
qed

text \<open>In front of the creation of slave \<open>i\<close>; descriptors from \<open>b\<close> on are free.\<close>

definition started :: "app \<Rightarrow> app \<Rightarrow> bool" where
  "started s0 s \<longleftrightarrow> (\<exists>t n rf mf sl fk.
     s = s0\<lparr>fdt := t, nextPipe := n, readFds := rf, maxFd := mf, slaves := sl, forks := fk\<rparr>)"

definition creating :: "(string \<Rightarrow> string) \<Rightarrow> nat \<Rightarrow> app \<Rightarrow> int \<Rightarrow> app \<Rightarrow> bool" where
  "creating md5 p0 s0 i s \<longleftrightarrow>
     started s0 s \<and>
     (\<forall>j\<in>slots. j < i \<longrightarrow> slave_flow p0 md5 [] 0 j s \<and> sl_pid (slaves s j) \<noteq> 0 \<and> readFds s (sl_readFd (slaves s j)) \<and>
        sl_remainingFiles (slaves s j) = 0) \<and>
     (\<forall>j\<in>slots. pdata s (rp p0 j) = [] \<and> pdata s (wp p0 j) = [] \<and> ppos s (rp p0 j) = 0) \<and>
     (\<forall>j\<in>slots. i \<le> j \<longrightarrow> sl_remainingFiles (slaves s j) = 0) \<and>
     nextPipe s = p0 + 2 * nat i \<and> (\<forall>fd \<ge> 4 + 4 * i. fdt s fd = None) \<and> slaveCount s = 4 \<and>
     int (length (forks s)) = 4 - i \<and> (\<forall>pid\<in>set (forks s). 0 < pid)"

text \<open>What \<open>createSlave\<close> leaves of the two pipes it makes: the end it reads, \<open>r\<close>, and the
  end it writes, \<open>w\<close>, were free descriptors below the ones of the next slave.\<close>

definition with_slave_at :: "nat \<Rightarrow> int \<Rightarrow> int \<Rightarrow> int \<Rightarrow> app \<Rightarrow> app" where
  "with_slave_at p0 i r w s = s\<lparr>nextPipe := p0 + 2 * nat i + 2, readFds := (readFds s)(r := True),
    maxFd := (if maxFd s < r then r else maxFd s), forks := tl (forks s),
    slaves := (slaves s)(i := (slaves s i)\<lparr>sl_readFd := r, sl_writeFd := w, sl_pid := hd (forks s)\<rparr>),
    fdt := (fdt s)(r := Some (ReadEnd (p0 + 2 * nat i)), w := Some (WriteEnd (Suc (p0 + 2 * nat i))))\<rparr>"

lemma createSlave_makes:
  assumes "creating md5 p0 s0 i s" "i \<in> slots"
  shows "\<exists>r w. createSlave i s = Done () (with_slave_at p0 i r w s) \<and> 0 \<le> r \<and> r \<le> 4 + 4 * i \<and> 0 \<le> w \<and> w \<le> 4 + 4 * i + 3 \<and>
    r \<noteq> w \<and> fdt s r = None \<and> fdt s w = None"
proof -
  note C = assms(1)[unfolded creating_def]
  have free: "\<forall>fd \<ge> 4 + 4 * i. fdt s fd = None" and np: "nextPipe s = p0 + 2 * nat i" and sc: "slaveCount s = 4"
    and fk: "int (length (forks s)) = 4 - i" "\<forall>pid\<in>set (forks s). 0 < pid" using C by auto
  obtain pid fks where pid: "forks s = pid # fks" "0 < pid" by (cases "forks s") (use fk assms(2) in auto)
  have b: "0 \<le> 4 + 4 * i" "4 + 4 * i + 1 < 1024" "0 \<le> 4 + 4 * i + 2" "4 + 4 * i + 2 + 1 < 1024" using assms(2) by auto
  obtain r0 r1 where p1: "0 \<le> r0" "r0 \<le> 4 + 4 * i" "0 \<le> r1" "r1 \<le> 4 + 4 * i + 1" "r0 \<noteq> r1" "fdt s r0 = None" "fdt s r1 = None"
      "\<forall>f :: int \<Rightarrow> int \<Rightarrow> unit A. pipe_h f s = f r0 r1 (s\<lparr>fdt := (fdt s)(r0 := Some (ReadEnd (nextPipe s)),
         r1 := Some (WriteEnd (nextPipe s))), nextPipe := nextPipe s + 1\<rparr>)"
    using pipe_h_makes[OF free b(1,2)] by (elim exE conjE)
  let ?s1 = "s\<lparr>fdt := (fdt s)(r0 := Some (ReadEnd (nextPipe s)), r1 := Some (WriteEnd (nextPipe s))), nextPipe := nextPipe s + 1\<rparr>"
  have free1: "\<forall>fd \<ge> 4 + 4 * i + 2. fdt ?s1 fd = None" using free p1(2,4) by simp
  obtain w0 w1 where p2: "0 \<le> w0" "w0 \<le> 4 + 4 * i + 2" "0 \<le> w1" "w1 \<le> 4 + 4 * i + 2 + 1" "w0 \<noteq> w1" "fdt ?s1 w0 = None"
      "fdt ?s1 w1 = None" "\<forall>f :: int \<Rightarrow> int \<Rightarrow> unit A. pipe_h f ?s1 = f w0 w1 (?s1\<lparr>fdt := (fdt ?s1)(w0 := Some (ReadEnd (nextPipe ?s1)),
         w1 := Some (WriteEnd (nextPipe ?s1))), nextPipe := nextPipe ?s1 + 1\<rparr>)"
    using pipe_h_makes[OF free1 b(3,4)] by (elim exE conjE)
  have ne: "w0 \<noteq> r0" "w0 \<noteq> r1" "w1 \<noteq> r0" "w1 \<noteq> r1" "fdt s w0 = None" "fdt s w1 = None"
    using p2(6,7) by (auto split: if_splits)
  have t: "(fdt s)(r0 := Some (ReadEnd (p0 + 2 * nat i)), w1 := Some (WriteEnd (Suc (p0 + 2 * nat i))), w0 := None, r1 := None) =
      (fdt s)(r0 := Some (ReadEnd (p0 + 2 * nat i)), w1 := Some (WriteEnd (Suc (p0 + 2 * nat i))))"
    using p1(5-7) p2(5) ne by (auto simp: fun_eq_iff)
  have "createSlave i s = Done () (with_slave_at p0 i r0 w1 s)"
    unfolding createSlave_def p1(8)[rule_format] p2(8)[rule_format] using assms(2) pid
    by (simp add: with_slave_at_def FD_SET_def upd_slave_def with_slave_def sc fork_h_def close_h_def np t)
  then show ?thesis using p1 p2 ne by (intro exI[of _ r0] exI[of _ w1]) simp
qed

lemma with_slave_at_flow:
  assumes "creating md5 p0 s0 i s" "i \<in> slots" "0 \<le> r" "r \<noteq> w" "0 \<le> w" "fdt s r = None" "fdt s w = None" "j \<in> slots" "j < i + 1"
  shows "slave_flow p0 md5 [] 0 j (with_slave_at p0 i r w s) \<and> sl_pid (slaves (with_slave_at p0 i r w s) j) \<noteq> 0 \<and>
    readFds (with_slave_at p0 i r w s) (sl_readFd (slaves (with_slave_at p0 i r w s) j)) \<and>
    sl_remainingFiles (slaves (with_slave_at p0 i r w s) j) = 0"
proof (cases "j = i")
  case True
  note C = assms(1)[unfolded creating_def]
  have "int (length (forks s)) = 4 - i" "\<forall>pid\<in>set (forks s). 0 < pid" using C by auto
  then have "0 < hd (forks s)" using assms(2) by (cases "forks s") auto
  moreover have "p0 + 2 * nat i = rp p0 i" "Suc (p0 + 2 * nat i) = wp p0 i" by (simp_all add: rp_def wp_def)
  moreover have "pdata s (rp p0 i) = []" "pdata s (wp p0 i) = []" "ppos s (rp p0 i) = 0" "sl_remainingFiles (slaves s i) = 0"
    using C assms(2) by auto
  ultimately show ?thesis using True assms(3,4) by (simp add: with_slave_at_def slave_flow_def lines_of_def)
next
  case False
  then have o: "slave_flow p0 md5 [] 0 j s" "sl_pid (slaves s j) \<noteq> 0" "readFds s (sl_readFd (slaves s j))"
      "sl_remainingFiles (slaves s j) = 0" using assms(1,8,9) by (auto simp: creating_def)
  have "sl_readFd (slaves s j) \<noteq> r" "sl_readFd (slaves s j) \<noteq> w" "sl_writeFd (slaves s j) \<noteq> r" "sl_writeFd (slaves s j) \<noteq> w"
    using o(1) assms(6,7) by (auto simp: slave_flow_def)
  then show ?thesis using o False by (auto simp: with_slave_at_def slave_flow_def)
qed

lemma started_with_slave_at: "started s0 s \<Longrightarrow> started s0 (with_slave_at p0 i r w s)"
proof -
  assume "started s0 s"
  then obtain t n rf mf sl fk where "s = s0\<lparr>fdt := t, nextPipe := n, readFds := rf, maxFd := mf, slaves := sl, forks := fk\<rparr>"
    unfolding started_def by blast
  then have "with_slave_at p0 i r w s = s0\<lparr>fdt := fdt (with_slave_at p0 i r w s), nextPipe := nextPipe (with_slave_at p0 i r w s),
      readFds := readFds (with_slave_at p0 i r w s), maxFd := maxFd (with_slave_at p0 i r w s),
      slaves := slaves (with_slave_at p0 i r w s), forks := forks (with_slave_at p0 i r w s)\<rparr>"
    by (simp add: with_slave_at_def)
  then show ?thesis unfolding started_def by blast
qed

lemma createSlave_step:
  assumes "creating md5 p0 s0 i s" "i \<in> slots"
  shows "\<exists>s'. createSlave i s = Done () s' \<and> creating md5 p0 s0 (i + 1) s'"
proof -
  note C = assms(1)[unfolded creating_def]
  obtain r w where makes: "createSlave i s = Done () (with_slave_at p0 i r w s)" "0 \<le> r" "r \<le> 4 + 4 * i" "0 \<le> w"
      "w \<le> 4 + 4 * i + 3" "r \<noteq> w" "fdt s r = None" "fdt s w = None"
    using createSlave_makes[OF assms] by (elim exE conjE)
  let ?s' = "with_slave_at p0 i r w s"
  have "\<forall>j\<in>slots. j < i + 1 \<longrightarrow> slave_flow p0 md5 [] 0 j ?s' \<and> sl_pid (slaves ?s' j) \<noteq> 0 \<and>
      readFds ?s' (sl_readFd (slaves ?s' j)) \<and> sl_remainingFiles (slaves ?s' j) = 0"
    using with_slave_at_flow[OF assms makes(2,6,4,7,8)] by blast
  moreover have "started s0 ?s'" using C by (intro started_with_slave_at) blast
  moreover have "\<forall>fd \<ge> 4 + 4 * (i + 1). fdt ?s' fd = None" using C makes(3,5) by (auto simp: with_slave_at_def)
  moreover have "\<forall>j\<in>slots. i + 1 \<le> j \<longrightarrow> sl_remainingFiles (slaves ?s' j) = 0" using C by (auto simp: with_slave_at_def)
  moreover have "int (length (forks ?s')) = 4 - (i + 1) \<and> (\<forall>pid\<in>set (forks ?s'). 0 < pid)"
    using C assms(2) by (cases "forks s") (auto simp: with_slave_at_def)
  moreover have "nextPipe ?s' = p0 + 2 * nat (i + 1)" using assms(2) by (auto simp: with_slave_at_def nat_add_distrib)
  ultimately have "creating md5 p0 s0 (i + 1) ?s'" using C unfolding creating_def by (simp add: with_slave_at_def)
  then show ?thesis using makes(1) by blast
qed

text \<open>What holds until the slaves are started; \<open>files\<close> are the regular files of the command line.\<close>

definition starting :: "nat \<Rightarrow> int \<Rightarrow> string list \<Rightarrow> string list \<Rightarrow> app \<Rightarrow> bool" where
  "starting p0 mem argv files s \<longleftrightarrow> (\<forall>fd \<ge> 4. fdt s fd = None) \<and> nextPipe s = p0 \<and>
     (\<forall>j\<in>slots. pdata s (rp p0 j) = [] \<and> pdata s (wp p0 j) = [] \<and> ppos s (rp p0 j) = 0) \<and>
     length (forks s) = 4 \<and> (\<forall>pid\<in>set (forks s). 0 < pid) \<and> (\<forall>n. allocOk s n) \<and> regular s argv = files \<and>
     shmAttached s \<and> shmat_result s = mem \<and> \<not> semRemoved s \<and>
     outFile s = [] \<and> finishedFiles s = 0 \<and> distributedFiles s = 0 \<and> sharedMemoryIndex s = 1 \<and> shm s 0 = NUL"

lemma starting_beside:
  assumes "starting p0 mem argv files s" "beside p0 msg0 shell s s'"
  shows "starting p0 mem argv files s'"
proof -
  obtain pd pp rd sv where s': "s' = s\<lparr>pdata := pd, ppos := pp, readable := rd, semval := sv\<rparr>"
    and other: "\<And>p. \<forall>i\<in>slots. p \<noteq> rp p0 i \<Longrightarrow> pd p = pdata s p"
    and mine: "\<And>i. i \<in> slots \<Longrightarrow> pp (rp p0 i) = ppos s (rp p0 i) \<and>
        (\<exists>k \<le> length (commands p0 msg0 s i). pd (rp p0 i) = answers shell (take k (commands p0 msg0 s i)))"
    using assms(2) unfolding beside_def by blast
  have "commands p0 msg0 s i = []" if "i \<in> slots" for i
    using assms(1) that by (simp add: starting_def commands_def slave_main.simps)
  then have "\<forall>i\<in>slots. pd (rp p0 i) = [] \<and> pp (rp p0 i) = 0"
    using mine assms(1) by (auto simp: starting_def answers_def)
  moreover have "\<forall>i. pd (wp p0 i) = pdata s (wp p0 i)" using other by simp
  ultimately show ?thesis using assms(1) by (simp add: starting_def s' regular_def)
qed

lemma starting_quiet:
  "starting p0 mem argv files s \<Longrightarrow> waits s \<noteq> Waits_select \<Longrightarrow> \<exists>s'. beside p0 msg0 shell s s'"
  by (rule beside_quiet) (auto simp: starting_def answers_def)

lemma createSlaves_starts:
  assumes "starting p0 mem argv files s"
  shows "\<exists>s'. createSlaves NUM_OF_SLAVES s = Done () s' \<and>
    creating md5 p0 (s\<lparr>maxFd := 0, slaves := (\<lambda>_. \<lparr>sl_pid = 0, sl_readFd = 0, sl_writeFd = 0, sl_remainingFiles = 0\<rparr>),
      slaveCount := 4\<rparr>) 4 s'"
proof -
  let ?s = "s\<lparr>maxFd := 0, slaves := (\<lambda>_. \<lparr>sl_pid = 0, sl_readFd = 0, sl_writeFd = 0, sl_remainingFiles = 0\<rparr>), slaveCount := 4\<rparr>"
  have "started ?s ?s" unfolding started_def
    by (intro exI[of _ "fdt s"] exI[of _ "nextPipe s"] exI[of _ "readFds s"] exI[of _ 0] exI[of _ "slaves ?s"] exI[of _ "forks s"]) simp
  then have "creating md5 p0 ?s 0 ?s" using assms by (simp add: creating_def starting_def)
  then have "\<exists>s'. kfor 0 NUM_OF_SLAVES createSlave ?s = Done () s' \<and> creating md5 p0 ?s (0 + int NUM_OF_SLAVES) s'"
    by (intro kfor_inv[where I = "creating md5 p0 ?s"] createSlave_step) (auto simp: NUM_OF_SLAVES_def)
  then show ?thesis using assms by (simp add: createSlaves_def starting_def NUM_OF_SLAVES_def)
qed

text \<open>With the slaves started and the files listed the invariant holds.\<close>

lemma ready_for_rounds:
  assumes "starting p0 mem argv files s"
  shows "\<exists>s'. kdo [createSlaves NUM_OF_SLAVES, parseFileList argv] s = Done () s' \<and> between_rounds p0 md5 mem files s' \<and>
    finishedFiles s' = 0"
proof -
  let ?s0 = "s\<lparr>maxFd := 0, slaves := (\<lambda>_. \<lparr>sl_pid = 0, sl_readFd = 0, sl_writeFd = 0, sl_remainingFiles = 0\<rparr>), slaveCount := 4\<rparr>"
  obtain s1 where s1: "createSlaves NUM_OF_SLAVES s = Done () s1" "creating md5 p0 ?s0 4 s1"
    using createSlaves_starts[OF assms] by blast
  obtain t n rf mf sl fk where eq: "s1 = ?s0\<lparr>fdt := t, nextPipe := n, readFds := rf, maxFd := mf, slaves := sl, forks := fk\<rparr>"
    using s1(2) by (auto simp: creating_def started_def)
  have "\<forall>n. allocOk s1 n" "regular s1 argv = files" using assms by (simp_all add: eq starting_def regular_def)
  then obtain s2 where s2: "parseFileList argv s1 = Done () s2" "listing files s2" "list_changed s1 s2"
    using parseFileList_lists[of argv s1] by (auto simp: gives_up_def)
  obtain k F c where eq2: "s2 = s1\<lparr>numOfFiles := k, filenames := F, filenamesCap := c\<rparr>"
    using s2(3) unfolding list_changed_def by blast
  have made: "slave_flow p0 md5 [] 0 j s1" "sl_pid (slaves s1 j) \<noteq> 0" "readFds s1 (sl_readFd (slaves s1 j))"
      "sl_remainingFiles (slaves s1 j) = 0" "slaveCount s1 = 4" if "j \<in> slots" for j
    using s1(2) that by (simp_all add: creating_def)
  have "slaveCount s1 = 4" using made(5)[of 0] by simp
  then have "app_inv p0 md5 mem files (\<lambda>_. []) (\<lambda>_. 0) [] s2"
    using made assms s2(2)
    by (auto simp: app_inv_def core_def eq2 slave_flow_def given_def stop_late_def listing_def usable_def eq starting_def
        owes_def published_def in_segment_def report_def messages_def SHMSIZE_def)
  moreover have "\<forall>j\<in>slots. readFds s2 (sl_readFd (slaves s2 j))" using made(3) by (simp add: eq2)
  moreover have "finishedFiles s2 = 0" using assms by (simp add: eq2 eq starting_def)
  ultimately show ?thesis using s1(1) s2(1) unfolding between_rounds_def by auto
qed

section \<open>Stopping\<close>

definition stopping :: "nat \<Rightarrow> (string \<Rightarrow> string) \<Rightarrow> int \<Rightarrow> string list \<Rightarrow> (int \<Rightarrow> string list) \<Rightarrow> (int \<Rightarrow> nat) \<Rightarrow> app \<Rightarrow> int \<Rightarrow> app \<Rightarrow> bool" where
  "stopping p0 md5 mem files sent got s0 i s \<longleftrightarrow> core p0 md5 mem files sent got s \<and>
     distributedFiles s = int (length files) \<and> (\<forall>j\<in>slots. j < i \<longrightarrow> sl_pid (slaves s j) = 0) \<and>
     outFile s = outFile s0 \<and> shm s = shm s0"

lemma stopSlaves_stops:
  assumes "core p0 md5 mem files sent got s" "distributedFiles s = int (length files)"
  shows "\<exists>s'. stopSlaves s = Done () s' \<and> stopping p0 md5 mem files sent got s 4 s'"
proof -
  have step: "\<exists>s'. with_slave i (\<lambda>sl. if sl_pid sl \<noteq> 0 then stopSlave i else kskip) t = Done () s' \<and>
      stopping p0 md5 mem files sent got s (i + 1) s'" if i: "i \<in> slots" and t: "stopping p0 md5 mem files sent got s i t" for i t
  proof -
    have c: "core p0 md5 mem files sent got t" "distributedFiles t = int (length files)" using t by (simp_all add: stopping_def)
    then have u: "usable mem t" "slave_flow p0 md5 (sent i) (got i) i t" using i by (simp_all add: core_def)
    show ?thesis
    proof (cases "sl_pid (slaves t i) = 0")
      case True
      then have "stopping p0 md5 mem files sent got s (i + 1) t" using t by (auto simp: stopping_def order_le_less)
      then show ?thesis using True by (simp add: with_slave_in[OF u(1) i])
    next
      case False
      have "stopping p0 md5 mem files sent got s (i + 1) (stopped i (wp p0 i) t)"
        using core_stopped[OF c(1) i False c(2)] t
        by (auto simp: stopping_def stopped_frame stopped_def order_le_less)
      then show ?thesis using False stopSlave_stopped[OF u(2,1) i] by (simp add: with_slave_in[OF u(1) i])
    qed
  qed
  have "stopping p0 md5 mem files sent got s 0 s" using assms by (simp add: stopping_def)
  then have "\<exists>s'. stopSlaves s = Done () s' \<and> stopping p0 md5 mem files sent got s (0 + int NUM_OF_SLAVES) s'"
    unfolding stopSlaves_def
    by (intro kfor_inv[where I = "stopping p0 md5 mem files sent got s"] step) (auto simp: NUM_OF_SLAVES_def)
  then show ?thesis by (simp add: NUM_OF_SLAVES_def)
qed

text \<open>
  The result of a whole run: every regular file of the command line has one line in the output file and one message in the
  shared segment (as far as there is room); the slaves ran \<open>md5sum\<close> once on each file and have stopped.
\<close>

definition all_hashed :: "nat \<Rightarrow> char list \<Rightarrow> (string \<Rightarrow> string) \<Rightarrow> string list \<Rightarrow> int \<Rightarrow> app \<Rightarrow> bool" where
  "all_hashed p0 msg0 md5 files r s \<longleftrightarrow> r = 0 \<and> (\<exists>ps. mset ps = mset files \<and> outFile s = report md5 ps \<and>
       (\<forall>j < length (messages md5 ps). int j + 1 < SHMSIZE \<longrightarrow> shm s (int j + 1) = messages md5 ps ! j)) \<and>
     (\<Sum>i\<in>slots. mset (commands p0 msg0 s i)) = mset (map ((@) ''md5sum '') files) \<and>
     (\<forall>i\<in>slots. snd (slave_main False msg0 (pdata s (wp p0 i))) = Stopped)"

lemma sum_mset_image: "finite S \<Longrightarrow> (\<Sum>i\<in>S. image_mset f (h i)) = image_mset f (\<Sum>i\<in>S. h i)"
  by (induction S rule: finite_induct) auto

lemma stopping_all_hashed:
  assumes "stopping p0 md5 mem files sent got s0 4 s" "hashes shell md5 files" "length msg0 = MAX_FILENAME"
    "mset ps = mset files" "outFile s0 = report md5 ps"
    "\<forall>j < length (messages md5 ps). int j + 1 < SHMSIZE \<longrightarrow> shm s0 (int j + 1) = messages md5 ps ! j"
  shows "all_hashed p0 msg0 md5 files 0 s"
proof -
  have core: "core p0 md5 mem files sent got s" and D: "distributedFiles s = int (length files)"
    and o: "outFile s = outFile s0" "shm s = shm s0" and pid: "\<forall>j\<in>slots. sl_pid (slaves s j) = 0"
    using assms(1) by (auto simp: stopping_def)
  have "(\<Sum>i\<in>slots. mset (commands p0 msg0 s i)) = (\<Sum>i\<in>slots. image_mset ((@) ''md5sum '') (mset (sent i)))"
    by (intro sum.cong) (simp_all add: commands_sent(1)[OF core assms(2,3)])
  also have "\<dots> = image_mset ((@) ''md5sum '') (\<Sum>i\<in>slots. mset (sent i))" by (rule sum_mset_image) simp
  also have "\<dots> = mset (map ((@) ''md5sum '') files)" using core D by (simp add: core_def given_def)
  finally have "(\<Sum>i\<in>slots. mset (commands p0 msg0 s i)) = mset (map ((@) ''md5sum '') files)" .
  moreover have "snd (slave_main False msg0 (pdata s (wp p0 i))) = Stopped" if i: "i \<in> slots" for i
  proof -
    have "given files sent s" using core by (simp add: core_def)
    then have "list_all name_ok (sent i)" using given_subset i assms(2) by (fastforce simp: hashes_def list_all_iff)
    moreover have "pdata s (wp p0 i) = frames (sent i) @ stop_frame" using core pid i by (simp add: core_def slave_flow_def)
    ultimately show ?thesis using slave_main_stops assms(3) by simp
  qed
  ultimately show ?thesis using assms(4-6) o unfolding all_hashed_def by auto
qed

lemma kthen_Done: "m s = Done () s' \<Longrightarrow> kthen (m # ms) f s = kthen ms f s'"
  by simp

text \<open>When as many files were answered as there are, all were handed out, and the answers are those of all files.\<close>

lemma all_answered:
  assumes "app_inv p0 md5 mem files sent got ps s" "finishedFiles s = numOfFiles s"
  shows "distributedFiles s = int (length files)" "mset ps = mset files"
proof -
  note I = assms(1)[unfolded app_inv_def]
  have n: "length ps = length files" using I assms(2) by (simp add: core_def listed_def published_def)
  have "mset ps \<subseteq># (\<Sum>i\<in>slots. mset (sent i))"
    using I by (auto intro: sum_mset_mono simp: mset_take_sub)
  then have sub: "mset ps \<subseteq># mset (take (nat (distributedFiles s)) files)" using I by (simp add: core_def given_def)
  then have "length ps \<le> length (take (nat (distributedFiles s)) files)" by (metis size_mset size_mset_mono)
  then show D: "distributedFiles s = int (length files)" using n I by (auto simp: core_def given_def)
  show "mset ps = mset files"
  proof (rule ccontr)
    assume "mset ps \<noteq> mset files"
    then have "mset ps \<subset># mset files" using sub D by (simp add: subset_mset.less_le)
    then have "size (mset ps) < size (mset files)" by (rule mset_subset_size)
    then show False using n by simp
  qed
qed

text \<open>The last actions of the application once the semaphore is its own: the end mark, and everything is taken down.\<close>

lemma shut_down:
  assumes inv: "app_inv p0 md5 mem files sent got ps s" and D: "distributedFiles s = int (length files)"
    and all: "mset ps = mset files" and others: "hashes shell md5 files" "length msg0 = MAX_FILENAME"
  shows "\<exists>s'. kthen [kmod take_unit, shm_put mem 0 (CHR 0xFF), changeSemaphore 0 semaphoreId 1, stopSlaves,
      destroyMemory sharedMemoryId mem, destroySemaphore semaphoreId] (kret 0) s = Done 0 s' \<and>
    all_hashed p0 msg0 md5 files 0 s'"
proof -
  have core: "core p0 md5 mem files sent got s" and ok: "shm_ok mem 0 s"
    using inv by (simp_all add: app_inv_def core_def usable_def shm_ok_def SHMSIZE_def)
  define v where "v = (if semRemoved s \<or> semval s 0 + - 1 < 0 then semval s else (semval s)(0 := semval s 0 + - 1))"
  define w where "w = (if v 0 + 1 < 0 then v else v(0 := v 0 + 1))"
  let ?t = "s\<lparr>semval := w, shm := (shm s)(0 := CHR 0xFF)\<rparr>"
  have "core p0 md5 mem files sent got ?t" using core by (simp add: core_local)
  moreover have "distributedFiles ?t = int (length files)" using D by simp
  ultimately obtain s2 where s2: "stopSlaves ?t = Done () s2" "stopping p0 md5 mem files sent got ?t 4 s2"
    using stopSlaves_stops by blast
  have "in_segment (messages md5 ps) s" "published md5 ps s" using inv by (simp_all add: app_inv_def)
  then have h: "all_hashed p0 msg0 md5 files 0 s2"
    using all by (intro stopping_all_hashed[OF s2(2) others]) (auto simp: published_def in_segment_def)
  have "usable mem s2" using s2(2) by (simp add: stopping_def core_def)
  let ?z = "s2\<lparr>shmAttached := False, shmRemoved := True, semRemoved := True\<rparr>"
  have 1: "kmod take_unit s = Done () (s\<lparr>semval := v\<rparr>)" by (simp add: take_unit_def v_def)
  have 2: "shm_put mem 0 (CHR 0xFF) (s\<lparr>semval := v\<rparr>) = Done () (s\<lparr>semval := v, shm := (shm s)(0 := CHR 0xFF)\<rparr>)"
    using ok by (simp add: shm_put_def shm_ok_def)
  have 3: "changeSemaphore 0 semaphoreId 1 (s\<lparr>semval := v, shm := (shm s)(0 := CHR 0xFF)\<rparr>) = Done () ?t"
    using core by (simp add: changeSemaphore_def semop_h_def w_def core_def usable_def)
  have 4: "kthen [destroyMemory sharedMemoryId mem, destroySemaphore semaphoreId] (kret 0) s2 = Done 0 ?z"
    using \<open>usable mem s2\<close> by (simp add: destroyMemory_def detachMemory_def destroySemaphore_def rmid_h_def usable_def)
  have "kthen [kmod take_unit, shm_put mem 0 (CHR 0xFF), changeSemaphore 0 semaphoreId 1, stopSlaves,
      destroyMemory sharedMemoryId mem, destroySemaphore semaphoreId] (kret 0) s = Done 0 ?z"
    by (rule trans[OF kthen_Done[of "kmod take_unit", OF 1] trans[OF kthen_Done[of "shm_put mem 0 (CHR 0xFF)", OF 2]
      trans[OF kthen_Done[of "changeSemaphore 0 semaphoreId 1", OF 3] trans[OF kthen_Done[of stopSlaves, OF s2(1)] 4]]]])
  moreover have "all_hashed p0 msg0 md5 files 0 ?z" using h by (simp add: all_hashed_def commands_def)
  ultimately show ?thesis by blast
qed

lemma application_ends:
  assumes "between_rounds p0 md5 mem files s" "finishedFiles s = numOfFiles s"
    "hashes shell md5 files" "length msg0 = MAX_FILENAME"
  shows "under (beside p0 msg0 shell) (all_hashed p0 msg0 md5 files) (kthen [
     changeSemaphore 0 semaphoreId (- 1),
     shm_put mem 0 (CHR 0xFF),
     changeSemaphore 0 semaphoreId 1,
     stopSlaves,
     destroyMemory sharedMemoryId mem,
     destroySemaphore semaphoreId] (kret 0) s)"
proof -
  obtain sent got ps where inv: "app_inv p0 md5 mem files sent got ps s" using assms(1) unfolding between_rounds_def by blast
  note A = all_answered[OF inv assms(2)]
  let ?u = "s\<lparr>waits := Waits_sem 0 1\<rparr>"
  let ?rest = "kthen [kmod take_unit, shm_put mem 0 (CHR 0xFF), changeSemaphore 0 semaphoreId 1, stopSlaves,
      destroyMemory sharedMemoryId mem, destroySemaphore semaphoreId] (kret 0)"
  have u: "app_inv p0 md5 mem files sent got ps ?u"
    using inv by (simp add: app_inv_def core_local owes_def published_def in_segment_def)
  have fin: "\<exists>s''. ?rest s' = Done 0 s'' \<and> all_hashed p0 msg0 md5 files 0 s''" if b: "beside p0 msg0 shell ?u s'" for s'
    using A(1) beside_same(8)[OF b]
    by (intro shut_down[OF app_inv_beside[OF u assms(3,4) b] _ A(2) assms(3,4)]) simp
  have yields: "kthen [changeSemaphore 0 semaphoreId (- 1), shm_put mem 0 (CHR 0xFF), changeSemaphore 0 semaphoreId 1, stopSlaves,
      destroyMemory sharedMemoryId mem, destroySemaphore semaphoreId] (kret 0) s = Yield ?u ?rest"
    unfolding changeSemaphore_def[of 0 _ "- 1"] semop_h_def take_unit_def[abs_def]
    by (simp add: blocks_def obind_assoc kskip_eq fun_eq_iff)
  have "\<exists>s'. beside p0 msg0 shell ?u s'"
    by (intro beside_quiet core_answers[of p0 md5 mem files sent got, OF _ assms(3,4)]) (use u in \<open>simp_all add: app_inv_def\<close>)
  then show ?thesis by (rule under_yields[OF yields]) (use fin in blast)
qed

section \<open>The whole program\<close>

text \<open>
  What the host has to provide: \<open>3\<close> and the descriptors behind it are free, no call fails, the user types a \<open>y\<close>, and pipes
  that are yet to be made are empty.
\<close>

definition host_ready :: "string list \<Rightarrow> app \<Rightarrow> bool" where
  "host_ready argv s \<longleftrightarrow> 2 \<le> length argv \<and> fopenOk s \<and> (\<forall>fd \<ge> 3. fdt s fd = None) \<and> (\<forall>n. allocOk s n) \<and>
     shmget_result s (ownPid s) \<noteq> - 1 \<and> shmat_result s \<noteq> 0 \<and> shmat_result s \<noteq> - 1 \<and>
     semget_result s (ownPid s) \<noteq> - 1 \<and> \<not> semRemoved s \<and> length (forks s) = 4 \<and> (\<forall>pid\<in>set (forks s). 0 < pid) \<and>
     CHR ''y'' \<in> set (stdIn s) \<and> (\<forall>p \<ge> nextPipe s. pdata s p = [] \<and> ppos s p = 0)"

lemma skip_to_y_finds: "CHR ''y'' \<in> set cs \<Longrightarrow> \<exists>cs'. skip_to_y cs = Some cs'"
  by (induction cs) auto

lemma starting_local:
  "starting p0 mem argv files (s\<lparr>semval := v\<rparr>) = starting p0 mem argv files s"
  "starting p0 mem argv files (s\<lparr>waits := w\<rparr>) = starting p0 mem argv files s"
  "starting p0 mem argv files (s\<lparr>stdOut := o'\<rparr>) = starting p0 mem argv files s"
  "starting p0 mem argv files (s\<lparr>stdIn := i'\<rparr>) = starting p0 mem argv files s"
  by (simp_all add: starting_def regular_def)

text \<open>The three parts of \<open>main\<close>: up to the first semaphore operation, the slaves' work, the end.\<close>

definition work :: "nat \<Rightarrow> char list \<Rightarrow> string list \<Rightarrow> int \<Rightarrow> int \<Rightarrow> int \<Rightarrow> int A" where
  "work n junk argv mem sharedMemoryId semaphoreId = kthen [
     createSlaves NUM_OF_SLAVES,
     parseFileList argv,
     kwhile n (\<lambda>s. finishedFiles s \<noteq> numOfFiles s) (application_round junk mem semaphoreId),
     changeSemaphore 0 semaphoreId (- 1),
     shm_put mem 0 (CHR 0xFF),
     changeSemaphore 0 semaphoreId 1,
     stopSlaves,
     destroyMemory sharedMemoryId mem,
     destroySemaphore semaphoreId]
     (kret 0)"

definition dialogue :: "string \<Rightarrow> int A \<Rightarrow> int A" where
  "dialogue pid_text m = kthen [
     printf_h (''This process pid is: '' @ pid_text @ [CHR 0x0A]),
     printf_h (''To continue type '' @ [CHR 0x27, CHR ''y'', CHR 0x27, CHR 0x0A]),
     wait_for_y]
     m"

lemma work_done:
  assumes "starting p0 mem argv files s" "length files < n" "hashes shell md5 files" "length msg0 = MAX_FILENAME"
    "length junk = MAX_FILENAME + MD5_LENGTH + 2"
  shows "under (beside p0 msg0 shell) (all_hashed p0 msg0 md5 files) (work n junk argv mem sharedMemoryId semaphoreId s)"
proof -
  obtain s1 where s1: "kdo [createSlaves NUM_OF_SLAVES, parseFileList argv] s = Done () s1"
      "between_rounds p0 md5 mem files s1" "finishedFiles s1 = 0" using ready_for_rounds[OF assms(1)] by blast
  let ?loop = "kwhile n (\<lambda>s. finishedFiles s \<noteq> numOfFiles s) (application_round junk mem semaphoreId)"
  let ?last = "[changeSemaphore 0 semaphoreId (- 1), shm_put mem 0 (CHR 0xFF), changeSemaphore 0 semaphoreId 1, stopSlaves,
      destroyMemory sharedMemoryId mem, destroySemaphore semaphoreId]"
  have loop: "under (beside p0 msg0 shell) (\<lambda>_ s. between_rounds p0 md5 mem files s \<and> \<not> finishedFiles s \<noteq> numOfFiles s) (?loop s1)"
    by (rule under_kwhile[where \<mu> = "\<lambda>s. length files - nat (finishedFiles s)"])
      (use s1(2) assms(2) application_round_inv[OF _ _ assms(3-5)] in auto)
  have "work n junk argv mem sharedMemoryId semaphoreId s = kthen (?loop # ?last) (kret 0) s1"
    using s1(1) by (auto simp: work_def obind_eq_Done simp del: kwhile.simps)
  moreover have "under (beside p0 msg0 shell) (all_hashed p0 msg0 md5 files) (kthen (?loop # ?last) (kret 0) s1)"
    by (rule under_kthen[where m = ?loop, OF loop]) (use application_ends[OF _ _ assms(3,4)] in simp)
  ultimately show ?thesis by simp
qed

lemma dialogue_done:
  assumes "starting p0 mem argv files s" "CHR ''y'' \<in> set (stdIn s)"
    "\<And>s. starting p0 mem argv files s \<Longrightarrow> under (beside p0 msg0 shell) Q (m s)"
  shows "under (beside p0 msg0 shell) Q (dialogue pid_text m s)"
proof -
  let ?out = "stdOut s @ (''This process pid is: '' @ pid_text @ [CHR 0x0A]) @ ''To continue type '' @ [CHR 0x27, CHR ''y'', CHR 0x27, CHR 0x0A]"
  let ?u = "s\<lparr>stdOut := ?out, waits := Waits_input\<rparr>"
  have "dialogue pid_text m s = Yield ?u (\<lambda>s'. obind
      ((case skip_to_y (stdIn s') of None \<Rightarrow> kfault Diverges | Some cs \<Rightarrow> kmod (\<lambda>s. s\<lparr>stdIn := cs\<rparr>)) s') (\<lambda>_. m))"
    by (simp add: dialogue_def printf_h_def wait_for_y_def blocks_def)
  moreover have "under (beside p0 msg0 shell) Q (obind
      ((case skip_to_y (stdIn s') of None \<Rightarrow> kfault Diverges | Some cs \<Rightarrow> kmod (\<lambda>s. s\<lparr>stdIn := cs\<rparr>)) s') (\<lambda>_. m))"
    if b: "beside p0 msg0 shell ?u s'" for s'
  proof -
    have "starting p0 mem argv files s'" by (rule starting_beside[OF _ b]) (use assms(1) in \<open>simp add: starting_local\<close>)
    then have st: "starting p0 mem argv files (s'\<lparr>stdIn := cs\<rparr>)" for cs by (simp add: starting_local)
    have "stdIn s' = stdIn s" using b by (auto simp: beside_def)
    then obtain cs where "skip_to_y (stdIn s') = Some cs" using skip_to_y_finds assms(2) by fastforce
    then show ?thesis using assms(3)[OF st] by simp
  qed
  moreover have "\<exists>s'. beside p0 msg0 shell ?u s'" by (rule starting_quiet) (use assms(1) in \<open>simp_all add: starting_local\<close>)
  ultimately show ?thesis by simp
qed

lemma main_parts:
  "kthen [initializeSemaphore sid, changeSemaphore 1 sid (- 1),
     printf_h (''This process pid is: '' @ pid_text @ [CHR 0x0A]),
     printf_h (''To continue type '' @ [CHR 0x27, CHR ''y'', CHR 0x27, CHR 0x0A]),
     wait_for_y, createSlaves NUM_OF_SLAVES, parseFileList argv,
     kwhile n (\<lambda>s. finishedFiles s \<noteq> numOfFiles s) (application_round junk mem sid),
     changeSemaphore 0 sid (- 1), shm_put mem 0 (CHR 0xFF), changeSemaphore 0 sid 1, stopSlaves,
     destroyMemory mid mem, destroySemaphore sid] (kret 0) =
   kthen [initializeSemaphore sid, changeSemaphore 1 sid (- 1)] (dialogue pid_text (work n junk argv mem mid sid))"
  by (simp only: dialogue_def work_def kthen.simps)

text \<open>Everything in front of the first semaphore operation.\<close>

lemma main_begins:
  assumes "host_ready argv s"
  shows "\<exists>u id sid. application_main n junk pid_text argv s =
      Yield u (\<lambda>s'. dialogue pid_text (work n junk argv (shmat_result s) id sid)
        (if semRemoved s' \<or> semval s' 1 + - 1 < 0 then s' else s'\<lparr>semval := (semval s')(1 := semval s' 1 + - 1)\<rparr>)) \<and>
    waits u \<noteq> Waits_select \<and> starting (nextPipe s) (shmat_result s) argv (regular s argv) u \<and> CHR ''y'' \<in> set (stdIn u)"
proof -
  note H = assms[unfolded host_ready_def]
  obtain fd where fd: "lowest_fd (fdt s) = Some fd" "0 \<le> fd" "fd \<le> 3" using H lowest_fd_free[of 3 "fdt s"] by auto
  let ?s1 = "s\<lparr>numOfFiles := 0, distributedFiles := 0, finishedFiles := 0, sharedMemoryIndex := 1, readFds := (\<lambda>_. False),
    fdt := (fdt s)(fd := Some OtherFile), outFile := []\<rparr>"
  let ?s2 = "?s1\<lparr>shmAttached := True, shm := (shm s)(0 := NUL), semval := (semval s)(0 := 1, 1 := 1)\<rparr>"
  let ?u = "?s2\<lparr>waits := Waits_sem 1 1\<rparr>"
  let ?id = "shmget_result s (ownPid s)" and ?sid = "semget_result s (ownPid s)"
  have "application_main n junk pid_text argv s =
      Yield ?u (\<lambda>s'. dialogue pid_text (work n junk argv (shmat_result s) ?id ?sid)
        (if semRemoved s' \<or> semval s' 1 + - 1 < 0 then s' else s'\<lparr>semval := (semval s')(1 := semval s' 1 + - 1)\<rparr>))"
    unfolding application_main_def main_parts using H fd(1)
    by (simp add: fopen_h_def generateSharedMemory_def Let_def shm_put_def shm_ok_def SHMSIZE_def
        generateSemaphore_def initializeSemaphore_def setval_h_def changeSemaphore_def semop_h_def blocks_def)
  moreover have "starting (nextPipe s) (shmat_result s) argv (regular s argv) ?u"
    using H fd by (simp add: starting_def regular_def rp_def wp_def)
  moreover have "CHR ''y'' \<in> set (stdIn ?u)" "waits ?u \<noteq> Waits_select" using H by simp_all
  ultimately show ?thesis by blast
qed

text \<open>C5: a whole run.\<close>

theorem application_hashes_all:
  assumes "host_ready argv s" "hashes shell md5 (regular s argv)" "length (regular s argv) < n"
    "length msg0 = MAX_FILENAME" "length junk = MAX_FILENAME + MD5_LENGTH + 2"
  shows "under (beside (nextPipe s) msg0 shell) (all_hashed (nextPipe s) msg0 md5 (regular s argv))
    (application_main n junk pid_text argv s)"
proof -
  obtain u mid sid where main: "application_main n junk pid_text argv s =
      Yield u (\<lambda>s'. dialogue pid_text (work n junk argv (shmat_result s) mid sid)
        (if semRemoved s' \<or> semval s' 1 + - 1 < 0 then s' else s'\<lparr>semval := (semval s')(1 := semval s' 1 + - 1)\<rparr>))"
    "waits u \<noteq> Waits_select" "starting (nextPipe s) (shmat_result s) argv (regular s argv) u" "CHR ''y'' \<in> set (stdIn u)"
    using main_begins[OF assms(1)] by blast
  have "under (beside (nextPipe s) msg0 shell) (all_hashed (nextPipe s) msg0 md5 (regular s argv))
      (dialogue pid_text (work n junk argv (shmat_result s) mid sid)
        (if semRemoved s' \<or> semval s' 1 + - 1 < 0 then s' else s'\<lparr>semval := (semval s')(1 := semval s' 1 + - 1)\<rparr>))"
    if b: "beside (nextPipe s) msg0 shell u s'" for s'
  proof (rule dialogue_done)
    show "starting (nextPipe s) (shmat_result s) argv (regular s argv)
        (if semRemoved s' \<or> semval s' 1 + - 1 < 0 then s' else s'\<lparr>semval := (semval s')(1 := semval s' 1 + - 1)\<rparr>)"
      using starting_beside[OF main(3) b] by (simp add: starting_local)
    have "stdIn s' = stdIn u" using b by (auto simp: beside_def)
    then show "CHR ''y'' \<in> set (stdIn
        (if semRemoved s' \<or> semval s' 1 + - 1 < 0 then s' else s'\<lparr>semval := (semval s')(1 := semval s' 1 + - 1)\<rparr>))"
      using main(4) by simp
  qed (rule work_done[OF _ assms(3,2,4,5)])
  then show ?thesis unfolding main(1) using starting_quiet[OF main(3,2)] by simp
qed

definition ex_app :: app where
  "ex_app = hstate.extend ex_host \<lparr>slaves = (\<lambda>_. \<lparr>sl_pid = 0, sl_readFd = 0, sl_writeFd = 0, sl_remainingFiles = 0\<rparr>), slaveCount = 0,
     readFds = (\<lambda>_. False), maxFd = 0, filenames = (\<lambda>_. []), filenamesCap = 0, numOfFiles = 0, distributedFiles = 0,
     finishedFiles = 0, sharedMemoryIndex = 0\<rparr>"

definition ex_md5 :: "string \<Rightarrow> string" where "ex_md5 f = replicate MD5_LENGTH (CHR ''0'')"

definition ex_shell :: "string \<Rightarrow> char list" where
  "ex_shell c = sum_line (ex_md5 (drop 7 c)) (drop 7 c) @ [NL]"

lemma application_hashes_all_witness:
  "under (beside 0 (replicate 256 NUL) ex_shell) (all_hashed 0 (replicate 256 NUL) ex_md5 [''a''])
    (application_main 2 (replicate 290 NUL) ''10'' [''app'', ''a'', ''d''] ex_app)"
proof -
  have 1: "host_ready [''app'', ''a'', ''d''] ex_app" by (simp add: host_ready_def ex_app_def ex_host_def hstate.defs)
  have 2: "regular ex_app [''app'', ''a'', ''d''] = [''a'']" by (simp add: regular_def ex_app_def ex_host_def hstate.defs)
  have 3: "hashes ex_shell ex_md5 [''a'']"
    by (simp add: hashes_def name_ok_def hash_ok_def ex_md5_def ex_shell_def NL_def MAX_FILENAME_def STOP_CODE_def MD5_LENGTH_def)
  have 4: "nextPipe ex_app = 0" by (simp add: ex_app_def ex_host_def hstate.defs)
  show ?thesis
    using application_hashes_all[of "[''app'', ''a'', ''d'']" ex_app ex_shell ex_md5 2 "replicate 256 NUL" "replicate 290 NUL" "''10''"]
    by (simp add: 1 2 3 4 MAX_FILENAME_def MD5_LENGTH_def)
qed

end
