(* ===== verification/ViewProps.thy ===== *)
theory ViewProps
  imports SlaveProps
begin

text \<open>
  The viewer beside the application: what it prints is a beginning of the messages in their order, and it ends; but it ends
  without the rest when the application is done before it.
\<close>

section \<open>The application as the viewer sees it\<close>

text \<open>\<open>posted\<close> counts the messages the application has put in the segment; the viewer does not see it.\<close>

record vstate = hstate +
  posted :: nat

definition stream :: "string list \<Rightarrow> char list" where
  "stream ms = concat (map (\<lambda>m. m @ [NUL]) ms)"

lemma stream_simps [simp]: "stream [] = []" "stream (ms @ [m]) = stream ms @ m @ [NUL]" "stream (m # ms) = m @ NUL # stream ms"
  by (simp_all add: stream_def)

definition holds :: "(int \<Rightarrow> char) \<Rightarrow> char list \<Rightarrow> bool" where
  "holds m bs \<longleftrightarrow> (\<forall>j < length bs. m (int j + 1) = bs ! j)"

text \<open>
  Whenever the viewer waits the application may post more of the messages \<open>ms\<close>, one unit of semaphore 1 for each, and at the
  end mark byte 0 and remove the semaphores.
\<close>

definition posting :: "string list \<Rightarrow> vstate \<Rightarrow> vstate \<Rightarrow> bool" where
  "posting ms s s' \<longleftrightarrow> (\<exists>m v r p. s' = s\<lparr>shm := m, semval := v, semRemoved := r, posted := p\<rparr> \<and>
     posted s \<le> p \<and> p \<le> length ms \<and> v 1 = semval s 1 + int (p - posted s) \<and>
     holds m (stream (take p ms)) \<and> (semRemoved s \<longrightarrow> r) \<and> (r \<longrightarrow> m 0 = CHR 0xFF) \<and>
     (case waits s of Waits_sem n k \<Rightarrow> r \<or> k \<le> v n | _ \<Rightarrow> True))"

text \<open>\<open>c\<close> units were taken and \<open>t\<close> messages printed.\<close>

definition viewing :: "string list \<Rightarrow> int \<Rightarrow> string \<Rightarrow> nat \<Rightarrow> nat \<Rightarrow> vstate \<Rightarrow> bool" where
  "viewing ms mem out c t s \<longleftrightarrow> shmAttached s \<and> shmat_result s = mem \<and> posted s \<le> length ms \<and>
     (semRemoved s \<or> 0 \<le> semval s 1 \<and> semval s 1 + int c = int (posted s)) \<and>
     stdOut s = out @ concat (map (\<lambda>m. m @ [NL]) (take t ms))"

definition messages_ok :: "string list \<Rightarrow> bool" where
  "messages_ok ms \<longleftrightarrow> (\<forall>m\<in>set ms. NUL \<notin> set m) \<and> int (length (stream ms)) < SHMSIZE"

lemma holds_take: "holds m (bs @ cs) \<Longrightarrow> holds m bs"
  by (auto simp: holds_def nth_append)

lemma view_message_prints:
  assumes "NUL \<notin> set t" "shmAttached s" "shmat_result s = mem" "0 \<le> i" "i + int (length t) < SHMSIZE"
    "\<forall>j < length t. shm s (i + int j) = t ! j" "shm s (i + int (length t)) = NUL" "length t < n"
  shows "view_message n mem i s = Done (i + int (length t) + 1) (s\<lparr>stdOut := stdOut s @ t\<rparr>)"
  using assms
proof (induction t arbitrary: n i s)
  case Nil
  then show ?case by (cases n) (auto simp: shm_get_def shm_ok_def)
next
  case (Cons c t)
  obtain n' where n: "n = Suc n'" using Cons.prems(8) by (cases n) auto
  have c: "shm s i = c" "c \<noteq> NUL" using Cons.prems(1,6) by auto
  have rest: "\<forall>j < length t. shm s (i + 1 + int j) = t ! j"
  proof (intro allI impI)
    fix j assume "j < length t"
    then show "shm s (i + 1 + int j) = t ! j" using Cons.prems(6)[rule_format, of "Suc j"] by (simp add: algebra_simps)
  qed
  have "view_message n' mem (i + 1) (s\<lparr>stdOut := stdOut s @ [c]\<rparr>) =
      Done (i + 1 + int (length t) + 1) (s\<lparr>stdOut := (stdOut s @ [c]) @ t\<rparr>)"
    using Cons.IH[of "s\<lparr>stdOut := stdOut s @ [c]\<rparr>" "i + 1" n'] Cons.prems rest n by (simp add: algebra_simps)
  then show ?case using c Cons.prems(2-5) by (simp add: n shm_get_def shm_ok_def printf_h_def algebra_simps)
qed

lemma viewing_posting:
  assumes "viewing ms mem out c t s" "posting ms (s\<lparr>waits := w\<rparr>) s'"
  shows "viewing ms mem out c t s'" "holds (shm s') (stream (take (posted s') ms))" "semRemoved s' \<Longrightarrow> shm s' 0 = CHR 0xFF"
    "w = Waits_sem n k \<Longrightarrow> semRemoved s' \<or> k \<le> semval s' n" "semRemoved s \<Longrightarrow> semRemoved s'"
  using assms by (auto simp: viewing_def posting_def)

lemma posting_goes_on:
  assumes "viewing ms mem out c t s"
  shows "\<exists>s'. posting ms (s\<lparr>waits := w\<rparr>) s'"
proof -
  define m where "m = (\<lambda>i :: int. if i = 0 then CHR 0xFF else stream ms ! nat (i - 1))"
  have "holds m (stream (take (length ms) ms))" by (simp add: holds_def m_def)
  moreover have "m 0 = CHR 0xFF" by (simp add: m_def)
  ultimately have "posting ms (s\<lparr>waits := w\<rparr>) (s\<lparr>waits := w, shm := m,
      semval := (semval s)(1 := semval s 1 + int (length ms - posted s)), semRemoved := True, posted := length ms\<rparr>)"
    using assms unfolding posting_def viewing_def
    by (intro exI[of _ m] exI[of _ "(semval s)(1 := semval s 1 + int (length ms - posted s))"] exI[of _ True] exI[of _ "length ms"])
      (auto split: waits.splits)
  then show ?thesis by blast
qed

definition take_units :: "int \<Rightarrow> vstate \<Rightarrow> vstate" where
  "take_units n s = (if semRemoved s \<or> semval s n + - 1 < 0 then s else s\<lparr>semval := (semval s)(n := semval s n + - 1)\<rparr>)"

lemma semop_yields:
  "changeSemaphore n sid (- 1) s = Yield (s\<lparr>waits := Waits_sem n 1\<rparr>) (\<lambda>s'. Done () (take_units n s'))"
  by (simp add: changeSemaphore_def semop_h_def blocks_def take_units_def fun_eq_iff)

lemma viewing_take:
  assumes "viewing ms mem out c t s" "semRemoved s \<or> 1 \<le> semval s n"
  shows "viewing ms mem out (if n = 1 then Suc c else c) t (take_units n s)" "shm (take_units n s) = shm s"
    "posted (take_units n s) = posted s" "semRemoved (take_units n s) = semRemoved s"
  using assms by (auto simp: viewing_def take_units_def)

text \<open>One round, from the unit taken on.\<close>

lemma view_round_prints:
  assumes "viewing ms mem out (Suc t) t s" "\<not> semRemoved s" "shm s 0 \<noteq> CHR 0xFF" "messages_ok ms"
    "holds (shm s) (stream (take (posted s) ms))" "index = 1 + int (length (stream (take t ms)))"
  shows "t < length ms" "\<exists>s'. shm_get mem 0 s = Done (shm s 0) s \<and>
    view_message (nat (SHMSIZE - index) + 1) mem index s = Done (1 + int (length (stream (take (Suc t) ms)))) (s\<lparr>stdOut := stdOut s @ ms ! t\<rparr>)"
proof -
  have V: "shmAttached s" "shmat_result s = mem" "posted s \<le> length ms" "0 \<le> semval s 1" "semval s 1 + int (Suc t) = int (posted s)"
    using assms(1,2) by (auto simp: viewing_def)
  then have t: "t < posted s" by linarith
  then show less: "t < length ms" using V(3) by simp
  let ?pre = "stream (take t ms)" and ?m = "ms ! t"
  have split: "take (posted s) ms = take t ms @ ?m # drop (Suc t) (take (posted s) ms)"
    using t V(3) by (metis Cons_nth_drop_Suc append_take_drop_id length_take min.absorb2 min.strict_order_iff nth_take take_take min.absorb1 less_imp_le)
  have app: "stream (xs @ ys) = stream xs @ stream ys" for xs ys by (simp add: stream_def)
  have "stream (take (posted s) ms) = (?pre @ ?m @ [NUL]) @ stream (drop (Suc t) (take (posted s) ms))"
    by (subst split) (simp add: app)
  then have h: "holds (shm s) (?pre @ ?m @ [NUL])" using assms(5) holds_take by metis
  have "stream ms = (?pre @ ?m @ [NUL]) @ stream (drop (Suc t) ms)"
    using less by (metis app id_take_nth_drop stream_simps(3) append.assoc append_Cons append_Nil)
  then have bound: "int (length ?pre + length ?m + 1) < SHMSIZE" using assms(4) by (simp add: messages_ok_def)
  have at: "shm s (index + int j) = (?m @ [NUL]) ! j" if "j < length ?m + 1" for j
  proof -
    have i: "index + int j = int (length ?pre + j) + 1" by (simp add: assms(6))
    have "shm s (int (length ?pre + j) + 1) = (?pre @ ?m @ [NUL]) ! (length ?pre + j)"
      using h[unfolded holds_def, rule_format, of "length ?pre + j"] that by simp
    then show ?thesis unfolding i by simp
  qed
  have "view_message (nat (SHMSIZE - index) + 1) mem index s = Done (index + int (length ?m) + 1) (s\<lparr>stdOut := stdOut s @ ?m\<rparr>)"
  proof (rule view_message_prints)
    show "NUL \<notin> set ?m" using assms(4) less by (auto simp: messages_ok_def)
    show "\<forall>j < length ?m. shm s (index + int j) = ?m ! j" using at by (simp add: nth_append)
    show "shm s (index + int (length ?m)) = NUL" using at[of "length ?m"] by simp
  qed (use V(1,2) bound assms(6) in \<open>simp_all add: nat_less_iff\<close>)
  moreover have "index + int (length ?m) + 1 = 1 + int (length (stream (take (Suc t) ms)))"
    using less by (simp add: assms(6) take_Suc_conv_app_nth)
  ultimately show "\<exists>s'. shm_get mem 0 s = Done (shm s 0) s \<and>
    view_message (nat (SHMSIZE - index) + 1) mem index s = Done (1 + int (length (stream (take (Suc t) ms)))) (s\<lparr>stdOut := stdOut s @ ms ! t\<rparr>)"
    using V(1,2) by (simp add: shm_get_def shm_ok_def SHMSIZE_def)
qed

definition printed_some :: "string list \<Rightarrow> string \<Rightarrow> int \<Rightarrow> vstate \<Rightarrow> bool" where
  "printed_some ms out r s \<longleftrightarrow> r = 0 \<and> (\<exists>k \<le> length ms. stdOut s = out @ concat (map (\<lambda>m. m @ [NL]) (take k ms)))"

text \<open>A turn of the loop: what it does once it holds both semaphores, then the wait for the second one,
  given that the turns after it print what they should.\<close>

lemma view_turn_prints:
  assumes s: "viewing ms mem out (if semRemoved s then c else Suc t) t s" "holds (shm s) (stream (take (posted s) ms))"
      "semRemoved s \<Longrightarrow> shm s 0 = CHR 0xFF"
    and "messages_ok ms" "t \<le> length ms" "index = 1 + int (length (stream (take t ms)))"
    and rest: "\<And>s. viewing ms mem out (Suc t) (Suc t) s \<Longrightarrow> t < length ms \<Longrightarrow> under (posting ms)
      (\<lambda>_. printed_some ms out 0) (loop (1 + int (length (stream (take (Suc t) ms)))) s)"
  shows "under (posting ms) (\<lambda>_. printed_some ms out 0) (kbind (shm_get mem 0) (\<lambda>c. if c \<noteq> CHR 0xFF
    then kbind (view_message (nat (SHMSIZE - index) + 1) mem index) (\<lambda>index. kthen [printf_h [CHR 0x0A], changeSemaphore 0 sid 1]
      (loop index))
    else changeSemaphore 0 sid 1) s)"
proof (cases "shm s 0 = CHR 0xFF")
  case True
  have "shm_get mem 0 s = Done (CHR 0xFF) s" using s(1) True by (simp add: viewing_def shm_get_def shm_ok_def SHMSIZE_def)
  then show ?thesis using s(1) assms(5)
    by (auto simp: changeSemaphore_def semop_h_def printed_some_def viewing_def)
next
  case False
  then have r: "\<not> semRemoved s" using s(3) by blast
  then have v: "viewing ms mem out (Suc t) t s" using s(1) by simp
  note p = view_round_prints[OF v r False assms(4) s(2) assms(6)]
  let ?s = "s\<lparr>stdOut := stdOut s @ ms ! t @ [CHR 0x0A], semval := (if semval s 0 + 1 < 0 then semval s else (semval s)(0 := semval s 0 + 1))\<rparr>"
  have "viewing ms mem out (Suc t) (Suc t) ?s"
    using v r p(1) by (simp add: viewing_def take_Suc_conv_app_nth NL_def)
  then have "under (posting ms) (\<lambda>_. printed_some ms out 0) (loop (1 + int (length (stream (take (Suc t) ms)))) ?s)"
    using p(1) by (rule rest)
  then show ?thesis using p(2) False r by (auto simp: printf_h_def changeSemaphore_def semop_h_def)
qed

lemma view_wait_turn:
  assumes s: "viewing ms mem out (if semRemoved s then t else Suc t) t s"
    and turn: "\<And>s. viewing ms mem out (if semRemoved s then t else Suc t) t s \<Longrightarrow> holds (shm s) (stream (take (posted s) ms)) \<Longrightarrow>
      (semRemoved s \<Longrightarrow> shm s 0 = CHR 0xFF) \<Longrightarrow> under (posting ms) Q (body s)"
  shows "under (posting ms) Q (kthen [changeSemaphore 0 sid (- 1)] body s)"
proof -
  have "under (posting ms) Q (body (take_units 0 s'))" if b: "posting ms (s\<lparr>waits := Waits_sem 0 1\<rparr>) s'" for s'
  proof (rule turn)
    note n = viewing_posting[OF s b]
    have u: "semRemoved s' \<or> 1 \<le> semval s' 0" using n(4) by simp
    note tk = viewing_take[OF n(1) u]
    show "holds (shm (take_units 0 s')) (stream (take (posted (take_units 0 s')) ms))" using n(2) tk by simp
    show "semRemoved (take_units 0 s') \<Longrightarrow> shm (take_units 0 s') 0 = CHR 0xFF" using n(3) tk by simp
    show "viewing ms mem out (if semRemoved (take_units 0 s') then t else Suc t) t (take_units 0 s')"
      using tk(1,4) n(5) by (cases "semRemoved s") (auto simp: viewing_def)
  qed
  then show ?thesis using posting_goes_on[OF s] by (simp add: semop_yields)
qed

lemma view_loop_prints:
  assumes "viewing ms mem out t t s" "messages_ok ms" "t \<le> length ms" "length ms - t < n"
    "index = 1 + int (length (stream (take t ms)))"
  shows "under (posting ms) (\<lambda>_. printed_some ms out 0) (view_loop n mem sid index s)"
  using assms
proof (induction n arbitrary: t s index)
  case 0
  then show ?case by simp
next
  case (Suc n)
  have rest: "under (posting ms) (\<lambda>_. printed_some ms out 0) (view_loop n mem sid (1 + int (length (stream (take (Suc t) ms)))) s)"
    if "viewing ms mem out (Suc t) (Suc t) s" "t < length ms" for s
    by (rule Suc.IH[OF that(1)]) (use Suc.prems that(2) in auto)
  note turn = view_turn_prints[where loop = "view_loop n mem sid", OF _ _ _ Suc.prems(2,3,5) rest]
  let ?body = "kbind (shm_get mem 0) (\<lambda>c. if c \<noteq> CHR 0xFF
    then kbind (view_message (nat (SHMSIZE - index) + 1) mem index) (\<lambda>index. kthen [printf_h [CHR 0x0A], changeSemaphore 0 sid 1]
      (view_loop n mem sid index))
    else changeSemaphore 0 sid 1)"
  have "under (posting ms) (\<lambda>_. printed_some ms out 0) (kthen [changeSemaphore 0 sid (- 1)] ?body (take_units 1 s'))"
    if b: "posting ms (s\<lparr>waits := Waits_sem 1 1\<rparr>) s'" for s'
  proof (rule view_wait_turn)
    note n = viewing_posting[OF Suc.prems(1) b]
    have u: "semRemoved s' \<or> 1 \<le> semval s' 1" using n(4) by simp
    show "viewing ms mem out (if semRemoved (take_units 1 s') then t else Suc t) t (take_units 1 s')"
      using viewing_take(1,4)[OF n(1) u] by (auto simp: viewing_def)
  qed (rule turn)
  then show ?case using posting_goes_on[OF Suc.prems(1)] by (simp add: semop_yields[of 1] del: kthen.simps(2)[of "changeSemaphore 0 _ _"])
qed

section \<open>The viewer\<close>

definition view_ready :: "string list \<Rightarrow> string list \<Rightarrow> vstate \<Rightarrow> bool" where
  "view_ready argv ms s \<longleftrightarrow> 2 \<le> length argv \<and> shmget_result s (atoi (argv ! 1)) \<noteq> - 1 \<and> shmat_result s \<noteq> 0 \<and>
     shmat_result s \<noteq> - 1 \<and> semget_result s (atoi (argv ! 1)) \<noteq> - 1 \<and> posted s \<le> length ms \<and>
     0 \<le> semval s 1 \<and> semval s 1 = int (posted s)"

text \<open>C25: the viewer.\<close>

theorem view_prints_prefix:
  assumes "view_ready argv ms s" "messages_ok ms" "length ms < n"
  shows "under (posting ms) (printed_some ms (stdOut s)) (view_main n argv s)"
proof -
  let ?s = "s\<lparr>shmAttached := True\<rparr>" and ?sid = "semget_result s (atoi (argv ! 1))"
  let ?loop = "view_loop n (shmat_result s) ?sid 1"
  have "viewing ms (shmat_result s) (stdOut s) 0 0 ?s" using assms(1) by (simp add: viewing_def view_ready_def)
  then have "under (posting ms) (\<lambda>_ s'. printed_some ms (stdOut s) 0 s') (?loop ?s)"
    by (rule view_loop_prints) (use assms in simp_all)
  then have "under (posting ms) (printed_some ms (stdOut s))
      (obind (?loop ?s) (\<lambda>_. kthen [detachMemory (shmat_result s), destroySemaphore ?sid] (kret 0)))"
    by (rule under_obind) (simp add: detachMemory_def destroySemaphore_def rmid_h_def printed_some_def)
  moreover have "view_main n argv s = obind (?loop ?s) (\<lambda>_. kthen [detachMemory (shmat_result s), destroySemaphore ?sid] (kret 0))"
    using assms(1) by (simp add: view_main_def view_ready_def generateSharedMemory_def generateSemaphore_def Let_def kbind_def)
  ultimately show ?thesis by simp
qed

text \<open>
  When the application has marked the end, a viewer that comes to byte 0 prints nothing more, however many messages are posted.
\<close>

theorem view_stops_early:
  assumes "shmAttached s" "shmat_result s = mem" "shm s 0 = CHR 0xFF" "holds (shm s) (stream ms)" "posted s = length ms"
  shows "under (\<lambda>s s'. s' = s) (\<lambda>_ s'. stdOut s' = stdOut s \<and> holds (shm s') (stream ms)) (view_loop (Suc n) mem sid index s)"
  using assms
  by (simp add: changeSemaphore_def semop_h_def blocks_def shm_get_def shm_ok_def SHMSIZE_def)

section \<open>Example\<close>

lemma view_prints_prefix_witness:
  "under (posting [''a: 1'', ''b: 2'']) (printed_some [''a: 1'', ''b: 2''] [])
    (view_main 3 [''view'', ''10''] (hstate.extend (ex_host\<lparr>semval := (\<lambda>_. 0)\<rparr>) \<lparr>posted = 0\<rparr>))"
  using view_prints_prefix[of "[''view'', ''10'']" "[''a: 1'', ''b: 2'']" "hstate.extend (ex_host\<lparr>semval := (\<lambda>_. 0)\<rparr>) \<lparr>posted = 0\<rparr>" 3]
  by (simp add: view_ready_def messages_ok_def ex_host_def hstate.defs SHMSIZE_def stream_def)

lemma view_stops_early_witness:
  "under (\<lambda>s s'. s' = s) (\<lambda>_ s'. stdOut s' = [] \<and> holds (shm s') (stream [''a: 1'']))
    (view_loop (Suc 0) 4096 5 1 (hstate.extend
      (ex_host\<lparr>shmAttached := True, shm := (\<lambda>i. if i = 0 then CHR 0xFF else if i \<le> 4 then ''a: 1'' ! nat (i - 1) else NUL)\<rparr>)
      \<lparr>posted = 1\<rparr>))"
  using view_stops_early[of "hstate.extend
      (ex_host\<lparr>shmAttached := True, shm := (\<lambda>i. if i = 0 then CHR 0xFF else if i \<le> 4 then ''a: 1'' ! nat (i - 1) else NUL)\<rparr>)
      \<lparr>posted = 1\<rparr>" 4096 "[''a: 1'']" 0 5 1]
  by (simp add: ex_host_def hstate.defs holds_def stream_def nth_append All_less_Suc numeral_eq_Suc)

end
