(* ===== verification/HashTest.thy ===== *)
theory HashTest
  imports HashApp
begin

text \<open>
  \<open>test.c\<close>: the tests of the application.  Its globals \<open>slaves\<close>, \<open>readFds\<close>, \<open>maxFd\<close>, \<open>distributedFiles\<close> and \<open>numOfFiles\<close> are the
  fields of \<open>app\<close>; an array of names that is handed to the functions under test is \<open>filenames\<close>.  \<open>inputfilenames\<close> is
  the list of its two entries, \<open>None\<close> for NULL.
\<close>

definition assert_h :: "bool \<Rightarrow> unit A" where
  "assert_h b = (if b then kskip else exit_h 134)"

definition givenFiles :: "string option list \<Rightarrow> int \<times> string option list" where
  "givenFiles inputfilenames = (1, inputfilenames[0 := Some ''test.c''])"

definition givenArgvFiles :: "string option list \<Rightarrow> int \<times> string option list" where
  "givenArgvFiles inputfilenames = (2, inputfilenames[1 := Some ''test.c''])"

definition givenAnAmountOfSlaves :: nat where
  "givenAnAmountOfSlaves = NUM_OF_SLAVES"

definition whenSlaveISCreated :: "nat \<Rightarrow> unit A" where
  "whenSlaveISCreated numOfSlaves = kdo [kmod (\<lambda>s. s\<lparr>readFds := (\<lambda>_. False)\<rparr>), createSlaves numOfSlaves]"

definition thenSlavesAreSuccsesfullyCreated :: "unit A" where
  "thenSlavesAreSuccsesfullyCreated = kdo [
     kfor 0 NUM_OF_SLAVES (\<lambda>i. with_slave i (\<lambda>sl. assert_h (sl_pid sl \<noteq> 0))),
     printf_h (''Slave creation is ok! :)'' @ [CHR 0x0A])]"

text \<open>The names \<open>distributeFiles\<close> gets: the entries in front of the first NULL, which it must not read.\<close>

definition pass_names :: "string option list \<Rightarrow> unit A" where
  "pass_names inputfilenames = (let names = map the (takeWhile (\<lambda>x. x \<noteq> None) inputfilenames) in
     kmod (\<lambda>s. s\<lparr>filenames := (\<lambda>i. names ! nat i), filenamesCap := int (length names)\<rparr>))"

primrec check_answers :: "nat \<Rightarrow> int \<Rightarrow> char list \<Rightarrow> int \<Rightarrow> (app, int \<times> char list) K" where
  "check_answers 0 i message count = kret (count, message)"
| "check_answers (Suc n) i message count = with_slave i (\<lambda>sl. kwith (\<lambda>s.
     if readFds s (sl_readFd sl)
     then kbind (readLine sl message) (\<lambda>(got, message).
       if got then kthen [assert_h (hd message \<noteq> NUL)] (check_answers n (i + 1) message (count + 1))
       else check_answers n (i + 1) message count)
     else check_answers n (i + 1) message count))"

definition thenSlaveComunicationIsChecked :: "string option list \<Rightarrow> int \<Rightarrow> unit A" where
  "thenSlaveComunicationIsChecked inputfilenames amountOfFiles = kdo [
     pass_names inputfilenames,
     distributeFiles amountOfFiles,
     blocks Waits_input,
     select_h,
     kbind (check_answers NUM_OF_SLAVES 0 (replicate (MAX_FILENAME + MD5_LENGTH + 3) NUL) 0) (\<lambda>(count, message). kdo [
       assert_h (count = 1),
       printf_h (''Slave comunication is ok! :)'' @ [CHR 0x0A])])]"

definition thenSlaveSuccess :: "unit A" where
  "thenSlaveSuccess = stopSlaves"

text \<open>\<open>parseFileList\<close> reads the entries behind the first one, which is NULL only in the first.\<close>

definition whenFilesParsedToString :: "int \<Rightarrow> string option list \<Rightarrow> unit A" where
  "whenFilesParsedToString amountOfFiles inputfilenames = (if None \<in> set (tl (take (nat amountOfFiles) inputfilenames))
     then kfault NullDeref
     else parseFileList (map (\<lambda>x. case x of Some f \<Rightarrow> f | None \<Rightarrow> []) (take (nat amountOfFiles) inputfilenames)))"

definition thenCheckIsNotNull :: "unit A" where
  "thenCheckIsNotNull = printf_h (''Check if not NULL is ok! :)'' @ [CHR 0x0A])"

definition thenCheckAreTheSameGiven :: "string option list \<Rightarrow> unit A" where
  "thenCheckAreTheSameGiven inputfilenames = kdo [
     with_filename 0 (\<lambda>f. case inputfilenames ! 1 of None \<Rightarrow> kfault NullDeref | Some g \<Rightarrow> assert_h (f = g)),
     printf_h (''Chek if both are equal is ok! :)'' @ [CHR 0x0A])]"

definition testSlaves :: "string option list \<Rightarrow> string option list A" where
  "testSlaves inputfilenames = (let (amountOfFiles, inputfilenames) = givenFiles inputfilenames in kthen [
     whenSlaveISCreated givenAnAmountOfSlaves,
     thenSlavesAreSuccsesfullyCreated,
     thenSlaveComunicationIsChecked inputfilenames amountOfFiles,
     thenSlaveSuccess]
     (kret inputfilenames))"

definition testFileParser :: "string option list \<Rightarrow> unit A" where
  "testFileParser inputfilenames = (let (amountOfFiles, inputfilenames) = givenArgvFiles inputfilenames in kdo [
     whenFilesParsedToString amountOfFiles inputfilenames,
     thenCheckIsNotNull,
     thenCheckAreTheSameGiven inputfilenames])"

definition test_main :: "int A" where
  "test_main = kthen [
     kmod (\<lambda>s. s\<lparr>numOfFiles := 0, distributedFiles := 0\<rparr>),
     printf_h (''Test Slaves:'' @ [CHR 0x0A]),
     kbind (testSlaves [None, None]) (\<lambda>inputfilenames. kdo [
       printf_h (''Test File Parser: '' @ [CHR 0x0A]),
       testFileParser inputfilenames])]
     (kret 0)"

end
