(* ===== verification/Cinema.thy ===== *)
theory Cinema
  imports KMonad
begin

text \<open>
  \<open>src/TP4\<close>: the sockets and the database of the cinema server.  SQLite is not part of the program: its interface is a
  record of functions on a state \<open>'w\<close> of the world, with handles \<open>'h\<close> and statements \<open>'st\<close>; a NULL handle is \<open>None\<close>.
\<close>

section \<open>database.c\<close>

record ('w, 'h, 'st) sqlite =
  sq_open :: "string \<Rightarrow> 'w \<Rightarrow> 'h option \<times> 'w"
  sq_close :: "'h option \<Rightarrow> 'w \<Rightarrow> int \<times> 'w"
  sq_exec :: "'h option \<Rightarrow> string \<Rightarrow> 'w \<Rightarrow> int \<times> 'w"
  sq_prepare :: "'h option \<Rightarrow> string \<Rightarrow> 'w \<Rightarrow> int \<times> 'st \<times> 'w"
  sq_bind_text :: "'st \<Rightarrow> nat \<Rightarrow> string \<Rightarrow> 'w \<Rightarrow> int \<times> 'w"
  sq_bind_int :: "'st \<Rightarrow> nat \<Rightarrow> int \<Rightarrow> 'w \<Rightarrow> int \<times> 'w"
  sq_step :: "'st \<Rightarrow> 'w \<Rightarrow> int \<times> 'w"
  sq_finalize :: "'st \<Rightarrow> 'w \<Rightarrow> int \<times> 'w"

definition DB_OK :: int where "DB_OK = 0"
definition DB_ERROR :: int where "DB_ERROR = - 1"
definition SQLITE_OK :: int where "SQLITE_OK = 0"
definition SQLITE_DONE :: int where "SQLITE_DONE = 101"
definition CINEMA_DB :: string where "CINEMA_DB = ''cinema.db''"

text \<open>The static variable \<open>database\<close> and the world.\<close>

type_synonym ('w, 'h, 'a) D = "'h option \<times> 'w \<Rightarrow> 'a \<times> 'h option \<times> 'w"

definition dbOpen :: "('w, 'h, 'st) sqlite \<Rightarrow> ('w, 'h, int) D" where
  "dbOpen api = (\<lambda>(database, w).
     if database \<noteq> None then (DB_OK, database, w)
     else let (database, w) = sq_open api CINEMA_DB w in
       if database = None then (DB_ERROR, database, w)
       else let (foreignKey, w) = sq_exec api database ''PRAGMA foreign_keys = ON'' w in
         if foreignKey \<noteq> SQLITE_OK then (DB_ERROR, database, w) else (DB_OK, database, w))"

definition dbClose :: "('w, 'h, 'st) sqlite \<Rightarrow> ('w, 'h, unit) D" where
  "dbClose api = (\<lambda>(database, w). let (v, w) = sq_close api database w in
     if v = SQLITE_OK then ((), None, w) else ((), database, w))"

definition tables_query :: string where
  "tables_query =
    ''create table if not exists movies(    name text primary key,    description text,  );  '' @
    ''  create table if not exists screenings(    id int primary key autoincrement,    movieName  text,'' @
    ''    time datetime(),    theater int check(theater >= 1),    unique(time, theater),'' @
    ''    foreign key(movieName) references movies(name) on delete cascade  );  '' @
    ''  create table if not exists reservations(    client text,    screeningId int,    seat int,'' @
    ''    primary key(screeningId, seat),    foreign key(screeningId) references screenings(id) on delete cascade  );  '' @
    ''  create table if not exists cancellations(    client text,    screeningId int,    seat int,'' @
    ''    primary key(screeningId, seat),    foreign key(screeningId) references screenings(id) on delete cascade  );''"

definition createTables :: "('w, 'h, 'st) sqlite \<Rightarrow> ('w, 'h, unit) D" where
  "createTables api = (\<lambda>(database, w). let (_, w) = sq_exec api database tables_query w in ((), database, w))"

text \<open>The results of the bind calls and of \<open>sqlite3_finalize\<close> are not looked at.\<close>

definition newMovie :: "('w, 'h, 'st) sqlite \<Rightarrow> string \<Rightarrow> string \<Rightarrow> ('w, 'h, int) D" where
  "newMovie api name description = (\<lambda>(database, w).
     let (v, statement, w) = sq_prepare api database ''insert into movies values ('%s', '%s');'' w in
     if v \<noteq> SQLITE_OK then (DB_ERROR, database, w)
     else let (_, w) = sq_bind_text api statement 1 name w;
       (_, w) = sq_bind_text api statement 2 description w;
       (v, w) = sq_step api statement w;
       (_, w) = sq_finalize api statement w in
       (if v \<noteq> SQLITE_DONE then DB_ERROR else DB_OK, database, w))"

definition newScreening :: "('w, 'h, 'st) sqlite \<Rightarrow> string \<Rightarrow> string \<Rightarrow> int \<Rightarrow> ('w, 'h, int) D" where
  "newScreening api movie dateTime theater = (\<lambda>(database, w).
     let (v, statement, w) = sq_prepare api database ''insert into screenings values ('%s', '%s', %d);'' w in
     if v \<noteq> SQLITE_OK then (DB_ERROR, database, w)
     else let (_, w) = sq_bind_text api statement 1 movie w;
       (_, w) = sq_bind_text api statement 2 dateTime w;
       (_, w) = sq_bind_int api statement 3 theater w;
       (v, w) = sq_step api statement w;
       (_, w) = sq_finalize api statement w in
       (if v \<noteq> SQLITE_DONE then DB_ERROR else DB_OK, database, w))"

definition deleteMovie :: "('w, 'h, 'st) sqlite \<Rightarrow> string \<Rightarrow> ('w, 'h, int) D" where
  "deleteMovie api name = (\<lambda>(database, w).
     let (v, statement, w) = sq_prepare api database ''delete from movies where name = '%s';'' w;
       (v, w) = (if v = SQLITE_OK
         then let (_, w) = sq_bind_text api statement 1 name w;
           (v, w) = sq_step api statement w;
           (_, w) = sq_finalize api statement w in (v, w)
         else (v, w)) in
     (if v \<noteq> SQLITE_DONE then DB_ERROR else DB_OK, database, w))"

section \<open>sockets.c\<close>

text \<open>
  The results of the socket calls are fields of the state; \<open>accept\<close> and \<open>read\<close> wait for the other side.  An address is
  the bytes of \<open>sin_addr\<close> with the port in network order.
\<close>

record sockaddr_in =
  sin_family :: int
  sin_port :: nat
  s_addr :: "nat list"

record socket_t =
  fileDescriptor :: int
  sock_address :: sockaddr_in

record net =
  socket_result :: int
  mallocOk :: bool
  hosts :: "string \<Rightarrow> nat list option"
  bind_result :: "int \<Rightarrow> sockaddr_in \<Rightarrow> int"
  listen_result :: "int \<Rightarrow> int \<Rightarrow> int"
  accept_result :: int
  connect_result :: "int \<Rightarrow> sockaddr_in \<Rightarrow> int"
  closed :: "int list"
  sent_bytes :: "(int \<times> char list) list"
  write_result :: int
  incoming_bytes :: "int \<Rightarrow> char list option"

type_synonym 'a N = "(net, 'a) K"

definition AF_INET :: int where "AF_INET = 2"
definition MAX_CONNECTIONS :: int where "MAX_CONNECTIONS = 5"
definition SOCKET_BIND_ERROR :: int where "SOCKET_BIND_ERROR = - 1"
definition SOCKET_LISTEN_ERROR :: int where "SOCKET_LISTEN_ERROR = - 2"
definition SOCKET_CONNECTION_ERROR :: int where "SOCKET_CONNECTION_ERROR = - 3"

text \<open>\<open>htons\<close> on the little-endian host.\<close>

definition htons :: "nat \<Rightarrow> nat" where
  "htons port = (port mod 256) * 256 + (port div 256) mod 256"

definition openSocket :: "string option \<Rightarrow> nat \<Rightarrow> socket_t option N" where
  "openSocket host port = kwith (\<lambda>s.
     if socket_result s < 0 then kret None
     else if \<not> mallocOk s then kret None
     else let address = \<lparr>sin_family = AF_INET, sin_port = htons port, s_addr = [0, 0, 0, 0]\<rparr> in
       case host of
         None \<Rightarrow> kret (Some \<lparr>fileDescriptor = socket_result s, sock_address = address\<lparr>s_addr := [0, 0, 0, 0]\<rparr>\<rparr>)
       | Some h \<Rightarrow> (case hosts s h of
           None \<Rightarrow> kret None
         | Some bytes \<Rightarrow> kret (Some \<lparr>fileDescriptor = socket_result s, sock_address = address\<lparr>s_addr := bytes\<rparr>\<rparr>)))"

definition with_sock :: "socket_t option \<Rightarrow> (socket_t \<Rightarrow> 'a N) \<Rightarrow> 'a N" where
  "with_sock sock f = (case sock of None \<Rightarrow> kfault NullDeref | Some k \<Rightarrow> f k)"

definition bindSocket :: "socket_t option \<Rightarrow> int N" where
  "bindSocket sock = with_sock sock (\<lambda>k. kwith (\<lambda>s.
     if bind_result s (fileDescriptor k) (sock_address k) < 0 then kret SOCKET_BIND_ERROR
     else if listen_result s (fileDescriptor k) MAX_CONNECTIONS < 0 then kret SOCKET_LISTEN_ERROR
     else kret 0))"

definition acceptSocket :: "socket_t option \<Rightarrow> int N" where
  "acceptSocket sock = with_sock sock (\<lambda>k. kthen [kgiveup] (kwith (\<lambda>s. kret (accept_result s))))"

definition closeConnection :: "int \<Rightarrow> unit N" where
  "closeConnection fd = kmod (\<lambda>s. s\<lparr>closed := closed s @ [fd]\<rparr>)"

definition connectSocket :: "socket_t option \<Rightarrow> int N" where
  "connectSocket sock = with_sock sock (\<lambda>k. kwith (\<lambda>s.
     if connect_result s (socket_result s) (sock_address k) < 0 then kret SOCKET_CONNECTION_ERROR
     else kret (socket_result s)))"

text \<open>What is received: at most \<open>n\<close> bytes for the buffer, and their number; \<open>None\<close> is an error.\<close>

definition socketRecieve :: "int \<Rightarrow> nat \<Rightarrow> (int \<times> char list) N" where
  "socketRecieve connection n = kthen [kgiveup] (kwith (\<lambda>s. case incoming_bytes s connection of
      None \<Rightarrow> kret (- 1, [])
    | Some bs \<Rightarrow> kthen [kmod (\<lambda>s. s\<lparr>incoming_bytes := (incoming_bytes s)(connection := Some (drop n bs))\<rparr>)]
        (kret (int (length (take n bs)), take n bs))))"

definition socketSend :: "int \<Rightarrow> char list \<Rightarrow> int N" where
  "socketSend connection bytes = kthen [kmod (\<lambda>s. s\<lparr>sent_bytes := sent_bytes s @ [(connection, bytes)]\<rparr>)]
     (kwith (\<lambda>s. kret (write_result s)))"

section \<open>server.c\<close>

definition server_main :: "int N" where
  "server_main = kbind (openSocket (Some ''movies'') 1337) (\<lambda>socket.
     kbind (bindSocket socket) (\<lambda>_.
     kbind (acceptSocket socket) (\<lambda>connection.
     kbind (socketSend connection (''Heyy'' @ [NUL])) (\<lambda>_.
     kret 0))))"

section \<open>Statements are finalized\<close>

text \<open>
  With any count of the statements that are prepared and not yet finalized that follows SQLite's documentation, no
  operation leaves a statement behind, also not when it fails; and an open database is not opened again.
\<close>

definition counts :: "('w, 'h, 'st) sqlite \<Rightarrow> ('w \<Rightarrow> nat) \<Rightarrow> bool" where
  "counts api live \<longleftrightarrow>
     (\<forall>h q w. let (v, st, w') = sq_prepare api h q w in live w' = (if v = SQLITE_OK then Suc (live w) else live w)) \<and>
     (\<forall>st w. live (snd (sq_finalize api st w)) = live w - 1) \<and>
     (\<forall>st n s w. live (snd (sq_bind_text api st n s w)) = live w) \<and>
     (\<forall>st n i w. live (snd (sq_bind_int api st n i w)) = live w) \<and>
     (\<forall>st w. live (snd (sq_step api st w)) = live w)"

lemma operations_finalize:
  assumes "counts api live"
  shows "live (snd (snd (newMovie api name description (db, w)))) = live w"
    "live (snd (snd (newScreening api name description theater (db, w)))) = live w"
    "live (snd (snd (deleteMovie api name (db, w)))) = live w"
proof -
  have fin: "\<forall>st w. live (snd (sq_finalize api st w)) = live w - 1"
    and txt_ok: "\<forall>st n s w. live (snd (sq_bind_text api st n s w)) = live w"
    and int: "\<forall>st n i w. live (snd (sq_bind_int api st n i w)) = live w"
    and step: "\<forall>st w. live (snd (sq_step api st w)) = live w"
    using assms by (simp_all add: counts_def)
  have p: "live w' = (if v = SQLITE_OK then Suc (live w) else live w)" if "sq_prepare api h q w = (v, st, w')" for h q w v st w'
    using assms[unfolded counts_def, THEN conjunct1, rule_format, of h q w] that by simp
  have f: "live w' = live w - 1" if "sq_finalize api st w = (v, w')" for st w v w'
    using fin[rule_format, of st w] that by simp
  have t: "live w' = live w" if "sq_bind_text api st n s w = (v, w')" for st n s w v w'
    using txt_ok[rule_format, of st n s w] that by simp
  have i: "live w' = live w" if "sq_bind_int api st n s w = (v, w')" for st n s w v w'
    using int[rule_format, of st n s w] that by simp
  have s: "live w' = live w" if "sq_step api st w = (v, w')" for st w v w'
    using step[rule_format, of st w] that by simp
  show "live (snd (snd (newMovie api name description (db, w)))) = live w"
    by (auto simp: newMovie_def Let_def split: prod.splits dest!: p f t s)
  show "live (snd (snd (newScreening api name description theater (db, w)))) = live w"
    by (auto simp: newScreening_def Let_def split: prod.splits dest!: p f t i s)
  show "live (snd (snd (deleteMovie api name (db, w)))) = live w"
    by (auto simp: deleteMovie_def Let_def split: prod.splits if_splits dest!: p f t s)
qed

lemma dbOpen_again: "dbOpen api (database, w) = (DB_OK, database', w') \<Longrightarrow> dbOpen api (database', w'') = (DB_OK, database', w'')"
  by (auto simp: dbOpen_def Let_def DB_OK_def DB_ERROR_def split: if_splits prod.splits)

end
