(* ===== verification/Pipes.thy ===== *)
theory Pipes
  imports Process
begin

text \<open>
  \<open>Kernel/pipes.c\<close>: named byte pipes over a one-page ring buffer, with a semaphore that counts the
  free cells, one that counts the filled ones, and a mutex around the indices.
\<close>

definition with_pipe :: "int \<Rightarrow> (pipe_t \<Rightarrow> 'a KS) \<Rightarrow> 'a KS" where
  "with_pipe i f = kwith (\<lambda>s. if in_range i MAX_PIPES then f (pipes s i) else kfault OutOfBounds)"

definition upd_pipe :: "int \<Rightarrow> (pipe_t \<Rightarrow> pipe_t) \<Rightarrow> unit KS" where
  "upd_pipe i g = with_pipe i (\<lambda>p. kmod (\<lambda>s. s\<lparr>pipes := (pipes s)(i := g p)\<rparr>))"

definition poke :: "addr \<Rightarrow> char \<Rightarrow> unit KS" where
  "poke a c = kmod (\<lambda>s. s\<lparr>kmem := (kmem s)(a := c)\<rparr>)"

definition initializePipes :: "unit KS" where
  "initializePipes = kfor 0 (nat MAX_PIPES) (\<lambda>i. upd_pipe i (\<lambda>p.
     p\<lparr>p_readIndex := 0, p_writeIndex := 0, p_creator := \<lparr>tid_pid = 0, tid_thread = 0\<rparr>, p_used := False\<rparr>))"

definition isValidPipe :: "kstate \<Rightarrow> int \<Rightarrow> bool" where
  "isValidPipe s pipe = (if pipe < 0 \<or> pipe \<ge> MAX_PIPES then False else p_used (pipes s pipe))"

text \<open>The name field has 20 bytes and is written without its NUL; a longer name runs over the next fields.\<close>

primrec createPipe_loop :: "nat \<Rightarrow> killer \<Rightarrow> string \<Rightarrow> int \<Rightarrow> int \<Rightarrow> int \<Rightarrow> int KS" where
  "createPipe_loop 0 kt pipeName pid thread i = kret (-1)"
| "createPipe_loop (Suc n) kt pipeName pid thread i = with_pipe i (\<lambda>p.
     if \<not> p_used p then
       kthen [
         upd_pipe i (\<lambda>p. p\<lparr>p_creator := \<lparr>tid_pid = pid, tid_thread = thread\<rparr>\<rparr>),
         kchk (length pipeName \<le> NAME_LENGTH),
         upd_pipe i (\<lambda>p. p\<lparr>p_name := buf_write (p_name p) pipeName\<rparr>),
         upd_pipe i (\<lambda>p. p\<lparr>p_readIndex := 0, p_writeIndex := 0, p_used := True\<rparr>),
         kbind (createSemaphore kt pid (''PIPE_WRITE_'' @ dec_text (nat i)) thread) (\<lambda>sem.
           upd_pipe i (\<lambda>p. p\<lparr>p_semWrite := sem\<rparr>)),
         with_pipe i (\<lambda>p. setValue kt (p_semWrite p) PIPE_BUFFER_LENGTH),
         kbind (createSemaphore kt pid (''PIPE_READ_'' @ dec_text (nat i)) thread) (\<lambda>sem.
           upd_pipe i (\<lambda>p. p\<lparr>p_semRead := sem\<rparr>)),
         kbind (allocatePages kt PIPE_PAGES) (\<lambda>b. upd_pipe i (\<lambda>p. p\<lparr>p_buffer := b\<rparr>)),
         kbind (getMutex kt (''PIPE_MUTEX_'' @ dec_text (nat i)) pid thread) (\<lambda>m.
           upd_pipe i (\<lambda>p. p\<lparr>p_mutex := m\<rparr>))]
         (kret i)
     else createPipe_loop n kt pipeName pid thread (i + 1))"

definition createPipe :: "killer \<Rightarrow> string \<Rightarrow> int KS" where
  "createPipe kt pipeName = kbind getpid (\<lambda>pid. kbind getCurrentThread (\<lambda>thread.
     createPipe_loop (nat MAX_PIPES) kt pipeName pid thread 0))"

text \<open>\<open>strcmp\<close> of a name field without a NUL reads past it when all its bytes match.\<close>

primrec getPipe_loop :: "nat \<Rightarrow> string \<Rightarrow> int \<Rightarrow> int option KS" where
  "getPipe_loop 0 pipeName i = kret None"
| "getPipe_loop (Suc n) pipeName i = with_pipe i (\<lambda>p.
     kbind (kchk (NUL \<in> set (p_name p) \<or> take (length (p_name p)) pipeName \<noteq> p_name p)) (\<lambda>_.
     if cstr (p_name p) = pipeName \<and> p_used p then kret (Some i)
     else getPipe_loop n pipeName (i + 1)))"

definition getPipe :: "killer \<Rightarrow> string \<Rightarrow> int KS" where
  "getPipe kt pipeName = kbind (getPipe_loop (nat MAX_PIPES) pipeName 0) (\<lambda>r. case r of
     Some i \<Rightarrow> kret (i + 3)
   | None \<Rightarrow> kbind (createPipe kt pipeName) (\<lambda>i. kret (i + 3)))"

text \<open>\<open>n\<close> is the number of bytes left, \<open>i\<close> the index into the message.\<close>

primrec writePipe_loop :: "nat \<Rightarrow> killer \<Rightarrow> int \<Rightarrow> addr \<Rightarrow> nat \<Rightarrow> int \<Rightarrow> int \<Rightarrow> unit KS" where
  "writePipe_loop 0 kt pipe message i pid thread = kskip"
| "writePipe_loop (Suc n) kt pipe message i pid thread = kdo [
     with_pipe pipe (\<lambda>p. wait kt (p_semWrite p) pid thread),
     with_pipe pipe (\<lambda>p. mutexDown kt (p_mutex p) pid thread),
     with_pipe pipe (\<lambda>p. kwith (\<lambda>s.
       poke (p_buffer p + nat (p_writeIndex p)) (kmem s (message + i)))),
     upd_pipe pipe (\<lambda>p. if p_writeIndex p = PIPE_BUFFER_LENGTH then p\<lparr>p_writeIndex := 0\<rparr>
       else p\<lparr>p_writeIndex := p_writeIndex p + 1\<rparr>),
     with_pipe pipe (\<lambda>p. mutexUp (p_mutex p) pid thread),
     with_pipe pipe (\<lambda>p. signal kt (p_semRead p)),
     writePipe_loop n kt pipe message (i + 1) pid thread]"

definition writePipe :: "killer \<Rightarrow> int \<Rightarrow> addr \<Rightarrow> int \<Rightarrow> int \<Rightarrow> int \<Rightarrow> int KS" where
  "writePipe kt pipe message bytes pid thread = (let pipe = pipe - 3 in kwith (\<lambda>s.
     if \<not> isValidPipe s pipe then kret (-1)
     else if bytes < 0 then kfault Diverges
     else kthen [writePipe_loop (nat bytes) kt pipe message 0 pid thread] (kret 0)))"

primrec readPipe_loop :: "nat \<Rightarrow> killer \<Rightarrow> int \<Rightarrow> addr \<Rightarrow> nat \<Rightarrow> int \<Rightarrow> int \<Rightarrow> unit KS" where
  "readPipe_loop 0 kt pipe buffer i pid thread = kskip"
| "readPipe_loop (Suc n) kt pipe buffer i pid thread = kdo [
     with_pipe pipe (\<lambda>p. wait kt (p_semRead p) pid thread),
     with_pipe pipe (\<lambda>p. mutexDown kt (p_mutex p) pid thread),
     with_pipe pipe (\<lambda>p. kwith (\<lambda>s.
       poke (buffer + i) (kmem s (p_buffer p + nat (p_readIndex p))))),
     upd_pipe pipe (\<lambda>p. if p_readIndex p = PIPE_BUFFER_LENGTH then p\<lparr>p_readIndex := 0\<rparr>
       else p\<lparr>p_readIndex := p_readIndex p + 1\<rparr>),
     with_pipe pipe (\<lambda>p. mutexUp (p_mutex p) pid thread),
     with_pipe pipe (\<lambda>p. signal kt (p_semWrite p)),
     readPipe_loop n kt pipe buffer (i + 1) pid thread]"

definition readPipe :: "killer \<Rightarrow> int \<Rightarrow> addr \<Rightarrow> int \<Rightarrow> int \<Rightarrow> int \<Rightarrow> int KS" where
  "readPipe kt pipe buffer bytes pid thread = (let pipe = pipe - 3 in kwith (\<lambda>s.
     if \<not> isValidPipe s pipe then kret (-1)
     else if bytes < 0 then kfault Diverges
     else kthen [readPipe_loop (nat bytes) kt pipe buffer 0 pid thread] (kret 0)))"

definition deletePipe :: "killer \<Rightarrow> int \<Rightarrow> int \<Rightarrow> int \<Rightarrow> int KS" where
  "deletePipe kt pipe pid thread = kwith (\<lambda>s.
     if \<not> isValidPipe s pipe then kret (-1)
     else with_pipe pipe (\<lambda>p.
       if tid_pid (p_creator p) = pid \<and> tid_thread (p_creator p) = thread then
         kthen [
           kbind (freeMemory kt (p_buffer p)) (\<lambda>_. kskip),
           with_pipe pipe (\<lambda>p. kbind (releaseMutex kt (tid_pid (p_creator p)) (p_mutex p) (tid_thread (p_creator p))) (\<lambda>_. kskip)),
           with_pipe pipe (\<lambda>p. kbind (releaseSemaphore kt (tid_pid (p_creator p)) (p_semWrite p) (tid_thread (p_creator p))) (\<lambda>_. kskip)),
           with_pipe pipe (\<lambda>p. kbind (releaseSemaphore kt (tid_pid (p_creator p)) (p_semRead p) (tid_thread (p_creator p))) (\<lambda>_. kskip)),
           upd_pipe pipe (\<lambda>p. p\<lparr>p_used := False\<rparr>)]
           (kret 0)
       else kret (-1)))"

end
