(* ===== verification/Channels.thy ===== *)
theory Channels
  imports Process
begin

text \<open>
  \<open>Kernel/channels.c\<close>: message channels between two processes, kept in a linked list, each with one
  linked list of messages per direction and four semaphores.
\<close>

definition SIZEOF_CHANNEL :: nat where [consts_defs]: "SIZEOF_CHANNEL = 48"
definition SIZEOF_MESSAGE :: nat where [consts_defs]: "SIZEOF_MESSAGE = 24"

text \<open>
  Every node is a block of its own of the page allocator, so a list of more than \<open>PAGE_QUANTITY\<close> nodes is
  cyclic and walking it does not end.
\<close>

definition LIST_FUEL :: nat where "LIST_FUEL = PAGE_QUANTITY + 1"

definition with_chan :: "addr \<Rightarrow> (channelNode_t \<Rightarrow> 'a KS) \<Rightarrow> 'a KS" where
  "with_chan c f = kwith (\<lambda>s. case chans s c of None \<Rightarrow> kfault NullDeref | Some ch \<Rightarrow> f ch)"

definition upd_chan :: "addr \<Rightarrow> (channelNode_t \<Rightarrow> channelNode_t) \<Rightarrow> unit KS" where
  "upd_chan c g = with_chan c (\<lambda>ch. kmod (\<lambda>s. s\<lparr>chans := (chans s)(c \<mapsto> g ch)\<rparr>))"

definition with_msg :: "addr \<Rightarrow> (messageNode_t \<Rightarrow> 'a KS) \<Rightarrow> 'a KS" where
  "with_msg a f = kwith (\<lambda>s. case msgs s a of None \<Rightarrow> kfault NullDeref | Some m \<Rightarrow> f m)"

definition upd_msg :: "addr \<Rightarrow> (messageNode_t \<Rightarrow> messageNode_t) \<Rightarrow> unit KS" where
  "upd_msg a g = with_msg a (\<lambda>m. kmod (\<lambda>s. s\<lparr>msgs := (msgs s)(a \<mapsto> g m)\<rparr>))"

definition set_firstChannel :: "addr \<Rightarrow> unit KS" where
  "set_firstChannel a = kmod (\<lambda>s. s\<lparr>chs := (chs s)\<lparr>firstChannel := a\<rparr>\<rparr>)"

definition initializeChannels :: "unit KS" where
  "initializeChannels = kbind (createMutex 0 ''_CHANNEL_MUTEX_'' 0) (\<lambda>m.
     kmod (\<lambda>s. s\<lparr>chs := (chs s)\<lparr>channelMutex := m\<rparr>\<rparr>))"

section \<open>The list of channels\<close>

definition channelBelongsToPids :: "channelNode_t \<Rightarrow> int \<Rightarrow> int \<Rightarrow> bool" where
  "channelBelongsToPids ch pid1 pid2 \<longleftrightarrow>
     (ch_senderPid ch = pid1 \<and> ch_recipientPid ch = pid2) \<or> (ch_recipientPid ch = pid1 \<and> ch_senderPid ch = pid2)"

text \<open>The node found and the one before it (NULL at the head).\<close>

primrec find_channel :: "nat \<Rightarrow> int \<Rightarrow> int \<Rightarrow> addr \<Rightarrow> addr \<Rightarrow> (addr \<times> addr) KS" where
  "find_channel 0 pid1 pid2 previous node = kfault Diverges"
| "find_channel (Suc n) pid1 pid2 previous node =
     (if node = NULL then kret (previous, NULL)
      else with_chan node (\<lambda>ch.
        if \<not> channelBelongsToPids ch pid1 pid2 then find_channel n pid1 pid2 node (ch_nextChannel ch)
        else kret (previous, node)))"

definition getChannelFromList :: "int \<Rightarrow> int \<Rightarrow> addr KS" where
  "getChannelFromList recipientPid senderPid = kwith (\<lambda>s.
     kbind (find_channel LIST_FUEL senderPid recipientPid NULL (firstChannel (chs s))) (\<lambda>(previous, node).
       kret node))"

primrec last_channel :: "nat \<Rightarrow> addr \<Rightarrow> addr \<Rightarrow> addr KS" where
  "last_channel 0 previous next = kfault Diverges"
| "last_channel (Suc n) previous next =
     (if next \<noteq> NULL then with_chan next (\<lambda>ch. last_channel n next (ch_nextChannel ch))
      else kret previous)"

definition addChannelToList :: "addr \<Rightarrow> unit KS" where
  "addChannelToList newChannel = kwith (\<lambda>s. let fc = firstChannel (chs s) in
     if fc \<noteq> NULL then with_chan fc (\<lambda>ch.
       kbind (last_channel LIST_FUEL fc (ch_nextChannel ch)) (\<lambda>previous.
         upd_chan previous (\<lambda>p. p\<lparr>ch_nextChannel := newChannel\<rparr>)))
     else set_firstChannel newChannel)"

section \<open>Messages\<close>

primrec addMessageToList :: "nat \<Rightarrow> addr \<Rightarrow> addr \<Rightarrow> addr KS" where
  "addMessageToList 0 newMessage listHead = kfault Diverges"
| "addMessageToList (Suc n) newMessage listHead =
     (if listHead = NULL then kret newMessage
      else with_msg listHead (\<lambda>m.
        kbind (addMessageToList n newMessage (msg_next m)) (\<lambda>r.
        kthen [upd_msg listHead (\<lambda>m. m\<lparr>msg_next := r\<rparr>)] (kret listHead))))"

text \<open>\<open>popMessage(&head)\<close>: the message and the new value of the variable \<open>head\<close>.\<close>

definition popMessage :: "addr \<Rightarrow> (addr \<times> addr) KS" where
  "popMessage listHead =
     (if listHead = NULL then kret (NULL, NULL)
      else with_msg listHead (\<lambda>m. kret (listHead, msg_next m)))"

definition addMessageToChannel :: "addr \<Rightarrow> addr \<Rightarrow> int \<Rightarrow> int \<Rightarrow> int KS" where
  "addMessageToChannel newMessage channel recipientPid senderPid = with_chan channel (\<lambda>ch.
     if channelBelongsToPids ch recipientPid senderPid then
       (if ch_recipientPid ch = recipientPid
        then kbind (addMessageToList LIST_FUEL newMessage (ch_senderToRecipient ch)) (\<lambda>l.
          kthen [upd_chan channel (\<lambda>ch. ch\<lparr>ch_senderToRecipient := l\<rparr>)] (kret 1))
        else kbind (addMessageToList LIST_FUEL newMessage (ch_recipientToSender ch)) (\<lambda>l.
          kthen [upd_chan channel (\<lambda>ch. ch\<lparr>ch_recipientToSender := l\<rparr>)] (kret 1)))
     else kret SEND_MESSAGE_ERROR)"

text \<open>The head popped is the local variable \<open>aux\<close>; the channel keeps its list.\<close>

definition getNextMessageForPid :: "addr \<Rightarrow> int \<Rightarrow> addr KS" where
  "getNextMessageForPid channel pid = with_chan channel (\<lambda>ch.
     let aux = (if pid = ch_recipientPid ch then ch_senderToRecipient ch else ch_recipientToSender ch) in
     kbind (popMessage aux) (\<lambda>(m, aux). kret m))"

definition deleteMessage :: "killer \<Rightarrow> addr \<Rightarrow> addr KS" where
  "deleteMessage kt start = with_msg start (\<lambda>m.
     kbind (freeMemory kt (msg_content m)) (\<lambda>_.
     with_msg start (\<lambda>m. let aux = msg_next m in
     kbind (freeMemory kt start) (\<lambda>_. kret aux))))"

primrec deleteMessages :: "nat \<Rightarrow> killer \<Rightarrow> addr \<Rightarrow> unit KS" where
  "deleteMessages 0 kt start = kfault Diverges"
| "deleteMessages (Suc n) kt start =
     (if start \<noteq> NULL then kbind (deleteMessage kt start) (\<lambda>next. deleteMessages n kt next) else kskip)"

section \<open>Creating and deleting channels\<close>

definition generateChannelMutexName :: "int \<Rightarrow> int \<Rightarrow> bool \<Rightarrow> string" where
  "generateChannelMutexName senderPid recipientPid send =
     (if send then ''chS'' else ''chR'')
     @ dec_text (to_uint64 senderPid) @ '';'' @ dec_text (to_uint64 recipientPid)"

text \<open>\<open>return newChannel\<close> for an existing channel leaves \<open>channelMutex\<close> taken.\<close>

definition createChannel :: "killer \<Rightarrow> int \<Rightarrow> int \<Rightarrow> addr KS" where
  "createChannel kt senderPid recipientPid = kbind getCurrentThread (\<lambda>thread.
     kbind (kwith (\<lambda>s. mutexDown kt (channelMutex (chs s)) senderPid thread)) (\<lambda>_.
     kbind (getChannelFromList senderPid recipientPid) (\<lambda>old.
     if old \<noteq> NULL then kret old
     else kbind (allocateMemory kt SIZEOF_CHANNEL) (\<lambda>c.
       kthen [
         if c \<noteq> NULL then kdo [
           kmod (\<lambda>s. s\<lparr>chans := (chans s)(c \<mapsto>
             \<lparr>ch_senderPid = senderPid, ch_recipientPid = recipientPid,
              ch_senderSendSem = 0, ch_recipientSendSem = 0, ch_senderReceiveSem = 0, ch_recipientReceiveSem = 0,
              ch_senderToRecipient = NULL, ch_recipientToSender = NULL, ch_nextChannel = NULL\<rparr>)\<rparr>),
           kbind (createSemaphore kt senderPid (generateChannelMutexName senderPid recipientPid True) 0)
             (\<lambda>sem. upd_chan c (\<lambda>ch. ch\<lparr>ch_senderSendSem := sem\<rparr>)),
           kbind (createSemaphore kt senderPid (generateChannelMutexName recipientPid senderPid True) 0)
             (\<lambda>sem. upd_chan c (\<lambda>ch. ch\<lparr>ch_recipientSendSem := sem\<rparr>)),
           kbind (createSemaphore kt senderPid (generateChannelMutexName senderPid recipientPid False) 0)
             (\<lambda>sem. upd_chan c (\<lambda>ch. ch\<lparr>ch_senderReceiveSem := sem\<rparr>)),
           kbind (createSemaphore kt senderPid (generateChannelMutexName recipientPid senderPid False) 0)
             (\<lambda>sem. upd_chan c (\<lambda>ch. ch\<lparr>ch_recipientReceiveSem := sem\<rparr>)),
           with_chan c (\<lambda>ch. setValue kt (ch_senderSendSem ch) (MAX_MESSAGES - 1)),
           with_chan c (\<lambda>ch. setValue kt (ch_recipientSendSem ch) (MAX_MESSAGES - 1)),
           addChannelToList c]
         else kskip,
         kwith (\<lambda>s. mutexUp (channelMutex (chs s)) senderPid thread)]
         (kret c)))))"

definition ignore :: "bool KS \<Rightarrow> unit KS" where
  "ignore m = kbind m (\<lambda>_. kskip)"

text \<open>\<open>deleteChannel\<close> calls \<open>removeChannelFromList\<close> again; \<open>rem\<close> is that call.\<close>

definition deleteChannel :: "(addr \<Rightarrow> unit KS) \<Rightarrow> killer \<Rightarrow> addr \<Rightarrow> unit KS" where
  "deleteChannel rem kt channel = kdo [
     rem channel,
     with_chan channel (\<lambda>ch. deleteMessages LIST_FUEL kt (ch_recipientToSender ch)),
     with_chan channel (\<lambda>ch. deleteMessages LIST_FUEL kt (ch_senderToRecipient ch)),
     with_chan channel (\<lambda>ch. ignore (releaseSemaphore kt (ch_senderPid ch) (ch_senderReceiveSem ch) 0)),
     with_chan channel (\<lambda>ch. ignore (releaseSemaphore kt (ch_recipientPid ch) (ch_recipientReceiveSem ch) 0)),
     with_chan channel (\<lambda>ch. ignore (releaseSemaphore kt (ch_senderPid ch) (ch_senderSendSem ch) 0)),
     with_chan channel (\<lambda>ch. ignore (releaseSemaphore kt (ch_recipientPid ch) (ch_recipientReceiveSem ch) 0)),
     ignore (freeMemory kt channel)]"

text \<open>Every nested call that recurses further has unlinked a node, so \<open>LIST_FUEL\<close> levels are enough.\<close>

primrec removeChannelFromList_rec :: "nat \<Rightarrow> killer \<Rightarrow> addr \<Rightarrow> unit KS" where
  "removeChannelFromList_rec 0 kt channel = kfault Diverges"
| "removeChannelFromList_rec (Suc n) kt channel =
     kbind getpid (\<lambda>pid. kbind getCurrentThread (\<lambda>thread. kdo [
       kwith (\<lambda>s. mutexDown kt (channelMutex (chs s)) pid thread),
       kwith (\<lambda>s. let fc = firstChannel (chs s) in
         if fc = NULL then kskip
         else with_chan channel (\<lambda>ch.
           kbind (find_channel LIST_FUEL (ch_senderPid ch) (ch_recipientPid ch) NULL fc) (\<lambda>(previous, node).
             if node \<noteq> NULL then kdo [
               if previous \<noteq> NULL
               then with_chan node (\<lambda>c. upd_chan previous (\<lambda>p. p\<lparr>ch_nextChannel := ch_nextChannel c\<rparr>))
               else set_firstChannel NULL,
               deleteChannel (removeChannelFromList_rec n kt) kt node]
             else kskip))),
       kwith (\<lambda>s. mutexUp (channelMutex (chs s)) pid thread)]))"

definition removeChannelFromList :: "killer \<Rightarrow> addr \<Rightarrow> unit KS" where
  "removeChannelFromList kt channel = removeChannelFromList_rec LIST_FUEL kt channel"

section \<open>Sending and receiving\<close>

definition unlockReceive :: "killer \<Rightarrow> int \<Rightarrow> addr \<Rightarrow> unit KS" where
  "unlockReceive kt senderPid channel = with_chan channel (\<lambda>ch.
     signal kt (if ch_senderPid ch = senderPid then ch_recipientReceiveSem ch else ch_senderReceiveSem ch))"

definition lockReceive :: "killer \<Rightarrow> int \<Rightarrow> addr \<Rightarrow> int \<Rightarrow> unit KS" where
  "lockReceive kt recipientPid channel thread = with_chan channel (\<lambda>ch.
     wait kt (if ch_recipientPid ch = recipientPid then ch_recipientReceiveSem ch else ch_senderReceiveSem ch)
       recipientPid thread)"

definition unlockSend :: "killer \<Rightarrow> int \<Rightarrow> addr \<Rightarrow> unit KS" where
  "unlockSend kt recipientPid channel = with_chan channel (\<lambda>ch.
     signal kt (if ch_recipientPid ch = recipientPid then ch_senderSendSem ch else ch_recipientSendSem ch))"

definition lockSend :: "killer \<Rightarrow> int \<Rightarrow> addr \<Rightarrow> int \<Rightarrow> unit KS" where
  "lockSend kt senderPid channel thread = with_chan channel (\<lambda>ch.
     wait kt (if ch_senderPid ch = senderPid then ch_senderSendSem ch else ch_recipientSendSem ch)
       senderPid thread)"

text \<open>\<open>memcpy\<close> into the kernel; a NULL block is only harmless when nothing is copied.\<close>

definition copy_to :: "addr \<Rightarrow> addr \<Rightarrow> nat \<Rightarrow> unit KS" where
  "copy_to d src n = (if n \<noteq> 0 \<and> (d = NULL \<or> src = NULL) then kfault NullDeref
     else kmod (\<lambda>s. s\<lparr>kmem := memcpy d src n (kmem s)\<rparr>))"

definition sendMessage :: "killer \<Rightarrow> int \<Rightarrow> addr \<Rightarrow> int \<Rightarrow> int KS" where
  "sendMessage kt recipientPid message len =
     kbind getpid (\<lambda>senderPid. kbind getCurrentThread (\<lambda>thread.
     kbind (allocateMemory kt SIZEOF_MESSAGE) (\<lambda>newMessage.
     if newMessage \<noteq> NULL then
       kbind (allocateMemory kt (to_uint64 len)) (\<lambda>c.
       kbind (kdo [
         kmod (\<lambda>s. s\<lparr>msgs := (msgs s)(newMessage \<mapsto> \<lparr>msg_length = len, msg_content = c, msg_next = NULL\<rparr>)\<rparr>),
         copy_to c message (to_uint64 len)]) (\<lambda>_.
       kbind (getChannelFromList recipientPid senderPid) (\<lambda>channel.
       if channel \<noteq> NULL then
         kthen [
           lockSend kt senderPid channel thread,
           kbind (addMessageToChannel newMessage channel recipientPid senderPid) (\<lambda>_. kskip),
           unlockReceive kt senderPid channel]
           (kret 0)
       else kbind (deleteMessage kt newMessage) (\<lambda>_. kret SEND_MESSAGE_ERROR))))
     else kret SEND_MESSAGE_ERROR)))"

definition receiveMessage :: "killer \<Rightarrow> int \<Rightarrow> int \<Rightarrow> addr KS" where
  "receiveMessage kt pid len =
     kbind getpid (\<lambda>recipientPid. kbind getCurrentThread (\<lambda>thread.
     kbind (getChannelFromList recipientPid pid) (\<lambda>channel.
     if channel \<noteq> NULL then
       kbind (lockReceive kt recipientPid channel thread) (\<lambda>_.
       kbind (getNextMessageForPid channel recipientPid) (\<lambda>message.
       with_msg message (\<lambda>m.
         let resultLength = (if len > msg_length m then msg_length m else len) in
         kbind (allocateMemory kt (to_uint64 len)) (\<lambda>result.
         kbind (with_msg message (\<lambda>m. copy_to result (msg_content m) (to_uint64 resultLength))) (\<lambda>_.
         kbind (deleteMessage kt message) (\<lambda>_.
         kthen [unlockSend kt recipientPid channel] (kret result)))))))
     else kret NULL)))"

end
