(* ===== verification/Timer.thy ===== *)
theory Timer
  imports Sched
begin

text \<open>
  \<open>Kernel/timer.c\<close>: sleeping threads as a linked list in a fixed table; every tick decrements all
  their counters and wakes those that reach 0.
\<close>

definition upd_tim :: "(timer_state \<Rightarrow> timer_state) \<Rightarrow> unit KS" where
  "upd_tim g = kmod (\<lambda>s. s\<lparr>tim := g (tim s)\<rparr>)"

definition with_sleeper :: "int \<Rightarrow> (sleepingThread_t \<Rightarrow> 'a KS) \<Rightarrow> 'a KS" where
  "with_sleeper i f = kwith (\<lambda>s.
     if in_range i MAX_SLEEPING_PROCESSES then f (sleepingProcesses (tim s) i) else kfault OutOfBounds)"

definition upd_sleeper :: "int \<Rightarrow> (sleepingThread_t \<Rightarrow> sleepingThread_t) \<Rightarrow> unit KS" where
  "upd_sleeper i g = with_sleeper i (\<lambda>x.
     upd_tim (\<lambda>c. c\<lparr>sleepingProcesses := (sleepingProcesses c)(i := g x)\<rparr>))"

lemmas timer_access_defs = upd_tim_def with_sleeper_def upd_sleeper_def

definition initializeTimer :: "unit KS" where
  "initializeTimer = kfor 0 (nat MAX_SLEEPING_PROCESSES) (\<lambda>i. upd_sleeper i (\<lambda>x. x\<lparr>sl_pid := NOT_USED\<rparr>))"

definition getNextAvailableSpace :: "timer_state \<Rightarrow> int" where
  "getNextAvailableSpace c = scan_or SLEEPING_PROCESS_LIMIT_REACHED
     (\<lambda>i. sl_pid (sleepingProcesses c i) = NOT_USED) (nat MAX_SLEEPING_PROCESSES)"

definition addSleepingProcess :: "int \<Rightarrow> int \<Rightarrow> 64 word \<Rightarrow> int KS" where
  "addSleepingProcess pid thread ticks = kwith (\<lambda>s.
     if sleeping (tim s) < MAX_SLEEPING_PROCESSES then
       let i = timerFirstAvailable (tim s) in
       kthen [
         upd_sleeper i (\<lambda>x. x\<lparr>sl_pid := pid\<rparr>),
         upd_sleeper i (\<lambda>x. x\<lparr>sl_thread := thread\<rparr>),
         upd_sleeper i (\<lambda>x. x\<lparr>tickQuantity := ticks\<rparr>),
         upd_sleeper i (\<lambda>x. x\<lparr>sl_next := firstSleeping (tim s)\<rparr>),
         upd_tim (\<lambda>c. c\<lparr>firstSleeping := i\<rparr>),
         upd_tim (\<lambda>c. c\<lparr>timerFirstAvailable := getNextAvailableSpace c\<rparr>),
         upd_tim (\<lambda>c. c\<lparr>sleeping := sleeping c + 1\<rparr>)]
         (kret 1)
     else kret SLEEPING_PROCESS_LIMIT_REACHED)"

definition sleep :: "64 word \<Rightarrow> int \<Rightarrow> int \<Rightarrow> unit KS" where
  "sleep milliseconds pid thread = (let ticks = milliseconds div 55 in
     kwhen (ticks > 0) [
       kbind (addSleepingProcess pid thread ticks) (\<lambda>_. kskip),
       changeThreadState pid thread SLEEPING,
       yield])"

text \<open>The loop bound \<open>sleeping\<close> is read in every round; a match decrements it and returns.\<close>

primrec removeSleepingProcess_loop :: "nat \<Rightarrow> int \<Rightarrow> int \<Rightarrow> int \<Rightarrow> int \<Rightarrow> int KS" where
  "removeSleepingProcess_loop 0 pid thread previous cur = kret SLEEPING_PROCESS_NOT_FOUND"
| "removeSleepingProcess_loop (Suc n) pid thread previous cur = with_sleeper cur (\<lambda>x.
     if sl_pid x = pid \<and> sl_thread x = thread then
       kthen [
         changeThreadState pid thread READY,
         upd_sleeper cur (\<lambda>x. x\<lparr>sl_pid := NOT_USED\<rparr>),
         with_sleeper cur (\<lambda>x. upd_sleeper previous (\<lambda>y. y\<lparr>sl_next := sl_next x\<rparr>)),
         upd_tim (\<lambda>c. c\<lparr>sleeping := sleeping c - 1\<rparr>),
         upd_tim (\<lambda>c. c\<lparr>timerFirstAvailable :=
           (if timerFirstAvailable c > cur then cur else timerFirstAvailable c)\<rparr>)]
         (kret 1)
     else removeSleepingProcess_loop n pid thread cur (sl_next x))"

definition removeSleepingProcess :: "int \<Rightarrow> int \<Rightarrow> int KS" where
  "removeSleepingProcess pid thread = kwith (\<lambda>s.
     removeSleepingProcess_loop (nat (sleeping (tim s))) pid thread (firstSleeping (tim s)) (firstSleeping (tim s)))"

text \<open>
  \<open>for(i = 0; i < sleeping; i++)\<close> in \<open>decrementTicks\<close> reads \<open>sleeping\<close> again in every round, and the
  body may decrement it.  At most \<open>MAX_SLEEPING_PROCESSES\<close> rounds run, which is the fuel.
\<close>

primrec decrementTicks_loop :: "nat \<Rightarrow> int \<Rightarrow> int \<Rightarrow> unit KS" where
  "decrementTicks_loop 0 i cur = kfault Diverges"
| "decrementTicks_loop (Suc n) i cur = kwith (\<lambda>s.
     if i < sleeping (tim s) then
       kdo [
         upd_sleeper cur (\<lambda>x. x\<lparr>tickQuantity := tickQuantity x - 1\<rparr>),
         with_sleeper cur (\<lambda>x.
           if tickQuantity x = 0
           then kbind (removeSleepingProcess (sl_pid x) (sl_thread x)) (\<lambda>_. kskip)
           else kskip),
         with_sleeper cur (\<lambda>x. decrementTicks_loop n (i + 1) (sl_next x))]
     else kskip)"

definition decrementTicks :: "unit KS" where
  "decrementTicks = kwith (\<lambda>s.
     decrementTicks_loop (nat MAX_SLEEPING_PROCESSES + 1) 0 (firstSleeping (tim s)))"

end
