(* ===== verification/Keyboard.thy ===== *)
theory Keyboard
  imports Process
begin

text \<open>
  \<open>Kernel/keyboard.c\<close> with the table of \<open>include/scanCodes.h\<close>: the modifier state, and what a scan
  code read from port \<open>0x60\<close> does with it.
\<close>

text \<open>\<open>scanCodes[4][0x80]\<close>: plain, shift, caps lock, shift with caps lock; the cells a row does not list are 0.\<close>

definition scanCodes_0 :: "char list" where
  "scanCodes_0 = 
    replicate 2 NUL @ ''1234567890'' @ [CHR 0x27] @ [NUL] @ [CHR 0x08] @ [CHR 0x09] @
    ''qwertyuiop'' @ [NUL] @ ''+'' @ [CHR 0x0A] @ [NUL] @ ''asdfghjkl'' @ [NUL] @ ''{|'' @ [NUL] @
    ''}zxcvbnm,.-'' @ [NUL] @ ''*'' @ [NUL] @ '' '' @ replicate 13 NUL @ ''789-456+1230.'' @
    replicate 2 NUL @ ''<'' @ replicate 41 NUL"

definition scanCodes_1 :: "char list" where
  "scanCodes_1 = 
    replicate 2 NUL @ ''!'' @ [CHR 0x22] @ ''#$%&/()=?'' @ [NUL] @ [CHR 0x08] @ [CHR 0x09] @
    ''QWERTYUIOP'' @ [NUL] @ ''*'' @ [CHR 0x0A] @ [NUL] @ ''ASDFGHJKL'' @ [NUL] @ ''['' @
    replicate 2 NUL @ '']ZXCVBNM;:_'' @ [NUL] @ ''*'' @ [NUL] @ '' '' @ replicate 13 NUL @
    ''789-456+1230.'' @ replicate 2 NUL @ ''>'' @ replicate 41 NUL"

definition scanCodes_2 :: "char list" where
  "scanCodes_2 = 
    replicate 2 NUL @ ''1234567890'' @ [CHR 0x27] @ [NUL] @ [CHR 0x08] @ [CHR 0x09] @
    ''QWERTYUIOP'' @ [NUL] @ ''+'' @ [CHR 0x0A] @ [NUL] @ ''ASDFGHJKL'' @ [NUL] @ ''{|'' @ [NUL] @
    ''}ZXCVBNM,.-'' @ [NUL] @ ''*'' @ [NUL] @ '' '' @ replicate 13 NUL @ ''789-456+1230.'' @
    replicate 2 NUL @ ''<'' @ replicate 41 NUL"

definition scanCodes_3 :: "char list" where
  "scanCodes_3 = 
    replicate 2 NUL @ ''!'' @ [CHR 0x22] @ ''#$%&/()=?'' @ [NUL] @ [CHR 0x08] @ [CHR 0x09] @
    ''qwertyuiop'' @ [NUL] @ ''*'' @ [CHR 0x0A] @ [NUL] @ ''asdfghjkl'' @ [NUL] @ ''['' @
    replicate 2 NUL @ '']zxcvbnm;:_'' @ [NUL] @ ''*'' @ [NUL] @ '' '' @ replicate 13 NUL @
    ''789-456+1230.'' @ replicate 2 NUL @ ''>'' @ replicate 41 NUL"

definition scanCodes :: "char list list" where
  "scanCodes = [scanCodes_0, scanCodes_1, scanCodes_2, scanCodes_3]"

section \<open>Constants of keyboard.h\<close>

definition SHIFT :: u8 where [consts_defs]: "SHIFT = 0x1"
definition NOT_SHIFT :: u8 where [consts_defs]: "NOT_SHIFT = 0x2"
definition MAYUS :: u8 where [consts_defs]: "MAYUS = 0x2"
definition LEFT_SHIFT_PRESS :: u8 where [consts_defs]: "LEFT_SHIFT_PRESS = 0x2A"
definition RIGHT_SHIFT_PRESS :: u8 where [consts_defs]: "RIGHT_SHIFT_PRESS = 0x36"
definition LEFT_SHIFT_RELEASE :: u8 where [consts_defs]: "LEFT_SHIFT_RELEASE = 0xAA"
definition RIGHT_SHIFT_RELEASE :: u8 where [consts_defs]: "RIGHT_SHIFT_RELEASE = 0xB6"
definition CAPSLOCK_PRESS :: u8 where [consts_defs]: "CAPSLOCK_PRESS = 0x3A"
definition CAPSLOCK_RELEASE :: u8 where [consts_defs]: "CAPSLOCK_RELEASE = 0xBA"
definition SPECIAL_KEY :: u8 where [consts_defs]: "SPECIAL_KEY = 0xE0"
definition CURSOR_LEFT :: u8 where [consts_defs]: "CURSOR_LEFT = 0x4B"
definition CURSOR_RIGHT :: u8 where [consts_defs]: "CURSOR_RIGHT = 0x4D"
definition CTRL_RELEASE :: u8 where [consts_defs]: "CTRL_RELEASE = 0x9D"
definition CTRL_PRESS :: u8 where [consts_defs]: "CTRL_PRESS = 0x1D"

section \<open>Scan codes\<close>

definition upd_kbd :: "(kbd_state \<Rightarrow> kbd_state) \<Rightarrow> unit KS" where
  "upd_kbd g = kmod (\<lambda>s. s\<lparr>kbd := g (kbd s)\<rparr>)"

text \<open>The part of \<open>parseSpecialKey\<close> that changes only the modifiers.\<close>

definition modifier_key :: "u8 \<Rightarrow> kbd_state \<Rightarrow> kbd_state" where
  "modifier_key scanCode k =
     (let k = k\<lparr>specialKey := False\<rparr>;
          release = (\<lambda>k. if \<not> (leftShift k \<or> rightShift k)
            then k\<lparr>shiftMayus := shiftMayus k AND NOT_SHIFT\<rparr> else k)
      in if scanCode = LEFT_SHIFT_PRESS then k\<lparr>leftShift := True, shiftMayus := shiftMayus k OR SHIFT\<rparr>
      else if scanCode = RIGHT_SHIFT_PRESS then k\<lparr>rightShift := True, shiftMayus := shiftMayus k OR SHIFT\<rparr>
      else if scanCode = LEFT_SHIFT_RELEASE then release (k\<lparr>leftShift := False\<rparr>)
      else if scanCode = RIGHT_SHIFT_RELEASE then release (k\<lparr>rightShift := False\<rparr>)
      else if scanCode = CAPSLOCK_PRESS then k\<lparr>shiftMayus := shiftMayus k XOR MAYUS\<rparr>
      else if scanCode = CTRL_PRESS then k\<lparr>ctrl := True\<rparr>
      else if scanCode = CTRL_RELEASE then k\<lparr>ctrl := False\<rparr>
      else k)"

definition parseSpecialKey :: "u8 \<Rightarrow> unit KS" where
  "parseSpecialKey scanCode = kdo [
     upd_kbd (modifier_key scanCode),
     if scanCode = CURSOR_LEFT then in_term keyboardLeft
     else if scanCode = CURSOR_RIGHT then in_term keyboardRight
     else kskip]"

definition is_modifier :: "u8 \<Rightarrow> bool" where
  "is_modifier scanCode \<longleftrightarrow> scanCode = LEFT_SHIFT_PRESS \<or> scanCode = LEFT_SHIFT_RELEASE
     \<or> scanCode = RIGHT_SHIFT_PRESS \<or> scanCode = RIGHT_SHIFT_RELEASE
     \<or> scanCode = CAPSLOCK_PRESS \<or> scanCode = CAPSLOCK_RELEASE
     \<or> scanCode = CTRL_PRESS \<or> scanCode = CTRL_RELEASE"

definition parseScanCode :: "killer \<Rightarrow> u8 \<Rightarrow> unit KS" where
  "parseScanCode kt scanCode = kwith (\<lambda>s. let k = kbd s in
     if specialKey k then parseSpecialKey scanCode
     else if is_modifier scanCode then parseSpecialKey scanCode
     else if scanCode = SPECIAL_KEY then upd_kbd (\<lambda>k. k\<lparr>specialKey := True\<rparr>)
     else if scanCode < 0x80 then
       (if 4 \<le> unat (shiftMayus k) then kfault OutOfBounds
        else let c = scanCodes ! unat (shiftMayus k) ! unat scanCode in
          if c \<noteq> NUL then
            (if ctrl k \<and> c = CHR ''c'' then killForeground kt else writeBuffer c)
          else kskip)
     else kskip)"

text \<open>\<open>keyboardHandler\<close> with the byte \<open>readPort(0x60)\<close> returns.\<close>

definition keyboardHandler :: "killer \<Rightarrow> u8 \<Rightarrow> unit KS" where
  "keyboardHandler kt input = parseScanCode kt input"

end
