(* ===== verification/Rtc.thy ===== *)
theory Rtc
  imports KState
begin

text \<open>
  \<open>Kernel/rtc.c\<close>: the real-time clock read through ports \<open>0x70\<close>/\<open>0x71\<close> (the field \<open>rtcPort\<close> gives the
  value of each register) and shifted to the time zone.
\<close>

definition SECONDS :: u8 where [consts_defs]: "SECONDS = 0x00"
definition MINUTES :: u8 where [consts_defs]: "MINUTES = 0x02"
definition HOURS :: u8 where [consts_defs]: "HOURS = 0x04"
definition DAY :: u8 where [consts_defs]: "DAY = 0x07"
definition MONTH :: u8 where [consts_defs]: "MONTH = 0x08"
definition YEAR :: u8 where [consts_defs]: "YEAR = 0x09"

definition daysPerMonth :: "int list" where
  "daysPerMonth = [31, 28, 31, 30, 31, 30, 31, 31, 30, 31, 30, 31]"

text \<open>\<open>None\<close>: an index outside the table.\<close>

definition days :: "int \<Rightarrow> int option" where
  "days month = (if 0 \<le> month - 1 \<and> month - 1 < 12 then Some (daysPerMonth ! nat (month - 1)) else None)"

record date =
  d_hours :: int
  d_day :: int
  d_month :: int
  d_year :: int

definition recalculate :: "int \<Rightarrow> date \<Rightarrow> date option" where
  "recalculate zone d =
     (let d = d\<lparr>d_hours := d_hours d + zone\<rparr> in
      if d_hours d < 0 then do {
        let d = d\<lparr>d_hours := d_hours d + 24, d_day := d_day d - 1\<rparr>;
        d \<leftarrow> (if d_day d < 0 then do {
               let d = d\<lparr>d_month := d_month d - 1\<rparr>;
               n \<leftarrow> days (d_month d);
               Some (d\<lparr>d_day := n\<rparr>) }
             else Some d);
        Some (if d_month d < 0 then d\<lparr>d_month := 12, d_year := d_year d - 1\<rparr> else d) }
      else if d_hours d > 24 then do {
        let d = d\<lparr>d_hours := d_hours d mod 24, d_day := d_day d + 1\<rparr>;
        n \<leftarrow> days (d_month d);
        let d = (if d_day d > n then d\<lparr>d_month := d_month d + 1, d_day := 1\<rparr> else d);
        Some (if d_month d > 12 then d\<lparr>d_month := 1, d_year := d_year d + 1\<rparr> else d) }
      else Some d)"

definition writePort :: "int \<Rightarrow> int \<Rightarrow> unit KS" where
  "writePort port v = kmod (\<lambda>s. s\<lparr>portLog := portLog s @ [(port, v)]\<rparr>)"

definition readRTC :: "u8 \<Rightarrow> int KS" where
  "readRTC r = kthen [writePort 0x70 (uint r)] (kwith (\<lambda>s. kret (uint (rtcPort s r))))"

definition getTime :: "u8 \<Rightarrow> u8 KS" where
  "getTime val =
     kbind (readRTC SECONDS) (\<lambda>seconds. kbind (readRTC MINUTES) (\<lambda>minutes. kbind (readRTC HOURS) (\<lambda>hours.
     kbind (readRTC DAY) (\<lambda>day. kbind (readRTC MONTH) (\<lambda>month. kbind (readRTC YEAR) (\<lambda>year.
     kwith (\<lambda>s. case recalculate (timeZone s) \<lparr>d_hours = hours, d_day = day, d_month = month, d_year = year\<rparr> of
       None \<Rightarrow> kfault OutOfBounds
     | Some d \<Rightarrow> kret (word_of_int (
         if val = SECONDS then seconds else if val = MINUTES then minutes
         else if val = HOURS then d_hours d else if val = DAY then d_day d
         else if val = MONTH then d_month d else if val = YEAR then d_year d
         else d_hours d)))))))))"

definition setTimeZone :: "int \<Rightarrow> unit KS" where
  "setTimeZone tz = kwhen (tz \<ge> -12 \<and> tz \<le> 14) [kmod (\<lambda>s. s\<lparr>timeZone := tz\<rparr>)]"

unbundle bit_operations_syntax

definition setupRTC :: "unit KS" where
  "setupRTC = kdo [
     writePort 0x70 0x0B,
     kwith (\<lambda>s. let status = rtcPort s 0x0B OR 6 in
       kdo [writePort 0x71 (uint status), kmod (\<lambda>s. s\<lparr>rtcPort := (rtcPort s)(0x0B := status)\<rparr>)])]"

end
