(* ===== verification/MMU.thy ===== *)
theory MMU
  imports Process Channels
begin

text \<open>
  \<open>Kernel/naiveConsole.c\<close>, \<open>Kernel/moduleLoader.c\<close> and \<open>Kernel/MMU.c\<close>: the boot console, the copying of
  the packed user modules to their addresses, the module table, and the arguments of new programs.
\<close>

section \<open>Boot console\<close>

text \<open>\<open>currentVideo\<close> is kept as a cell number: each character is followed by its unchanged style byte.\<close>

definition ncPrintChar :: "char \<Rightarrow> unit KS" where
  "ncPrintChar c = kdo [
     kwith (\<lambda>s. in_term (upd_cell 0 (ncCurrent s) (\<lambda>cell. cell\<lparr>cell_ch := c\<rparr>))),
     kmod (\<lambda>s. s\<lparr>ncCurrent := ncCurrent s + 1\<rparr>)]"

definition ncPrint :: "string \<Rightarrow> unit KS" where
  "ncPrint str = kdo (map ncPrintChar str)"

text \<open>\<open>do ncPrintChar(' ') while(column != 0)\<close> ends within one row.\<close>

primrec ncNewline_loop :: "nat \<Rightarrow> unit KS" where
  "ncNewline_loop 0 = kfault Diverges"
| "ncNewline_loop (Suc n) = kdo [
     ncPrintChar CHR '' '',
     kwith (\<lambda>s. if (2 * ncCurrent s) mod (WIDTH * 2) \<noteq> 0 then ncNewline_loop n else kskip)]"

definition ncNewline :: "unit KS" where
  "ncNewline = ncNewline_loop (nat WIDTH)"

definition ncPrintBase :: "nat \<Rightarrow> nat \<Rightarrow> unit KS" where
  "ncPrintBase value b = (case base_text value b of
     None \<Rightarrow> kfault Diverges
   | Some txt \<Rightarrow> if length txt < 64 then ncPrint txt else kfault OutOfBounds)"

definition ncPrintDec :: "nat \<Rightarrow> unit KS" where "ncPrintDec value = ncPrintBase value 10"
definition ncPrintHex :: "nat \<Rightarrow> unit KS" where "ncPrintHex value = ncPrintBase value 16"
definition ncPrintBin :: "nat \<Rightarrow> unit KS" where "ncPrintBin value = ncPrintBase value 2"

definition ncClear :: "unit KS" where
  "ncClear = kdo [
     in_term (kmod (\<lambda>t. t\<lparr>video := (\<lambda>i. if 0 \<le> i \<and> i < HEIGHT * WIDTH
       then (video t i)\<lparr>cell_ch := CHR '' ''\<rparr> else video t i)\<rparr>)),
     kmod (\<lambda>s. s\<lparr>ncCurrent := 0\<rparr>)]"

section \<open>Module loader\<close>

definition readUint32 :: "mem \<Rightarrow> addr \<Rightarrow> nat \<times> addr" where
  "readUint32 m a =
     (of_char (m a) + 256 * of_char (m (a + 1)) + 256 ^ 2 * of_char (m (a + 2)) + 256 ^ 3 * of_char (m (a + 3)),
      a + 4)"

text \<open>\<open>moduleCount\<close> larger than the table writes past it; the table has 17 entries.\<close>

definition MODULES :: int where [consts_defs]: "MODULES = 17"

definition upd_module :: "int \<Rightarrow> (module_t \<Rightarrow> module_t) \<Rightarrow> unit KS" where
  "upd_module i g = kwith (\<lambda>s. if in_range i MODULES
     then kmod (\<lambda>s. s\<lparr>modules := (modules s)(i := g (modules s i))\<rparr>) else kfault OutOfBounds)"

text \<open>The result is the new \<open>*module\<close> and the new \<open>*lastModule\<close>.\<close>

definition loadModule :: "addr \<Rightarrow> int \<Rightarrow> addr \<Rightarrow> (addr \<times> addr) KS" where
  "loadModule module i lastModule = kwith (\<lambda>s.
     let (moduleSize, module) = readUint32 (kmem s) module; address = lastModule;
         lastModule = lastModule + 0x0100000 in
     kthen [
       upd_module i (\<lambda>x. x\<lparr>mod_address := address\<rparr>),
       ncPrintHex lastModule,
       ncPrint ''  Will copy module at 0x'',
       ncPrintHex module,
       ncPrint '' to 0x'',
       ncPrintHex address,
       ncPrint '' ('',
       ncPrintDec moduleSize,
       ncPrint '' bytes)'',
       upd_module i (\<lambda>x. x\<lparr>mod_size := to_int32 (int moduleSize)\<rparr>),
       kmod (\<lambda>s. s\<lparr>kmem := memcpy address module moduleSize (kmem s)\<rparr>),
       ncPrint '' [Done]'',
       ncNewline]
       (kret (module + moduleSize, lastModule)))"

primrec loadModules_loop :: "nat \<Rightarrow> int \<Rightarrow> addr \<Rightarrow> addr \<Rightarrow> unit KS" where
  "loadModules_loop 0 i currentModule lastModule = kskip"
| "loadModules_loop (Suc n) i currentModule lastModule =
     kbind (loadModule currentModule i lastModule) (\<lambda>(currentModule, lastModule).
       loadModules_loop n (i + 1) currentModule lastModule)"

definition loadModules :: "addr \<Rightarrow> addr \<Rightarrow> unit KS" where
  "loadModules payloadStart dropStart = kwith (\<lambda>s.
     let (moduleCount, currentModule) = readUint32 (kmem s) payloadStart in
     loadModules_loop moduleCount 0 currentModule dropStart)"

section \<open>MMU.c\<close>

definition moduleAddressesStart :: addr where "moduleAddressesStart = 0x0E00000"

definition module_names :: "string list" where
  "module_names = [''shell'', ''sampleDataModule'', ''sampleCodeModule'', ''ps'', ''help'', ''date'', ''time'',
     ''clear'', ''echo'', ''kill'', ''prodcons'', ''snek'', ''messageTest'', ''pipeProdcons'', ''threadTest'', ''shellPipe'']"

definition initial_modules :: "int \<Rightarrow> module_t" where
  "initial_modules i = \<lparr>mod_name = (if 0 \<le> i \<and> i < int (length module_names) then Some (module_names ! nat i) else None),
     mod_address = NULL, mod_size = 0\<rparr>"

text \<open>Both searches stop at the entry without a name, which is inside the table.\<close>

primrec find_module :: "nat \<Rightarrow> (int \<Rightarrow> module_t) \<Rightarrow> (module_t \<Rightarrow> bool) \<Rightarrow> int \<Rightarrow> int option" where
  "find_module 0 tab P i = None"
| "find_module (Suc n) tab P i = (if mod_name (tab i) = None then None
     else if P (tab i) then Some i else find_module n tab P (i + 1))"

definition getModule :: "kstate \<Rightarrow> addr \<Rightarrow> int" where
  "getModule s moduleAddress =
     (case find_module (nat MODULES) (modules s) (\<lambda>x. mod_address x = moduleAddress) 0 of
        Some i \<Rightarrow> i | None \<Rightarrow> -1)"

definition getModuleAddress :: "kstate \<Rightarrow> string \<Rightarrow> addr" where
  "getModuleAddress s filename =
     (case find_module (nat MODULES) (modules s) (\<lambda>x. mod_name x = Some filename) 0 of
        Some i \<Rightarrow> mod_address (modules s i) | None \<Rightarrow> NULL)"

text \<open>\<open>n\<close> arguments from the \<open>i\<close>-th on; a failed allocation ends the loop.\<close>

primrec backupArguments_loop :: "nat \<Rightarrow> killer \<Rightarrow> addr \<Rightarrow> addr \<Rightarrow> nat \<Rightarrow> unit KS" where
  "backupArguments_loop 0 kt argv temp i = kskip"
| "backupArguments_loop (Suc n) kt argv temp i = kwith (\<lambda>s. let arg = kptrs s (argv + 8 * i) in
     with_str arg (\<lambda>str. let len = length str + 1 in
       kbind (allocateMemory kt len) (\<lambda>tempArg.
       if tempArg = NULL then kskip
       else kdo [
         copy_to tempArg arg len,
         kmod (\<lambda>s. s\<lparr>kptrs := (kptrs s)(temp + 8 * i := tempArg)\<rparr>),
         backupArguments_loop n kt argv temp (i + 1)])))"

definition backupArguments :: "killer \<Rightarrow> int \<Rightarrow> addr \<Rightarrow> addr KS" where
  "backupArguments kt argc argv =
     (if argc > 0 then
        kbind (allocateMemory kt (to_uint64 (argc * 8))) (\<lambda>temp.
        if temp = NULL then kret argv
        else kthen [backupArguments_loop (nat argc) kt argv temp 0] (kret temp))
      else kret argv)"

definition clearBSS :: "addr \<Rightarrow> nat \<Rightarrow> unit KS" where
  "clearBSS bssAddress bssSize = kmod (\<lambda>s. s\<lparr>kmem := memset bssAddress 0 bssSize (kmem s)\<rparr>)"

definition getStackBase :: "kstate \<Rightarrow> addr" where
  "getStackBase s = endOfKernel (layout s) + 0x1000 * 8 - 8"

definition initializeKernelBinary :: "addr KS" where
  "initializeKernelBinary = kthen [
     kwith (\<lambda>s. loadModules (endOfKernelBinary (layout s)) moduleAddressesStart),
     kwith (\<lambda>s. clearBSS (bssAddr (layout s)) (endOfKernel (layout s) - bssAddr (layout s)))]
     (kwith (\<lambda>s. kret (getStackBase s)))"

text \<open>\<open>startFirstProcess\<close> (\<open>asm/libasm.asm\<close>) loads the stack pointer of the current thread.\<close>

definition startSystem :: "killer \<Rightarrow> unit KS" where
  "startSystem kt = kwith (\<lambda>s.
     kbind (createProcess kt (initAddr (layout s)) 0 NULL ''init'') (\<lambda>initProcess.
     kbind (kwith (\<lambda>s. createProcess kt (mod_address (modules s 0)) 0 NULL
       (case mod_name (modules s 0) of None \<Rightarrow> [] | Some n \<Rightarrow> n))) (\<lambda>shell.
     kdo [
       kbind (addProcess initProcess) (\<lambda>_. kskip),
       kbind (addProcess shell) (\<lambda>_. kskip),
       with_proc shell (\<lambda>pr. setForeground (pr_pid pr)),
       kbind getCurrentStack (\<lambda>rsp. kmod (\<lambda>s. s\<lparr>cpu_rsp := rsp\<rparr>))])))"

end
