(* ===== verification/SysCalls.thy ===== *)
theory SysCalls
  imports Pipes Channels Timer Keyboard Rtc MMU
begin

text \<open>
  \<open>Kernel/sysCalls.c\<close>: every entry of the system call table takes four unsigned 64-bit arguments
  and returns an \<open>int\<close>; arguments that the code casts to \<open>int\<close> go through \<open>to_int32\<close>, user pointers are
  addresses of \<open>kmem\<close>, \<open>kints\<close> or \<open>kptrs\<close>.
\<close>

definition with_pid_thread :: "(int \<Rightarrow> int \<Rightarrow> 'a KS) \<Rightarrow> 'a KS" where
  "with_pid_thread f = kbind getpid (\<lambda>pid. kbind getCurrentThread (\<lambda>thread. f pid thread))"

definition own_process :: "(process_t \<Rightarrow> 'a KS) \<Rightarrow> 'a KS" where
  "own_process f = kbind getpid (\<lambda>pid. kbind (getProcess pid) (\<lambda>p. with_proc p f))"

definition set_int :: "addr \<Rightarrow> int \<Rightarrow> unit KS" where
  "set_int a v = (if a = NULL then kfault NullDeref else kmod (\<lambda>s. s\<lparr>kints := (kints s)(a := v)\<rparr>))"

definition ret0 :: "unit KS \<Rightarrow> int KS" where
  "ret0 m = kthen [m] (kret 0)"

definition bool_int :: "bool KS \<Rightarrow> int KS" where
  "bool_int m = kbind m (\<lambda>b. kret (if b then 1 else 0))"

section \<open>Input and output\<close>

text \<open>\<open>while(index++ < size)\<close>: \<open>n\<close> characters are left to read.\<close>

primrec sysRead_loop :: "nat \<Rightarrow> addr \<Rightarrow> bool \<Rightarrow> unit KS" where
  "sysRead_loop 0 buffer noBlock = kskip"
| "sysRead_loop (Suc n) buffer noBlock = kdo [
     kbind (if noBlock then in_term nonBlockRead else readBuffer) (\<lambda>c. poke buffer c),
     sysRead_loop n (buffer + 1) noBlock]"

definition sysRead :: "killer \<Rightarrow> nat \<Rightarrow> nat \<Rightarrow> nat \<Rightarrow> nat \<Rightarrow> int KS" where
  "sysRead kt fd buffer nbytes noBlock = own_process (\<lambda>pr. let pipe = pr_standardPipes pr 0 in
     if fd > 2 \<or> pipe \<noteq> -1 then
       with_pid_thread (\<lambda>pid thread.
         kbind (readPipe kt (if pipe = -1 then to_int32 (int fd) else pipe) buffer (to_int32 (int nbytes)) pid thread)
           (\<lambda>_. kret 0))
     else ret0 (kdo [
       with_pid_thread (\<lambda>pid thread. kbind (isForeground pid) (\<lambda>fg.
         kwhen (\<not> fg \<and> fd = 0) [changeThreadState pid thread BLOCKED, yield])),
       kwhen (fd = 0) [sysRead_loop nbytes buffer (noBlock \<noteq> 0)]]))"

primrec sysWrite_loop :: "nat \<Rightarrow> addr \<Rightarrow> bool \<Rightarrow> unit KS" where
  "sysWrite_loop 0 buffer plain = kskip"
| "sysWrite_loop (Suc n) buffer plain = kdo [
     kwith (\<lambda>s. in_term (if plain then printc (kmem s buffer) else printcWithStyle (kmem s buffer) 0x04)),
     sysWrite_loop n (buffer + 1) plain]"

definition sysWrite :: "killer \<Rightarrow> nat \<Rightarrow> nat \<Rightarrow> nat \<Rightarrow> nat \<Rightarrow> int KS" where
  "sysWrite kt fd buffer nbytes r8 = own_process (\<lambda>pr. let pipe = pr_standardPipes pr 1 in
     if (fd = 1 \<or> fd = 2) \<and> pipe = -1 then ret0 (sysWrite_loop nbytes buffer (fd = 1))
     else with_pid_thread (\<lambda>pid thread.
       kbind (writePipe kt (if pipe = -1 then to_int32 (int fd) else pipe) buffer (to_int32 (int nbytes)) pid thread)
         (\<lambda>_. kret 0)))"

definition sysClear :: "nat \<Rightarrow> nat \<Rightarrow> nat \<Rightarrow> nat \<Rightarrow> int KS" where
  "sysClear rsi rdx rcx r8 = ret0 (in_term clearScreen)"

definition sysSetTimeZone :: "nat \<Rightarrow> nat \<Rightarrow> nat \<Rightarrow> nat \<Rightarrow> int KS" where
  "sysSetTimeZone zone rdx rcx r8 = ret0 (setTimeZone (to_int32 (int zone)))"

definition sysGetTime :: "nat \<Rightarrow> nat \<Rightarrow> nat \<Rightarrow> nat \<Rightarrow> int KS" where
  "sysGetTime hour minute seconds r8 = ret0 (kdo [
     kbind (getTime HOURS) (\<lambda>v. set_int hour (uint v)),
     kbind (getTime MINUTES) (\<lambda>v. set_int minute (uint v)),
     kbind (getTime SECONDS) (\<lambda>v. set_int seconds (uint v))])"

definition sysGetDate :: "nat \<Rightarrow> nat \<Rightarrow> nat \<Rightarrow> nat \<Rightarrow> int KS" where
  "sysGetDate day month year r8 = ret0 (kdo [
     kbind (getTime DAY) (\<lambda>v. set_int day (uint v)),
     kbind (getTime MONTH) (\<lambda>v. set_int month (uint v)),
     kbind (getTime YEAR) (\<lambda>v. set_int year (uint v))])"

definition sysEcho :: "nat \<Rightarrow> nat \<Rightarrow> nat \<Rightarrow> nat \<Rightarrow> int KS" where
  "sysEcho echoOn rdx rcx r8 = ret0 (in_term (setEcho (of_nat echoOn)))"

definition sysWriteCharAtScreenPos :: "nat \<Rightarrow> nat \<Rightarrow> nat \<Rightarrow> nat \<Rightarrow> int KS" where
  "sysWriteCharAtScreenPos c x y r8 =
     ret0 (in_term (printCharAtPos (char_of c) (to_int32 (int x)) (to_int32 (int y))))"

section \<open>Processes\<close>

text \<open>
  The listing of \<open>getProcesses\<close>: pieces of text written while there is room.  \<open>j\<close> is not initialised in
  the source; its first value is the argument \<open>j0\<close>.  A number is followed by the NUL of \<open>uintToBase\<close>.
\<close>

definition ps_piece :: "addr \<Rightarrow> string \<times> bool \<Rightarrow> int \<times> int \<times> mem \<Rightarrow> int \<times> int \<times> mem" where
  "ps_piece buffer piece st = (let (txt, number) = piece; (j, sz, m) = st; len = int (length txt) in
     if sz > 0 then
       (j + len, sz - len, \<lambda>a.
          if int buffer + j \<le> int a \<and> int a < int buffer + j + len then txt ! nat (int a - int buffer - j)
          else if number \<and> int a = int buffer + j + len then NUL else m a)
     else (j, sz, m))"

definition state_name :: "processState \<Rightarrow> string" where
  "state_name st = (case st of RUNNING \<Rightarrow> ''Running'' | READY \<Rightarrow> ''Ready'' | BLOCKED \<Rightarrow> ''Blocked'' | SLEEPING \<Rightarrow> ''Sleeping'')"

definition ps_line :: "process_t \<Rightarrow> thread_t \<Rightarrow> int \<Rightarrow> bool \<Rightarrow> (string \<times> bool) list" where
  "ps_line pr th thread fg = [
     (''pid: '', False), (dec_text (to_uint64 (pr_pid pr)), True),
     ('', Name: '', False), (cstr (pr_name pr), False),
     ('', Status: '', False), (state_name (th_state th), False),
     ('', Stack: 0x'', False), (hex_text (th_memoryBase th), True),
     ('', ThreadId: '', False), (dec_text (nat thread), True),
     ((if fg then '', Fg'' else '', Bg'') @ [CHR 0x0A], False)]"

primrec getProcesses_threads :: "nat \<Rightarrow> addr \<Rightarrow> addr \<Rightarrow> int \<Rightarrow> int \<times> int \<times> mem \<Rightarrow> (int \<times> int \<times> mem) KS" where
  "getProcesses_threads 0 buffer process thread st = kret st"
| "getProcesses_threads (Suc n) buffer process thread st = with_proc process (\<lambda>pr.
     let t = tn_thread (pr_threads pr thread) in
     if t \<noteq> NULL then with_thr t (\<lambda>th. kwith (\<lambda>s.
       getProcesses_threads n buffer process (thread + 1)
         (fold (ps_piece buffer) (ps_line pr th thread (process = foreground (sched s))) st)))
     else getProcesses_threads n buffer process (thread + 1) st)"

primrec getProcesses_loop :: "nat \<Rightarrow> addr \<Rightarrow> int \<Rightarrow> int \<times> int \<times> mem \<Rightarrow> (int \<times> int \<times> mem) KS" where
  "getProcesses_loop 0 buffer k st = kret st"
| "getProcesses_loop (Suc n) buffer k st = with_slot k (\<lambda>slot.
     kbind (getProcesses_threads (nat MAX_THREADS) buffer (rr_process slot) 0 st) (\<lambda>st.
       getProcesses_loop n buffer (rr_next slot) st))"

definition getProcesses :: "int \<Rightarrow> addr \<Rightarrow> int \<Rightarrow> unit KS" where
  "getProcesses j0 buffer nbytes = kwith (\<lambda>s.
     kbind (getProcesses_loop (nat (processQuantity (sched s))) buffer (current (sched s)) (j0, nbytes, kmem s))
       (\<lambda>(j, sz, m). kmod (\<lambda>s. s\<lparr>kmem := (\<lambda>a.
         if int a = int buffer + (if j < sz then j else sz - 1) then NUL else m a)\<rparr>)))"

definition sysPs :: "int \<Rightarrow> nat \<Rightarrow> nat \<Rightarrow> nat \<Rightarrow> nat \<Rightarrow> int KS" where
  "sysPs j0 buffer nbytes rcx r8 = ret0 (getProcesses j0 buffer (to_int32 (int nbytes)))"

definition sleep_foreground :: "unit KS" where
  "sleep_foreground = kbind getForeground (\<lambda>f. kbind (getProcess f) (\<lambda>fg. with_proc fg (\<lambda>pr.
     changeThreadState (pr_pid pr) (pr_currentThread pr) SLEEPING)))"

text \<open>The name of the new process is its first argument.\<close>

definition spawn :: "killer \<Rightarrow> addr \<Rightarrow> nat \<Rightarrow> addr \<Rightarrow> (addr \<times> int) KS" where
  "spawn kt entry argc argv =
     kbind (backupArguments kt (to_int32 (int argc)) argv) (\<lambda>argv.
     if argv = NULL then kfault NullDeref
     else kwith (\<lambda>s. with_str (kptrs s argv) (\<lambda>name.
       kbind (createProcess kt entry (to_int32 (int argc)) argv name) (\<lambda>process.
       kbind (addProcess process) (\<lambda>ret. kret (process, ret))))))"

definition sysRunProcess :: "killer \<Rightarrow> nat \<Rightarrow> nat \<Rightarrow> nat \<Rightarrow> nat \<Rightarrow> int KS" where
  "sysRunProcess kt entry argc argv background =
     kbind (spawn kt entry argc argv) (\<lambda>(process, ret).
     kthen [
       kwhen (background = 0) [
         sleep_foreground,
         with_proc process (\<lambda>pr. setForeground (pr_pid pr))],
       yield]
       (kret ret))"

definition sysRunModule :: "killer \<Rightarrow> nat \<Rightarrow> nat \<Rightarrow> nat \<Rightarrow> nat \<Rightarrow> int KS" where
  "sysRunModule kt filename argc argv background = with_str filename (\<lambda>name. kwith (\<lambda>s.
     let address = getModuleAddress s name in
     if address \<noteq> NULL then sysRunProcess kt address argc argv background else kret (-1)))"

definition sysPipeStd :: "killer \<Rightarrow> nat \<Rightarrow> nat \<Rightarrow> nat \<Rightarrow> nat \<Rightarrow> int KS" where
  "sysPipeStd kt filename argc argv isWriter = with_str filename (\<lambda>name. kwith (\<lambda>s.
     let address = getModuleAddress s name in
     if address = NULL then kret (-1)
     else kbind (spawn kt address argc argv) (\<lambda>(process, ret).
       kthen [
         sleep_foreground,
         with_proc process (\<lambda>pr. setForeground (pr_pid pr)),
         kbind (getPipe kt ''ShellPipe'') (\<lambda>pipe. upd_proc process (\<lambda>pr.
           pr\<lparr>pr_standardPipes := (pr_standardPipes pr)((if isWriter \<noteq> 0 then 1 else 0) := pipe)\<rparr>)),
         yield]
         (kret ret))))"

definition sysKill :: "killer \<Rightarrow> nat \<Rightarrow> nat \<Rightarrow> nat \<Rightarrow> nat \<Rightarrow> int KS" where
  "sysKill kt pid rdx rcx r8 = ret0 (kdo [killProcess kt (to_int32 (int pid)), yield])"

definition sysGetPid :: "nat \<Rightarrow> nat \<Rightarrow> nat \<Rightarrow> nat \<Rightarrow> int KS" where
  "sysGetPid rsi rdx rcx r8 = getpid"

definition sysAddThread :: "killer \<Rightarrow> nat \<Rightarrow> nat \<Rightarrow> nat \<Rightarrow> nat \<Rightarrow> int KS" where
  "sysAddThread kt entry argc argv r8 =
     kbind (backupArguments kt (to_int32 (int argc)) argv) (\<lambda>argv.
     kbind (createThread kt (to_int32 (int argc)) argv entry) (\<lambda>thread.
     kbind getpid (\<lambda>pid. kbind (getProcess pid) (\<lambda>p. addThread p thread))))"

definition sysKillThread :: "killer \<Rightarrow> nat \<Rightarrow> nat \<Rightarrow> nat \<Rightarrow> nat \<Rightarrow> int KS" where
  "sysKillThread kt thread rdx rcx r8 = ret0 (kdo [
     kbind getpid (\<lambda>pid. kbind (getProcess pid) (\<lambda>p. terminateThread kt p (to_int32 (int thread)))),
     yield])"

definition sysJoinThread :: "nat \<Rightarrow> nat \<Rightarrow> nat \<Rightarrow> nat \<Rightarrow> int KS" where
  "sysJoinThread thread rdx rcx r8 = ret0 (with_pid_thread (\<lambda>pid t.
     kbind (getProcess pid) (\<lambda>p. joinThread p t (to_int32 (int thread)))))"

definition sysSleep :: "nat \<Rightarrow> nat \<Rightarrow> nat \<Rightarrow> nat \<Rightarrow> int KS" where
  "sysSleep milliseconds rdx rcx r8 = ret0 (with_pid_thread (\<lambda>pid t. sleep (of_nat milliseconds) pid t))"

section \<open>Memory\<close>

definition sysAllocateMemory :: "killer \<Rightarrow> nat \<Rightarrow> nat \<Rightarrow> nat \<Rightarrow> nat \<Rightarrow> int KS" where
  "sysAllocateMemory kt address nbytes rcx r8 = ret0 (kbind (allocateMemory kt nbytes) (\<lambda>a.
     if address = NULL then kfault NullDeref else kmod (\<lambda>s. s\<lparr>kptrs := (kptrs s)(address := a)\<rparr>)))"

definition sysFreeMemory :: "killer \<Rightarrow> nat \<Rightarrow> nat \<Rightarrow> nat \<Rightarrow> nat \<Rightarrow> int KS" where
  "sysFreeMemory kt address rdx rcx r8 = bool_int (freeMemory kt address)"

section \<open>Mutexes and semaphores\<close>

definition sysCreateMutex :: "killer \<Rightarrow> nat \<Rightarrow> nat \<Rightarrow> nat \<Rightarrow> nat \<Rightarrow> int KS" where
  "sysCreateMutex kt name rdx rcx r8 = with_str name (\<lambda>str. with_pid_thread (\<lambda>pid t. getMutex kt str pid t))"

definition sysReleaseMutex :: "killer \<Rightarrow> nat \<Rightarrow> nat \<Rightarrow> nat \<Rightarrow> nat \<Rightarrow> int KS" where
  "sysReleaseMutex kt mutex rdx rcx r8 =
     bool_int (with_pid_thread (\<lambda>pid t. releaseMutex kt pid (to_int32 (int mutex)) t))"

definition sysUpMutex :: "nat \<Rightarrow> nat \<Rightarrow> nat \<Rightarrow> nat \<Rightarrow> int KS" where
  "sysUpMutex mutex rdx rcx r8 = ret0 (with_pid_thread (\<lambda>pid t. mutexUp (to_int32 (int mutex)) pid t))"

definition sysDownMutex :: "killer \<Rightarrow> nat \<Rightarrow> nat \<Rightarrow> nat \<Rightarrow> nat \<Rightarrow> int KS" where
  "sysDownMutex kt mutex rdx rcx r8 = ret0 (with_pid_thread (\<lambda>pid t. mutexDown kt (to_int32 (int mutex)) pid t))"

definition sysCreateSemaphore :: "killer \<Rightarrow> nat \<Rightarrow> nat \<Rightarrow> nat \<Rightarrow> nat \<Rightarrow> int KS" where
  "sysCreateSemaphore kt name rdx rcx r8 = with_str name (\<lambda>str. with_pid_thread (\<lambda>pid t. getSemaphore kt str pid t))"

definition sysReleaseSemaphre :: "killer \<Rightarrow> nat \<Rightarrow> nat \<Rightarrow> nat \<Rightarrow> nat \<Rightarrow> int KS" where
  "sysReleaseSemaphre kt mutex rdx rcx r8 =
     bool_int (with_pid_thread (\<lambda>pid t. releaseSemaphore kt pid (to_int32 (int mutex)) t))"

definition sysSignal :: "killer \<Rightarrow> nat \<Rightarrow> nat \<Rightarrow> nat \<Rightarrow> nat \<Rightarrow> int KS" where
  "sysSignal kt semaphore rdx rcx r8 = ret0 (signal kt (to_int32 (int semaphore)))"

definition sysWait :: "killer \<Rightarrow> nat \<Rightarrow> nat \<Rightarrow> nat \<Rightarrow> nat \<Rightarrow> int KS" where
  "sysWait kt semaphore rdx rcx r8 = ret0 (with_pid_thread (\<lambda>pid t. wait kt (to_int32 (int semaphore)) pid t))"

section \<open>Channels and pipes\<close>

definition sysCreateChannel :: "killer \<Rightarrow> nat \<Rightarrow> nat \<Rightarrow> nat \<Rightarrow> nat \<Rightarrow> int KS" where
  "sysCreateChannel kt recipientPid rdx rcx r8 = kbind getpid (\<lambda>pid.
     kbind (createChannel kt pid (to_int32 (int recipientPid))) (\<lambda>c. kret (if c = NULL then -1 else 0)))"

definition sysSend :: "killer \<Rightarrow> nat \<Rightarrow> nat \<Rightarrow> nat \<Rightarrow> nat \<Rightarrow> int KS" where
  "sysSend kt recipientPid message len r8 =
     sendMessage kt (to_int32 (int recipientPid)) message (to_int32 (int len))"

definition sysReceive :: "killer \<Rightarrow> nat \<Rightarrow> nat \<Rightarrow> nat \<Rightarrow> nat \<Rightarrow> int KS" where
  "sysReceive kt senderPid buffer len r8 =
     kbind (receiveMessage kt (to_int32 (int senderPid)) (to_int32 (int len))) (\<lambda>result.
     if result \<noteq> NULL then
       kthen [copy_to buffer result len, ignore (freeMemory kt result)] (kret 0)
     else kret (-1))"

definition sysDeleteChannel :: "killer \<Rightarrow> nat \<Rightarrow> nat \<Rightarrow> nat \<Rightarrow> nat \<Rightarrow> int KS" where
  "sysDeleteChannel kt recipientPid rdx rcx r8 = ret0 (kbind getpid (\<lambda>pid.
     kbind (getChannelFromList (to_int32 (int recipientPid)) pid) (\<lambda>channel.
       kwhen (channel \<noteq> NULL) [removeChannelFromList kt channel])))"

definition sysOpenPipe :: "killer \<Rightarrow> nat \<Rightarrow> nat \<Rightarrow> nat \<Rightarrow> nat \<Rightarrow> int KS" where
  "sysOpenPipe kt name rdx rcx r8 = with_str name (getPipe kt)"

definition sysClosePipe :: "killer \<Rightarrow> nat \<Rightarrow> nat \<Rightarrow> nat \<Rightarrow> nat \<Rightarrow> int KS" where
  "sysClosePipe kt pipe rdx rcx r8 = with_pid_thread (\<lambda>pid t. deletePipe kt (to_int32 (int pipe)) pid t)"

section \<open>The table\<close>

definition SYSCALLS :: nat where [consts_defs]: "SYSCALLS = 34"

text \<open>\<open>sysCallsSetup\<close>: the handlers in the order of their numbers.\<close>

definition sysCalls :: "killer \<Rightarrow> int \<Rightarrow> (nat \<Rightarrow> nat \<Rightarrow> nat \<Rightarrow> nat \<Rightarrow> int KS) list" where
  "sysCalls kt j0 = [
     sysRead kt, sysWrite kt, sysClear, sysSetTimeZone,
     sysGetTime, sysGetDate, sysEcho, sysRunModule kt,
     sysKill kt, sysPs j0, sysGetPid, sysRunProcess kt,
     sysAllocateMemory kt, sysFreeMemory kt, sysCreateMutex kt, sysReleaseMutex kt,
     sysUpMutex, sysDownMutex kt, sysCreateChannel kt, sysSend kt,
     sysReceive kt, sysDeleteChannel kt, sysWriteCharAtScreenPos, sysCreateSemaphore kt,
     sysReleaseSemaphre kt, sysSignal kt, sysWait kt, sysSleep,
     sysOpenPipe kt, sysClosePipe kt, sysAddThread kt, sysKillThread kt,
     sysJoinThread, sysPipeStd kt]"

definition sysCallHandler :: "killer \<Rightarrow> int \<Rightarrow> nat \<Rightarrow> nat \<Rightarrow> nat \<Rightarrow> nat \<Rightarrow> nat \<Rightarrow> int KS" where
  "sysCallHandler kt j0 rdi rsi rdx rcx r8 =
     (if rdi \<ge> SYSCALLS then kret (-1) else (sysCalls kt j0 ! rdi) rsi rdx rcx r8)"

end
