(* ===== verification/Kernel.thy ===== *)
theory Kernel
  imports SysCalls
begin

text \<open>
  \<open>Kernel/interruptions.c\<close> and \<open>Kernel/kernel.c\<close>: interrupt entry points, the interrupt descriptor
  table, and the order in which the boot code sets the system up.
\<close>

section \<open>Interrupts\<close>

text \<open>\<open>tickHandler\<close>; the counter is its static variable.\<close>

definition tickHandler :: "addr KS" where
  "tickHandler = kthen [
     decrementTicks,
     kmod (\<lambda>s. s\<lparr>tickCount := tickCount s + 1\<rparr>)]
     (kbind schedule (\<lambda>nextRsp. kthen [
       kwith (\<lambda>s. kwhen (tickCount s = 10) [
         in_term blinkCursor,
         kmod (\<lambda>s. s\<lparr>tickCount := 0\<rparr>)])]
       (kret nextRsp)))"

definition sendEOI :: "int \<Rightarrow> unit KS" where
  "sendEOI irq = kdo [
     kwhen (irq \<ge> 8) [writePort 0xA0 0x20],
     writePort 0x20 0x20]"

text \<open>\<open>irq0Handler\<close> of \<open>asm/interruptions.asm\<close> around \<open>tickHandler\<close>.\<close>

definition irq0Handler :: "unit KS" where
  "irq0Handler =
     kbind (kwith (\<lambda>s. switchToKernelStack (cpu_rsp s))) (\<lambda>rsp.
     kbind (kmod (\<lambda>s. s\<lparr>cpu_rsp := rsp\<rparr>)) (\<lambda>_.
     kbind tickHandler (\<lambda>rsp. kdo [
       kmod (\<lambda>s. s\<lparr>cpu_rsp := rsp\<rparr>),
       sendEOI 0])))"

definition irqDispatcher :: "killer \<Rightarrow> u8 \<Rightarrow> int \<Rightarrow> unit KS" where
  "irqDispatcher kt input irq = (if irq = 1 then keyboardHandler kt input else kskip)"

unbundle bit_operations_syntax

definition iSetHandler :: "int \<Rightarrow> 64 word \<Rightarrow> (int \<Rightarrow> IDTEntry_t) \<Rightarrow> (int \<Rightarrow> IDTEntry_t)" where
  "iSetHandler index handler table = table(index :=
     \<lparr>offset_l = ucast handler AND 0xFFFF, selector = 0x08, zero_l = 0, attrs = 0x8E,
      offset_m = ucast (drop_bit 16 handler) AND 0xFFFF,
      offset_h = ucast (drop_bit 32 handler) AND 0xFFFFFFFF, zero_h = 0\<rparr>)"

definition setupIDT :: "unit KS" where
  "setupIDT = kdo [
     kmod (\<lambda>s. let l = layout s in s\<lparr>idt :=
       iSetHandler 0x80 (int80HandlerAddr l) (iSetHandler 0x40 (yieldHandlerAddr l)
         (iSetHandler 0x21 (irq1HandlerAddr l) (iSetHandler 0x20 (irq0HandlerAddr l) (idt s))))\<rparr>),
     setupRTC,
     writePort 0x21 0xFC]"

section \<open>Boot\<close>

text \<open>The kernel variables after \<open>clearBSS\<close> and static initialisation.\<close>

definition blank_thread :: threadId_t where
  "blank_thread = \<lparr>tid_pid = 0, tid_thread = 0\<rparr>"

definition boot_state :: "layout_t \<Rightarrow> (u8 \<Rightarrow> u8) \<Rightarrow> kstate" where
  "boot_state l rtc = \<lparr>
     cpu_rsp = 0, kmem = (\<lambda>_. NUL), kptrs = (\<lambda>_. 0), kints = (\<lambda>_. 0),
     procs = Map.empty, thrs = Map.empty, frames = Map.empty, msgs = Map.empty, chans = Map.empty,
     buddyHeap = \<lparr>memoryBase = (\<lambda>_. 0), blockUsage = (\<lambda>_. FULLY_USED)\<rparr>,
     buddyMutex = 0, nextPid = 1, tickCount = 0, timeZone = -3,
     sched = \<lparr>processes = (\<lambda>_. \<lparr>rr_next = 0, rr_process = NULL\<rparr>), firstAvailableSpace = 0,
       foreground = NULL, current = 0, processQuantity = 0, quantum = QUANTUM,
       schedulerAuxiliaryStack = NULL, changeLock = 0, lockQuantumExceded = 0\<rparr>,
     mut = \<lparr>mutexes = (\<lambda>_. \<lparr>m_creator = blank_thread, m_lockProcess = blank_thread,
         m_name = replicate MAX_NAME NUL, m_blocked = (\<lambda>_. blank_thread), m_blockedQuantity = 0, m_value = 0\<rparr>),
       firstAvailableMutex = 1, usedMutexes = 1, adminMutex = 0\<rparr>,
     sems = \<lparr>semaphores = (\<lambda>_. \<lparr>s_creator = blank_thread, s_name = replicate MAX_NAME NUL,
         s_blocked = (\<lambda>_. blank_thread), s_blockedQuantity = 0, s_value = 0, s_mutex = 0\<rparr>),
       firstAvailableSemaphore = 0, usedSemaphores = 0, semaphoreMutex = 0\<rparr>,
     tim = \<lparr>sleepingProcesses = (\<lambda>_. \<lparr>sl_pid = 0, sl_thread = 0, tickQuantity = 0, sl_next = 0\<rparr>),
       timerFirstAvailable = 0, sleeping = 0, firstSleeping = NOT_USED\<rparr>,
     pipes = (\<lambda>_. \<lparr>p_creator = blank_thread, p_name = replicate NAME_LENGTH NUL, p_readIndex = 0,
       p_writeIndex = 0, p_buffer = NULL, p_semWrite = 0, p_semRead = 0, p_used = False, p_mutex = 0\<rparr>),
     chs = \<lparr>firstChannel = NULL, channelMutex = 0\<rparr>,
     terminal = \<lparr>video = (\<lambda>_. \<lparr>cell_ch = NUL, cell_style = 0\<rparr>), kbBuffer = (\<lambda>_. NUL),
       startIndex = 0, endIndex = 0, writeIndex = 0, readIndex = 0, kbSize = 0, echo = 1,
       cursorVisible = False, cursorX = 0, cursorY = 0, defaultStyle = 0x07, videoCursorX = 0, videoCursorY = 0\<rparr>,
     kbd = \<lparr>shiftMayus = 0, leftShift = False, rightShift = False, specialKey = False, ctrl = False\<rparr>,
     modules = initial_modules, layout = l,
     idt = (\<lambda>_. \<lparr>offset_l = 0, selector = 0, zero_l = 0, attrs = 0, offset_m = 0, offset_h = 0, zero_h = 0\<rparr>),
     portLog = [], ncCurrent = 0, rtcPort = rtc\<rparr>"

definition main :: "killer \<Rightarrow> unit KS" where
  "main kt = kdo [
     in_term clearScreen,
     setupMutexSystem,
     initHeap,
     initializeScheduler kt,
     initializeTimer,
     setupSemaphoreSystem,
     initializeChannels,
     initializePipes,
     setupIDT,
     startSystem kt]"

end
