(* ===== verification/LibCorrect.thy ===== *)
theory LibCorrect
  imports Lib
begin

text \<open>
  What the routines of \<open>lib.c\<close> compute: block fills and copies as functions of the old memory, the
  equivalence of the word-wise and the byte-wise copy, numbers in a base with the way back, and the
  meaning of the string functions on NUL-terminated strings.
\<close>

section \<open>Blocks\<close>

lemma memset_loop_eq:
  "memset_loop len dst chr m = (\<lambda>a. if dst \<le> a \<and> a < dst + len then chr else m a)"
  by (induction len arbitrary: m) (auto simp: fun_eq_iff)

lemma copy_bytes_eq:
  assumes "d \<le> s \<or> s + n \<le> d"
  shows "copy_bytes n i d s m a =
    (if d + i \<le> a \<and> a < d + i + n then m (s + (a - d)) else m a)"
  using assms
proof (induction n arbitrary: i m)
  case 0
  then show ?case by auto
next
  case (Suc n)
  have "s + (a - d) \<noteq> d + i" if "d + (i + 1) \<le> a" "a < d + (i + 1) + n"
    using that Suc.prems by linarith
  moreover have "copy_bytes n (i + 1) d s (m(d + i := m (s + i))) a =
    (if d + (i + 1) \<le> a \<and> a < d + (i + 1) + n then (m(d + i := m (s + i))) (s + (a - d))
     else (m(d + i := m (s + i))) a)"
    using Suc by (intro Suc.IH) auto
  ultimately show ?case by auto
qed

lemma copy_words_bytes:
  assumes "d mod 4 = 0" "s mod 4 = 0"
  shows "copy_words n i d s m = copy_bytes (4 * n) (4 * i) d s m"
proof (induction n arbitrary: i m)
  case 0
  then show ?case by simp
next
  case (Suc n)
  obtain d' s' where [simp]: "d = 4 * d'" "s = 4 * s'" using assms by (auto elim!: dvdE simp: mod_eq_0_iff_dvd)
  have ne: "4 * s' + (4 * i + a) \<noteq> 4 * d' + (4 * i + b)" if "a < 4" "b < 4" "a \<noteq> b" for a b
    using that by presburger
  let ?m1 = "m(d + 4 * i := m (s + 4 * i))"
  let ?m2 = "?m1(d + (4 * i + 1) := ?m1 (s + (4 * i + 1)))"
  let ?m3 = "?m2(d + (4 * i + 1 + 1) := ?m2 (s + (4 * i + 1 + 1)))"
  let ?m4 = "?m3(d + (4 * i + 1 + 1 + 1) := ?m3 (s + (4 * i + 1 + 1 + 1)))"
  have idx: "4 * i + 1 + 1 + 1 + 1 = 4 * (i + 1)" by simp
  have m4: "?m4 = copy_word (d + 4 * i) (s + 4 * i) m"
    using ne[of 1 0] ne[of 2 0] ne[of 2 1] ne[of 3 0] ne[of 3 1] ne[of 3 2]
    by (simp add: copy_word_def fun_eq_iff numeral_3_eq_3)
  have "copy_bytes (4 * Suc n) (4 * i) d s m = copy_bytes (Suc (Suc (Suc (Suc (4 * n))))) (4 * i) d s m"
    by (rule arg_cong[where f = "\<lambda>k. copy_bytes k (4 * i) d s m"]) simp
  also have "\<dots> = copy_bytes (4 * n) (4 * i + 1 + 1 + 1 + 1) d s ?m4"
    by (simp only: copy_bytes.simps)
  also have "\<dots> = copy_bytes (4 * n) (4 * (i + 1)) d s (copy_word (d + 4 * i) (s + 4 * i) m)"
    by (simp only: m4 idx)
  finally show ?case using Suc.IH by simp
qed

lemma memcpy_bytes: "memcpy d s n m = copy_bytes n 0 d s m"
  by (auto simp: memcpy_def copy_words_bytes)

section \<open>Numbers in a base\<close>

text \<open>The digits of \<open>v\<close>, least significant first, and the value a digit string stands for.\<close>

function digits_of :: "nat \<Rightarrow> nat \<Rightarrow> nat list" where
  "digits_of base v =
     (v mod base) # (if v div base \<noteq> 0 \<and> 2 \<le> base then digits_of base (v div base) else [])"
  by pat_completeness auto
termination
proof (relation "measure (\<lambda>(base, v). v)")
  fix base v :: nat
  assume "v div base \<noteq> 0 \<and> 2 \<le> base"
  moreover from this have "0 < v" by (metis div_0 gr0I)
  ultimately show "((base, v div base), base, v) \<in> measure (\<lambda>(base, v). v)" by simp
qed simp

declare digits_of.simps [simp del]

definition digit_val :: "char \<Rightarrow> nat" where
  "digit_val c = (let n = of_char c in if n < 58 then n - 48 else n - 55)"

definition read_base :: "nat \<Rightarrow> string \<Rightarrow> nat" where
  "read_base base s = foldl (\<lambda>acc c. acc * base + digit_val c) 0 s"

lemma digits_of_nonempty [simp]: "digits_of base v \<noteq> []"
  by (subst digits_of.simps) simp

lemma digits_of_less: "2 \<le> base \<Longrightarrow> d \<in> set (digits_of base v) \<Longrightarrow> d < base"
proof (induction base v rule: digits_of.induct)
  case (1 base v)
  then show ?case by (subst (asm) digits_of.simps) (auto split: if_splits)
qed

lemma digits_of_length: "2 \<le> b \<Longrightarrow> v < b ^ k \<Longrightarrow> 0 < k \<Longrightarrow> length (digits_of b v) \<le> k"
proof (induction k arbitrary: v)
  case 0
  then show ?case by simp
next
  case (Suc k)
  have d: "digits_of b v = v mod b # (if v div b \<noteq> 0 then digits_of b (v div b) else [])"
    using Suc.prems(1) by (subst digits_of.simps) simp
  show ?case
  proof (cases "v div b = 0")
    case True
    then show ?thesis by (simp add: d)
  next
    case False
    have lt: "v div b < b ^ k" using Suc.prems(1,2) by (simp add: less_mult_imp_div_less mult.commute)
    then have "0 < k" using False by (cases k) auto
    then show ?thesis using Suc.IH[OF Suc.prems(1) lt] by (simp add: d)
  qed
qed

lemma digits_of_value:
  "2 \<le> base \<Longrightarrow> foldr (\<lambda>d acc. acc * base + d) (digits_of base v) 0 = v"
proof (induction base v rule: digits_of.induct)
  case (1 base v)
  then show ?case by (subst digits_of.simps) (auto simp: div_eq_0_iff)
qed

lemma digit_val_char: "d < 36 \<Longrightarrow> digit_val (digit_char d) = d"
  by (simp add: digit_val_def digit_char_def Let_def)

lemma read_base_digits:
  assumes "2 \<le> base" "base \<le> 36"
  shows "read_base base (map digit_char (rev (digits_of base v))) = v"
proof -
  have "\<And>d. d \<in> set (digits_of base v) \<Longrightarrow> d < 36"
    using digits_of_less assms by (meson less_le_trans)
  then have "foldr (\<lambda>d acc. acc * base + digit_val (digit_char d)) (digits_of base v) 0 =
      foldr (\<lambda>d acc. acc * base + d) (digits_of base v) 0"
    by (intro foldr_cong) (simp_all add: digit_val_char)
  then show ?thesis
    using assms by (simp add: read_base_def rev_map[symmetric] foldl_conv_foldr foldr_map o_def digits_of_value)
qed

lemma digits_loop_eq:
  "digits_loop v p base n m =
     (let ds = digits_of base v
      in (p + length ds, n + length ds,
          \<lambda>a. if p \<le> a \<and> a < p + length ds then digit_char (ds ! (a - p)) else m a))"
proof (induction v p base n m rule: digits_loop.induct)
  case (1 v p base n m)
  show ?case
  proof (cases "v div base \<noteq> 0 \<and> 2 \<le> base")
    case True
    let ?ds = "digits_of base (v div base)"
    have ds: "digits_of base v = (v mod base) # ?ds"
      using True by (subst digits_of.simps) simp
    have "digits_loop v p base n m = digits_loop (v div base) (p + 1) base (n + 1) (m(p := digit_char (v mod base)))"
      using True by (subst digits_loop.simps) (simp add: Let_def)
    also have "\<dots> = (p + 1 + length ?ds, n + 1 + length ?ds,
        \<lambda>a. if p + 1 \<le> a \<and> a < p + 1 + length ?ds then digit_char (?ds ! (a - (p + 1)))
            else (m(p := digit_char (v mod base))) a)"
      using 1[OF refl refl refl refl True] unfolding Let_def .
    finally show ?thesis by (auto simp: ds fun_eq_iff nth_Cons' Let_def)
  next
    case False
    then have "digits_of base v = [v mod base]" by (subst digits_of.simps) simp
    then show ?thesis using False by (subst digits_loop.simps) (auto simp: Let_def fun_eq_iff)
  qed
qed

lemma reverse_loop_eq:
  "p1 \<le> p2 + 1 \<Longrightarrow> reverse_loop p1 p2 m = (\<lambda>a. if p1 \<le> a \<and> a \<le> p2 then m (p1 + p2 - a) else m a)"
proof (induction p1 p2 m rule: reverse_loop.induct)
  case (1 p1 p2 m)
  show ?case
  proof (cases "p1 < p2")
    case True
    then have le: "p1 + 1 \<le> p2 - 1 + 1" by linarith
    have "reverse_loop p1 p2 m =
      (\<lambda>a. if p1 + 1 \<le> a \<and> a \<le> p2 - 1 then (m(p1 := m p2, p2 := m p1)) (p1 + 1 + (p2 - 1) - a)
           else (m(p1 := m p2, p2 := m p1)) a)"
      using True 1(1)[OF True le] by (subst reverse_loop.simps) (simp only: if_True)
    then show ?thesis using True by (auto simp: fun_eq_iff)
  next
    case False
    then have "p1 = p2 \<or> p1 = p2 + 1" using 1(2) by linarith
    then show ?thesis using False by (subst reverse_loop.simps) (auto simp: fun_eq_iff)
  qed
qed

lemma digit_char_not_NUL: "d < 36 \<Longrightarrow> digit_char d \<noteq> NUL"
proof
  assume "d < 36" "digit_char d = NUL"
  then have "(of_char (digit_char d) :: nat) = 0" by simp
  then show False using \<open>d < 36\<close> by (simp add: digit_char_def split: if_splits)
qed

lemma str_atI: "(\<And>i. i < length s \<Longrightarrow> m (p + i) = s ! i) \<Longrightarrow> NUL \<notin> set s \<Longrightarrow> m (p + length s) = NUL
    \<Longrightarrow> str_at m p s"
  by (metis nth_mem str_at_def)

lemma uintToBase_eq:
  assumes "2 \<le> base" "base \<le> 36"
    and s: "s = map digit_char (rev (digits_of base v))"
  obtains m' where "uintToBase v buffer base m = Some (length s, m')" "str_at m' buffer s"
    "\<And>a. a < buffer \<or> buffer + length s < a \<Longrightarrow> m' a = m a"
proof -
  let ?ds = "digits_of base v"
  let ?n = "length ?ds"
  define m1 where "m1 = (\<lambda>a. if buffer \<le> a \<and> a < buffer + ?n then digit_char (?ds ! (a - buffer)) else m a)"
  define m' where "m' = (\<lambda>a. if buffer \<le> a \<and> a \<le> buffer + ?n - 1
      then (m1(buffer + ?n := NUL)) (buffer + (buffer + ?n - 1) - a) else (m1(buffer + ?n := NUL)) a)"
  have n: "0 < ?n" by simp
  have len: "length s = ?n" by (simp add: s)
  have "uintToBase v buffer base m = Some (?n, m')"
    unfolding m'_def m1_def
    using assms(1) n by (simp add: uintToBase_def digits_loop_eq reverse_loop_eq Let_def fun_eq_iff)
  moreover have "str_at m' buffer s"
  proof (rule str_atI)
    fix i assume "i < length s"
    then have i: "i < ?n" by (simp add: s)
    then have "buffer + (buffer + ?n - 1) - (buffer + i) = buffer + (?n - Suc i)"
      and "buffer \<le> buffer + i \<and> buffer + i \<le> buffer + ?n - 1" by linarith+
    then have eq: "m' (buffer + i) = (m1(buffer + ?n := NUL)) (buffer + (?n - Suc i))"
      by (simp only: m'_def if_True simp_thms)
    obtain k where k: "?n - Suc i = k" "k < ?n" using i by simp
    show "m' (buffer + i) = s ! i"
      unfolding eq k(1) using i k by (simp add: m1_def s rev_nth)
  next
    have "\<And>d. d \<in> set ?ds \<Longrightarrow> d < 36" using digits_of_less assms by (meson less_le_trans)
    then show "NUL \<notin> set s" using digit_char_not_NUL by (fastforce simp: s)
    have "\<not> buffer + ?n \<le> buffer + ?n - 1" using n by linarith
    then show "m' (buffer + length s) = NUL" by (simp add: m'_def len)
  qed
  moreover have "m' a = m a" if "a < buffer \<or> buffer + length s < a" for a
    using that n by (auto simp: m'_def m1_def len)
  ultimately show ?thesis using that[of m'] len by simp
qed

section \<open>Strings\<close>

lemma strlen_loop_str: "str_at m p s \<Longrightarrow> strlen_loop m p n = Some (n + length s)"
  by (induction s arbitrary: p n) (subst strlen_loop.simps, simp)+

lemma strlen_str: "str_at m p s \<Longrightarrow> strlen m p = Some (length s)"
  by (simp add: strlen_def strlen_loop_str)

lemma schar_NUL_iff [simp]: "schar c = 0 \<longleftrightarrow> c = NUL"
  using schar_inj[of c NUL] by (simp add: schar_def)

lemma strcmp_str: "str_at m p s \<Longrightarrow> str_at m q t \<Longrightarrow> \<exists>r. strcmp m p q = Some r \<and> (r = 0 \<longleftrightarrow> s = t)"
proof (induction s arbitrary: p q t)
  case Nil
  then show ?case
    by (cases t) (subst strcmp.simps, use schar_inj in fastforce)+
next
  case (Cons c s)
  show ?case
  proof (cases t)
    case Nil
    then show ?thesis using Cons.prems schar_inj by (subst strcmp.simps) fastforce
  next
    case (Cons d t')
    show ?thesis
    proof (cases "c = d")
      case True
      then show ?thesis using Cons.IH[of "p + 1" "q + 1" t'] Cons.prems \<open>t = d # t'\<close>
        by (subst strcmp.simps) simp
    next
      case False
      then show ?thesis using Cons.prems \<open>t = d # t'\<close> schar_inj by (subst strcmp.simps) simp
    qed
  qed
qed

section \<open>Properties\<close>

text \<open>C28: \<open>memcpy\<close> moves the block as a byte copy would, whichever of its two loops runs, whenever the
  destination does not overlap the source from above; no other byte changes.\<close>

theorem memcpy_correct:
  assumes "destination \<le> source \<or> source + len \<le> destination"
  shows "memcpy destination source len m a =
    (if destination \<le> a \<and> a < destination + len then m (source + (a - destination)) else m a)"
  using copy_bytes_eq[OF assms, of 0 m a] by (simp add: memcpy_bytes)

theorem memcpy_correct_witness:
  "memcpy 100 104 8 ((\<lambda>_. NUL)(107 := CHR ''k'', 112 := CHR ''l'')) 103 = CHR ''k''"
  using memcpy_correct[of 100 104 8 "(\<lambda>_. NUL)(107 := CHR ''k'', 112 := CHR ''l'')" 103] by simp

text \<open>\<open>memset\<close> writes the low byte of its argument to exactly the \<open>len\<close> bytes from the destination.\<close>

theorem memset_correct:
  "memset destination c len m =
    (\<lambda>a. if destination \<le> a \<and> a < destination + len then char_of (nat (c mod 256)) else m a)"
  by (simp add: memset_def memset_loop_eq)

text \<open>\<open>uintToBase\<close> leaves at the buffer a NUL-terminated string of the length it returns that reads
  back as the value, and writes nothing outside it; so two values print alike only if they are equal.\<close>

theorem uintToBase_roundtrip:
  assumes "2 \<le> base" "base \<le> 36"
  shows "\<exists>m' s. uintToBase v buffer base m = Some (length s, m') \<and> str_at m' buffer s \<and>
    read_base base s = v \<and> (\<forall>a. a < buffer \<or> buffer + length s < a \<longrightarrow> m' a = m a)"
proof -
  obtain m' where "uintToBase v buffer base m = Some (length (map digit_char (rev (digits_of base v))), m')"
    "str_at m' buffer (map digit_char (rev (digits_of base v)))"
    "\<And>a. a < buffer \<or> buffer + length (map digit_char (rev (digits_of base v))) < a \<Longrightarrow> m' a = m a"
    using uintToBase_eq[OF assms refl] by metis
  then show ?thesis using read_base_digits[OF assms] by blast
qed

theorem uintToBase_roundtrip_witness:
  "\<exists>m' s. uintToBase 255 10 16 (\<lambda>_. NUL) = Some (length s, m') \<and> str_at m' 10 s \<and> read_base 16 s = 255"
  using uintToBase_roundtrip[of 16 255 10 "\<lambda>_. NUL"] by auto

text \<open>On NUL-terminated strings \<open>strlen\<close> and \<open>strcmp\<close> return: the length, and 0 exactly for equal
  strings.\<close>

theorem strings_correct:
  assumes "str_at m p s" "str_at m q t"
  shows "strlen m p = Some (length s) \<and> (\<exists>r. strcmp m p q = Some r \<and> (r = 0 \<longleftrightarrow> s = t))"
  using strlen_str strcmp_str assms by blast

theorem strings_correct_witness:
  "\<exists>r. strcmp ((\<lambda>_. NUL)(1 := CHR ''a'', 2 := CHR ''b'', 5 := CHR ''a'')) 1 5 = Some r \<and> r \<noteq> 0"
  using strings_correct[of "(\<lambda>_. NUL)(1 := CHR ''a'', 2 := CHR ''b'', 5 := CHR ''a'')" 1 "''ab''" 5 "''a''"]
  by auto

end
