(* ===== verification/PipeCorrect.thy ===== *)
theory PipeCorrect
  imports Pipes SemProps
begin

text \<open>
  A pipe as a queue of bytes: the semaphore \<open>semRead\<close> counts the bytes in the ring, \<open>semWrite\<close> the room left,
  and a write or a read that does not have to wait appends to or takes from the queue.
\<close>

section \<open>Steps that do not wait\<close>

text \<open>What the calls around the ring leave alone.\<close>

definition calm :: "kstate \<Rightarrow> kstate \<Rightarrow> bool" where
  "calm s s' \<longleftrightarrow> threads_ok s' \<and> lockQuantumExceded (sched s') = 0 \<and> pipes s' = pipes s \<and> kmem s' = kmem s \<and>
     (\<forall>m. free_mutex_at s m \<longrightarrow> free_mutex_at s' m)"

lemma calm_refl: "threads_ok s \<Longrightarrow> lockQuantumExceded (sched s) = 0 \<Longrightarrow> calm s s"
  by (simp add: calm_def)

lemma pipe_frames [simp]:
  "pipes (set_lock v s) = pipes s" "pipes (set_entry m x s) = pipes s" "pipes (set_sem k y s) = pipes s"
  "kmem (set_lock v s) = kmem s" "kmem (set_entry m x s) = kmem s" "kmem (set_sem k y s) = kmem s"
  by (simp_all add: set_lock_def set_entry_def set_sem_def)

lemma free_mutex_frames [simp]:
  "free_mutex_at (set_sem k x s) m = free_mutex_at s m"
  by (simp_all add: free_mutex_at_def)

lemma free_mutex_touched:
  assumes "free_mutex_at s n"
  shows "free_mutex_at (seized m (touched who (entry s m)) s) n"
proof (cases "n = m")
  case True
  then show ?thesis using assms by (simp add: free_mutex_at_def touched_def)
qed (use assms free_seized in blast)

lemma valid_sem_iff: "valid_sem s k \<longleftrightarrow> in_range k MAX_SEMAPHORES \<and> tid_pid (s_creator (sem s k)) \<noteq> NOT_USED"
  by (auto simp: valid_sem_def isValidSemaphore_def in_range_def sem_def)

lemma wait_step:
  assumes "valid_sem s k" "free_mutex_at s (s_mutex (sem s k))" "threads_ok s" "lockQuantumExceded (sched s) = 0"
    "0 < s_value (sem s k)"
  shows "\<exists>s'. wait kt k pid t s = Done () s' \<and> calm s s' \<and>
    sem s' k = (sem s k)\<lparr>s_value := s_value (sem s k) - 1\<rparr> \<and> (\<forall>n. n \<noteq> k \<longrightarrow> sem s' n = sem s n)"
  unfolding wait_free_eq[OF assms]
  by (intro exI[of _ "set_lock 0 (set_sem k ((sem s k)\<lparr>s_value := s_value (sem s k) - 1\<rparr>)
       (seized (s_mutex (sem s k)) (touched (tid pid t) (entry s (s_mutex (sem s k)))) s))"])
     (simp add: calm_def assms(3,4) free_mutex_touched)

lemma signal_step:
  assumes "valid_sem s k" "free_mutex_at s (s_mutex (sem s k))" "threads_ok s" "lockQuantumExceded (sched s) = 0"
    "s_blockedQuantity (sem s k) = 0"
  shows "\<exists>s'. signal kt k s = Done () s' \<and> calm s s' \<and>
    sem s' k = (sem s k)\<lparr>s_value := s_value (sem s k) + 1\<rparr> \<and> (\<forall>n. n \<noteq> k \<longrightarrow> sem s' n = sem s n)"
proof -
  let ?m = "s_mutex (sem s k)" and ?who = "tid (cur_pid s) (cur_tid s)"
  let ?s' = "set_lock 0 (set_sem k ((sem s k)\<lparr>s_value := s_value (sem s k) + 1\<rparr>) (seized ?m (touched ?who (entry s ?m)) s))"
  have nw: "next_woken (sem s k) = None" using assms(5) by (simp add: next_woken_def)
  have "signal kt k s = Done () ?s'"
    unfolding signal_eq[OF assms(1-4)]
    using nw by (simp add: woken_sem_def woken_state_def set_entry_set_lock set_sem_commute)
  then show ?thesis by (intro exI[of _ ?s']) (simp add: calm_def assms(3,4) free_mutex_touched)
qed

lemma mutex_down_step:
  assumes "free_mutex_at s m" "threads_ok s" "lockQuantumExceded (sched s) = 0"
  shows "mutexDown kt m pid t s = Done () (set_lock 0 (seized m (down_free (tid pid t) (entry s m)) s))"
  by (rule down_free_app[OF assms(1,3)])

text \<open>Critical section: mutex taken, \<open>f\<close> applied to pipes and memory, mutex given back.\<close>

lemma mutex_up_step:
  fixes pid t :: int
  assumes "free_mutex_at s m" "threads_ok s" "lockQuantumExceded (sched s) = 0"
  defines "s1 \<equiv> set_lock 0 (seized m (down_free (tid pid t) (entry s m)) s)"
  shows "mutexUp m pid t (s1\<lparr>kmem := mem, pipes := ps\<rparr>) =
    Done () (set_lock 0 (seized m (touched (tid pid t) (entry s m)) (s\<lparr>kmem := mem, pipes := ps\<rparr>)))"
proof -
  let ?s2 = "s1\<lparr>kmem := mem, pipes := ps\<rparr>"
  have e: "entry ?s2 m = down_free (tid pid t) (entry s m)" by (simp add: s1_def entry_def[abs_def] set_lock_def seized_def set_entry_def)
  have ok: "threads_ok ?s2" using assms(2)
    by (subst threads_ok_cong[of ?s2 s1]) (simp_all add: s1_def)
  have v: "valid_mutex ?s2 m" using assms(1)
    by (auto simp: s1_def free_mutex_at_def valid_mutex_def isValidMutex_def seized_def set_entry_def set_lock_def down_free_def entry_def)
  have q: "m_blockedQuantity (entry s m) = 0" using assms(1) by (simp add: free_mutex_at_def)
  have l: "lockQuantumExceded (sched ?s2) = 0" using assms(3) by (simp add: s1_def)
  have "mutexUp m pid t ?s2 = Done () (set_lock 0 (set_entry m ((entry ?s2 m)\<lparr>m_value := UNLOCKED\<rparr>) ?s2))"
    by (rule up_free_app[OF v _ _ l ok]) (simp_all add: e q)
  also have "set_lock 0 (set_entry m ((entry ?s2 m)\<lparr>m_value := UNLOCKED\<rparr>) ?s2) =
      set_lock 0 (seized m (touched (tid pid t) (entry s m)) (s\<lparr>kmem := mem, pipes := ps\<rparr>))"
    unfolding e touched_down by (simp add: s1_def set_lock_def seized_def set_entry_def entry_def)
  finally show ?thesis .
qed

section \<open>The ring\<close>

definition RING :: int where
  "RING = PIPE_BUFFER_LENGTH + 1"

lemma RING_eq: "RING = 4097"
  by (simp add: RING_def PIPE_BUFFER_LENGTH_def PIPE_PAGES_def PAGE_SIZE_def)

lemma LENGTH_eq: "PIPE_BUFFER_LENGTH = 4096"
  by (simp add: PIPE_BUFFER_LENGTH_def PIPE_PAGES_def PAGE_SIZE_def)

definition filled :: "kstate \<Rightarrow> int \<Rightarrow> int" where
  "filled s i = s_value (sem s (p_semRead (pipes s i)))"

text \<open>The bytes waiting in the pipe, oldest first.\<close>

definition pipe_data :: "kstate \<Rightarrow> int \<Rightarrow> char list" where
  "pipe_data s i = map (\<lambda>j. kmem s (p_buffer (pipes s i) + nat ((p_readIndex (pipes s i) + int j) mod RING)))
     [0..<nat (filled s i)]"

definition idle_sem :: "kstate \<Rightarrow> int \<Rightarrow> bool" where
  "idle_sem s k \<longleftrightarrow> valid_sem s k \<and> free_mutex_at s (s_mutex (sem s k)) \<and> s_blockedQuantity (sem s k) = 0"

definition pipe_ok :: "kstate \<Rightarrow> int \<Rightarrow> bool" where
  "pipe_ok s i \<longleftrightarrow> threads_ok s \<and> lockQuantumExceded (sched s) = 0 \<and> in_range i MAX_PIPES \<and>
     (let p = pipes s i in p_used p \<and> idle_sem s (p_semRead p) \<and> idle_sem s (p_semWrite p) \<and>
       p_semRead p \<noteq> p_semWrite p \<and> free_mutex_at s (p_mutex p) \<and>
       0 \<le> p_readIndex p \<and> p_readIndex p < RING \<and> p_writeIndex p = (p_readIndex p + filled s i) mod RING \<and>
       0 \<le> filled s i \<and> filled s i \<le> PIPE_BUFFER_LENGTH \<and>
       s_value (sem s (p_semWrite p)) = PIPE_BUFFER_LENGTH - filled s i)"

text \<open>The addresses of the ring.\<close>

definition in_ring :: "kstate \<Rightarrow> int \<Rightarrow> addr \<Rightarrow> bool" where
  "in_ring s i a \<longleftrightarrow> p_buffer (pipes s i) \<le> a \<and> a < p_buffer (pipes s i) + nat RING"

lemma ring_next: "0 \<le> x \<Longrightarrow> x < RING \<Longrightarrow> (if x = PIPE_BUFFER_LENGTH then 0 else x + 1) = (x + 1) mod RING"
  by (auto simp: RING_def LENGTH_eq)

lemma idle_sem_calm:
  assumes "calm s s'" "idle_sem s k" "sem s' k = (sem s k)\<lparr>s_value := v\<rparr>"
  shows "idle_sem s' k"
  using assms by (simp add: idle_sem_def calm_def valid_sem_iff)

lemma sem_same: "x = x\<lparr>s_value := s_value (x :: semaphore_t)\<rparr>"
  by simp

text \<open>Before and after one byte: the semaphore \<open>a\<close> that is waited for and \<open>b\<close> that is signalled.\<close>

lemma byte_step:
  assumes "threads_ok s" "lockQuantumExceded (sched s) = 0" "idle_sem s a" "idle_sem s b" "a \<noteq> b" "0 < s_value (sem s a)"
    "free_mutex_at s m"
    "\<And>s1. pipes s1 = pipes s \<Longrightarrow> kmem s1 = kmem s \<Longrightarrow> body s1 = Done () (s1\<lparr>kmem := mem, pipes := ps\<rparr>)"
  shows "\<exists>s0 s'. wait kt a pid t s = Done () s0 \<and> pipes s0 = pipes s \<and>
    (\<exists>s1 s2. mutexDown kt m pid t s0 = Done () s1 \<and> pipes s1 = pipes s \<and>
      body s1 = Done () (s1\<lparr>kmem := mem, pipes := ps\<rparr>) \<and>
      mutexUp m pid t (s1\<lparr>kmem := mem, pipes := ps\<rparr>) = Done () s2 \<and> pipes s2 = ps \<and>
      signal kt b s2 = Done () s') \<and>
    threads_ok s' \<and> lockQuantumExceded (sched s') = 0 \<and> pipes s' = ps \<and> kmem s' = mem \<and>
    (\<forall>n. free_mutex_at s n \<longrightarrow> free_mutex_at s' n) \<and>
    sem s' a = (sem s a)\<lparr>s_value := s_value (sem s a) - 1\<rparr> \<and> sem s' b = (sem s b)\<lparr>s_value := s_value (sem s b) + 1\<rparr> \<and>
    (\<forall>n. n \<noteq> a \<and> n \<noteq> b \<longrightarrow> sem s' n = sem s n)"
proof -
  obtain s0 where s0: "wait kt a pid t s = Done () s0" "calm s s0"
    "sem s0 a = (sem s a)\<lparr>s_value := s_value (sem s a) - 1\<rparr>" "\<forall>n. n \<noteq> a \<longrightarrow> sem s0 n = sem s n"
    using wait_step[of s a kt pid t] assms(1-3,6) by (auto simp: idle_sem_def)
  have c0: "threads_ok s0" "lockQuantumExceded (sched s0) = 0" "pipes s0 = pipes s" "kmem s0 = kmem s" "free_mutex_at s0 m"
    "\<forall>n. free_mutex_at s n \<longrightarrow> free_mutex_at s0 n"
    using s0(2) assms(7) by (simp_all add: calm_def)
  let ?s1 = "set_lock 0 (seized m (down_free (tid pid t) (entry s0 m)) s0)"
  let ?s2 = "set_lock 0 (seized m (touched (tid pid t) (entry s0 m)) (s0\<lparr>kmem := mem, pipes := ps\<rparr>))"
  have dn: "mutexDown kt m pid t s0 = Done () ?s1" by (rule mutex_down_step[OF c0(5,1,2)])
  have bd: "body ?s1 = Done () (?s1\<lparr>kmem := mem, pipes := ps\<rparr>)" by (rule assms(8)) (simp_all add: c0)
  have up: "mutexUp m pid t (?s1\<lparr>kmem := mem, pipes := ps\<rparr>) = Done () ?s2" by (rule mutex_up_step[OF c0(5,1,2)])
  have e2: "entry (s0\<lparr>kmem := mem, pipes := ps\<rparr>) = entry s0" "sem ?s2 = sem s0" "pipes ?s2 = ps" "kmem ?s2 = mem"
    by (simp_all add: entry_def[abs_def] sem_def[abs_def] set_lock_def seized_def set_entry_def)
  have t2: "threads_ok ?s2" using c0(1) by (subst threads_ok_cong[of ?s2 s0]) simp_all
  have l2: "lockQuantumExceded (sched ?s2) = 0" using c0(2) by simp
  have f2: "free_mutex_at ?s2 n" if "free_mutex_at s0 n" for n
  proof -
    have "free_mutex_at (s0\<lparr>kmem := mem, pipes := ps\<rparr>) n"
      using that by (simp add: free_mutex_at_def valid_mutex_def e2(1))
    from free_mutex_touched[OF this, of m "tid pid t"] show ?thesis by (simp add: e2(1))
  qed
  have sb: "sem ?s2 b = sem s b" using s0(4) assms(5) by (simp add: e2(2))
  have vb: "valid_sem ?s2 b" "free_mutex_at ?s2 (s_mutex (sem ?s2 b))" "s_blockedQuantity (sem ?s2 b) = 0"
    using assms(4) sb f2 c0(6) by (auto simp: idle_sem_def valid_sem_iff)
  obtain s' where s': "signal kt b ?s2 = Done () s'" "calm ?s2 s'"
    "sem s' b = (sem ?s2 b)\<lparr>s_value := s_value (sem ?s2 b) + 1\<rparr>" "\<forall>n. n \<noteq> b \<longrightarrow> sem s' n = sem ?s2 n"
    using signal_step[OF vb(1,2) t2 l2 vb(3), of kt] by blast
  have c': "threads_ok s'" "lockQuantumExceded (sched s') = 0" "pipes s' = ps" "kmem s' = mem"
    "\<forall>n. free_mutex_at s n \<longrightarrow> free_mutex_at s' n"
    using s'(2) e2(3,4) f2 c0(6) by (auto simp: calm_def)
  have sa: "sem s' a = (sem s a)\<lparr>s_value := s_value (sem s a) - 1\<rparr>"
    using s'(4) assms(5) s0(3) by (simp add: e2(2))
  have so: "\<forall>n. n \<noteq> a \<and> n \<noteq> b \<longrightarrow> sem s' n = sem s n" using s'(4) s0(4) by (simp add: e2(2))
  have p1: "pipes ?s1 = pipes s" using c0(3) by simp
  show ?thesis
    by (intro exI[of _ s0] exI[of _ s'] conjI exI[of _ ?s1] exI[of _ ?s2])
       (use s0(1) c0(3) dn p1 bd up e2(3) s'(1,3) c' sa sb so in \<open>simp_all only:\<close>)
qed

section \<open>One byte\<close>

lemma with_pipe_app: "in_range i MAX_PIPES \<Longrightarrow> with_pipe i f s = f (pipes s i) s"
  by (simp add: with_pipe_def)

lemma upd_pipe_app: "in_range i MAX_PIPES \<Longrightarrow> upd_pipe i g s = Done () (s\<lparr>pipes := (pipes s)(i := g (pipes s i))\<rparr>)"
  by (simp add: upd_pipe_def with_pipe_app)

lemma ring_neq:
  assumes "0 \<le> j" "j < len" "len < RING"
  shows "(r + j) mod RING \<noteq> (r + len) mod RING"
proof
  assume "(r + j) mod RING = (r + len) mod RING"
  then have "RING dvd (r + len) - (r + j)" by (metis mod_eq_dvd_iff)
  then have "RING dvd len - j" by simp
  then have "RING \<le> len - j" using assms by (intro zdvd_imp_le) auto
  then show False using assms by simp
qed

lemma nat_ring_inj: "nat (x mod RING) = nat (y mod RING) \<longleftrightarrow> x mod RING = y mod RING"
  using pos_mod_sign[of RING] by (simp add: RING_eq eq_nat_nat_iff)

text \<open>The pipe after a byte went in.\<close>

definition wrote :: "pipe_t \<Rightarrow> pipe_t" where
  "wrote p = (if p_writeIndex p = PIPE_BUFFER_LENGTH then p\<lparr>p_writeIndex := 0\<rparr> else p\<lparr>p_writeIndex := p_writeIndex p + 1\<rparr>)"

definition consumed :: "pipe_t \<Rightarrow> pipe_t" where
  "consumed p = (if p_readIndex p = PIPE_BUFFER_LENGTH then p\<lparr>p_readIndex := 0\<rparr> else p\<lparr>p_readIndex := p_readIndex p + 1\<rparr>)"

lemma pipe_step_fields [simp]:
  "p_used (wrote p) = p_used p" "p_semRead (wrote p) = p_semRead p" "p_semWrite (wrote p) = p_semWrite p"
  "p_mutex (wrote p) = p_mutex p" "p_buffer (wrote p) = p_buffer p" "p_readIndex (wrote p) = p_readIndex p"
  "p_used (consumed p) = p_used p" "p_semRead (consumed p) = p_semRead p" "p_semWrite (consumed p) = p_semWrite p"
  "p_mutex (consumed p) = p_mutex p" "p_buffer (consumed p) = p_buffer p" "p_writeIndex (consumed p) = p_writeIndex p"
  by (simp_all add: wrote_def consumed_def)

lemma wrote_index: "0 \<le> p_writeIndex p \<Longrightarrow> p_writeIndex p < RING \<Longrightarrow> p_writeIndex (wrote p) = (p_writeIndex p + 1) mod RING"
  using ring_next[of "p_writeIndex p"] by (auto simp: wrote_def split: if_splits)

lemma consumed_index: "0 \<le> p_readIndex p \<Longrightarrow> p_readIndex p < RING \<Longrightarrow> p_readIndex (consumed p) = (p_readIndex p + 1) mod RING"
  using ring_next[of "p_readIndex p"] by (auto simp: consumed_def split: if_splits)

lemma idle_sem_after:
  assumes "idle_sem s k" "sem s' k = (sem s k)\<lparr>s_value := v\<rparr>" "\<forall>n. free_mutex_at s n \<longrightarrow> free_mutex_at s' n"
  shows "idle_sem s' k"
  using assms by (simp add: idle_sem_def valid_sem_iff)

lemma write_byte_runs:
  fixes msg k :: nat
  assumes "pipe_ok s i" "filled s i < PIPE_BUFFER_LENGTH"
  defines "p \<equiv> pipes s i" and "c \<equiv> kmem s (msg + k)"
  shows "\<exists>s'. writePipe_loop (Suc n) kt i msg k pid t s = writePipe_loop n kt i msg (k + 1) pid t s' \<and>
    threads_ok s' \<and> lockQuantumExceded (sched s') = 0 \<and> pipes s' i = wrote p \<and>
    kmem s' = (kmem s)(p_buffer p + nat (p_writeIndex p) := c) \<and>
    (\<forall>n. free_mutex_at s n \<longrightarrow> free_mutex_at s' n) \<and>
    sem s' (p_semWrite p) = (sem s (p_semWrite p))\<lparr>s_value := s_value (sem s (p_semWrite p)) - 1\<rparr> \<and>
    sem s' (p_semRead p) = (sem s (p_semRead p))\<lparr>s_value := s_value (sem s (p_semRead p)) + 1\<rparr>"
proof -
  have r: "in_range i MAX_PIPES" and ok: "threads_ok s" "lockQuantumExceded (sched s) = 0"
    "idle_sem s (p_semWrite p)" "idle_sem s (p_semRead p)" "p_semWrite p \<noteq> p_semRead p" "free_mutex_at s (p_mutex p)"
    "0 \<le> p_readIndex p" "p_readIndex p < RING" "p_writeIndex p = (p_readIndex p + filled s i) mod RING" "0 \<le> filled s i"
    "s_value (sem s (p_semWrite p)) = PIPE_BUFFER_LENGTH - filled s i" "p_used p"
    using assms(1) by (auto simp: pipe_ok_def Let_def p_def)
  let ?mem = "(kmem s)(p_buffer p + nat (p_writeIndex p) := c)" and ?ps = "(pipes s)(i := wrote p)"
  let ?P = "with_pipe i (\<lambda>p. kwith (\<lambda>s. poke (p_buffer p + nat (p_writeIndex p)) (kmem s (msg + k))))"
  let ?U = "upd_pipe i (\<lambda>p. if p_writeIndex p = PIPE_BUFFER_LENGTH then p\<lparr>p_writeIndex := 0\<rparr> else p\<lparr>p_writeIndex := p_writeIndex p + 1\<rparr>)"
  have P: "?P s1 = Done () (s1\<lparr>kmem := ?mem\<rparr>)" if "pipes s1 = pipes s" "kmem s1 = kmem s" for s1
    using r that by (simp add: with_pipe_app poke_def p_def c_def)
  have U: "?U (s1\<lparr>kmem := ?mem\<rparr>) = Done () (s1\<lparr>kmem := ?mem, pipes := ?ps\<rparr>)" if "pipes s1 = pipes s" for s1
    using r that by (simp add: upd_pipe_app wrote_def p_def)
  have body: "kbind ?P (\<lambda>_. ?U) s1 = Done () (s1\<lparr>kmem := ?mem, pipes := ?ps\<rparr>)" if "pipes s1 = pipes s" "kmem s1 = kmem s" for s1
    unfolding kbind_app P[OF that] obind.simps by (rule U[OF that(1)])
  have pos: "0 < s_value (sem s (p_semWrite p))" using ok(11) assms(2) by simp
  obtain s0 s1 s2 s' where st: "wait kt (p_semWrite p) pid t s = Done () s0" "pipes s0 = pipes s"
    "mutexDown kt (p_mutex p) pid t s0 = Done () s1" "pipes s1 = pipes s"
    "kbind ?P (\<lambda>_. ?U) s1 = Done () (s1\<lparr>kmem := ?mem, pipes := ?ps\<rparr>)"
    "mutexUp (p_mutex p) pid t (s1\<lparr>kmem := ?mem, pipes := ?ps\<rparr>) = Done () s2" "pipes s2 = ?ps"
    "signal kt (p_semRead p) s2 = Done () s'"
    and s': "threads_ok s'" "lockQuantumExceded (sched s') = 0" "pipes s' = ?ps" "kmem s' = ?mem"
      "\<forall>n. free_mutex_at s n \<longrightarrow> free_mutex_at s' n"
      "sem s' (p_semWrite p) = (sem s (p_semWrite p))\<lparr>s_value := s_value (sem s (p_semWrite p)) - 1\<rparr>"
      "sem s' (p_semRead p) = (sem s (p_semRead p))\<lparr>s_value := s_value (sem s (p_semRead p)) + 1\<rparr>"
    using byte_step[where kt = kt and pid = pid and t = t, OF ok(1-5) pos ok(6) body] by blast
  have pi: "pipes s i = p" "pipes s1 i = p"
    using st(4) by (simp_all add: p_def)
  have pp: "pipes s0 i = p" "pipes (s1\<lparr>kmem := ?mem, pipes := ?ps\<rparr>) i = wrote p" "pipes s2 i = wrote p" "pipes s' i = wrote p"
    using st(2,7) s'(3) by (simp_all add: p_def)
  have loop: "writePipe_loop (Suc n) kt i msg k pid t s = writePipe_loop n kt i msg (k + 1) pid t s'"
  proof -
    have "writePipe_loop (Suc n) kt i msg k pid t s =
        obind (wait kt (p_semWrite p) pid t s) (\<lambda>_ s. obind (with_pipe i (\<lambda>p. mutexDown kt (p_mutex p) pid t) s) (\<lambda>_ s.
        obind (kbind ?P (\<lambda>_. ?U) s) (\<lambda>_ s. obind (with_pipe i (\<lambda>p. mutexUp (p_mutex p) pid t) s) (\<lambda>_ s.
        obind (with_pipe i (\<lambda>p. signal kt (p_semRead p)) s) (\<lambda>_. writePipe_loop n kt i msg (k + 1) pid t)))))"
      by (simp add: kbind_def obind_assoc with_pipe_app r p_def)
    also have "\<dots> = writePipe_loop n kt i msg (k + 1) pid t s'"
      unfolding st(1) obind.simps with_pipe_app[OF r] pp pi st(3,5,6) pipe_step_fields st(8) ..
    finally show ?thesis .
  qed
  show ?thesis by (intro exI[of _ s'] conjI) (fact loop s'(1,2,4-7) pp(4))+
qed

lemma write_byte:
  fixes msg k :: nat
  assumes "pipe_ok s i" "filled s i < PIPE_BUFFER_LENGTH"
  defines "p \<equiv> pipes s i" and "c \<equiv> kmem s (msg + k)"
  shows "\<exists>s'. writePipe_loop (Suc n) kt i msg k pid t s = writePipe_loop n kt i msg (k + 1) pid t s' \<and>
    pipe_ok s' i \<and> filled s' i = filled s i + 1 \<and> pipe_data s' i = pipe_data s i @ [c] \<and>
    pipes s' i = wrote p \<and> kmem s' = (kmem s)(p_buffer p + nat (p_writeIndex p) := c)"
proof -
  have r: "in_range i MAX_PIPES" and ok: "threads_ok s" "lockQuantumExceded (sched s) = 0"
    "idle_sem s (p_semWrite p)" "idle_sem s (p_semRead p)" "p_semWrite p \<noteq> p_semRead p" "free_mutex_at s (p_mutex p)"
    "0 \<le> p_readIndex p" "p_readIndex p < RING" "p_writeIndex p = (p_readIndex p + filled s i) mod RING" "0 \<le> filled s i"
    "s_value (sem s (p_semWrite p)) = PIPE_BUFFER_LENGTH - filled s i" "p_used p"
    using assms(1) by (auto simp: pipe_ok_def Let_def p_def)
  obtain s' where loop: "writePipe_loop (Suc n) kt i msg k pid t s = writePipe_loop n kt i msg (k + 1) pid t s'"
    and s': "threads_ok s'" "lockQuantumExceded (sched s') = 0" "pipes s' i = wrote p"
      "kmem s' = (kmem s)(p_buffer p + nat (p_writeIndex p) := c)"
      "\<forall>n. free_mutex_at s n \<longrightarrow> free_mutex_at s' n"
      "sem s' (p_semWrite p) = (sem s (p_semWrite p))\<lparr>s_value := s_value (sem s (p_semWrite p)) - 1\<rparr>"
      "sem s' (p_semRead p) = (sem s (p_semRead p))\<lparr>s_value := s_value (sem s (p_semRead p)) + 1\<rparr>"
    using write_byte_runs[OF assms(1,2), folded p_def, of n kt msg k pid t] unfolding c_def by (elim exE conjE)
  note pp = s'(3)
  have f: "filled s' i = filled s i + 1" unfolding filled_def pp pipe_step_fields s'(7) by (simp add: filled_def p_def)
  have w: "0 \<le> p_writeIndex p" "p_writeIndex p < RING" using ok(9) by (simp_all add: RING_eq)
  have "pipe_ok s' i"
    unfolding pipe_ok_def Let_def pp pipe_step_fields f
    using ok s'(1,2,5) r assms(2) idle_sem_after[OF ok(3) s'(6,5)] idle_sem_after[OF ok(4) s'(7,5)] wrote_index[OF w]
    by (simp add: s'(6) mod_simps algebra_simps)
  moreover have "pipe_data s' i = pipe_data s i @ [c]"
  proof -
    have "nat (filled s i + 1) = Suc (nat (filled s i))" using ok(10) by simp
    moreover have "p_buffer p + nat ((p_readIndex p + int j) mod RING) \<noteq> p_buffer p + nat (p_writeIndex p)"
      if "j < nat (filled s i)" for j
      using ring_neq[of "int j" "filled s i" "p_readIndex p"] that assms(2) ok(9)
      by (simp add: nat_ring_inj LENGTH_eq RING_eq[symmetric]) (simp add: RING_eq)
    ultimately show ?thesis
      unfolding pipe_data_def pp pipe_step_fields f s'(4) p_def[symmetric] using ok(9,10) by simp
  qed
  ultimately show ?thesis using loop f pp s'(4) by (intro exI[of _ s']) simp
qed

lemma in_ring_read: "0 \<le> x \<Longrightarrow> x < RING \<Longrightarrow> \<not> in_ring s i a \<Longrightarrow> p_buffer (pipes s i) + nat x \<noteq> a"
  by (auto simp: in_ring_def)

lemma read_byte_runs:
  fixes dst k :: nat
  assumes "pipe_ok s i" "0 < filled s i"
  defines "p \<equiv> pipes s i"
  defines "c \<equiv> kmem s (p_buffer p + nat (p_readIndex p))"
  shows "\<exists>s'. readPipe_loop (Suc n) kt i dst k pid t s = readPipe_loop n kt i dst (k + 1) pid t s' \<and>
    threads_ok s' \<and> lockQuantumExceded (sched s') = 0 \<and> pipes s' i = consumed p \<and> kmem s' = (kmem s)(dst + k := c) \<and>
    (\<forall>n. free_mutex_at s n \<longrightarrow> free_mutex_at s' n) \<and>
    sem s' (p_semRead p) = (sem s (p_semRead p))\<lparr>s_value := s_value (sem s (p_semRead p)) - 1\<rparr> \<and>
    sem s' (p_semWrite p) = (sem s (p_semWrite p))\<lparr>s_value := s_value (sem s (p_semWrite p)) + 1\<rparr>"
proof -
  have r: "in_range i MAX_PIPES" and ok: "threads_ok s" "lockQuantumExceded (sched s) = 0"
    "idle_sem s (p_semRead p)" "idle_sem s (p_semWrite p)" "p_semRead p \<noteq> p_semWrite p" "free_mutex_at s (p_mutex p)"
    "0 \<le> p_readIndex p" "p_readIndex p < RING" "p_writeIndex p = (p_readIndex p + filled s i) mod RING"
    "filled s i \<le> PIPE_BUFFER_LENGTH" "s_value (sem s (p_semWrite p)) = PIPE_BUFFER_LENGTH - filled s i" "p_used p"
    using assms(1) by (auto simp: pipe_ok_def Let_def p_def)
  let ?mem = "(kmem s)(dst + k := c)" and ?ps = "(pipes s)(i := consumed p)"
  let ?P = "with_pipe i (\<lambda>p. kwith (\<lambda>s. poke (dst + k) (kmem s (p_buffer p + nat (p_readIndex p)))))"
  let ?U = "upd_pipe i (\<lambda>p. if p_readIndex p = PIPE_BUFFER_LENGTH then p\<lparr>p_readIndex := 0\<rparr> else p\<lparr>p_readIndex := p_readIndex p + 1\<rparr>)"
  have P: "?P s1 = Done () (s1\<lparr>kmem := ?mem\<rparr>)" if "pipes s1 = pipes s" "kmem s1 = kmem s" for s1
    using r that by (simp add: with_pipe_app poke_def p_def c_def)
  have U: "?U (s1\<lparr>kmem := ?mem\<rparr>) = Done () (s1\<lparr>kmem := ?mem, pipes := ?ps\<rparr>)" if "pipes s1 = pipes s" for s1
    using r that by (simp add: upd_pipe_app consumed_def p_def)
  have body: "kbind ?P (\<lambda>_. ?U) s1 = Done () (s1\<lparr>kmem := ?mem, pipes := ?ps\<rparr>)" if "pipes s1 = pipes s" "kmem s1 = kmem s" for s1
    unfolding kbind_app P[OF that] obind.simps by (rule U[OF that(1)])
  have pos: "0 < s_value (sem s (p_semRead p))" using assms(2) by (simp add: filled_def p_def)
  obtain s0 s1 s2 s' where st: "wait kt (p_semRead p) pid t s = Done () s0" "pipes s0 = pipes s"
    "mutexDown kt (p_mutex p) pid t s0 = Done () s1" "pipes s1 = pipes s"
    "kbind ?P (\<lambda>_. ?U) s1 = Done () (s1\<lparr>kmem := ?mem, pipes := ?ps\<rparr>)"
    "mutexUp (p_mutex p) pid t (s1\<lparr>kmem := ?mem, pipes := ?ps\<rparr>) = Done () s2" "pipes s2 = ?ps"
    "signal kt (p_semWrite p) s2 = Done () s'"
    and s': "threads_ok s'" "lockQuantumExceded (sched s') = 0" "pipes s' = ?ps" "kmem s' = ?mem"
      "\<forall>n. free_mutex_at s n \<longrightarrow> free_mutex_at s' n"
      "sem s' (p_semRead p) = (sem s (p_semRead p))\<lparr>s_value := s_value (sem s (p_semRead p)) - 1\<rparr>"
      "sem s' (p_semWrite p) = (sem s (p_semWrite p))\<lparr>s_value := s_value (sem s (p_semWrite p)) + 1\<rparr>"
    using byte_step[where kt = kt and pid = pid and t = t, OF ok(1-5) pos ok(6) body] by blast
  have pp: "pipes s i = p" "pipes s1 i = p" "pipes s0 i = p" "pipes (s1\<lparr>kmem := ?mem, pipes := ?ps\<rparr>) i = consumed p"
    "pipes s2 i = consumed p" "pipes s' i = consumed p"
    using st(2,4,7) s'(3) by (simp_all add: p_def)
  have loop: "readPipe_loop (Suc n) kt i dst k pid t s = readPipe_loop n kt i dst (k + 1) pid t s'"
  proof -
    have "readPipe_loop (Suc n) kt i dst k pid t s =
        obind (wait kt (p_semRead p) pid t s) (\<lambda>_ s. obind (with_pipe i (\<lambda>p. mutexDown kt (p_mutex p) pid t) s) (\<lambda>_ s.
        obind (kbind ?P (\<lambda>_. ?U) s) (\<lambda>_ s. obind (with_pipe i (\<lambda>p. mutexUp (p_mutex p) pid t) s) (\<lambda>_ s.
        obind (with_pipe i (\<lambda>p. signal kt (p_semWrite p)) s) (\<lambda>_. readPipe_loop n kt i dst (k + 1) pid t)))))"
      by (simp add: kbind_def obind_assoc with_pipe_app r p_def)
    also have "\<dots> = readPipe_loop n kt i dst (k + 1) pid t s'"
      unfolding st(1) obind.simps with_pipe_app[OF r] pp st(3,5,6) pipe_step_fields st(8) ..
    finally show ?thesis .
  qed
  show ?thesis by (intro exI[of _ s'] conjI) (fact loop s'(1,2,4-7) pp(6))+
qed

lemma read_byte:
  fixes dst k :: nat
  assumes "pipe_ok s i" "0 < filled s i" "\<not> in_ring s i (dst + k)"
  defines "p \<equiv> pipes s i"
  defines "c \<equiv> kmem s (p_buffer p + nat (p_readIndex p))"
  shows "\<exists>s'. readPipe_loop (Suc n) kt i dst k pid t s = readPipe_loop n kt i dst (k + 1) pid t s' \<and>
    pipe_ok s' i \<and> filled s' i = filled s i - 1 \<and> pipe_data s i = c # pipe_data s' i \<and>
    pipes s' i = consumed p \<and> kmem s' = (kmem s)(dst + k := c)"
proof -
  have r: "in_range i MAX_PIPES" and ok: "threads_ok s" "lockQuantumExceded (sched s) = 0"
    "idle_sem s (p_semRead p)" "idle_sem s (p_semWrite p)" "p_semRead p \<noteq> p_semWrite p" "free_mutex_at s (p_mutex p)"
    "0 \<le> p_readIndex p" "p_readIndex p < RING" "p_writeIndex p = (p_readIndex p + filled s i) mod RING"
    "filled s i \<le> PIPE_BUFFER_LENGTH" "s_value (sem s (p_semWrite p)) = PIPE_BUFFER_LENGTH - filled s i" "p_used p"
    using assms(1) by (auto simp: pipe_ok_def Let_def p_def)
  obtain s' where loop: "readPipe_loop (Suc n) kt i dst k pid t s = readPipe_loop n kt i dst (k + 1) pid t s'"
    and s': "threads_ok s'" "lockQuantumExceded (sched s') = 0" "pipes s' i = consumed p" "kmem s' = (kmem s)(dst + k := c)"
      "\<forall>n. free_mutex_at s n \<longrightarrow> free_mutex_at s' n"
      "sem s' (p_semRead p) = (sem s (p_semRead p))\<lparr>s_value := s_value (sem s (p_semRead p)) - 1\<rparr>"
      "sem s' (p_semWrite p) = (sem s (p_semWrite p))\<lparr>s_value := s_value (sem s (p_semWrite p)) + 1\<rparr>"
    using read_byte_runs[OF assms(1,2), folded p_def, folded c_def, of n kt dst k pid t] by (elim exE conjE)
  note pp = s'(3)
  have f: "filled s' i = filled s i - 1" unfolding filled_def pp pipe_step_fields s'(6) by (simp add: filled_def p_def)
  have ri: "p_readIndex (consumed p) = (p_readIndex p + 1) mod RING" by (rule consumed_index[OF ok(7,8)])
  have "p_readIndex p + 1 + (filled s i - 1) = p_readIndex p + filled s i" by simp
  then have mv: "((p_readIndex p + 1) mod RING + (filled s i - 1)) mod RING = (p_readIndex p + filled s i) mod RING"
    by (metis mod_add_left_eq)
  have b: "0 \<le> (p_readIndex p + 1) mod RING" "(p_readIndex p + 1) mod RING < RING" by (simp_all add: RING_eq)
  have "pipe_ok s' i"
    unfolding pipe_ok_def Let_def pp pipe_step_fields f ri
    using ok s'(1,2,5) r assms(2) idle_sem_after[OF ok(3) s'(6,5)] idle_sem_after[OF ok(4) s'(7,5)] mv b
    by (simp add: s'(7))
  moreover have "pipe_data s i = c # pipe_data s' i"
  proof -
    have l: "[0..<nat (filled s i)] = 0 # map Suc [0..<nat (filled s i - 1)]"
      using assms(2) by (simp add: upt_conv_Cons map_Suc_upt nat_diff_distrib Suc_diff_le)
    have cell: "kmem s' (p_buffer p + nat (x mod RING)) = kmem s (p_buffer p + nat (x mod RING))" for x
      unfolding s'(4) using in_ring_read[OF _ _ assms(3), of "x mod RING"] by (simp add: RING_eq p_def)
    have h: "p_readIndex p mod RING = p_readIndex p" using ok(7,8) by simp
    have sh: "((p_readIndex p + 1) mod RING + int j) mod RING = (p_readIndex p + int (Suc j)) mod RING" for j
      by (simp add: mod_simps algebra_simps)
    show ?thesis
      unfolding pipe_data_def p_def[symmetric] pp pipe_step_fields f ri sh cell l by (simp add: h c_def)
  qed
  ultimately show ?thesis using loop f pp s'(4) by (intro exI[of _ s']) simp
qed

section \<open>Many bytes\<close>

lemma writePipe_loop_eq:
  fixes msg k :: nat
  assumes "pipe_ok s i" "filled s i + int n \<le> PIPE_BUFFER_LENGTH" "\<And>j. j < n \<Longrightarrow> \<not> in_ring s i (msg + k + j)"
  shows "\<exists>s'. writePipe_loop n kt i msg k pid t s = Done () s' \<and> pipe_ok s' i \<and> filled s' i = filled s i + int n \<and>
    pipe_data s' i = pipe_data s i @ map (\<lambda>j. kmem s (msg + k + j)) [0..<n] \<and>
    (\<forall>a. in_ring s' i a = in_ring s i a) \<and> (\<forall>a. \<not> in_ring s i a \<longrightarrow> kmem s' a = kmem s a) \<and>
    p_buffer (pipes s' i) = p_buffer (pipes s i) \<and> p_readIndex (pipes s' i) = p_readIndex (pipes s i)"
  using assms
proof (induction n arbitrary: s k)
  case 0
  then show ?case by simp
next
  case (Suc n)
  let ?c = "kmem s (msg + k)" and ?p = "pipes s i"
  obtain s1 where s1: "writePipe_loop (Suc n) kt i msg k pid t s = writePipe_loop n kt i msg (k + 1) pid t s1"
    "pipe_ok s1 i" "filled s1 i = filled s i + 1" "pipe_data s1 i = pipe_data s i @ [?c]" "pipes s1 i = wrote ?p"
    "kmem s1 = (kmem s)(p_buffer ?p + nat (p_writeIndex ?p) := ?c)"
    using write_byte[of s i n kt msg k pid t] Suc.prems(1,2) by auto
  have ir: "in_ring s1 i a = in_ring s i a" for a by (simp add: in_ring_def s1(5))
  have "0 \<le> p_writeIndex ?p" "p_writeIndex ?p < RING" using Suc.prems(1) by (auto simp: pipe_ok_def Let_def RING_eq)
  then have wr: "in_ring s i (p_buffer ?p + nat (p_writeIndex ?p))" by (auto simp: in_ring_def)
  have same: "kmem s1 a = kmem s a" if "\<not> in_ring s i a" for a using that wr by (auto simp: s1(6))
  have d: "\<not> in_ring s1 i (msg + (k + 1) + j)" if "j < n" for j
    using Suc.prems(3)[of "Suc j"] that by (simp add: ir)
  have n1: "filled s1 i + int n \<le> PIPE_BUFFER_LENGTH" using Suc.prems(2) s1(3) by simp
  obtain s' where s': "writePipe_loop n kt i msg (k + 1) pid t s1 = Done () s'" "pipe_ok s' i" "filled s' i = filled s1 i + int n"
    "pipe_data s' i = pipe_data s1 i @ map (\<lambda>j. kmem s1 (msg + (k + 1) + j)) [0..<n]"
    "\<forall>a. in_ring s' i a = in_ring s1 i a" "\<forall>a. \<not> in_ring s1 i a \<longrightarrow> kmem s' a = kmem s1 a"
    "p_buffer (pipes s' i) = p_buffer (pipes s1 i)" "p_readIndex (pipes s' i) = p_readIndex (pipes s1 i)"
    using Suc.IH[OF s1(2) n1 d] by blast
  have m: "map (\<lambda>j. kmem s1 (msg + (k + 1) + j)) [0..<n] = map (\<lambda>j. kmem s (msg + k + Suc j)) [0..<n]"
    using same d ir by (intro map_cong) auto
  have l: "[0..<Suc n] = 0 # map Suc [0..<n]" by (simp add: upt_conv_Cons map_Suc_upt del: upt_Suc)
  have dat: "pipe_data s' i = pipe_data s i @ map (\<lambda>j. kmem s (msg + k + j)) [0..<Suc n]"
    unfolding s'(4) m s1(4) l by (simp add: comp_def)
  show ?case
    unfolding s1(1)
    using s' dat s1(3) ir same by (intro exI[of _ s']) (simp add: s1(5))
qed

lemma readPipe_loop_eq:
  fixes dst k :: nat
  assumes "pipe_ok s i" "int n \<le> filled s i" "\<And>j. j < n \<Longrightarrow> \<not> in_ring s i (dst + k + j)"
  shows "\<exists>s'. readPipe_loop n kt i dst k pid t s = Done () s' \<and> pipe_ok s' i \<and> filled s' i = filled s i - int n \<and>
    map (\<lambda>j. kmem s' (dst + k + j)) [0..<n] @ pipe_data s' i = pipe_data s i \<and>
    (\<forall>a. a < dst + k \<or> dst + k + n \<le> a \<longrightarrow> kmem s' a = kmem s a) \<and> (\<forall>a. in_ring s' i a = in_ring s i a) \<and>
    p_buffer (pipes s' i) = p_buffer (pipes s i) \<and>
    p_readIndex (pipes s' i) = (p_readIndex (pipes s i) + int n) mod RING"
  using assms
proof (induction n arbitrary: s k)
  case 0
  then show ?case by (simp add: pipe_ok_def Let_def)
next
  case (Suc n)
  let ?p = "pipes s i"
  let ?c = "kmem s (p_buffer ?p + nat (p_readIndex ?p))"
  obtain s1 where s1: "readPipe_loop (Suc n) kt i dst k pid t s = readPipe_loop n kt i dst (k + 1) pid t s1"
    "pipe_ok s1 i" "filled s1 i = filled s i - 1" "pipe_data s i = ?c # pipe_data s1 i" "pipes s1 i = consumed ?p"
    "kmem s1 = (kmem s)(dst + k := ?c)"
    using read_byte[of s i dst k n kt pid t] Suc.prems(1,2) Suc.prems(3)[of 0] by auto
  have ir: "in_ring s1 i a = in_ring s i a" for a by (simp add: in_ring_def s1(5))
  have d: "\<not> in_ring s1 i (dst + (k + 1) + j)" if "j < n" for j
    using Suc.prems(3)[of "Suc j"] that by (simp add: ir)
  have n1: "int n \<le> filled s1 i" using Suc.prems(2) s1(3) by simp
  obtain s' where s': "readPipe_loop n kt i dst (k + 1) pid t s1 = Done () s'" "pipe_ok s' i" "filled s' i = filled s1 i - int n"
    "map (\<lambda>j. kmem s' (dst + (k + 1) + j)) [0..<n] @ pipe_data s' i = pipe_data s1 i"
    "\<forall>a. a < dst + (k + 1) \<or> dst + (k + 1) + n \<le> a \<longrightarrow> kmem s' a = kmem s1 a" "\<forall>a. in_ring s' i a = in_ring s1 i a"
    "p_buffer (pipes s' i) = p_buffer (pipes s1 i)" "p_readIndex (pipes s' i) = (p_readIndex (pipes s1 i) + int n) mod RING"
    using Suc.IH[OF s1(2) n1 d] by blast
  have l: "[0..<Suc n] = 0 # map Suc [0..<n]" by (simp add: upt_conv_Cons map_Suc_upt del: upt_Suc)
  have h: "kmem s' (dst + k) = ?c" using s'(5) s1(6) by simp
  have dat: "map (\<lambda>j. kmem s' (dst + k + j)) [0..<Suc n] @ pipe_data s' i = pipe_data s i"
    unfolding l s1(4) using s'(4) h by (simp add: comp_def)
  have out: "kmem s' a = kmem s a" if "a < dst + k \<or> dst + k + Suc n \<le> a" for a
    using that s'(5)[rule_format, of a] s1(6) by auto
  have "0 \<le> p_readIndex ?p \<and> p_readIndex ?p < RING" using Suc.prems(1) by (auto simp: pipe_ok_def Let_def)
  then have "p_readIndex (pipes s1 i) = (p_readIndex ?p + 1) mod RING" by (simp add: s1(5) consumed_index)
  then have ri: "p_readIndex (pipes s' i) = (p_readIndex ?p + int (Suc n)) mod RING"
    unfolding s'(8) by (simp add: mod_simps algebra_simps)
  show ?case
    unfolding s1(1)
    using s'(1-3,6,7) dat out ri s1(3) ir by (intro exI[of _ s']) (simp add: s1(5))
qed

end
