(* ===== verification/PipeProps.thy ===== *)
theory PipeProps
  imports PipeCorrect
begin

text \<open>The properties of the pipes, with a concrete pipe over the two-process system.\<close>

section \<open>A concrete pipe\<close>

definition ex_pipe :: pipe_t where
  "ex_pipe = \<lparr>p_creator = tid 1 0, p_name = [], p_readIndex = 0, p_writeIndex = 0, p_buffer = 8192,
     p_semWrite = 5, p_semRead = 6, p_used = True, p_mutex = 3\<rparr>"

definition ex_pipe_state :: "kstate \<Rightarrow> kstate" where
  "ex_pipe_state s = (set_sem 6 (ex_sem 0 nobody 0) (ex_sem_state (ex_sem 4096 nobody 0) s))\<lparr>pipes := (\<lambda>_. ex_pipe)\<rparr>"

lemma ex_pipe_simps [simp]:
  "pipes (ex_pipe_state s) i = ex_pipe" "sem (ex_pipe_state s) 5 = ex_sem 4096 nobody 0"
  "sem (ex_pipe_state s) 6 = ex_sem 0 nobody 0" "sched (ex_pipe_state s) = ex_sched"
  "p_readIndex ex_pipe = 0" "p_writeIndex ex_pipe = 0" "p_buffer ex_pipe = 8192" "p_semRead ex_pipe = 6" "p_semWrite ex_pipe = 5"
  by (simp_all add: ex_pipe_state_def ex_pipe_def sem_def) (simp_all add: ex_sem_state_def set_sem_def)

lemma ex_pipe_free: "free_mutex_at (ex_pipe_state s) 3"
  using ex_sem_valid(2)[of "ex_sem 4096 nobody 0" s]
  by (simp add: free_mutex_at_def valid_mutex_def entry_def ex_pipe_state_def set_sem_def)

lemma ex_pipe_ok: "pipe_ok (ex_pipe_state s) 2"
proof -
  have ok: "threads_ok (ex_pipe_state s)"
    by (subst threads_ok_cong[of _ "ex_sem_state (ex_sem 4096 nobody 0) s"]) (simp_all add: ex_pipe_state_def)
  have "idle_sem (ex_pipe_state s) 5" "idle_sem (ex_pipe_state s) 6"
    using ex_pipe_free by (simp_all add: idle_sem_def valid_sem_iff in_range_def MAX_SEMAPHORES_def) (simp_all add: ex_sem_def)
  then show ?thesis
    using ok ex_pipe_free[of s]
    by (simp add: pipe_ok_def Let_def filled_def in_range_def MAX_PIPES_def RING_eq LENGTH_eq)
       (simp add: ex_pipe_def ex_sem_def)
qed

lemma ex_pipe_ring [simp]: "in_ring (ex_pipe_state s) 2 a = (8192 \<le> a \<and> a < 8192 + 4097)"
  by (simp add: in_ring_def RING_eq)

lemma ex_pipe_data [simp]: "pipe_data (ex_pipe_state s) 2 = []" "filled (ex_pipe_state s) 2 = 0"
  by (simp_all add: pipe_data_def filled_def) (simp_all add: ex_sem_def)

lemma length_pipe_data: "pipe_ok s i \<Longrightarrow> int (length (pipe_data s i)) = filled s i"
  by (simp add: pipe_data_def pipe_ok_def Let_def)

lemma pipe_ok_valid: "pipe_ok s i \<Longrightarrow> isValidPipe s i"
  by (auto simp: pipe_ok_def isValidPipe_def in_range_def Let_def)

lemma pipe_ret:
  "pipe_ok s i \<Longrightarrow> writePipe_loop n kt i msg 0 pid t s = Done () s' \<Longrightarrow> writePipe kt (i + 3) msg (int n) pid t s = Done 0 s'"
  "pipe_ok s i \<Longrightarrow> readPipe_loop n kt i msg 0 pid t s = Done () s' \<Longrightarrow> readPipe kt (i + 3) msg (int n) pid t s = Done 0 s'"
  using pipe_ok_valid[of s i] by (simp_all add: writePipe_def readPipe_def Let_def)

section \<open>Properties\<close>

text \<open>C18: Writing to a pipe with room returns 0, appends exactly the bytes of the message to the bytes waiting in the
  pipe, changes no memory outside the ring, and preserves the invariant of ring and semaphores.\<close>

theorem writePipe_appends:
  assumes "pipe_ok s i" "int (length (pipe_data s i)) + int n \<le> PIPE_BUFFER_LENGTH" "\<forall>j<n. \<not> in_ring s i (msg + j)"
  shows "\<exists>s'. writePipe kt (i + 3) msg (int n) pid t s = Done 0 s' \<and> pipe_ok s' i \<and>
    pipe_data s' i = pipe_data s i @ map (\<lambda>j. kmem s (msg + j)) [0..<n] \<and>
    (\<forall>a. \<not> in_ring s i a \<longrightarrow> kmem s' a = kmem s a) \<and> (\<forall>a. in_ring s' i a = in_ring s i a)"
proof -
  have "filled s i + int n \<le> PIPE_BUFFER_LENGTH" using assms(2) length_pipe_data[OF assms(1)] by simp
  from writePipe_loop_eq[OF assms(1) this, of msg 0 kt pid t]
  obtain s' where "writePipe_loop n kt i msg 0 pid t s = Done () s'" "pipe_ok s' i"
    "pipe_data s' i = pipe_data s i @ map (\<lambda>j. kmem s (msg + j)) [0..<n]"
    "\<forall>a. in_ring s' i a = in_ring s i a" "\<forall>a. \<not> in_ring s i a \<longrightarrow> kmem s' a = kmem s a"
    using assms(3) by auto
  then show ?thesis using pipe_ret(1)[OF assms(1)] by (intro exI[of _ s']) simp
qed

theorem writePipe_appends_witness:
  "\<forall>s kt. \<exists>s'. writePipe kt 5 100 2 1 0 (ex_pipe_state s) = Done 0 s' \<and>
    pipe_data s' 2 = [kmem (ex_pipe_state s) 100, kmem (ex_pipe_state s) 101]"
proof (intro allI)
  fix s kt
  show "\<exists>s'. writePipe kt 5 100 2 1 0 (ex_pipe_state s) = Done 0 s' \<and>
    pipe_data s' 2 = [kmem (ex_pipe_state s) 100, kmem (ex_pipe_state s) 101]"
    using writePipe_appends[OF ex_pipe_ok, of s 2 100 kt 1 0]
    by (auto simp: LENGTH_eq upt_conv_Cons numeral_2_eq_2)
qed

text \<open>C19: Reading from a pipe that holds enough bytes returns 0, takes exactly the oldest ones out, in order, writes
  nothing but the destination, and preserves the invariant.\<close>

theorem readPipe_takes:
  assumes "pipe_ok s i" "n \<le> length (pipe_data s i)" "\<forall>j<n. \<not> in_ring s i (dst + j)"
  shows "\<exists>s'. readPipe kt (i + 3) dst (int n) pid t s = Done 0 s' \<and> pipe_ok s' i \<and>
    map (\<lambda>j. kmem s' (dst + j)) [0..<n] = take n (pipe_data s i) \<and> pipe_data s' i = drop n (pipe_data s i) \<and>
    (\<forall>a. a < dst \<or> dst + n \<le> a \<longrightarrow> kmem s' a = kmem s a)"
proof -
  have "int n \<le> filled s i" using assms(2) length_pipe_data[OF assms(1)] by simp
  from readPipe_loop_eq[OF assms(1) this, of dst 0 kt pid t]
  obtain s' where s': "readPipe_loop n kt i dst 0 pid t s = Done () s'" "pipe_ok s' i"
    "map (\<lambda>j. kmem s' (dst + j)) [0..<n] @ pipe_data s' i = pipe_data s i"
    "\<forall>a. a < dst \<or> dst + n \<le> a \<longrightarrow> kmem s' a = kmem s a"
    using assms(3) by auto
  have "map (\<lambda>j. kmem s' (dst + j)) [0..<n] = take n (pipe_data s i)" "pipe_data s' i = drop n (pipe_data s i)"
    unfolding s'(3)[symmetric] by simp_all
  then show ?thesis using pipe_ret(2)[OF assms(1)] s' by (intro exI[of _ s']) simp
qed

text \<open>Three bytes that go over the end of the ring.\<close>

definition ex_wrapped_pipe :: pipe_t where
  "ex_wrapped_pipe = ex_pipe\<lparr>p_readIndex := 4096, p_writeIndex := 2\<rparr>"

definition ex_wrapped_state :: "kstate \<Rightarrow> kstate" where
  "ex_wrapped_state s = (set_sem 6 (ex_sem 3 nobody 0) (ex_sem_state (ex_sem 4093 nobody 0) s))\<lparr>pipes := (\<lambda>_. ex_wrapped_pipe),
     kmem := (\<lambda>_. NUL)(12288 := CHR ''a'', 8192 := CHR ''b'', 8193 := CHR ''c'')\<rparr>"

lemma ex_wrapped_simps [simp]:
  "pipes (ex_wrapped_state s) i = ex_wrapped_pipe" "sem (ex_wrapped_state s) 5 = ex_sem 4093 nobody 0"
  "sem (ex_wrapped_state s) 6 = ex_sem 3 nobody 0" "sched (ex_wrapped_state s) = ex_sched"
  "p_readIndex ex_wrapped_pipe = 4096" "p_writeIndex ex_wrapped_pipe = 2" "p_buffer ex_wrapped_pipe = 8192"
  "p_semRead ex_wrapped_pipe = 6" "p_semWrite ex_wrapped_pipe = 5" "p_mutex ex_wrapped_pipe = 3" "p_used ex_wrapped_pipe"
  by (simp_all add: ex_wrapped_state_def ex_wrapped_pipe_def sem_def) (simp_all add: ex_sem_state_def set_sem_def ex_pipe_def)

lemma ex_wrapped_ok: "pipe_ok (ex_wrapped_state s) 2"
proof -
  have ok: "threads_ok (ex_wrapped_state s)"
    by (subst threads_ok_cong[of _ "ex_sem_state (ex_sem 4093 nobody 0) s"]) (simp_all add: ex_wrapped_state_def)
  have free: "free_mutex_at (ex_wrapped_state s) 3"
    using ex_sem_valid(2)[of "ex_sem 4093 nobody 0" s]
    by (simp add: free_mutex_at_def valid_mutex_def entry_def ex_wrapped_state_def set_sem_def)
  have "idle_sem (ex_wrapped_state s) 5" "idle_sem (ex_wrapped_state s) 6"
    using free by (simp_all add: idle_sem_def valid_sem_iff in_range_def MAX_SEMAPHORES_def) (simp_all add: ex_sem_def)
  then show ?thesis
    using ok free
    by (simp add: pipe_ok_def Let_def filled_def in_range_def MAX_PIPES_def RING_eq LENGTH_eq) (simp add: ex_sem_def)
qed

lemma ex_wrapped_data: "pipe_data (ex_wrapped_state s) 2 = ''abc''"
proof -
  have f: "nat (filled (ex_wrapped_state s) 2) = 3" by (simp add: filled_def) (simp add: ex_sem_def)
  have l: "[0..<3] = [0, 1, 2 :: nat]" by (simp add: upt_conv_Cons)
  have m: "kmem (ex_wrapped_state s) 12288 = CHR ''a''" "kmem (ex_wrapped_state s) 8192 = CHR ''b''"
    "kmem (ex_wrapped_state s) 8193 = CHR ''c''" by (simp_all add: ex_wrapped_state_def)
  show ?thesis unfolding pipe_data_def f l by (simp add: RING_eq m)
qed

theorem readPipe_takes_witness:
  "\<forall>s kt. \<exists>s'. readPipe kt 5 100 2 1 0 (ex_wrapped_state s) = Done 0 s' \<and> kmem s' 100 = CHR ''a'' \<and> kmem s' 101 = CHR ''b'' \<and>
    pipe_data s' 2 = ''c''"
proof (intro allI)
  fix s kt
  have free: "\<forall>j<2. \<not> in_ring (ex_wrapped_state s) 2 (100 + j)" by (simp add: in_ring_def RING_eq)
  have "[0..<2] = [0, 1 :: nat]" by (simp add: upt_conv_Cons)
  then show "\<exists>s'. readPipe kt 5 100 2 1 0 (ex_wrapped_state s) = Done 0 s' \<and> kmem s' 100 = CHR ''a'' \<and> kmem s' 101 = CHR ''b'' \<and>
    pipe_data s' 2 = ''c''"
    using readPipe_takes[OF ex_wrapped_ok _ free, of kt 1 0] by (auto simp: ex_wrapped_data)
qed

text \<open>C37: The ring has one cell more than the page allocated for it: after a full page is written and one byte read,
  the next byte written goes to the first address behind the page.\<close>

theorem writePipe_overruns_page:
  assumes "pipe_ok s i" "pipe_data s i = []" "p_readIndex (pipes s i) = 0" "\<forall>j\<le>PAGE_SIZE. \<not> in_ring s i (msg + j)"
    "\<not> in_ring s i dst" "dst \<noteq> msg"
  shows "\<exists>s1 s2 s3. writePipe kt (i + 3) msg (int PAGE_SIZE) pid t s = Done 0 s1 \<and>
    readPipe kt (i + 3) dst 1 pid t s1 = Done 0 s2 \<and> writePipe kt (i + 3) msg 1 pid t s2 = Done 0 s3 \<and>
    kmem s3 (p_buffer (pipes s i) + PAGE_SIZE) = kmem s msg"
proof -
  have f0: "filled s i = 0" using length_pipe_data[OF assms(1)] assms(2) by simp
  have ps: "int PAGE_SIZE = 4096" "PAGE_SIZE = 4096" by (simp_all add: PAGE_SIZE_def)
  obtain s1 where s1: "writePipe_loop PAGE_SIZE kt i msg 0 pid t s = Done () s1" "pipe_ok s1 i" "filled s1 i = 4096"
    "\<forall>a. in_ring s1 i a = in_ring s i a" "\<forall>a. \<not> in_ring s i a \<longrightarrow> kmem s1 a = kmem s a"
    "p_buffer (pipes s1 i) = p_buffer (pipes s i)" "p_readIndex (pipes s1 i) = 0"
    using writePipe_loop_eq[OF assms(1), of PAGE_SIZE msg 0 kt pid t] assms(3,4) f0 by (auto simp: ps LENGTH_eq)
  obtain s2 where s2: "readPipe_loop 1 kt i dst 0 pid t s1 = Done () s2" "pipe_ok s2 i" "filled s2 i = 4095"
    "\<forall>a. a < dst \<or> dst + 1 \<le> a \<longrightarrow> kmem s2 a = kmem s1 a" "\<forall>a. in_ring s2 i a = in_ring s1 i a"
    "p_buffer (pipes s2 i) = p_buffer (pipes s i)" "p_readIndex (pipes s2 i) = 1"
    using readPipe_loop_eq[OF s1(2), of 1 dst 0 kt pid t] s1 assms(5)
    by (auto simp: RING_eq simp del: readPipe_loop.simps One_nat_def)
  have f2: "filled s2 i + int 1 \<le> PIPE_BUFFER_LENGTH" by (simp add: s2(3) LENGTH_eq)
  have d2: "\<not> in_ring s2 i (msg + 0 + j)" if "j < 1" for j using that s2(5) s1(4) assms(4)[rule_format, of 0] by simp
  obtain s3 where s3: "writePipe_loop 1 kt i msg 0 pid t s2 = Done () s3" "pipe_ok s3 i" "filled s3 i = filled s2 i + int 1"
    "pipe_data s3 i = pipe_data s2 i @ map (\<lambda>j. kmem s2 (msg + 0 + j)) [0..<1]"
    "p_buffer (pipes s3 i) = p_buffer (pipes s2 i)" "p_readIndex (pipes s3 i) = p_readIndex (pipes s2 i)"
    using writePipe_loop_eq[OF s2(2) f2 d2, of kt pid t] by blast
  have e3: "filled s3 i = 4096" "pipe_data s3 i = pipe_data s2 i @ [kmem s2 msg]" "p_buffer (pipes s3 i) = p_buffer (pipes s i)"
    "p_readIndex (pipes s3 i) = 1" using s3(3-6) s2(3,6,7) by simp_all
  have src: "kmem s2 msg = kmem s msg"
  proof -
    have "msg < dst \<or> dst + 1 \<le> msg" using assms(6) by arith
    then have "kmem s2 msg = kmem s1 msg" using s2(4) by blast
    then show ?thesis using s1(5) assms(4)[rule_format, of 0] by simp
  qed
  have l2: "length (pipe_data s2 i) = 4095" using length_pipe_data[OF s2(2)] s2(3) by simp
  have "pipe_data s3 i ! 4095 = kmem s3 (p_buffer (pipes s i) + 4096)"
    unfolding pipe_data_def e3(1,3,4) by (simp add: RING_eq)
  moreover have "pipe_data s3 i ! 4095 = kmem s msg" unfolding e3(2) using l2 src by (simp add: nth_append)
  ultimately have b: "kmem s3 (p_buffer (pipes s i) + PAGE_SIZE) = kmem s msg" by (simp add: ps)
  have "writePipe kt (i + 3) msg (int PAGE_SIZE) pid t s = Done 0 s1" "writePipe kt (i + 3) msg 1 pid t s2 = Done 0 s3"
    "readPipe kt (i + 3) dst 1 pid t s1 = Done 0 s2"
    using pipe_ret(1)[OF assms(1) s1(1)] pipe_ret(1)[OF s2(2) s3(1)] pipe_ret(2)[OF s1(2) s2(1)] by simp_all
  then show ?thesis using b by blast
qed

theorem writePipe_overruns_page_witness:
  "\<forall>s kt. \<exists>s2 s3. writePipe kt 5 100 1 1 0 s2 = Done 0 s3 \<and>
    kmem s3 (p_buffer (pipes (ex_pipe_state s) 2) + PAGE_SIZE) = kmem (ex_pipe_state s) 100"
proof (intro allI)
  fix s kt
  have five: "(2::int) + 3 = 5" by simp
  have "\<exists>s1 s2 s3. writePipe kt (2 + 3) 100 (int PAGE_SIZE) 1 0 (ex_pipe_state s) = Done 0 s1 \<and>
    readPipe kt (2 + 3) 99 1 1 0 s1 = Done 0 s2 \<and> writePipe kt (2 + 3) 100 1 1 0 s2 = Done 0 s3 \<and>
    kmem s3 (p_buffer (pipes (ex_pipe_state s) 2) + PAGE_SIZE) = kmem (ex_pipe_state s) 100"
    by (rule writePipe_overruns_page[OF ex_pipe_ok]) (simp_all add: PAGE_SIZE_def)
  then show "\<exists>s2 s3. writePipe kt 5 100 1 1 0 s2 = Done 0 s3 \<and>
      kmem s3 (p_buffer (pipes (ex_pipe_state s) 2) + PAGE_SIZE) = kmem (ex_pipe_state s) 100"
    unfolding five by blast
qed

end
