(* ===== verification/TimerProps.thy ===== *)
theory TimerProps
  imports Timer MutexProps
begin

text \<open>
  Sleeping threads: one sleeper is woken by exactly the tick its time is over; but the sleeper removed
  from the head of the list stays its head, and the threads behind it are never woken.
\<close>

section \<open>Table entries\<close>

definition sleeper :: "kstate \<Rightarrow> int \<Rightarrow> sleepingThread_t" where
  "sleeper s i = sleepingProcesses (tim s) i"

definition set_sleeper :: "int \<Rightarrow> sleepingThread_t \<Rightarrow> kstate \<Rightarrow> kstate" where
  "set_sleeper i x s = s\<lparr>tim := (tim s)\<lparr>sleepingProcesses := (sleepingProcesses (tim s))(i := x)\<rparr>\<rparr>"

lemma set_sleeper_simps [simp]:
  "sched (set_sleeper i x s) = sched s" "procs (set_sleeper i x s) = procs s" "thrs (set_sleeper i x s) = thrs s"
  "sleeper (set_sleeper i x s) j = (if j = i then x else sleeper s j)"
  "sleeping (tim (set_sleeper i x s)) = sleeping (tim s)" "firstSleeping (tim (set_sleeper i x s)) = firstSleeping (tim s)"
  "timerFirstAvailable (tim (set_sleeper i x s)) = timerFirstAvailable (tim s)"
  "set_sleeper i x (set_sleeper i y s) = set_sleeper i x s"
  by (simp_all add: set_sleeper_def sleeper_def)

lemma set_sleeper_same: "set_sleeper i (sleeper s i) s = s"
  by (simp add: set_sleeper_def sleeper_def)

lemma with_sleeper_app: "in_range i MAX_SLEEPING_PROCESSES \<Longrightarrow> with_sleeper i f s = f (sleeper s i) s"
  by (simp add: with_sleeper_def sleeper_def)

lemma upd_sleeper_app:
  "in_range i MAX_SLEEPING_PROCESSES \<Longrightarrow> upd_sleeper i g s = Done () (set_sleeper i (g (sleeper s i)) s)"
  by (simp add: upd_sleeper_def with_sleeper_app upd_tim_def set_sleeper_def sleeper_def)

lemma sleeper_set_state [simp]: "sleeper (set_state pid t st s) i = sleeper s i"
  by (simp add: sleeper_def)

lemma set_state_sleeper: "set_state pid t st (set_sleeper i x s) = set_sleeper i x (set_state pid t st s)"
  using thread_at_cong[of "set_sleeper i x s" s pid t]
  by (simp add: set_state_def) (simp add: set_sleeper_def split: option.split)

lemma threads_ok_sleeper [simp]: "threads_ok (set_sleeper i x s) = threads_ok s"
  by (rule threads_ok_cong) simp_all

lemma threads_ok_tim [simp]: "threads_ok (s\<lparr>tim := x\<rparr>) = threads_ok s"
  by (rule threads_ok_cong) simp_all

definition ticks :: "nat \<Rightarrow> unit KS" where
  "ticks n = kdo (replicate n decrementTicks)"

lemma ticks_Suc: "ticks (Suc n) s = obind (decrementTicks s) (\<lambda>_. ticks n)"
  by (simp add: ticks_def)

lemma ticks_0 [simp]: "ticks 0 s = Done () s"
  by (simp add: ticks_def)

section \<open>A list of one\<close>

text \<open>The sleeper on place \<open>i\<close> after one tick.\<close>

definition older :: "64 word \<Rightarrow> sleepingThread_t \<Rightarrow> sleepingThread_t" where
  "older n x = x\<lparr>tickQuantity := tickQuantity x - n\<rparr>"

definition head_only :: "kstate \<Rightarrow> int \<Rightarrow> bool" where
  "head_only s i \<longleftrightarrow> sleeping (tim s) = 1 \<and> firstSleeping (tim s) = i \<and> in_range i MAX_SLEEPING_PROCESSES"

lemma fuel_eq: "nat MAX_SLEEPING_PROCESSES + 1 = Suc (Suc 63)"
  by (simp add: MAX_SLEEPING_PROCESSES_def)

lemma tick_wait:
  assumes "head_only s i" "tickQuantity (sleeper s i) \<noteq> 1"
  shows "decrementTicks s = Done () (set_sleeper i (older 1 (sleeper s i)) s)"
proof -
  let ?x = "older 1 (sleeper s i)"
  let ?s1 = "set_sleeper i ?x s"
  have r: "in_range i MAX_SLEEPING_PROCESSES" and f: "firstSleeping (tim s) = i" "sleeping (tim s) = 1"
    using assms(1) by (simp_all add: head_only_def)
  have nz: "(tickQuantity ?x = 0) = False" using assms(2) by (simp add: older_def)
  have u: "upd_sleeper i (\<lambda>x. x\<lparr>tickQuantity := tickQuantity x - 1\<rparr>) s = Done () ?s1"
    unfolding upd_sleeper_app[OF r] by (simp add: older_def)
  have sx: "sleeper ?s1 i = ?x" by simp
  have c: "(0 < sleeping (tim s)) = True" "(0 + 1 < sleeping (tim ?s1)) = False" using f by simp_all
  show ?thesis
    unfolding decrementTicks_def fuel_eq kwith_app f(1) decrementTicks_loop.simps(2)[of "Suc 63"] c(1) if_True
      kdo.simps kbind_kskip kbind_app u obind.simps with_sleeper_app[OF r] sx nz if_False kskip_app
    unfolding decrementTicks_loop.simps kwith_app c(2) if_False kskip_app ..
qed

lemma ticks_wait:
  assumes "head_only s i" "\<And>k. 1 \<le> k \<Longrightarrow> k \<le> n \<Longrightarrow> tickQuantity (sleeper s i) \<noteq> of_nat k"
  shows "ticks n s = Done () (set_sleeper i (older (of_nat n) (sleeper s i)) s)"
  using assms
proof (induction n arbitrary: s)
  case 0
  then show ?case by (simp add: older_def set_sleeper_same)
next
  case (Suc n)
  let ?s = "set_sleeper i (older 1 (sleeper s i)) s"
  have t: "decrementTicks s = Done () ?s" by (rule tick_wait[OF Suc.prems(1)]) (use Suc.prems(2)[of 1] in simp)
  have h: "head_only ?s i" using Suc.prems(1) by (simp add: head_only_def)
  have "tickQuantity (sleeper ?s i) \<noteq> of_nat k" if "1 \<le> k" "k \<le> n" for k
  proof
    assume "tickQuantity (sleeper ?s i) = of_nat k"
    then have "tickQuantity (sleeper s i) = of_nat (Suc k)" by (simp add: older_def algebra_simps)
    then show False using Suc.prems(2)[of "Suc k"] that by simp
  qed
  then show ?case
    unfolding ticks_Suc t obind.simps using Suc.IH[OF h] by (simp add: older_def algebra_simps)
qed

text \<open>The tick that ends the sleep.\<close>

definition woken_timer :: "int \<Rightarrow> kstate \<Rightarrow> kstate" where
  "woken_timer i s = (let s1 = set_sleeper i ((sleeper s i)\<lparr>tickQuantity := 0, sl_pid := NOT_USED\<rparr>) s in
     s1\<lparr>tim := (tim s1)\<lparr>sleeping := sleeping (tim s) - 1,
       timerFirstAvailable := (if timerFirstAvailable (tim s) > i then i else timerFirstAvailable (tim s))\<rparr>\<rparr>)"

lemma remove_head:
  assumes "0 < sleeping (tim s)" "firstSleeping (tim s) = i" "in_range i MAX_SLEEPING_PROCESSES" "threads_ok s"
    "tickQuantity (sleeper s i) = 0" "sl_pid (sleeper s i) = pid" "sl_thread (sleeper s i) = t"
  shows "removeSleepingProcess pid t s = Done 1 (woken_timer i (set_state pid t READY s))"
proof -
  obtain n where n: "nat (sleeping (tim s)) = Suc n" using assms(1) by (metis gr0_implies_Suc zero_less_nat_eq)
  have same: "(sleeper s i)\<lparr>tickQuantity := 0, sl_pid := NOT_USED\<rparr> = (sleeper s i)\<lparr>sl_pid := NOT_USED\<rparr>"
    using assms(5) by (cases "sleeper s i") simp
  have st: "tim (set_state pid t READY s) = tim s" by simp
  show ?thesis
    using assms
    by (simp add: removeSleepingProcess_def n with_sleeper_app upd_sleeper_app changeThreadState_set_state upd_tim_def
        woken_timer_def Let_def same)
qed

lemma loop_end: "\<not> i < sleeping (tim s) \<Longrightarrow> decrementTicks_loop (Suc n) i c s = Done () s"
  by simp

lemma tick_wake:
  assumes "0 < sleeping (tim s)" "sleeping (tim s) \<le> 2" "firstSleeping (tim s) = i" "in_range i MAX_SLEEPING_PROCESSES"
    "tickQuantity (sleeper s i) = 1" "threads_ok s"
  defines "x \<equiv> sleeper s i"
  shows "decrementTicks s = Done () (woken_timer i (set_state (sl_pid x) (sl_thread x) READY s))"
proof -
  let ?s1 = "set_sleeper i (older 1 x) s"
  have rm: "removeSleepingProcess (sl_pid x) (sl_thread x) ?s1 =
      Done 1 (woken_timer i (set_state (sl_pid x) (sl_thread x) READY ?s1))"
    by (rule remove_head) (use assms(1,3-6) in \<open>simp_all add: older_def x_def\<close>)
  have e: "woken_timer i (set_state (sl_pid x) (sl_thread x) READY ?s1) =
      woken_timer i (set_state (sl_pid x) (sl_thread x) READY s)"
    by (simp add: set_state_sleeper) (simp add: woken_timer_def Let_def older_def x_def set_sleeper_def sleeper_def)
  let ?w = "woken_timer i (set_state (sl_pid x) (sl_thread x) READY s)"
  have "\<not> 1 < sleeping (tim ?w)" using assms(2) by (simp add: woken_timer_def Let_def)
  then have stop: "decrementTicks_loop 64 1 c ?w = Done () ?w" for c
    using loop_end[of 1 ?w 63 c] by simp
  have x1: "tickQuantity (older 1 x) = 0" "sl_pid (older 1 x) = sl_pid x" "sl_thread (older 1 x) = sl_thread x"
    using assms(5) by (simp_all add: older_def x_def)
  have u: "upd_sleeper i (\<lambda>x. x\<lparr>tickQuantity := tickQuantity x - 1\<rparr>) s = Done () ?s1"
    unfolding upd_sleeper_app[OF assms(4)] by (simp add: older_def x_def)
  have sx: "sleeper ?s1 i = older 1 x" by simp
  have c: "(0 < sleeping (tim s)) = True" using assms(1) by simp
  show ?thesis
    unfolding decrementTicks_def fuel_eq kwith_app assms(3) decrementTicks_loop.simps(2)[of "Suc 63"] c if_True
      kdo.simps kbind_kskip kbind_app u obind.simps with_sleeper_app[OF assms(4)] sx x1
    by (simp add: rm e with_sleeper_app[OF assms(4)] stop)
qed

lemma woken_timer_simps [simp]:
  "thrs (woken_timer i s) = thrs s" "procs (woken_timer i s) = procs s" "sched (woken_timer i s) = sched s"
  "sleeping (tim (woken_timer i s)) = sleeping (tim s) - 1" "firstSleeping (tim (woken_timer i s)) = firstSleeping (tim s)"
  "sleeper (woken_timer i s) j = (if j = i then (sleeper s i)\<lparr>tickQuantity := 0, sl_pid := NOT_USED\<rparr> else sleeper s j)"
  by (simp_all add: woken_timer_def Let_def) (simp add: sleeper_def set_sleeper_def)

lemma ticks_add: "ticks m s = Done () s' \<Longrightarrow> ticks (m + n) s = ticks n s'"
  by (induction m arbitrary: s) (auto simp: ticks_Suc obind_eq_Done)

section \<open>Adding\<close>

lemma add_eq:
  assumes "sleeping (tim s) < MAX_SLEEPING_PROCESSES" "in_range (timerFirstAvailable (tim s)) MAX_SLEEPING_PROCESSES"
  defines "i \<equiv> timerFirstAvailable (tim s)"
  shows "\<exists>s'. addSleepingProcess pid t n s = Done 1 s' \<and> sched s' = sched s \<and> procs s' = procs s \<and> thrs s' = thrs s \<and>
    sleeper s' i = \<lparr>sl_pid = pid, sl_thread = t, tickQuantity = n, sl_next = firstSleeping (tim s)\<rparr> \<and>
    (\<forall>j. j \<noteq> i \<longrightarrow> sleeper s' j = sleeper s j) \<and>
    sleeping (tim s') = sleeping (tim s) + 1 \<and> firstSleeping (tim s') = i"
proof -
  let ?x = "(sleeper s i)\<lparr>sl_pid := pid, sl_thread := t, tickQuantity := n, sl_next := firstSleeping (tim s)\<rparr>"
  let ?s1 = "set_sleeper i ?x s"
  let ?s2 = "?s1\<lparr>tim := (tim ?s1)\<lparr>firstSleeping := i\<rparr>\<rparr>"
  let ?s3 = "?s2\<lparr>tim := (tim ?s2)\<lparr>timerFirstAvailable := getNextAvailableSpace (tim ?s2)\<rparr>\<rparr>"
  let ?s4 = "?s3\<lparr>tim := (tim ?s3)\<lparr>sleeping := sleeping (tim ?s3) + 1\<rparr>\<rparr>"
  have "addSleepingProcess pid t n s = Done 1 ?s4"
    using assms(1,2) unfolding addSleepingProcess_def
    by (simp add: Let_def upd_sleeper_app upd_tim_def i_def[symmetric])
  moreover have "?x = \<lparr>sl_pid = pid, sl_thread = t, tickQuantity = n, sl_next = firstSleeping (tim s)\<rparr>" by simp
  ultimately show ?thesis by (intro exI[of _ ?s4]) (simp add: sleeper_def set_sleeper_def)
qed

section \<open>A concrete timer\<close>

definition ex_timer_state :: "kstate \<Rightarrow> kstate" where
  "ex_timer_state s = (ex_state s)\<lparr>tim := \<lparr>sleepingProcesses = (\<lambda>_. \<lparr>sl_pid = NOT_USED, sl_thread = 0, tickQuantity = 0, sl_next = 0\<rparr>),
     timerFirstAvailable = 0, sleeping = 0, firstSleeping = NOT_USED\<rparr>\<rparr>"

lemma ex_timer_simps [simp]:
  "threads_ok (ex_timer_state s)" "sleeping (tim (ex_timer_state s)) = 0" "timerFirstAvailable (tim (ex_timer_state s)) = 0"
  "in_range 0 MAX_SLEEPING_PROCESSES"
  using ex_threads_ok[of s] by (simp_all add: ex_timer_state_def in_range_def MAX_SLEEPING_PROCESSES_def)

section \<open>Properties\<close>

text \<open>C30: A thread that goes to sleep while nobody else sleeps is woken by exactly the tick its time is over: no
  earlier tick changes any thread, that tick makes the thread ready and nothing else, and empties the table.\<close>

theorem sleeper_wakes_on_time:
  assumes "threads_ok s" "sleeping (tim s) = 0" "in_range (timerFirstAvailable (tim s)) MAX_SLEEPING_PROCESSES" "0 < n"
  shows "\<exists>s1. addSleepingProcess pid t n s = Done 1 s1 \<and>
    (\<forall>m<unat n. \<exists>s2. ticks m s1 = Done () s2 \<and> thrs s2 = thrs s) \<and>
    (\<exists>s2. ticks (unat n) s1 = Done () s2 \<and> thrs s2 = thrs (set_state pid t READY s) \<and> sleeping (tim s2) = 0)"
proof -
  let ?i = "timerFirstAvailable (tim s)"
  have "sleeping (tim s) < MAX_SLEEPING_PROCESSES" using assms(2) by (simp add: MAX_SLEEPING_PROCESSES_def)
  from add_eq[OF this assms(3), of pid t n] obtain s1 where s1: "addSleepingProcess pid t n s = Done 1 s1"
    "sched s1 = sched s" "procs s1 = procs s" "thrs s1 = thrs s"
    "sleeper s1 ?i = \<lparr>sl_pid = pid, sl_thread = t, tickQuantity = n, sl_next = firstSleeping (tim s)\<rparr>"
    "sleeping (tim s1) = 1" "firstSleeping (tim s1) = ?i" using assms(2) by auto
  have h: "head_only s1 ?i" using s1(6,7) assms(3) by (simp add: head_only_def)
  have neq: "tickQuantity (sleeper s1 ?i) \<noteq> of_nat k" if "k < unat n" for k
  proof
    assume "tickQuantity (sleeper s1 ?i) = of_nat k"
    then have "unat n = k mod 2 ^ 64" by (simp add: s1(5) unat_of_nat)
    then show False using that by simp
  qed
  have wait_k: "ticks m s1 = Done () (set_sleeper ?i (older (of_nat m) (sleeper s1 ?i)) s1)" if "m < unat n" for m
    by (rule ticks_wait[OF h]) (use that neq in auto)
  define m where "m = unat n - 1"
  have m: "unat n = m + 1" using assms(4) by (simp add: m_def unat_gt_0)
  let ?s2 = "set_sleeper ?i (older (of_nat m) (sleeper s1 ?i)) s1"
  have "n = of_nat (unat n)" by simp
  then have om: "of_nat m = n - 1" unfolding m by (simp add: algebra_simps)
  have x: "tickQuantity (sleeper ?s2 ?i) = 1" "sl_pid (sleeper ?s2 ?i) = pid" "sl_thread (sleeper ?s2 ?i) = t"
    by (simp_all add: older_def s1(5) om)
  have ok1: "threads_ok s1" using assms(1) s1 by (subst threads_ok_cong[of s1 s]) simp_all
  have "decrementTicks ?s2 = Done () (woken_timer ?i (set_state pid t READY ?s2))"
    using tick_wake[of ?s2 ?i] h x ok1 by (simp add: head_only_def)
  moreover have "ticks m s1 = Done () ?s2" using wait_k m by simp
  ultimately have w: "ticks (unat n) s1 = Done () (woken_timer ?i (set_state pid t READY ?s2))"
    unfolding m ticks_add[OF \<open>ticks m s1 = Done () ?s2\<close>] One_nat_def ticks_Suc by simp
  have "thread_at s1 pid t = thread_at s pid t" by (rule thread_at_cong) (simp_all add: s1)
  then have "thrs (set_state pid t READY s1) = thrs (set_state pid t READY s)"
    by (simp add: set_state_def s1(4) split: option.split)
  then have "thrs (woken_timer ?i (set_state pid t READY ?s2)) = thrs (set_state pid t READY s)"
    by (simp add: set_state_sleeper)
  moreover have "sleeping (tim (woken_timer ?i (set_state pid t READY ?s2))) = 0" using s1(6) by simp
  ultimately show ?thesis using s1(1,4) w wait_k by auto
qed

theorem sleeper_wakes_on_time_witness:
  "\<forall>s. \<exists>s1 s2. addSleepingProcess 2 0 18 (ex_timer_state s) = Done 1 s1 \<and> ticks 18 s1 = Done () s2 \<and>
    thrs s2 = thrs (set_state 2 0 READY (ex_timer_state s))"
  using sleeper_wakes_on_time[OF ex_timer_simps(1,2), of _ 18 2 0] by (simp, blast)

text \<open>C38: When the thread at the head of the list is woken while another one sleeps behind it, the head stays the
  head of the list: for the next \<open>2 ^ 64 - 1\<close> ticks the other thread is not woken and its counter stands still.\<close>

theorem second_sleeper_frozen:
  assumes "threads_ok s" "sleeping (tim s) = 2" "firstSleeping (tim s) = i" "in_range i MAX_SLEEPING_PROCESSES"
    "tickQuantity (sleeper s i) = 1" "sl_next (sleeper s i) = j" "j \<noteq> i" "n < 2 ^ 64 - 1"
  shows "\<exists>s'. ticks (Suc n) s = Done () s' \<and> sleeper s' j = sleeper s j \<and>
    thrs s' = thrs (set_state (sl_pid (sleeper s i)) (sl_thread (sleeper s i)) READY s)"
proof -
  let ?x = "sleeper s i"
  let ?w = "woken_timer i (set_state (sl_pid ?x) (sl_thread ?x) READY s)"
  have t: "decrementTicks s = Done () ?w" by (rule tick_wake) (use assms in simp_all)
  have h: "head_only ?w i" using assms(2-4) by (simp add: head_only_def)
  have "tickQuantity (sleeper ?w i) \<noteq> of_nat k" if "1 \<le> k" "k \<le> n" for k
    using that assms(8) by (auto simp: eq_commute[of 0] word_of_nat_eq_0_iff dest: nat_dvd_not_less)
  from ticks_wait[OF h this] have "ticks (Suc n) s = Done () (set_sleeper i (older (of_nat n) (sleeper ?w i)) ?w)"
    unfolding ticks_Suc t obind.simps by simp
  then show ?thesis using assms(7) by (simp)
qed

theorem second_sleeper_frozen_witness:
  "\<forall>s. \<exists>s0 s'. ticks 1000 s0 = Done () s' \<and> tickQuantity (sleeper s0 0) = 50 \<and> tickQuantity (sleeper s' 0) = 50"
proof
  fix s
  let ?c = "tim (ex_timer_state s)"
  let ?s = "(ex_timer_state s)\<lparr>tim := ?c\<lparr>sleepingProcesses := (sleepingProcesses ?c)
      (0 := \<lparr>sl_pid = 1, sl_thread = 0, tickQuantity = 50, sl_next = NOT_USED\<rparr>,
       1 := \<lparr>sl_pid = 2, sl_thread = 0, tickQuantity = 1, sl_next = 0\<rparr>), sleeping := 2, firstSleeping := 1\<rparr>\<rparr>"
  have "\<exists>s'. ticks (Suc 999) ?s = Done () s' \<and> sleeper s' 0 = sleeper ?s 0 \<and>
    thrs s' = thrs (set_state (sl_pid (sleeper ?s 1)) (sl_thread (sleeper ?s 1)) READY ?s)"
    by (rule second_sleeper_frozen) (simp_all add: sleeper_def in_range_def MAX_SLEEPING_PROCESSES_def)
  moreover have "Suc 999 = 1000" "tickQuantity (sleeper ?s 0) = 50" by (simp_all add: sleeper_def)
  ultimately show "\<exists>s0 s'. ticks 1000 s0 = Done () s' \<and> tickQuantity (sleeper s0 0) = 50 \<and> tickQuantity (sleeper s' 0) = 50"
    by (metis (no_types, lifting))
qed

end
