(* ===== verification/DeviceProps.thy ===== *)
theory DeviceProps
  imports Kernel
begin

text \<open>
  The devices: which calendar dates \<open>recalculate\<close> gets right, the handler address an interrupt gate
  encodes, and the modifier state behind the keyboard table.
\<close>

section \<open>Clock\<close>

text \<open>The calendar without leap years, and the date and hour shifted by a time zone.\<close>

definition month_days :: "int \<Rightarrow> int" where
  "month_days m = daysPerMonth ! nat (m - 1)"

definition next_day :: "date \<Rightarrow> date" where
  "next_day d = (if d_day d < month_days (d_month d) then d\<lparr>d_day := d_day d + 1\<rparr>
     else if d_month d < 12 then d\<lparr>d_day := 1, d_month := d_month d + 1\<rparr>
     else d\<lparr>d_day := 1, d_month := 1, d_year := d_year d + 1\<rparr>)"

definition prev_day :: "date \<Rightarrow> date" where
  "prev_day d = (if d_day d > 1 then d\<lparr>d_day := d_day d - 1\<rparr>
     else if d_month d > 1 then d\<lparr>d_day := month_days (d_month d - 1), d_month := d_month d - 1\<rparr>
     else d\<lparr>d_day := 31, d_month := 12, d_year := d_year d - 1\<rparr>)"

definition shifted :: "int \<Rightarrow> date \<Rightarrow> date" where
  "shifted zone d = (let t = d_hours d + zone in
     if t < 0 then prev_day d\<lparr>d_hours := t + 24\<rparr>
     else if t \<ge> 24 then next_day d\<lparr>d_hours := t - 24\<rparr>
     else d\<lparr>d_hours := t\<rparr>)"

definition valid_date :: "date \<Rightarrow> bool" where
  "valid_date d \<longleftrightarrow> 0 \<le> d_hours d \<and> d_hours d < 24 \<and> 1 \<le> d_month d \<and> d_month d \<le> 12 \<and>
     1 \<le> d_day d \<and> d_day d \<le> month_days (d_month d)"

lemma days_month: "1 \<le> m \<Longrightarrow> m \<le> 12 \<Longrightarrow> days m = Some (month_days m)"
  by (simp add: days_def month_days_def)

lemma month_days_pos: "1 \<le> m \<Longrightarrow> m \<le> 12 \<Longrightarrow> 28 \<le> month_days m \<and> month_days m \<le> 31"
proof -
  assume "1 \<le> m" "m \<le> 12"
  then have "nat (m - 1) < length daysPerMonth" by (simp add: daysPerMonth_def)
  then have "month_days m \<in> set daysPerMonth" unfolding month_days_def by (rule nth_mem)
  then show ?thesis by (auto simp: daysPerMonth_def)
qed

text \<open>C27: On a valid date and time zone the conversion always returns, and it returns the calendar's answer in all cases
  but two: the hour 24 stands for midnight of the following day, and going back over the first day of a month
  gives day 0.\<close>

theorem recalculate_calendar:
  assumes "valid_date d" "-12 \<le> zone" "zone \<le> 14"
  shows "\<exists>d'. recalculate zone d = Some d' \<and>
    (d' = shifted zone d \<longleftrightarrow> d_hours d + zone \<noteq> 24 \<and> \<not> (d_hours d + zone < 0 \<and> d_day d = 1)) \<and>
    (d_hours d + zone = 24 \<longrightarrow> d_hours d' = 24) \<and> (d_hours d + zone < 0 \<and> d_day d = 1 \<longrightarrow> d_day d' = 0)"
proof -
  note v = assms(1)[unfolded valid_date_def]
  note dm = days_month[of "d_month d"] month_days_pos[of "d_month d"]
  consider "d_hours d + zone < 0" | "0 \<le> d_hours d + zone" "d_hours d + zone < 24" | "d_hours d + zone = 24" | "24 < d_hours d + zone"
    by linarith
  then show ?thesis
  proof cases
    case 1
    have r: "recalculate zone d = Some (d\<lparr>d_hours := d_hours d + zone + 24, d_day := d_day d - 1\<rparr>)"
      using 1 v by (simp add: recalculate_def Let_def)
    have "d\<lparr>d_hours := d_hours d + zone + 24, d_day := d_day d - 1\<rparr> = shifted zone d \<longleftrightarrow> d_day d \<noteq> 1"
      using 1 v month_days_pos[of "d_month d - 1"]
      by (cases d) (auto simp: shifted_def prev_day_def)
    then show ?thesis using r 1 by auto
  next
    case 2
    then have "recalculate zone d = Some (d\<lparr>d_hours := d_hours d + zone\<rparr>)" by (simp add: recalculate_def Let_def)
    then show ?thesis using 2 by (simp add: shifted_def Let_def)
  next
    case 3
    have r: "recalculate zone d = Some (d\<lparr>d_hours := 24\<rparr>)" using 3 by (simp add: recalculate_def Let_def)
    have "d_hours (shifted zone d) = 0" using 3 by (simp add: shifted_def Let_def)
    then have "d\<lparr>d_hours := 24\<rparr> \<noteq> shifted zone d" by (metis date.select_convs(1) date.surjective date.update_convs(1) zero_neq_numeral)
    then show ?thesis using r 3 by simp
  next
    case 4
    have m: "(d_hours d + zone) mod 24 = d_hours d + zone - 24"
      using 4 v assms(3) by (subst mod_pos_pos_trivial[of "d_hours d + zone - 24" 24, symmetric]) simp_all
    have "recalculate zone d = Some (shifted zone d)"
      using 4 v dm m by (cases d) (auto simp: recalculate_def Let_def shifted_def next_day_def)
    then show ?thesis using 4 by simp
  qed
qed

theorem recalculate_calendar_witness:
  "\<exists>d'. recalculate (-3) \<lparr>d_hours = 1, d_day = 1, d_month = 3, d_year = 20\<rparr> = Some d' \<and> d_day d' = 0"
  using recalculate_calendar[of "\<lparr>d_hours = 1, d_day = 1, d_month = 3, d_year = 20\<rparr>" "-3"]
  by (auto simp: valid_date_def month_days_def daysPerMonth_def)

section \<open>Interrupt gates\<close>

definition gate_target :: "IDTEntry_t \<Rightarrow> 64 word" where
  "gate_target e = ucast (offset_l e) OR push_bit 16 (ucast (offset_m e)) OR push_bit 32 (ucast (offset_h e))"

text \<open>The gate written by \<open>iSetHandler\<close> encodes exactly the address of its handler, as a present kernel interrupt
  gate, and no other entry of the table changes.\<close>

theorem iSetHandler_roundtrip:
  "gate_target (iSetHandler i handler table i) = handler \<and> attrs (iSetHandler i handler table i) = 0x8E \<and>
   selector (iSetHandler i handler table i) = 8 \<and> (\<forall>j. j \<noteq> i \<longrightarrow> iSetHandler i handler table j = table j)"
proof -
  have "gate_target (iSetHandler i handler table i) = handler"
  proof (rule bit_word_eqI)
    fix n assume n: "n < LENGTH(64)"
    have ones: "(0xFFFF :: 16 word) = -1" "(0xFFFFFFFF :: 32 word) = -1" by simp_all
    have masks: "x AND 0xFFFF = x" "y AND 0xFFFFFFFF = y" for x :: "16 word" and y :: "32 word"
      unfolding ones by simp_all
    consider "n < 16" | "16 \<le> n" "n < 32" | "32 \<le> n" by linarith
    then show "bit (gate_target (iSetHandler i handler table i)) n = bit handler n"
      using n by cases (auto simp: gate_target_def iSetHandler_def masks bit_simps)
  qed
  then show ?thesis by (simp add: iSetHandler_def)
qed

theorem iSetHandler_roundtrip_witness:
  "\<forall>table. gate_target (iSetHandler 0x80 0x100123 table 0x80) = 0x100123"
  using iSetHandler_roundtrip[of "0x80" "0x100123"] by blast

section \<open>Keyboard\<close>

text \<open>Operations that leave the modifier state alone.\<close>

definition keeps_kbd :: "'a KS \<Rightarrow> bool" where
  "keeps_kbd m \<longleftrightarrow> (\<forall>s a s'. m s = Done a s' \<longrightarrow> kbd s' = kbd s)"

lemma keeps_kbdD: "keeps_kbd m \<Longrightarrow> m s = Done a s' \<Longrightarrow> kbd s' = kbd s"
  by (simp add: keeps_kbd_def)

lemma keeps_kbd_in_term: "keeps_kbd (in_term m)"
  by (auto simp: keeps_kbd_def in_term_def split: outcome.splits)

lemma keeps_kbd_bind: "keeps_kbd m \<Longrightarrow> (\<And>a. keeps_kbd (f a)) \<Longrightarrow> keeps_kbd (kbind m f)"
  by (auto simp: keeps_kbd_def obind_eq_Done)

lemma keeps_kbd_skip: "keeps_kbd kskip"
  by (simp add: keeps_kbd_def)

lemma keeps_kbd_unblock: "keeps_kbd unblockRead"
  by (auto simp: keeps_kbd_def unblockRead_def with_foreground_thread_def access_defs kwhen_def split: option.splits if_splits)

lemma keeps_kbd_writeBuffer: "keeps_kbd (writeBuffer c)"
  by (auto simp: writeBuffer_def intro!: keeps_kbd_in_term keeps_kbd_unblock keeps_kbd_bind keeps_kbd_skip
      simp del: kbind_kskip)

lemma modifier_key_other: "\<not> is_modifier c \<Longrightarrow> modifier_key c k = k\<lparr>specialKey := False\<rparr>"
  by (simp add: is_modifier_def modifier_key_def)

lemma kbd_upd [simp]: "upd_kbd g s = Done () (s\<lparr>kbd := g (kbd s)\<rparr>)"
  by (simp add: upd_kbd_def)

text \<open>What one scan code does to the shift state, unless it is the \<open>c\<close> that kills with control held.\<close>

definition shift_view :: "kbd_state \<Rightarrow> bool \<times> bool \<times> bool \<times> u8" where
  "shift_view k = (leftShift k, rightShift k, ctrl k, shiftMayus k)"

lemma parseSpecialKey_kbd: "parseSpecialKey c s = Done () s' \<Longrightarrow> kbd s' = modifier_key c (kbd s)"
  by (auto simp: parseSpecialKey_def dest!: keeps_kbdD[OF keeps_kbd_in_term] split: if_splits)

lemma parseScanCode_view:
  assumes "parseScanCode kt c s = Done () s'" "\<not> ctrl (kbd s)"
  shows "shift_view (kbd s') = shift_view (modifier_key c (kbd s))"
proof (cases "specialKey (kbd s) \<or> is_modifier c")
  case True
  then have "parseSpecialKey c s = Done () s'" using assms(1) by (auto simp: parseScanCode_def Let_def split: if_splits)
  then show ?thesis by (simp add: parseSpecialKey_kbd)
next
  case False
  then have "shift_view (modifier_key c (kbd s)) = shift_view (kbd s)"
    by (simp add: modifier_key_other shift_view_def)
  moreover have "shift_view (kbd s') = shift_view (kbd s)"
    using assms False
    by (auto simp: parseScanCode_def Let_def shift_view_def dest!: keeps_kbdD[OF keeps_kbd_writeBuffer] split: if_splits)
  ultimately show ?thesis by simp
qed

definition typed :: "killer \<Rightarrow> u8 list \<Rightarrow> unit KS" where
  "typed kt codes = kdo (map (keyboardHandler kt) codes)"

lemma kdo_snoc: "kdo (ms @ [m]) = kbind (kdo ms) (\<lambda>_. m)"
proof (induction ms)
  case Nil
  show ?case by (rule ext) simp
next
  case (Cons a ms)
  then show ?case by (simp only: kdo.simps append_Cons kbind_assoc)
qed

text \<open>Whether a key is down after a sequence of codes, from its last press or release.\<close>

definition held :: "u8 \<Rightarrow> u8 \<Rightarrow> u8 list \<Rightarrow> bool" where
  "held press release codes = fold (\<lambda>c h. if c = press then True else if c = release then False else h) codes False"

lemma held_simps [simp]: "\<not> held p r []"
  "held p r (codes @ [c]) = (if c = p then True else if c = r then False else held p r codes)"
  by (simp_all add: held_def)

definition shift_row :: "bool \<Rightarrow> bool \<Rightarrow> u8" where
  "shift_row shift caps = (if shift then 1 else 0) + (if caps then 2 else 0)"

lemma shift_row_ops:
  "shift_row b c OR 1 = shift_row True c" "shift_row b c AND 2 = shift_row False c" "shift_row b c XOR 2 = shift_row b (\<not> c)"
  by (cases b; cases c; simp add: shift_row_def)+

lemma modifier_step:
  assumes "shift_view k = (l, r, False, shift_row (l \<or> r) caps)" "c \<noteq> CTRL_PRESS"
  shows "shift_view (modifier_key c k) =
    (let l' = (if c = LEFT_SHIFT_PRESS then True else if c = LEFT_SHIFT_RELEASE then False else l);
         r' = (if c = RIGHT_SHIFT_PRESS then True else if c = RIGHT_SHIFT_RELEASE then False else r) in
     (l', r', False, shift_row (l' \<or> r') (if c = CAPSLOCK_PRESS then \<not> caps else caps)))"
  using assms
  by (cases l; cases r; auto simp: modifier_key_def shift_view_def Let_def SHIFT_def NOT_SHIFT_def MAYUS_def shift_row_ops
      LEFT_SHIFT_PRESS_def RIGHT_SHIFT_PRESS_def LEFT_SHIFT_RELEASE_def RIGHT_SHIFT_RELEASE_def CAPSLOCK_PRESS_def
      CTRL_PRESS_def CTRL_RELEASE_def)

text \<open>C26: After any sequence of key presses and releases without the control key the kernel knows exactly which shift keys
  are held, and the row of the scan code table it uses is 1 if one of them is, plus 2 if caps lock was pressed
  an odd number of times; so it is one of the four rows, each of which has a character for every code below
  \<open>0x80\<close>.\<close>

theorem keyboard_tracks_modifiers:
  assumes "kbd s = \<lparr>shiftMayus = 0, leftShift = False, rightShift = False, specialKey = False, ctrl = False\<rparr>"
    "typed kt codes s = Done () s'" "CTRL_PRESS \<notin> set codes"
  defines "l \<equiv> held LEFT_SHIFT_PRESS LEFT_SHIFT_RELEASE codes" and "r \<equiv> held RIGHT_SHIFT_PRESS RIGHT_SHIFT_RELEASE codes"
  shows "leftShift (kbd s') = l \<and> rightShift (kbd s') = r \<and>
    shiftMayus (kbd s') = shift_row (l \<or> r) (odd (count_list codes CAPSLOCK_PRESS)) \<and>
    unat (shiftMayus (kbd s')) < length scanCodes \<and> (\<forall>row \<in> set scanCodes. length row = 0x80)"
proof -
  let ?L = "held LEFT_SHIFT_PRESS LEFT_SHIFT_RELEASE" and ?R = "held RIGHT_SHIFT_PRESS RIGHT_SHIFT_RELEASE"
  have "shift_view (kbd s') = (?L codes, ?R codes, False, shift_row (?L codes \<or> ?R codes) (odd (count_list codes CAPSLOCK_PRESS)))"
    using assms(2,3)
  proof (induction codes arbitrary: s' rule: rev_induct)
    case Nil
    then show ?case using assms(1) by (simp add: typed_def shift_view_def shift_row_def)
  next
    case (snoc c codes)
    obtain s1 where s1: "typed kt codes s = Done () s1" "parseScanCode kt c s1 = Done () s'"
      using snoc.prems(1) by (auto simp: typed_def kdo_snoc obind_eq_Done keyboardHandler_def)
    have v: "shift_view (kbd s1) = (?L codes, ?R codes, False, shift_row (?L codes \<or> ?R codes) (odd (count_list codes CAPSLOCK_PRESS)))"
      using snoc.IH[OF s1(1)] snoc.prems(2) by simp
    have "\<not> ctrl (kbd s1)" using v by (simp add: shift_view_def)
    note pv = parseScanCode_view[OF s1(2) this]
    have o: "odd (count_list (codes @ [c]) CAPSLOCK_PRESS) =
        (if c = CAPSLOCK_PRESS then \<not> odd (count_list codes CAPSLOCK_PRESS) else odd (count_list codes CAPSLOCK_PRESS))" by simp
    have c: "c \<noteq> CTRL_PRESS" using snoc.prems(2) by auto
    show ?case unfolding held_simps o pv modifier_step[OF v c] Let_def ..
  qed
  moreover have "unat (shift_row a b) < 4" for a b by (cases a; cases b; simp add: shift_row_def)
  moreover have "\<forall>row \<in> set scanCodes. length row = 0x80"
    by (simp add: scanCodes_def scanCodes_0_def scanCodes_1_def scanCodes_2_def scanCodes_3_def)
  moreover have "length scanCodes = 4" by (simp add: scanCodes_def)
  ultimately show ?thesis by (simp add: shift_view_def l_def r_def)
qed

theorem keyboard_tracks_modifiers_witness:
  "\<forall>l rtc kt. \<exists>s'. typed kt [0x2A, 0x3A] (boot_state l rtc) = Done () s' \<and> shiftMayus (kbd s') = 3"
proof (intro allI)
  fix l rtc kt
  have "\<exists>s'. typed kt [0x2A, 0x3A] (boot_state l rtc) = Done () s'"
    by (simp add: typed_def keyboardHandler_def parseScanCode_def parseSpecialKey_def is_modifier_def Let_def
        boot_state_def modifier_key_def LEFT_SHIFT_PRESS_def CAPSLOCK_PRESS_def CURSOR_LEFT_def CURSOR_RIGHT_def)
  then obtain s' where "typed kt [0x2A, 0x3A] (boot_state l rtc) = Done () s'" by blast
  moreover from keyboard_tracks_modifiers[OF _ this] have "shiftMayus (kbd s') = 3"
    by (simp add: boot_state_def CTRL_PRESS_def held_def LEFT_SHIFT_PRESS_def LEFT_SHIFT_RELEASE_def RIGHT_SHIFT_PRESS_def
        RIGHT_SHIFT_RELEASE_def CAPSLOCK_PRESS_def shift_row_def)
  ultimately show "\<exists>s'. typed kt [0x2A, 0x3A] (boot_state l rtc) = Done () s' \<and> shiftMayus (kbd s') = 3" by blast
qed

end
