(* ===== verification/ChannelProps.thy ===== *)
theory ChannelProps
  imports Channels MemoryProps
begin

text \<open>
  The message lists of a channel and the named lookup of mutexes: sending appends to the list, but receiving leaves the
  message it releases at the head of the list, and a lookup that succeeds never gives the administration mutex back.
\<close>

section \<open>Lists of messages\<close>

primrec msg_chain :: "(addr \<Rightarrow> messageNode_t option) \<Rightarrow> addr \<Rightarrow> addr list \<Rightarrow> bool" where
  "msg_chain f a [] \<longleftrightarrow> a = NULL"
| "msg_chain f a (x # xs) \<longleftrightarrow> a = x \<and> x \<noteq> NULL \<and> (\<exists>m. f x = Some m \<and> msg_chain f (msg_next m) xs)"

lemma msg_chain_upd: "x \<notin> set xs \<Longrightarrow> msg_chain (f(x := y)) a xs = msg_chain f a xs"
  by (induction xs arbitrary: a) auto

lemma msg_chain_head: "msg_chain f a xs \<Longrightarrow> a = (if xs = [] then NULL else hd xs)"
  by (cases xs) auto

lemma with_msg_app: "msgs s a = Some m \<Longrightarrow> with_msg a f s = f m s"
  by (simp add: with_msg_def)

lemma upd_msg_app: "msgs s a = Some m \<Longrightarrow> upd_msg a g s = Done () (s\<lparr>msgs := (msgs s)(a \<mapsto> g m)\<rparr>)"
  by (simp add: upd_msg_def with_msg_app)

text \<open>Length and content of a message do not change.\<close>

definition same_message :: "messageNode_t option \<Rightarrow> messageNode_t option \<Rightarrow> bool" where
  "same_message m n \<longleftrightarrow> map_option msg_length m = map_option msg_length n \<and> map_option msg_content m = map_option msg_content n"

lemma addMessageToList_spec:
  assumes "msg_chain (msgs s) a xs" "distinct xs" "new \<notin> set xs" "new \<noteq> NULL" "length xs < n"
    "msgs s new = Some m0" "msg_next m0 = NULL"
  shows "\<exists>f. addMessageToList n new a s = Done (hd (xs @ [new])) (s\<lparr>msgs := f\<rparr>) \<and>
    msg_chain f (hd (xs @ [new])) (xs @ [new]) \<and> (\<forall>y. y \<notin> set xs \<longrightarrow> f y = msgs s y) \<and> (\<forall>y. same_message (f y) (msgs s y))"
  using assms
proof (induction xs arbitrary: n a)
  case Nil
  then obtain k where n: "n = Suc k" by (cases n) auto
  show ?case
    by (rule exI[of _ "msgs s"]) (use Nil n in \<open>simp add: same_message_def\<close>)
next
  case (Cons x xs)
  then obtain k where n: "n = Suc k" by (cases n) auto
  obtain m where m: "a = x" "x \<noteq> NULL" "msgs s x = Some m" "msg_chain (msgs s) (msg_next m) xs" using Cons.prems(1) by auto
  let ?r = "hd (xs @ [new])"
  obtain f where f: "addMessageToList k new (msg_next m) s = Done ?r (s\<lparr>msgs := f\<rparr>)"
    "msg_chain f ?r (xs @ [new])" "\<forall>y. y \<notin> set xs \<longrightarrow> f y = msgs s y" "\<forall>y. same_message (f y) (msgs s y)"
    using Cons.IH[OF m(4), of k] Cons.prems n by auto
  have fx: "f x = Some m" using f(3) m(3) Cons.prems(2) by auto
  let ?f = "f(x \<mapsto> m\<lparr>msg_next := ?r\<rparr>)"
  have "addMessageToList n new a s = Done x (s\<lparr>msgs := ?f\<rparr>)"
    using m f(1) fx by (simp add: n with_msg_app upd_msg_app)
  moreover have "msg_chain ?f x (x # xs @ [new])"
    using f(2) m(2) Cons.prems(2,3) msg_chain_upd[of x "xs @ [new]" f] by auto
  moreover have "\<forall>y. y \<notin> set (x # xs) \<longrightarrow> ?f y = msgs s y" using f(3) by auto
  moreover have "\<forall>y. same_message (?f y) (msgs s y)" using f(4) m(3) by (auto simp: same_message_def)
  ultimately show ?case by (intro exI[of _ ?f]) (simp del: fun_upd_apply)
qed

section \<open>A channel and the messages for one side\<close>

definition inbox :: "channelNode_t \<Rightarrow> int \<Rightarrow> addr" where
  "inbox ch pid = (if pid = ch_recipientPid ch then ch_senderToRecipient ch else ch_recipientToSender ch)"

definition waiting_for :: "kstate \<Rightarrow> addr \<Rightarrow> int \<Rightarrow> addr list \<Rightarrow> bool" where
  "waiting_for s c pid xs \<longleftrightarrow> (\<exists>ch. chans s c = Some ch \<and> msg_chain (msgs s) (inbox ch pid) xs \<and> distinct xs \<and>
     length xs < LIST_FUEL)"

lemma with_chan_app: "chans s a = Some m \<Longrightarrow> with_chan a f s = f m s"
  by (simp add: with_chan_def)

lemma upd_chan_app: "chans s a = Some m \<Longrightarrow> upd_chan a g s = Done () (s\<lparr>chans := (chans s)(a \<mapsto> g m)\<rparr>)"
  by (simp add: upd_chan_def with_chan_app)

lemma next_message:
  assumes "waiting_for s c pid (x # xs)"
  shows "getNextMessageForPid c pid s = Done x s"
  using assms by (auto simp: waiting_for_def getNextMessageForPid_def with_chan_app popMessage_def with_msg_app inbox_def Let_def)

lemma send_appends:
  assumes "waiting_for s c to xs" "chans s c = Some ch" "channelBelongsToPids ch to me" "new \<notin> set xs" "new \<noteq> NULL"
    "msgs s new = Some m0" "msg_next m0 = NULL" "length xs + 1 < LIST_FUEL"
  shows "\<exists>s'. addMessageToChannel new c to me s = Done 1 s' \<and> waiting_for s' c to (xs @ [new]) \<and>
    (\<forall>y. same_message (msgs s' y) (msgs s y)) \<and> (\<forall>d. d \<noteq> c \<longrightarrow> chans s' d = chans s d)"
proof -
  have ch: "msg_chain (msgs s) (inbox ch to) xs" "distinct xs" "length xs < LIST_FUEL"
    using assms(1,2) by (auto simp: waiting_for_def)
  obtain f where f: "addMessageToList LIST_FUEL new (inbox ch to) s = Done (hd (xs @ [new])) (s\<lparr>msgs := f\<rparr>)"
    "msg_chain f (hd (xs @ [new])) (xs @ [new])" "\<forall>y. same_message (f y) (msgs s y)"
    using addMessageToList_spec[OF ch(1,2) assms(4,5) ch(3) assms(6,7)] by auto
  let ?c = "if ch_recipientPid ch = to then ch\<lparr>ch_senderToRecipient := hd (xs @ [new])\<rparr>
    else ch\<lparr>ch_recipientToSender := hd (xs @ [new])\<rparr>"
  let ?s' = "s\<lparr>msgs := f, chans := (chans s)(c \<mapsto> ?c)\<rparr>"
  have "addMessageToChannel new c to me s = Done 1 ?s'"
    using f(1) assms(2,3) by (auto simp: addMessageToChannel_def with_chan_app upd_chan_app inbox_def)
  moreover have "inbox ?c to = hd (xs @ [new])" by (auto simp: inbox_def)
  ultimately show ?thesis
    using f(2,3) ch(2) assms(4,8) by (intro exI[of _ ?s']) (simp add: waiting_for_def)
qed

section \<open>Calls that do not block\<close>

text \<open>What a call that goes through keeps: who runs, the channels and messages, and the mutexes that are free.\<close>

definition calm :: "kstate \<Rightarrow> kstate \<Rightarrow> bool" where
  "calm s s' \<longleftrightarrow> threads_ok s' \<and> lockQuantumExceded (sched s') = 0 \<and> cur_pid s' = cur_pid s \<and> cur_tid s' = cur_tid s \<and>
     chans s' = chans s \<and> msgs s' = msgs s \<and> buddyMutex s' = buddyMutex s \<and>
     (\<forall>m. free_mutex_at s m \<longrightarrow> free_mutex_at s' m) \<and>
     (\<forall>k. valid_sem s k \<longrightarrow> valid_sem s' k) \<and> (\<forall>k. s_mutex (sem s' k) = s_mutex (sem s k))"

lemma calm_trans: "calm s s' \<Longrightarrow> calm s' s'' \<Longrightarrow> calm s s''"
  by (auto simp: calm_def)

lemma calmD:
  assumes "calm s s'"
  shows "threads_ok s'" "lockQuantumExceded (sched s') = 0" "cur_pid s' = cur_pid s" "cur_tid s' = cur_tid s"
    "chans s' = chans s" "msgs s' = msgs s" "buddyMutex s' = buddyMutex s" "free_mutex_at s m \<Longrightarrow> free_mutex_at s' m"
    "valid_sem s k \<Longrightarrow> valid_sem s' k" "s_mutex (sem s' k) = s_mutex (sem s k)"
  using assms by (simp_all add: calm_def)

lemma message_frames [simp]:
  "chans (set_lock v s) = chans s" "chans (set_entry m x s) = chans s" "chans (set_sem k y s) = chans s"
  "chans (seized m x s) = chans s" "chans (set_state pid t st s) = chans s"
  "msgs (set_lock v s) = msgs s" "msgs (set_entry m x s) = msgs s" "msgs (set_sem k y s) = msgs s"
  "msgs (seized m x s) = msgs s" "msgs (set_state pid t st s) = msgs s"
  "kmem (set_lock v s) = kmem s" "kmem (set_entry m x s) = kmem s" "kmem (set_sem k y s) = kmem s"
  "kmem (seized m x s) = kmem s" "kmem (set_state pid t st s) = kmem s"
  "buddyHeap (set_sem k y s) = buddyHeap s" "buddyHeap (seized m x s) = buddyHeap s" "buddyHeap (set_state pid t st s) = buddyHeap s"
  "buddyMutex (set_sem k y s) = buddyMutex s" "buddyMutex (seized m x s) = buddyMutex s" "buddyMutex (set_state pid t st s) = buddyMutex s"
  by (simp_all add: set_lock_def set_entry_def set_sem_def seized_def set_state_def split: option.split)

lemma woken_frames [simp]:
  "chans (woken_state k s) = chans s" "msgs (woken_state k s) = msgs s" "kmem (woken_state k s) = kmem s"
  "buddyHeap (woken_state k s) = buddyHeap s" "buddyMutex (woken_state k s) = buddyMutex s"
  by (simp_all add: woken_state_def Let_def split: option.split)

lemma sched_set_lock: "sched (set_lock v s) = (sched s)\<lparr>changeLock := v\<rparr>"
  by (simp add: set_lock_def)

lemma calmI:
  assumes "threads_ok s'" "sched s' = (sched s)\<lparr>changeLock := v\<rparr>" "procs s' = procs s" "lockQuantumExceded (sched s) = 0"
    "chans s' = chans s" "msgs s' = msgs s" "buddyMutex s' = buddyMutex s"
    "\<And>n. free_mutex_at s n \<Longrightarrow> free_mutex_at s' n" "\<And>k. valid_sem s k \<Longrightarrow> valid_sem s' k" "\<And>k. s_mutex (sem s' k) = s_mutex (sem s k)"
  shows "calm s s'"
  using assms by (simp add: calm_def cur_pid_def cur_tid_def proc_at_def)

lemma free_seized_touched:
  assumes "free_mutex_at s m" "free_mutex_at s n"
  shows "free_mutex_at (seized m (touched who (entry s m)) s) n"
proof (cases "n = m")
  case True
  then show ?thesis using free_mutex_after[OF assms(1)] by simp
next
  case False
  then show ?thesis using free_seized[OF assms(2)] by simp
qed

lemma wait_calm:
  assumes "valid_sem s k" "free_mutex_at s (s_mutex (sem s k))" "threads_ok s" "lockQuantumExceded (sched s) = 0"
    "0 < s_value (sem s k)"
  obtains s' where "wait kt k pid t s = Done () s'" "calm s s'" "buddyHeap s' = buddyHeap s" "kmem s' = kmem s"
proof
  let ?x = "(sem s k)\<lparr>s_value := s_value (sem s k) - 1\<rparr>" and ?m = "s_mutex (sem s k)"
  let ?s' = "set_lock 0 (set_sem k ?x (seized ?m (touched (tid pid t) (entry s ?m)) s))"
  show "wait kt k pid t s = Done () ?s'" by (rule wait_free_eq[OF assms])
  show "calm s ?s'"
  proof (rule calmI[where v = 0])
    show "valid_sem ?s' n" if "valid_sem s n" for n
      using that by (auto simp: valid_sem_def isValidSemaphore_def set_sem_def set_lock_def sem_def seized_def set_entry_def)
    show "free_mutex_at ?s' n" if "free_mutex_at s n" for n
      using free_seized_touched[OF assms(2) that, of "tid pid t"] by (simp add: free_mutex_at_def)
  qed (use assms(3,4) in \<open>simp_all add: sched_set_lock\<close>)
qed simp_all

lemma signal_calm:
  assumes "valid_sem s k" "free_mutex_at s (s_mutex (sem s k))" "threads_ok s" "lockQuantumExceded (sched s) = 0"
  obtains s' where "signal kt k s = Done () s'" "calm s s'" "buddyHeap s' = buddyHeap s" "kmem s' = kmem s"
proof
  let ?who = "tid (cur_pid s) (cur_tid s)" and ?m = "s_mutex (sem s k)"
  let ?x = "(woken_sem (sem s k))\<lparr>s_value := s_value (sem s k) + 1\<rparr>"
  let ?w = "woken_state k (set_lock 0 (seized ?m (down_free ?who (entry s ?m)) s))"
  let ?s' = "set_lock 0 (set_sem k ?x (set_entry ?m (touched ?who (entry s ?m)) ?w))"
  show "signal kt k s = Done () ?s'" by (rule signal_eq[OF assms])
  show "calm s ?s'"
  proof (rule calmI[where v = 0])
    show "valid_sem ?s' n" if "valid_sem s n" for n
      using that by (auto simp: valid_sem_def isValidSemaphore_def set_sem_def set_lock_def sem_def seized_def set_entry_def
        woken_state_def woken_sem_def swoken_def set_state_def Let_def split: option.split)
    show "free_mutex_at ?s' n" if "free_mutex_at s n" for n
    proof -
      have "mut ?s' = mut (seized ?m (touched ?who (entry s ?m)) s)"
        by (simp add: seized_def set_entry_def set_sem_def set_lock_def)
      then show ?thesis using free_seized_touched[OF assms(2) that, of ?who]
        by (simp add: free_mutex_at_def valid_mutex_def entry_def)
    qed
    show "threads_ok ?s'" using threads_ok_woken[of "set_lock 0 (seized ?m (down_free ?who (entry s ?m)) s)" k] assms(3) by simp
  qed (use assms(4) in \<open>simp_all add: sched_set_lock\<close>)
qed simp_all

lemma heap_calm:
  assumes "free_mutex_at s (buddyMutex s)" "threads_ok s" "lockQuantumExceded (sched s) = 0"
  shows "calm s (after_heap (buddyMutex s) who h s)" "kmem (after_heap (buddyMutex s) who h s) = kmem s"
proof -
  show "calm s (after_heap (buddyMutex s) who h s)"
  proof (rule calmI[where v = 0])
    show "free_mutex_at (after_heap (buddyMutex s) who h s) n" if "free_mutex_at s n" for n
      using free_seized_touched[OF assms(1) that, of who]
      by (simp add: after_heap_def free_mutex_at_def valid_mutex_def entry_def set_lock_def)
    show "valid_sem (after_heap (buddyMutex s) who h s) n" if "valid_sem s n" for n
      using that by (simp add: after_heap_def valid_sem_def)
  qed (use assms(3) after_heap_ok[OF assms(2)] in \<open>simp_all add: after_heap_def sched_set_lock sem_def\<close>)
qed (simp add: after_heap_def)

lemma free_calm:
  assumes "free_mutex_at s (buddyMutex s)" "threads_ok s" "lockQuantumExceded (sched s) = 0" "heap_inv (buddyHeap s)"
    "b \<in> live (buddyHeap s)"
  obtains s' where "freeMemory kt (node_base b) s = Done True s'" "calm s s'" "kmem s' = kmem s"
    "heap_inv (buddyHeap s')" "live (buddyHeap s') = live (buddyHeap s) - {b}"
proof -
  obtain h where h: "freeBlock (node_base b) (buddyHeap s) = Some h" "heap_inv h" "live h = live (buddyHeap s) - {b}"
    by (rule freeBlock_spec[OF assms(4,5)])
  show ?thesis
    using freeMemory_eq[OF assms(1) threads_caller_ok[OF assms(2)] assms(3) isAllocatedPage_live[OF assms(4,5)] h(1)]
      heap_calm[OF assms(1-3)] h(2,3)
    by (intro that[of "after_heap (buddyMutex s) (tid (cur_pid s) (cur_tid s)) h s"]) simp_all
qed

lemma copy_calm:
  assumes "threads_ok s" "lockQuantumExceded (sched s) = 0" "d \<noteq> NULL" "a \<noteq> NULL"
  obtains s' where "copy_to d a n s = Done () s'" "calm s s'" "kmem s' = memcpy d a n (kmem s)" "buddyHeap s' = buddyHeap s"
proof
  let ?s' = "s\<lparr>kmem := memcpy d a n (kmem s)\<rparr>"
  show "copy_to d a n s = Done () ?s'" using assms(3,4) by (simp add: copy_to_def)
  show "calm s ?s'"
  proof -
    have "threads_ok ?s'" using assms(1) by (subst threads_ok_cong[of ?s' s]) simp_all
    then show ?thesis using assms(2)
      by (simp add: calm_def cur_pid_def cur_tid_def proc_at_def free_mutex_at_def valid_mutex_def entry_def valid_sem_def sem_def)
  qed
qed simp_all

lemma allocate_calm:
  assumes "free_mutex_at s (buddyMutex s)" "threads_ok s" "lockQuantumExceded (sched s) = 0" "heap_inv (buddyHeap s)"
    "0 < pagesToAllocate n" "pagesToAllocate n \<le> 2048" "getPages (pagesToAllocate n) (buddyHeap s) = Some (r, h)" "r \<noteq> NULL"
  obtains s' b where "allocateMemory kt n s = Done r s'" "calm s s'" "kmem s' = kmem s" "r = node_base b"
    "heap_inv (buddyHeap s')" "live (buddyHeap s') = insert b (live (buddyHeap s))" "b \<notin> live (buddyHeap s)"
proof -
  have rq: "0 < pagesToAllocate n \<and> pagesToAllocate n \<le> 2048" using assms(5,6) by simp
  obtain b where b: "r = node_base b" "live h = insert b (live (buddyHeap s))" "heap_inv h" "b \<notin> live (buddyHeap s)"
    using buddy.alloc_fresh[OF assms(4) rq assms(7,8)] by metis
  show ?thesis
    using allocatePages_eq[OF assms(1) threads_caller_ok[OF assms(2)] assms(3,5-7)] heap_calm[OF assms(1-3)] b
    by (intro that[of "after_heap (buddyMutex s) (tid (cur_pid s) (cur_tid s)) h s" b]) (simp_all add: allocateMemory_def)
qed

text \<open>The semaphores of the two sides.\<close>

definition receive_sem :: "channelNode_t \<Rightarrow> int \<Rightarrow> int" where
  "receive_sem ch me = (if ch_recipientPid ch = me then ch_recipientReceiveSem ch else ch_senderReceiveSem ch)"

definition send_sem :: "channelNode_t \<Rightarrow> int \<Rightarrow> int" where
  "send_sem ch me = (if ch_recipientPid ch = me then ch_senderSendSem ch else ch_recipientSendSem ch)"

definition ready_sem :: "kstate \<Rightarrow> int \<Rightarrow> bool" where
  "ready_sem s k \<longleftrightarrow> valid_sem s k \<and> free_mutex_at s (s_mutex (sem s k))"

lemma ready_calm: "calm s s' \<Longrightarrow> ready_sem s k \<Longrightarrow> ready_sem s' k"
  by (simp add: ready_sem_def calm_def)

lemma deleteMessage_calm:
  assumes "free_mutex_at s (buddyMutex s)" "threads_ok s" "lockQuantumExceded (sched s) = 0" "heap_inv (buddyHeap s)"
    "msgs s x = Some m" "x = node_base kx" "msg_content m = node_base kc" "kx \<in> live (buddyHeap s)" "kc \<in> live (buddyHeap s)" "kx \<noteq> kc"
  obtains s' where "deleteMessage kt x s = Done (msg_next m) s'" "calm s s'" "kmem s' = kmem s"
    "heap_inv (buddyHeap s')" "live (buddyHeap s') = live (buddyHeap s) - {kx, kc}"
proof -
  obtain s1 where 1: "freeMemory kt (node_base kc) s = Done True s1" "calm s s1" "kmem s1 = kmem s" "heap_inv (buddyHeap s1)"
    "live (buddyHeap s1) = live (buddyHeap s) - {kc}" by (rule free_calm[OF assms(1-4,9)])
  have f: "free_mutex_at s1 (buddyMutex s1)" using assms(1) calmD[OF 1(2)] by simp
  have kx: "kx \<in> live (buddyHeap s1)" using 1(5) assms(8,10) by simp
  obtain s2 where 2: "freeMemory kt (node_base kx) s1 = Done True s2" "calm s1 s2" "kmem s2 = kmem s1" "heap_inv (buddyHeap s2)"
    "live (buddyHeap s2) = live (buddyHeap s1) - {kx}" by (rule free_calm[OF f calmD(1,2)[OF 1(2)] 1(4) kx])
  have m1: "msgs s1 (node_base kx) = Some m" using assms(5,6) calmD(6)[OF 1(2)] by simp
  have "deleteMessage kt x s = Done (msg_next m) s2"
    using assms(5,6,7) 1(1) 2(1) by (simp add: deleteMessage_def with_msg_app m1 Let_def)
  then show ?thesis using that calm_trans[OF 1(2) 2(2)] 1 2 by (metis Diff_insert insert_commute)
qed

section \<open>Receiving\<close>

text \<open>The two blocks of a message, its node and its text.\<close>

definition message_at :: "kstate \<Rightarrow> addr \<Rightarrow> messageNode_t \<Rightarrow> bool" where
  "message_at s x m \<longleftrightarrow> msgs s x = Some m \<and> (\<exists>kx kc. x = node_base kx \<and> msg_content m = node_base kc \<and> kx \<noteq> kc \<and>
     kx \<in> live (buddyHeap s) \<and> kc \<in> live (buddyHeap s))"

definition quiet :: "kstate \<Rightarrow> bool" where
  "quiet s \<longleftrightarrow> threads_ok s \<and> lockQuantumExceded (sched s) = 0 \<and> heap_inv (buddyHeap s) \<and> free_mutex_at s (buddyMutex s)"

lemma receive_steps:
  assumes "threads_ok s" "lockQuantumExceded (sched s) = 0" "heap_inv (buddyHeap s)" "free_mutex_at s (buddyMutex s)"
    "getChannelFromList (cur_pid s) peer s = Done c s" "c \<noteq> NULL" "chans s c = Some ch"
    "waiting_for s c (cur_pid s) (x # xs)" "msgs s x = Some m" "msg_content m = node_base kc" "x = node_base kx"
    "kx \<in> live (buddyHeap s)" "kc \<in> live (buddyHeap s)" "kx \<noteq> kc"
    "ready_sem s (receive_sem ch (cur_pid s))" "0 < s_value (sem s (receive_sem ch (cur_pid s)))"
    "ready_sem s (send_sem ch (cur_pid s))"
    "0 < pagesToAllocate (to_uint64 len)" "pagesToAllocate (to_uint64 len) \<le> 2048"
    "getPages (pagesToAllocate (to_uint64 len)) (buddyHeap s) = Some (r, h)" "r \<noteq> NULL"
  shows "\<exists>s'. receiveMessage kt peer len s = Done r s' \<and>
    kmem s' = memcpy r (msg_content m) (to_uint64 (min len (msg_length m))) (kmem s) \<and>
    isAllocatedPage (buddyHeap s') x \<noteq> Some 1 \<and> isAllocatedPage (buddyHeap s') (msg_content m) \<noteq> Some 1 \<and>
    waiting_for s' c (cur_pid s) (x # xs) \<and> getNextMessageForPid c (cur_pid s) s' = Done x s'"
proof -
  let ?me = "cur_pid s" and ?t = "cur_tid s" and ?n = "to_uint64 (if len > msg_length m then msg_length m else len)"
  have ids: "getpid s = Done ?me s" "getCurrentThread s = Done ?t s" using getpid_app[OF threads_okD[OF assms(1)]] by auto
  note R = assms(15)[unfolded ready_sem_def]
  obtain s1 where 1: "wait kt (receive_sem ch ?me) ?me ?t s = Done () s1" "calm s s1" "buddyHeap s1 = buddyHeap s" "kmem s1 = kmem s"
    by (rule wait_calm[OF conjunct1[OF R] conjunct2[OF R] assms(1,2,16)])
  note c1 = calmD[OF 1(2)]
  have f1: "free_mutex_at s1 (buddyMutex s1)" using assms(4) c1 by simp
  have n1: "getNextMessageForPid c ?me s1 = Done x s1"
    using assms(8) c1(5,6) by (intro next_message[of _ _ _ _ xs]) (simp add: waiting_for_def)
  obtain s2 b where 2: "allocateMemory kt (to_uint64 len) s1 = Done r s2" "calm s1 s2" "kmem s2 = kmem s1" "r = node_base b"
    "heap_inv (buddyHeap s2)" "live (buddyHeap s2) = insert b (live (buddyHeap s1))" "b \<notin> live (buddyHeap s1)"
    using allocate_calm[OF f1 c1(1,2) _ assms(18,19) _ assms(21), of h] assms(3,20) 1(3) by metis
  note c2 = calmD[OF calm_trans[OF 1(2) 2(2)]]
  obtain s3 where 3: "copy_to r (msg_content m) ?n s2 = Done () s3" "calm s2 s3"
    "kmem s3 = memcpy r (msg_content m) ?n (kmem s2)" "buddyHeap s3 = buddyHeap s2"
    using copy_calm[OF c2(1,2) assms(21)] assms(10) node_base_nonzero by metis
  note c3 = calmD[OF calm_trans[OF calm_trans[OF 1(2) 2(2)] 3(2)]]
  have f3: "free_mutex_at s3 (buddyMutex s3)" using assms(4) c3 by simp
  have i3: "heap_inv (buddyHeap s3)" "kx \<in> live (buddyHeap s3)" "kc \<in> live (buddyHeap s3)" "msgs s3 x = Some m"
    using 2(5,6) 3(4) 1(3) assms(9,12,13) c3(6) by simp_all
  obtain s4 where 4: "deleteMessage kt x s3 = Done (msg_next m) s4" "calm s3 s4" "kmem s4 = kmem s3"
    "heap_inv (buddyHeap s4)" "live (buddyHeap s4) = live (buddyHeap s3) - {kx, kc}"
    by (rule deleteMessage_calm[OF f3 c3(1,2) i3(1,4) assms(11,10) i3(2,3) assms(14)])
  have s4: "calm s s4" using 1(2) 2(2) 3(2) 4(2) calm_trans by blast
  note W = ready_calm[OF s4 assms(17), unfolded ready_sem_def]
  obtain s5 where 5: "signal kt (send_sem ch ?me) s4 = Done () s5" "calm s4 s5" "buddyHeap s5 = buddyHeap s4" "kmem s5 = kmem s4"
    by (rule signal_calm[OF conjunct1[OF W] conjunct2[OF W] calmD(1,2)[OF s4]])
  note c5 = calmD[OF calm_trans[OF s4 5(2)]]
  have w5: "waiting_for s5 c ?me (x # xs)" using assms(8) c5(5,6) by (simp add: waiting_for_def)
  have ch: "chans s c = Some ch" "chans s4 c = Some ch" "msgs s1 x = Some m" "msgs s2 x = Some m"
    using assms(7,9) calmD(5)[OF s4] c1(6) c2(6) by simp_all
  have lr: "lockReceive kt ?me c ?t s = Done () s1" using 1(1) ch(1) by (simp add: lockReceive_def with_chan_app receive_sem_def)
  have us: "unlockSend kt ?me c s4 = Done () s5" using 5(1) ch(2) by (simp add: unlockSend_def with_chan_app send_sem_def)
  have "receiveMessage kt peer len s = Done r s5"
    unfolding receiveMessage_def Let_def kbind_app ids obind.simps assms(5) if_P[OF assms(6)] lr n1 with_msg_app[OF ch(3)]
      2(1) with_msg_app[OF ch(4)] 3(1) 4(1) kthen.simps us kret_app ..
  moreover have "isAllocatedPage (buddyHeap s5) a \<noteq> Some 1" if e: "a = node_base k" and kk: "k \<in> {kx, kc}" for a k
  proof
    assume "isAllocatedPage (buddyHeap s5) a = Some 1"
    then obtain j where j: "j \<in> live (buddyHeap s4)" "node_base k = node_base j"
      using isAllocatedPage_sound[OF 4(4)] 5(3) e by metis
    have "j \<in> live (buddyHeap s3)" "k \<in> live (buddyHeap s3)" "j \<noteq> k" using j(1) 4(5) kk i3(2,3) by auto
    then show False using live_starts[OF i3(1)] j(2) by metis
  qed
  moreover have "kmem s5 = memcpy r (msg_content m) (to_uint64 (min len (msg_length m))) (kmem s)"
    using 5(4) 4(3) 3(3) 2(3) 1(4) by (cases "len \<le> msg_length m") (simp_all add: min_def)
  ultimately show ?thesis using assms(10,11) next_message[OF w5] w5 by blast
qed

section \<open>Concrete messages\<close>

definition ex_chan :: channelNode_t where
  "ex_chan = \<lparr>ch_senderPid = 1, ch_recipientPid = 2, ch_senderSendSem = 0, ch_recipientSendSem = 0,
     ch_senderReceiveSem = 0, ch_recipientReceiveSem = 0, ch_senderToRecipient = 8192, ch_recipientToSender = NULL,
     ch_nextChannel = NULL\<rparr>"

definition ex_msg :: "int \<Rightarrow> messageNode_t" where
  "ex_msg len = \<lparr>msg_length = len, msg_content = 100, msg_next = NULL\<rparr>"

definition ex_chan_state :: "kstate \<Rightarrow> kstate" where
  "ex_chan_state s = s\<lparr>chans := [4096 \<mapsto> ex_chan], msgs := [8192 \<mapsto> ex_msg 1, 12288 \<mapsto> ex_msg 2]\<rparr>"

lemma ex_chan_facts: "chans (ex_chan_state s) 4096 = Some ex_chan" "channelBelongsToPids ex_chan 2 1"
  "msgs (ex_chan_state s) 12288 = Some (ex_msg 2)" "msg_next (ex_msg 2) = NULL" "length [8192 :: addr] + 1 < LIST_FUEL"
  "(12288 :: addr) \<notin> set [8192]" "(12288 :: addr) \<noteq> NULL" "waiting_for (ex_chan_state s) 4096 2 [8192]"
  by (simp_all add: ex_chan_state_def ex_chan_def ex_msg_def channelBelongsToPids_def LIST_FUEL_def PAGE_QUANTITY_def
      waiting_for_def inbox_def)

text \<open>Two messages for the process in use, each in two pages of its own, and a page that is free.\<close>

text \<open>Pages in use one by one: while not all of them are, there is another one.\<close>

definition pages_used :: "nat \<Rightarrow> buddyHeap_t \<Rightarrow> bool" where
  "pages_used n h \<longleftrightarrow> heap_inv h \<and> (\<forall>k \<in> live h. depth k = 11) \<and> finite (live h) \<and> card (live h) = n"

lemma pages_used_0: "pages_used 0 initializeHeap"
  by (simp add: pages_used_def heap_inv_init live_init)

lemma another_page:
  assumes "pages_used n h" "n < 2048"
  obtains k h' where "getPages 1 h = Some (node_base k, h')" "pages_used (Suc n) h'" "k \<notin> live h" "live h' = insert k (live h)"
proof -
  have H: "heap_inv h" "\<forall>k \<in> live h. depth k = 11" "finite (live h)" "card (live h) = n"
    using assms(1) by (simp_all add: pages_used_def)
  have l: "levels_of 1 = 11" by (simp add: levels_of_def)
  have "\<not> {2048 ..< 4096 :: int} \<subseteq> live h"
    using card_mono[OF H(3), of "{2048 ..< 4096}"] H(4) assms(2) by auto
  then obtain j where "j \<in> {2048 ..< 4096}" and jl: "j \<notin> live h" by blast
  then have j: "2048 \<le> j" "j < 4096" by simp_all
  have dj: "depth j = 11" "in_heap j" using j depth_unique[of 11 j] by (auto simp: in_heap_def)
  have disj: "block a \<inter> block j = {}" if a: "a \<in> live h" for a
  proof -
    have "depth a = 11" "in_heap a" using H(2) a by (auto simp: live_def)
    then have "\<not> desc a j" "\<not> desc j a"
      using desc_same_depth[of a j] desc_same_depth[of j a] dj a jl j by (auto simp: in_heap_def)
    then show ?thesis using blocks_disjoint \<open>in_heap a\<close> dj(2) by blast
  qed
  obtain r h' where r: "getPages 1 h = Some (r, h')" "heap_inv h'"
    "(r = NULL \<and> live h' = live h \<and> alloc_failed 1 (levels_of 1) h r h') \<or>
     (\<exists>k. r = node_base k \<and> k \<notin> live h \<and> live h' = insert k (live h) \<and> depth k = levels_of 1)"
    using getPages_sound[OF H(1), of 1] by (metis one_le_numeral zero_less_one)
  have "r \<noteq> NULL" using getPages_complete[OF H(1), of 1 h' j] r(1) dj l disj by auto
  then obtain k where k: "r = node_base k" "k \<notin> live h" "live h' = insert k (live h)" "depth k = 11" using r(3) l by auto
  then show ?thesis using that[of k h'] r(1,2) H by (simp add: pages_used_def)
qed

definition ex_inbox :: "addr \<Rightarrow> channelNode_t" where
  "ex_inbox x = \<lparr>ch_senderPid = 2, ch_recipientPid = 1, ch_senderSendSem = 6, ch_recipientSendSem = 6,
     ch_senderReceiveSem = 5, ch_recipientReceiveSem = 5, ch_senderToRecipient = x, ch_recipientToSender = NULL,
     ch_nextChannel = NULL\<rparr>"

definition ex_inbox_state :: "buddyHeap_t \<Rightarrow> addr \<Rightarrow> addr \<Rightarrow> addr \<Rightarrow> addr \<Rightarrow> kstate \<Rightarrow> kstate" where
  "ex_inbox_state h x cx y cy s = (set_sem 6 (ex_sem 7 nobody 0) (ex_sem_state (ex_sem 2 nobody 0) s))
     \<lparr>buddyHeap := h, buddyMutex := 4, chans := [4096 \<mapsto> ex_inbox x], chs := \<lparr>firstChannel = 4096, channelMutex = 1\<rparr>,
      msgs := [x \<mapsto> \<lparr>msg_length = 3, msg_content = cx, msg_next = y\<rparr>,
        y \<mapsto> \<lparr>msg_length = 5, msg_content = cy, msg_next = NULL\<rparr>]\<rparr>"

text \<open>The state of the example meets what receiving asks for.\<close>

lemma ex_inbox_ready:
  fixes s :: kstate and cy :: addr
  assumes "heap_inv h" "x = node_base kx" "cx = node_base kc" "kx \<in> live h" "kc \<in> live h" "kx \<noteq> kc" "y \<noteq> NULL" "x \<noteq> y"
  defines "s0 \<equiv> ex_inbox_state h x cx y cy s"
  shows "quiet s0" "cur_pid s0 = 1" "getChannelFromList 1 2 s0 = Done 4096 s0" "waiting_for s0 4096 1 [x, y]"
    "message_at s0 x \<lparr>msg_length = 3, msg_content = cx, msg_next = y\<rparr>" "ready_sem s0 5" "ready_sem s0 6"
    "s_value (sem s0 5) = 2"
proof -
  let ?b = "ex_sem_state (ex_sem 2 nobody 0) s"
  have st: "sched s0 = ex_sched" "procs s0 = procs ?b" "thrs s0 = thrs ?b" "mut s0 = mut ?b" "buddyHeap s0 = h" "buddyMutex s0 = 4"
    "sems s0 = sems (set_sem 6 (ex_sem 7 nobody 0) ?b)"
    by (simp_all add: s0_def ex_inbox_state_def)
  have e: "entry s0 n = ex_mutex UNLOCKED nobody 0" for n
    using ex_sem_state_simps(4)[of "ex_sem 2 nobody 0" s n] by (simp add: entry_def st)
  have f: "free_mutex_at s0 n" if "0 \<le> n" "n < MAX_MUTEXES" for n
  proof -
    have "valid_mutex s0 n" using e[of n] that
      by (simp add: valid_mutex_def isValidMutex_def entry_def) (simp add: ex_mutex_def)
    then show ?thesis using e[of n] by (simp add: free_mutex_at_def) (simp add: ex_mutex_def)
  qed
  have ok: "threads_ok s0" by (subst threads_ok_cong[of s0 ?b]) (simp_all add: st)
  show "quiet s0" using ok f[of 4] assms(1) by (simp add: quiet_def st MAX_MUTEXES_def)
  show "cur_pid s0 = 1"
    by (simp add: cur_pid_def proc_at_def st) (simp add: ex_sem_state_def set_sem_def ex_mutex_state_def ex_state_def ex_sched_def ex_proc_def)
  have ch: "chans s0 4096 = Some (ex_inbox x)" "firstChannel (chs s0) = 4096" by (simp_all add: s0_def ex_inbox_state_def)
  have fu: "LIST_FUEL = Suc 2048" by (simp add: LIST_FUEL_def PAGE_QUANTITY_def)
  show "getChannelFromList 1 2 s0 = Done 4096 s0"
    unfolding getChannelFromList_def fu find_channel.simps
    by (simp add: ch with_chan_app) (simp add: ex_inbox_def channelBelongsToPids_def)
  have ms: "msgs s0 x = Some \<lparr>msg_length = 3, msg_content = cx, msg_next = y\<rparr>"
    "msgs s0 y = Some \<lparr>msg_length = 5, msg_content = cy, msg_next = NULL\<rparr>"
    using assms(8) by (simp_all add: s0_def ex_inbox_state_def)
  have x0: "x \<noteq> NULL" using assms(2) by simp
  show "waiting_for s0 4096 1 [x, y]"
    using x0 assms(7,8) by (simp add: waiting_for_def ch ms fu inbox_def) (simp add: ex_inbox_def)
  show "message_at s0 x \<lparr>msg_length = 3, msg_content = cx, msg_next = y\<rparr>"
    using assms(2-6) ms by (auto simp: message_at_def st)
  have "sem s0 5 = ex_sem 2 nobody 0" "sem s0 6 = ex_sem 7 nobody 0"
    using ex_sem_state_simps(2)[of "ex_sem 2 nobody 0" s] by (simp_all add: sem_def st set_sem_def)
  then have se: "semaphores (sems s0) 5 = ex_sem 2 nobody 0" "semaphores (sems s0) 6 = ex_sem 7 nobody 0" "sem s0 5 = ex_sem 2 nobody 0"
    "s_mutex (sem s0 5) = 3" "s_mutex (sem s0 6) = 3"
    by (simp_all add: sem_def) (simp_all add: ex_sem_def)
  then show "ready_sem s0 5" "ready_sem s0 6"
    using f[of 3] by (simp_all add: ready_sem_def valid_sem_def isValidSemaphore_def MAX_SEMAPHORES_def MAX_MUTEXES_def)
      (simp_all add: ex_sem_def NOT_USED_def)
  show "s_value (sem s0 5) = 2" using se(3) by (simp add: ex_sem_def)
qed

section \<open>Properties\<close>

text \<open>Sending appends the message at the end of the list of the receiving side, whichever side of the channel that is,
  and changes no length or content of a message and no other channel.\<close>

theorem addMessageToChannel_appends:
  assumes "waiting_for s c to xs" "chans s c = Some ch" "channelBelongsToPids ch to me" "new \<notin> set xs" "new \<noteq> NULL"
    "msgs s new = Some m0" "msg_next m0 = NULL" "length xs + 1 < LIST_FUEL"
  shows "\<exists>s'. addMessageToChannel new c to me s = Done 1 s' \<and> waiting_for s' c to (xs @ [new]) \<and>
    (\<forall>y. same_message (msgs s' y) (msgs s y)) \<and> (\<forall>d. d \<noteq> c \<longrightarrow> chans s' d = chans s d)"
  by (rule send_appends[OF assms])

theorem addMessageToChannel_appends_witness:
  "\<forall>s. \<exists>s'. addMessageToChannel 12288 4096 2 1 (ex_chan_state s) = Done 1 s' \<and> waiting_for s' 4096 2 [8192, 12288]"
proof
  fix s
  show "\<exists>s'. addMessageToChannel 12288 4096 2 1 (ex_chan_state s) = Done 1 s' \<and> waiting_for s' 4096 2 [8192, 12288]"
    using addMessageToChannel_appends[OF ex_chan_facts(8,1,2,6,7,3,4,5), of s] by auto
qed

text \<open>C39: Receiving does not take the message off the channel: \<open>receiveMessage\<close> with a permit to spare copies the text of the
  oldest message into a fresh block and returns that block, releases the two blocks of the message, its node and its text, and
  still leaves the node at the head of the list of the channel.  The next receive on this side takes the released node, whatever
  message waits behind it.\<close>

theorem receive_leaves_freed_message:
  assumes "quiet s" "getChannelFromList (cur_pid s) peer s = Done c s" "c \<noteq> NULL" "chans s c = Some ch"
    "waiting_for s c (cur_pid s) (x # xs)" "message_at s x m"
    "ready_sem s (receive_sem ch (cur_pid s))" "0 < s_value (sem s (receive_sem ch (cur_pid s)))"
    "ready_sem s (send_sem ch (cur_pid s))"
    "0 < pagesToAllocate (to_uint64 len)" "pagesToAllocate (to_uint64 len) \<le> 2048"
    "getPages (pagesToAllocate (to_uint64 len)) (buddyHeap s) = Some (r, h)" "r \<noteq> NULL"
  shows "\<exists>s'. receiveMessage kt peer len s = Done r s' \<and>
    kmem s' = memcpy r (msg_content m) (to_uint64 (min len (msg_length m))) (kmem s) \<and>
    isAllocatedPage (buddyHeap s') x \<noteq> Some 1 \<and> isAllocatedPage (buddyHeap s') (msg_content m) \<noteq> Some 1 \<and>
    waiting_for s' c (cur_pid s) (x # xs) \<and> getNextMessageForPid c (cur_pid s) s' = Done x s'"
proof -
  obtain kx kc where k: "msgs s x = Some m" "msg_content m = node_base kc" "x = node_base kx"
    "kx \<in> live (buddyHeap s)" "kc \<in> live (buddyHeap s)" "kx \<noteq> kc" using assms(6) by (auto simp: message_at_def)
  have q: "threads_ok s" "lockQuantumExceded (sched s) = 0" "heap_inv (buddyHeap s)" "free_mutex_at s (buddyMutex s)"
    using assms(1) by (simp_all add: quiet_def)
  show ?thesis by (rule receive_steps[OF q assms(2-5) k assms(7-13)])
qed

theorem receive_leaves_freed_message_witness:
  "\<forall>s kt. \<exists>s0 s' x y r. waiting_for s0 4096 1 [x, y] \<and> isAllocatedPage (buddyHeap s0) x = Some 1 \<and>
    receiveMessage kt 2 10 s0 = Done r s' \<and> r \<noteq> NULL \<and> isAllocatedPage (buddyHeap s') x \<noteq> Some 1 \<and>
    getNextMessageForPid 4096 1 s' = Done x s'"
proof (intro allI)
  fix s kt
  obtain k1 h1 where 1: "pages_used 1 h1" "live h1 = {k1}"
    by (rule another_page[OF pages_used_0]) (simp_all add: live_init)
  obtain k2 h2 where 2: "pages_used 2 h2" "live h2 = insert k2 (live h1)" "k2 \<notin> live h1"
    by (rule another_page[OF 1(1)]) (simp_all add: numeral_2_eq_2)
  obtain k3 h3 where 3: "pages_used 3 h3" "live h3 = insert k3 (live h2)" "k3 \<notin> live h2"
    by (rule another_page[OF 2(1)]) (simp_all add: numeral_3_eq_3 numeral_2_eq_2)
  obtain k4 h4 where 4: "pages_used 4 h4" "live h4 = insert k4 (live h3)" "k4 \<notin> live h3"
    by (rule another_page[OF 3(1)]) (simp_all add: eval_nat_numeral)
  obtain k5 h5 where 5: "getPages 1 h4 = Some (node_base k5, h5)" by (rule another_page[OF 4(1)]) simp_all
  have L: "k1 \<in> live h4" "k2 \<in> live h4" "k3 \<in> live h4" "k1 \<noteq> k2" "k1 \<noteq> k3" and i: "heap_inv h4"
    using 1(2) 2(2,3) 3(2,3) 4 by (auto simp: pages_used_def)
  define x y where "x = node_base k1" and "y = node_base k3"
  have xy: "x \<noteq> y" "y \<noteq> NULL" using live_starts[OF i L(1,3,5)] by (simp_all add: x_def y_def)
  let ?s0 = "ex_inbox_state h4 x (node_base k2) y (node_base k4) s"
  note R = ex_inbox_ready[OF i x_def refl L(1,2,4) xy(2,1), of "node_base k4" s]
  have ch: "chans ?s0 4096 = Some (ex_inbox x)" "buddyHeap ?s0 = h4" by (simp_all add: ex_inbox_state_def)
  have sem: "receive_sem (ex_inbox x) 1 = 5" "send_sem (ex_inbox x) 1 = 6"
    by (simp_all add: receive_sem_def send_sem_def ex_inbox_def)
  have pg: "pagesToAllocate (to_uint64 10) = 1" by code_simp
  let ?m = "\<lparr>msg_length = 3, msg_content = node_base k2, msg_next = y\<rparr>"
  have g: "getPages (pagesToAllocate (to_uint64 10)) (buddyHeap ?s0) = Some (node_base k5, h5)" using 5 pg ch(2) by simp
  have "waiting_for ?s0 4096 1 [x, y] \<and> isAllocatedPage (buddyHeap ?s0) x = Some 1"
    using R(4) isAllocatedPage_live[OF i L(1)] ch(2) by (simp add: x_def)
  moreover have "\<exists>s'. receiveMessage kt 2 10 ?s0 = Done (node_base k5) s' \<and> isAllocatedPage (buddyHeap s') x \<noteq> Some 1 \<and>
      getNextMessageForPid 4096 1 s' = Done x s'"
    using receive_leaves_freed_message[OF R(1) _ _ ch(1) _ R(5) _ _ _ _ _ g, of 2 "[y]" kt] R sem pg by auto
  ultimately show "\<exists>s0 s' x y r. waiting_for s0 4096 1 [x, y] \<and> isAllocatedPage (buddyHeap s0) x = Some 1 \<and>
    receiveMessage kt 2 10 s0 = Done r s' \<and> r \<noteq> NULL \<and> isAllocatedPage (buddyHeap s') x \<noteq> Some 1 \<and>
    getNextMessageForPid 4096 1 s' = Done x s'" using node_base_nonzero by metis
qed

text \<open>Looking up a mutex that exists while the slot behind the administration mutex is in use returns its number, and leaves the administration mutex in the hands of the caller:
  the next lookup or creation of any mutex by any thread, the caller included, blocks.\<close>

theorem getMutex_keeps_admin:
  assumes "free_mutex_at s (adminMutex (mut s))" "mutex_wf (entry s (adminMutex (mut s)))" "threads_ok s"
    "lockQuantumExceded (sched s) = 0" "findMutex (mut s) name = Some i" "valid_mutex s (adminMutex (mut s) + 1)"
  shows "\<exists>s'. getMutex kt name pid t s = Done i s' \<and>
    holder (abs_mutex (entry s' (adminMutex (mut s')))) = Some (tid pid t) \<and>
    (\<forall>kt' name' pid' t'. \<exists>s2 k. getMutex kt' name' pid' t' s' = Yield s2 k)"
proof -
  let ?a = "adminMutex (mut s)"
  let ?s' = "set_lock 0 (seized ?a (down_free (tid pid t) (entry s ?a)) s)"
  have dn: "mutexDown kt ?a pid t s = Done () ?s'" by (rule down_free_app[OF assms(1,4)])
  have fm: "findMutex (mut ?s') name = findMutex (mut s) name"
    unfolding findMutex_def
    using valid_mutexD[OF assms(6)]
    by (intro scan_cong) (auto simp: set_lock_def seized_def set_entry_def down_free_def entry_def NOT_USED_def)
  have g: "getMutex kt name pid t s = Done i ?s'"
    unfolding getMutex_def kbind_app kwith_app dn obind.simps fm assms(5) option.case kret_app ..
  have h: "holder (abs_mutex (entry ?s' (adminMutex (mut ?s')))) = Some (tid pid t)"
    by (simp add: abs_mutex_def down_free_def)
  have lk: "m_value (entry ?s' ?a) = LOCKED" by (simp add: down_free_def)
  have v: "valid_mutex ?s' ?a" using assms(1) by (simp add: free_mutex_at_def)
  have "waiting (entry s ?a) = {}" using assms(1,2) by (simp add: free_mutex_at_def mutex_wf_def)
  then have "tid_pid (m_blocked (entry s ?a) 0) = NOT_USED" by (auto simp: waiting_def MAX_BLOCKED_def)
  then have "nextListIndexAvailable (m_blocked (entry ?s' ?a)) MAX_BLOCKED = 0"
    by (simp add: nextListIndexAvailable_def scan_or_def down_free_def)
  then have room: "nextListIndexAvailable (m_blocked (entry ?s' ?a)) MAX_BLOCKED \<noteq> FULL_LIST" by simp
  have ok: "threads_ok ?s'" "lockQuantumExceded (sched ?s') = 0" using assms(3,4) by simp_all
  have blk: "\<exists>s2 k. getMutex kt' name' pid' t' ?s' = Yield s2 k" for kt' name' pid' t'
  proof -
    have a': "adminMutex (mut ?s') = ?a" by simp
    show ?thesis
      unfolding getMutex_def kbind_app kwith_app a' mutexDown_held_eq[OF v lk ok(2) room ok(1)] obind.simps by blast
  qed
  show ?thesis using g h blk by blast
qed

theorem getMutex_keeps_admin_witness:
  "\<forall>s kt. \<exists>s0 s'. getMutex kt [] 1 0 s0 = Done 0 s' \<and> (\<exists>s2 k. getMutex kt ''m'' 1 0 s' = Yield s2 k)"
proof (intro allI)
  fix s kt
  let ?s = "ex_mutex_state (ex_mutex UNLOCKED nobody 0) s"
  have f: "free_mutex_at ?s (adminMutex (mut ?s))"
    by (simp add: free_mutex_at_def valid_mutex_def isValidMutex_def MAX_MUTEXES_def)
       (simp add: ex_mutex_state_def ex_mutex_def)
  have n: "findMutex (mut ?s) [] = Some 0"
    unfolding findMutex_def by (rule scan_head) (simp_all add: MAX_MUTEXES_def ex_mutex_state_def ex_mutex_def cstr_def)
  have w: "mutex_wf (entry ?s (adminMutex (mut ?s)))" "threads_ok ?s" "lockQuantumExceded (sched ?s) = 0" by simp_all
  have v: "valid_mutex ?s (adminMutex (mut ?s) + 1)"
    by (simp add: valid_mutex_def isValidMutex_def MAX_MUTEXES_def) (simp add: ex_mutex_state_def ex_mutex_def)
  from getMutex_keeps_admin[OF f w n v, of kt 1 0]
  show "\<exists>s0 s'. getMutex kt [] 1 0 s0 = Done 0 s' \<and> (\<exists>s2 k. getMutex kt ''m'' 1 0 s' = Yield s2 k)" by blast
qed

end
