(* ===== verification/User.thy ===== *)
theory User
  imports KState
begin

text \<open>
  User programs and the C library they are linked with (\<open>Userland/Libc\<close>).  A program runs in the same
  monad as the kernel, over its own state; its only outcome besides finishing and undefined behaviour is
  \<open>int80\<close>: it gives up the processor with the number and the arguments of the system call in \<open>ucall\<close>,
  and goes on with the answer the kernel left in \<open>uret\<close> and in memory.

  Local arrays live on a stack that grows down from \<open>usp\<close>.  The bytes of memory are in \<open>umem\<close>; the
  \<open>int\<close>s, pointers and \<open>double\<close>s a program reaches through pointers in \<open>uints\<close>, \<open>uptrs\<close>, \<open>udbls\<close>.  A
  NUL-terminated string that is only read is a \<open>string\<close>, whose end stands for the NUL; \<open>ulit\<close> gives the
  addresses of the string literals whose address is passed to the kernel.
\<close>

record ustate =
  umem :: mem
  uints :: "addr \<Rightarrow> int"
  uptrs :: "addr \<Rightarrow> addr"
  udbls :: "addr \<Rightarrow> 64 word"
  usp :: addr
  ulit :: "string \<Rightarrow> addr"
  ucall :: "int \<times> int list"
  uret :: int

type_synonym ('z, 'a) U = "('z ustate_scheme, 'a) K"

definition int80 :: "int \<Rightarrow> int \<Rightarrow> int \<Rightarrow> int \<Rightarrow> int \<Rightarrow> ('z, int) U" where
  "int80 rdi rsi rdx rcx r8 = kthen [
     kmod (\<lambda>u. u\<lparr>ucall := (rdi, [rsi, rdx, rcx, r8])\<rparr>),
     kgiveup]
     (kwith (\<lambda>u. kret (uret u)))"

definition call80 :: "int \<Rightarrow> int \<Rightarrow> int \<Rightarrow> int \<Rightarrow> int \<Rightarrow> ('z, unit) U" where
  "call80 rdi rsi rdx rcx r8 = kbind (int80 rdi rsi rdx rcx r8) (\<lambda>_. kskip)"

text \<open>A block of \<open>n\<close> bytes on the stack while \<open>f\<close> runs.\<close>

definition with_local :: "nat \<Rightarrow> (addr \<Rightarrow> ('z, 'a) U) \<Rightarrow> ('z, 'a) U" where
  "with_local n f = kwith (\<lambda>u. let p = usp u - n in
     kbind (kmod (\<lambda>u. u\<lparr>usp := p\<rparr>)) (\<lambda>_.
     kbind (f p) (\<lambda>r. kthen [kmod (\<lambda>v. v\<lparr>usp := usp u\<rparr>)] (kret r))))"

definition upoke :: "addr \<Rightarrow> char \<Rightarrow> ('z, unit) U" where
  "upoke p c = kmod (\<lambda>u. u\<lparr>umem := (umem u)(p := c)\<rparr>)"

definition upoke_int :: "addr \<Rightarrow> int \<Rightarrow> ('z, unit) U" where
  "upoke_int p v = kmod (\<lambda>u. u\<lparr>uints := (uints u)(p := v)\<rparr>)"

definition with_ustr :: "addr \<Rightarrow> (string \<Rightarrow> ('z, 'a) U) \<Rightarrow> ('z, 'a) U" where
  "with_ustr p f = kwith (\<lambda>u. case read_str (umem u) p of None \<Rightarrow> kfault Diverges | Some s \<Rightarrow> f s)"

text \<open>A computation on memory; \<open>None\<close> is undefined behaviour.\<close>

definition on_mem :: "(mem \<Rightarrow> ('a \<times> mem) option) \<Rightarrow> ('z, 'a) U" where
  "on_mem f = kwith (\<lambda>u. case f (umem u) of None \<Rightarrow> kfault Undefined
     | Some (a, m) \<Rightarrow> kthen [kmod (\<lambda>u. u\<lparr>umem := m\<rparr>)] (kret a))"

section \<open>string.c\<close>

partial_function (option) strlen_u_loop :: "mem \<Rightarrow> addr \<Rightarrow> nat \<Rightarrow> nat option" where
  "strlen_u_loop m str len = (if m str \<noteq> NUL then strlen_u_loop m (str + 1) (len + 1) else Some len)"

definition strlen_u :: "mem \<Rightarrow> addr \<Rightarrow> nat option" where
  "strlen_u m str = strlen_u_loop m str 0"

partial_function (option) strcpy_u :: "addr \<Rightarrow> addr \<Rightarrow> mem \<Rightarrow> mem option" where
  "strcpy_u cur src m =
     (if m src \<noteq> NUL then strcpy_u (cur + 1) (src + 1) (m(cur := m src)) else Some (m(cur := NUL)))"

primrec strncpy_fill :: "nat \<Rightarrow> addr \<Rightarrow> mem \<Rightarrow> mem" where
  "strncpy_fill 0 cur m = m(cur := NUL)"
| "strncpy_fill (Suc n) cur m = strncpy_fill n (cur + 1) (m(cur := NUL))"

primrec strncpy_u :: "nat \<Rightarrow> addr \<Rightarrow> addr \<Rightarrow> mem \<Rightarrow> mem" where
  "strncpy_u 0 cur src m = strncpy_fill 0 cur m"
| "strncpy_u (Suc n) cur src m =
     (if m src \<noteq> NUL then strncpy_u n (cur + 1) (src + 1) (m(cur := m src))
      else strncpy_fill (Suc n) cur m)"

partial_function (option) strcmp_u :: "mem \<Rightarrow> addr \<Rightarrow> addr \<Rightarrow> int option" where
  "strcmp_u m str1 str2 =
     (if m str1 \<noteq> NUL \<and> m str2 \<noteq> NUL \<and> m str1 = m str2 then strcmp_u m (str1 + 1) (str2 + 1)
      else Some (schar (m str1) - schar (m str2)))"

text \<open>\<open>*str += 'A' - 'a'\<close>\<close>

definition upper_char :: "char \<Rightarrow> char" where
  "upper_char c = (if 97 \<le> schar c \<and> schar c \<le> 122 then char_of (nat (schar c - 32)) else c)"

partial_function (option) toUpperCase_u :: "addr \<Rightarrow> mem \<Rightarrow> mem option" where
  "toUpperCase_u str m =
     (if m str \<noteq> NUL then toUpperCase_u (str + 1) (m(str := upper_char (m str))) else Some m)"

section \<open>stdlib.c\<close>

definition clear_u :: "('z, unit) U" where "clear_u = call80 2 0 0 0 0"
definition echo_u :: "int \<Rightarrow> ('z, unit) U" where "echo_u echoOn = call80 6 echoOn 0 0 0"

definition writeCharAtScreenPos_u :: "char \<Rightarrow> int \<Rightarrow> int \<Rightarrow> ('z, unit) U" where
  "writeCharAtScreenPos_u ch x y = call80 22 (schar ch) x y 0"

definition sleep_u :: "int \<Rightarrow> ('z, unit) U" where "sleep_u milliseconds = call80 27 milliseconds 0 0 0"

definition isAlpha :: "char \<Rightarrow> bool" where
  "isAlpha c \<longleftrightarrow> (65 \<le> schar c \<and> schar c \<le> 90) \<or> (97 \<le> schar c \<and> schar c \<le> 122)"

definition isDigit :: "char \<Rightarrow> bool" where
  "isDigit c \<longleftrightarrow> 48 \<le> schar c \<and> schar c \<le> 57"

definition INT_MAX :: int where "INT_MAX = 2 ^ 31 - 1"
definition INT_MIN :: int where "INT_MIN = - (2 ^ 31)"

text \<open>C's \<open>/\<close> and \<open>%\<close>, which truncate, and \<open>(remainder < 10) ? remainder + '0' : remainder + 'A' - 10\<close>.\<close>

definition cdiv :: "int \<Rightarrow> int \<Rightarrow> int" where "cdiv a b = sgn a * sgn b * (\<bar>a\<bar> div \<bar>b\<bar>)"
definition cmod :: "int \<Rightarrow> int \<Rightarrow> int" where "cmod a b = a - cdiv a b * b"

definition remainder_char :: "int \<Rightarrow> char" where
  "remainder_char r = char_of (nat ((if r < 10 then r + 48 else r + 65 - 10) mod 256))"

text \<open>
  The digits of a 32-bit value in a base of absolute value 2 or more are at most 32, so a loop that runs
  out of \<open>ITOA_FUEL\<close> rounds has base 1 or -1 and does not end; base 0 divides by zero.
\<close>

definition ITOA_FUEL :: nat where "ITOA_FUEL = 33"

primrec itoa_loop :: "nat \<Rightarrow> int \<Rightarrow> addr \<Rightarrow> int \<Rightarrow> int \<Rightarrow> mem \<Rightarrow> (addr \<times> int \<times> mem) option" where
  "itoa_loop 0 v p radix digits m = None"
| "itoa_loop (Suc n) v p radix digits m =
     (if radix = 0 then None
      else let m = m(p := remainder_char (cmod v radix)); p = p + 1; digits = digits + 1; v = cdiv v radix in
        if v \<noteq> 0 then itoa_loop n v p radix digits m else Some (p, digits, m))"

text \<open>The reversal, which leaves a leading minus sign where it is.\<close>

definition reverse_number :: "addr \<Rightarrow> addr \<Rightarrow> mem \<Rightarrow> mem" where
  "reverse_number buffer p m = (let m = m(p := NUL) in
     reverse_loop (if m buffer = CHR ''-'' then buffer + 1 else buffer) (p - 1) m)"

definition itoa_u :: "int \<Rightarrow> addr \<Rightarrow> int \<Rightarrow> mem \<Rightarrow> (int \<times> mem) option" where
  "itoa_u v buffer radix m =
     (if v < 0 \<and> radix = 10 \<and> v = INT_MIN then None
      else let neg = (v < 0 \<and> radix = 10);
               v = (if neg then - v else v);
               p = (if neg then buffer + 1 else buffer);
               digits = (if neg then 1 else 0);
               m = (if neg then m(buffer := CHR ''-'') else m) in
        do { (p, digits, m) \<leftarrow> itoa_loop ITOA_FUEL v p radix digits m;
             Some (digits, reverse_number buffer p m) })"

text \<open>
  IEEE arithmetic is not modelled: the operations the code uses are an argument.  \<open>f_to_int\<close> is the
  conversion to \<open>int\<close>, undefined (\<open>None\<close>) out of range.
\<close>

record float_ops =
  f_mul10 :: "32 word \<Rightarrow> 32 word"
  f_to_int :: "32 word \<Rightarrow> int option"
  f_neg :: "32 word \<Rightarrow> bool"
  f_of_double :: "64 word \<Rightarrow> 32 word"
  d_of_int :: "int \<Rightarrow> 64 word"
  d_add :: "64 word \<Rightarrow> 64 word \<Rightarrow> 64 word"
  d_mul :: "64 word \<Rightarrow> 64 word \<Rightarrow> 64 word"
  d_div :: "64 word \<Rightarrow> 64 word \<Rightarrow> 64 word"

text \<open>Every round lowers \<open>decimals\<close> or divides \<open>number\<close>, which has at most 10 digits.\<close>

primrec ftoa_loop :: "nat \<Rightarrow> bool \<Rightarrow> int \<Rightarrow> int \<Rightarrow> int \<Rightarrow> addr \<Rightarrow> int \<Rightarrow> mem \<Rightarrow> (addr \<times> int \<times> mem) option" where
  "ftoa_loop 0 neg precision number decimals p digits m = None"
| "ftoa_loop (Suc n) neg precision number decimals p digits m =
     (let dot = ((if neg then digits - 1 else digits) = precision \<and> precision \<noteq> 0);
          m = (if dot then m(p := CHR ''.'') else m);
          p = (if dot then p + 1 else p);
          digits = (if dot then digits + 1 else digits);
          m = m(p := remainder_char (cmod number 10));
          p = p + 1; digits = digits + 1; number = cdiv number 10 in
      if decimals > 0 \<or> number \<noteq> 0 then ftoa_loop n neg precision number (decimals - 1) p digits m
      else Some (p, digits, m))"

text \<open>\<open>while(decimals--)\<close> with a negative precision runs into the overflow of \<open>decimals\<close>.\<close>

definition ftoa_u :: "float_ops \<Rightarrow> 32 word \<Rightarrow> addr \<Rightarrow> int \<Rightarrow> mem \<Rightarrow> (int \<times> mem) option" where
  "ftoa_u fl v buffer precision m =
     (if precision < 0 then None
      else let v = (f_mul10 fl ^^ nat precision) v in
        do { number \<leftarrow> f_to_int fl v;
             (if f_neg fl v \<and> number = INT_MIN then None
              else let neg = f_neg fl v;
                number = (if neg then - number else number);
                p = (if neg then buffer + 1 else buffer);
                digits = (if neg then 1 else 0);
                m = (if neg then m(buffer := CHR ''-'') else m) in
              do { (p, digits, m) \<leftarrow> ftoa_loop (nat precision + 12) neg precision number precision p digits m;
                   Some (digits, reverse_number buffer p m) }) })"

end
