(* ===== verification/Stdio.thy ===== *)
theory Stdio
  imports User
begin

text \<open>
  The rest of the C library: \<open>stdio.c\<close>, \<open>time.c\<close>, \<open>ipc.c\<close> and \<open>process.c\<close> of \<open>Userland/Libc\<close>.
\<close>

section \<open>Characters\<close>

definition write_u :: "int \<Rightarrow> addr \<Rightarrow> int \<Rightarrow> ('z, unit) U" where
  "write_u fd buffer n = call80 1 fd (int buffer) n 0"

definition read_u :: "int \<Rightarrow> addr \<Rightarrow> int \<Rightarrow> ('z, unit) U" where
  "read_u fd buffer n = call80 0 fd (int buffer) n 0"

definition putchar_u :: "char \<Rightarrow> ('z, unit) U" where
  "putchar_u c = with_local 1 (\<lambda>p. kdo [upoke p c, write_u 1 p 1])"

definition getchar_u :: "('z, char) U" where
  "getchar_u = with_local 1 (\<lambda>p. kthen [read_u 0 p 1] (kwith (\<lambda>u. kret (umem u p))))"

definition getch_u :: "('z, char) U" where
  "getch_u = with_local 1 (\<lambda>p. kthen [call80 0 0 (int p) 1 1] (kwith (\<lambda>u. kret (umem u p))))"

section \<open>Numbers\<close>

text \<open>The result is the value stored and the number of characters used.\<close>

partial_function (option) parseInt_loop :: "mem \<Rightarrow> addr \<Rightarrow> int \<Rightarrow> int \<Rightarrow> (int \<times> int) option" where
  "parseInt_loop m p v digits =
     (if isDigit (m p) then
        let v = v * 10 + (schar (m p) - 48) in
        if v > INT_MAX then None else parseInt_loop m (p + 1) v (digits + 1)
      else Some (v, digits))"

definition parseInt_u :: "mem \<Rightarrow> addr \<Rightarrow> (int \<times> int) option" where
  "parseInt_u m p =
     (if m p = CHR ''-'' then
        (if isDigit (m (p + 1)) then do { (v, digits) \<leftarrow> parseInt_loop m (p + 1) 0 1; Some (- v, digits) }
         else Some (0, 0))
      else parseInt_loop m p 0 0)"

partial_function (option) parseDouble_loop ::
    "float_ops \<Rightarrow> mem \<Rightarrow> addr \<Rightarrow> bool \<Rightarrow> 64 word \<Rightarrow> 64 word \<Rightarrow> int \<Rightarrow> (64 word \<times> int) option" where
  "parseDouble_loop fl m p dotFlag decimalPlace v digits =
     (let c = m p in
      if isDigit c \<or> (c = CHR ''.'' \<and> \<not> dotFlag) then
        (if c \<noteq> CHR ''.'' \<or> dotFlag then
           (if \<not> dotFlag then
              parseDouble_loop fl m (p + 1) dotFlag decimalPlace
                (d_add fl (d_mul fl v (d_of_int fl 10)) (d_of_int fl (schar c - 48))) (digits + 1)
            else
              parseDouble_loop fl m (p + 1) dotFlag (d_mul fl decimalPlace (d_of_int fl 10))
                (d_add fl v (d_div fl (d_of_int fl (schar c - 48)) decimalPlace)) (digits + 1))
         else parseDouble_loop fl m (p + 1) True decimalPlace v (digits + 1))
      else Some (v, digits))"

definition parseDouble_u :: "float_ops \<Rightarrow> mem \<Rightarrow> addr \<Rightarrow> (64 word \<times> int) option" where
  "parseDouble_u fl m p =
     (let run = (\<lambda>p sign digits. do {
        (v, digits) \<leftarrow> parseDouble_loop fl m p False (d_of_int fl 10) (d_of_int fl 0) digits;
        Some (d_mul fl v (d_of_int fl sign), digits) }) in
      if m p = CHR ''-'' then
        (if isDigit (m (p + 1)) then run (p + 1) (- 1) 1 else Some (d_of_int fl 0, 0))
      else run p 1 0)"

section \<open>printf\<close>

text \<open>The arguments behind the format; taking one as another type is undefined.\<close>

datatype varg = VInt int | VPtr addr | VDouble "64 word"

text \<open>The rest of a format string as memory, so that \<open>parseInt\<close> can read it.\<close>

definition str_mem :: "string \<Rightarrow> mem" where
  "str_mem s = (\<lambda>i. if i < length s then s ! i else NUL)"

text \<open>
  What follows a percent sign: the precision, the conversion character (NUL at the end of the format) and
  what is left, \<open>None\<close> when the format was left behind.
\<close>

definition split_conv :: "string \<Rightarrow> char \<times> string option" where
  "split_conv fmt = (case fmt of [] \<Rightarrow> (NUL, None) | c # r \<Rightarrow> (c, Some r))"

definition next_conv :: "string \<Rightarrow> (int option \<times> char \<times> string option) option" where
  "next_conv fmt = (case fmt of
     [] \<Rightarrow> Some (None, NUL, None)
   | c # r \<Rightarrow>
       if c = CHR ''.'' then do {
         (precision, digits) \<leftarrow> parseInt_u (str_mem r) 0;
         Some (Some precision, split_conv (drop (nat digits) r)) }
       else Some (None, c, Some r))"

definition printf_conv :: "float_ops \<Rightarrow> addr \<Rightarrow> int option \<Rightarrow> char \<Rightarrow> varg list \<Rightarrow> ('z, varg list) U" where
  "printf_conv fl number prec ch args =
     (if ch = CHR ''d'' then
        (case args of VInt num # args \<Rightarrow>
           kbind (on_mem (itoa_u num number 10)) (\<lambda>len. kthen [
             (case prec of Some p \<Rightarrow> kdo (replicate (nat (p - len)) (putchar_u CHR ''0'')) | None \<Rightarrow> kskip),
             write_u 1 number (case prec of Some p \<Rightarrow> if len > p then p else len | None \<Rightarrow> len)]
             (kret args))
         | _ \<Rightarrow> kfault Undefined)
      else if ch = CHR ''f'' then
        (case args of VDouble x # args \<Rightarrow>
           kbind (on_mem (ftoa_u fl (f_of_double fl x) number (case prec of Some p \<Rightarrow> p | None \<Rightarrow> 6))) (\<lambda>len.
           kthen [write_u 1 number len] (kret args))
         | _ \<Rightarrow> kfault Undefined)
      else if ch = CHR ''c'' then
        (case args of VInt c # args \<Rightarrow> kthen [putchar_u (char_of (nat (c mod 256)))] (kret args)
         | _ \<Rightarrow> kfault Undefined)
      else if ch = CHR ''s'' then
        (case args of VPtr p # args \<Rightarrow>
           kwith (\<lambda>u. case strlen_u (umem u) p of None \<Rightarrow> kfault Diverges
             | Some len \<Rightarrow> kthen [write_u 1 p (to_int32 (int len))] (kret args))
         | _ \<Rightarrow> kfault Undefined)
      else kthen [putchar_u ch] (kret args))"

lemma split_conv_length: "split_conv fmt = (ch, Some r) \<Longrightarrow> length r < length fmt"
  by (auto simp: split_conv_def split: list.splits)

lemma next_conv_length: "next_conv fmt = Some (prec, ch, Some r) \<Longrightarrow> length r < length fmt"
  by (auto simp: next_conv_def bind_eq_Some_conv dest!: split_conv_length split: list.splits if_splits)

function printf_loop :: "float_ops \<Rightarrow> addr \<Rightarrow> string \<Rightarrow> varg list \<Rightarrow> ('z, int) U" where
  "printf_loop fl number fmt args = (case fmt of
     [] \<Rightarrow> kret 0
   | c # r \<Rightarrow>
       if c = CHR ''%'' then
         (case next_conv r of
            None \<Rightarrow> kfault Undefined
          | Some (prec, ch, rest) \<Rightarrow>
              kbind (printf_conv fl number prec ch args) (\<lambda>args.
                case rest of None \<Rightarrow> kfault OutOfBounds | Some r \<Rightarrow> printf_loop fl number r args))
       else kthen [putchar_u c] (printf_loop fl number r args))"
  by pat_completeness auto
termination
  by (relation "measure (\<lambda>(fl, number, fmt, args). length fmt)") (auto dest: next_conv_length)

declare printf_loop.simps [simp del]

definition printf_u :: "float_ops \<Rightarrow> string \<Rightarrow> varg list \<Rightarrow> ('z, int) U" where
  "printf_u fl format args = with_local 30 (\<lambda>number. printf_loop fl number format args)"

section \<open>scanf\<close>

primrec readLine_loop :: "nat \<Rightarrow> addr \<Rightarrow> int \<Rightarrow> ('z, int) U" where
  "readLine_loop 0 buffer len = kbind getchar_u (\<lambda>c. kthen [upoke buffer NUL] (kret len))"
| "readLine_loop (Suc n) buffer len = kbind getchar_u (\<lambda>c.
     if c \<noteq> CHR 0x0A then kthen [upoke buffer c] (readLine_loop n (buffer + 1) (len + 1))
     else kthen [upoke buffer NUL] (kret len))"

definition readLine_u :: "addr \<Rightarrow> int \<Rightarrow> ('z, int) U" where
  "readLine_u buffer maxSize = readLine_loop (nat maxSize) buffer 0"

partial_function (option) scan_copy :: "addr \<Rightarrow> addr \<Rightarrow> mem \<Rightarrow> (addr \<times> mem) option" where
  "scan_copy src dst m =
     (if m src \<noteq> NUL then scan_copy (src + 1) (dst + 1) (m(dst := m src)) else Some (src + 1, m(dst := NUL)))"

text \<open>One conversion; the results are the input pointer, the arguments left and the count of conversions.\<close>

definition scan_conv :: "float_ops \<Rightarrow> char \<Rightarrow> varg list \<Rightarrow> addr \<Rightarrow> int \<Rightarrow> ('z, addr \<times> varg list \<times> int) U" where
  "scan_conv fl ch args p n =
     (if ch = CHR ''d'' then
        (case args of VPtr a # args \<Rightarrow> kwith (\<lambda>u. case parseInt_u (umem u) p of None \<Rightarrow> kfault Undefined
           | Some (v, digits) \<Rightarrow> kthen [upoke_int a v] (kret (p + nat digits, args, n + 1)))
         | _ \<Rightarrow> kfault Undefined)
      else if ch = CHR ''f'' then
        (case args of VPtr a # args \<Rightarrow> kwith (\<lambda>u. case parseDouble_u fl (umem u) p of None \<Rightarrow> kfault Undefined
           | Some (v, digits) \<Rightarrow> kthen [kmod (\<lambda>u. u\<lparr>udbls := (udbls u)(a := v)\<rparr>)] (kret (p + nat digits, args, n + 1)))
         | _ \<Rightarrow> kfault Undefined)
      else if ch = CHR ''c'' then
        (case args of VPtr a # args \<Rightarrow> kwith (\<lambda>u. kthen [upoke a (umem u p)] (kret (p + 1, args, n + 1)))
         | _ \<Rightarrow> kfault Undefined)
      else if ch = CHR ''s'' then
        (case args of VPtr a # args \<Rightarrow> kbind (on_mem (\<lambda>m. scan_copy p a m)) (\<lambda>p. kret (p, args, n + 1))
         | _ \<Rightarrow> kfault Undefined)
      else kret (p, args, n))"

text \<open>After a conversion \<open>ch\<close> is the conversion character, and it is compared with the next input character.\<close>

function scan_loop :: "float_ops \<Rightarrow> string \<Rightarrow> varg list \<Rightarrow> addr \<Rightarrow> int \<Rightarrow> ('z, int) U" where
  "scan_loop fl fmt args p n = (case fmt of
     [] \<Rightarrow> kret n
   | c # r \<Rightarrow>
       if c = CHR ''%'' then
         (case split_conv r of (ch, rest) \<Rightarrow>
            kbind (scan_conv fl ch args p n) (\<lambda>(p, args, n). kwith (\<lambda>u.
              if ch \<noteq> umem u p then kret n
              else case rest of None \<Rightarrow> kfault OutOfBounds | Some r \<Rightarrow> scan_loop fl r args (p + 1) n)))
       else kwith (\<lambda>u. if c \<noteq> umem u p then kret n else scan_loop fl r args (p + 1) n))"
  by pat_completeness auto
termination
  by (relation "measure (\<lambda>(fl, fmt, args, p, n). length fmt)") (auto dest: split_conv_length [OF sym])

declare scan_loop.simps [simp del]

definition UBUFFER_SIZE :: nat where "UBUFFER_SIZE = 25 * 80 + 1000"

definition scanf_u :: "float_ops \<Rightarrow> string \<Rightarrow> varg list \<Rightarrow> ('z, int) U" where
  "scanf_u fl format args = with_local UBUFFER_SIZE (\<lambda>buffer.
     kbind (readLine_u buffer (int UBUFFER_SIZE)) (\<lambda>_. scan_loop fl format args buffer 0))"

definition sscanf_u :: "float_ops \<Rightarrow> string \<Rightarrow> addr \<Rightarrow> varg list \<Rightarrow> ('z, int) U" where
  "sscanf_u fl format str args = scan_loop fl format args str 0"

section \<open>time.c\<close>

text \<open>The three \<open>int\<close> fields of a \<open>time\<close> or \<open>date\<close> follow each other.\<close>

definition updateTime :: "addr \<Rightarrow> ('z, unit) U" where
  "updateTime t = call80 4 (int t) (int (t + 4)) (int (t + 8)) 0"

definition updateDate :: "addr \<Rightarrow> ('z, unit) U" where
  "updateDate d = call80 5 (int d) (int (d + 4)) (int (d + 8)) 0"

definition int_after :: "(addr \<Rightarrow> ('z, unit) U) \<Rightarrow> nat \<Rightarrow> ('z, int) U" where
  "int_after call off = with_local 12 (\<lambda>p. kthen [call p] (kwith (\<lambda>u. kret (uints u (p + off)))))"

definition getHour :: "('z, int) U" where "getHour = int_after updateTime 0"
definition getMinutes :: "('z, int) U" where "getMinutes = int_after updateTime 4"
definition getSeconds :: "('z, int) U" where "getSeconds = int_after updateTime 8"
definition getDay :: "('z, int) U" where "getDay = int_after updateDate 0"
definition getMonth :: "('z, int) U" where "getMonth = int_after updateDate 4"
definition getYear :: "('z, int) U" where "getYear = int_after updateDate 8"
definition setTimeZone_u :: "int \<Rightarrow> ('z, unit) U" where "setTimeZone_u tz = call80 3 tz 0 0 0"

section \<open>ipc.c and process.c\<close>

definition createChannel_u :: "int \<Rightarrow> ('z, int) U" where "createChannel_u recipientPid = int80 18 recipientPid 0 0 0"
definition send_u :: "int \<Rightarrow> addr \<Rightarrow> int \<Rightarrow> ('z, int) U" where
  "send_u recipientPid message len = int80 19 recipientPid (int message) len 0"
definition receive_u :: "int \<Rightarrow> addr \<Rightarrow> int \<Rightarrow> ('z, int) U" where
  "receive_u senderPid buffer len = int80 20 senderPid (int buffer) len 0"
definition deleteChannel_u :: "int \<Rightarrow> ('z, unit) U" where "deleteChannel_u recipientPid = call80 21 recipientPid 0 0 0"
definition createMutex_u :: "addr \<Rightarrow> ('z, int) U" where "createMutex_u name = int80 14 (int name) 0 0 0"
definition releaseMutex_u :: "int \<Rightarrow> ('z, unit) U" where "releaseMutex_u mutex = call80 15 mutex 0 0 0"
definition mutexUp_u :: "int \<Rightarrow> ('z, unit) U" where "mutexUp_u mutex = call80 16 mutex 0 0 0"
definition mutexDown_u :: "int \<Rightarrow> ('z, unit) U" where "mutexDown_u mutex = call80 17 mutex 0 0 0"
definition createSemaphore_u :: "addr \<Rightarrow> ('z, int) U" where "createSemaphore_u name = int80 23 (int name) 0 0 0"
definition releaseSemaphore_u :: "int \<Rightarrow> ('z, unit) U" where "releaseSemaphore_u semaphore = call80 24 semaphore 0 0 0"
definition signal_u :: "int \<Rightarrow> ('z, unit) U" where "signal_u semaphore = call80 25 semaphore 0 0 0"
definition wait_u :: "int \<Rightarrow> ('z, unit) U" where "wait_u semaphore = call80 26 semaphore 0 0 0"
definition openPipe_u :: "addr \<Rightarrow> ('z, int) U" where "openPipe_u name = int80 28 (int name) 0 0 0"
definition closePipe_u :: "int \<Rightarrow> ('z, int) U" where "closePipe_u pipe = int80 29 pipe 0 0 0"
definition shellPipe_u :: "addr \<Rightarrow> int \<Rightarrow> addr \<Rightarrow> int \<Rightarrow> ('z, int) U" where
  "shellPipe_u filename argc argv isWriter = int80 33 (int filename) argc (int argv) isWriter"

definition kill_u :: "int \<Rightarrow> ('z, unit) U" where "kill_u pid = call80 8 pid 0 0 0"
definition runModule_u :: "addr \<Rightarrow> int \<Rightarrow> addr \<Rightarrow> int \<Rightarrow> ('z, int) U" where
  "runModule_u filename argc argv background = int80 7 (int filename) argc (int argv) background"
definition getpid_u :: "('z, int) U" where "getpid_u = int80 10 0 0 0 0"
definition runProcess_u :: "addr \<Rightarrow> int \<Rightarrow> addr \<Rightarrow> int \<Rightarrow> ('z, int) U" where
  "runProcess_u entryPoint argc argv background = int80 11 (int entryPoint) argc (int argv) background"
definition addThread_u :: "addr \<Rightarrow> int \<Rightarrow> addr \<Rightarrow> ('z, int) U" where
  "addThread_u entryPoint argc argv = int80 30 (int entryPoint) argc (int argv) 0"
definition terminateThread_u :: "int \<Rightarrow> ('z, int) U" where "terminateThread_u thread = int80 31 thread 0 0 0"
definition joinThread_u :: "int \<Rightarrow> ('z, int) U" where "joinThread_u thread = int80 32 thread 0 0 0"

end
