(* ===== verification/Programs.thy ===== *)
theory Programs
  imports Stdio
begin

text \<open>
  The small user programs and the shell.  \<open>main(argc, argv)\<close> of program \<open>p\<close> is \<open>p_main\<close>; \<open>argv\<close> is the
  address of an array of pointers of 8 bytes.  Entry points whose address is taken are arguments, as are
  the addresses the linker chooses.  An endless loop is observed for \<open>n\<close> rounds and then \<open>Diverges\<close>.
\<close>

section \<open>Loader\<close>

primrec memset_l_loop :: "nat \<Rightarrow> addr \<Rightarrow> char \<Rightarrow> mem \<Rightarrow> mem" where
  "memset_l_loop 0 dst chr m = m"
| "memset_l_loop (Suc n) dst chr m = memset_l_loop n dst chr (m(dst + n := chr))"

definition memset_l :: "addr \<Rightarrow> int \<Rightarrow> nat \<Rightarrow> mem \<Rightarrow> mem" where
  "memset_l destiation c n m = memset_l_loop n destiation (char_of (nat (c mod 256))) m"

definition start_l :: "addr \<Rightarrow> addr \<Rightarrow> (int \<Rightarrow> addr \<Rightarrow> ('z, int) U) \<Rightarrow> int \<Rightarrow> addr \<Rightarrow> ('z, int) U" where
  "start_l bss endOfBinary main argc argv = kthen [
     kmod (\<lambda>u. u\<lparr>umem := memset_l bss 0 (endOfBinary - bss) (umem u)\<rparr>)]
     (main argc argv)"

section \<open>Programs without state\<close>

definition argv_at :: "addr \<Rightarrow> int \<Rightarrow> (addr \<Rightarrow> ('z, 'a) U) \<Rightarrow> ('z, 'a) U" where
  "argv_at argv i f = kwith (\<lambda>u. f (uptrs u (argv + 8 * nat i)))"

definition uprint :: "float_ops \<Rightarrow> string \<Rightarrow> varg list \<Rightarrow> ('z, unit) U" where
  "uprint fl format args = kbind (printf_u fl format args) (\<lambda>_. kskip)"

definition clear_main :: "int \<Rightarrow> addr \<Rightarrow> ('z, int) U" where
  "clear_main argc argv = kthen [clear_u] (kret 0)"

definition date_main :: "float_ops \<Rightarrow> int \<Rightarrow> addr \<Rightarrow> ('z, int) U" where
  "date_main fl argc argv =
     kbind getDay (\<lambda>d. kbind getMonth (\<lambda>m. kbind getYear (\<lambda>y.
     kthen [uprint fl (''%.2d/%.2d/%.2d'' @ [CHR 0x0A]) [VInt d, VInt m, VInt y]] (kret 0))))"

definition time_main :: "float_ops \<Rightarrow> int \<Rightarrow> addr \<Rightarrow> ('z, int) U" where
  "time_main fl argc argv =
     kbind getHour (\<lambda>h. kbind getMinutes (\<lambda>m. kbind getSeconds (\<lambda>s.
     kthen [uprint fl (''%.2d:%.2d:%.2d'' @ [CHR 0x0A]) [VInt h, VInt m, VInt s]] (kret 0))))"

definition echo_main :: "float_ops \<Rightarrow> int \<Rightarrow> addr \<Rightarrow> ('z, int) U" where
  "echo_main fl argc argv = kthen [
     kfor 1 (nat (argc - 1)) (\<lambda>i. argv_at argv i (\<lambda>p. uprint fl ''%s '' [VPtr p])),
     putchar_u (CHR 0x0A)]
     (kret 0)"

text \<open>A line of the manual: a tab before, a newline behind.\<close>

definition man_line :: "string \<Rightarrow> string" where
  "man_line s = [CHR 0x09] @ '' '' @ s @ [CHR 0x0A]"

definition man :: string where
  "man = concat (map man_line [
     ''time: Prints out the current time'',
     ''date: Prints out the current date'',
     ''clear: Wipes out the screen'',
     ''ps: Prints processes'',
     ''prodcons: Shows producer-consumer problem'',
     ''pipeProdcons: Shows producer-consumer problem solved with pipes'',
     ''messageTest: Tests interprocess communication'',
     ''threadTest&: Tests thread addition (Afterwards run ps)'',
     ''kill: Kills pid sent as argument'',
     ''snek: Snake game'',
     ''time|shellPipe: Tests shell pipe, second process will print first output'',
     ''help: Prints all commands and uses'',
     ''cmd&: Executes command in background'',
     ''echo: Prints what you send as arguments'']) @
     [CHR 0x09] @ '' sampleCodeModule: A sample module''"

definition help_main :: "float_ops \<Rightarrow> int \<Rightarrow> addr \<Rightarrow> ('z, int) U" where
  "help_main fl argc argv = kwith (\<lambda>u. kthen [uprint fl (''%s'' @ [CHR 0x0A]) [VPtr (ulit u man)]] (kret 0))"

definition kill_main :: "int \<Rightarrow> addr \<Rightarrow> ('z, int) U" where
  "kill_main argc argv = kthen [
     kwhen (argc > 1) [argv_at argv 1 (\<lambda>p. kwith (\<lambda>u. case parseInt_u (umem u) p of
         None \<Rightarrow> kfault Undefined
       | Some (pid, _) \<Rightarrow> kill_u pid))]]
     (kret 0)"

definition ps_main :: "float_ops \<Rightarrow> int \<Rightarrow> addr \<Rightarrow> ('z, int) U" where
  "ps_main fl argc argv = with_local 1024 (\<lambda>buffer. kthen [
     call80 9 (int buffer) 1024 0 0,
     uprint fl ''%s'' [VPtr buffer]]
     (kret 0))"

definition sampleCodeModule_main :: "int \<Rightarrow> addr \<Rightarrow> ('z, int) U" where
  "sampleCodeModule_main argc argv = kfault Diverges"

definition shellPipe_main :: "float_ops \<Rightarrow> int \<Rightarrow> addr \<Rightarrow> ('z, int) U" where
  "shellPipe_main fl argc argv = with_local 256 (\<lambda>buffer. kthen [
     uprint fl ''PipeTestProcess: '' [],
     kbind (scanf_u fl ''%s'' [VPtr buffer]) (\<lambda>_. kskip),
     uprint fl (''%s'' @ [CHR 0x0A]) [VPtr buffer]]
     (kret 0))"

section \<open>ThreadTest\<close>

definition parse_arg :: "addr \<Rightarrow> int \<Rightarrow> (int \<Rightarrow> ('z, 'a) U) \<Rightarrow> ('z, 'a) U" where
  "parse_arg argv i f = argv_at argv i (\<lambda>p. kwith (\<lambda>u. case parseInt_u (umem u) p of
      None \<Rightarrow> kfault Undefined
    | Some (v, _) \<Rightarrow> f v))"

definition threadFun :: "float_ops \<Rightarrow> int \<Rightarrow> addr \<Rightarrow> ('z, int) U" where
  "threadFun fl argc argv = parse_arg argv 0 (\<lambda>num. kthen [
     uprint fl (''Thread %d'' @ [CHR 0x0A]) [VInt num]]
     (kfault Diverges))"

text \<open>\<open>itoa(v, buffer, 10)\<close>, whose result is not used.\<close>

definition print_int :: "int \<Rightarrow> addr \<Rightarrow> ('z, unit) U" where
  "print_int v buffer = kbind (on_mem (itoa_u v buffer 10)) (\<lambda>_. kskip)"

definition upoke_ptr :: "addr \<Rightarrow> addr \<Rightarrow> ('z, unit) U" where
  "upoke_ptr p a = kmod (\<lambda>u. u\<lparr>uptrs := (uptrs u)(p := a)\<rparr>)"

definition threadTest_main :: "addr \<Rightarrow> int \<Rightarrow> addr \<Rightarrow> ('z, int) U" where
  "threadTest_main entry argc argv =
     with_local 8 (\<lambda>args. with_local 3 (\<lambda>num. with_local 12 (\<lambda>threads. kthen [
       kfor 0 3 (\<lambda>i. kdo [
         print_int (i + 1) num,
         upoke_ptr args num,
         kbind (addThread_u entry 1 args) (\<lambda>r. upoke_int (threads + 4 * nat i) r)]),
       kwith (\<lambda>u. kbind (joinThread_u (uints u threads)) (\<lambda>_. kskip))]
       (kret 0))))"

section \<open>MessageTest\<close>

definition otherProcess :: "float_ops \<Rightarrow> int \<Rightarrow> addr \<Rightarrow> ('z, int) U" where
  "otherProcess fl argc argv = with_local 50 (\<lambda>buffer.
     if argc > 0 then
       parse_arg argv 1 (\<lambda>senderPid. parse_arg argv 2 (\<lambda>len. kthen [
         kbind (createChannel_u senderPid) (\<lambda>_. kskip),
         kbind (receive_u senderPid buffer len) (\<lambda>_. kskip),
         kbind getpid_u (\<lambda>pid.
           uprint fl (''Process pid: %d'' @ [CHR 0x0A] @ ''Received: %s'' @ [CHR 0x0A] @ ''From process pid %d'' @ [CHR 0x0A])
             [VInt pid, VPtr buffer, VInt senderPid])]
         (kret 0)))
     else kret (- 1))"

definition messageTest_main :: "float_ops \<Rightarrow> addr \<Rightarrow> int \<Rightarrow> addr \<Rightarrow> ('z, int) U" where
  "messageTest_main fl entry argc argv =
     with_local 50 (\<lambda>buffer. with_local 20 (\<lambda>name. with_local 11 (\<lambda>sender. with_local 2 (\<lambda>len.
     with_local 24 (\<lambda>arguments. kthen [
       upoke_ptr arguments name, upoke_ptr (arguments + 8) sender, upoke_ptr (arguments + 16) len,
       kmod (\<lambda>u. u\<lparr>umem := strncpy_u 17 name (ulit u ''messageTestOther'') (umem u)\<rparr>),
       kbind getpid_u (\<lambda>pid. print_int pid sender),
       uprint fl ''Type message: '' [],
       kbind (scanf_u fl ''%s'' [VPtr buffer]) (\<lambda>_. kskip),
       kwith (\<lambda>u. case strlen_u (umem u) buffer of None \<Rightarrow> kfault Diverges | Some n \<Rightarrow> kdo [
         print_int (to_int32 (int n)) len,
         kbind (runProcess_u entry 3 arguments 1) (\<lambda>recipientPid. kdo [
           kbind (createChannel_u recipientPid) (\<lambda>_. kskip),
           kbind (send_u recipientPid buffer (to_int32 (int n))) (\<lambda>_. kskip)])])]
       (kret 0))))))"

section \<open>Shell\<close>

text \<open>\<open>char * arguments[100]\<close> is at the address \<open>arguments\<close>; more than 100 are out of bounds.\<close>

definition MAX_ARGUMENTS :: nat where "MAX_ARGUMENTS = 100"

definition set_argument :: "addr \<Rightarrow> int \<Rightarrow> addr \<Rightarrow> ('z, unit) U" where
  "set_argument arguments argc p =
     (if argc < int MAX_ARGUMENTS then upoke_ptr (arguments + 8 * nat argc) p else kfault OutOfBounds)"

partial_function (option) first_word :: "mem \<Rightarrow> addr \<Rightarrow> addr option" where
  "first_word m string = (if m string \<noteq> CHR '' '' \<and> m string \<noteq> NUL then first_word m (string + 1) else Some string)"

text \<open>The loop over the rest of the line; the fuel is one more than the length of the rest.\<close>

primrec parse_rest :: "nat \<Rightarrow> addr \<Rightarrow> int \<Rightarrow> addr \<Rightarrow> addr \<Rightarrow> ('z, int) U" where
  "parse_rest 0 arguments argc previous string = kfault Diverges"
| "parse_rest (Suc n) arguments argc previous string = kwith (\<lambda>u.
     let c = umem u string in
     if c \<noteq> NUL then
       (if c = CHR '' '' then kthen [set_argument arguments argc previous, upoke string NUL]
          (parse_rest n arguments (argc + 1) (string + 1) (string + 1))
        else parse_rest n arguments argc previous (string + 1))
     else kthen [set_argument arguments argc previous] (kret (argc + 1)))"

definition parseArguments :: "addr \<Rightarrow> addr \<Rightarrow> ('z, int) U" where
  "parseArguments arguments string = kwith (\<lambda>u. case first_word (umem u) string of None \<Rightarrow> kfault Diverges
     | Some p \<Rightarrow> let c = umem u p in kthen [
         upoke p NUL,
         set_argument arguments 0 string]
         (if c \<noteq> NUL then with_ustr (p + 1) (\<lambda>rest. parse_rest (length rest + 1) arguments 1 (p + 1) (p + 1))
          else kret 1))"

partial_function (option) find_pipe :: "mem \<Rightarrow> addr \<Rightarrow> addr option" where
  "find_pipe m string = (if m string \<noteq> NUL \<and> m string \<noteq> CHR ''|'' then find_pipe m (string + 1) else Some string)"

text \<open>An empty name reads the byte in front of the buffer.\<close>

definition executeCommand :: "addr \<Rightarrow> addr \<Rightarrow> int \<Rightarrow> addr \<Rightarrow> ('z, int) U" where
  "executeCommand arguments name argc argv = kwith (\<lambda>u. case find_pipe (umem u) name of None \<Rightarrow> kfault Diverges
     | Some p \<Rightarrow>
         if umem u p = CHR ''|'' then kthen [
           upoke p NUL,
           kbind (shellPipe_u name argc argv 1) (\<lambda>_. kskip)]
           (kbind (parseArguments arguments p) (\<lambda>argc2. shellPipe_u (p + 1) argc2 arguments 0))
         else if p = name then kfault OutOfBounds
         else if umem u (p - 1) = CHR ''&'' then kthen [upoke (p - 1) NUL] (runModule_u name argc argv 1)
         else runModule_u name argc argv 0)"

definition shell_round :: "float_ops \<Rightarrow> addr \<Rightarrow> addr \<Rightarrow> ('z, unit) U" where
  "shell_round fl arguments buffer = kdo [
     uprint fl ''$> '' [],
     kbind (scanf_u fl ''%s'' [VPtr buffer]) (\<lambda>_. kskip),
     kbind (parseArguments arguments buffer) (\<lambda>argc.
       kbind (executeCommand arguments buffer argc arguments) (\<lambda>r.
         kwhen (r = - 1) [uprint fl (''%s: Invalid Module'' @ [CHR 0x0A]) [VPtr buffer]]))]"

definition shell_main :: "nat \<Rightarrow> float_ops \<Rightarrow> addr \<Rightarrow> int \<Rightarrow> addr \<Rightarrow> ('z, int) U" where
  "shell_main n fl arguments argc argv = with_local 128 (\<lambda>buffer. kthen [
     kwhile n (\<lambda>_. True) (shell_round fl arguments buffer)]
     (kret 0))"

end
