(* ===== verification/ProdCons.thy ===== *)
theory ProdCons
  imports Programs
begin

text \<open>
  The two producer-consumer programs.  All processes a program starts run its code on the same static
  variables, which are the fields of \<open>pcstate\<close>; \<open>prodcons.c\<close> guards a buffer of five characters by a mutex
  and two semaphores, \<open>pipeProdcons.c\<close> sends the characters through a pipe.  The control code is the same
  text in both files, up to \<open>MAX_BUFFER\<close>.
\<close>

record pcstate = ustate +
  producerPid :: "int list"
  consumerPid :: "int list"
  buffer :: "char list"
  bufferMutex :: int
  emptySem :: int
  producedSem :: int
  consumerIndex :: int
  producerIndex :: int
  pc_index :: int

type_synonym 'a PC = "(pcstate, 'a) K"

definition MAX_PRODUCERS :: nat where "MAX_PRODUCERS = 5"
definition MAX_CONSUMERS :: nat where "MAX_CONSUMERS = 5"
definition MAX_BUFFER :: nat where "MAX_BUFFER = 5"
definition MAX_BUFFER_p :: nat where "MAX_BUFFER_p = 4096"

text \<open>The statics at the start, on top of the state of the library.\<close>

definition pc_statics :: "ustate \<Rightarrow> pcstate" where
  "pc_statics u = ustate.extend u \<lparr>producerPid = replicate MAX_PRODUCERS 0, consumerPid = replicate MAX_CONSUMERS 0,
     buffer = replicate MAX_BUFFER NUL, bufferMutex = 0, emptySem = 0, producedSem = 0,
     consumerIndex = 0, producerIndex = 0, pc_index = 0\<rparr>"

text \<open>\<open>xs[i]\<close>, undefined outside of the array.\<close>

definition at_index :: "'b list \<Rightarrow> int \<Rightarrow> ('b \<Rightarrow> ('s, 'a) K) \<Rightarrow> ('s, 'a) K" where
  "at_index xs i f = (if 0 \<le> i \<and> i < int (length xs) then f (xs ! nat i) else kfault OutOfBounds)"

definition set_producerPid :: "int \<Rightarrow> int \<Rightarrow> unit PC" where
  "set_producerPid i pid = kwith (\<lambda>u. at_index (producerPid u) i (\<lambda>_.
     kmod (\<lambda>u. u\<lparr>producerPid := (producerPid u)[nat i := pid]\<rparr>)))"

definition set_consumerPid :: "int \<Rightarrow> int \<Rightarrow> unit PC" where
  "set_consumerPid i pid = kwith (\<lambda>u. at_index (consumerPid u) i (\<lambda>_.
     kmod (\<lambda>u. u\<lparr>consumerPid := (consumerPid u)[nat i := pid]\<rparr>)))"

section \<open>Control\<close>

text \<open>\<open>while(i-- >= 0) kill(pids[i])\<close>; the fuel is \<open>i + 1\<close>, the number of rounds from a nonnegative \<open>i\<close>.\<close>

primrec kill_down :: "nat \<Rightarrow> (pcstate \<Rightarrow> int list) \<Rightarrow> int \<Rightarrow> unit PC" where
  "kill_down 0 pids i = kskip"
| "kill_down (Suc n) pids i =
     (if i \<ge> 0 then kdo [kwith (\<lambda>u. at_index (pids u) (i - 1) kill_u), kill_down n pids (i - 1)] else kskip)"

definition killAllProcesses :: "unit PC" where
  "killAllProcesses = kdo [
     kwith (\<lambda>u. kill_down (nat (consumerIndex u + 1)) consumerPid (consumerIndex u)),
     kwith (\<lambda>u. kill_down (nat (producerIndex u + 1)) producerPid (producerIndex u))]"

definition pc_help :: string where
  "pc_help = (let nl = [CHR 0x0A, CHR 0x09] in ''Type:'' @ nl @ ''q to quit'' @ nl @ ''p to add producer'' @ nl @
     ''k to kill producer'' @ nl @ ''c to add consumer'' @ nl @ ''x to kill consumer'' @ nl @ ''s for status'' @ nl @
     ''h for help'' @ [CHR 0x0A])"

definition set_producerIndex :: "int \<Rightarrow> unit PC" where
  "set_producerIndex d = kmod (\<lambda>u. u\<lparr>producerIndex := producerIndex u + d\<rparr>)"

definition set_consumerIndex :: "int \<Rightarrow> unit PC" where
  "set_consumerIndex d = kmod (\<lambda>u. u\<lparr>consumerIndex := consumerIndex u + d\<rparr>)"

text \<open>\<open>producer\<close> and \<open>consumer\<close> are the addresses of the two functions.\<close>

definition processControl :: "float_ops \<Rightarrow> nat \<Rightarrow> addr \<Rightarrow> addr \<Rightarrow> char \<Rightarrow> int PC" where
  "processControl fl max_buffer producer consumer option =
     with_local 10 (\<lambda>name. with_local 11 (\<lambda>num. with_local 16 (\<lambda>arguments.
       kbind (kdo [upoke_ptr arguments name, upoke_ptr (arguments + 8) num]) (\<lambda>_.
       if option = CHR ''q'' then kthen [killAllProcesses] (kret (- 1))
       else if option = CHR ''p'' then kthen [
         set_producerIndex 1,
         kmod (\<lambda>u. u\<lparr>umem := strncpy_u 9 name (ulit u ''producer'') (umem u)\<rparr>),
         kwith (\<lambda>u. print_int (producerIndex u) num),
         uprint fl (''Added Producer'' @ [CHR 0x0A]) [],
         kbind (runProcess_u producer 2 arguments 1) (\<lambda>pid. kwith (\<lambda>u. set_producerPid (producerIndex u - 1) pid))]
         (kret 1)
       else if option = CHR ''k'' then kthen [
         kwith (\<lambda>u. if producerIndex u > 0 then kdo [
           uprint fl (''Killed Producer %d'' @ [CHR 0x0A]) [VInt (producerIndex u)],
           set_producerIndex (- 1),
           kwith (\<lambda>u. at_index (producerPid u) (producerIndex u) kill_u)]
         else kskip)]
         (kret 1)
       else if option = CHR ''c'' then kthen [
         set_consumerIndex 1,
         kmod (\<lambda>u. u\<lparr>umem := strncpy_u 9 name (ulit u ''consumer'') (umem u)\<rparr>),
         kwith (\<lambda>u. print_int (consumerIndex u) num),
         uprint fl (''Added Consumer'' @ [CHR 0x0A]) [],
         kbind (runProcess_u consumer 2 arguments 1) (\<lambda>pid. kwith (\<lambda>u. set_consumerPid (consumerIndex u - 1) pid))]
         (kret 1)
       else if option = CHR ''x'' then kthen [
         kwith (\<lambda>u. if consumerIndex u > 0 then kdo [
           uprint fl (''Killed Consumer %d'' @ [CHR 0x0A]) [VInt (consumerIndex u)],
           set_consumerIndex (- 1),
           kwith (\<lambda>u. at_index (consumerPid u) (consumerIndex u) kill_u)]
         else kskip)]
         (kret 1)
       else if option = CHR ''s'' then kthen [
         kwith (\<lambda>u. uprint fl (''%d Producers, %d Consumers, %d/%d Used'' @ [CHR 0x0A])
           [VInt (producerIndex u), VInt (consumerIndex u), VInt (pc_index u), VInt (int max_buffer)])]
         (kret 1)
       else if option = CHR ''h'' then kthen [uprint fl pc_help []] (kret 1)
       else kthen [uprint fl (''Unknown command'' @ [CHR 0x0A]) []] (kret 1)))))"

text \<open>
  \<open>aux\<close> is not initialised before its first comparison: its first value is an argument.  Reading to the
  end of a line and the number of commands are observed for \<open>n\<close> rounds.
\<close>

primrec skip_line :: "nat \<Rightarrow> char \<Rightarrow> unit PC" where
  "skip_line 0 aux = kfault Diverges"
| "skip_line (Suc n) aux = (if aux \<noteq> CHR 0x0A then kbind getchar_u (skip_line n) else kskip)"

primrec control_loop :: "nat \<Rightarrow> (char \<Rightarrow> int PC) \<Rightarrow> char \<Rightarrow> int \<Rightarrow> unit PC" where
  "control_loop 0 process aux control = kfault Diverges"
| "control_loop (Suc n) process aux control =
     (if control \<noteq> - 1 then kbind getchar_u (\<lambda>c. kbind (skip_line n aux) (\<lambda>_.
        kbind (process c) (control_loop n process NUL)))
      else kskip)"

section \<open>prodcons.c\<close>

definition prodcons_main :: "nat \<Rightarrow> float_ops \<Rightarrow> addr \<Rightarrow> addr \<Rightarrow> char \<Rightarrow> int \<Rightarrow> addr \<Rightarrow> int PC" where
  "prodcons_main n fl producer consumer aux argc argv = kthen [
     kwith (\<lambda>u. kbind (createMutex_u (ulit u ''ProdCons Mutex'')) (\<lambda>m. kmod (\<lambda>u. u\<lparr>bufferMutex := m\<rparr>))),
     kwith (\<lambda>u. kbind (createSemaphore_u (ulit u ''Empty Sem'')) (\<lambda>m. kmod (\<lambda>u. u\<lparr>emptySem := m\<rparr>))),
     kwith (\<lambda>u. kbind (createSemaphore_u (ulit u ''Produced Sem'')) (\<lambda>m. kmod (\<lambda>u. u\<lparr>producedSem := m\<rparr>))),
     kfor 0 MAX_BUFFER (\<lambda>i. kwith (\<lambda>u. signal_u (emptySem u))),
     uprint fl pc_help [],
     control_loop n (processControl fl MAX_BUFFER producer consumer) aux 1,
     kwith (\<lambda>u. releaseMutex_u (bufferMutex u)),
     kwith (\<lambda>u. releaseSemaphore_u (emptySem u)),
     kwith (\<lambda>u. releaseSemaphore_u (producedSem u))]
     (kret 0)"

definition products :: string where "products = ''abcdefg''"

definition next_product :: "int \<Rightarrow> int" where
  "next_product productIndex = (if productIndex = int (length products) then 0 else productIndex)"

text \<open>A round of each loop; \<open>buffer[index++] = product\<close> and \<open>consumed = buffer[--index]\<close> are checked.\<close>

definition put_buffer :: "char \<Rightarrow> unit PC" where
  "put_buffer product = kwith (\<lambda>u. at_index (buffer u) (pc_index u) (\<lambda>_.
     kmod (\<lambda>u. u\<lparr>buffer := (buffer u)[nat (pc_index u) := product], pc_index := pc_index u + 1\<rparr>)))"

definition take_buffer :: "char PC" where
  "take_buffer = kthen [kmod (\<lambda>u. u\<lparr>pc_index := pc_index u - 1\<rparr>)]
     (kwith (\<lambda>u. at_index (buffer u) (pc_index u) kret))"

definition producer_round :: "float_ops \<Rightarrow> int \<Rightarrow> int \<Rightarrow> int PC" where
  "producer_round fl producerNumber productIndex = kthen [sleep_u 600]
     (let i = next_product productIndex in at_index products i (\<lambda>product. kthen [
       kwith (\<lambda>u. kwhen (pc_index u = int MAX_BUFFER) [uprint fl (''Full buffer'' @ [CHR 0x0A]) []]),
       kwith (\<lambda>u. wait_u (emptySem u)),
       kwith (\<lambda>u. mutexDown_u (bufferMutex u)),
       put_buffer product,
       kwith (\<lambda>u. mutexUp_u (bufferMutex u)),
       kwith (\<lambda>u. signal_u (producedSem u)),
       kwith (\<lambda>u. uprint fl (''Producer %d: %c in %d'' @ [CHR 0x0A])
         [VInt producerNumber, VInt (schar product), VInt (pc_index u - 1)])]
       (kret (i + 1))))"

definition consumer_round :: "float_ops \<Rightarrow> int \<Rightarrow> unit PC" where
  "consumer_round fl consumerNumber = kdo [
     sleep_u 600,
     kwith (\<lambda>u. kwhen (pc_index u = 0) [uprint fl (''Empty buffer'' @ [CHR 0x0A]) []]),
     kwith (\<lambda>u. wait_u (producedSem u)),
     kwith (\<lambda>u. mutexDown_u (bufferMutex u)),
     kbind take_buffer (\<lambda>consumed. kdo [
       kwith (\<lambda>u. mutexUp_u (bufferMutex u)),
       kwith (\<lambda>u. signal_u (emptySem u)),
       kwith (\<lambda>u. uprint fl (''Consumer %d: %c in %d'' @ [CHR 0x0A])
         [VInt consumerNumber, VInt (schar consumed), VInt (pc_index u)])])]"

primrec producer_loop :: "nat \<Rightarrow> (int \<Rightarrow> int PC) \<Rightarrow> int \<Rightarrow> int PC" where
  "producer_loop 0 body productIndex = kfault Diverges"
| "producer_loop (Suc n) body productIndex = kbind (body productIndex) (producer_loop n body)"

definition producer :: "nat \<Rightarrow> float_ops \<Rightarrow> int \<Rightarrow> addr \<Rightarrow> int PC" where
  "producer n fl argc argv =
     (if argc < 2 then kret (- 1)
      else parse_arg argv 1 (\<lambda>producerNumber. producer_loop n (producer_round fl producerNumber) 0))"

definition consumer :: "nat \<Rightarrow> float_ops \<Rightarrow> int \<Rightarrow> addr \<Rightarrow> int PC" where
  "consumer n fl argc argv =
     (if argc < 2 then kret (- 1)
      else parse_arg argv 1 (\<lambda>consumerNumber. kthen [kwhile n (\<lambda>_. True) (consumer_round fl consumerNumber)] (kret 0)))"

section \<open>pipeProdcons.c\<close>

definition killAllProcesses_p :: "unit PC" where
  "killAllProcesses_p = killAllProcesses"

definition processControl_p :: "float_ops \<Rightarrow> addr \<Rightarrow> addr \<Rightarrow> char \<Rightarrow> int PC" where
  "processControl_p fl entry entry2 option = processControl fl MAX_BUFFER_p entry entry2 option"

definition pipeProdcons_main :: "nat \<Rightarrow> float_ops \<Rightarrow> addr \<Rightarrow> addr \<Rightarrow> char \<Rightarrow> int \<Rightarrow> addr \<Rightarrow> int PC" where
  "pipeProdcons_main n fl entry entry2 aux argc argv = kwith (\<lambda>u.
     kbind (openPipe_u (ulit u ''prodconsPipe'')) (\<lambda>pipe. kthen [
       uprint fl pc_help [],
       control_loop n (processControl_p fl entry entry2) aux 1,
       kbind (closePipe_u pipe) (\<lambda>_. kskip)]
       (kret 0)))"

text \<open>The local characters \<open>product\<close> and \<open>consumed\<close>, whose addresses are passed, are on the stack.\<close>

definition producer_round_p :: "float_ops \<Rightarrow> int \<Rightarrow> int \<Rightarrow> int \<Rightarrow> int PC" where
  "producer_round_p fl pipe producerNumber productIndex =
     (let i = next_product productIndex in at_index products i (\<lambda>product. kthen [
       kwith (\<lambda>u. kwhen (pc_index u = int MAX_BUFFER_p) [uprint fl (''Full buffer'' @ [CHR 0x0A]) []]),
       with_local 1 (\<lambda>p. kdo [upoke p product, write_u pipe p 1]),
       kmod (\<lambda>u. u\<lparr>pc_index := pc_index u + 1\<rparr>),
       kwith (\<lambda>u. kwhen (cmod (pc_index u) 1024 = 0) [uprint fl (''Producer %d: %c in %d'' @ [CHR 0x0A])
         [VInt producerNumber, VInt (schar product), VInt (pc_index u - 1)]])]
       (kret (i + 1))))"

definition producer_p :: "nat \<Rightarrow> float_ops \<Rightarrow> int \<Rightarrow> addr \<Rightarrow> int PC" where
  "producer_p n fl argc argv = kwith (\<lambda>u. kbind (openPipe_u (ulit u ''prodconsPipe'')) (\<lambda>pipe.
     if argc < 2 then kret (- 1)
     else parse_arg argv 1 (\<lambda>producerNumber. producer_loop n (producer_round_p fl pipe producerNumber) 0)))"

definition consumer_round_p :: "float_ops \<Rightarrow> int \<Rightarrow> int \<Rightarrow> unit PC" where
  "consumer_round_p fl pipe consumerNumber = kdo [
     kwith (\<lambda>u. kwhen (pc_index u = 0) [uprint fl (''Empty buffer'' @ [CHR 0x0A]) []]),
     kbind (with_local 1 (\<lambda>p. kthen [read_u pipe p 1] (kwith (\<lambda>u. kret (umem u p))))) (\<lambda>consumed. kdo [
       kmod (\<lambda>u. u\<lparr>pc_index := pc_index u - 1\<rparr>),
       kwith (\<lambda>u. uprint fl (''Consumer %d: %c in %d'' @ [CHR 0x0A])
         [VInt consumerNumber, VInt (schar consumed), VInt (pc_index u)])])]"

definition consumer_p :: "nat \<Rightarrow> float_ops \<Rightarrow> int \<Rightarrow> addr \<Rightarrow> int PC" where
  "consumer_p n fl argc argv = kwith (\<lambda>u. kbind (openPipe_u (ulit u ''prodconsPipe'')) (\<lambda>pipe.
     if argc < 2 then kret (- 1)
     else parse_arg argv 1 (\<lambda>consumerNumber.
       kthen [kwhile n (\<lambda>_. True) (consumer_round_p fl pipe consumerNumber)] (kret 0))))"

end
