(* ===== verification/Snek.thy ===== *)
theory Snek
  imports Programs
begin

text \<open>
  The game \<open>Userland/Snek/snek.c\<close>.  The local variables of \<open>main\<close> are one record; the functions that get
  their addresses are functions on it.  \<open>tailPositions\<close> of a local \<open>tail_t\<close> is not initialised: the
  positions it holds before they are written are an argument of \<open>main\<close>.
\<close>

definition GAME_WIDTH :: int where "GAME_WIDTH = 80"
definition GAME_HEIGHT :: int where "GAME_HEIGHT = 25"
definition TAIL_LENGTH_LIMIT :: nat where "TAIL_LENGTH_LIMIT = 160"

record vector2_t =
  v_x :: int
  v_y :: int

record tail_t =
  t_sprite :: char
  t_length :: int
  tailPositions :: "vector2_t list"
  oldestElemIndex :: int
  youngestElemIndex :: int

record player_t =
  p_sprite :: char
  p_position :: vector2_t
  p_speed :: vector2_t

record snack_t =
  k_sprite :: char
  k_position :: vector2_t

definition turn :: "int \<Rightarrow> int \<Rightarrow> player_t \<Rightarrow> player_t" where
  "turn x y p = p\<lparr>p_speed := \<lparr>v_x = x, v_y = y\<rparr>\<rparr>"

definition steer :: "char \<Rightarrow> player_t \<times> player_t \<Rightarrow> player_t \<times> player_t" where
  "steer inputKey = (\<lambda>(player, player2).
     if inputKey = CHR ''w'' then (turn 0 (- 1) player, player2)
     else if inputKey = CHR ''s'' then (turn 0 1 player, player2)
     else if inputKey = CHR ''d'' then (turn 1 0 player, player2)
     else if inputKey = CHR ''a'' then (turn (- 1) 0 player, player2)
     else if inputKey = CHR ''i'' then (player, turn 0 (- 1) player2)
     else if inputKey = CHR ''k'' then (player, turn 0 1 player2)
     else if inputKey = CHR ''l'' then (player, turn 1 0 player2)
     else if inputKey = CHR ''j'' then (player, turn (- 1) 0 player2)
     else (player, player2))"

definition handleInput :: "player_t \<Rightarrow> player_t \<Rightarrow> ('z, player_t \<times> player_t) U" where
  "handleInput player player2 = kbind getch_u (\<lambda>inputKey. kret (steer inputKey (player, player2)))"

definition updatePlayer :: "player_t \<Rightarrow> bool \<Rightarrow> player_t \<times> bool" where
  "updatePlayer player playerAlive =
     (let x = v_x (p_position player) + v_x (p_speed player);
          y = v_y (p_position player) + v_y (p_speed player) in
      (player\<lparr>p_position := \<lparr>v_x = x, v_y = y\<rparr>\<rparr>,
       if x < 0 \<or> x > GAME_WIDTH \<or> y < 0 \<or> y > GAME_HEIGHT then False else playerAlive))"

text \<open>\<open>None\<close>: the index is outside of \<open>tailPositions\<close>.\<close>

definition wrap_tail :: "int \<Rightarrow> int" where
  "wrap_tail i = (if i \<ge> int TAIL_LENGTH_LIMIT then 0 else i)"

definition updateTail :: "player_t \<Rightarrow> tail_t \<Rightarrow> tail_t option" where
  "updateTail player tail =
     (let i = youngestElemIndex tail in
      if 0 \<le> i \<and> i < int (length (tailPositions tail)) then
        Some (tail\<lparr>tailPositions := (tailPositions tail)[nat i := p_position player],
          youngestElemIndex := wrap_tail (i + 1),
          oldestElemIndex := wrap_tail (oldestElemIndex tail + 1)\<rparr>)
      else None)"

definition checkCollisionWithSnack :: "player_t \<Rightarrow> tail_t \<Rightarrow> snack_t \<Rightarrow> ('z, tail_t \<times> snack_t) U" where
  "checkCollisionWithSnack player tail snack =
     (if v_x (p_position player) = v_x (k_position snack) \<and> v_y (p_position player) = v_y (k_position snack) then
        kbind getSeconds (\<lambda>x. kbind getSeconds (\<lambda>y. kret
          (tail\<lparr>t_length := t_length tail + 1, youngestElemIndex := youngestElemIndex tail + 2\<rparr>,
           snack\<lparr>k_position := \<lparr>v_x = cmod x GAME_WIDTH, v_y = cmod y GAME_HEIGHT\<rparr>\<rparr>)))
      else kret (tail, snack))"

text \<open>The positions of the tail, from the oldest one to the one before the youngest index.\<close>

definition tail_cells :: "tail_t \<Rightarrow> vector2_t list option" where
  "tail_cells tail =
     (if oldestElemIndex tail \<ge> youngestElemIndex tail then Some []
      else if 0 \<le> oldestElemIndex tail \<and> youngestElemIndex tail \<le> int (length (tailPositions tail)) then
        Some (drop (nat (oldestElemIndex tail)) (take (nat (youngestElemIndex tail)) (tailPositions tail)))
      else None)"

definition checkCollisionWithTail :: "player_t \<Rightarrow> tail_t \<Rightarrow> bool \<Rightarrow> bool option" where
  "checkCollisionWithTail player tail playerAlive = do {
     cells \<leftarrow> tail_cells tail;
     Some (playerAlive \<and> \<not> list_ex (\<lambda>c. v_x c = v_x (p_position player) \<and> v_y c = v_y (p_position player)) cells) }"

record snek =
  g_player :: player_t
  g_player2 :: player_t
  g_tail :: tail_t
  g_tail2 :: tail_t
  g_snack :: snack_t
  playerAlive :: bool
  playerAlive2 :: bool

definition or_fault :: "'a option \<Rightarrow> ('s, 'a) K" where
  "or_fault r = (case r of None \<Rightarrow> kfault OutOfBounds | Some a \<Rightarrow> kret a)"

definition check_tails :: "snek \<Rightarrow> snek option" where
  "check_tails g = do {
     a \<leftarrow> checkCollisionWithTail (g_player g) (g_tail g) (playerAlive g);
     a \<leftarrow> checkCollisionWithTail (g_player g) (g_tail2 g) a;
     b \<leftarrow> checkCollisionWithTail (g_player2 g) (g_tail2 g) (playerAlive2 g);
     b \<leftarrow> checkCollisionWithTail (g_player2 g) (g_tail g) b;
     Some (g\<lparr>playerAlive := a, playerAlive2 := b\<rparr>) }"

definition update :: "snek \<Rightarrow> ('z, snek) U" where
  "update g =
     kbind (or_fault (updateTail (g_player g) (g_tail g))) (\<lambda>tail.
     kbind (or_fault (updateTail (g_player2 g) (g_tail2 g))) (\<lambda>tail2.
     let (player, alive) = updatePlayer (g_player g) (playerAlive g);
         (player2, alive2) = updatePlayer (g_player2 g) (playerAlive2 g) in
     kbind (checkCollisionWithSnack player tail (g_snack g)) (\<lambda>(tail, snack).
     kbind (checkCollisionWithSnack player2 tail2 snack) (\<lambda>(tail2, snack).
     or_fault (check_tails \<lparr>g_player = player, g_player2 = player2, g_tail = tail, g_tail2 = tail2,
       g_snack = snack, playerAlive = alive, playerAlive2 = alive2\<rparr>)))))"

definition draw_at :: "char \<Rightarrow> vector2_t \<Rightarrow> ('z, unit) U" where
  "draw_at c v = writeCharAtScreenPos_u c (v_x v) (v_y v)"

definition draw_tail :: "tail_t \<Rightarrow> ('z, unit) U" where
  "draw_tail tail = kbind (or_fault (tail_cells tail)) (\<lambda>cells. kdo (map (draw_at (t_sprite tail)) cells))"

definition draw :: "snek \<Rightarrow> ('z, unit) U" where
  "draw g = kdo [
     clear_u,
     draw_tail (g_tail g),
     draw_tail (g_tail2 g),
     draw_at (p_sprite (g_player g)) (p_position (g_player g)),
     draw_at (p_sprite (g_player2 g)) (p_position (g_player2 g)),
     draw_at (k_sprite (g_snack g)) (k_position (g_snack g))]"

definition new_tail :: "vector2_t list \<Rightarrow> tail_t" where
  "new_tail cells = \<lparr>t_sprite = CHR ''.'', t_length = 0, tailPositions = cells, oldestElemIndex = 0, youngestElemIndex = 0\<rparr>"

definition new_game :: "vector2_t list \<Rightarrow> vector2_t list \<Rightarrow> snek" where
  "new_game cells cells2 =
     \<lparr>g_player = \<lparr>p_sprite = CHR ''X'', p_position = \<lparr>v_x = 12, v_y = 5\<rparr>, p_speed = \<lparr>v_x = 1, v_y = 0\<rparr>\<rparr>,
      g_player2 = \<lparr>p_sprite = CHR ''#'', p_position = \<lparr>v_x = 20, v_y = 5\<rparr>, p_speed = \<lparr>v_x = 1, v_y = 0\<rparr>\<rparr>,
      g_tail = new_tail cells, g_tail2 = new_tail cells2,
      g_snack = \<lparr>k_sprite = CHR ''o'', k_position = \<lparr>v_x = 10, v_y = 10\<rparr>\<rparr>,
      playerAlive = True, playerAlive2 = True\<rparr>"

definition game_round :: "snek \<Rightarrow> ('z, snek) U" where
  "game_round g = kthen [sleep_u 55]
     (kbind (handleInput (g_player g) (g_player2 g)) (\<lambda>(player, player2).
      kbind (update (g\<lparr>g_player := player, g_player2 := player2\<rparr>)) (\<lambda>g. kthen [draw g] (kret g))))"

text \<open>A game is observed for \<open>n\<close> rounds.\<close>

primrec game_loop :: "nat \<Rightarrow> snek \<Rightarrow> ('z, snek) U" where
  "game_loop 0 g = kfault Diverges"
| "game_loop (Suc n) g = (if playerAlive g \<and> playerAlive2 g then kbind (game_round g) (game_loop n) else kret g)"

definition snek_main :: "nat \<Rightarrow> float_ops \<Rightarrow> vector2_t list \<Rightarrow> vector2_t list \<Rightarrow> int \<Rightarrow> addr \<Rightarrow> ('z, int) U" where
  "snek_main n fl cells cells2 argc argv = kthen [echo_u 0]
     (kbind (game_loop n (new_game cells cells2)) (\<lambda>g. kthen [
       clear_u,
       uprint fl (if playerAlive g then ''Player 1 wins!'' @ [CHR 0x0A] else ''Player 2 Wins!'' @ [CHR 0x0A]) [],
       echo_u 1]
       (kret 0)))"

end
