(* ===== verification/Packer.thy ===== *)
theory Packer
  imports Prelude
begin

text \<open>
  \<open>Toolchain/ModulePacker/main.c\<close>, the build tool that appends the user modules to the kernel; the boot
  code of the kernel (\<open>loadModules\<close>) reads what it writes.  The files are a map from names to bytes; \<open>writable\<close>
  says which names can be opened for writing.  What is written appears in the target when it is closed; an
  output that is also an input is outside of the model (\<open>None\<close>).
\<close>

type_synonym files = "string \<Rightarrow> char list option"

definition BUFFER_SIZE_mp :: nat where "BUFFER_SIZE_mp = 128"
definition MAX_FILES :: nat where "MAX_FILES = 128"
definition OUTPUT_FILE :: string where "OUTPUT_FILE = ''packedKernel.bin''"

text \<open>A file open for reading: what is left and the end-of-file flag, which a short \<open>fread\<close> sets.\<close>

record source =
  s_rest :: "char list"
  s_eof :: bool

definition fopen_r :: "char list \<Rightarrow> source" where
  "fopen_r content = \<lparr>s_rest = content, s_eof = False\<rparr>"

definition fread :: "nat \<Rightarrow> source \<Rightarrow> char list \<times> source" where
  "fread n s = (take n (s_rest s), \<lparr>s_rest = drop n (s_rest s), s_eof = s_eof s \<or> length (s_rest s) < n\<rparr>)"

text \<open>\<open>fwrite\<close> of a 32-bit number on the x86: little end first.\<close>

definition le32 :: "nat \<Rightarrow> char list" where
  "le32 v = map (\<lambda>i. char_of (v div 256 ^ i)) [0, 1, 2, 3]"

definition write_size :: "char list \<Rightarrow> nat \<Rightarrow> char list" where
  "write_size target st_size = target @ le32 (st_size mod 2 ^ 32)"

function write_file :: "char list \<Rightarrow> source \<Rightarrow> char list" where
  "write_file target source =
     (if s_eof source then target
      else let (buffer, source) = fread BUFFER_SIZE_mp source in write_file (target @ buffer) source)"
  by pat_completeness auto
termination
  by (relation "measure (\<lambda>(target, source). 2 * length (s_rest source) + (if s_eof source then 0 else 1))")
     (auto simp: fread_def BUFFER_SIZE_mp_def split: if_splits)

declare write_file.simps [simp del]

text \<open>The binaries behind the kernel, each with its size in front.\<close>

primrec write_modules :: "files \<Rightarrow> string list \<Rightarrow> char list \<Rightarrow> char list option" where
  "write_modules fs [] target = Some target"
| "write_modules fs (file # files) target = (case fs file of None \<Rightarrow> None
     | Some content \<Rightarrow> write_modules fs files (write_file (write_size target (length content)) (fopen_r content)))"

text \<open>The result is the value returned, what is printed, and the files.\<close>

definition buildImage :: "files \<Rightarrow> (string \<Rightarrow> bool) \<Rightarrow> string list \<Rightarrow> string \<Rightarrow> (bool \<times> string \<times> files) option" where
  "buildImage fs writable fileArray output_file =
     (if \<not> writable output_file then Some (False, ''Can't create target file'' @ [CHR 0x0A], fs)
      else if output_file \<in> set fileArray then None
      else case fileArray of [] \<Rightarrow> None
      | kern # files \<Rightarrow> do {
          content \<leftarrow> fs kern;
          let target = write_file [] (fopen_r content);
          let target = target @ le32 (length files);
          target \<leftarrow> write_modules fs files target;
          Some (True, [], fs(output_file \<mapsto> target)) })"

primrec checkFiles :: "files \<Rightarrow> string list \<Rightarrow> bool \<times> string" where
  "checkFiles fs [] = (True, [])"
| "checkFiles fs (file # files) =
     (if fs file = None then (False, ''Can't open file: '' @ file @ [CHR 0x0A]) else checkFiles fs files)"

text \<open>\<open>argp_parse\<close> of the C library is an argument: the calls of \<open>parse_opt\<close> it makes for a command line.\<close>

datatype argp_key = KEY_o string | ARGP_KEY_ARG string nat | ARGP_KEY_END nat | KEY_other

record arguments =
  args :: "string list"
  output_file :: string
  count :: nat

datatype argp_outcome = Parsed arguments | Usage | Unknown

text \<open>\<open>args[arg_num] = arg\<close>: \<open>argp_parse\<close> counts \<open>arg_num\<close> up from 0; \<open>None\<close> is out of bounds.\<close>

definition parse_opt :: "argp_key \<Rightarrow> arguments \<Rightarrow> argp_outcome option" where
  "parse_opt key a = (case key of
     KEY_o arg \<Rightarrow> Some (Parsed (a\<lparr>output_file := arg\<rparr>))
   | ARGP_KEY_ARG arg arg_num \<Rightarrow>
       if arg_num < MAX_FILES then Some (Parsed (a\<lparr>args := take arg_num (args a) @ [arg] @ drop (arg_num + 1) (args a)\<rparr>))
       else None
   | ARGP_KEY_END arg_num \<Rightarrow> Some (if arg_num < 1 then Usage else Parsed (a\<lparr>count := arg_num\<rparr>))
   | KEY_other \<Rightarrow> Some Unknown)"

primrec run_parser :: "argp_key list \<Rightarrow> arguments \<Rightarrow> argp_outcome option" where
  "run_parser [] a = Some (Parsed a)"
| "run_parser (key # keys) a = (case parse_opt key a of
     None \<Rightarrow> None
   | Some (Parsed a) \<Rightarrow> run_parser keys a
   | Some Usage \<Rightarrow> Some Usage
   | Some Unknown \<Rightarrow> run_parser keys a)"

text \<open>The exit status; \<open>argp_usage\<close> exits with \<open>EX_USAGE\<close>.\<close>

definition EX_USAGE :: int where "EX_USAGE = 64"

definition packer_main :: "(string list \<Rightarrow> argp_key list) \<Rightarrow> files \<Rightarrow> (string \<Rightarrow> bool) \<Rightarrow> string list \<Rightarrow> (int \<times> string \<times> files) option" where
  "packer_main argp fs writable argv = (case run_parser (argp argv) \<lparr>args = [], output_file = OUTPUT_FILE, count = 0\<rparr> of
     Some (Parsed a) \<Rightarrow>
       let files = take (count a) (args a); (ok, msg) = checkFiles fs files in
       if \<not> ok then Some (1, msg, fs)
       else do { (ok, msg, fs) \<leftarrow> buildImage fs writable files (output_file a); Some (if ok then 0 else 1, msg, fs) }
   | Some Usage \<Rightarrow> Some (EX_USAGE, [], fs)
   | _ \<Rightarrow> None)"

section \<open>The layout of an image\<close>

lemma write_file_rest: "\<not> s_eof source \<Longrightarrow> write_file target source = target @ s_rest source"
proof (induction target source rule: write_file.induct)
  case (1 target source)
  show ?case
  proof (cases "length (s_rest source) < BUFFER_SIZE_mp")
    case True
    then show ?thesis using 1(2)
      by (simp add: write_file.simps[of target source] fread_def write_file.simps[of _ "\<lparr>s_rest = _, s_eof = True\<rparr>"])
  next
    case False
    then have "write_file target source =
        write_file (target @ take BUFFER_SIZE_mp (s_rest source)) \<lparr>s_rest = drop BUFFER_SIZE_mp (s_rest source), s_eof = False\<rparr>"
      using 1(2) by (subst write_file.simps) (simp add: fread_def)
    also have "\<dots> = (target @ take BUFFER_SIZE_mp (s_rest source)) @ drop BUFFER_SIZE_mp (s_rest source)"
      using 1(1)[OF 1(2) refl, of "take BUFFER_SIZE_mp (s_rest source)" "snd (fread BUFFER_SIZE_mp source)"] False 1(2)
      by (simp add: fread_def)
    finally show ?thesis by simp
  qed
qed

lemma write_file_all [simp]: "write_file target (fopen_r content) = target @ content"
  by (subst write_file_rest) (simp_all add: fopen_r_def)

definition packed :: "char list \<Rightarrow> char list" where
  "packed content = le32 (length content mod 2 ^ 32) @ content"

text \<open>What the files hold, if they all can be opened.\<close>

primrec contents_of :: "files \<Rightarrow> string list \<Rightarrow> char list list option" where
  "contents_of fs [] = Some []"
| "contents_of fs (f # files) = do { c \<leftarrow> fs f; cs \<leftarrow> contents_of fs files; Some (c # cs) }"

lemma write_modules_eq:
  "write_modules fs files target = map_option (\<lambda>cs. target @ concat (map packed cs)) (contents_of fs files)"
  by (induction files arbitrary: target)
     (simp_all add: write_size_def packed_def option.map_comp o_def map_option_case split: option.splits Option.bind_splits)

lemma contents_of_length: "contents_of fs files = Some cs \<Longrightarrow> length cs = length files"
  by (induction files arbitrary: cs) (auto simp: bind_eq_Some_conv)

lemma contents_of_nth: "contents_of fs files = Some cs \<Longrightarrow> i < length files \<Longrightarrow> fs (files ! i) = Some (cs ! i)"
  by (induction files arbitrary: cs i) (auto simp: bind_eq_Some_conv nth_Cons split: nat.splits)

lemma buildImage_layout:
  assumes "buildImage fs writable (kern # files) out = Some (True, msg, fs')"
  obtains content cs where "fs kern = Some content" "contents_of fs files = Some cs"
    "fs' out = Some (content @ le32 (length files) @ concat (map packed cs))"
  using assms by (auto simp: buildImage_def write_modules_eq bind_eq_Some_conv split: if_splits)

end
