(* ===== verification/PackerProps.thy ===== *)
theory PackerProps
  imports Packer Kernel LibCorrect
begin

text \<open>The boot code reads what the build tool packed.\<close>

section \<open>The boot console\<close>

text \<open>\<open>prints n m\<close>: on a screen with room for \<open>n\<close> more characters \<open>m\<close> advances the boot console by \<open>n\<close>
  and touches nothing but the screen.\<close>

definition prints :: "nat \<Rightarrow> unit KS \<Rightarrow> bool" where
  "prints n m \<longleftrightarrow> (\<forall>s. 0 \<le> ncCurrent s \<and> ncCurrent s + int n \<le> WIDTH * HEIGHT \<longrightarrow>
     (\<exists>t. m s = Done () (s\<lparr>terminal := t, ncCurrent := ncCurrent s + int n\<rparr>)))"

lemma printsE:
  assumes "prints n m" "0 \<le> ncCurrent s" "ncCurrent s + int n \<le> WIDTH * HEIGHT"
  obtains t where "m s = Done () (s\<lparr>terminal := t, ncCurrent := ncCurrent s + int n\<rparr>)"
  using assms by (auto simp: prints_def)

lemma prints_bind: "prints n m \<Longrightarrow> prints k m' \<Longrightarrow> prints (n + k) (kbind m (\<lambda>_. m'))"
  unfolding prints_def
proof (intro allI impI)
  fix s :: kstate
  assume m: "\<forall>s. 0 \<le> ncCurrent s \<and> ncCurrent s + int n \<le> WIDTH * HEIGHT \<longrightarrow>
      (\<exists>t. m s = Done () (s\<lparr>terminal := t, ncCurrent := ncCurrent s + int n\<rparr>))"
    and m': "\<forall>s. 0 \<le> ncCurrent s \<and> ncCurrent s + int k \<le> WIDTH * HEIGHT \<longrightarrow>
      (\<exists>t. m' s = Done () (s\<lparr>terminal := t, ncCurrent := ncCurrent s + int k\<rparr>))"
    and s: "0 \<le> ncCurrent s \<and> ncCurrent s + int (n + k) \<le> WIDTH * HEIGHT"
  obtain t where t: "m s = Done () (s\<lparr>terminal := t, ncCurrent := ncCurrent s + int n\<rparr>)" using m s by auto
  obtain t' where t': "m' (s\<lparr>terminal := t, ncCurrent := ncCurrent s + int n\<rparr>) =
      Done () (s\<lparr>terminal := t, ncCurrent := ncCurrent s + int n\<rparr>\<lparr>terminal := t', ncCurrent := ncCurrent s + int n + int k\<rparr>)"
    using m'[rule_format, of "s\<lparr>terminal := t, ncCurrent := ncCurrent s + int n\<rparr>"] s by auto
  have "kbind m (\<lambda>_. m') s = Done () (s\<lparr>terminal := t', ncCurrent := ncCurrent s + int (n + k)\<rparr>)"
    by (simp add: t t' add.assoc)
  then show "\<exists>t. kbind m (\<lambda>_. m') s = Done () (s\<lparr>terminal := t, ncCurrent := ncCurrent s + int (n + k)\<rparr>)" by blast
qed

lemma prints_skip: "prints 0 kskip"
  unfolding prints_def
proof (intro allI impI)
  fix s :: kstate
  have "kskip s = Done () (s\<lparr>terminal := terminal s, ncCurrent := ncCurrent s + int 0\<rparr>)" by simp
  then show "\<exists>t. kskip s = Done () (s\<lparr>terminal := t, ncCurrent := ncCurrent s + int 0\<rparr>)" by blast
qed

lemma prints_char: "prints 1 (ncPrintChar c)"
  unfolding prints_def
proof (intro allI impI)
  fix s :: kstate assume s: "0 \<le> ncCurrent s \<and> ncCurrent s + int 1 \<le> WIDTH * HEIGHT"
  let ?t = "terminal s"
  have "ncPrintChar c s = Done () (s\<lparr>terminal := ?t\<lparr>video := (video ?t)(ncCurrent s := (video ?t (ncCurrent s))\<lparr>cell_ch := c\<rparr>)\<rparr>,
      ncCurrent := ncCurrent s + 1\<rparr>)"
    using s by (simp add: ncPrintChar_def in_term_def upd_cell_def with_cell_def cell_ix_def in_range_def)
  then show "\<exists>t. ncPrintChar c s = Done () (s\<lparr>terminal := t, ncCurrent := ncCurrent s + int 1\<rparr>)" by auto
qed

lemma prints_text: "prints (length str) (ncPrint str)"
proof (induction str)
  case Nil
  then show ?case using prints_skip by (simp add: ncPrint_def kskip_eq)
next
  case (Cons c str)
  then show ?case using prints_bind[OF prints_char[of c], of "length str"] by (simp add: ncPrint_def kbind_def)
qed

lemma prints_string: "length str = n \<Longrightarrow> prints n (ncPrint str)"
  using prints_text[of str] by simp

lemma base_text_length:
  assumes "2 \<le> b" "b \<le> 36" "v < b ^ k" "0 < k"
  obtains str where "base_text v b = Some str" "length str \<le> k"
proof -
  obtain m' where "uintToBase v 0 b (\<lambda>_. NUL) = Some (length (map digit_char (rev (digits_of b v))), m')"
    using uintToBase_eq[OF assms(1,2) refl] by metis
  then have "base_text v b = Some (map m' [0..<length (digits_of b v)])" by (simp add: base_text_def)
  then show thesis using that digits_of_length[OF assms(1,3,4)] by simp
qed

lemma prints_number:
  assumes "2 \<le> b" "b \<le> 36" "v < b ^ k" "0 < k" "k < 64"
  obtains n where "n \<le> k" "prints n (ncPrintBase v b)"
proof -
  obtain str where str: "base_text v b = Some str" "length str \<le> k" using base_text_length[OF assms(1-4)] .
  have "ncPrintBase v b = ncPrint str" using str assms(5) by (simp add: ncPrintBase_def)
  then show thesis using that[OF str(2)] prints_text[of str] by simp
qed

text \<open>A newline fills the row.\<close>

lemma ncNewline_fills:
  assumes "ncCurrent s = WIDTH * r + k" "0 \<le> r" "0 \<le> k" "k < WIDTH" "r < HEIGHT"
  obtains t where "ncNewline s = Done () (s\<lparr>terminal := t, ncCurrent := WIDTH * (r + 1)\<rparr>)"
proof -
  have *: "\<exists>t. ncNewline_loop n s = Done () (s\<lparr>terminal := t, ncCurrent := WIDTH * (r + 1)\<rparr>)"
    if "ncCurrent s = WIDTH * r + k" "0 \<le> k" "k < WIDTH" "WIDTH - k \<le> int n" for n k s
    using that
  proof (induction n arbitrary: k s)
    case 0
    then show ?case by simp
  next
    case (Suc n)
    have W: "WIDTH = 80" "HEIGHT = 25" by (simp_all add: WIDTH_def HEIGHT_def)
    obtain t where t: "ncPrintChar CHR '' '' s = Done () (s\<lparr>terminal := t, ncCurrent := ncCurrent s + int 1\<rparr>)"
    proof (rule printsE[OF prints_char, of s])
      show "0 \<le> ncCurrent s" "ncCurrent s + int 1 \<le> WIDTH * HEIGHT"
        using Suc.prems(1-3) assms(2,5) by (simp_all add: W)
    qed
    let ?s = "s\<lparr>terminal := t, ncCurrent := ncCurrent s + int 1\<rparr>"
    have col: "(ncCurrent s + 1) mod WIDTH = (k + 1) mod WIDTH"
      using Suc.prems(1) mod_mult_self2[of "k + 1" WIDTH r] by (simp add: algebra_simps)
    show ?case
    proof (cases "k + 1 = WIDTH")
      case True
      then have c: "(ncCurrent s + 1) mod WIDTH = 0" by (simp add: col)
      have e: "ncCurrent s + int 1 = WIDTH * (r + 1)" using True Suc.prems(1) W by (simp add: ring_distribs)
      have "ncNewline_loop (Suc n) s = Done () ?s" using c by (simp add: t)
      then show ?thesis unfolding e by blast
    next
      case False
      then have c: "(ncCurrent s + 1) mod WIDTH \<noteq> 0"
        using Suc.prems(2,3) unfolding col by (simp add: W mod_pos_pos_trivial)
      obtain t' where "ncNewline_loop n ?s = Done () (?s\<lparr>terminal := t', ncCurrent := WIDTH * (r + 1)\<rparr>)"
        using Suc.IH[of ?s "k + 1"] Suc.prems False W by auto
      then have "ncNewline_loop (Suc n) s = Done () (s\<lparr>terminal := t', ncCurrent := WIDTH * (r + 1)\<rparr>)"
        using c by (simp add: t)
      then show ?thesis by blast
    qed
  qed
  show thesis using *[of s k "nat WIDTH"] assms that by (auto simp: ncNewline_def)
qed

lemma prints_kdo: "list_all2 prints ns ms \<Longrightarrow> prints (sum_list ns) (kdo ms)"
proof (induction rule: list_all2_induct)
  case Nil
  then show ?case unfolding kdo.simps sum_list.Nil by (rule prints_skip)
next
  case (Cons n ns m ms)
  then show ?case using prints_bind[of n m "sum_list ns" "kdo ms"] by (simp only: kdo.simps sum_list.Cons)
qed

lemma kthen_append: "kthen (xs @ ys) r = kbind (kdo xs) (\<lambda>_. kthen ys r)"
  by (induction xs) (simp_all add: kret_bind kskip_def kbind_def obind_assoc)

section \<open>One module\<close>

definition holds :: "mem \<Rightarrow> addr \<Rightarrow> char list \<Rightarrow> bool" where
  "holds m a bs \<longleftrightarrow> (\<forall>i < length bs. m (a + i) = bs ! i)"

lemma holds_append: "holds m a (xs @ ys) \<longleftrightarrow> holds m a xs \<and> holds m (a + length xs) ys"
proof -
  have "holds m (a + length xs) ys" if "holds m a (xs @ ys)"
    unfolding holds_def
  proof (intro allI impI)
    fix i assume "i < length ys"
    then have "m (a + (length xs + i)) = (xs @ ys) ! (length xs + i)" using that unfolding holds_def by simp
    then show "m (a + length xs + i) = ys ! i" by (simp add: add.assoc)
  qed
  moreover have "holds m a xs" if "holds m a (xs @ ys)" using that by (auto simp: holds_def nth_append)
  moreover have "holds m a (xs @ ys)" if "holds m a xs" "holds m (a + length xs) ys"
    unfolding holds_def
  proof (intro allI impI)
    fix i assume i: "i < length (xs @ ys)"
    show "m (a + i) = (xs @ ys) ! i"
    proof (cases "i < length xs")
      case True
      then show ?thesis using that(1) by (simp add: holds_def nth_append)
    next
      case False
      then have e: "a + length xs + (i - length xs) = a + i" by simp
      have "i - length xs < length ys" using i False by simp
      from that(2)[unfolded holds_def, rule_format, OF this] have "m (a + i) = ys ! (i - length xs)" unfolding e .
      then show ?thesis using False by (simp add: nth_append)
    qed
  qed
  ultimately show ?thesis by blast
qed

lemma holds_cong: "(\<And>i. i < length bs \<Longrightarrow> m' (a + i) = m (a + i)) \<Longrightarrow> holds m' a bs = holds m a bs"
  by (auto simp: holds_def)

lemma le32_length: "length (le32 v) = 4"
  by (simp add: le32_def)

lemma readUint32_le32: "holds m a (le32 v) \<Longrightarrow> v < 2 ^ 32 \<Longrightarrow> readUint32 m a = (v, a + 4)"
proof -
  assume h: "holds m a (le32 v)" and v: "v < 2 ^ 32"
  define w x y where "w = v div 256" and "x = w div 256" and "y = x div 256"
  have le: "le32 v = [char_of v, char_of w, char_of x, char_of y]"
    by (simp add: le32_def w_def x_def y_def div_mult2_eq[symmetric])
  have "m a = char_of v" "m (a + 1) = char_of w" "m (a + 2) = char_of x" "m (a + 3) = char_of y"
    using h[unfolded holds_def le, rule_format, of 0] h[unfolded holds_def le, rule_format, of 1]
      h[unfolded holds_def le, rule_format, of 2] h[unfolded holds_def le, rule_format, of 3] by simp_all
  moreover have "y < 256" using v by (simp add: w_def x_def y_def div_mult2_eq[symmetric])
  then have "v mod 256 + 256 * (w mod 256) + 256 ^ 2 * (x mod 256) + 256 ^ 3 * (y mod 256) = v"
    using mult_div_mod_eq[of 256 v] mult_div_mod_eq[of 256 w] mult_div_mod_eq[of 256 x]
    unfolding w_def[symmetric] x_def[symmetric] y_def[symmetric] by simp
  ultimately show ?thesis by (simp add: readUint32_def)
qed

definition with_module :: "int \<Rightarrow> addr \<Rightarrow> nat \<Rightarrow> (int \<Rightarrow> module_t) \<Rightarrow> int \<Rightarrow> module_t" where
  "with_module i address n mods = mods(i := (mods i)\<lparr>mod_address := address, mod_size := int n\<rparr>)"

lemma module_line_prints:
  assumes "length c \<le> 2 ^ 20" "a + 4 < 16 ^ 6" "dst + 0x100000 < 16 ^ 7"
  obtains n where "n \<le> 66" "prints n (kdo [ncPrintHex (dst + 0x100000), ncPrint ''  Will copy module at 0x'', ncPrintHex (a + 4), ncPrint '' to 0x'', ncPrintHex dst,
    ncPrint '' ('', ncPrintDec (length c), ncPrint '' bytes)''])"
proof -
  let ?d = "dst + 0x100000"
  obtain n1 where n1: "n1 \<le> 7" "prints n1 (ncPrintHex ?d)"
    using prints_number[of 16 ?d 7] assms(3) by (auto simp: ncPrintHex_def)
  obtain n2 where n2: "n2 \<le> 6" "prints n2 (ncPrintHex (a + 4))"
    using prints_number[of 16 "a + 4" 6] assms(2) by (auto simp: ncPrintHex_def)
  obtain n3 where n3: "n3 \<le> 7" "prints n3 (ncPrintHex dst)"
    using prints_number[of 16 dst 7] assms(3) by (auto simp: ncPrintHex_def)
  obtain n4 where n4: "n4 \<le> 7" "prints n4 (ncPrintDec (length c))"
    using prints_number[of 10 "length c" 7] assms(1) by (auto simp: ncPrintDec_def)
  have "list_all2 prints [n1, 24, n2, 6, n3, 2, n4, 7] [ncPrintHex ?d, ncPrint ''  Will copy module at 0x'', ncPrintHex (a + 4), ncPrint '' to 0x'', ncPrintHex dst,
    ncPrint '' ('', ncPrintDec (length c), ncPrint '' bytes)'']"
    using n1(2) n2(2) n3(2) n4(2) by (simp add: prints_string)
  note line = prints_kdo[OF this]
  have "sum_list [n1, 24, n2, 6, n3, 2, n4, 7] \<le> 66" using n1(1) n2(1) n3(1) n4(1) by simp
  then show ?thesis using line by (rule that)
qed

lemma loadModule_packed:
  assumes "holds (kmem s) a (packed c)" "length c \<le> 2 ^ 20" "a + 4 < 16 ^ 6" "dst + 0x100000 < 16 ^ 7"
    "0 \<le> i" "i < MODULES" "ncCurrent s = WIDTH * r" "0 \<le> r" "r < HEIGHT"
  obtains t where "loadModule a i dst s = Done (a + 4 + length c, dst + 0x100000)
    (s\<lparr>terminal := t, ncCurrent := WIDTH * (r + 1), modules := with_module i dst (length c) (modules s),
       kmem := memcpy dst (a + 4) (length c) (kmem s)\<rparr>)"
proof -
  let ?d = "dst + 0x100000"
  have W: "WIDTH = 80" "HEIGHT = 25" by (simp_all add: WIDTH_def HEIGHT_def)
  have room: "0 \<le> WIDTH * r" "WIDTH * r + 80 \<le> WIDTH * HEIGHT" using assms(8,9) unfolding W by simp_all
  have "holds (kmem s) a (le32 (length c))" using assms(1,2) by (simp add: packed_def holds_append)
  then have rd: "readUint32 (kmem s) a = (length c, a + 4)" using assms(2) by (intro readUint32_le32) simp_all
  define P where "P = [ncPrintHex ?d, ncPrint ''  Will copy module at 0x'', ncPrintHex (a + 4), ncPrint '' to 0x'', ncPrintHex dst,
    ncPrint '' ('', ncPrintDec (length c), ncPrint '' bytes)'']"
  obtain N where N: "N \<le> 66" and P: "prints N (kdo P)"
    using module_line_prints[OF assms(2-4)] unfolding P_def by blast
  let ?U1 = "upd_module i (\<lambda>x. x\<lparr>mod_address := dst\<rparr>)"
  let ?U2 = "upd_module i (\<lambda>x. x\<lparr>mod_size := to_int32 (int (length c))\<rparr>)"
  let ?M = "kmod (\<lambda>s. s\<lparr>kmem := memcpy dst (a + 4) (length c) (kmem s)\<rparr>) :: unit KS"
  let ?s1 = "s\<lparr>modules := (modules s)(i := (modules s i)\<lparr>mod_address := dst\<rparr>)\<rparr>"
  have r: "in_range i MODULES" using assms(5,6) by (simp add: in_range_def)
  have u1: "?U1 s = Done () ?s1" using r by (simp add: upd_module_def)
  obtain t1 where t1: "kdo P ?s1 = Done () (?s1\<lparr>terminal := t1, ncCurrent := WIDTH * r + int N\<rparr>)"
    by (rule printsE[OF P, of ?s1]) (use assms(7) N room in simp_all)
  let ?s2 = "?s1\<lparr>terminal := t1, ncCurrent := WIDTH * r + int N\<rparr>"
  let ?s3 = "?s2\<lparr>modules := with_module i dst (length c) (modules s)\<rparr>"
  have i32: "to_int32 (int (length c)) = int (length c)" using assms(2) by (simp add: to_int32_def)
  have u2: "?U2 ?s2 = Done () ?s3" using r by (simp add: upd_module_def with_module_def i32)
  let ?s4 = "?s3\<lparr>kmem := memcpy dst (a + 4) (length c) (kmem s)\<rparr>"
  have m4: "?M ?s3 = Done () ?s4" by simp
  obtain t2 where t2: "ncPrint '' [Done]'' ?s4 = Done () (?s4\<lparr>terminal := t2, ncCurrent := WIDTH * r + int N + 7\<rparr>)"
    by (rule printsE[OF prints_string, of "'' [Done]''" 7 ?s4]) (use assms(7) N room in simp_all)
  let ?s5 = "?s4\<lparr>terminal := t2, ncCurrent := WIDTH * r + int N + 7\<rparr>"
  obtain t3 where t3: "ncNewline ?s5 = Done () (?s5\<lparr>terminal := t3, ncCurrent := WIDTH * (r + 1)\<rparr>)"
    by (rule ncNewline_fills[of ?s5 r "int N + 7"]) (use assms(8,9) N in \<open>simp_all add: W\<close>)
  have "loadModule a i dst s = kthen ([?U1] @ P @ [?U2, ?M, ncPrint '' [Done]'', ncNewline]) (kret (a + 4 + length c, ?d)) s"
    unfolding loadModule_def kwith_app rd Let_def prod.case append.simps P_def ..
  also have "\<dots> = kthen [?U2, ?M, ncPrint '' [Done]'', ncNewline] (kret (a + 4 + length c, ?d)) ?s2"
    unfolding kthen_append by (simp only: kdo.simps kbind_app obind.simps u1 kskip_app t1)
  also have "\<dots> = Done (a + 4 + length c, ?d) (?s5\<lparr>terminal := t3, ncCurrent := WIDTH * (r + 1)\<rparr>)"
    by (simp only: kthen.simps kbind_app u2 m4 t2 t3 obind.simps kret_app)
  also have "?s5\<lparr>terminal := t3, ncCurrent := WIDTH * (r + 1)\<rparr> = s\<lparr>terminal := t3, ncCurrent := WIDTH * (r + 1),
      modules := with_module i dst (length c) (modules s), kmem := memcpy dst (a + 4) (length c) (kmem s)\<rparr>" by simp
  finally show thesis by (rule that)
qed

section \<open>The whole image\<close>

lemma memcpy_apart:
  assumes "source + n \<le> destination"
  shows "memcpy destination source n m x =
    (if destination \<le> x \<and> x < destination + n then m (source + (x - destination)) else m x)"
  using copy_bytes_eq[where d = destination and s = source and n = n and i = 0] assms by (simp add: memcpy_bytes)

lemma packed_length: "length c \<le> 2 ^ 20 \<Longrightarrow> length (packed c) = 4 + length c"
  by (simp add: packed_def le32_def)

lemma module_loaded:
  assumes "holds (kmem s) a c" "\<forall>x < dst + 0x100000. kmem s' x = kmem t x" "length c \<le> 2 ^ 20"
    "\<And>x. kmem t x = (if dst \<le> x \<and> x < dst + length c then kmem s (a + (x - dst)) else kmem s x)"
  shows "holds (kmem s') dst c"
proof -
  have "kmem s' (dst + j) = c ! j" if "j < length c" for j
  proof -
    have "kmem s' (dst + j) = kmem t (dst + j)" using assms(2,3) that by simp
    also have "\<dots> = kmem s (a + j)" using assms(4)[of "dst + j"] that by simp
    also have "\<dots> = c ! j" using assms(1) that by (simp add: holds_def)
    finally show ?thesis .
  qed
  then show ?thesis by (simp add: holds_def)
qed

text \<open>A module table is filled entry by entry, each a megabyte after the one before.\<close>

lemma modules_Cons:
  assumes "mod_address (modules s i) = dst" "mod_size (modules s i) = int (length c)" "holds (kmem s) dst c"
    "\<forall>k < length cs. mod_address (modules s (i + 1 + int k)) = dst + 0x100000 + k * 0x100000 \<and>
       mod_size (modules s (i + 1 + int k)) = int (length (cs ! k)) \<and>
       holds (kmem s) (dst + 0x100000 + k * 0x100000) (cs ! k)" "k < length (c # cs)"
  shows "mod_address (modules s (i + int k)) = dst + k * 0x100000 \<and>
       mod_size (modules s (i + int k)) = int (length ((c # cs) ! k)) \<and>
       holds (kmem s) (dst + k * 0x100000) ((c # cs) ! k)"
proof (cases k)
  case 0
  then show ?thesis using assms(1-3) by simp
next
  case (Suc k')
  then show ?thesis using assms(4)[rule_format, of k'] assms(5) by (simp add: algebra_simps)
qed

lemma loadModules_loop_packed:
  assumes "holds (kmem s) a (concat (map packed cs))" "\<forall>c \<in> set cs. length c \<le> 2 ^ 20"
    "a + length (concat (map packed cs)) \<le> D" "D < 16 ^ 6" "D \<le> dst" "dst + length cs * 0x100000 < 16 ^ 7"
    "0 \<le> i" "i + int (length cs) \<le> MODULES" "ncCurrent s = WIDTH * i"
  shows "\<exists>s'. loadModules_loop (length cs) i a dst s = Done () s' \<and>
    (\<forall>k < length cs. mod_address (modules s' (i + int k)) = dst + k * 0x100000 \<and>
       mod_size (modules s' (i + int k)) = int (length (cs ! k)) \<and>
       holds (kmem s') (dst + k * 0x100000) (cs ! k)) \<and>
    (\<forall>x < dst. kmem s' x = kmem s x) \<and> (\<forall>j < i. modules s' j = modules s j)"
  using assms
proof (induction cs arbitrary: s a dst i)
  case Nil
  then show ?case by simp
next
  case (Cons c cs)
  have c: "length c \<le> 2 ^ 20" and h: "holds (kmem s) a (packed c)"
    and h': "holds (kmem s) (a + 4 + length c) (concat (map packed cs))"
    using Cons.prems(1,2) by (auto simp: holds_append packed_length add.assoc)
  have hb: "holds (kmem s) (a + 4) c" using h by (simp add: packed_def holds_append le32_length)
  have pl: "a + 4 + length c + length (concat (map packed cs)) \<le> D"
    using Cons.prems(3) c by (simp add: packed_length)
  have i: "i < MODULES" using Cons.prems(8) by simp
  have side: "a + 4 < 16 ^ 6" "dst + 0x100000 < 16 ^ 7" "i < HEIGHT"
    using Cons.prems(4,6) pl i by (simp_all add: MODULES_def HEIGHT_def)
  let ?st = "\<lambda>t. s\<lparr>terminal := t, ncCurrent := WIDTH * (i + 1), modules := with_module i dst (length c) (modules s),
       kmem := memcpy dst (a + 4) (length c) (kmem s)\<rparr>"
  obtain t where t: "loadModule a i dst s = Done (a + 4 + length c, dst + 0x100000) (?st t)"
    by (rule loadModule_packed[OF h c side(1,2) Cons.prems(7) i Cons.prems(9) Cons.prems(7) side(3)])
  let ?s = "?st t"
  have mem: "kmem ?s x = (if dst \<le> x \<and> x < dst + length c then kmem s (a + 4 + (x - dst)) else kmem s x)" for x
    using memcpy_apart[of "a + 4" "length c" dst] pl Cons.prems(5) by simp
  have hs: "holds (kmem ?s) (a + 4 + length c) (concat (map packed cs))"
    using h' by (rule holds_cong[THEN iffD2, rotated]) (use mem pl Cons.prems(5) in simp)
  have prem: "\<forall>c \<in> set cs. length c \<le> 2 ^ 20" "D \<le> dst + 0x100000" "dst + 0x100000 + length cs * 0x100000 < 16 ^ 7"
    "0 \<le> i + 1" "i + 1 + int (length cs) \<le> MODULES" "ncCurrent ?s = WIDTH * (i + 1)"
    using Cons.prems(2,5-8) by simp_all
  obtain s' where s': "loadModules_loop (length cs) (i + 1) (a + 4 + length c) (dst + 0x100000) ?s = Done () s'"
    "\<forall>k < length cs. mod_address (modules s' (i + 1 + int k)) = dst + 0x100000 + k * 0x100000 \<and>
       mod_size (modules s' (i + 1 + int k)) = int (length (cs ! k)) \<and>
       holds (kmem s') (dst + 0x100000 + k * 0x100000) (cs ! k)"
    "\<forall>x < dst + 0x100000. kmem s' x = kmem ?s x" "\<forall>j < i + 1. modules s' j = modules ?s j"
    using Cons.IH[OF hs prem(1) pl Cons.prems(4) prem(2-6)] by (elim exE conjE)
  have fin: "loadModules_loop (length (c # cs)) i a dst s = Done () s'" by (simp add: t s'(1))
  have first: "modules s' i = (modules s i)\<lparr>mod_address := dst, mod_size := int (length c)\<rparr>"
    using s'(4) by (simp add: with_module_def)
  have hold: "holds (kmem s') dst c"
    by (rule module_loaded[OF hb s'(3) c]) (use mem in simp)
  note all = modules_Cons[OF _ _ hold s'(2)]
  have "kmem s' x = kmem s x" if "x < dst" for x using s'(3) mem[of x] that by simp
  moreover have "modules s' j = modules s j" if "j < i" for j using s'(4) that by (simp add: with_module_def)
  ultimately show ?case using fin all first by simp
qed

text \<open>C17: An image \<open>buildImage\<close> wrote for a kernel and at most 17 modules of up to 1 MiB, in memory with its payload
  below the module area, is taken apart by \<open>loadModules\<close> of the kernel: the call returns, and the table gets for
  every module its address and size, with the bytes of its file at that address.\<close>

theorem packed_modules_are_loaded:
  assumes "buildImage fs writable (kern # files) out = Some (True, msg, fs')"
    and "fs kern = Some content" "fs' out = Some img"
    and "\<And>i. i < length img \<Longrightarrow> kmem s (K + i) = img ! i"
    and "length files \<le> nat MODULES" "\<And>f c. f \<in> set files \<Longrightarrow> fs f = Some c \<Longrightarrow> length c \<le> 2 ^ 20"
    and "K + length img \<le> drop_start" "drop_start < 16 ^ 6" "ncCurrent s = 0"
  shows "\<exists>s'. loadModules (K + length content) drop_start s = Done () s' \<and>
    (\<forall>i < length files. \<exists>c. fs (files ! i) = Some c \<and>
       mod_address (modules s' (int i)) = drop_start + i * 0x100000 \<and> mod_size (modules s' (int i)) = int (length c) \<and>
       (\<forall>j < length c. kmem s' (drop_start + i * 0x100000 + j) = c ! j))"
proof -
  obtain cs where cs: "contents_of fs files = Some cs" "img = content @ le32 (length files) @ concat (map packed cs)"
    using buildImage_layout[OF assms(1)] assms(2,3) by (metis option.inject)
  have len: "length cs = length files" by (rule contents_of_length[OF cs(1)])
  have hi: "holds (kmem s) K img" using assms(4) by (simp add: holds_def)
  have mem: "holds (kmem s) (K + length content) (le32 (length files))"
    "holds (kmem s) (K + length content + 4) (concat (map packed cs))"
    using hi[unfolded cs(2) holds_append le32_length] by (simp_all add: add.assoc)
  have size: "K + length content + 4 + length (concat (map packed cs)) \<le> drop_start"
    using assms(7) by (simp add: cs(2) le32_length)
  have small: "\<forall>c \<in> set cs. length c \<le> 2 ^ 20"
    using assms(6) contents_of_nth[OF cs(1)] len by (metis in_set_conv_nth)
  have n: "length files \<le> 17" using assms(5) by (simp add: MODULES_def)
  have "loadModules (K + length content) drop_start s =
      loadModules_loop (length cs) 0 (K + length content + 4) drop_start s"
    using readUint32_le32[OF mem(1)] n by (simp add: loadModules_def len)
  moreover have side: "drop_start + length cs * 0x100000 < 16 ^ 7" "0 + int (length cs) \<le> MODULES" "ncCurrent s = WIDTH * 0"
    using assms(8,9) n by (simp_all add: len MODULES_def)
  obtain s' where s': "loadModules_loop (length cs) 0 (K + length content + 4) drop_start s = Done () s'"
    "\<forall>k < length cs. mod_address (modules s' (0 + int k)) = drop_start + k * 0x100000 \<and>
       mod_size (modules s' (0 + int k)) = int (length (cs ! k)) \<and> holds (kmem s') (drop_start + k * 0x100000) (cs ! k)"
    using loadModules_loop_packed[OF mem(2) small size assms(8) order_refl side(1) order_refl side(2,3)] by (elim exE conjE)
  have "\<exists>c. fs (files ! i) = Some c \<and>
       mod_address (modules s' (int i)) = drop_start + i * 0x100000 \<and> mod_size (modules s' (int i)) = int (length c) \<and>
       (\<forall>j < length c. kmem s' (drop_start + i * 0x100000 + j) = c ! j)" if "i < length files" for i
    using s'(2)[rule_format, of i] contents_of_nth[OF cs(1) that] that by (simp add: len holds_def)
  ultimately show ?thesis using s'(1) by auto
qed

definition ex_files :: files where
  "ex_files = [''k'' \<mapsto> ''KK'', ''m'' \<mapsto> ''abc'']"

definition ex_image :: "char list" where
  "ex_image = ''KK'' @ le32 1 @ packed ''abc''"

theorem packed_modules_are_loaded_witness:
  "\<forall>s. \<exists>s'. loadModules 102 0x200 (s\<lparr>kmem := \<lambda>a. ex_image ! (a - 100), ncCurrent := 0\<rparr>) = Done () s' \<and>
    mod_size (modules s' 0) = 3 \<and> kmem s' 0x201 = CHR ''b''"
proof
  fix s :: kstate
  have "\<exists>s'. loadModules (100 + length ''KK'') 0x200 (s\<lparr>kmem := \<lambda>a. ex_image ! (a - 100), ncCurrent := 0\<rparr>) = Done () s' \<and>
      (\<forall>i < length [''m'']. \<exists>c. ex_files ([''m''] ! i) = Some c \<and>
         mod_address (modules s' (int i)) = 0x200 + i * 0x100000 \<and> mod_size (modules s' (int i)) = int (length c) \<and>
         (\<forall>j < length c. kmem s' (0x200 + i * 0x100000 + j) = c ! j))"
    by (rule packed_modules_are_loaded[where fs = ex_files and writable = "\<lambda>_. True" and kern = "''k''" and out = "''o''"
          and msg = "[]" and fs' = "ex_files(''o'' \<mapsto> ex_image)" and img = ex_image])
       (auto simp: buildImage_def ex_files_def ex_image_def write_size_def packed_def MODULES_def le32_length)
  then show "\<exists>s'. loadModules 102 0x200 (s\<lparr>kmem := \<lambda>a. ex_image ! (a - 100), ncCurrent := 0\<rparr>) = Done () s' \<and>
      mod_size (modules s' 0) = 3 \<and> kmem s' 0x201 = CHR ''b''"
    by (auto simp: ex_files_def)
qed

end
