(* ===== verification/Bmfs.thy ===== *)
theory Bmfs
  imports Packer
begin

text \<open>
  \<open>Bootloader/BMFS/bmfs.c\<close>, the utility that makes and fills the disk image: a directory of 64 entries at
  byte 4096, files in blocks of 2 MiB.  The directory is kept as the list of its entries; on the disk it is
  their bytes.  Writing a name that does not fit its 32 bytes, or reading one without a NUL, is undefined and
  has the result \<open>None\<close>, as has passing the missing file name on.
\<close>

section \<open>Data\<close>

record BMFSEntry =
  FileName :: "char list"
  StartingBlock :: "64 word"
  ReservedBlocks :: "64 word"
  FileSize :: "64 word"
  Unused :: "64 word"

definition le64 :: "64 word \<Rightarrow> char list" where
  "le64 v = map (\<lambda>i. char_of (unat v div 256 ^ i)) [0..<8]"

definition word_of_le :: "char list \<Rightarrow> 64 word" where
  "word_of_le bs = of_nat (foldr (\<lambda>c v. of_char c + 256 * v) bs 0)"

definition entry_bytes :: "BMFSEntry \<Rightarrow> char list" where
  "entry_bytes e = FileName e @ le64 (StartingBlock e) @ le64 (ReservedBlocks e) @ le64 (FileSize e) @ le64 (Unused e)"

definition entry_of_bytes :: "char list \<Rightarrow> BMFSEntry" where
  "entry_of_bytes bs = \<lparr>FileName = take 32 bs, StartingBlock = word_of_le (take 8 (drop 32 bs)),
     ReservedBlocks = word_of_le (take 8 (drop 40 bs)), FileSize = word_of_le (take 8 (drop 48 bs)),
     Unused = word_of_le (take 8 (drop 56 bs))\<rparr>"

definition dir_bytes :: "BMFSEntry list \<Rightarrow> char list" where
  "dir_bytes es = concat (map entry_bytes es)"

definition dir_of_bytes :: "char list \<Rightarrow> BMFSEntry list" where
  "dir_of_bytes bs = map (\<lambda>i. entry_of_bytes (take 64 (drop (64 * i) bs))) [0..<64]"

text \<open>
  The variables of the program and the world around it: the file \<open>disk\<close> under its name, the other local
  files, which of them can be written, the size to which the disk file can grow (writes whose result the
  program does not test are taken to succeed), the rest of standard input, and what was printed.
\<close>

record bmfs =
  disk :: "char list"
  disksize :: "32 word"
  Directory :: "BMFSEntry list"
  DiskInfo :: "char list"
  local_files :: files
  writable :: "string \<Rightarrow> bool"
  quota :: nat
  input :: string
  out :: string

definition say :: "string \<Rightarrow> bmfs \<Rightarrow> bmfs" where
  "say str b = b\<lparr>out := out b @ str\<rparr>"

definition say_line :: "string \<Rightarrow> bmfs \<Rightarrow> bmfs" where
  "say_line str = say (str @ [CHR 0x0A])"

text \<open>\<open>fseek\<close> and \<open>fwrite\<close>; a gap is filled with zeros.\<close>

definition write_at :: "nat \<Rightarrow> char list \<Rightarrow> char list \<Rightarrow> char list" where
  "write_at off bs file = take off (file @ replicate (off - length file) NUL) @ bs @ drop (off + length bs) file"

text \<open>\<open>fread\<close> of one record into a buffer, which keeps what was not read.\<close>

definition read_into :: "char list \<Rightarrow> nat \<Rightarrow> char list \<Rightarrow> char list" where
  "read_into buf off file = (let bs = take (length buf) (drop off file) in bs @ drop (length bs) buf)"

definition num_text :: "nat \<Rightarrow> string" where
  "num_text v = (let ds = rev (map (\<lambda>i. v div 10 ^ i mod 10) [0..<20]);
     ds = dropWhile (\<lambda>d. d = 0) ds in map (\<lambda>d. char_of (48 + d)) (if ds = [] then [0] else ds))"

text \<open>\<open>%d\<close> and \<open>%lld\<close> of an unsigned value.\<close>

definition signed_text :: "'a::len word \<Rightarrow> string" where
  "signed_text v = (if sint v < 0 then CHR ''-'' # num_text (nat (- sint v)) else num_text (nat (sint v)))"

definition pad_left :: "nat \<Rightarrow> string \<Rightarrow> string" where
  "pad_left n str = replicate (n - length str) CHR '' '' @ str"

definition pad_right :: "nat \<Rightarrow> string \<Rightarrow> string" where
  "pad_right n str = str @ replicate (n - length str) CHR '' ''"

section \<open>Directory\<close>

definition is_end :: "BMFSEntry \<Rightarrow> bool" where
  "is_end e \<longleftrightarrow> FileName e ! 0 = NUL"

definition is_deleted :: "BMFSEntry \<Rightarrow> bool" where
  "is_deleted e \<longleftrightarrow> FileName e ! 0 = CHR 0x01"

definition c_name :: "BMFSEntry \<Rightarrow> string option" where
  "c_name e = (if NUL \<in> set (FileName e) then Some (takeWhile (\<lambda>c. c \<noteq> NUL) (FileName e)) else None)"

text \<open>The outer \<open>None\<close> is undefined behaviour, the inner one \<open>return 0\<close>.\<close>

primrec findfile_loop :: "string \<Rightarrow> BMFSEntry list \<Rightarrow> nat \<Rightarrow> (BMFSEntry \<times> nat) option option" where
  "findfile_loop filename [] tint = Some None"
| "findfile_loop filename (e # es) tint =
     (if is_end e then Some None
      else if is_deleted e then findfile_loop filename es (tint + 1)
      else do { name \<leftarrow> c_name e;
        if filename = name then Some (Some (e, tint)) else findfile_loop filename es (tint + 1) })"

definition findfile :: "string \<Rightarrow> BMFSEntry list \<Rightarrow> (BMFSEntry \<times> nat) option option" where
  "findfile filename dir = findfile_loop filename dir 0"

primrec list_loop :: "BMFSEntry list \<Rightarrow> string option" where
  "list_loop [] = Some []"
| "list_loop (e # es) =
     (if is_end e then Some []
      else if is_deleted e then list_loop es
      else do { name \<leftarrow> c_name e; rest \<leftarrow> list_loop es;
        Some (pad_right 32 name @ '' '' @ pad_left 20 (signed_text (FileSize e)) @ '' ''
          @ pad_left 20 (signed_text (ReservedBlocks e * 2)) @ [CHR 0x0A] @ rest) })"

definition list_b :: "string \<Rightarrow> bmfs \<Rightarrow> bmfs option" where
  "list_b diskname b = do { body \<leftarrow> list_loop (Directory b);
     Some (say (diskname @ [CHR 0x0A] @ ''Disk Size: '' @ signed_text (disksize b) @ '' MiB'' @ [CHR 0x0A]
       @ ''Name                            |            Size (B)|      Reserved (MiB)'' @ [CHR 0x0A]
       @ replicate 74 CHR ''='' @ [CHR 0x0A] @ body) b) }"

definition fs_tag :: string where "fs_tag = ''BMFS''"

definition empty_entry :: BMFSEntry where
  "empty_entry = \<lparr>FileName = replicate 32 NUL, StartingBlock = 0, ReservedBlocks = 0, FileSize = 0, Unused = 0\<rparr>"

definition format :: "bmfs \<Rightarrow> bmfs" where
  "format b = (let info = fs_tag @ replicate 508 NUL; dir = replicate 64 empty_entry in
     say_line ''Format complete.'' (b\<lparr>DiskInfo := info, Directory := dir,
       disk := write_at 4096 (dir_bytes dir) (write_at 1024 info (disk b))\<rparr>))"

definition flush_dir :: "bmfs \<Rightarrow> bmfs" where
  "flush_dir b = b\<lparr>disk := write_at 4096 (dir_bytes (Directory b)) (disk b)\<rparr>"

text \<open>The difference of the block numbers is returned as an \<open>int\<close>.\<close>

definition StartingBlockCmp :: "BMFSEntry \<Rightarrow> BMFSEntry \<Rightarrow> int" where
  "StartingBlockCmp ea eb =
     (if is_deleted ea then 1 else if is_deleted eb then - 1
      else to_int32 (uint (StartingBlock ea - StartingBlock eb)))"

text \<open>\<open>qsort\<close>; entries the comparison finds equal are all deleted ones in a consistent directory.\<close>

primrec insert_by :: "('a \<Rightarrow> 'a \<Rightarrow> int) \<Rightarrow> 'a \<Rightarrow> 'a list \<Rightarrow> 'a list" where
  "insert_by cmp x [] = [x]"
| "insert_by cmp x (y # ys) = (if cmp x y \<le> 0 then x # y # ys else y # insert_by cmp x ys)"

definition qsort :: "('a \<Rightarrow> 'a \<Rightarrow> int) \<Rightarrow> 'a list \<Rightarrow> 'a list" where
  "qsort cmp xs = foldr (insert_by cmp) xs []"

text \<open>The count of entries and the first free one; when no end is found the count stays 0.\<close>

primrec scan_dir :: "BMFSEntry list \<Rightarrow> int \<Rightarrow> int \<Rightarrow> int \<times> int" where
  "scan_dir [] tint first_free = (0, first_free)"
| "scan_dir (e # es) tint first_free =
     (if is_end e then (tint, if first_free = - 1 then tint else first_free)
      else if is_deleted e then scan_dir es (tint + 1) (if first_free = - 1 then tint else first_free)
      else scan_dir es (tint + 1) first_free)"

text \<open>The first gap of the sorted directory that is large enough, 0 if there is none.\<close>

primrec find_area :: "64 word \<Rightarrow> 64 word \<Rightarrow> BMFSEntry list \<Rightarrow> 64 word \<Rightarrow> 64 word" where
  "find_area num_blocks blocks_requested [] prev_file_end =
     (if (num_blocks - 1) - prev_file_end \<ge> blocks_requested then prev_file_end else 0)"
| "find_area num_blocks blocks_requested (e # es) prev_file_end =
     (let this_file_start = (if is_deleted e then num_blocks - 1 else StartingBlock e) in
      if this_file_start - prev_file_end \<ge> blocks_requested then prev_file_end
      else find_area num_blocks blocks_requested es (StartingBlock e + ReservedBlocks e))"

text \<open>\<open>strcpy\<close> into the name of an entry.\<close>

definition set_name :: "string \<Rightarrow> BMFSEntry \<Rightarrow> BMFSEntry option" where
  "set_name filename e = (if length filename < 32
     then Some (e\<lparr>FileName := filename @ NUL # drop (length filename + 1) (FileName e)\<rparr>) else None)"

definition mark_end :: "BMFSEntry \<Rightarrow> BMFSEntry" where
  "mark_end e = e\<lparr>FileName := NUL # drop 1 (FileName e)\<rparr>"

definition round_up :: "64 word \<Rightarrow> 64 word" where
  "round_up maxsize = (if maxsize mod 2 \<noteq> 0 then maxsize + 1 else maxsize)"

definition create :: "string \<Rightarrow> 64 word \<Rightarrow> bmfs \<Rightarrow> bmfs option" where
  "create filename maxsize b = (let maxsize = round_up maxsize; dir = Directory b in do {
     found \<leftarrow> findfile filename dir;
     if found \<noteq> None then Some (say_line ''Error: File already exists.'' b)
     else
       let blocks_requested = maxsize div 2; num_blocks = of_nat (unat (disksize b) div 2);
           b = say_line ''Creating new file...'' b;
           (num_used_entries, first_free_entry) = scan_dir dir 0 (- 1) in
       if first_free_entry = - 1 then Some (say_line ''Cannot create file: no free directory entries.'' b)
       else
         let new_file_start = find_area num_blocks blocks_requested
               (qsort StartingBlockCmp (take (nat num_used_entries) dir)) 1 in
         if new_file_start = 0 then
           Some (say_line (''Cannot create file of size '' @ signed_text maxsize @ '' MiB.'') b)
         else do {
           e \<leftarrow> set_name filename ((dir ! nat first_free_entry)
             \<lparr>StartingBlock := new_file_start, ReservedBlocks := blocks_requested, FileSize := 0\<rparr>);
           let dir = dir[nat first_free_entry := e];
           let i = nat (num_used_entries + 1);
           let dir = (if first_free_entry = num_used_entries \<and> num_used_entries + 1 < 64
             then dir[i := mark_end (dir ! i)] else dir);
           Some (say_line ''Complete'' (flush_dir (b\<lparr>Directory := dir\<rparr>))) } })"

section \<open>Files\<close>

definition BLOCK :: nat where "BLOCK = 2097152"

text \<open>\<open>getc\<close> gives \<open>EOF\<close> behind the end, which \<open>putc\<close> writes as 255; a count beyond \<open>INT_MAX\<close> overflows.\<close>

definition copy_from :: "nat \<Rightarrow> nat \<Rightarrow> char list \<Rightarrow> char list" where
  "copy_from off n file = map (\<lambda>i. if off + i < length file then file ! (off + i) else CHR 0xFF) [0..<n]"

definition read_b :: "string \<Rightarrow> bmfs \<Rightarrow> bmfs option" where
  "read_b filename b = do {
     found \<leftarrow> findfile filename (Directory b);
     case found of None \<Rightarrow> Some (say_line ''Error: File not found in BMFS.'' b)
     | Some (e, slot) \<Rightarrow> do {
         name \<leftarrow> c_name e;
         let b = say (''Reading '' @ [CHR 0x27] @ filename @ [CHR 0x27] @ '' from BMFS to local file... '') b;
         if \<not> writable b name then Some (say_line (''Error: Could not open local file '' @ [CHR 0x27] @ name @ [CHR 0x27]) b)
         else if unat (FileSize e) > 2 ^ 31 - 1 then None
         else Some (say_line ''Complete'' (b\<lparr>local_files :=
           (local_files b)(name \<mapsto> copy_from (unat (StartingBlock e * of_nat BLOCK)) (unat (FileSize e)) (disk b))\<rparr>)) } }"

definition write_b :: "string \<Rightarrow> bmfs \<Rightarrow> bmfs option" where
  "write_b filename b = do {
     found \<leftarrow> findfile filename (Directory b);
     case found of None \<Rightarrow> Some (say_line ''Error: File not found in BMFS. A file entry must first be created.'' b)
     | Some (e, slot) \<Rightarrow>
         let b = say (''Writing local file '' @ [CHR 0x27] @ filename @ [CHR 0x27] @ '' to BMFS... '') b in
         (case local_files b filename of
            None \<Rightarrow> do { name \<leftarrow> c_name e; Some (say_line (''Error: Could not open local file '' @ [CHR 0x27] @ name @ [CHR 0x27]) b) }
          | Some content \<Rightarrow>
              let tempfilesize = of_nat (length content) in
              if ReservedBlocks e * of_nat BLOCK < tempfilesize then Some (say_line ''Not enough reserved space in BMFS.'' b)
              else if unat tempfilesize > 2 ^ 31 - 1 then None
              else Some (say_line ''Complete'' (flush_dir (b\<lparr>
                disk := write_at (unat (StartingBlock e * of_nat BLOCK)) content (disk b),
                Directory := (Directory b)[slot := (Directory b ! slot)\<lparr>FileSize := tempfilesize\<rparr>]\<rparr>)))) }"

definition delete :: "string \<Rightarrow> bmfs \<Rightarrow> bmfs option" where
  "delete filename b = do {
     found \<leftarrow> findfile filename (Directory b);
     case found of None \<Rightarrow> Some (say_line ''Error: File not found in BMFS.'' b)
     | Some (e, slot) \<Rightarrow>
         let b = say (''Deleting file '' @ [CHR 0x27] @ filename @ [CHR 0x27] @ '' from BMFS... '') b;
             old = Directory b ! slot in
         Some (say_line ''Complete'' (flush_dir (b\<lparr>
           Directory := (Directory b)[slot := old\<lparr>FileName := CHR 0x01 # drop 1 (FileName old)\<rparr>]\<rparr>))) }"

section \<open>initialize\<close>

definition minimumDiskSize :: "64 word" where "minimumDiskSize = 6 * 1024 * 1024"

definition is_digit :: "char \<Rightarrow> bool" where
  "is_digit c \<longleftrightarrow> 48 \<le> (of_char c :: nat) \<and> (of_char c :: nat) \<le> 57"

definition to_upper :: "char \<Rightarrow> char" where
  "to_upper c = (if 97 \<le> (of_char c :: nat) \<and> (of_char c :: nat) \<le> 122 then char_of ((of_char c :: nat) - 32) else c)"

definition unit_factor :: "char \<Rightarrow> nat option" where
  "unit_factor ch = (if to_upper ch = CHR ''K'' then Some 1 else if to_upper ch = CHR ''M'' then Some 2
     else if to_upper ch = CHR ''G'' then Some 3 else if to_upper ch = CHR ''T'' then Some 4
     else if to_upper ch = CHR ''P'' then Some 5 else None)"

definition invalid_size :: "string \<Rightarrow> string" where
  "invalid_size sz = ''Error: Invalid disk size string: '' @ [CHR 0x27] @ sz @ [CHR 0x27, CHR 0x0A]"

text \<open>
  The loop over the size \<open>sz\<close>: the result is the value, the factor, the error flag \<open>ret\<close> and what is printed;
  \<open>rest\<close> is what is left of it, and \<open>first\<close> is \<open>i == 0\<close>.
\<close>

primrec parse_size :: "string \<Rightarrow> bool \<Rightarrow> string \<Rightarrow> 64 word \<Rightarrow> nat \<Rightarrow> 64 word \<times> nat \<times> bool \<times> string" where
  "parse_size sz first [] diskSize factor = (diskSize, factor, False, [])"
| "parse_size sz first (ch # rest) diskSize factor =
     (if is_digit ch then
        (let n = of_nat ((of_char ch :: nat) - 48) in
         if diskSize * 10 > diskSize then parse_size sz False rest (diskSize * 10 + n) factor
         else if diskSize = 0 then parse_size sz False rest (diskSize + n) factor
         else (diskSize, factor, True, ''Error: Disk size is too large'' @ [CHR 0x0A]))
      else if first then (diskSize, factor, True, ''Error: A numeric disk size must be specified'' @ [CHR 0x0A])
      else (case unit_factor ch of
          None \<Rightarrow> (diskSize, factor, True, invalid_size sz)
        | Some f \<Rightarrow> if rest \<noteq> [] then (diskSize, f, True, invalid_size sz) else (diskSize, f, False, [])))"

text \<open>\<open>while(diskSizeFactor--)\<close>, which goes on after an error.\<close>

primrec scale_size :: "nat \<Rightarrow> 64 word \<Rightarrow> bool \<Rightarrow> 64 word \<times> bool \<times> string" where
  "scale_size 0 diskSize ret = (diskSize, ret, [])"
| "scale_size (Suc n) diskSize ret =
     (if diskSize * 1024 > diskSize then scale_size n (diskSize * 1024) ret
      else case scale_size n diskSize True of (d, r, m) \<Rightarrow> (d, r, ''Error: Disk size is too large'' @ [CHR 0x0A] @ m))"

definition disk_size :: "string \<Rightarrow> 64 word \<times> bool \<times> string" where
  "disk_size sz =
     (let (diskSize, factor, ret, msg) = parse_size sz True sz 0 0;
          (diskSize, ret, msg) = (if \<not> ret \<and> diskSize > 0 \<and> factor > 0
            then (case scale_size factor diskSize ret of (d, r, m) \<Rightarrow> (d, r, msg @ m)) else (diskSize, ret, msg)) in
      if \<not> ret \<and> diskSize < minimumDiskSize
      then (diskSize, True, msg @ ''Error: Disk size must be at least '' @ num_text (unat minimumDiskSize) @ '' bytes (''
        @ num_text (unat minimumDiskSize div (1024 * 1024)) @ ''MiB)'' @ [CHR 0x0A])
      else (diskSize, ret, msg))"

text \<open>
  The steps that write the disk work on the error flag, the position in the disk file, its error indicator and
  the world.  \<open>put\<close> is a checked \<open>fwrite\<close>; \<open>pct\<close> is the percentage printed, computed in floating point.
\<close>

type_synonym wstate = "bool \<times> nat \<times> bool \<times> bmfs"

definition write_failed :: "string \<Rightarrow> string" where
  "write_failed diskname = ''Error: Failed to write disk '' @ [CHR 0x27] @ diskname @ [CHR 0x27]"

definition put :: "string \<Rightarrow> char list \<Rightarrow> wstate \<Rightarrow> wstate" where
  "put diskname bs = (\<lambda>(ret, pos, err, b).
     if pos + length bs \<le> quota b then (ret, pos + length bs, err, b\<lparr>disk := write_at pos bs (disk b)\<rparr>)
     else (True, pos, True, say_line (write_failed diskname) b))"

definition bufferSize :: nat where "bufferSize = 50 * 1024"

definition progress :: "string \<Rightarrow> nat \<Rightarrow> nat \<Rightarrow> string" where
  "progress pct done_size diskSize = ''Formatting disk: '' @ num_text done_size @ '' of '' @ num_text diskSize
     @ '' bytes ('' @ pct @ ''%)''"

function fill_disk :: "(nat \<Rightarrow> nat \<Rightarrow> string) \<Rightarrow> string \<Rightarrow> nat \<Rightarrow> nat \<Rightarrow> wstate \<Rightarrow> nat \<times> wstate" where
  "fill_disk pct diskname diskSize writeSize w =
     (if writeSize < diskSize then
        (case w of (ret, pos, err, b) \<Rightarrow>
         let b = say (progress (pct writeSize diskSize) writeSize diskSize @ ''...'' @ [CHR 0x0D]) b;
             chunk = min bufferSize (diskSize - writeSize);
             w = put diskname (replicate chunk NUL) (ret, pos, err, b) in
         if fst w then (writeSize, w) else fill_disk pct diskname diskSize (writeSize + chunk) w)
      else (writeSize, w))"
  by pat_completeness auto
termination
  by (relation "measure (\<lambda>(pct, diskname, diskSize, writeSize, w). diskSize - writeSize)")
     (auto simp: bufferSize_def)

declare fill_disk.simps [simp del]

text \<open>Copying a file behind what was written; the loop goes on after an error.\<close>

function copy_file :: "string \<Rightarrow> char list \<Rightarrow> wstate \<Rightarrow> wstate" where
  "copy_file diskname content w =
     (if content = [] then w
      else copy_file diskname (drop bufferSize content) (put diskname (take bufferSize content) w))"
  by pat_completeness auto
termination
  by (relation "measure (\<lambda>(diskname, content, w). length content)") (auto simp: bufferSize_def)

declare copy_file.simps [simp del]

definition copy_checked :: "string \<Rightarrow> string \<Rightarrow> char list \<Rightarrow> wstate \<Rightarrow> wstate" where
  "copy_checked diskname name content w =
     (case copy_file diskname content w of (ret, pos, err, b) \<Rightarrow>
        if err then (True, pos, err, say_line (''Error: Failed to read file '' @ [CHR 0x27] @ name @ [CHR 0x27]) b)
        else (ret, pos, err, b))"

text \<open>\<open>if (ret == 0 \<and> name != NULL) open(name)\<close>: the content if the file was opened.\<close>

definition open_opt :: "string \<Rightarrow> string option \<Rightarrow> bool \<times> bmfs \<Rightarrow> char list option \<times> bool \<times> bmfs" where
  "open_opt kind name = (\<lambda>(ret, b). if ret then (None, ret, b) else
     (case name of None \<Rightarrow> (None, ret, b)
      | Some n \<Rightarrow> (case local_files b n of
          None \<Rightarrow> (None, True, say_line (''Error: Unable to open '' @ kind @ '' file '' @ [CHR 0x27] @ n @ [CHR 0x27]) b)
        | Some c \<Rightarrow> (Some c, ret, b))))"

text \<open>The disk file when the program ends.\<close>

definition save_disk :: "string \<Rightarrow> bmfs \<Rightarrow> bmfs" where
  "save_disk diskname b = b\<lparr>local_files := (local_files b)(diskname \<mapsto> disk b)\<rparr>"

text \<open>\<open>heap_ok\<close>: the allocation of the buffer succeeds.\<close>

definition initialize :: "(nat \<Rightarrow> nat \<Rightarrow> string) \<Rightarrow> bool \<Rightarrow> string \<Rightarrow> string \<Rightarrow> string option \<Rightarrow> string option \<Rightarrow>
    string option \<Rightarrow> bmfs \<Rightarrow> bool \<times> bmfs" where
  "initialize pct heap_ok diskname sz mbr boot kern b =
     (let bootFileType = (if kern = None then ''system'' else ''boot loader'');
          (diskSize, ret, msg) = disk_size sz;
          b = say msg b;
          (mbrFile, ret, b) = open_opt ''MBR'' mbr (ret, b);
          (bootFile, ret, b) = open_opt bootFileType boot (ret, b);
          (kernelFile, ret, b) = open_opt ''kernel'' kern (ret, b);
          (ret, b) = (if \<not> ret \<and> \<not> heap_ok then (True, say_line ''Error: Failed to allocate buffer'' b) else (ret, b)) in
      if ret then (True, b)
      else if \<not> writable b diskname then
        (True, say_line (''Error: Unable to open disk '' @ [CHR 0x27] @ diskname @ [CHR 0x27]) b)
      else
        let (writeSize, ret, pos, err, b) = fill_disk pct diskname (unat diskSize) 0 (False, 0, False, b\<lparr>disk := []\<rparr>) in
        if ret then (True, save_disk diskname b)
        else
          let b = say (progress ''100'' writeSize (unat diskSize) @ replicate 9 CHR '' '' @ [CHR 0x0A]) b;
              b = format b;
              (ret, pos, err, b) = (case mbrFile of None \<Rightarrow> (ret, 8192, err, b)
                | Some c \<Rightarrow> let b = say_line ''Writing master boot record.'' b in
                    if length c \<ge> 512 then put diskname (take 512 c) (ret, 0, err, b)
                    else (True, 0, err, say_line (''Error: Failed to read file '' @ [CHR 0x27] @ the mbr @ [CHR 0x27]) b));
              (ret, pos, err, b) = (case (ret, bootFile) of (False, Some c) \<Rightarrow>
                  copy_checked diskname (the boot) c (ret, 8192, err, say_line (''Writing '' @ bootFileType @ '' file.'') b)
                | _ \<Rightarrow> (ret, pos, err, b));
              (ret, pos, err, b) = (case (ret, kernelFile) of (False, Some c) \<Rightarrow>
                  copy_checked diskname (the kern) c (ret, pos, err, say_line ''Writing kernel.'' b)
                | _ \<Rightarrow> (ret, pos, err, b)) in
          (ret, save_disk diskname (if ret then b else say_line ''Disk initialization complete.'' b)))"

section \<open>main\<close>

definition to_lower :: "char \<Rightarrow> char" where
  "to_lower c = (if 65 \<le> (of_char c :: nat) \<and> (of_char c :: nat) \<le> 90 then char_of ((of_char c :: nat) + 32) else c)"

text \<open>\<open>strcasecmp(a, b) == 0\<close> and \<open>atoi\<close>, which is undefined when the value does not fit.\<close>

definition same_word :: "string \<Rightarrow> string \<Rightarrow> bool" where
  "same_word a b \<longleftrightarrow> map to_lower a = map to_lower b"

definition atoi :: "string \<Rightarrow> int option" where
  "atoi str =
     (let t = dropWhile (\<lambda>c. c \<in> {CHR '' '', CHR 0x09, CHR 0x0A, CHR 0x0B, CHR 0x0C, CHR 0x0D}) str;
          neg = (t \<noteq> [] \<and> hd t = CHR ''-'');
          t = (if t \<noteq> [] \<and> (hd t = CHR ''-'' \<or> hd t = CHR ''+'') then tl t else t);
          v = foldl (\<lambda>v c. v * 10 + (int (of_char c) - 48)) 0 (takeWhile is_digit t);
          v = (if neg then - v else v) in
      if - (2 ^ 31) \<le> v \<and> v < 2 ^ 31 then Some v else None)"

text \<open>\<open>fgets(tempstring, 32, stdin)\<close>: at most 31 characters, to the end of the line.\<close>

definition fgets :: "nat \<Rightarrow> string \<Rightarrow> string \<times> string" where
  "fgets n str = (let before = takeWhile (\<lambda>c. c \<noteq> CHR 0x0A) str;
     line = take (n - 1) (before @ take 1 (drop (length before) str)) in (line, drop (length line) str))"

definition usage :: "string \<Rightarrow> string" where
  "usage prog = concat (map (\<lambda>l. l @ [CHR 0x0A]) [
     ''BareMetal File System Utility v1.0 (2013 04 10)'',
     ''Written by Ian Seyler @ Return Infinity (ian.seyler@returninfinity.com)'', [],
     ''Usage: '' @ prog @ '' disk function file'',
     ''Disk: the name of the disk file'',
     ''Function: list, read, write, create, delete, format, initialize'',
     ''File: (if applicable)''])"

definition arg_at :: "string list \<Rightarrow> nat \<Rightarrow> string option" where
  "arg_at argv i = (if i < length argv then Some (argv ! i) else None)"

text \<open>The commands on a formatted disk; a missing file name is undefined for all but \<open>create\<close>.\<close>

definition create_command :: "string list \<Rightarrow> bmfs \<Rightarrow> bmfs option" where
  "create_command argv b = (case arg_at argv 3 of
     None \<Rightarrow> Some (say_line ''Error: File name not specified.'' b)
   | Some filename \<Rightarrow> (case arg_at argv 4 of
       Some a \<Rightarrow> do { filesize \<leftarrow> atoi a;
         if filesize \<ge> 1 then create filename (word_of_int filesize) b
         else Some (say_line ''Error: Invalid file size.'' b) }
     | None \<Rightarrow>
         let b = say ''Maximum file size in MiB: '' b; (tempstring, rest) = fgets 32 (input b); b = b\<lparr>input := rest\<rparr> in do {
           v \<leftarrow> atoi tempstring;
           let filesize = (word_of_int v :: 32 word) in
           if filesize \<ge> 1 then create filename (of_nat (unat filesize)) b
           else Some (say_line ''Error: Invalid file size.'' b) }))"

definition run_command :: "string list \<Rightarrow> bmfs \<Rightarrow> bmfs option" where
  "run_command argv b = (let command = argv ! 2; with_name = (\<lambda>f. case arg_at argv 3 of None \<Rightarrow> None | Some n \<Rightarrow> f n b) in
     if same_word ''list'' command then list_b (argv ! 1) b
     else if same_word ''format'' command then
       (case arg_at argv 3 of
          Some a \<Rightarrow> Some (if same_word a ''/FORCE'' then format b else say_line ''Format aborted!'' b)
        | None \<Rightarrow> Some (say_line ''Format aborted!'' b))
     else if same_word ''create'' command then create_command argv b
     else if same_word ''read'' command then with_name read_b
     else if same_word ''write'' command then with_name write_b
     else if same_word ''delete'' command then with_name delete
     else Some (say_line ''Unknown command'' b))"

text \<open>The disk is opened for update: its file must exist and be writable.  The result is the exit status.\<close>

definition load_disk :: "bmfs \<Rightarrow> bmfs" where
  "load_disk b = b\<lparr>disksize := of_nat (length (disk b) div 1048576),
     DiskInfo := read_into (replicate 512 NUL) 1024 (disk b),
     Directory := dir_of_bytes (read_into (replicate 4096 NUL) 4096 (disk b))\<rparr>"

definition bmfs_main :: "(nat \<Rightarrow> nat \<Rightarrow> string) \<Rightarrow> bool \<Rightarrow> string list \<Rightarrow> bmfs \<Rightarrow> (int \<times> bmfs) option" where
  "bmfs_main pct heap_ok argv b =
     (if length argv < 3 then Some (0, say (usage (argv ! 0)) b)
      else let diskname = argv ! 1; command = argv ! 2 in
      if same_word ''initialize'' command then
        (case arg_at argv 3 of
           Some sz \<Rightarrow> (case initialize pct heap_ok diskname sz (arg_at argv 4) (arg_at argv 5) (arg_at argv 6) b of
             (ret, b) \<Rightarrow> Some (if ret then 1 else 0, b))
         | None \<Rightarrow> Some (1, say_line (''Usage: '' @ argv ! 0 @ '' disk '' @ command
             @ '' size [mbr_file] [bootloader_file] [kernel_file]'') b))
      else (case local_files b diskname of
         Some content \<Rightarrow>
           if \<not> writable b diskname then Some (0, say_line (''Error: Unable to open disk '' @ [CHR 0x27] @ diskname @ [CHR 0x27]) b)
           else let b = load_disk (b\<lparr>disk := content\<rparr>); save = save_disk diskname in
             if \<not> same_word (takeWhile (\<lambda>c. c \<noteq> NUL) (DiskInfo b)) fs_tag then
               Some (0, save (if same_word ''format'' command then format b
                 else say_line ''Error: Not a valid BMFS drive (Disk is not BMFS formatted).'' b))
             else map_option (\<lambda>b. (0, save b)) (run_command argv b)
       | None \<Rightarrow> Some (0, say_line (''Error: Unable to open disk '' @ [CHR 0x27] @ diskname @ [CHR 0x27]) b)))"

end
