(* ===== verification/BmfsProps.thy ===== *)
theory BmfsProps
  imports Bmfs "HOL-Library.Multiset"
begin

text \<open>The directory of the disk utility: where new files are placed, and what is read back.\<close>

section \<open>Extents\<close>

definition st :: "BMFSEntry \<Rightarrow> nat" where "st e = unat (StartingBlock e)"
definition en :: "BMFSEntry \<Rightarrow> nat" where "en e = unat (StartingBlock e) + unat (ReservedBlocks e)"

definition apart :: "BMFSEntry \<Rightarrow> BMFSEntry \<Rightarrow> bool" where
  "apart a b \<longleftrightarrow> en a \<le> st b \<or> en b \<le> st a"

text \<open>Files lie between block 1 and the last block, are not empty and do not overlap.\<close>

definition layout_ok :: "nat \<Rightarrow> BMFSEntry list \<Rightarrow> bool" where
  "layout_ok n es \<longleftrightarrow> distinct es \<and> (\<forall>e \<in> set es. 1 \<le> st e \<and> st e < en e \<and> en e \<le> n - 1) \<and>
     (\<forall>a \<in> set es. \<forall>b \<in> set es. a \<noteq> b \<longrightarrow> apart a b)"

definition used :: "BMFSEntry list \<Rightarrow> BMFSEntry list" where
  "used dir = filter (\<lambda>e. \<not> is_deleted e) (takeWhile (\<lambda>e. \<not> is_end e) dir)"

definition dir_ok :: "BMFSEntry list \<Rightarrow> bool" where
  "dir_ok dir \<longleftrightarrow> length dir = 64 \<and> (\<forall>e \<in> set dir. length (FileName e) = 32)"

lemma layout_ok_perm: "mset es = mset es' \<Longrightarrow> layout_ok n es = layout_ok n es'"
  by (auto simp: layout_ok_def dest: mset_eq_setD mset_eq_imp_distinct_iff)

section \<open>Sorting\<close>

lemma insert_by_mset [simp]: "mset (insert_by cmp x ys) = add_mset x (mset ys)"
  by (induction ys) auto

lemma qsort_mset [simp]: "mset (qsort cmp xs) = mset xs"
  by (induction xs) (simp_all add: qsort_def)

lemma qsort_set [simp]: "set (qsort cmp xs) = set xs"
  by (rule mset_eq_setD) simp

lemma insert_by_sorted:
  assumes "\<And>y. y \<in> set ys \<Longrightarrow> (cmp x y \<le> 0) = (key x \<le> (key y :: nat))" "sorted_wrt (\<lambda>a b. key a \<le> key b) ys"
  shows "sorted_wrt (\<lambda>a b. key a \<le> key b) (insert_by cmp x ys)"
  using assms
proof (induction ys)
  case Nil
  then show ?case by simp
next
  case (Cons y ys)
  have set: "set (insert_by cmp x ys) = insert x (set ys)" using mset_eq_setD[of "insert_by cmp x ys" "x # ys"] by simp
  have c: "(cmp x y \<le> 0) = (key x \<le> key y)" using Cons.prems(1)[of y] by simp
  have ih: "sorted_wrt (\<lambda>a b. key a \<le> key b) (insert_by cmp x ys)"
    by (rule Cons.IH) (use Cons.prems in auto)
  show ?case
  proof (cases "key x \<le> key y")
    case True
    then show ?thesis using Cons.prems(2) c by (auto intro: order_trans)
  next
    case False
    then show ?thesis using Cons.prems(2) ih c by (auto simp: set)
  qed
qed

lemma qsort_sorted:
  assumes "\<And>x y. x \<in> set xs \<Longrightarrow> y \<in> set xs \<Longrightarrow> (cmp x y \<le> 0) = (key x \<le> (key y :: nat))"
  shows "sorted_wrt (\<lambda>a b. key a \<le> key b) (qsort cmp xs)"
  using assms
proof (induction xs)
  case Nil
  then show ?case by (simp add: qsort_def)
next
  case (Cons x xs)
  have "sorted_wrt (\<lambda>a b. key a \<le> key b) (insert_by cmp x (qsort cmp xs))"
    by (rule insert_by_sorted) (use Cons in auto)
  then show ?case by (simp add: qsort_def)
qed

lemma int_of_difference:
  assumes "0 \<le> a" "a < 2 ^ 31" "0 \<le> b" "b < (2 ^ 31 :: int)"
  shows "to_int32 ((a - b) mod 2 ^ 64) = a - b"
proof -
  have m: "((a - b) mod 2 ^ 64) mod 2 ^ 32 = (a - b) mod (2 ^ 32 :: int)"
    by (rule mod_mod_cancel) (simp add: le_imp_power_dvd)
  have "to_int32 ((a - b) mod 2 ^ 64) = to_int32 (a - b)"
    unfolding to_int32_def by (simp only: mod_add_cong[OF m refl])
  also have "\<dots> = a - b" by (rule to_int32_id) (use assms in linarith)+
  finally show ?thesis .
qed

lemma StartingBlockCmp_le:
  assumes "\<not> is_deleted a" "\<not> is_deleted b" "st a < 2 ^ 31" "st b < 2 ^ 31"
  shows "(StartingBlockCmp a b \<le> 0) = (st a \<le> st b)"
proof -
  have "uint (StartingBlock a - StartingBlock b) = (int (st a) - int (st b)) mod 2 ^ 64"
    by (simp add: uint_word_ariths st_def)
  moreover have "to_int32 ((int (st a) - int (st b)) mod 2 ^ 64) = int (st a) - int (st b)"
    by (rule int_of_difference) (use assms(3,4) in simp_all)
  ultimately show ?thesis using assms(1,2) by (simp add: StartingBlockCmp_def)
qed

section \<open>The search for a gap\<close>

lemma gap_word:
  fixes this prev r :: "64 word"
  assumes "unat prev \<le> unat this"
  shows "(this - prev \<ge> r) = (unat prev + unat r \<le> unat this)"
  using assms by (simp add: word_le_nat_alt unat_sub le_diff_conv2 add.commute)

lemma find_area_spec:
  assumes "sorted_wrt (\<lambda>a b. en a \<le> st b) es" "\<forall>e \<in> set es. \<not> is_deleted e \<and> unat prev \<le> st e \<and> st e < en e \<and> en e \<le> l"
    "unat prev \<le> l" "unat (n - 1) = l" "0 < unat prev" "0 < unat r"
  defines "p \<equiv> unat (find_area n r es prev)"
  shows "(p = 0 \<and> (\<forall>q. unat prev \<le> q \<and> q + unat r \<le> l \<longrightarrow> (\<exists>e \<in> set es. q < en e \<and> st e < q + unat r))) \<or>
    (unat prev \<le> p \<and> p + unat r \<le> l \<and> (\<forall>e \<in> set es. p + unat r \<le> st e \<or> en e \<le> p))"
  using assms(1-6) unfolding p_def
proof (induction es arbitrary: prev)
  case Nil
  then show ?case by (auto simp: gap_word)
next
  case (Cons e es)
  have e: "\<not> is_deleted e" "unat prev \<le> st e" "st e < en e" "en e \<le> l" using Cons.prems(2) by auto
  have later: "\<forall>x \<in> set es. en e \<le> st x" using Cons.prems(1) by simp
  have lt: "unat (n - 1) < 2 ^ 64" by (rule order_less_le_trans[OF unsigned_less]) simp
  have en: "unat (StartingBlock e + ReservedBlocks e) = en e"
    using e(4) lt Cons.prems(4) by (simp add: en_def unat_word_ariths)
  show ?case
  proof (cases "unat prev + unat r \<le> st e")
    case True
    then have "find_area n r (e # es) prev = prev" using e by (simp add: gap_word st_def)
    moreover have "\<forall>x \<in> set (e # es). unat prev + unat r \<le> st x" using True later e(3) by auto
    ultimately show ?thesis using True e by auto
  next
    case False
    let ?p = "unat (find_area n r es (StartingBlock e + ReservedBlocks e))"
    have f: "find_area n r (e # es) prev = find_area n r es (StartingBlock e + ReservedBlocks e)"
      using False e by (simp add: gap_word st_def)
    have ih: "(?p = 0 \<and> (\<forall>q. en e \<le> q \<and> q + unat r \<le> l \<longrightarrow> (\<exists>e \<in> set es. q < en e \<and> st e < q + unat r))) \<or>
        (en e \<le> ?p \<and> ?p + unat r \<le> l \<and> (\<forall>e \<in> set es. ?p + unat r \<le> st e \<or> en e \<le> ?p))"
      using Cons.IH[of "StartingBlock e + ReservedBlocks e"] Cons.prems e later by (simp add: en)
    then show ?thesis
    proof
      assume no: "?p = 0 \<and> (\<forall>q. en e \<le> q \<and> q + unat r \<le> l \<longrightarrow> (\<exists>e \<in> set es. q < en e \<and> st e < q + unat r))"
      have "\<exists>x \<in> set (e # es). q < en x \<and> st x < q + unat r" if "unat prev \<le> q" "q + unat r \<le> l" for q
        using no that False by (cases "en e \<le> q") auto
      then show ?thesis using no f by auto
    qed (use f e in auto)
  qed
qed

section \<open>The directory\<close>

definition named :: "BMFSEntry list \<Rightarrow> bool" where
  "named dir \<longleftrightarrow> (\<forall>e \<in> set (used dir). NUL \<in> set (FileName e))"

lemma findfile_loop_spec:
  assumes "\<forall>e \<in> set (used dir). NUL \<in> set (FileName e)"
  shows "findfile_loop f dir t = Some None \<and> (\<forall>e \<in> set (used dir). c_name e \<noteq> Some f) \<or>
    (\<exists>i < length dir. findfile_loop f dir t = Some (Some (dir ! i, t + i)) \<and> dir ! i \<in> set (used dir) \<and> c_name (dir ! i) = Some f)"
  using assms
proof (induction dir arbitrary: t)
  case Nil
  then show ?case by (simp add: used_def)
next
  case (Cons e dir)
  show ?case
  proof (cases "is_end e")
    case True
    then show ?thesis by (simp add: used_def)
  next
    case ne: False
    have u: "used (e # dir) = (if is_deleted e then used dir else e # used dir)" using ne by (simp add: used_def)
    show ?thesis
    proof (cases "\<not> is_deleted e \<and> c_name e = Some f")
      case True
      then show ?thesis using ne u by (intro disjI2 exI[of _ 0]) simp
    next
      case False
      have "\<exists>n. c_name e = Some n" if "\<not> is_deleted e" using Cons.prems u that by (simp add: c_name_def)
      then have step: "findfile_loop f (e # dir) t = findfile_loop f dir (t + 1)" using ne False by auto
      have "\<forall>e \<in> set (used dir). NUL \<in> set (FileName e)" using Cons.prems u by (simp split: if_splits)
      from Cons.IH[OF this, of "t + 1"] show ?thesis
      proof
        assume "\<exists>i<length dir. findfile_loop f dir (t + 1) = Some (Some (dir ! i, t + 1 + i)) \<and>
            dir ! i \<in> set (used dir) \<and> c_name (dir ! i) = Some f"
        then obtain i where "i < length dir" "findfile_loop f dir (t + 1) = Some (Some (dir ! i, t + 1 + i))"
          "dir ! i \<in> set (used dir)" "c_name (dir ! i) = Some f" by blast
        then show ?thesis using u step by (intro disjI2 exI[of _ "Suc i"]) simp
      qed (use False u step in auto)
    qed
  qed
qed

lemma scan_dir_plain:
  "\<forall>e \<in> set us. \<not> is_end e \<and> \<not> is_deleted e \<Longrightarrow> is_end e0 \<Longrightarrow>
   scan_dir (us @ e0 # rest) t (- 1) = (t + int (length us), t + int (length us))"
  by (induction us arbitrary: t) auto

lemma used_plain:
  "\<forall>e \<in> set us. \<not> is_end e \<and> \<not> is_deleted e \<Longrightarrow> (rest = [] \<or> is_end (hd rest)) \<Longrightarrow> used (us @ rest) = us"
proof (induction us)
  case Nil
  then show ?case by (cases rest) (auto simp: used_def)
next
  case (Cons e us)
  then show ?case by (simp add: used_def)
qed

lemma layout_sorted_ends:
  "layout_ok n q \<Longrightarrow> sorted_wrt (\<lambda>a b. st a \<le> st b) q \<Longrightarrow> sorted_wrt (\<lambda>a b. en a \<le> st b) q"
proof (induction q)
  case Nil
  then show ?case by simp
next
  case (Cons x q)
  have "layout_ok n q" using Cons.prems(1) by (simp add: layout_ok_def)
  moreover have "en x \<le> st y" if "y \<in> set q" for y
  proof -
    have "x \<noteq> y" "apart x y" "st y < en y" using Cons.prems(1) that by (auto simp: layout_ok_def)
    moreover have "st x \<le> st y" using Cons.prems(2) that by simp
    ultimately show ?thesis by (auto simp: apart_def)
  qed
  ultimately show ?case using Cons by simp
qed

lemma layout_sorted:
  assumes "layout_ok n es" "n < 2 ^ 31" "\<forall>e \<in> set es. \<not> is_deleted e"
  shows "sorted_wrt (\<lambda>a b. en a \<le> st b) (qsort StartingBlockCmp es)"
proof (rule layout_sorted_ends)
  have "st e < 2 ^ 31" if "e \<in> set es" for e
  proof -
    have "st e < en e" "en e \<le> n - 1" using assms(1) that by (auto simp: layout_ok_def)
    then show ?thesis using assms(2) by simp
  qed
  then show "sorted_wrt (\<lambda>a b. st a \<le> st b) (qsort StartingBlockCmp es)"
    by (intro qsort_sorted StartingBlockCmp_le) (use assms(3) in auto)
  show "layout_ok n (qsort StartingBlockCmp es)" using assms(1) layout_ok_perm[of "qsort StartingBlockCmp es" es n] by simp
qed

section \<open>New files\<close>

lemma round_up_div:
  assumes "maxsize < 2 ^ 32"
  shows "unat (round_up maxsize div 2) = (unat maxsize + 1) div 2"
proof -
  have lt: "unat maxsize < 2 ^ 32" using assms by (simp add: word_less_nat_alt)
  have m: "(maxsize mod 2 = 0) = (unat maxsize mod 2 = 0)" by (simp add: unat_eq_0[symmetric] unat_mod_distrib)
  show ?thesis
  proof (cases "unat maxsize mod 2 = 0")
    case True
    then show ?thesis using m by (simp add: round_up_def unat_div_distrib) presburger
  next
    case False
    have "unat (maxsize + 1) = unat maxsize + 1" using lt by (simp add: unat_word_ariths)
    then show ?thesis using m False by (simp add: round_up_def unat_div_distrib)
  qed
qed

text \<open>The entry of the new file behind the others.\<close>

lemma placed_dir:
  assumes "length (us @ e0 # rest) = 64" "\<forall>e \<in> set us. \<not> is_end e \<and> \<not> is_deleted e" "\<not> is_end e" "\<not> is_deleted e"
  defines "dir \<equiv> (us @ e0 # rest)[length us := e]"
  shows "used (if int (length us) + 1 < 64 then dir[length us + 1 := mark_end (dir ! (length us + 1))] else dir) = us @ [e]"
proof -
  have d: "dir = (us @ [e]) @ rest" by (simp add: dir_def)
  have u: "\<forall>x \<in> set (us @ [e]). \<not> is_end x \<and> \<not> is_deleted x" using assms(2-4) by simp
  show ?thesis
  proof (cases rest)
    case Nil
    then show ?thesis using used_plain[OF u, of "[]"] assms(1) d by simp
  next
    case (Cons x xs)
    have "dir[length us + 1 := mark_end (dir ! (length us + 1))] = (us @ [e]) @ mark_end x # xs"
      unfolding d Cons by (simp add: nth_append list_update_append)
    then show ?thesis using used_plain[OF u, of "mark_end x # xs"] assms(1) Cons by (simp add: is_end_def mark_end_def)
  qed
qed

lemma named_entry:
  assumes "filename \<noteq> []" "hd filename \<noteq> CHR 0x01" "NUL \<notin> set filename" "length filename < 32"
  obtains e' where "set_name filename e = Some e'" "c_name e' = Some filename" "\<not> is_end e'" "\<not> is_deleted e'"
    "StartingBlock e' = StartingBlock e" "ReservedBlocks e' = ReservedBlocks e" "FileSize e' = FileSize e"
proof
  let ?e = "e\<lparr>FileName := filename @ NUL # drop (length filename + 1) (FileName e)\<rparr>"
  show "set_name filename e = Some ?e" using assms(4) by (simp add: set_name_def)
  have "takeWhile (\<lambda>c. c \<noteq> NUL) (filename @ NUL # xs) = filename" for xs
    using assms(3) by (induction filename) auto
  then show "c_name ?e = Some filename" by (simp add: c_name_def)
  show "\<not> is_end ?e" "\<not> is_deleted ?e" using assms(1-3)
    by (cases filename; auto simp: is_end_def is_deleted_def)+
qed simp_all

lemma layout_ok_add:
  assumes "layout_ok n us" "1 \<le> st e" "st e < en e" "en e \<le> n - 1" "\<forall>x \<in> set us. apart e x"
  shows "layout_ok n (us @ [e])"
proof -
  have "e \<notin> set us" using assms(3,5) by (auto simp: apart_def)
  then show ?thesis using assms by (auto simp: layout_ok_def apart_def)
qed

text \<open>What \<open>create\<close> does with a name the directory has, and with one it has not: the sorted search
  for an area, then the entry written after the ones in use.\<close>

lemma create_existing:
  assumes "named (Directory b)" "used (Directory b) = us" "\<exists>e \<in> set us. c_name e = Some filename"
  shows "\<exists>b'. create filename maxsize b = Some b' \<and> Directory b' = Directory b"
proof -
  obtain i where "findfile filename (Directory b) = Some (Some (Directory b ! i, i))"
    using findfile_loop_spec[of "Directory b" filename 0] assms unfolding named_def findfile_def by auto
  then show ?thesis by (simp add: create_def say_line_def say_def Let_def)
qed

lemma find_area_room:
  fixes maxsize :: "64 word" and us :: "BMFSEntry list" and n :: nat
  defines "r \<equiv> (unat maxsize + 1) div 2" and "s \<equiv> round_up maxsize div 2"
  assumes "\<forall>e \<in> set us. \<not> is_end e \<and> \<not> is_deleted e" "layout_ok n us" "0 < maxsize" "maxsize < 2 ^ 32" "2 < n" "n < 2 ^ 31"
  defines "p \<equiv> unat (find_area (of_nat n) s (qsort StartingBlockCmp us) 1)"
  shows "unat s = r" "0 < r"
    "p = 0 \<and> (\<forall>p. 1 \<le> p \<and> p + r \<le> n - 1 \<longrightarrow> (\<exists>e \<in> set us. p < en e \<and> st e < p + r)) \<or>
     1 \<le> p \<and> p + r \<le> n - 1 \<and> (\<forall>e \<in> set us. p + r \<le> st e \<or> en e \<le> p)"
proof -
  show r: "unat s = r" "0 < r" using round_up_div[OF assms(6)] assms(5) by (simp_all add: r_def s_def word_less_nat_alt)
  have nb: "unat (of_nat n - 1 :: 64 word) = n - 1" using assms(7,8) by (simp add: unat_sub word_le_nat_alt unat_of_nat)
  have "layout_ok n (qsort StartingBlockCmp us)" using assms(4) layout_ok_perm[of "qsort StartingBlockCmp us" us n] by simp
  then show "p = 0 \<and> (\<forall>p. 1 \<le> p \<and> p + r \<le> n - 1 \<longrightarrow> (\<exists>e \<in> set us. p < en e \<and> st e < p + r)) \<or>
     1 \<le> p \<and> p + r \<le> n - 1 \<and> (\<forall>e \<in> set us. p + r \<le> st e \<or> en e \<le> p)"
    using find_area_spec[OF layout_sorted[OF assms(4,8)] _ _ nb, of 1 s] assms(3,7) r
    by (simp add: layout_ok_def p_def)
qed

lemma create_fresh:
  fixes maxsize :: "64 word" and us :: "BMFSEntry list" and b :: bmfs
  defines "p \<equiv> find_area (of_nat (unat (disksize b) div 2)) (round_up maxsize div 2) (qsort StartingBlockCmp us) 1"
  assumes "dir_ok (Directory b)" "Directory b = us @ e0 # rest" "is_end e0" "\<forall>e \<in> set us. \<not> is_end e \<and> \<not> is_deleted e"
    "named (Directory b)" "\<forall>e \<in> set us. c_name e \<noteq> Some filename"
    "filename \<noteq> []" "hd filename \<noteq> CHR 0x01" "NUL \<notin> set filename" "length filename < 32"
  obtains dir e where "create filename maxsize b = Some (if unat p = 0
      then say_line (''Cannot create file of size '' @ signed_text (round_up maxsize) @ '' MiB.'') (say_line ''Creating new file...'' b)
      else say_line ''Complete'' (flush_dir ((say_line ''Creating new file...'' b)\<lparr>Directory := dir\<rparr>)))"
    "used dir = us @ [e]" "c_name e = Some filename" "StartingBlock e = p" "ReservedBlocks e = round_up maxsize div 2"
    "FileSize e = 0"
proof -
  let ?dir = "Directory b" and ?k = "length us"
  have used: "used ?dir = us" unfolding assms(3) using assms(4,5) by (intro used_plain) auto
  have scan: "scan_dir ?dir 0 (- 1) = (int ?k, int ?k)" unfolding assms(3) using scan_dir_plain[OF assms(5,4)] by simp
  have take: "take (nat (int ?k)) ?dir = us" unfolding assms(3) by simp
  have f: "findfile filename ?dir = Some None"
    using findfile_loop_spec[of ?dir filename 0] assms(6,7) unfolding named_def used findfile_def by auto
  let ?e = "(?dir ! ?k)\<lparr>StartingBlock := p, ReservedBlocks := round_up maxsize div 2, FileSize := 0\<rparr>"
  obtain e where e: "set_name filename ?e = Some e" "c_name e = Some filename" "\<not> is_end e" "\<not> is_deleted e"
    "StartingBlock e = p" "ReservedBlocks e = round_up maxsize div 2" "FileSize e = 0"
    using named_entry[OF assms(8-11), of ?e] by auto
  let ?dir1 = "?dir[?k := e]"
  let ?dir2 = "if int ?k + 1 < 64 then ?dir1[?k + 1 := mark_end (?dir1 ! (?k + 1))] else ?dir1"
  have nat: "nat (int ?k + 1) = ?k + 1" by simp
  show thesis
  proof (rule that[of ?dir2 e])
    show "create filename maxsize b = Some (if unat p = 0
      then say_line (''Cannot create file of size '' @ signed_text (round_up maxsize) @ '' MiB.'') (say_line ''Creating new file...'' b)
      else say_line ''Complete'' (flush_dir ((say_line ''Creating new file...'' b)\<lparr>Directory := ?dir2\<rparr>)))"
      using f scan e(1) nat
      by (simp add: create_def Let_def take[simplified] p_def[symmetric] say_line_def say_def unat_eq_0)
    show "used ?dir2 = us @ [e]"
      unfolding assms(3) by (rule placed_dir) (use assms(2,3,5) e(3,4) in \<open>simp_all add: dir_ok_def\<close>)
  qed (fact e)+
qed

text \<open>C21: In a directory without deleted entries and with an entry to spare, whose files lie inside the disk and do not
  overlap, \<open>create\<close> returns.  A file of an existing name is refused; otherwise the file gets an entry behind the
  others, with the name and the requested size rounded up to blocks of 2 MiB, and the files still lie inside the
  disk and do not overlap; and it fails only if no gap of that size is left.\<close>

theorem create_places_file:
  fixes b :: bmfs and maxsize :: "64 word"
  defines "n \<equiv> unat (disksize b) div 2" and "r \<equiv> (unat maxsize + 1) div 2"
  assumes "dir_ok (Directory b)" "Directory b = us @ e0 # rest" "is_end e0"
    "\<forall>e \<in> set us. \<not> is_end e \<and> \<not> is_deleted e" "named (Directory b)" "layout_ok n us"
    "filename \<noteq> []" "hd filename \<noteq> CHR 0x01" "NUL \<notin> set filename" "length filename < 32"
    "0 < maxsize" "maxsize < 2 ^ 32" "2 < n"
  shows "\<exists>b'. create filename maxsize b = Some b' \<and>
    (if \<exists>e \<in> set us. c_name e = Some filename then Directory b' = Directory b
     else if \<exists>p. 1 \<le> p \<and> p + r \<le> n - 1 \<and> (\<forall>e \<in> set us. p + r \<le> st e \<or> en e \<le> p) then
       \<exists>e. used (Directory b') = us @ [e] \<and> c_name e = Some filename \<and> unat (ReservedBlocks e) = r \<and>
         FileSize e = 0 \<and> layout_ok n (us @ [e])
     else Directory b' = Directory b)"
proof -
  have "unat (disksize b) < 2 ^ 32" by (rule order_less_le_trans[OF unsigned_less]) simp
  then have n31: "n < 2 ^ 31" by (simp add: n_def)
  note room = find_area_room[OF assms(6,8,13-15) n31, folded r_def]
  have used: "used (Directory b) = us" unfolding assms(4) using assms(5,6) by (intro used_plain) auto
  show ?thesis
  proof (cases "\<exists>e \<in> set us. c_name e = Some filename")
    case True
    then show ?thesis using create_existing[OF assms(7) used True, of maxsize] by auto
  next
    case False
    then have none: "\<forall>e \<in> set us. c_name e \<noteq> Some filename" by blast
    obtain dir e where new: "create filename maxsize b = Some (
        if unat (find_area (of_nat n) (round_up maxsize div 2) (qsort StartingBlockCmp us) 1) = 0
        then say_line (''Cannot create file of size '' @ signed_text (round_up maxsize) @ '' MiB.'') (say_line ''Creating new file...'' b)
        else say_line ''Complete'' (flush_dir ((say_line ''Creating new file...'' b)\<lparr>Directory := dir\<rparr>)))"
      and e: "used dir = us @ [e]" "c_name e = Some filename"
        "StartingBlock e = find_area (of_nat n) (round_up maxsize div 2) (qsort StartingBlockCmp us) 1"
        "ReservedBlocks e = round_up maxsize div 2" "FileSize e = 0"
      using create_fresh[OF assms(3-7) none assms(9-12), of maxsize] unfolding n_def by blast
    from room(3) show ?thesis
    proof
      assume no: "unat (find_area (of_nat n) (round_up maxsize div 2) (qsort StartingBlockCmp us) 1) = 0 \<and>
        (\<forall>p. 1 \<le> p \<and> p + r \<le> n - 1 \<longrightarrow> (\<exists>e \<in> set us. p < en e \<and> st e < p + r))"
      then have "\<not> (\<exists>p. 1 \<le> p \<and> p + r \<le> n - 1 \<and> (\<forall>e \<in> set us. p + r \<le> st e \<or> en e \<le> p))" by (meson not_le)
      then show ?thesis using False no unfolding new by (auto simp: say_line_def say_def)
    next
      let ?p = "unat (find_area (of_nat n) (round_up maxsize div 2) (qsort StartingBlockCmp us) 1)"
      assume yes: "1 \<le> ?p \<and> ?p + r \<le> n - 1 \<and> (\<forall>e \<in> set us. ?p + r \<le> st e \<or> en e \<le> ?p)"
      have "st e = ?p" "en e = ?p + r" using e(3,4) room(1) by (simp_all add: st_def en_def)
      then have "layout_ok n (us @ [e])"
        by (intro layout_ok_add[OF assms(8)]) (use yes room(2) in \<open>auto simp: apart_def\<close>)
      moreover have "Directory (say_line ''Complete'' (flush_dir ((say_line ''Creating new file...'' b)\<lparr>Directory := dir\<rparr>))) = dir"
        by (simp add: say_line_def say_def flush_dir_def)
      ultimately show ?thesis using False yes e room(1) unfolding new by auto
    qed
  qed
qed

lemma empty_name: "FileName empty_entry = replicate 32 NUL"
  by (simp add: empty_entry_def)

lemma named_empty: "named (replicate n empty_entry)"
  by (cases n) (simp_all add: named_def used_def is_end_def empty_entry_def)

theorem create_places_file_witness:
  "\<forall>b. \<exists>b' e. create ''f'' 3 (b\<lparr>disksize := 16, Directory := replicate 64 empty_entry\<rparr>) = Some b' \<and>
     used (Directory b') = [e] \<and> c_name e = Some ''f'' \<and> unat (ReservedBlocks e) = 2"
proof
  fix b :: bmfs
  let ?b = "b\<lparr>disksize := 16, Directory := replicate 64 empty_entry\<rparr>"
  have d: "Directory ?b = [] @ empty_entry # replicate 63 empty_entry" by (simp add: numeral_eq_Suc)
  have "\<exists>b'. create ''f'' 3 ?b = Some b' \<and>
    (if \<exists>e \<in> set []. c_name e = Some ''f'' then Directory b' = Directory ?b
     else if \<exists>p. 1 \<le> p \<and> p + (unat (3 :: 64 word) + 1) div 2 \<le> unat (disksize ?b) div 2 - 1 \<and>
         (\<forall>e \<in> set []. p + (unat (3 :: 64 word) + 1) div 2 \<le> st e \<or> en e \<le> p) then
       \<exists>e. used (Directory b') = [] @ [e] \<and> c_name e = Some ''f'' \<and>
         unat (ReservedBlocks e) = (unat (3 :: 64 word) + 1) div 2 \<and>
         FileSize e = 0 \<and> layout_ok (unat (disksize ?b) div 2) ([] @ [e])
     else Directory b' = Directory ?b)"
    by (rule create_places_file[OF _ d])
       (simp_all add: dir_ok_def is_end_def empty_name named_empty layout_ok_def)
  moreover have "\<exists>p. 1 \<le> p \<and> p + 2 \<le> (7 :: nat)" by (rule exI[of _ 1]) simp
  ultimately show "\<exists>b' e. create ''f'' 3 ?b = Some b' \<and> used (Directory b') = [e] \<and> c_name e = Some ''f'' \<and>
      unat (ReservedBlocks e) = 2" by auto
qed

text \<open>C40: A deleted file makes \<open>create\<close> hand out space that is in use: when the first file on a full disk was deleted, a
  file that is larger than the gap it left, but not larger than the file behind it, is placed over that file.\<close>

theorem create_overlaps_after_delete:
  fixes b :: bmfs and maxsize :: "64 word"
  defines "n \<equiv> unat (disksize b) div 2" and "r \<equiv> (unat maxsize + 1) div 2"
  assumes "Directory b = x # y # e0 # rest" "is_deleted x" "\<not> is_deleted y" "\<not> is_end y" "is_end e0"
    "NUL \<in> set (FileName y)" "c_name y \<noteq> Some filename"
    "filename \<noteq> []" "hd filename \<noteq> CHR 0x01" "NUL \<notin> set filename" "length filename < 32"
    "st x = 1" "en x = st y" "en y = n - 1" "maxsize < 2 ^ 32" "st y - 1 < r" "st y + r \<le> en y"
  shows "\<exists>b' e. create filename maxsize b = Some b' \<and> used (Directory b') = [e, y] \<and>
    c_name e = Some filename \<and> unat (ReservedBlocks e) = r \<and> st e = st y \<and> \<not> apart e y"
proof -
  let ?dir = "Directory b"
  have x: "\<not> is_end x" using assms(4) by (auto simp: is_deleted_def is_end_def)
  let ?r = "round_up maxsize div 2" and ?nb = "of_nat n :: 64 word"
  have r: "unat ?r = r" "0 < r" using round_up_div[OF assms(17)] assms(18) by (simp_all add: r_def)
  have n31: "n < 2 ^ 31"
  proof -
    have "unat (disksize b) < 2 ^ 32" by (rule order_less_le_trans[OF unsigned_less]) simp
    then show ?thesis by (simp add: n_def)
  qed
  have n0: "0 < n" using assms(16,19) r(2) by auto
  have nb: "unat (?nb - 1) = n - 1" using n31 n0 by (simp add: unat_sub word_le_nat_alt unat_of_nat)
  have find: "findfile filename ?dir = Some None"
    using assms(3-9) x by (simp add: findfile_def c_name_def)
  have scan: "scan_dir ?dir 0 (- 1) = (2, 0)" using assms(3-7) x by simp
  have sort: "qsort StartingBlockCmp (take (nat 2) ?dir) = [y, x]"
    using assms(3,4) by (simp add: qsort_def StartingBlockCmp_def numeral_eq_Suc)
  have eny: "unat (StartingBlock y + ReservedBlocks y) = n - 1"
    using assms(16) n31 by (simp add: en_def unat_word_ariths)
  have enx: "unat (StartingBlock x + ReservedBlocks x) = st y"
    using assms(15,16,19) n31 by (simp add: en_def unat_word_ariths)
  have sy: "1 \<le> st y" using assms(14,15) by (simp add: en_def st_def)
  have no: "\<not> Suc r \<le> st y" "\<not> n - Suc 0 + r \<le> n - Suc 0" "\<not> n + r - Suc 0 \<le> n - Suc 0" "st y + r \<le> n - Suc 0"
    using assms(16,18,19) r(2) n0 by simp_all
  have area: "find_area ?nb ?r [y, x] 1 = StartingBlock x + ReservedBlocks x"
    using assms(4,5) sy eny enx nb r(1) no assms(16) by (simp add: gap_word st_def[symmetric])
  let ?e = "x\<lparr>StartingBlock := StartingBlock x + ReservedBlocks x, ReservedBlocks := ?r, FileSize := 0\<rparr>"
  obtain e where e: "set_name filename ?e = Some e" "c_name e = Some filename" "\<not> is_end e" "\<not> is_deleted e"
    "StartingBlock e = StartingBlock x + ReservedBlocks x" "ReservedBlocks e = ?r" "FileSize e = 0"
    using named_entry[OF assms(10-13), of ?e] by auto
  have pos: "StartingBlock x + ReservedBlocks x \<noteq> 0" using enx sy by auto
  obtain b' where b': "create filename maxsize b = Some b'" "Directory b' = e # y # e0 # rest"
    using find scan sort area e(1) pos assms(3)
    by (simp add: create_def Let_def n_def[symmetric] say_line_def say_def flush_dir_def)
  moreover have "used (e # y # e0 # rest) = [e, y]" using e(3,4) assms(5-7) by (simp add: used_def)
  moreover have "st e = st y" "unat (ReservedBlocks e) = r" using e(5,6) enx r by (simp_all add: st_def)
  moreover have "\<not> apart e y" using calculation(4,5) assms(19) r(2) by (simp add: apart_def en_def st_def)
  ultimately show ?thesis using e(2) by auto
qed

definition ex_deleted :: BMFSEntry where
  "ex_deleted = \<lparr>FileName = CHR 0x01 # replicate 31 NUL, StartingBlock = 1, ReservedBlocks = 2, FileSize = 0, Unused = 0\<rparr>"

definition ex_file :: BMFSEntry where
  "ex_file = \<lparr>FileName = CHR ''b'' # replicate 31 NUL, StartingBlock = 3, ReservedBlocks = 7, FileSize = 0, Unused = 0\<rparr>"

theorem create_overlaps_after_delete_witness:
  "\<forall>b. \<exists>b' e. create ''c'' 10 (b\<lparr>disksize := 22, Directory := ex_deleted # ex_file # replicate 62 empty_entry\<rparr>) = Some b' \<and>
    used (Directory b') = [e, ex_file] \<and> \<not> apart e ex_file"
proof
  fix b :: bmfs
  have d: "replicate 62 empty_entry = empty_entry # replicate 61 empty_entry" by (simp add: numeral_eq_Suc)
  show "\<exists>b' e. create ''c'' 10 (b\<lparr>disksize := 22, Directory := ex_deleted # ex_file # replicate 62 empty_entry\<rparr>) = Some b' \<and>
      used (Directory b') = [e, ex_file] \<and> \<not> apart e ex_file"
    using create_overlaps_after_delete[of "b\<lparr>disksize := 22, Directory := ex_deleted # ex_file # replicate 62 empty_entry\<rparr>"
        ex_deleted ex_file empty_entry "replicate 61 empty_entry" "''c''" 10] d
    by (auto simp: ex_deleted_def ex_file_def empty_entry_def is_deleted_def is_end_def c_name_def st_def en_def)
qed

section \<open>Bytes on the disk\<close>

definition byte_at :: "char list \<Rightarrow> nat \<Rightarrow> char" where
  "byte_at file i = (if i < length file then file ! i else NUL)"

lemma byte_at_write [simp]:
  "byte_at (write_at off bs file) i = (if off \<le> i \<and> i < off + length bs then bs ! (i - off) else byte_at file i)"
  by (auto simp: byte_at_def write_at_def nth_append min_def)

lemma length_write_at [simp]: "length (write_at off bs file) = max (length file) (off + length bs)"
  by (auto simp: write_at_def)

lemma take_drop_eq:
  assumes "off + n \<le> length file" "length bs = n" "\<And>i. i < n \<Longrightarrow> byte_at file (off + i) = bs ! i"
  shows "take n (drop off file) = bs"
  using assms by (intro nth_equalityI) (auto simp: byte_at_def)

lemma le64_length [simp]: "length (le64 v) = 8"
  by (simp add: le64_def)

lemma base256: "foldr (\<lambda>c v. of_char c + 256 * v) (map (\<lambda>i. char_of (v div 256 ^ i)) [k..<k + n]) 0 = v div 256 ^ k mod (256 ^ n :: nat)"
proof (induction n arbitrary: k)
  case 0
  then show ?case by simp
next
  case (Suc n)
  let ?w = "v div 256 ^ k"
  have "[k..<k + Suc n] = k # [Suc k..<Suc k + n]" by (simp add: upt_conv_Cons)
  then have "foldr (\<lambda>c v. of_char c + 256 * v) (map (\<lambda>i. char_of (v div 256 ^ i)) [k..<k + Suc n]) 0 =
      ?w mod 256 + 256 * (v div 256 ^ Suc k mod 256 ^ n)"
    using Suc.IH[of "Suc k"] by simp
  also have "v div 256 ^ Suc k = ?w div 256" by (simp only: power_Suc2 div_mult2_eq)
  also have "?w mod 256 + 256 * (?w div 256 mod 256 ^ n) = ?w mod 256 ^ Suc n"
    by (simp add: mod_mult2_eq)
  finally show ?case .
qed

lemma word_of_le64 [simp]: "word_of_le (le64 v) = v"
proof -
  have "unat v < 256 ^ 8" by (rule order_less_le_trans[OF unsigned_less]) simp
  then show ?thesis using base256[of "unat v" 0 8] by (simp add: word_of_le_def le64_def)
qed

lemma entry_bytes_length: "length (FileName e) = 32 \<Longrightarrow> length (entry_bytes e) = 64"
  by (simp add: entry_bytes_def)

lemma entry_roundtrip: "length (FileName e) = 32 \<Longrightarrow> entry_of_bytes (entry_bytes e) = e"
  by (simp add: entry_of_bytes_def entry_bytes_def)

lemma dir_bytes_nth:
  "\<forall>e \<in> set es. length (FileName e) = 32 \<Longrightarrow> i < length es \<Longrightarrow> take 64 (drop (64 * i) (dir_bytes es)) = entry_bytes (es ! i)"
proof (induction es arbitrary: i)
  case Nil
  then show ?case by simp
next
  case (Cons e es)
  then show ?case
    by (cases i) (simp_all add: dir_bytes_def entry_bytes_length)
qed

lemma dir_bytes_length: "\<forall>e \<in> set es. length (FileName e) = 32 \<Longrightarrow> length (dir_bytes es) = 64 * length es"
  by (induction es) (simp_all add: dir_bytes_def entry_bytes_length)

lemma dir_roundtrip: "dir_ok dir \<Longrightarrow> dir_of_bytes (dir_bytes dir) = dir"
  by (intro nth_equalityI) (auto simp: dir_of_bytes_def dir_ok_def dir_bytes_nth entry_roundtrip)

text \<open>What is flushed is what the next run loads.\<close>

lemma load_flushed:
  assumes "dir_ok (Directory b)"
  shows "Directory (load_disk (flush_dir b)) = Directory b"
proof -
  have len: "length (dir_bytes (Directory b)) = 4096" using assms dir_bytes_length by (simp add: dir_ok_def)
  have "take 4096 (drop 4096 (write_at 4096 (dir_bytes (Directory b)) (disk b))) = dir_bytes (Directory b)"
    by (rule take_drop_eq) (simp_all add: len)
  then show ?thesis using dir_roundtrip[OF assms] len by (simp add: load_disk_def flush_dir_def read_into_def)
qed

lemma findfile_loop_ge: "findfile_loop f dir t = Some (Some (e, k)) \<Longrightarrow> t \<le> k"
  by (induction dir arbitrary: t) (fastforce simp: bind_eq_Some_conv split: if_splits)+

lemma findfile_updated:
  assumes "findfile_loop f dir t = Some (Some (e, t + slot))"
  shows "slot < length dir \<and> dir ! slot = e \<and>
    findfile_loop f (dir[slot := e\<lparr>FileSize := v\<rparr>]) t = Some (Some (e\<lparr>FileSize := v\<rparr>, t + slot))"
  using assms
proof (induction dir arbitrary: t slot)
  case Nil
  then show ?case by simp
next
  case (Cons x dir)
  show ?case
  proof (cases "slot = 0")
    case True
    have later: False if "findfile_loop f dir (t + 1) = Some (Some (e, t))"
      using findfile_loop_ge[OF that] by simp
    then show ?thesis using Cons.prems True
      by (auto simp: is_end_def is_deleted_def c_name_def bind_eq_Some_conv split: if_splits)
  next
    case False
    then obtain k where k: "slot = Suc k" by (cases slot) auto
    then have "findfile_loop f dir (t + 1) = Some (Some (e, t + 1 + k))" and ne: "\<not> is_end x"
      "is_deleted x \<or> (\<exists>n. c_name x = Some n \<and> f \<noteq> n)"
      using Cons.prems by (auto simp: bind_eq_Some_conv split: if_splits)
    from Cons.IH[OF this(1)] ne k show ?thesis by auto
  qed
qed

lemma read_b_reads:
  assumes "findfile filename (Directory b) = Some (Some (e, slot))" "c_name e = Some filename" "writable b filename"
    "unat (FileSize e) < 2 ^ 31" "copy_from (unat (StartingBlock e * of_nat BLOCK)) (unat (FileSize e)) (disk b) = content"
  shows "\<exists>b2. read_b filename b = Some b2 \<and> local_files b2 filename = Some content"
  using assms by (simp add: read_b_def say_line_def say_def Let_def)

lemma written_data:
  assumes "8192 \<le> off" "length db = 4096"
  shows "copy_from off (length content) (write_at 4096 db (write_at off content d)) = content"
proof (rule nth_equalityI)
  fix i assume "i < length (copy_from off (length content) (write_at 4096 db (write_at off content d)))"
  then have i: "i < length content" by (simp add: copy_from_def)
  have "off + i < length (write_at 4096 db (write_at off content d))" using i by simp
  moreover have "byte_at (write_at 4096 db (write_at off content d)) (off + i) = content ! i" using i assms by simp
  ultimately show "copy_from off (length content) (write_at 4096 db (write_at off content d)) ! i = content ! i"
    using i by (simp add: copy_from_def byte_at_def)
qed (simp add: copy_from_def)

lemma write_b_writes:
  fixes content :: string
  defines "v \<equiv> of_nat (length content) :: 64 word"
  assumes "findfile filename (Directory b) = Some (Some (e, slot))" "local_files b filename = Some content"
    "length content < 2 ^ 31" "en e < 2 ^ 31" "length content \<le> unat (ReservedBlocks e) * BLOCK"
  shows "unat v = length content" "unat (StartingBlock e * of_nat BLOCK) = st e * BLOCK"
    "write_b filename b = Some (say_line ''Complete'' (flush_dir
       ((say (''Writing local file '' @ [CHR 0x27] @ filename @ [CHR 0x27] @ '' to BMFS... '') b)
         \<lparr>disk := write_at (st e * BLOCK) content (disk b), Directory := (Directory b)[slot := e\<lparr>FileSize := v\<rparr>]\<rparr>)))"
proof -
  show v: "unat v = length content" using assms(4) by (simp add: v_def unat_of_nat)
  show off: "unat (StartingBlock e * of_nat BLOCK) = st e * BLOCK"
    using assms(5) by (simp add: st_def en_def BLOCK_def unat_word_ariths)
  have "unat (ReservedBlocks e * of_nat BLOCK) = unat (ReservedBlocks e) * BLOCK"
    using assms(5) by (simp add: en_def BLOCK_def unat_word_ariths)
  then have room: "\<not> ReservedBlocks e * of_nat BLOCK < v" using assms(6) v by (simp add: word_less_nat_alt)
  have "Directory b ! slot = e" using findfile_updated[of filename "Directory b" 0 e slot v] assms(2) by (simp add: findfile_def)
  then show "write_b filename b = Some (say_line ''Complete'' (flush_dir
       ((say (''Writing local file '' @ [CHR 0x27] @ filename @ [CHR 0x27] @ '' to BMFS... '') b)
         \<lparr>disk := write_at (st e * BLOCK) content (disk b), Directory := (Directory b)[slot := e\<lparr>FileSize := v\<rparr>]\<rparr>)))"
    using assms(2,3,4) room v off by (simp add: write_b_def Let_def say_def v_def)
qed

text \<open>C20: What \<open>write\<close> stores in a file of the disk, \<open>read\<close> gets back after the disk was closed and opened again;
  bytes of the data area outside of the file do not change.\<close>

theorem write_read_roundtrip:
  assumes "dir_ok (Directory b)" "findfile filename (Directory b) = Some (Some (e, slot))" "c_name e = Some filename"
    "local_files b filename = Some content" "writable b filename" "length content < 2 ^ 31"
    "1 \<le> st e" "en e < 2 ^ 31" "length content \<le> unat (ReservedBlocks e) * BLOCK"
  shows "\<exists>b1 b2. write_b filename b = Some b1 \<and>
    read_b filename ((load_disk b1)\<lparr>local_files := old\<rparr>) = Some b2 \<and> local_files b2 filename = Some content \<and>
    (\<forall>i. 8192 \<le> i \<and> (i < st e * BLOCK \<or> st e * BLOCK + length content \<le> i) \<longrightarrow> byte_at (disk b1) i = byte_at (disk b) i)"
proof -
  let ?v = "of_nat (length content) :: 64 word"
  let ?off = "st e * BLOCK"
  let ?dir = "(Directory b)[slot := e\<lparr>FileSize := ?v\<rparr>]"
  note W = write_b_writes[OF assms(2,4,6,8,9)]
  note v = W(1) and off = W(2)
  have off_ge: "2097152 \<le> ?off" using assms(7) by (simp add: BLOCK_def)
  have slot: "slot < length (Directory b)" "Directory b ! slot = e" "findfile filename ?dir = Some (Some (e\<lparr>FileSize := ?v\<rparr>, slot))"
    using findfile_updated[of filename "Directory b" 0 e slot ?v] assms(2) by (simp_all add: findfile_def)
  have ok: "dir_ok ?dir" using assms(1) slot(1,2) unfolding dir_ok_def
    by (auto dest!: set_update_subset_insert[THEN subsetD] nth_mem)
  define b0 where "b0 = (say (''Writing local file '' @ [CHR 0x27] @ filename @ [CHR 0x27] @ '' to BMFS... '') b)
    \<lparr>disk := write_at ?off content (disk b), Directory := ?dir\<rparr>"
  note w = W(3)[folded b0_def]
  let ?b1 = "say_line ''Complete'' (flush_dir b0)"
  have len: "length (dir_bytes ?dir) = 4096" using ok dir_bytes_length by (simp add: dir_ok_def)
  have d1: "disk ?b1 = write_at 4096 (dir_bytes ?dir) (write_at ?off content (disk b))"
    by (simp add: say_line_def say_def flush_dir_def b0_def)
  have data: "copy_from ?off (length content) (disk ?b1) = content"
    unfolding d1 by (rule written_data) (use off_ge len in simp_all)
  have "Directory (load_disk (flush_dir b0)) = ?dir" using load_flushed[of b0] ok by (simp add: b0_def)
  then have dir: "Directory (load_disk ?b1) = ?dir" by (simp add: load_disk_def say_line_def say_def)
  have "\<exists>b2. read_b filename ((load_disk ?b1)\<lparr>local_files := old\<rparr>) = Some b2 \<and> local_files b2 filename = Some content"
  proof (rule read_b_reads)
    show "findfile filename (Directory ((load_disk ?b1)\<lparr>local_files := old\<rparr>)) = Some (Some (e\<lparr>FileSize := ?v\<rparr>, slot))"
      using dir slot(3) by simp
    show "c_name (e\<lparr>FileSize := ?v\<rparr>) = Some filename" using assms(3) by (simp add: c_name_def split: if_splits)
    show "writable ((load_disk ?b1)\<lparr>local_files := old\<rparr>) filename"
      using assms(5) by (simp add: load_disk_def say_line_def say_def flush_dir_def b0_def)
    show "unat (FileSize (e\<lparr>FileSize := ?v\<rparr>)) < 2 ^ 31" using v assms(6) by simp
    have "disk ((load_disk ?b1)\<lparr>local_files := old\<rparr>) = disk ?b1" by (simp add: load_disk_def)
    then show "copy_from (unat (StartingBlock (e\<lparr>FileSize := ?v\<rparr>) * of_nat BLOCK)) (unat (FileSize (e\<lparr>FileSize := ?v\<rparr>)))
        (disk ((load_disk ?b1)\<lparr>local_files := old\<rparr>)) = content" using data v off by simp
  qed
  moreover have "byte_at (disk ?b1) i = byte_at (disk b) i" if "8192 \<le> i" "i < ?off \<or> ?off + length content \<le> i" for i
    using that len by (auto simp: d1)
  ultimately show ?thesis using w by blast
qed

theorem write_read_roundtrip_witness:
  "\<forall>b. \<exists>b1 b2. write_b ''b'' (b\<lparr>Directory := ex_file # replicate 63 empty_entry, local_files := [''b'' \<mapsto> ''hi''],
       writable := \<lambda>_. True\<rparr>) = Some b1 \<and>
     read_b ''b'' ((load_disk b1)\<lparr>local_files := Map.empty\<rparr>) = Some b2 \<and> local_files b2 ''b'' = Some ''hi''"
proof
  fix b :: bmfs
  let ?b = "b\<lparr>Directory := ex_file # replicate 63 empty_entry, local_files := [''b'' \<mapsto> ''hi''], writable := \<lambda>_. True\<rparr>"
  have name: "c_name ex_file = Some ''b''" "\<not> is_end ex_file" "\<not> is_deleted ex_file" "length (FileName ex_file) = 32"
    by (simp_all add: ex_file_def c_name_def is_end_def is_deleted_def)
  have "\<exists>b1 b2. write_b ''b'' ?b = Some b1 \<and>
      read_b ''b'' ((load_disk b1)\<lparr>local_files := Map.empty\<rparr>) = Some b2 \<and> local_files b2 ''b'' = Some ''hi'' \<and>
      (\<forall>i. 8192 \<le> i \<and> (i < st ex_file * BLOCK \<or> st ex_file * BLOCK + length ''hi'' \<le> i) \<longrightarrow> byte_at (disk b1) i = byte_at (disk ?b) i)"
    by (rule write_read_roundtrip[where slot = 0])
       (simp_all add: dir_ok_def findfile_def name empty_name, simp_all add: ex_file_def st_def en_def BLOCK_def)
  then show "\<exists>b1 b2. write_b ''b'' ?b = Some b1 \<and>
     read_b ''b'' ((load_disk b1)\<lparr>local_files := Map.empty\<rparr>) = Some b2 \<and> local_files b2 ''b'' = Some ''hi''" by blast
qed

section \<open>Every command\<close>

text \<open>64 entries with names of 32 bytes, and the same bytes on the disk.\<close>

definition bmfs_wf :: "bmfs \<Rightarrow> bool" where
  "bmfs_wf b \<longleftrightarrow> dir_ok (Directory b) \<and> take 4096 (drop 4096 (disk b)) = dir_bytes (Directory b)"

lemma dir_ok_update: "dir_ok dir \<Longrightarrow> length (FileName e) = 32 \<Longrightarrow> dir_ok (dir[i := e])"
  by (auto simp: dir_ok_def dest!: set_update_subset_insert[THEN subsetD])

lemma dir_ok_nth: "dir_ok dir \<Longrightarrow> i < 64 \<Longrightarrow> length (FileName (dir ! i)) = 32"
  by (auto simp: dir_ok_def)

lemma wf_flush: "dir_ok (Directory b) \<Longrightarrow> bmfs_wf (flush_dir b)"
proof -
  assume ok: "dir_ok (Directory b)"
  then have "length (dir_bytes (Directory b)) = 4096" using dir_bytes_length by (simp add: dir_ok_def)
  then have "take 4096 (drop 4096 (write_at 4096 (dir_bytes (Directory b)) (disk b))) = dir_bytes (Directory b)"
    by (intro take_drop_eq) simp_all
  then show ?thesis using ok by (simp add: bmfs_wf_def flush_dir_def)
qed

lemma wf_say [simp]: "bmfs_wf (say str b) = bmfs_wf b" "bmfs_wf (say_line str b) = bmfs_wf b"
  by (simp_all add: bmfs_wf_def say_def say_line_def)

lemma say_fields [simp]: "Directory (say str b) = Directory b" "Directory (say_line str b) = Directory b"
  "disk (say str b) = disk b" "disk (say_line str b) = disk b" "local_files (say str b) = local_files b"
  by (simp_all add: say_def say_line_def)

lemma wf_format: "bmfs_wf (format b)"
proof -
  have "dir_ok (replicate 64 empty_entry)" by (simp add: dir_ok_def empty_name)
  from wf_flush[of "b\<lparr>Directory := replicate 64 empty_entry, DiskInfo := fs_tag @ replicate 508 NUL,
      disk := write_at 1024 (fs_tag @ replicate 508 NUL) (disk b)\<rparr>"] this
  have "bmfs_wf (b\<lparr>DiskInfo := fs_tag @ replicate 508 NUL, Directory := replicate 64 empty_entry,
      disk := write_at 4096 (dir_bytes (replicate 64 empty_entry)) (write_at 1024 (fs_tag @ replicate 508 NUL) (disk b))\<rparr>)"
    by (simp add: bmfs_wf_def flush_dir_def)
  then show ?thesis by (simp only: format_def Let_def wf_say)
qed

lemma scan_dir_range:
  "scan_dir es t ff = (n, first) \<Longrightarrow> 0 \<le> t \<Longrightarrow> - 1 \<le> ff \<Longrightarrow> ff < t \<Longrightarrow>
   0 \<le> n \<and> - 1 \<le> first \<and> first < t + int (length es)"
proof (induction es arbitrary: t ff)
  case Nil
  then show ?case by simp
next
  case (Cons e es)
  from Cons.prems show ?case
    by (auto split: if_splits dest!: Cons.IH[of "t + 1"])
qed

lemma set_name_length: "set_name filename e = Some e' \<Longrightarrow> length (FileName e) = 32 \<Longrightarrow> length (FileName e') = 32"
  by (auto simp: set_name_def split: if_splits)

lemma mark_end_length: "length (FileName e) = 32 \<Longrightarrow> length (FileName (mark_end e)) = 32"
  by (simp add: mark_end_def)

lemma new_entry_wf:
  assumes "dir_ok dir" "set_name filename ((dir ! i)\<lparr>StartingBlock := x, ReservedBlocks := y, FileSize := z\<rparr>) = Some e" "i < 64"
  shows "bmfs_wf (flush_dir (c\<lparr>Directory := dir[i := e]\<rparr>))"
    "k < 64 \<Longrightarrow> bmfs_wf (flush_dir (c\<lparr>Directory := dir[i := e, k := mark_end (dir ! k)]\<rparr>))"
proof -
  have "length (FileName e) = 32" using set_name_length[OF assms(2)] dir_ok_nth[OF assms(1,3)] by simp
  then have d: "dir_ok (dir[i := e])" by (rule dir_ok_update[OF assms(1)])
  then show "bmfs_wf (flush_dir (c\<lparr>Directory := dir[i := e]\<rparr>))" by (intro wf_flush) simp
  assume "k < 64"
  then have "dir_ok (dir[i := e, k := mark_end (dir ! k)])"
    by (intro dir_ok_update[OF d] mark_end_length dir_ok_nth[OF assms(1)])
  then show "bmfs_wf (flush_dir (c\<lparr>Directory := dir[i := e, k := mark_end (dir ! k)]\<rparr>))"
    by (intro wf_flush) simp
qed

lemma create_wf:
  assumes "create filename maxsize b = Some b'" "bmfs_wf b"
  shows "bmfs_wf b'"
proof -
  have ok: "dir_ok (Directory b)" using assms(2) by (simp add: bmfs_wf_def)
  obtain n first where s: "scan_dir (Directory b) 0 (- 1) = (n, first)" by (cases "scan_dir (Directory b) 0 (- 1)")
  have r: "0 \<le> n" "- 1 \<le> first" "first < 64" using scan_dir_range[OF s] ok by (auto simp: dir_ok_def)
  then have "nat first < 64" "n < 63 \<Longrightarrow> nat (n + 1) < 64" by simp_all
  then show ?thesis using assms s r
    by (auto simp: create_def Let_def bind_eq_Some_conv split: if_splits intro: new_entry_wf[OF ok])
qed

lemma found_entry:
  assumes "dir_ok (Directory b)" "findfile filename (Directory b) = Some (Some (e, slot))"
  shows "length (FileName (Directory b ! slot)) = 32"
  using findfile_updated[of filename "Directory b" 0 e slot 0] assms(2) dir_ok_nth[OF assms(1), of slot] assms(1)
  by (simp add: findfile_def dir_ok_def)

lemma entry_changed_wf:
  assumes "dir_ok (Directory b)" "length (FileName e) = 32" "Directory c = (Directory b)[slot := e]"
  shows "bmfs_wf (flush_dir c)"
  by (rule wf_flush) (simp add: assms(3) dir_ok_update[OF assms(1,2)])

lemma write_wf:
  assumes "write_b filename b = Some b'" "bmfs_wf b"
  shows "bmfs_wf b'"
proof -
  have ok: "dir_ok (Directory b)" using assms(2) by (simp add: bmfs_wf_def)
  obtain found where f: "findfile filename (Directory b) = Some found"
    using assms(1) by (auto simp: write_b_def bind_eq_Some_conv)
  show ?thesis
  proof (cases found)
    case None
    then show ?thesis using assms f by (auto simp: write_b_def)
  next
    case (Some es)
    obtain e slot where es: "es = (e, slot)" by (cases es)
    note f' = f[unfolded Some es]
    note wf = entry_changed_wf[OF ok, of "(Directory b ! slot)\<lparr>FileSize := v\<rparr>" for v, simplified, OF found_entry[OF ok f']]
    show ?thesis
    proof (cases "local_files b filename")
      case None
      then show ?thesis using assms f' by (auto simp: write_b_def bind_eq_Some_conv)
    next
      case content: (Some content)
      show ?thesis using assms f' content wf[of _ slot "of_nat (length content)"]
        by (auto simp: write_b_def Let_def split: if_splits)
    qed
  qed
qed

lemma delete_wf:
  assumes "delete filename b = Some b'" "bmfs_wf b"
  shows "bmfs_wf b'"
proof -
  have ok: "dir_ok (Directory b)" using assms(2) by (simp add: bmfs_wf_def)
  obtain found where f: "findfile filename (Directory b) = Some found"
    using assms(1) by (auto simp: delete_def bind_eq_Some_conv)
  show ?thesis
  proof (cases found)
    case None
    then show ?thesis using assms f by (auto simp: delete_def)
  next
    case (Some es)
    obtain e slot where es: "es = (e, slot)" by (cases es)
    note f' = f[unfolded Some es]
    let ?e = "(Directory b ! slot)\<lparr>FileName := CHR 0x01 # drop 1 (FileName (Directory b ! slot))\<rparr>"
    have "length (FileName ?e) = 32" using found_entry[OF ok f'] by simp
    from entry_changed_wf[OF ok this] show ?thesis using assms(1) f' by (auto simp: delete_def Let_def)
  qed
qed

lemma read_wf: "read_b filename b = Some b' \<Longrightarrow> bmfs_wf b \<Longrightarrow> bmfs_wf b'"
  by (auto simp: read_b_def Let_def bind_eq_Some_conv bmfs_wf_def split: if_splits option.splits)

lemma list_wf: "list_b diskname b = Some b' \<Longrightarrow> bmfs_wf b \<Longrightarrow> bmfs_wf b'"
  by (auto simp: list_b_def bind_eq_Some_conv)

text \<open>C22: Every command on a formatted disk keeps the directory well-formed, 64 entries with names of 32 bytes, and the
  disk in step with it: the directory on the disk is the one in memory, so the next run loads the same directory.\<close>

theorem commands_keep_directory:
  assumes "run_command argv b = Some b'" "bmfs_wf b"
  shows "bmfs_wf b' \<and> Directory (load_disk b') = Directory b'"
proof -
  have create: "bmfs_wf c" if "create_command argv b = Some c" for c
    using that assms(2) create_wf
    by (auto simp: create_command_def Let_def bind_eq_Some_conv bmfs_wf_def split: option.splits if_splits prod.splits)
  have wf: "bmfs_wf b'"
    using assms create wf_format[of b] write_wf delete_wf read_wf list_wf
    by (auto simp: run_command_def Let_def split: if_splits option.splits)
  then have ok: "dir_ok (Directory b')" and d: "take 4096 (drop 4096 (disk b')) = dir_bytes (Directory b')"
    by (simp_all add: bmfs_wf_def)
  have "length (dir_bytes (Directory b')) = 4096" using ok dir_bytes_length by (simp add: dir_ok_def)
  then show ?thesis using wf dir_roundtrip[OF ok] d by (simp add: load_disk_def read_into_def)
qed

theorem commands_keep_directory_witness:
  "\<forall>b. \<exists>b'. run_command [''bmfs'', ''disk'', ''delete'', ''x''] (format b) = Some b' \<and>
     Directory (load_disk b') = Directory b'"
proof
  fix b :: bmfs
  have dir: "Directory (format b) = replicate 64 empty_entry" by (simp add: format_def Let_def)
  have "is_end empty_entry" by (simp add: is_end_def empty_entry_def)
  then have "findfile ''x'' (Directory (format b)) = Some None" unfolding dir by (simp add: findfile_def numeral_eq_Suc)
  then have "\<exists>b'. run_command [''bmfs'', ''disk'', ''delete'', ''x''] (format b) = Some b'"
    by (simp add: run_command_def same_word_def to_lower_def arg_at_def delete_def)
  then show "\<exists>b'. run_command [''bmfs'', ''disk'', ''delete'', ''x''] (format b) = Some b' \<and>
      Directory (load_disk b') = Directory b'"
    using commands_keep_directory[OF _ wf_format[of b]] by blast
qed

end
