(* ===== verification/LibcProps.thy ===== *)
theory LibcProps
  imports Stdio LibCorrect
begin

text \<open>The C library of the user programs: numbers it prints are read back.\<close>

lemma cdiv_nat: "0 < b \<Longrightarrow> cdiv (int a) (int b) = int (a div b)"
  by (cases "a = 0") (simp_all add: cdiv_def zdiv_int)

lemma cmod_nat: "0 < b \<Longrightarrow> cmod (int a) (int b) = int (a mod b)"
  by (simp add: cmod_def cdiv_nat zmod_int minus_div_mult_eq_mod zdiv_int)

lemma remainder_char_digit: "d < 36 \<Longrightarrow> remainder_char (int d) = digit_char d"
  by (simp add: remainder_char_def digit_char_def nat_add_distrib)

lemma itoa_loop_digits:
  "v < 10 ^ n \<Longrightarrow> 0 < n \<Longrightarrow> itoa_loop n (int v) p 10 (int d) m =
     (case digits_loop v p 10 d m of (p, d, m) \<Rightarrow> Some (p, int d, m))"
proof (induction n arbitrary: v p d m)
  case 0
  then show ?case by simp
next
  case (Suc n)
  have q: "cdiv (int v) 10 = int (v div 10)" "cmod (int v) 10 = int (v mod 10)"
    using cdiv_nat[of 10 v] cmod_nat[of 10 v] by simp_all
  have c: "remainder_char (int (v mod 10)) = digit_char (v mod 10)" by (rule remainder_char_digit) simp
  show ?case
  proof (cases "v div 10 = 0")
    case True
    then have "v < 10" by (simp add: div_eq_0_iff)
    then have "remainder_char (int v) = digit_char v" by (intro remainder_char_digit) simp
    then show ?thesis using True \<open>v < 10\<close> by (subst digits_loop.simps) (simp add: q Let_def)
  next
    case False
    have lt: "v div 10 < 10 ^ n" using Suc.prems(1) by (simp add: less_mult_imp_div_less mult.commute)
    then have "0 < n" using False by (cases n) auto
    let ?m = "m(p := digit_char (v mod 10))"
    have "itoa_loop (Suc n) (int v) p 10 (int d) m = itoa_loop n (int (v div 10)) (p + 1) 10 (int (d + 1)) ?m"
      using False by (simp add: q c Let_def add.commute)
    also have "\<dots> = (case digits_loop (v div 10) (p + 1) 10 (d + 1) ?m of (p, d, m) \<Rightarrow> Some (p, int d, m))"
      by (rule Suc.IH[OF lt \<open>0 < n\<close>])
    also have "digits_loop (v div 10) (p + 1) 10 (d + 1) ?m = digits_loop v p 10 d m"
      using False by (subst (2) digits_loop.simps) (simp add: Let_def)
    finally show ?thesis .
  qed
qed

lemma digit_char_not_minus: "d < 10 \<Longrightarrow> digit_char d \<noteq> CHR ''-''"
proof
  assume d: "d < 10" "digit_char d = CHR ''-''"
  have "(of_char (digit_char d) :: nat) = d + 48" using d(1) by (simp add: digit_char_def take_bit_eq_mod)
  then show False by (simp add: d(2))
qed

lemma digits_loop_first:
  assumes "digits_loop v p 10 d m = (p', d', m')"
  shows "m' p \<noteq> CHR ''-''" "\<And>a. a < p \<Longrightarrow> m' a = m a"
proof -
  have e: "m' = (\<lambda>a. if p \<le> a \<and> a < p + length (digits_of 10 v) then digit_char (digits_of 10 v ! (a - p)) else m a)"
    using assms by (auto simp: digits_loop_eq Let_def)
  have "digits_of 10 v ! 0 < 10" by (rule digits_of_less[of 10 _ v]) simp_all
  then have "m' p = digit_char (digits_of 10 v ! 0)" "digit_char (digits_of 10 v ! 0) \<noteq> CHR ''-''"
    by (simp_all add: e digit_char_not_minus)
  then show "m' p \<noteq> CHR ''-''" by simp
  show "\<And>a. a < p \<Longrightarrow> m' a = m a" by (simp add: e)
qed

lemma itoa_nonneg:
  assumes "v < 2 ^ 31" "uintToBase v buffer 10 m = Some (n, m')"
  shows "itoa_u (int v) buffer 10 m = Some (int n, m')"
proof -
  obtain p d m1 where l: "digits_loop v buffer 10 0 m = (p, d, m1)" by (cases "digits_loop v buffer 10 0 m")
  have "(v :: nat) < 10 ^ ITOA_FUEL" using assms(1) by (rule order_less_trans) (simp add: ITOA_FUEL_def)
  then have "itoa_loop ITOA_FUEL (int v) buffer 10 (int 0) m = Some (p, int d, m1)"
    using itoa_loop_digits[of v ITOA_FUEL buffer 0 m] l by (simp add: ITOA_FUEL_def)
  moreover have "m' = reverse_loop buffer (p - 1) (m1(p := NUL))" "n = d" "buffer < p"
    using assms(2) l by (auto simp: uintToBase_def digits_loop_eq Let_def)
  ultimately show ?thesis using digits_loop_first(1)[OF l] by (simp add: itoa_u_def reverse_number_def Let_def)
qed

lemma itoa_neg:
  assumes "0 < v" "v < 2 ^ 31" "uintToBase v (buffer + 1) 10 (m(buffer := CHR ''-'')) = Some (n, m')"
  shows "itoa_u (- int v) buffer 10 m = Some (int n + 1, m')"
proof -
  let ?m = "m(buffer := CHR ''-'')"
  obtain p d m1 where l: "digits_loop v (buffer + 1) 10 1 ?m = (p, d, m1)" by (cases "digits_loop v (buffer + 1) 10 1 ?m")
  have "(v :: nat) < 10 ^ ITOA_FUEL" using assms(2) by (rule order_less_trans) (simp add: ITOA_FUEL_def)
  then have "itoa_loop ITOA_FUEL (int v) (buffer + 1) 10 (int 1) ?m = Some (p, int d, m1)"
    using itoa_loop_digits[of v ITOA_FUEL "buffer + 1" 1 ?m] l by (simp add: ITOA_FUEL_def)
  moreover have "m' = reverse_loop (buffer + 1) (p - 1) (m1(p := NUL))" "int n + 1 = int d" "buffer + 1 < p"
    using assms(3) l by (auto simp: uintToBase_def digits_loop_eq Let_def)
  moreover have "m1 buffer = CHR ''-''" using digits_loop_first(2)[OF l, of buffer] by simp
  moreover have "- int v \<noteq> INT_MIN" using assms(2) by (simp add: INT_MIN_def)
  ultimately show ?thesis using assms(1) by (simp add: itoa_u_def reverse_number_def Let_def)
qed

section \<open>Reading\<close>

definition dec_value :: "int \<Rightarrow> nat list \<Rightarrow> int" where
  "dec_value v ds = foldl (\<lambda>v d. v * 10 + int d) v ds"

lemma dec_value_ge: "0 \<le> v \<Longrightarrow> v \<le> dec_value v ds"
proof (induction ds arbitrary: v)
  case Nil
  then show ?case by (simp add: dec_value_def)
next
  case (Cons d ds)
  have "v \<le> v * 10 + int d" using Cons.prems by simp
  also have "\<dots> \<le> dec_value (v * 10 + int d) ds" using Cons.prems by (intro Cons.IH) simp
  finally show ?case by (simp add: dec_value_def)
qed

lemma of_char_int: "(of_char (char_of (n :: nat) :: char) :: int) = int (n mod 256)"
  by (metis of_char_of of_nat_of_char)

lemma digit_char_dec: "d < 10 \<Longrightarrow> isDigit (digit_char d) \<and> schar (digit_char d) = int d + 48"
  by (simp add: isDigit_def schar_def digit_char_def Let_def of_char_int)

lemma parseInt_loop_digits:
  "str_at m p (map digit_char ds) \<Longrightarrow> \<forall>d \<in> set ds. d < 10 \<Longrightarrow> 0 \<le> v \<Longrightarrow> dec_value v ds \<le> INT_MAX \<Longrightarrow>
   parseInt_loop m p v n = Some (dec_value v ds, n + int (length ds))"
proof (induction ds arbitrary: p v n)
  case Nil
  then show ?case by (subst parseInt_loop.simps) (simp add: dec_value_def isDigit_def schar_def)
next
  case (Cons d ds)
  have d: "isDigit (m p)" "schar (m p) = int d + 48"
    using Cons.prems(1,2) digit_char_dec[of d] by simp_all
  have "v * 10 + int d \<le> dec_value (v * 10 + int d) ds" using Cons.prems(3) by (intro dec_value_ge) simp
  then have le: "v * 10 + int d \<le> INT_MAX" using Cons.prems(4) by (simp add: dec_value_def)
  have "parseInt_loop m (p + 1) (v * 10 + int d) (n + 1) = Some (dec_value (v * 10 + int d) ds, n + 1 + int (length ds))"
    using Cons.prems by (intro Cons.IH) (simp_all add: dec_value_def)
  then show ?case using d le by (subst parseInt_loop.simps) (simp add: dec_value_def)
qed

lemma dec_value_digits: "dec_value 0 (rev (digits_of 10 v)) = int v"
proof -
  have "dec_value 0 (rev ds) = int (foldr (\<lambda>d acc. acc * 10 + d) ds 0)" for ds
    by (induction ds) (simp_all add: dec_value_def)
  then show ?thesis by (simp add: digits_of_value)
qed

lemma parse_printed:
  assumes "v < 2 ^ 31"
  shows "\<exists>m'. uintToBase v p 10 m = Some (length (digits_of 10 v), m') \<and>
    str_at m' p (map digit_char (rev (digits_of 10 v))) \<and>
    (\<forall>a. a < p \<or> p + length (digits_of 10 v) < a \<longrightarrow> m' a = m a) \<and>
    (\<forall>n. parseInt_loop m' p 0 n = Some (int v, n + int (length (digits_of 10 v))))"
proof -
  let ?ds = "rev (digits_of 10 v)"
  obtain m' where u: "uintToBase v p 10 m = Some (length (digits_of 10 v), m')" "str_at m' p (map digit_char ?ds)"
    "\<And>a. a < p \<or> p + length (digits_of 10 v) < a \<Longrightarrow> m' a = m a"
    using uintToBase_eq[of 10 "map digit_char ?ds" v p m] by auto
  have less: "\<forall>d \<in> set ?ds. d < 10" using digits_of_less[of 10 _ v] by simp
  have "parseInt_loop m' p 0 n = Some (int v, n + int (length (digits_of 10 v)))" for n
    using parseInt_loop_digits[OF u(2) less, of 0 n] assms by (simp add: dec_value_digits INT_MAX_def)
  then show ?thesis using u by blast
qed

text \<open>The decimal text of a number.\<close>

definition decimal :: "int \<Rightarrow> string" where
  "decimal v = (if v < 0 then CHR ''-'' # map digit_char (rev (digits_of 10 (nat (- v))))
     else map digit_char (rev (digits_of 10 (nat v))))"

lemma itoa_decimal:
  assumes "INT_MIN < v" "v \<le> INT_MAX"
  shows "\<exists>m'. itoa_u v buffer 10 m = Some (int (length (decimal v)), m') \<and> str_at m' buffer (decimal v) \<and> length (decimal v) \<le> 11 \<and>
    parseInt_u m' buffer = Some (v, int (length (decimal v))) \<and>
    (\<forall>a. a < buffer \<or> buffer + length (decimal v) < a \<longrightarrow> m' a = m a)"
proof (cases "0 \<le> v")
  case True
  then obtain n where n: "v = int n" by (cases v) auto
  have lt: "n < 2 ^ 31" using assms(2) by (simp add: n INT_MAX_def)
  let ?s = "map digit_char (rev (digits_of 10 n))"
  obtain m' where m': "uintToBase n buffer 10 m = Some (length (digits_of 10 n), m')" "str_at m' buffer ?s"
    "\<forall>a. a < buffer \<or> buffer + length (digits_of 10 n) < a \<longrightarrow> m' a = m a"
    "\<forall>k. parseInt_loop m' buffer 0 k = Some (int n, k + int (length (digits_of 10 n)))"
    using parse_printed[OF lt, of buffer m] by (elim exE conjE)
  have len: "length (digits_of 10 n) \<le> 10" using lt by (intro digits_of_length) simp_all
  have "last (digits_of 10 n) < 10" by (rule digits_of_less[of 10 _ n]) simp_all
  moreover obtain d ds where ds: "rev (digits_of 10 n) = d # ds" by (cases "rev (digits_of 10 n)") simp_all
  ultimately have "d < 10" by (metis hd_rev list.sel(1))
  then have "m' buffer \<noteq> CHR ''-''" using m'(2) ds by (auto simp: digit_char_not_minus)
  then have "parseInt_u m' buffer = Some (v, int (length ?s))" using m'(4) by (simp add: parseInt_u_def n)
  moreover have "decimal v = ?s" by (simp add: decimal_def n)
  ultimately show ?thesis using itoa_nonneg[OF lt m'(1)] m'(2,3) len n by (intro exI[of _ m']) simp
next
  case False
  then obtain n where n: "v = - int n" "0 < n" using that[of "nat (- v)"] by simp
  have lt: "n < 2 ^ 31" using assms(1) by (simp add: n INT_MIN_def)
  let ?m = "m(buffer := CHR ''-'')" and ?s = "CHR ''-'' # map digit_char (rev (digits_of 10 n))"
  obtain m' where m': "uintToBase n (buffer + 1) 10 ?m = Some (length (digits_of 10 n), m')"
    "str_at m' (buffer + 1) (map digit_char (rev (digits_of 10 n)))"
    "\<forall>a. a < buffer + 1 \<or> buffer + 1 + length (digits_of 10 n) < a \<longrightarrow> m' a = ?m a"
    "\<forall>k. parseInt_loop m' (buffer + 1) 0 k = Some (int n, k + int (length (digits_of 10 n)))"
    using parse_printed[OF lt, of "buffer + 1" ?m] by (elim exE conjE)
  have len: "length (digits_of 10 n) \<le> 10" using lt by (intro digits_of_length) simp_all
  have minus: "m' buffer = CHR ''-''" using m'(3) by simp
  have digit: "isDigit (m' (buffer + 1))" 
  proof (rule ccontr)
    assume "\<not> isDigit (m' (buffer + 1))"
    then have "parseInt_loop m' (buffer + 1) 0 0 = Some (0, 0)" by (subst parseInt_loop.simps) simp
    then show False using m'(4)[rule_format, of 0] n(2) by simp
  qed
  have "parseInt_u m' buffer = Some (v, int (length ?s))"
    using minus digit m'(4) by (simp add: parseInt_u_def n(1))
  moreover have "itoa_u v buffer 10 m = Some (int (length ?s), m')"
    using itoa_neg[OF n(2) lt m'(1)] by (simp add: n(1) add.commute)
  moreover have "str_at m' buffer ?s" using minus m'(2) by simp
  moreover have "\<forall>a. a < buffer \<or> buffer + length ?s < a \<longrightarrow> m' a = m a" using m'(3) by simp
  moreover have "decimal v = ?s" using n by (simp add: decimal_def)
  ultimately show ?thesis using len by (intro exI[of _ m']) simp
qed

text \<open>C29: \<open>parseInt\<close> reads back every \<open>int\<close> that \<open>itoa\<close> prints in base 10, except the smallest one, whose negation \<open>itoa\<close>
  computes: the same value from the same number of characters.  The text has at most 11 characters and \<open>itoa\<close> writes
  nothing outside of it and its NUL.\<close>

theorem itoa_parseInt_roundtrip:
  assumes "INT_MIN < v" "v \<le> INT_MAX"
  shows "\<exists>s m'. itoa_u v buffer 10 m = Some (int (length s), m') \<and> str_at m' buffer s \<and> length s \<le> 11 \<and>
    parseInt_u m' buffer = Some (v, int (length s)) \<and>
    (\<forall>a. a < buffer \<or> buffer + length s < a \<longrightarrow> m' a = m a)"
  using itoa_decimal[OF assms] by blast

theorem itoa_parseInt_roundtrip_witness:
  "\<exists>(s :: string) m'. itoa_u (- 2018) 100 10 (\<lambda>_. NUL) = Some (int (length s), m') \<and> parseInt_u m' 100 = Some (- 2018, int (length s))"
proof -
  have "INT_MIN < - 2018" "- 2018 \<le> INT_MAX" by (simp_all add: INT_MIN_def INT_MAX_def)
  from itoa_parseInt_roundtrip[OF this, of 100 "\<lambda>_. NUL"] show ?thesis by blast
qed

end
