(* ===== verification/TermProps.thy ===== *)
theory TermProps
  imports Terminal
begin

text \<open>
  The loops of the terminal end, and no operation on the screen leaves it: total correctness, by measures on the
  distance to the ends of the screen.
\<close>

section \<open>Total correctness\<close>

definition ends :: "('s \<Rightarrow> bool) \<Rightarrow> ('s, 'a) K \<Rightarrow> ('a \<Rightarrow> 's \<Rightarrow> bool) \<Rightarrow> bool" where
  "ends P m Q \<longleftrightarrow> (\<forall>s. P s \<longrightarrow> (\<exists>a s'. m s = Done a s' \<and> Q a s'))"

lemma endsI: "(\<And>s. P s \<Longrightarrow> \<exists>a s'. m s = Done a s' \<and> Q a s') \<Longrightarrow> ends P m Q"
  by (simp add: ends_def)

lemma endsD: "ends P m Q \<Longrightarrow> P s \<Longrightarrow> \<exists>a s'. m s = Done a s' \<and> Q a s'"
  by (simp add: ends_def)

lemma ends_bind: "ends P m Q \<Longrightarrow> (\<And>a. ends (Q a) (f a) R) \<Longrightarrow> ends P (kbind m f) R"
proof (rule endsI)
  fix s assume a: "ends P m Q" "\<And>a. ends (Q a) (f a) R" "P s"
  then obtain x s' where "m s = Done x s'" "Q x s'" using endsD by metis
  moreover from this obtain y s'' where "f x s' = Done y s''" "R y s''" using a(2) endsD by metis
  ultimately show "\<exists>a s'. kbind m f s = Done a s' \<and> R a s'" by simp
qed

lemma ends_weaken: "ends P m Q \<Longrightarrow> (\<And>s. P' s \<Longrightarrow> P s) \<Longrightarrow> (\<And>a s. Q a s \<Longrightarrow> Q' a s) \<Longrightarrow> ends P' m Q'"
  unfolding ends_def by meson

lemma ends_with: "(\<And>t. P t \<Longrightarrow> ends (\<lambda>s. s = t \<and> P s) (f t) Q) \<Longrightarrow> ends P (kwith f) Q"
  by (simp add: ends_def)

lemma ends_mod: "(\<And>s. P s \<Longrightarrow> Q () (g s)) \<Longrightarrow> ends P (kmod g) Q"
  by (simp add: ends_def)

lemma ends_ret: "(\<And>s. P s \<Longrightarrow> Q a s) \<Longrightarrow> ends P (kret a) Q"
  by (simp add: ends_def)

lemma ends_skip: "(\<And>s. P s \<Longrightarrow> Q () s) \<Longrightarrow> ends P kskip Q"
  by (simp add: ends_def)

lemma ends_if: "(b \<Longrightarrow> ends P m Q) \<Longrightarrow> (\<not> b \<Longrightarrow> ends P n Q) \<Longrightarrow> ends P (if b then m else n) Q"
  by simp

lemma ends_pure: "(b \<Longrightarrow> ends P m Q) \<Longrightarrow> ends (\<lambda>s. b \<and> P s) m Q"
  by (simp add: ends_def)

text \<open>Statement lists that keep an invariant.\<close>

lemma ends_kdo: "\<forall>m \<in> set ms. ends I m (\<lambda>_. I) \<Longrightarrow> ends I (kdo ms) (\<lambda>_. I)"
proof (induction ms)
  case Nil
  then show ?case by (simp add: ends_def)
next
  case (Cons m ms)
  then show ?case unfolding kdo.simps by (intro ends_bind[of I m "\<lambda>_. I"]) auto
qed

section \<open>The screen\<close>

definition term_ok :: "term_state \<Rightarrow> bool" where
  "term_ok t \<longleftrightarrow> uint (cursorX t) < WIDTH \<and> uint (cursorY t) < HEIGHT \<and>
     uint (videoCursorX t) < WIDTH \<and> uint (videoCursorY t) < HEIGHT"

definition cursor_pos :: "term_state \<Rightarrow> int" where
  "cursor_pos t = cell_ix (uint (cursorY t)) (uint (cursorX t))"

abbreviation total :: "unit T \<Rightarrow> bool" where "total m \<equiv> ends term_ok m (\<lambda>_. term_ok)"

lemma cursor_pos_nonneg: "0 \<le> cursor_pos t"
  by (simp add: cursor_pos_def cell_ix_def WIDTH_def)

lemma W: "WIDTH = 80" "HEIGHT = 25" by (simp_all add: WIDTH_def HEIGHT_def)

lemma cell_in: "0 \<le> x \<Longrightarrow> x < WIDTH \<Longrightarrow> 0 \<le> y \<Longrightarrow> y < HEIGHT \<Longrightarrow> in_range (cell_ix y x) (WIDTH * HEIGHT)"
  by (simp add: in_range_def cell_ix_def W)

lemma ends_cell:
  "0 \<le> x \<Longrightarrow> x < WIDTH \<Longrightarrow> 0 \<le> y \<Longrightarrow> y < HEIGHT \<Longrightarrow> (\<And>t. P t \<Longrightarrow> ends (\<lambda>s. s = t \<and> P s) (f (video t (cell_ix y x))) Q) \<Longrightarrow>
   ends P (with_cell y x f) Q"
  unfolding with_cell_def by (rule ends_with) (simp add: cell_in)

text \<open>Writing to cells does not move the cursor.\<close>

definition same_cursor :: "term_state \<Rightarrow> term_state \<Rightarrow> bool" where
  "same_cursor t t' \<longleftrightarrow> cursorX t' = cursorX t \<and> cursorY t' = cursorY t \<and> videoCursorX t' = videoCursorX t \<and>
     videoCursorY t' = videoCursorY t"

lemma same_cursor_ok: "same_cursor t t' \<Longrightarrow> term_ok t' = term_ok t"
  by (simp add: same_cursor_def term_ok_def)

lemma same_cursor_pos: "same_cursor t t' \<Longrightarrow> cursor_pos t' = cursor_pos t"
  by (simp add: same_cursor_def cursor_pos_def)

definition cells_only :: "(term_state \<Rightarrow> bool) \<Rightarrow> bool" where
  "cells_only I \<longleftrightarrow> (\<forall>t t'. same_cursor t t' \<longrightarrow> I t \<longrightarrow> I t')"

lemma cells_only_ok: "cells_only term_ok"
  by (simp add: cells_only_def same_cursor_ok)

lemma cells_onlyD: "cells_only I \<Longrightarrow> same_cursor t t' \<Longrightarrow> I t \<Longrightarrow> I t'"
  by (auto simp: cells_only_def)

lemma upd_cell_ends:
  assumes "cells_only I" "0 \<le> x" "x < WIDTH" "0 \<le> y" "y < HEIGHT"
  shows "ends I (upd_cell y x g) (\<lambda>_. I)"
proof (rule endsI)
  fix t assume "I t"
  let ?t = "t\<lparr>video := (video t)(cell_ix y x := g (video t (cell_ix y x)))\<rparr>"
  have "upd_cell y x g t = Done () ?t" using cell_in[OF assms(2-5)] by (simp add: upd_cell_def with_cell_def)
  moreover have "I ?t" by (rule cells_onlyD[OF assms(1) _ \<open>I t\<close>]) (simp add: same_cursor_def)
  ultimately show "\<exists>a s'. upd_cell y x g t = Done a s' \<and> I s'" by blast
qed

lemma shiftScreen_ends: "cells_only I \<Longrightarrow> ends I shiftScreen (\<lambda>_. I)"
  unfolding shiftScreen_def by (rule ends_mod) (erule cells_onlyD, simp_all add: same_cursor_def)

lemma at_cursor_total: "total (at_cursor g)"
  unfolding at_cursor_def
proof (rule ends_with)
  fix t assume "term_ok t"
  then have "total (upd_cell (uint (cursorY t)) (uint (cursorX t)) g)"
    by (intro upd_cell_ends cells_only_ok) (simp_all add: term_ok_def)
  then show "ends (\<lambda>s. s = t \<and> term_ok s) (upd_cell (uint (cursorY t)) (uint (cursorX t)) g) (\<lambda>_. term_ok)"
    by (rule ends_weaken) simp_all
qed

lemma writeAtCursor_total: "total (writeAtCursor c st)"
  unfolding writeAtCursor_def
proof (rule ends_with)
  fix t assume "term_ok t"
  then have "total (upd_cell (uint (videoCursorY t)) (uint (videoCursorX t)) g)" for g
    by (intro upd_cell_ends cells_only_ok) (simp_all add: term_ok_def)
  then show "ends (\<lambda>s. s = t \<and> term_ok s)
      (upd_cell (uint (videoCursorY t)) (uint (videoCursorX t)) (\<lambda>_. \<lparr>cell_ch = shown c, cell_style = st\<rparr>)) (\<lambda>_. term_ok)"
    by (rule ends_weaken) simp_all
qed

lemma toggleCursors_total: "total toggleCursors"
  unfolding toggleCursors_def by (rule ends_with) (auto intro: ends_weaken[OF at_cursor_total] ends_skip)

lemma updateCursor_total: "total (kwith (\<lambda>t. updateCursor (cursorX t) (cursorY t)))"
  by (simp add: ends_def updateCursor_def term_ok_def)

lemma incr_u8: "uint (x :: u8) < 255 \<Longrightarrow> uint (x + 1) = uint x + 1"
  by (simp add: uint_word_ariths)

lemma decr_u8: "(x :: u8) \<noteq> 0 \<Longrightarrow> uint (x - 1) = uint x - 1"
proof -
  assume "x \<noteq> 0"
  then have "uint x \<noteq> 0" by (simp add: uint_0_iff)
  then have "1 \<le> uint x" using uint_ge_0[of x] by linarith
  moreover have "uint x < 2 ^ 8" using uint_lt2p[of x] by simp
  ultimately show ?thesis by (simp add: uint_word_ariths)
qed

section \<open>Cursor movement\<close>

lemma cursor_moved:
  assumes "term_ok t" "x < WIDTH" "0 \<le> x" "y < HEIGHT" "0 \<le> y"
  shows "term_ok (t\<lparr>cursorX := word_of_int x, cursorY := word_of_int y\<rparr>)"
  using assms by (simp add: term_ok_def W uint_word_of_int)

text \<open>One step of the cursor through the screen: over the end of a row, and over the last row by scrolling.\<close>

definition step_cursor :: "unit T" where
  "step_cursor = kwith (\<lambda>t. if uint (cursorX t) = WIDTH - 1 then
       kdo [
         kmod (\<lambda>t. t\<lparr>cursorX := 0\<rparr>),
         if uint (cursorY t) = HEIGHT - 1 then shiftScreen
         else kmod (\<lambda>t. t\<lparr>cursorY := cursorY t + 1\<rparr>)]
     else kmod (\<lambda>t. t\<lparr>cursorX := cursorX t + 1\<rparr>))"

lemma step_cursor_app:
  assumes "term_ok t"
  shows "\<exists>t'. step_cursor t = Done () t' \<and> term_ok t' \<and>
    (if cursor_pos t = WIDTH * HEIGHT - 1 then cursorX t' = 0 \<and> uint (cursorY t') = HEIGHT - 1 \<and>
       (\<forall>i. WIDTH * (HEIGHT - 1) \<le> i \<and> i < WIDTH * HEIGHT \<longrightarrow> cell_ch (video t' i) = NUL)
     else cursor_pos t' = cursor_pos t + 1)"
proof -
  have ok: "uint (cursorX t) < 80" "uint (cursorY t) < 25" using assms by (simp_all add: term_ok_def W)
  show ?thesis
  proof (cases "uint (cursorX t) = WIDTH - 1")
    case True
    show ?thesis
    proof (cases "uint (cursorY t) = HEIGHT - 1")
      case last: True
      then show ?thesis using True assms
        by (simp add: step_cursor_def shiftScreen_def term_ok_def cursor_pos_def cell_ix_def W)
    next
      case False
      then have "uint (cursorY t) < 24" using ok(2) by (simp add: W)
      then have "uint (cursorY t + 1) = uint (cursorY t) + 1" by (intro incr_u8) simp
      then show ?thesis using True False ok assms
        by (simp add: step_cursor_def term_ok_def cursor_pos_def cell_ix_def W)
    qed
  next
    case False
    then have "uint (cursorX t + 1) = uint (cursorX t) + 1" using ok(1) by (intro incr_u8) (simp add: W)
    then show ?thesis using False ok assms
      by (auto simp: step_cursor_def term_ok_def cursor_pos_def cell_ix_def W)
  qed
qed

lemma incrementCursor_total: "total incrementCursor"
proof -
  have "incrementCursor = kdo [step_cursor, kwith (\<lambda>t. updateCursor (cursorX t) (cursorY t))]"
    by (simp add: incrementCursor_def step_cursor_def)
  moreover have "total step_cursor" using step_cursor_app by (meson endsI)
  ultimately show ?thesis using ends_kdo[of "[step_cursor, kwith (\<lambda>t. updateCursor (cursorX t) (cursorY t))]" term_ok]
      updateCursor_total by simp
qed

lemma cursor_cell:
  assumes "term_ok t"
  shows "with_cell (uint (cursorY t)) (uint (cursorX t)) f t = f (video t (cursor_pos t)) t"
  using assms cell_in[of "uint (cursorX t)" "uint (cursorY t)"]
  by (simp add: with_cell_def cursor_pos_def term_ok_def)

lemma newLine_loop_step:
  "term_ok t \<Longrightarrow> newLine_loop (Suc n) t = (if cell_ch (video t (cursor_pos t)) \<noteq> NUL
     then kbind step_cursor (\<lambda>_. newLine_loop n) t else Done () t)"
  by (simp only: newLine_loop.simps kwith_app cursor_cell if_app step_cursor_def kdo.simps kbind_app kskip_app kbind_kskip)

lemma newLine_loop_ends:
  "term_ok t \<Longrightarrow> WIDTH * HEIGHT - cursor_pos t < int n \<Longrightarrow> \<exists>t'. newLine_loop n t = Done () t' \<and> term_ok t'"
proof (induction n arbitrary: t)
  case 0
  then show ?case by (simp add: term_ok_def cursor_pos_def cell_ix_def W)
next
  case (Suc n)
  note unfold = newLine_loop_step[OF Suc.prems(1), of n]
  show ?case
  proof (cases "cell_ch (video t (cursor_pos t)) = NUL")
    case True
    then show ?thesis using unfold Suc.prems(1) by simp
  next
    case False
    obtain t' where t': "step_cursor t = Done () t'" "term_ok t'"
      "if cursor_pos t = WIDTH * HEIGHT - 1 then cursorX t' = 0 \<and> uint (cursorY t') = HEIGHT - 1 \<and>
         (\<forall>i. WIDTH * (HEIGHT - 1) \<le> i \<and> i < WIDTH * HEIGHT \<longrightarrow> cell_ch (video t' i) = NUL)
       else cursor_pos t' = cursor_pos t + 1"
      using step_cursor_app[OF Suc.prems(1)] by auto
    have loop: "newLine_loop (Suc n) t = newLine_loop n t'" using unfold False t'(1) by simp
    show ?thesis
    proof (cases "cursor_pos t = WIDTH * HEIGHT - 1")
      case True
      then obtain k where k: "n = Suc k" using Suc.prems(2) by (cases n) (auto simp: W)
      have "cell_ch (video t' (cursor_pos t')) = NUL" using t'(3) True by (simp add: cursor_pos_def cell_ix_def W)
      then have "newLine_loop n t' = Done () t'" using newLine_loop_step[OF t'(2), of k] k by simp
      then show ?thesis using loop t'(2) by simp
    next
      case False
      then show ?thesis using Suc.IH[OF t'(2)] Suc.prems(2) t'(3) loop by simp
    qed
  qed
qed

lemma newLine_total: "total newLine"
proof -
  have loop: "total (newLine_loop SCREEN_FUEL)"
  proof (rule endsI)
    fix t assume t: "term_ok t"
    then have "0 \<le> cursor_pos t" by (simp add: cursor_pos_def cell_ix_def W)
    then show "\<exists>a s'. newLine_loop SCREEN_FUEL t = Done a s' \<and> term_ok s'"
      using newLine_loop_ends[OF t, of SCREEN_FUEL] by (simp add: SCREEN_FUEL_def W)
  qed
  have x: "total (kmod (\<lambda>t. t\<lparr>cursorX := 0\<rparr>))" by (rule ends_mod) (simp add: term_ok_def W)
  have y: "total (kwith (\<lambda>t. if uint (cursorY t) = HEIGHT - 1 then shiftScreen else kmod (\<lambda>t. t\<lparr>cursorY := cursorY t + 1\<rparr>)))"
  proof (rule ends_with)
    fix t assume t: "term_ok t"
    show "ends (\<lambda>s. s = t \<and> term_ok s)
        (if uint (cursorY t) = HEIGHT - 1 then shiftScreen else kmod (\<lambda>t. t\<lparr>cursorY := cursorY t + 1\<rparr>)) (\<lambda>_. term_ok)"
    proof (rule ends_if)
      show "ends (\<lambda>s. s = t \<and> term_ok s) shiftScreen (\<lambda>_. term_ok)"
        by (rule ends_weaken[OF shiftScreen_ends[OF cells_only_ok]]) simp_all
      assume "uint (cursorY t) \<noteq> HEIGHT - 1"
      then have "uint (cursorY t) < 24" using t by (simp add: term_ok_def W)
      then have "uint (cursorY t + 1) = uint (cursorY t) + 1" by (intro incr_u8) simp
      then show "ends (\<lambda>s. s = t \<and> term_ok s) (kmod (\<lambda>t. t\<lparr>cursorY := cursorY t + 1\<rparr>)) (\<lambda>_. term_ok)"
        using \<open>uint (cursorY t) < 24\<close> by (intro ends_mod) (auto simp: term_ok_def W)
    qed
  qed
  show ?thesis unfolding newLine_def by (rule ends_kdo) (simp add: toggleCursors_total loop x y updateCursor_total)
qed

section \<open>Printing\<close>

text \<open>The search ends at an empty cell that is not in front of the cursor.\<close>

definition found :: "(int \<times> int) option \<Rightarrow> term_state \<Rightarrow> bool" where
  "found r t \<longleftrightarrow> term_ok t \<and> (case r of None \<Rightarrow> True
     | Some (x, y) \<Rightarrow> 0 \<le> x \<and> x < WIDTH \<and> 0 \<le> y \<and> y < HEIGHT \<and> cursor_pos t \<le> cell_ix y x)"

lemma find_step:
  assumes "0 \<le> x" "x < WIDTH" "0 \<le> y" "y < HEIGHT"
  shows "printChar_find (Suc n) x y t =
    (if cell_ch (video t (cell_ix y x)) = NUL then Done (Some (x, y)) t
     else if x + 1 = WIDTH then
       (if y = HEIGHT - 1 then
          (if cursorY t = 0 then Done None t
           else kthen [shiftScreen, kmod (\<lambda>t. t\<lparr>cursorY := cursorY t - 1\<rparr>)] (printChar_find n 0 y) t)
        else printChar_find n 0 (y + 1) t)
     else printChar_find n (x + 1) y t)"
  unfolding printChar_find.simps with_cell_def kwith_app using cell_in[OF assms] by (simp add: Let_def)

lemma find_scrolled:
  assumes "term_ok t" "cursorY t \<noteq> 0"
  shows "\<exists>t'. kthen [shiftScreen, kmod (\<lambda>t. t\<lparr>cursorY := cursorY t - 1\<rparr>)] (printChar_find (Suc n) 0 (HEIGHT - 1)) t =
    Done (Some (0, HEIGHT - 1)) t' \<and> found (Some (0, HEIGHT - 1)) t'"
proof -
  have d: "uint (cursorY t - 1) = uint (cursorY t) - 1" using assms(2) by (rule decr_u8)
  show ?thesis
    using assms d find_step[of 0 "HEIGHT - 1" n] uint_ge_0[of "cursorY t"]
    by (simp add: shiftScreen_def cell_ix_def W found_def term_ok_def cursor_pos_def)
qed

declare printChar_find.simps(2) [simp del]

lemma find_ends:
  "0 \<le> x \<Longrightarrow> x < WIDTH \<Longrightarrow> 0 \<le> y \<Longrightarrow> y < HEIGHT \<Longrightarrow> term_ok t \<Longrightarrow> cursor_pos t \<le> cell_ix y x \<Longrightarrow>
   WIDTH * HEIGHT - cell_ix y x < int n \<Longrightarrow> \<exists>r t'. printChar_find n x y t = Done r t' \<and> found r t'"
proof (induction n arbitrary: x y)
  case 0
  then show ?case by (simp add: cell_ix_def W)
next
  case (Suc n)
  note step = find_step[OF Suc.prems(1-4), of n t]
  show ?case
  proof (cases "cell_ch (video t (cell_ix y x)) = NUL")
    case True
    then show ?thesis using step Suc.prems(1-6) by (simp add: found_def)
  next
    case ne: False
    show ?thesis
    proof (cases "x + 1 = WIDTH")
      case False
      then show ?thesis using step ne Suc.IH[of "x + 1" y] Suc.prems by (simp add: cell_ix_def W)
    next
      case xw: True
      show ?thesis
      proof (cases "y = HEIGHT - 1")
        case False
        then show ?thesis using step ne xw Suc.IH[of 0 "y + 1"] Suc.prems by (simp add: cell_ix_def W)
      next
        case yl: True
        then obtain k where k: "n = Suc k" using Suc.prems(7) xw by (cases n) (auto simp: cell_ix_def W)
        show ?thesis
        proof (cases "cursorY t = 0")
          case True
          then show ?thesis using step ne xw yl Suc.prems(5) by (simp add: found_def)
        next
          case False
          then have "printChar_find (Suc n) x y t =
              kthen [shiftScreen, kmod (\<lambda>t. t\<lparr>cursorY := cursorY t - 1\<rparr>)] (printChar_find (Suc k) 0 (HEIGHT - 1)) t"
            using step ne xw yl k by (simp only: if_True if_False refl)
          then show ?thesis using find_scrolled[OF Suc.prems(5) False, of k] by auto
        qed
      qed
    qed
  qed
qed

lemma cell_ix_inject:
  "cell_ix y x = cell_ix y' x' \<Longrightarrow> 0 \<le> x \<Longrightarrow> x < WIDTH \<Longrightarrow> 0 \<le> x' \<Longrightarrow> x' < WIDTH \<Longrightarrow> x = x' \<and> y = y'"
proof -
  assume eq: "cell_ix y x = cell_ix y' x'" and x: "0 \<le> x" "x < WIDTH" and x': "0 \<le> x'" "x' < WIDTH"
  have "cell_ix y x mod 80 = x" "cell_ix y x div 80 = y" using x by (simp_all add: cell_ix_def W)
  moreover have "cell_ix y' x' mod 80 = x'" "cell_ix y' x' div 80 = y'" using x' by (simp_all add: cell_ix_def W)
  ultimately show ?thesis using eq by simp
qed

lemma shift_ends:
  "0 \<le> x \<Longrightarrow> x < WIDTH \<Longrightarrow> 0 \<le> y \<Longrightarrow> y < HEIGHT \<Longrightarrow> term_ok t \<Longrightarrow> cursor_pos t \<le> cell_ix y x \<Longrightarrow>
   cell_ix y x - cursor_pos t < int n \<Longrightarrow> \<exists>t'. printChar_shift n x y t = Done () t' \<and> term_ok t'"
proof (induction n arbitrary: x y t)
  case 0
  then show ?case by simp
next
  case (Suc n)
  have ok: "uint (cursorX t) < 80" "uint (cursorY t) < 25" using Suc.prems(5) by (simp_all add: term_ok_def W)
  show ?case
  proof (cases "x = uint (cursorX t) \<and> y = uint (cursorY t)")
    case True
    then show ?thesis using Suc.prems(5) by simp
  next
    case False
    then have "cursor_pos t \<noteq> cell_ix y x"
      using cell_ix_inject[of "uint (cursorY t)" "uint (cursorX t)" y x] Suc.prems(1,2) ok by (auto simp: cursor_pos_def W)
    then have lt: "cursor_pos t < cell_ix y x" using Suc.prems(6) by simp
    let ?px = "if x - 1 < 0 then WIDTH - 1 else x - 1" and ?py = "if x - 1 < 0 then y - 1 else y"
    have p: "0 \<le> ?px" "?px < WIDTH" "0 \<le> ?py" "?py < HEIGHT" "cell_ix ?py ?px = cell_ix y x - 1"
      using Suc.prems(1-4) lt cursor_pos_nonneg[of t] by (auto simp: cell_ix_def W)
    let ?t = "t\<lparr>video := (video t)(cell_ix y x := video t (cell_ix ?py ?px))\<rparr>"
    have same: "same_cursor t ?t" by (simp add: same_cursor_def)
    have "\<exists>t'. printChar_shift n ?px ?py ?t = Done () t' \<and> term_ok t'"
      using Suc.IH[OF p(1-4), of ?t] Suc.prems(5,7) lt p(5) same_cursor_ok[OF same] same_cursor_pos[OF same] by simp
    moreover have "printChar_shift (Suc n) x y t = printChar_shift n ?px ?py ?t"
      using False cell_in[OF p(1-4)] cell_in[OF Suc.prems(1-4)]
      by (simp only: printChar_shift.simps kwith_app if_app Let_def kdo.simps kbind_app with_cell_def upd_cell_def
          kmod_app obind.simps kbind_kskip) simp
    ultimately show ?thesis by simp
  qed
qed

lemma printChar_total: "total (printChar c st)"
proof (rule endsI)
  fix t assume t: "term_ok t"
  have pos: "0 \<le> uint (cursorX t)" "uint (cursorX t) < WIDTH" "0 \<le> uint (cursorY t)" "uint (cursorY t) < HEIGHT"
    using t by (simp_all add: term_ok_def)
  have fuel: "WIDTH * HEIGHT - cell_ix (uint (cursorY t)) (uint (cursorX t)) < int SCREEN_FUEL"
    using cursor_pos_nonneg[of t] by (simp add: cursor_pos_def SCREEN_FUEL_def W)
  obtain r t1 where r: "printChar_find SCREEN_FUEL (uint (cursorX t)) (uint (cursorY t)) t = Done r t1" "found r t1"
    using find_ends[OF pos t _ fuel] by (auto simp: cursor_pos_def)
  show "\<exists>a s'. printChar c st t = Done a s' \<and> term_ok s'"
  proof (cases r)
    case None
    then show ?thesis using r by (simp add: printChar_def found_def)
  next
    case (Some xy)
    obtain x y where xy: "xy = (x, y)" by (cases xy)
    have f: "0 \<le> x" "x < WIDTH" "0 \<le> y" "y < HEIGHT" "term_ok t1" "cursor_pos t1 \<le> cell_ix y x"
      using r(2) Some xy by (simp_all add: found_def)
    have "cell_ix y x - cursor_pos t1 < int SCREEN_FUEL"
      using cursor_pos_nonneg[of t1] f(1-4) by (simp add: cell_ix_def SCREEN_FUEL_def W)
    from shift_ends[OF f this] obtain t2 where t2: "printChar_shift SCREEN_FUEL x y t1 = Done () t2" "term_ok t2" by auto
    let ?w = "if x = uint (cursorX t1) \<and> y = uint (cursorY t1) then writeAtCursor c st else kskip"
    have "total ?w" using writeAtCursor_total by (auto intro: ends_skip)
    then have "total (kdo [at_cursor (\<lambda>cell. cell\<lparr>cell_style := st\<rparr>), at_cursor (\<lambda>cell. cell\<lparr>cell_ch := c\<rparr>), ?w, incrementCursor])"
      by (intro ends_kdo) (simp add: at_cursor_total incrementCursor_total)
    from endsD[OF this t2(2)] obtain t3 where t3:
      "kdo [at_cursor (\<lambda>cell. cell\<lparr>cell_style := st\<rparr>), at_cursor (\<lambda>cell. cell\<lparr>cell_ch := c\<rparr>), ?w, incrementCursor] t2 = Done () t3"
      "term_ok t3" by auto
    have "printChar c st t = kdo (printChar_shift SCREEN_FUEL x y # [at_cursor (\<lambda>cell. cell\<lparr>cell_style := st\<rparr>),
        at_cursor (\<lambda>cell. cell\<lparr>cell_ch := c\<rparr>), ?w, incrementCursor]) t1"
      using r(1) Some xy by (simp only: printChar_def kwith_app kbind_app obind.simps option.case prod.case)
    also have "\<dots> = Done () t3" using t2(1) t3(1) by (simp only: kdo.simps(2)[of "printChar_shift SCREEN_FUEL x y"] kbind_app obind.simps)
    finally show ?thesis using t3(2) by blast
  qed
qed

section \<open>Deleting\<close>

lemma backspace_find_ends:
  "0 \<le> x \<Longrightarrow> x < WIDTH \<Longrightarrow> - 1 \<le> y \<Longrightarrow> y < HEIGHT \<Longrightarrow> term_ok t \<Longrightarrow> cell_ix y x + 1 < int n \<Longrightarrow> - 1 \<le> cell_ix y x \<Longrightarrow>
   \<exists>k t'. backspace_find n x y off t = Done k t' \<and> term_ok t' \<and> off \<le> k \<and> k \<le> off + cell_ix y x + 1"
proof (induction n arbitrary: x y t off)
  case 0
  then show ?case by simp
next
  case (Suc n)
  show ?case
  proof (cases "y \<ge> 0 \<and> cell_ch (video t (cell_ix y x)) = NUL")
    case False
    then show ?thesis
      using Suc.prems cell_in[OF Suc.prems(1,2), of y] by (auto simp: with_cell_def)
  next
    case True
    let ?t = "t\<lparr>cursorX := word_of_int x, cursorY := word_of_int y\<rparr>"
    let ?x = "if x - 1 < 0 then WIDTH - 1 else x - 1" and ?y = "if x - 1 < 0 then y - 1 else y"
    have t: "term_ok ?t" using cursor_moved Suc.prems True by simp
    have p: "0 \<le> ?x" "?x < WIDTH" "- 1 \<le> ?y" "?y < HEIGHT" "cell_ix ?y ?x = cell_ix y x - 1"
      using Suc.prems(1-4) True by (auto simp: cell_ix_def W)
    have nonneg: "0 \<le> cell_ix y x" using Suc.prems(1) True by (simp add: cell_ix_def W)
    obtain k t' where k: "backspace_find n ?x ?y (off + 1) ?t = Done k t'" "term_ok t'" "off + 1 \<le> k"
      "k \<le> off + 1 + cell_ix ?y ?x + 1"
      using Suc.IH[OF p(1-4) t, of "off + 1"] Suc.prems(6) nonneg p(5) by auto
    have "backspace_find (Suc n) x y off t = backspace_find n ?x ?y (off + 1) ?t"
      using True cell_in[OF Suc.prems(1,2) _ Suc.prems(4)] by (simp add: with_cell_def)
    then show ?thesis using k p(5) by auto
  qed
qed

lemma backspace_pull_ends:
  "0 \<le> x \<Longrightarrow> x < WIDTH \<Longrightarrow> 0 \<le> y \<Longrightarrow> y < HEIGHT \<Longrightarrow> term_ok t \<Longrightarrow> 1 \<le> off \<Longrightarrow> off \<le> cell_ix y x \<Longrightarrow>
   WIDTH * HEIGHT - cell_ix y x < int n \<Longrightarrow> \<exists>t'. backspace_pull n x y off t = Done () t' \<and> term_ok t'"
proof (induction n arbitrary: x y t)
  case 0
  then show ?case by (simp add: cell_ix_def W)
next
  case (Suc n)
  let ?px = "(x - off) mod WIDTH" and ?py = "y + (x - off) div WIDTH"
  have ix: "cell_ix ?py ?px = cell_ix y x - off"
    using mult_div_mod_eq[of WIDTH "x - off"] by (simp add: cell_ix_def ring_distribs)
  have px: "0 \<le> ?px" "?px < WIDTH" by (simp_all add: W)
  have lo: "0 \<le> cell_ix ?py ?px" "cell_ix ?py ?px < WIDTH * HEIGHT"
    using Suc.prems(1-4,6,7) by (simp_all add: ix) (simp add: cell_ix_def W)
  have r: "in_range (cell_ix ?py ?px) (WIDTH * HEIGHT)" "in_range (cell_ix y x) (WIDTH * HEIGHT)"
    using lo cell_in[OF Suc.prems(1-4)] by (simp_all add: in_range_def)
  let ?v = "(video t)(cell_ix ?py ?px := video t (cell_ix y x))"
  let ?t = "t\<lparr>video := ?v(cell_ix y x := (?v (cell_ix y x))\<lparr>cell_ch := NUL\<rparr>)\<rparr>"
  let ?x = "if x = WIDTH - 1 then 0 else x + 1" and ?y = "if x = WIDTH - 1 then y + 1 else y"
  have t: "term_ok ?t" using same_cursor_ok[of t ?t] Suc.prems(5) by (simp add: same_cursor_def)
  have run: "backspace_pull (Suc n) x y off t =
      (if ?y < HEIGHT \<and> cell_ch (video ?t (cell_ix ?py ?px)) \<noteq> NUL then backspace_pull n ?x ?y off ?t else Done () ?t)"
    using r by (simp add: Let_def with_cell_def upd_cell_def)
  show ?case
  proof (cases "?y < HEIGHT \<and> cell_ch (video ?t (cell_ix ?py ?px)) \<noteq> NUL")
    case True
    have "0 \<le> ?x" "?x < WIDTH" "0 \<le> ?y" "?y < HEIGHT" "cell_ix ?y ?x = cell_ix y x + 1"
      using Suc.prems(1-4) True by (auto simp: cell_ix_def W)
    then have "\<exists>t'. backspace_pull n ?x ?y off ?t = Done () t' \<and> term_ok t'"
      using Suc.IH[of ?x ?y ?t] t Suc.prems(6-8) by simp
    then show ?thesis using run True by simp
  next
    case False
    then show ?thesis using run t by auto
  qed
qed

lemma backspace_total: "total backspace"
proof (rule endsI)
  fix t assume t: "term_ok t"
  let ?x = "uint (cursorX t)" and ?y = "uint (cursorY t)"
  let ?px = "if ?x = 0 then WIDTH - 1 else ?x - 1" and ?py = "if ?x = 0 then ?y - 1 else ?y"
  have xy: "0 \<le> ?x" "?x < WIDTH" "0 \<le> ?y" "?y < HEIGHT" using t by (simp_all add: term_ok_def)
  show "\<exists>a s'. backspace t = Done a s' \<and> term_ok s'"
  proof (cases "cursorY t > 0 \<or> cursorX t > 0")
    case False
    then show ?thesis using t by (simp add: backspace_def)
  next
    case True
    then have "0 < ?y \<or> 0 < ?x" by (simp add: word_less_def)
    moreover have "?x = 0 \<or> 1 \<le> ?x" using xy(1) by linarith
    ultimately have p: "0 \<le> ?px" "?px < WIDTH" "0 \<le> ?py" "?py < HEIGHT" "cell_ix ?py ?px = cell_ix ?y ?x - 1"
      using xy by (auto simp: cell_ix_def W)
    have bound: "cell_ix ?y ?x < WIDTH * HEIGHT" "1 \<le> cell_ix ?y ?x"
      using xy p(1,3,5) by (simp_all add: cell_ix_def W)
    obtain t1 where t1: "toggleCursors t = Done () t1" "term_ok t1" using endsD[OF toggleCursors_total t] by auto
    let ?t2 = "t1\<lparr>cursorX := word_of_int ?px, cursorY := word_of_int ?py\<rparr>"
    have t2: "term_ok ?t2" by (rule cursor_moved[OF t1(2) p(2,1,4,3)])
    obtain k t3 where t3: "backspace_find SCREEN_FUEL ?px ?py 0 ?t2 = Done k t3" "term_ok t3" "0 \<le> k" "k \<le> 0 + cell_ix ?py ?px + 1"
      using backspace_find_ends[OF p(1,2) _ p(4) t2, of SCREEN_FUEL 0] p(3,5) bound by (auto simp: SCREEN_FUEL_def W)
    let ?off = "if k = 0 then 1 else k"
    have off: "1 \<le> ?off" using t3(3) by simp
    have off': "?off \<le> cell_ix ?y ?x" using t3(4) p(5) bound(2) by simp
    obtain t4 where t4: "backspace_pull SCREEN_FUEL ?x ?y ?off t3 = Done () t4" "term_ok t4"
      using backspace_pull_ends[OF xy t3(2) off off', of SCREEN_FUEL] bound by (auto simp: SCREEN_FUEL_def W)
    have "total (kdo [kwith (\<lambda>t. updateCursor (cursorX t) (cursorY t)), toggleCursors])"
      by (rule ends_kdo) (simp add: updateCursor_total toggleCursors_total)
    from endsD[OF this t4(2)] obtain t5 where
      t5: "kdo [kwith (\<lambda>t. updateCursor (cursorX t) (cursorY t)), toggleCursors] t4 = Done () t5" "term_ok t5" by auto
    have "backspace t = kdo [kwith (\<lambda>t. updateCursor (cursorX t) (cursorY t)), toggleCursors] t4"
      using True t1(1) t3(1) t4(1)
      by (simp only: backspace_def kwith_app Let_def if_True kdo.simps(2)[of toggleCursors] kdo.simps(2)[of "kmod _"]
          kdo.simps(2)[of "kbind _ _"] kbind_app obind.simps kmod_app if_app)
    then show ?thesis using t5 by simp
  qed
qed

lemma printcWithStyle_total: "total (printcWithStyle c st)"
  unfolding printcWithStyle_def
  by (intro ends_if backspace_total newLine_total ends_kdo) (simp add: toggleCursors_total printChar_total)

lemma print_total: "total (print s)"
proof -
  have "total (kwith (\<lambda>t. printChar c (defaultStyle t)))" for c
    by (rule ends_with) (rule ends_weaken[OF printChar_total], simp_all)
  then show ?thesis unfolding print_def by (intro ends_kdo) (auto simp: toggleCursors_total)
qed

section \<open>Cursor keys\<close>

lemma retreat_ends: "term_ok t \<Longrightarrow> uint (cursorX t) < int n \<Longrightarrow> \<exists>t'. retreat n t = Done () t' \<and> term_ok t'"
proof (induction n arbitrary: t)
  case 0
  then show ?case using uint_ge_0[of "cursorX t"] by linarith
next
  case (Suc n)
  show ?case
  proof (cases "cursorX t > 0 \<and> cell_ch (video t (cursor_pos t)) = NUL")
    case True
    then have d: "uint (cursorX t - 1) = uint (cursorX t) - 1" by (intro decr_u8) auto
    let ?t = "t\<lparr>cursorX := cursorX t - 1\<rparr>"
    have "term_ok ?t" using Suc.prems(1) d by (simp add: term_ok_def)
    moreover have "retreat (Suc n) t = retreat n ?t"
      using True by (simp only: retreat.simps kwith_app if_True if_app cursor_cell[OF Suc.prems(1)] kdo.simps kbind_app kmod_app
          obind.simps kbind_kskip simp_thms)
    ultimately show ?thesis using Suc.IH[of ?t] d Suc.prems(2) by simp
  next
    case False
    then have "retreat (Suc n) t = Done () t" by (auto simp: cursor_cell[OF Suc.prems(1)])
    then show ?thesis using Suc.prems(1) by simp
  qed
qed

lemma advance_ends: "term_ok t \<Longrightarrow> WIDTH - 1 - uint (cursorX t) < int n \<Longrightarrow> \<exists>t'. advance n t = Done () t' \<and> term_ok t'"
proof (induction n arbitrary: t)
  case 0
  then show ?case by (simp add: term_ok_def)
next
  case (Suc n)
  show ?case
  proof (cases "uint (cursorX t) < WIDTH - 1 \<and> cell_ch (video t (cursor_pos t)) \<noteq> NUL")
    case True
    then have d: "uint (cursorX t + 1) = uint (cursorX t) + 1" by (intro incr_u8) (simp add: W)
    let ?t = "t\<lparr>cursorX := cursorX t + 1\<rparr>"
    have "term_ok ?t" using Suc.prems(1) True d by (simp add: term_ok_def)
    moreover have "advance (Suc n) t = advance n ?t"
      using True by (simp only: advance.simps kwith_app if_True if_app cursor_cell[OF Suc.prems(1)] kdo.simps kbind_app kmod_app
          obind.simps kbind_kskip not_False_eq_True)
    ultimately show ?thesis using Suc.IH[of ?t] d Suc.prems(2) by simp
  next
    case False
    then have "advance (Suc n) t = Done () t" by (auto simp: cursor_cell[OF Suc.prems(1)])
    then show ?thesis using Suc.prems(1) by simp
  qed
qed

lemma retreat_total: "total (retreat 256)"
  by (rule endsI) (use retreat_ends[of _ 256] in \<open>simp add: term_ok_def W\<close>)

lemma advance_total: "total (advance 256)"
proof (rule endsI)
  fix t assume "term_ok t"
  then show "\<exists>a s'. advance 256 t = Done a s' \<and> term_ok s'"
    using advance_ends[of t 256] uint_ge_0[of "cursorX t"] by (simp add: W)
qed

lemma cursor_changed:
  "term_ok t \<Longrightarrow> uint x < WIDTH \<Longrightarrow> term_ok (t\<lparr>cursorX := x\<rparr>)"
  "term_ok t \<Longrightarrow> uint y < HEIGHT \<Longrightarrow> term_ok (t\<lparr>cursorY := y\<rparr>)"
  by (simp_all add: term_ok_def)

lemma cursor_less: "term_ok t \<Longrightarrow> cursorX t > 0 \<Longrightarrow> uint (cursorX t - 1) < WIDTH"
  "term_ok t \<Longrightarrow> cursorY t > 0 \<Longrightarrow> uint (cursorY t - 1) < HEIGHT"
  "term_ok t \<Longrightarrow> uint (cursorY t) < HEIGHT - 1 \<Longrightarrow> uint (cursorY t + 1) < HEIGHT"
  "term_ok t \<Longrightarrow> uint (cursorX t) \<noteq> WIDTH - 1 \<Longrightarrow> uint (cursorX t + 1) < WIDTH"
  by (auto simp: term_ok_def W decr_u8 incr_u8)

lemma cursorUp_total: "total cursorUp"
  unfolding cursorUp_def
  by (rule ends_kdo) (auto simp: toggleCursors_total retreat_total updateCursor_total
      intro!: ends_mod cursor_changed cursor_less)

lemma cursorDown_total: "total cursorDown"
  unfolding cursorDown_def
  by (rule ends_kdo) (auto simp: toggleCursors_total retreat_total updateCursor_total
      intro!: ends_mod cursor_changed cursor_less)

lemma cursorLeft_total: "total cursorLeft"
proof -
  have "total (kwith (\<lambda>t. if cursorX t > 0 then kmod (\<lambda>t. t\<lparr>cursorX := cursorX t - 1\<rparr>)
       else if cursorY t > 0 then kdo [kmod (\<lambda>t. t\<lparr>cursorY := cursorY t - 1\<rparr>), advance 256]
       else kskip))"
  proof (rule ends_with)
    fix t assume t: "term_ok t"
    have y: "cursorY t > 0 \<Longrightarrow> ends (\<lambda>s. s = t \<and> term_ok s) (kmod (\<lambda>t. t\<lparr>cursorY := cursorY t - 1\<rparr>)) (\<lambda>_. term_ok)"
      by (rule ends_mod) (auto intro: cursor_changed cursor_less)
    show "ends (\<lambda>s. s = t \<and> term_ok s) (if cursorX t > 0 then kmod (\<lambda>t. t\<lparr>cursorX := cursorX t - 1\<rparr>)
       else if cursorY t > 0 then kdo [kmod (\<lambda>t. t\<lparr>cursorY := cursorY t - 1\<rparr>), advance 256]
       else kskip) (\<lambda>_. term_ok)"
      unfolding kdo.simps kbind_kskip
      by (intro ends_if ends_mod ends_skip ends_bind[OF y advance_total]) (auto intro: cursor_changed cursor_less)
  qed
  then show ?thesis unfolding cursorLeft_def by (intro ends_kdo) (simp add: toggleCursors_total updateCursor_total)
qed

lemma cursorRight_total: "total cursorRight"
proof -
  let ?go = "kmod (\<lambda>t. if uint (cursorY t) < HEIGHT - 1 then t\<lparr>cursorY := cursorY t + 1, cursorX := 0\<rparr> else t) :: unit T"
  have go: "total ?go" by (rule ends_mod) (auto intro!: cursor_changed cursor_less simp: W)
  have "total (kwith (\<lambda>t. if uint (cursorX t) = WIDTH - 1 then ?go
       else with_cell (uint (cursorY t)) (uint (cursorX t)) (\<lambda>c.
         if cell_ch c = NUL then ?go else kmod (\<lambda>t. t\<lparr>cursorX := cursorX t + 1\<rparr>))))"
  proof (rule endsI)
    fix t assume t: "term_ok t"
    let ?b = "uint (cursorX t) = WIDTH - 1 \<or> cell_ch (video t (cursor_pos t)) = NUL"
    have run: "kwith (\<lambda>t. if uint (cursorX t) = WIDTH - 1 then ?go
        else with_cell (uint (cursorY t)) (uint (cursorX t)) (\<lambda>c.
          if cell_ch c = NUL then ?go else kmod (\<lambda>t. t\<lparr>cursorX := cursorX t + 1\<rparr>))) t =
        (if ?b then ?go t else Done () (t\<lparr>cursorX := cursorX t + 1\<rparr>))"
      by (simp add: cursor_cell[OF t])
    show "\<exists>a s'. kwith (\<lambda>t. if uint (cursorX t) = WIDTH - 1 then ?go
        else with_cell (uint (cursorY t)) (uint (cursorX t)) (\<lambda>c.
          if cell_ch c = NUL then ?go else kmod (\<lambda>t. t\<lparr>cursorX := cursorX t + 1\<rparr>))) t = Done a s' \<and> term_ok s'"
      unfolding run using endsD[OF go t] cursor_changed(1)[OF t cursor_less(4)[OF t]] by auto
  qed
  then show ?thesis unfolding cursorRight_def Let_def by (intro ends_kdo) (simp add: toggleCursors_total updateCursor_total)
qed

lemma clearScreen_total: "total clearScreen"
  unfolding clearScreen_def
  by (rule ends_kdo) (auto simp: toggleCursors_total updateCursor_def term_ok_def W intro!: ends_mod)

lemma blinkCursor_total: "total blinkCursor"
  unfolding blinkCursor_def
  by (rule ends_kdo) (auto simp: at_cursor_total term_ok_def intro!: ends_mod)

text \<open>C24: From a state with the cursors on the 80 by 25 cells of the screen every operation of the terminal returns, reads
  and writes cells of the screen only, and leaves the cursors on the screen: printing any character in any style
  (newline and backspace included) and any text, the cursor keys, clearing and blinking.\<close>

theorem terminal_total:
  assumes "term_ok t"
    "m \<in> {printcWithStyle c st, printChar c st, print s, println s, newLine, backspace, cursorUp, cursorDown,
      cursorLeft, cursorRight, clearScreen, blinkCursor}"
  shows "\<exists>t'. m t = Done () t' \<and> term_ok t'"
proof -
  have "total (println s)" unfolding println_def by (rule ends_kdo) (simp add: print_total newLine_total)
  then have "total m" using assms(2)
    by (auto simp: printcWithStyle_total printChar_total print_total newLine_total backspace_total cursorUp_total
        cursorDown_total cursorLeft_total cursorRight_total clearScreen_total blinkCursor_total)
  then show ?thesis using assms(1) by (auto simp: ends_def)
qed

theorem terminal_total_witness:
  "\<forall>t. \<exists>t'. backspace (t\<lparr>cursorX := 0, cursorY := 24, videoCursorX := 0, videoCursorY := 24\<rparr>) = Done () t' \<and> term_ok t'"
  using terminal_total[of _ backspace] by (simp add: term_ok_def W)

end
