(* ===== verification/Linked.thy ===== *)
theory Linked
  imports SysCalls LibcProps TermProps SemCorrect
begin

text \<open>
  User programs on top of the kernel: \<open>int 0x80\<close> takes the number and the arguments of a call from the program to
  \<open>sysCallHandler\<close>, and the answer back.  The C library reaches the kernel function it is meant to reach, and what
  \<open>printf\<close> formats is printed on the screen.
\<close>

section \<open>The machine under a program\<close>

text \<open>There is one memory: the program and the kernel see the same bytes, \<open>int\<close>s and pointers.\<close>

definition enter_kernel :: "ustate \<Rightarrow> kstate \<Rightarrow> kstate" where
  "enter_kernel u s = s\<lparr>kmem := umem u, kints := uints u, kptrs := uptrs u\<rparr>"

definition leave_kernel :: "int \<Rightarrow> kstate \<Rightarrow> ustate \<Rightarrow> ustate" where
  "leave_kernel r s u = u\<lparr>uret := r, umem := kmem s, uints := kints s, uptrs := kptrs s\<rparr>"

text \<open>The registers hold unsigned numbers: an \<open>int\<close> is extended with its sign.\<close>

definition trap :: "killer \<Rightarrow> int \<Rightarrow> int \<times> int list \<Rightarrow> int KS" where
  "trap kt j0 c = (case c of (rdi, [rsi, rdx, rcx, r8]) \<Rightarrow>
       sysCallHandler kt j0 (to_uint64 rdi) (to_uint64 rsi) (to_uint64 rdx) (to_uint64 rcx) (to_uint64 r8)
     | _ \<Rightarrow> kfault Undefined)"

text \<open>A program run to its end while the kernel does not take the processor away from it; \<open>None\<close> otherwise.\<close>

primrec linked :: "killer \<Rightarrow> int \<Rightarrow> (ustate, 'a) outcome \<Rightarrow> kstate \<Rightarrow> ('a \<times> ustate \<times> kstate) option" where
  "linked kt j0 (Done a u) = (\<lambda>s. Some (a, u, s))"
| "linked kt j0 (Yield u k) = (\<lambda>s. case trap kt j0 (ucall u) (enter_kernel u s) of
     Done r s' \<Rightarrow> linked kt j0 (k (leave_kernel r s' u)) s' | _ \<Rightarrow> None)"
| "linked kt j0 (Fault e) = (\<lambda>s. None)"

lemma linked_obind: "linked kt j0 (obind r f) s =
    (case linked kt j0 r s of None \<Rightarrow> None | Some (a, u, s') \<Rightarrow> linked kt j0 (f a u) s')"
  by (induction r arbitrary: s) (auto split: outcome.split option.split)

lemma linked_bind:
  assumes "linked kt j0 (m u) s = Some (a, u', s')"
  shows "linked kt j0 (kbind m f u) s = linked kt j0 (f a u') s'"
  by (simp add: linked_obind assms)

lemma trap_call: "0 \<le> n \<Longrightarrow> n < 34 \<Longrightarrow> trap kt j0 (n, [a, b, c, d]) =
    (sysCalls kt j0 ! nat n) (to_uint64 a) (to_uint64 b) (to_uint64 c) (to_uint64 d)"
proof -
  assume n: "0 \<le> n" "n < 34"
  then have "\<not> SYSCALLS \<le> nat n" "to_uint64 n = nat n" by (auto simp: SYSCALLS_def)
  then show ?thesis by (simp add: trap_def sysCallHandler_def)
qed

lemma linked_call80:
  assumes "0 \<le> n" "n < 34"
    "(sysCalls kt j0 ! nat n) (to_uint64 a) (to_uint64 b) (to_uint64 c) (to_uint64 d) (enter_kernel u s) = Done r s'"
  shows "linked kt j0 (call80 n a b c d u) s = Some ((), leave_kernel r s' (u\<lparr>ucall := (n, [a, b, c, d])\<rparr>), s')"
proof -
  have "enter_kernel (u\<lparr>ucall := (n, [a, b, c, d])\<rparr>) s = enter_kernel u s" by (simp add: enter_kernel_def)
  then show ?thesis using assms(3) by (simp add: call80_def int80_def trap_call[OF assms(1,2)])
qed

text \<open>An \<open>int\<close> survives the trip through a 64-bit register.\<close>

lemma trap_mod: "((x :: int) mod 2 ^ 64 + 2 ^ 31) mod 2 ^ 32 = (x + 2 ^ 31) mod 2 ^ 32"
proof -
  have "x mod 2 ^ 64 mod 2 ^ 32 = x mod 2 ^ 32" by (rule mod_mod_cancel) simp
  then show ?thesis by (metis mod_add_left_eq)
qed

definition int32 :: "int \<Rightarrow> bool" where
  "int32 x \<longleftrightarrow> - (2 ^ 31) \<le> x \<and> x < 2 ^ 31"

lemma to_int32_uint64: "int32 x \<Longrightarrow> to_int32 (int (to_uint64 x)) = x"
proof -
  assume "int32 x"
  then have x: "- (2 ^ 31) \<le> x" "x < 2 ^ 31" by (simp_all add: int32_def)
  have "int (to_uint64 x) = x mod 2 ^ 64" by (simp add: to_uint64_def)
  moreover have "(x mod 2 ^ 64 + 2 ^ 31) mod 2 ^ 32 = (x + 2 ^ 31) mod 2 ^ 32"
    by (rule trap_mod)
  ultimately show ?thesis using x by (simp add: to_int32_def)
qed

lemma char_uint64: "char_of (to_uint64 (schar c)) = c"
proof -
  have "(of_char c :: int) mod 256 = of_char c" by (rule of_char_mod_256)
  then have "schar c mod 256 = of_char c" by (simp add: schar_def Let_def)
  then have "int (to_uint64 (schar c) mod 256) = of_char c"
    by (simp add: to_uint64_def zmod_int mod_mod_cancel)
  then have "char_of (to_uint64 (schar c) mod 256) = c" by (metis char_of_char char_of_nat)
  then show ?thesis by simp
qed

lemma to_uint64_nat: "p < 2 ^ 64 \<Longrightarrow> to_uint64 (int p) = p"
  by simp

section \<open>Printing\<close>

text \<open>The characters reach the screen one after the other; nothing else of the kernel changes.\<close>

definition displayed :: "string \<Rightarrow> kstate \<Rightarrow> kstate \<Rightarrow> bool" where
  "displayed cs s s' \<longleftrightarrow> (\<exists>m i q t. s' = s\<lparr>kmem := m, kints := i, kptrs := q, terminal := t\<rparr> \<and>
     kdo (map printc cs) (terminal s) = Done () t)"

lemma displayed_append:
  assumes "displayed a s s'" "displayed b s' s''"
  shows "displayed (a @ b) s s''"
proof -
  obtain m i q t where 1: "s' = s\<lparr>kmem := m, kints := i, kptrs := q, terminal := t\<rparr>" "kdo (map printc a) (terminal s) = Done () t"
    using assms(1) by (auto simp: displayed_def)
  obtain m' i' q' t' where 2: "s'' = s'\<lparr>kmem := m', kints := i', kptrs := q', terminal := t'\<rparr>"
    "kdo (map printc b) (terminal s') = Done () t'" using assms(2) by (auto simp: displayed_def)
  have "kdo (xs @ ys) = kbind (kdo xs) (\<lambda>_. kdo ys)" for xs ys :: "unit T list"
  proof (induction xs)
    case (Cons x xs)
    then show ?case by (simp only: append_Cons kdo.simps kbind_assoc)
  qed (simp add: kret_bind kskip_def del: kbind_kskip)
  then have "kdo (map printc (a @ b)) (terminal s) = Done () t'" using 1 2 by simp
  then show ?thesis using 1(1) 2(1) unfolding displayed_def by (intro exI[of _ m'] exI[of _ i'] exI[of _ q'] exI[of _ t']) simp
qed

lemma displayed_Nil [simp]: "displayed [] s s"
  unfolding displayed_def by (intro exI[of _ "kmem s"] exI[of _ "kints s"] exI[of _ "kptrs s"] exI[of _ "terminal s"]) simp

text \<open>The process in use writes to the screen.\<close>

definition on_screen :: "kstate \<Rightarrow> bool" where
  "on_screen s \<longleftrightarrow> sched_ok s \<and> pr_standardPipes (proc_at s (current (sched s))) 1 = -1 \<and> term_ok (terminal s)"

lemma prints_total: "term_ok t \<Longrightarrow> \<exists>t'. kdo (map printc cs) t = Done () t' \<and> term_ok t'"
proof -
  assume t: "term_ok t"
  have "total (printc c)" for c
    unfolding printc_def by (rule ends_with) (rule ends_weaken[OF printcWithStyle_total], simp_all)
  then have "total (kdo (map printc cs))" by (intro ends_kdo) auto
  then show ?thesis using t by (auto simp: ends_def)
qed

lemma on_screen_shown:
  assumes "on_screen s" "displayed cs s s'"
  shows "on_screen s'"
proof -
  obtain m i q t where s': "s' = s\<lparr>kmem := m, kints := i, kptrs := q, terminal := t\<rparr>" "kdo (map printc cs) (terminal s) = Done () t"
    using assms(2) by (auto simp: displayed_def)
  have "term_ok t" using prints_total[of "terminal s" cs] assms(1) s'(2) by (auto simp: on_screen_def)
  moreover have "proc_at s' j = proc_at s j" for j by (simp add: s'(1) proc_at_def)
  moreover have "sched_ok s'" using assms(1) by (auto simp: on_screen_def s'(1) sched_ok_def proc_ok_def split: option.splits)
  ultimately show ?thesis using assms(1) by (simp add: on_screen_def s'(1))
qed

lemma own_process_app:
  assumes "sched_ok s"
  shows "own_process f s = f (proc_at s (current (sched s))) s"
proof -
  have "current (sched s) \<in> set (proc_slots (sched s))" by (simp add: proc_slots_def)
  then have r: "in_range (current (sched s)) MAX_PROCESSES" and p: "procs s (rr_process (processes (sched s) (current (sched s)))) = Some (proc_at s (current (sched s)))"
    and n: "0 < processQuantity (sched s)" "current (sched s) \<noteq> PID_NOT_FOUND"
    using assms proc_ok_at[of s "current (sched s)"]
    by (auto simp: sched_ok_def in_range_def PID_NOT_FOUND_def proc_slots_def)
  obtain k where "nat (processQuantity (sched s)) = Suc k" using n(1) by (cases "nat (processQuantity (sched s))") auto
  then have "getProcess (cur_pid s) s = Done (rr_process (processes (sched s) (current (sched s)))) s"
    using r p n(2) by (simp add: getProcess_def getProcessIndex_def access_app cur_pid_def)
  then show ?thesis using getpid_app(1)[OF assms] p by (simp add: own_process_def access_app)
qed

lemma sysWrite_loop_prints:
  assumes "\<forall>i < length cs. kmem s (p + i) = cs ! i"
  shows "sysWrite_loop (length cs) p True s = in_term (kdo (map printc cs)) s"
  using assms
proof (induction cs arbitrary: p s)
  case Nil
  then show ?case by (simp add: in_term_def)
next
  case (Cons c cs)
  have c: "kmem s p = c" using Cons.prems[rule_format, of 0] by simp
  show ?case
  proof (cases "printc c (terminal s)")
    case (Done a t)
    have "sysWrite_loop (length cs) (p + 1) True (s\<lparr>terminal := t\<rparr>) = in_term (kdo (map printc cs)) (s\<lparr>terminal := t\<rparr>)"
      using Cons.prems by (intro Cons.IH) (auto simp: nth_Cons' split: if_splits dest: spec[of _ "Suc _"])
    then show ?thesis using Done c by (simp add: in_term_def split: outcome.split)
  qed (use c in \<open>simp_all add: in_term_def\<close>)
qed

section \<open>printf\<close>

text \<open>What a piece of a program leaves: \<open>cs\<close> on the screen, and memory changed in \<open>F\<close> only.\<close>

definition printed :: "(addr \<Rightarrow> bool) \<Rightarrow> string \<Rightarrow> ustate \<Rightarrow> kstate \<Rightarrow> 'a \<Rightarrow> ('a \<times> ustate \<times> kstate) option \<Rightarrow> bool" where
  "printed F cs u s a r \<longleftrightarrow> (\<exists>u' s'. r = Some (a, u', s') \<and> displayed cs s s' \<and> on_screen s' \<and> usp u' = usp u \<and>
     (\<forall>x. \<not> F x \<longrightarrow> umem u' x = umem u x))"

lemma printed_bind:
  assumes "printed F cs u s a (linked kt j0 (m u) s)"
    "\<And>u' s'. on_screen s' \<Longrightarrow> usp u' = usp u \<Longrightarrow> \<forall>x. \<not> F x \<longrightarrow> umem u' x = umem u x \<Longrightarrow>
      printed F ds u' s' b (linked kt j0 (f a u') s')"
  shows "printed F (cs @ ds) u s b (linked kt j0 (kbind m f u) s)"
proof -
  obtain u' s' where 1: "linked kt j0 (m u) s = Some (a, u', s')" "displayed cs s s'" "on_screen s'" "usp u' = usp u"
    "\<forall>x. \<not> F x \<longrightarrow> umem u' x = umem u x" using assms(1) by (auto simp: printed_def)
  obtain u'' s'' where 2: "linked kt j0 (f a u') s' = Some (b, u'', s'')" "displayed ds s' s''" "on_screen s''" "usp u'' = usp u'"
    "\<forall>x. \<not> F x \<longrightarrow> umem u'' x = umem u' x" using assms(2)[OF 1(3,4,5)] by (auto simp: printed_def)
  show ?thesis
    unfolding printed_def linked_bind[of kt j0 m u s a u' s' f, OF 1(1)] 2(1)
    using displayed_append[OF 1(2) 2(2)] 1(4,5) 2(3-5) by auto
qed

lemma printed_ret: "on_screen s \<Longrightarrow> printed F [] u s a (linked kt j0 (kret a u) s)"
  by (simp add: printed_def)

lemma printed_last:
  assumes "printed F cs u s () (linked kt j0 (m u) s)"
  shows "printed F cs u s a (linked kt j0 (kbind m (\<lambda>_. kret a) u) s)"
  using assms by (auto simp: printed_def linked_obind)

lemma write_prints:
  assumes "on_screen s" "p < 2 ^ 64" "\<forall>i < length cs. umem u (p + i) = cs ! i" "length cs < 2 ^ 31" "n = int (length cs)"
  shows "printed F cs u s () (linked kt j0 (write_u 1 p n u) s)"
proof -
  let ?e = "enter_kernel u s"
  have at: "proc_at ?e j = proc_at s j" "sched ?e = sched s" "terminal ?e = terminal s" "kmem ?e = umem u" for j
    by (simp_all add: enter_kernel_def proc_at_def)
  have ok: "sched_ok ?e" using assms(1) by (auto simp: on_screen_def enter_kernel_def sched_ok_def proc_ok_def split: option.splits)
  obtain t where t: "kdo (map printc cs) (terminal s) = Done () t"
    using prints_total[of "terminal s" cs] assms(1) by (auto simp: on_screen_def)
  have len: "to_uint64 n = length cs" using assms(4,5) by simp
  have "sysWrite_loop (length cs) p True ?e = Done () (?e\<lparr>terminal := t\<rparr>)"
    using sysWrite_loop_prints[of cs ?e p] assms(3) t by (simp add: at in_term_def)
  then have "sysWrite kt 1 p (length cs) 0 ?e = Done 0 (?e\<lparr>terminal := t\<rparr>)"
    using assms(1) by (simp add: sysWrite_def own_process_app[OF ok] at on_screen_def ret0_def)
  then have "linked kt j0 (write_u 1 p n u) s =
      Some ((), leave_kernel 0 (?e\<lparr>terminal := t\<rparr>) (u\<lparr>ucall := (1, [1, int p, n, 0])\<rparr>), ?e\<lparr>terminal := t\<rparr>)"
    unfolding write_u_def using assms(2) len by (intro linked_call80) (simp_all add: sysCalls_def to_uint64_nat)
  moreover have sh: "displayed cs s (?e\<lparr>terminal := t\<rparr>)" using t unfolding displayed_def enter_kernel_def by auto
  moreover note on_screen_shown[OF assms(1) sh]
  ultimately show ?thesis by (simp add: printed_def leave_kernel_def enter_kernel_def)
qed

lemma linked_local:
  assumes "printed F cs (u\<lparr>usp := usp u - n\<rparr>) s a (linked kt j0 (f (usp u - n) (u\<lparr>usp := usp u - n\<rparr>)) s)"
  shows "printed F cs u s a (linked kt j0 (with_local n f u) s)"
  using assms by (auto simp: printed_def with_local_def linked_obind Let_def)

lemma putchar_prints:
  assumes "on_screen s" "1 \<le> usp u" "usp u < 2 ^ 64" "F (usp u - 1)"
  shows "printed F [c] u s () (linked kt j0 (putchar_u c u) s)"
  unfolding putchar_u_def
proof (rule linked_local)
  let ?u = "u\<lparr>usp := usp u - 1\<rparr>" and ?v = "u\<lparr>usp := usp u - 1, umem := (umem u)(usp u - 1 := c)\<rparr>"
  have "printed F [c] ?v s () (linked kt j0 (write_u 1 (usp u - 1) 1 ?v) s)"
    by (rule write_prints[OF assms(1)]) (use assms(2,3) in simp_all)
  then show "printed F [c] ?u s () (linked kt j0 (kdo [upoke (usp u - 1) c, write_u 1 (usp u - 1) 1] ?u) s)"
    using assms(4) by (auto simp: printed_def upoke_def)
qed

text \<open>The text of a format.  A conversion that is left out has no text; a precision has one digit.  A precision is the number of
  characters, sign included: a longer number is cut off, and the zeros come in front of the sign.\<close>

definition directive :: "string \<Rightarrow> (int option \<times> char \<times> string) option" where
  "directive r = (case r of [] \<Rightarrow> None
     | k # r' \<Rightarrow> if k \<noteq> CHR ''.'' then Some (None, k, r')
       else (case r' of d # k # r' \<Rightarrow> if isDigit d \<and> \<not> isDigit k then Some (Some (schar d - 48), k, r') else None
         | _ \<Rightarrow> None))"

definition padded :: "int option \<Rightarrow> string \<Rightarrow> string" where
  "padded prec cs = (case prec of None \<Rightarrow> cs
     | Some p \<Rightarrow> replicate (nat p - length cs) CHR ''0'' @ take (nat p) cs)"

definition converted :: "(addr \<Rightarrow> string option) \<Rightarrow> int option \<Rightarrow> char \<Rightarrow> varg list \<Rightarrow> (string \<times> varg list) option" where
  "converted str prec k args =
     (if k = CHR ''d'' then
        (case args of VInt n # args \<Rightarrow> if INT_MIN < n \<and> n \<le> INT_MAX then Some (padded prec (decimal n), args) else None
         | _ \<Rightarrow> None)
      else if k = CHR ''c'' then (case args of VInt n # args \<Rightarrow> Some ([char_of (nat (n mod 256))], args) | _ \<Rightarrow> None)
      else if k = CHR ''s'' then (case args of VPtr p # args \<Rightarrow> map_option (\<lambda>cs. (cs, args)) (str p) | _ \<Rightarrow> None)
      else if k = CHR ''f'' then None else Some ([k], args))"

lemma directive_length: "directive r = Some (prec, k, r') \<Longrightarrow> length r' < length r"
  by (auto simp: directive_def split: list.splits if_splits)

function formatted :: "(addr \<Rightarrow> string option) \<Rightarrow> string \<Rightarrow> varg list \<Rightarrow> string option" where
  "formatted str fmt args = (case fmt of [] \<Rightarrow> Some []
     | c # r \<Rightarrow> if c \<noteq> CHR ''%'' then map_option (Cons c) (formatted str r args)
       else (case directive r of None \<Rightarrow> None
         | Some (prec, k, r) \<Rightarrow> (case converted str prec k args of None \<Rightarrow> None
           | Some (cs, args) \<Rightarrow> map_option ((@) cs) (formatted str r args))))"
  by pat_completeness auto
termination
  by (relation "measure (\<lambda>(str, fmt, args). length fmt)") (auto dest: directive_length)

declare formatted.simps [simp del]

lemma isDigit_values: "isDigit d \<Longrightarrow> 0 \<le> schar d - 48 \<and> schar d - 48 < 10 \<and> d \<noteq> CHR ''-''"
  by (auto simp: isDigit_def schar_def)

lemma parse_one_digit:
  assumes "isDigit d" "\<not> isDigit (m (p + 1))" "m p = d"
  shows "parseInt_u m p = Some (schar d - 48, 1)"
proof -
  note d = isDigit_values[OF assms(1)]
  have "parseInt_loop m (p + 1) v n = Some (v, n)" for v n using assms(2) by (subst parseInt_loop.simps) simp
  then have "parseInt_loop m p 0 0 = Some (schar d - 48, 1)"
    using d assms(1,3) by (subst parseInt_loop.simps) (simp add: INT_MAX_def)
  then show ?thesis using d assms(3) by (simp add: parseInt_u_def)
qed

lemma next_conv_directive: "directive r = Some (prec, k, r') \<Longrightarrow> next_conv r = Some (prec, k, Some r')"
proof -
  assume d: "directive r = Some (prec, k, r')"
  then obtain c q where r: "r = c # q" by (cases r) (auto simp: directive_def)
  show ?thesis
  proof (cases "c = CHR ''.''")
    case True
    then obtain d where q: "q = d # k # r'" "isDigit d" "\<not> isDigit k" "prec = Some (schar d - 48)"
      using \<open>directive r = _\<close> by (auto simp: directive_def r split: list.splits if_splits)
    have "parseInt_u (str_mem q) 0 = Some (schar d - 48, 1)"
      by (rule parse_one_digit) (use q in \<open>simp_all add: str_mem_def\<close>)
    then show ?thesis using True q by (simp add: next_conv_def r split_conv_def)
  next
    case False
    then show ?thesis using d by (simp add: next_conv_def directive_def r)
  qed
qed

lemma printed_kdo:
  assumes "\<And>u s. on_screen s \<Longrightarrow> P u \<Longrightarrow> printed F [c] u s () (linked kt j0 (m u) s)"
    "\<And>u u'. P u \<Longrightarrow> usp u' = usp u \<Longrightarrow> \<forall>x. \<not> F x \<longrightarrow> umem u' x = umem u x \<Longrightarrow> P u'" "on_screen s" "P u"
  shows "printed F (replicate n c) u s () (linked kt j0 (kdo (replicate n m) u) s)"
  using assms(3,4)
proof (induction n arbitrary: u s)
  case 0
  then show ?case using printed_ret[of s F u "()"] by (simp add: kskip_def)
next
  case (Suc n)
  have "printed F ([c] @ replicate n c) u s () (linked kt j0 (kbind m (\<lambda>_. kdo (replicate n m)) u) s)"
    by (rule printed_bind[where a = "()"]) (use Suc assms(1,2) in blast)+
  then show ?case by simp
qed

lemma strlen_u_str: "str_at m p cs \<Longrightarrow> strlen_u m p = Some (length cs)"
proof -
  have "str_at m p cs \<Longrightarrow> strlen_u_loop m p n = Some (n + length cs)" for n
  proof (induction cs arbitrary: p n)
    case Nil
    then show ?case by (subst strlen_u_loop.simps) simp
  next
    case (Cons c cs)
    then show ?case by (subst strlen_u_loop.simps) simp
  qed
  then show "str_at m p cs \<Longrightarrow> strlen_u m p = Some (length cs)" by (simp add: strlen_u_def)
qed

text \<open>The strings a program passes: outside of the part of the stack that \<open>printf\<close> uses.\<close>

definition strings_ok :: "(addr \<Rightarrow> bool) \<Rightarrow> (addr \<Rightarrow> string option) \<Rightarrow> mem \<Rightarrow> bool" where
  "strings_ok F str m \<longleftrightarrow> (\<forall>p cs. str p = Some cs \<longrightarrow>
     p < 2 ^ 64 \<and> length cs < 2 ^ 31 \<and> str_at m p cs \<and> (\<forall>i \<le> length cs. \<not> F (p + i)))"

lemma strings_ok_kept:
  assumes "strings_ok F str m" "\<forall>x. \<not> F x \<longrightarrow> m' x = m x"
  shows "strings_ok F str m'"
  unfolding strings_ok_def
proof (intro allI impI)
  fix p cs assume "str p = Some cs"
  then have p: "p < 2 ^ 64" "length cs < 2 ^ 31" "str_at m p cs" "\<forall>i \<le> length cs. \<not> F (p + i)"
    using assms(1) by (auto simp: strings_ok_def)
  have "m' (p + i) = m (p + i)" if "i \<le> length cs" for i using assms(2) p(4) that by blast
  then have "str_at m' p cs" using p(3) by (simp add: str_at_def)
  then show "p < 2 ^ 64 \<and> length cs < 2 ^ 31 \<and> str_at m' p cs \<and> (\<forall>i \<le> length cs. \<not> F (p + i))" using p by blast
qed

definition frame :: "addr \<Rightarrow> addr \<Rightarrow> bool" where
  "frame b x \<longleftrightarrow> b \<le> x + 1 \<and> x < b + 30"

text \<open>The program counts on a stack pointer in the address space, and on its strings.\<close>

definition calling :: "addr \<Rightarrow> (addr \<Rightarrow> string option) \<Rightarrow> ustate \<Rightarrow> bool" where
  "calling b str u \<longleftrightarrow> usp u = b \<and> 1 \<le> b \<and> b < 2 ^ 64 \<and> strings_ok (frame b) str (umem u)"

lemma calling_kept:
  "calling b str u \<Longrightarrow> usp u' = usp u \<Longrightarrow> \<forall>x. \<not> frame b x \<longrightarrow> umem u' x = umem u x \<Longrightarrow> calling b str u'"
  using strings_ok_kept[of "frame b" str "umem u" "umem u'"] by (simp add: calling_def)

lemma putchar_calling: "on_screen s \<Longrightarrow> calling b str u \<Longrightarrow> printed (frame b) [c] u s () (linked kt j0 (putchar_u c u) s)"
  by (rule putchar_prints) (auto simp: calling_def frame_def)

text \<open>The digits in the buffer, while zeros are put in front of them.\<close>

definition buffered :: "addr \<Rightarrow> (addr \<Rightarrow> string option) \<Rightarrow> string \<Rightarrow> ustate \<Rightarrow> bool" where
  "buffered b str cs u \<longleftrightarrow> calling b str u \<and> length cs \<le> 11 \<and> (\<forall>i < length cs. umem u (b + i) = cs ! i)"

definition around :: "addr \<Rightarrow> string \<Rightarrow> addr \<Rightarrow> bool" where
  "around b cs x \<longleftrightarrow> frame b x \<and> \<not> (b \<le> x \<and> x < b + length cs)"

lemma buffered_kept:
  assumes "buffered b str cs u" "usp u' = usp u" "\<forall>x. \<not> around b cs x \<longrightarrow> umem u' x = umem u x"
  shows "buffered b str cs u'"
proof -
  have "calling b str u'" by (rule calling_kept[of b str u]) (use assms in \<open>auto simp: buffered_def around_def\<close>)
  moreover have "umem u' (b + i) = umem u (b + i)" if "i < length cs" for i using assms(3) that by (simp add: around_def)
  ultimately show ?thesis using assms(1) by (simp add: buffered_def)
qed

lemma zeros_print:
  assumes "on_screen s" "buffered b str cs u"
  shows "printed (around b cs) (replicate n CHR ''0'') u s () (linked kt j0 (kdo (replicate n (putchar_u CHR ''0'')) u) s)"
proof (rule printed_kdo[where P = "buffered b str cs"])
  fix v t assume v: "on_screen t" "buffered b str cs v"
  show "printed (around b cs) [CHR ''0''] v t () (linked kt j0 (putchar_u CHR ''0'' v) t)"
    by (rule putchar_prints[OF v(1)]) (use v(2) in \<open>auto simp: buffered_def calling_def around_def frame_def\<close>)
qed (use assms buffered_kept in blast)+

lemma digits_print:
  assumes "on_screen s" "buffered b str cs u" "k \<le> length cs"
  shows "printed (around b cs) (take k cs) u s () (linked kt j0 (write_u 1 b (int k) u) s)"
  by (rule write_prints[OF assms(1)]) (use assms(2,3) in \<open>auto simp: buffered_def calling_def\<close>)

lemma padded_prints:
  assumes "on_screen s" "buffered b str cs u" "\<And>p. prec = Some p \<Longrightarrow> 0 \<le> p"
  defines "len \<equiv> int (length cs)"
  shows "printed (around b cs) (padded prec cs) u s args
    (linked kt j0 (kthen [case prec of Some p \<Rightarrow> kdo (replicate (nat (p - len)) (putchar_u CHR ''0'')) | None \<Rightarrow> kskip,
       write_u 1 b (case prec of Some p \<Rightarrow> if len > p then p else len | None \<Rightarrow> len)] (kret args) u) s)"
proof -
  let ?z = "case prec of Some p \<Rightarrow> nat (p - len) | None \<Rightarrow> 0" and ?k = "case prec of Some p \<Rightarrow> min (nat p) (length cs) | None \<Rightarrow> length cs"
  have z: "(case prec of Some p \<Rightarrow> kdo (replicate (nat (p - len)) (putchar_u CHR ''0'')) | None \<Rightarrow> kskip) =
      (kdo (replicate ?z (putchar_u CHR ''0'')) :: (ustate, unit) K)" by (simp split: option.split)
  have k: "(case prec of Some p \<Rightarrow> if len > p then p else len | None \<Rightarrow> len) = int ?k"
    using assms(3) by (auto simp: len_def split: option.split)
  have t: "padded prec cs = replicate ?z CHR ''0'' @ take ?k cs @ []"
    using assms(3) by (cases prec) (auto simp: padded_def len_def nat_diff_distrib' min_def)
  have le: "?k \<le> length cs" by (simp split: option.split)
  show ?thesis
    unfolding z k t kthen.simps
  proof (rule printed_bind)
    show "printed (around b cs) (replicate ?z CHR ''0'') u s () (linked kt j0 (kdo (replicate ?z (putchar_u CHR ''0'')) u) s)"
      by (rule zeros_print[OF assms(1,2)])
    fix v :: ustate and s' assume v: "on_screen s'" "usp v = usp u" "\<forall>x. \<not> around b cs x \<longrightarrow> umem v x = umem u x"
    show "printed (around b cs) (take ?k cs @ []) v s' args (linked kt j0 (kbind (write_u 1 b (int ?k)) (\<lambda>_. kret args) v) s')"
    proof (rule printed_bind)
      show "printed (around b cs) (take ?k cs) v s' () (linked kt j0 (write_u 1 b (int ?k) v) s')"
        by (rule digits_print[OF v(1) buffered_kept[OF assms(2) v(2,3)] le])
    qed (rule printed_ret)
  qed
qed

lemma number_prints:
  assumes "on_screen s" "calling b str u" "INT_MIN < n" "n \<le> INT_MAX" "\<And>p. prec = Some p \<Longrightarrow> 0 \<le> p"
  shows "printed (frame b) (padded prec (decimal n)) u s args
    (linked kt j0 (printf_conv fl b prec (CHR ''d'') (VInt n # args) u) s)"
proof -
  obtain m' where m': "itoa_u n b 10 (umem u) = Some (int (length (decimal n)), m')" "str_at m' b (decimal n)"
    "length (decimal n) \<le> 11" "\<forall>a. a < b \<or> b + length (decimal n) < a \<longrightarrow> m' a = umem u a"
    using itoa_decimal[OF assms(3,4), of b "umem u"] by blast
  let ?u = "u\<lparr>umem := m'\<rparr>"
  have keep: "m' x = umem u x" if "\<not> frame b x" for x using that m'(3,4) by (auto simp: frame_def)
  have c: "calling b str ?u" by (rule calling_kept[OF assms(2)]) (use keep in simp_all)
  then have buf: "buffered b str (decimal n) ?u" using m'(2,3) by (simp add: buffered_def str_at_def)
  note pr = padded_prints[OF assms(1) buf assms(5), of prec args kt j0]
  show ?thesis
    unfolding printf_conv_def using pr m'(1) keep by (auto simp: printed_def on_mem_def around_def)
qed

lemma conv_prints:
  assumes "on_screen s" "calling b str u" "converted str prec k args = Some (cs, args')" "\<And>p. prec = Some p \<Longrightarrow> 0 \<le> p"
  shows "printed (frame b) cs u s args' (linked kt j0 (printf_conv fl b prec k args u) s)"
proof -
  consider (d) "k = CHR ''d''" | (c) "k = CHR ''c''" | (s) "k = CHR ''s''"
    | (other) "k \<noteq> CHR ''d''" "k \<noteq> CHR ''c''" "k \<noteq> CHR ''s''" "k \<noteq> CHR ''f''"
    using assms(3) by (auto simp: converted_def split: if_splits)
  then show ?thesis
  proof cases
    case d
    then obtain n where "args = VInt n # args'" "INT_MIN < n" "n \<le> INT_MAX" "cs = padded prec (decimal n)"
      using assms(3) by (auto simp: converted_def split: list.splits varg.splits if_splits)
    then show ?thesis using number_prints[OF assms(1,2) _ _ assms(4)] d by simp
  next
    case c
    then obtain n where n: "args = VInt n # args'" "cs = [char_of (nat (n mod 256))]"
      using assms(3) by (auto simp: converted_def split: list.splits varg.splits)
    have "printed (frame b) cs u s args' (linked kt j0 (kbind (putchar_u (char_of (nat (n mod 256)))) (\<lambda>_. kret args') u) s)"
      unfolding n(2) by (rule printed_last) (rule putchar_calling[OF assms(1,2)])
    then show ?thesis using c n(1) by (simp add: printf_conv_def)
  next
    case s
    then obtain p where p: "args = VPtr p # args'" "str p = Some cs"
      using assms(3) by (auto simp: converted_def split: list.splits varg.splits)
    then have ok: "p < 2 ^ 64" "length cs < 2 ^ 31" "str_at (umem u) p cs"
      using assms(2) by (auto simp: calling_def strings_ok_def)
    have "printed (frame b) cs u s () (linked kt j0 (write_u 1 p (int (length cs)) u) s)"
      by (rule write_prints[OF assms(1) ok(1)]) (use ok in \<open>simp_all add: str_at_def\<close>)
    then have "printed (frame b) cs u s args' (linked kt j0 (kbind (write_u 1 p (int (length cs))) (\<lambda>_. kret args') u) s)"
      by (rule printed_last)
    then show ?thesis using s p(1) ok strlen_u_str[OF ok(3)] by (simp add: printf_conv_def)
  next
    case other
    then have k: "args' = args" "cs = [k]" using assms(3) by (simp_all add: converted_def)
    have "printed (frame b) cs u s args' (linked kt j0 (kbind (putchar_u k) (\<lambda>_. kret args) u) s)"
      unfolding k by (rule printed_last) (rule putchar_calling[OF assms(1,2)])
    then show ?thesis using other k(1) by (simp add: printf_conv_def)
  qed
qed

lemma loop_prints:
  assumes "on_screen s" "calling b str u" "formatted str fmt args = Some cs"
  shows "printed (frame b) cs u s 0 (linked kt j0 (printf_loop fl b fmt args u) s)"
  using assms
proof (induction fmt arbitrary: args cs u s rule: length_induct)
  case (1 fmt)
  note F = "1.prems"(3)[unfolded formatted.simps[of str fmt args]]
  show ?case
  proof (cases fmt)
    case Nil
    then show ?thesis using F "1.prems"(1) printed_ret by (simp add: printf_loop.simps)
  next
    case (Cons c r)
    show ?thesis
    proof (cases "c = CHR ''%''")
      case False
      then obtain ds where ds: "formatted str r args = Some ds" "cs = [c] @ ds" using F Cons by auto
      have "printed (frame b) ([c] @ ds) u s 0 (linked kt j0 (kbind (putchar_u c) (\<lambda>_. printf_loop fl b r args) u) s)"
      proof (rule printed_bind)
        show "printed (frame b) [c] u s () (linked kt j0 (putchar_u c u) s)" by (rule putchar_calling[OF "1.prems"(1,2)])
        fix v :: ustate and s' assume v: "on_screen s'" "usp v = usp u" "\<forall>x. \<not> frame b x \<longrightarrow> umem v x = umem u x"
        show "printed (frame b) ds v s' 0 (linked kt j0 (printf_loop fl b r args v) s')"
          using "1.IH" v(1) calling_kept[OF "1.prems"(2) v(2,3)] ds(1) Cons by simp
      qed
      then show ?thesis using False Cons ds(2) by (simp add: printf_loop.simps[of fl b "c # r"])
    next
      case True
      obtain prec k r' es args' ds where d: "directive r = Some (prec, k, r')" "converted str prec k args = Some (es, args')"
        "formatted str r' args' = Some ds" "cs = es @ ds"
        using F Cons True by (auto split: option.splits)
      have "0 \<le> p" if "prec = Some p" for p
        using d(1) that isDigit_values by (auto simp: directive_def split: list.splits if_splits)
      note conv = conv_prints[OF "1.prems"(1,2) d(2) this]
      have "printed (frame b) (es @ ds) u s 0 (linked kt j0 (kbind (printf_conv fl b prec k args) (\<lambda>args. printf_loop fl b r' args) u) s)"
      proof (rule printed_bind)
        show "printed (frame b) es u s args' (linked kt j0 (printf_conv fl b prec k args u) s)" by (rule conv)
        fix v :: ustate and s' assume v: "on_screen s'" "usp v = usp u" "\<forall>x. \<not> frame b x \<longrightarrow> umem v x = umem u x"
        show "printed (frame b) ds v s' 0 (linked kt j0 (printf_loop fl b r' args' v) s')"
          using "1.IH" v(1) calling_kept[OF "1.prems"(2) v(2,3)] d(3) Cons directive_length[OF d(1)] by simp
      qed
      then show ?thesis using True Cons d(4) next_conv_directive[OF d(1)] by (simp add: printf_loop.simps[of fl b "CHR ''%'' # r"])
    qed
  qed
qed

section \<open>System calls\<close>

text \<open>The wrappers of the C library, and the handlers of the kernel.\<close>

lemmas user_calls = wait_u_def signal_u_def createSemaphore_u_def releaseSemaphore_u_def mutexUp_u_def mutexDown_u_def
  createMutex_u_def releaseMutex_u_def createChannel_u_def send_u_def receive_u_def openPipe_u_def closePipe_u_def
  kill_u_def getpid_u_def joinThread_u_def terminateThread_u_def runProcess_u_def runModule_u_def shellPipe_u_def
  addThread_u_def setTimeZone_u_def clear_u_def writeCharAtScreenPos_u_def write_u_def read_u_def deleteChannel_u_def
  updateTime_def updateDate_def echo_u_def sleep_u_def

lemmas kernel_calls = sysWait_def sysSignal_def sysCreateSemaphore_def sysReleaseSemaphre_def sysUpMutex_def
  sysDownMutex_def sysCreateMutex_def sysReleaseMutex_def sysCreateChannel_def sysSend_def sysReceive_def sysOpenPipe_def
  sysClosePipe_def sysKill_def sysGetPid_def sysJoinThread_def sysKillThread_def sysSetTimeZone_def sysClear_def
  sysWriteCharAtScreenPos_def sysDeleteChannel_def sysGetTime_def sysGetDate_def sysEcho_def sysSleep_def

text \<open>A wrapper traps once, changes nothing of the program but the registers, and returns the kernel's answer or nothing;
  \<open>m\<close> is what the kernel does.\<close>

definition answered :: "killer \<Rightarrow> int \<Rightarrow> (ustate, int) K \<Rightarrow> ustate \<Rightarrow> int KS \<Rightarrow> bool" where
  "answered kt j0 p u m \<longleftrightarrow> (\<exists>c. p u = Yield (u\<lparr>ucall := c\<rparr>) (\<lambda>v. Done (uret v) v) \<and> trap kt j0 c = m)"

definition obeyed :: "killer \<Rightarrow> int \<Rightarrow> (ustate, unit) K \<Rightarrow> ustate \<Rightarrow> int KS \<Rightarrow> bool" where
  "obeyed kt j0 p u m \<longleftrightarrow> (\<exists>c. p u = Yield (u\<lparr>ucall := c\<rparr>) (\<lambda>v. Done () v) \<and> trap kt j0 c = m)"

lemma answered_int80: "0 \<le> n \<Longrightarrow> n < 34 \<Longrightarrow>
    (sysCalls kt j0 ! nat n) (to_uint64 a) (to_uint64 b) (to_uint64 c) (to_uint64 d) = m \<Longrightarrow>
    answered kt j0 (int80 n a b c d) u m"
  unfolding answered_def by (rule exI[of _ "(n, [a, b, c, d])"]) (simp add: int80_def trap_call)

lemma obeyed_call80: "0 \<le> n \<Longrightarrow> n < 34 \<Longrightarrow>
    (sysCalls kt j0 ! nat n) (to_uint64 a) (to_uint64 b) (to_uint64 c) (to_uint64 d) = m \<Longrightarrow>
    obeyed kt j0 (call80 n a b c d) u m"
  unfolding obeyed_def by (rule exI[of _ "(n, [a, b, c, d])"]) (simp add: int80_def call80_def trap_call)

lemma uint64_int: "int32 i \<Longrightarrow> int (to_uint64 i) = (if i < 0 then i + 2 ^ 64 else i)"
proof -
  assume "int32 i"
  then have i: "- (2 ^ 31) \<le> i" "i < 2 ^ 31" by (simp_all add: int32_def)
  have "i mod 2 ^ 64 = i + 2 ^ 64" if "i < 0"
    using i that mod_pos_pos_trivial[of "i + 2 ^ 64" "2 ^ 64"] by simp
  then show ?thesis using i by (simp add: to_uint64_def)
qed

lemma uint64_fd:
  assumes "int32 i"
  shows "(to_uint64 i = 0) = (i = 0)" "(to_uint64 i = Suc 0) = (i = 1)" "(to_uint64 i = 2) = (i = 2)"
    "(2 < to_uint64 i) = (i < 0 \<or> 2 < i)"
  using uint64_int[OF assms] assms by (auto simp: int32_def split: if_splits)

lemma word_uint64: "(of_nat (to_uint64 i) :: u8) = of_int i" "(of_nat (to_uint64 i) :: 64 word) = of_int i"
  by (simp_all add: to_uint64_def word_of_int_eq_iff take_bit_eq_mod mod_mod_cancel)
text \<open>What the kernel does with the numbers of the program itself: reading, writing, and starting a process.\<close>

definition reading :: "killer \<Rightarrow> int \<Rightarrow> addr \<Rightarrow> int \<Rightarrow> bool \<Rightarrow> int KS" where
  "reading kt fd buffer n noBlock = own_process (\<lambda>pr. let pipe = pr_standardPipes pr 0 in
     if fd < 0 \<or> 2 < fd \<or> pipe \<noteq> -1 then
       with_pid_thread (\<lambda>pid t. kbind (readPipe kt (if pipe = -1 then fd else pipe) buffer n pid t) (\<lambda>_. kret 0))
     else ret0 (kdo [
       with_pid_thread (\<lambda>pid t. kbind (isForeground pid) (\<lambda>fg.
         kwhen (\<not> fg \<and> fd = 0) [changeThreadState pid t BLOCKED, yield])),
       kwhen (fd = 0) [sysRead_loop (to_uint64 n) buffer noBlock]]))"

definition writing :: "killer \<Rightarrow> int \<Rightarrow> addr \<Rightarrow> int \<Rightarrow> int KS" where
  "writing kt fd buffer n = own_process (\<lambda>pr. let pipe = pr_standardPipes pr 1 in
     if (fd = 1 \<or> fd = 2) \<and> pipe = -1 then ret0 (sysWrite_loop (to_uint64 n) buffer (fd = 1))
     else with_pid_thread (\<lambda>pid t.
       kbind (writePipe kt (if pipe = -1 then fd else pipe) buffer n pid t) (\<lambda>_. kret 0)))"

definition started :: "killer \<Rightarrow> addr \<Rightarrow> int \<Rightarrow> addr \<Rightarrow> (addr \<Rightarrow> unit KS list) \<Rightarrow> int KS" where
  "started kt entryPoint argc argv after = kbind (backupArguments kt argc argv) (\<lambda>args.
     if args = NULL then kfault NullDeref
     else kwith (\<lambda>s. with_str (kptrs s args) (\<lambda>name.
       kbind (createProcess kt entryPoint argc args name) (\<lambda>process.
       kbind (addProcess process) (\<lambda>ret. kthen (after process) (kret ret))))))"

definition on_screen_now :: "addr \<Rightarrow> unit KS list" where
  "on_screen_now process = [sleep_foreground, with_proc process (\<lambda>pr. setForeground (pr_pid pr))]"

lemma kbind_fault [simp]: "kbind (kfault e) f = kfault e"
  by (simp add: fun_eq_iff)

lemma kbind_if: "kbind (if b then m else n) f = (if b then kbind m f else kbind n f)"
  by simp

lemma kbind_with: "kbind (kwith g) f = kwith (\<lambda>s. kbind (g s) f)"
  by (simp add: fun_eq_iff)

lemma kbind_with_str: "kbind (with_str p g) f = with_str p (\<lambda>str. kbind (g str) f)"
  by (simp add: with_str_def fun_eq_iff split: option.split)

lemma sysRead_reading:
  assumes "int32 i" "int32 n"
  shows "sysRead kt (to_uint64 i) p (to_uint64 n) b = reading kt i p n (b \<noteq> 0)"
  unfolding sysRead_def reading_def uint64_fd[OF assms(1)] to_int32_uint64[OF assms(1)] to_int32_uint64[OF assms(2)]
    disj_assoc ..

lemma sysWrite_writing:
  assumes "int32 i" "int32 n"
  shows "sysWrite kt (to_uint64 i) p (to_uint64 n) b = writing kt i p n"
  unfolding sysWrite_def writing_def
  by (simp only: One_nat_def uint64_fd[OF assms(1)] to_int32_uint64[OF assms(1)] to_int32_uint64[OF assms(2)])

lemma spawn_started:
  assumes "int32 i"
  shows "kbind (spawn kt e (to_uint64 i) q) (\<lambda>(process, ret). kthen (after process) (kret ret)) = started kt e i q after"
  unfolding spawn_def started_def to_int32_uint64[OF assms] kbind_assoc kbind_if kbind_with kbind_with_str kbind_fault
    kret_bind prod.case ..

lemma run_started:
  assumes "int32 i" "int32 n"
  shows "sysRunProcess kt e (to_uint64 i) q (to_uint64 n) =
    started kt e i q (\<lambda>process. [kwhen (n = 0) (on_screen_now process), yield])"
  unfolding sysRunProcess_def uint64_fd(1)[OF assms(2)] on_screen_now_def spawn_started[OF assms(1), symmetric] ..

lemma module_started:
  assumes "int32 i" "int32 n"
  shows "sysRunModule kt p (to_uint64 i) q (to_uint64 n) = with_str p (\<lambda>name. kwith (\<lambda>s.
    let address = getModuleAddress s name in
    if address \<noteq> NULL then started kt address i q (\<lambda>process. [kwhen (n = 0) (on_screen_now process), yield])
    else kret (-1)))"
  unfolding sysRunModule_def run_started[OF assms] ..

lemma pipe_started:
  assumes "int32 i" "int32 n"
  shows "sysPipeStd kt p (to_uint64 i) q (to_uint64 n) = with_str p (\<lambda>name. kwith (\<lambda>s.
    let address = getModuleAddress s name in
    if address = NULL then kret (-1)
    else started kt address i q (\<lambda>process. on_screen_now process @ [
      kbind (getPipe kt ''ShellPipe'') (\<lambda>pipe. upd_proc process (\<lambda>pr.
        pr\<lparr>pr_standardPipes := (pr_standardPipes pr)((if n \<noteq> 0 then 1 else 0) := pipe)\<rparr>)), yield])))"
  unfolding sysPipeStd_def uint64_fd(1)[OF assms(2)] on_screen_now_def append.simps spawn_started[OF assms(1), symmetric] ..

lemma thread_started:
  assumes "int32 i"
  shows "sysAddThread kt p (to_uint64 i) q b = kbind (backupArguments kt i q) (\<lambda>args.
    kbind (createThread kt i args p) (\<lambda>thread. kbind getpid (\<lambda>pid. kbind (getProcess pid) (\<lambda>pr. addThread pr thread))))"
  unfolding sysAddThread_def to_int32_uint64[OF assms] ..

text \<open>The three \<open>int\<close>s of a \<open>time\<close> or a \<open>date\<close>.\<close>

lemma three_ints: "a + 8 < 2 ^ 64 \<Longrightarrow> to_uint64 (int a) = a \<and> to_uint64 (int (a + 4)) = a + 4 \<and> to_uint64 (int (a + 8)) = a + 8"
  by (intro conjI to_uint64_nat) simp_all

lemma updateTime_obeyed:
  assumes "a + 8 < 2 ^ 64"
  shows "obeyed kt j0 (updateTime a) u (ret0 (kdo [
    kbind (getTime HOURS) (\<lambda>v. set_int a (uint v)), kbind (getTime MINUTES) (\<lambda>v. set_int (a + 4) (uint v)),
    kbind (getTime SECONDS) (\<lambda>v. set_int (a + 8) (uint v))]))"
  unfolding updateTime_def using three_ints[OF assms]
  by (intro obeyed_call80) (simp_all add: sysCalls_def sysGetTime_def)

lemma updateDate_obeyed:
  assumes "a + 8 < 2 ^ 64"
  shows "obeyed kt j0 (updateDate a) u (ret0 (kdo [
    kbind (getTime DAY) (\<lambda>v. set_int a (uint v)), kbind (getTime MONTH) (\<lambda>v. set_int (a + 4) (uint v)),
    kbind (getTime YEAR) (\<lambda>v. set_int (a + 8) (uint v))]))"
  unfolding updateDate_def using three_ints[OF assms]
  by (intro obeyed_call80) (simp_all add: sysCalls_def sysGetDate_def)

text \<open>\<open>getch\<close> does not wait for a key: its character is on its stack.\<close>

lemma getch_reads:
  assumes "usp u \<le> 2 ^ 64" "1 \<le> usp u"
  shows "\<exists>c. getch_u u = Yield (u\<lparr>usp := usp u - 1, ucall := c\<rparr>) (\<lambda>v. Done (umem v (usp u - 1)) (v\<lparr>usp := usp u\<rparr>)) \<and>
    trap kt j0 c = reading kt 0 (usp u - 1) 1 True"
proof (intro exI[of _ "(0, [0, int (usp u - 1), 1, 1])"] conjI)
  show "getch_u u = Yield (u\<lparr>usp := usp u - 1, ucall := (0, [0, int (usp u - 1), 1, 1])\<rparr>)
      (\<lambda>v. Done (umem v (usp u - 1)) (v\<lparr>usp := usp u\<rparr>))"
    by (simp add: getch_u_def with_local_def call80_def int80_def Let_def kskip_def)
  have p: "to_uint64 (int (usp u - 1)) = usp u - 1" using assms by (intro to_uint64_nat) linarith
  have "sysRead kt (to_uint64 0) (usp u - 1) (to_uint64 1) (to_uint64 1) = reading kt 0 (usp u - 1) 1 True"
    by (subst sysRead_reading) (simp_all add: int32_def)
  then show "trap kt j0 (0, [0, int (usp u - 1), 1, 1]) = reading kt 0 (usp u - 1) 1 True"
    unfolding trap_call[OF order.refl, of kt j0, simplified] p by (simp add: sysCalls_def)
qed

lemmas started_calls = sysRead_reading sysWrite_writing run_started module_started pipe_started thread_started
  updateTime_obeyed updateDate_obeyed getch_reads word_uint64

section \<open>Properties\<close>

text \<open>C4: What \<open>printf\<close> prints, from the format down to the screen: a process that writes to the screen and calls \<open>printf\<close>
  gets 0 back, and exactly the text of the format with its arguments was printed by the terminal, character by character:
  numbers in decimal with the precision asked for, characters and strings.  The call returns, no other part of the kernel changes,
  and of the memory of the program only the stack below its stack pointer.\<close>

theorem printf_prints:
  assumes "on_screen s" "formatted str fmt args = Some cs" "31 \<le> usp u" "usp u < 2 ^ 64"
    "strings_ok (\<lambda>x. usp u - 31 \<le> x \<and> x < usp u) str (umem u)"
  shows "\<exists>u' s'. linked kt j0 (printf_u fl fmt args u) s = Some (0, u', s') \<and> displayed cs s s' \<and> on_screen s' \<and>
    usp u' = usp u \<and> (\<forall>x. x < usp u - 31 \<or> usp u \<le> x \<longrightarrow> umem u' x = umem u x)"
proof -
  let ?b = "usp u - 30" and ?v = "u\<lparr>usp := usp u - 30\<rparr>"
  have F: "frame ?b = (\<lambda>x. usp u - 31 \<le> x \<and> x < usp u)" using assms(3) by (auto simp: frame_def fun_eq_iff)
  have "calling ?b str ?v" using assms(3-5) F by (simp add: calling_def) linarith
  then have "printed (frame ?b) cs ?v s 0 (linked kt j0 (printf_loop fl ?b fmt args ?v) s)"
    using assms(1,2) by (intro loop_prints)
  then have "printed (frame ?b) cs u s 0 (linked kt j0 (printf_u fl fmt args u) s)"
    unfolding printf_u_def by (rule linked_local)
  then show ?thesis unfolding F printed_def by (auto simp: not_le)
qed

definition ex_term :: "term_state \<Rightarrow> term_state" where
  "ex_term t = t\<lparr>cursorX := 0, cursorY := 0, videoCursorX := 0, videoCursorY := 0\<rparr>"

lemma ex_on_screen: "on_screen (ex_state s\<lparr>terminal := ex_term t\<rparr>)"
proof -
  let ?s = "ex_state s\<lparr>terminal := ex_term t\<rparr>"
  have "sched_ok ?s" using ex_sched_ok[of s] by (auto simp: sched_ok_def proc_ok_def split: option.splits)
  moreover have "pr_standardPipes (proc_at ?s (current (sched ?s))) 1 = -1"
    by (simp add: proc_at_def ex_state_def ex_sched_def ex_proc_def)
  moreover have "term_ok (ex_term t)" by (simp add: term_ok_def ex_term_def WIDTH_def HEIGHT_def)
  ultimately show ?thesis by (simp add: on_screen_def)
qed

text \<open>A program that prints its name and a number with three digits.\<close>

definition ex_program :: "ustate \<Rightarrow> ustate" where
  "ex_program u = u\<lparr>usp := 1000, umem := (\<lambda>_. NUL)(2000 := CHR ''B'', 2001 := CHR ''o'', 2002 := CHR ''b'')\<rparr>"

definition ex_strings :: "addr \<Rightarrow> string option" where
  "ex_strings = [2000 \<mapsto> ''Bob'']"

lemma ex_formatted: "formatted ex_strings ''%s: %.3d%c'' [VPtr 2000, VInt 7, VInt 33] = Some ''Bob: 007!''"
proof -
  have "char_of (33 :: nat) = CHR ''!''" by code_simp
  moreover have "decimal 7 = ''7''" by (simp add: decimal_def digits_of.simps digit_char_def) code_simp
  ultimately show ?thesis
    by (simp add: numeral_eq_Suc[of "num.Bit0 num.One"] formatted.simps directive_def converted_def ex_strings_def padded_def isDigit_def schar_def INT_MIN_def INT_MAX_def)
qed

text \<open>A negative number with a precision.\<close>

lemma padded_negative: "padded (Some 3) (decimal (-5)) = ''0-5''"
proof -
  have "decimal (-5) = ''-5''" by (simp add: decimal_def digits_of.simps digit_char_def) code_simp
  then show ?thesis by (simp add: padded_def)
qed

lemma ex_strings_ok: "strings_ok (\<lambda>x. 969 \<le> x \<and> x < 1000) ex_strings (umem (ex_program u))"
  by (auto simp: strings_ok_def ex_strings_def ex_program_def str_at_def less_Suc_eq numeral_eq_Suc[of "num.Bit1 num.One"]
      split: if_splits)

theorem printf_prints_witness:
  "\<forall>s (t :: term_state) u kt j0 fl. \<exists>u' s'. linked kt j0 (printf_u fl ''%s: %.3d%c'' [VPtr 2000, VInt 7, VInt 33] (ex_program u))
     (ex_state s\<lparr>terminal := ex_term t\<rparr>) = Some (0, u', s') \<and> displayed ''Bob: 007!'' (ex_state s\<lparr>terminal := ex_term t\<rparr>) s'"
proof (intro allI)
  fix s t u kt j0 fl
  have "usp (ex_program u) = 1000" by (simp add: ex_program_def)
  then show "\<exists>u' s'. linked kt j0 (printf_u fl ''%s: %.3d%c'' [VPtr 2000, VInt 7, VInt 33] (ex_program u))
     (ex_state s\<lparr>terminal := ex_term t\<rparr>) = Some (0, u', s') \<and> displayed ''Bob: 007!'' (ex_state s\<lparr>terminal := ex_term t\<rparr>) s'"
    using printf_prints[OF ex_on_screen ex_formatted, of "ex_program u" kt j0 fl] ex_strings_ok[of u]
    by simp blast
qed

text \<open>C31: Every function of the C library that is a system call: the program gives the processor up once, with only its registers
  changed, and gets back what the kernel answers, or nothing.  Through the number in the register and the table of the kernel
  the kernel function of its purpose runs, with the arguments the program gave: the sign of an \<open>int\<close> survives the 64-bit registers,
  except for \<open>echo\<close>, whose flag is cut to a byte, and \<open>sleep\<close>, whose time is taken as unsigned.  For \<open>read\<close>, \<open>write\<close> and the calls
  that start something, this goes through the handler down to the calls of the pipes, the terminal and the scheduler.\<close>

theorem calls_reach_kernel:
  assumes "int32 i" "int32 j" "int32 n" "p < 2 ^ 64" "q < 2 ^ 64" "a + 8 < 2 ^ 64" "usp u \<le> 2 ^ 64" "1 \<le> usp u"
  shows "obeyed kt j0 (read_u i p n) u (reading kt i p n False) \<and>
    obeyed kt j0 (write_u i p n) u (writing kt i p n) \<and>
    obeyed kt j0 clear_u u (ret0 (in_term clearScreen)) \<and>
    obeyed kt j0 (echo_u i) u (ret0 (in_term (setEcho (of_int i)))) \<and>
    obeyed kt j0 (writeCharAtScreenPos_u c i j) u (ret0 (in_term (printCharAtPos c i j))) \<and>
    obeyed kt j0 (sleep_u l) u (ret0 (with_pid_thread (\<lambda>pid t. sleep (of_int l) pid t))) \<and>
    obeyed kt j0 (updateTime a) u (ret0 (kdo [
      kbind (getTime HOURS) (\<lambda>v. set_int a (uint v)), kbind (getTime MINUTES) (\<lambda>v. set_int (a + 4) (uint v)),
      kbind (getTime SECONDS) (\<lambda>v. set_int (a + 8) (uint v))])) \<and>
    obeyed kt j0 (updateDate a) u (ret0 (kdo [
      kbind (getTime DAY) (\<lambda>v. set_int a (uint v)), kbind (getTime MONTH) (\<lambda>v. set_int (a + 4) (uint v)),
      kbind (getTime YEAR) (\<lambda>v. set_int (a + 8) (uint v))])) \<and>
    obeyed kt j0 (setTimeZone_u i) u (ret0 (setTimeZone i)) \<and>
    answered kt j0 (createChannel_u i) u
      (kbind getpid (\<lambda>pid. kbind (createChannel kt pid i) (\<lambda>ch. kret (if ch = NULL then -1 else 0)))) \<and>
    answered kt j0 (send_u i p n) u (sendMessage kt i p n) \<and>
    answered kt j0 (receive_u i p n) u (kbind (receiveMessage kt i n) (\<lambda>result.
      if result \<noteq> NULL then kthen [copy_to p result (to_uint64 n), ignore (freeMemory kt result)] (kret 0) else kret (-1))) \<and>
    obeyed kt j0 (deleteChannel_u i) u (ret0 (kbind getpid (\<lambda>pid.
      kbind (getChannelFromList i pid) (\<lambda>ch. kwhen (ch \<noteq> NULL) [removeChannelFromList kt ch])))) \<and>
    answered kt j0 (createMutex_u p) u (with_str p (\<lambda>str. with_pid_thread (\<lambda>pid t. getMutex kt str pid t))) \<and>
    obeyed kt j0 (releaseMutex_u i) u (bool_int (with_pid_thread (\<lambda>pid t. releaseMutex kt pid i t))) \<and>
    obeyed kt j0 (mutexUp_u i) u (ret0 (with_pid_thread (\<lambda>pid t. mutexUp i pid t))) \<and>
    obeyed kt j0 (mutexDown_u i) u (ret0 (with_pid_thread (\<lambda>pid t. mutexDown kt i pid t))) \<and>
    answered kt j0 (createSemaphore_u p) u (with_str p (\<lambda>str. with_pid_thread (\<lambda>pid t. getSemaphore kt str pid t))) \<and>
    obeyed kt j0 (releaseSemaphore_u i) u (bool_int (with_pid_thread (\<lambda>pid t. releaseSemaphore kt pid i t))) \<and>
    obeyed kt j0 (signal_u i) u (ret0 (signal kt i)) \<and>
    obeyed kt j0 (wait_u i) u (ret0 (with_pid_thread (\<lambda>pid t. wait kt i pid t))) \<and>
    answered kt j0 (openPipe_u p) u (with_str p (getPipe kt)) \<and>
    answered kt j0 (closePipe_u i) u (with_pid_thread (\<lambda>pid t. deletePipe kt i pid t)) \<and>
    obeyed kt j0 (kill_u i) u (ret0 (kdo [killProcess kt i, yield])) \<and>
    answered kt j0 getpid_u u getpid \<and>
    answered kt j0 (joinThread_u i) u
      (ret0 (with_pid_thread (\<lambda>pid t. kbind (getProcess pid) (\<lambda>pr. joinThread pr t i)))) \<and>
    answered kt j0 (terminateThread_u i) u
      (ret0 (kdo [kbind getpid (\<lambda>pid. kbind (getProcess pid) (\<lambda>pr. terminateThread kt pr i)), yield])) \<and>
    answered kt j0 (addThread_u p i q) u (kbind (backupArguments kt i q) (\<lambda>args.
      kbind (createThread kt i args p) (\<lambda>thread. kbind getpid (\<lambda>pid. kbind (getProcess pid) (\<lambda>pr. addThread pr thread))))) \<and>
    answered kt j0 (runProcess_u p i q n) u
      (started kt p i q (\<lambda>process. [kwhen (n = 0) (on_screen_now process), yield])) \<and>
    answered kt j0 (runModule_u p i q n) u (with_str p (\<lambda>name. kwith (\<lambda>s. let address = getModuleAddress s name in
      if address \<noteq> NULL then started kt address i q (\<lambda>process. [kwhen (n = 0) (on_screen_now process), yield])
      else kret (-1)))) \<and>
    answered kt j0 (shellPipe_u p i q n) u (with_str p (\<lambda>name. kwith (\<lambda>s. let address = getModuleAddress s name in
      if address = NULL then kret (-1)
      else started kt address i q (\<lambda>process. on_screen_now process @ [
        kbind (getPipe kt ''ShellPipe'') (\<lambda>pipe. upd_proc process (\<lambda>pr.
          pr\<lparr>pr_standardPipes := (pr_standardPipes pr)((if n \<noteq> 0 then 1 else 0) := pipe)\<rparr>)), yield])))) \<and>
    (\<exists>c.
      getch_u u = Yield (u\<lparr>usp := usp u - 1, ucall := c\<rparr>) (\<lambda>v. Done (umem v (usp u - 1)) (v\<lparr>usp := usp u\<rparr>)) \<and>
      trap kt j0 c = reading kt 0 (usp u - 1) 1 True)"
  unfolding runModule_u_def shellPipe_u_def
  using assms
  by (intro conjI getch_reads updateTime_obeyed updateDate_obeyed answered_int80[of 7] answered_int80[of 33])
     (simp_all add: user_calls answered_int80 obeyed_call80 sysCalls_def kernel_calls to_int32_uint64 to_uint64_nat char_uint64 started_calls)

theorem calls_reach_kernel_witness:
  "\<forall>kt j0. \<exists>u :: ustate. usp u = 4096 \<and>
    obeyed kt j0 (write_u 1 2000 3) u (writing kt 1 2000 3) \<and>
    obeyed kt j0 (echo_u 1) u (ret0 (in_term (setEcho 1))) \<and>
    answered kt j0 (joinThread_u (-1)) u
      (ret0 (with_pid_thread (\<lambda>pid t. kbind (getProcess pid) (\<lambda>pr. joinThread pr t (-1))))) \<and>
    answered kt j0 (runProcess_u 2000 1 3000 0) u
      (started kt 2000 1 3000 (\<lambda>process. [kwhen ((0 :: int) = 0) (on_screen_now process), yield])) \<and>
    (\<exists>c. getch_u u = Yield (u\<lparr>usp := 4095, ucall := c\<rparr>) (\<lambda>v. Done (umem v 4095) (v\<lparr>usp := 4096\<rparr>)) \<and>
      trap kt j0 c = reading kt 0 4095 1 True)"
proof (rule allI, rule allI, rule exI, intro conjI)
  fix kt j0 and u :: ustate
  let ?u = "u\<lparr>usp := 4096\<rparr>"
  have i: "int32 1" "int32 (-1)" "int32 0" "int32 3" by (simp_all add: int32_def)
  have p: "(2000 :: nat) < 2 ^ 64" "(3000 :: nat) < 2 ^ 64" "(2000 :: nat) + 8 < 2 ^ 64" "usp ?u \<le> 2 ^ 64" "1 \<le> usp ?u" by simp_all
  note one = calls_reach_kernel[OF i(1,1,4) p(1,2,3,4,5), of kt j0]
  note two = calls_reach_kernel[OF i(2,1,4) p(1,2,3,4,5), of kt j0]
  note none = calls_reach_kernel[OF i(1,1,3) p(1,2,3,4,5), of kt j0]
  show "usp ?u = 4096" by simp
  show "obeyed kt j0 (write_u 1 2000 3) ?u (writing kt 1 2000 3)" using one by blast
  show "obeyed kt j0 (echo_u 1) ?u (ret0 (in_term (setEcho 1)))" using one by simp
  show "answered kt j0 (joinThread_u (-1)) ?u
      (ret0 (with_pid_thread (\<lambda>pid t. kbind (getProcess pid) (\<lambda>pr. joinThread pr t (-1)))))" using two by blast
  show "answered kt j0 (runProcess_u 2000 1 3000 0) ?u
      (started kt 2000 1 3000 (\<lambda>process. [kwhen ((0 :: int) = 0) (on_screen_now process), yield]))" using none by blast
  show "\<exists>c. getch_u ?u = Yield (?u\<lparr>usp := 4095, ucall := c\<rparr>) (\<lambda>v. Done (umem v 4095) (v\<lparr>usp := 4096\<rparr>)) \<and>
      trap kt j0 c = reading kt 0 4095 1 True" using one by simp
qed

end
