(* ===== verification/KeyExcl.thy ===== *)
theory KeyExcl
  imports MutexExcl Keyboard TermProps
begin

text \<open>
  The keyboard against the mutexes: Enter makes the thread of the foreground process ready whatever it is blocked on, so
  a thread that waits for a mutex goes on into the critical section beside the one that is inside.
\<close>

section \<open>The Enter key\<close>

definition ENTER :: u8 where
  "ENTER = 0x1C"

text \<open>The keyboard waits for the first byte of a key, and there is room at the end of its buffer.\<close>

definition types_text :: "kstate \<Rightarrow> bool" where
  "types_text s \<longleftrightarrow> \<not> specialKey (kbd s) \<and> unat (shiftMayus (kbd s)) < 4 \<and> uint (endIndex (terminal s)) < BUFFER_SIZE \<and>
     term_ok (terminal s)"

lemma printc_total: "total (printc c)"
  unfolding printc_def by (rule ends_with) (rule ends_weaken[OF printcWithStyle_total], simp_all)

lemma in_term_ends:
  assumes "ends P m Q" "P (terminal s)"
  shows "\<exists>a t. in_term m s = Done a (s\<lparr>terminal := t\<rparr>) \<and> Q a t"
  using endsD[OF assms] by (auto simp: in_term_def)

lemma kdo_single: "kdo [m] = m"
  by simp

lemma newline_buffered:
  assumes "uint (endIndex (terminal s)) < BUFFER_SIZE" "term_ok (terminal s)"
  shows "\<exists>t. writeBuffer (CHR 0x0A) s = unblockRead (s\<lparr>terminal := t\<rparr>)"
proof -
  let ?m = "kdo [
          kwith (\<lambda>t. kb_write (endIndex t) (CHR 0x0A)),
          kmod (\<lambda>t. t\<lparr>endIndex := succ_ix (endIndex t), kbSize := kbSize t + 1\<rparr>),
          kmod (\<lambda>t. t\<lparr>writeIndex := endIndex t, startIndex := endIndex t\<rparr>),
          echo_char (CHR 0x0A)]"
  let ?P = "\<lambda>t. uint (endIndex t) < BUFFER_SIZE \<and> term_ok t"
  have echo: "total (echo_char c)" for c
    unfolding echo_char_def
    by (rule ends_with) (auto intro!: ends_skip intro: ends_weaken[OF printc_total])
  have "ends ?P (kwith (\<lambda>t. kb_write (endIndex t) (CHR 0x0A))) (\<lambda>_. term_ok)"
    by (auto simp: ends_def kb_write_def term_ok_def)
  moreover have "total (kmod (\<lambda>t. t\<lparr>endIndex := succ_ix (endIndex t), kbSize := kbSize t + 1\<rparr>))"
    "total (kmod (\<lambda>t. t\<lparr>writeIndex := endIndex t, startIndex := endIndex t\<rparr>))"
    by (simp_all add: ends_def term_ok_def)
  ultimately have "ends ?P ?m (\<lambda>_. term_ok)"
    unfolding kdo.simps using echo by (intro ends_bind) (auto intro: ends_skip)
  from in_term_ends[OF this, of s] assms obtain t where "in_term ?m s = Done () (s\<lparr>terminal := t\<rparr>)" by auto
  then show ?thesis by (intro exI[of _ t]) (simp add: writeBuffer_def del: kdo.simps(2) add: kdo.simps(2)[of "in_term _"] kdo_single)
qed

lemma enter_row:
  assumes "row \<in> set scanCodes"
  shows "row ! unat ENTER = CHR 0x0A"
proof -
  have "list_all (\<lambda>row. row ! 28 = CHR 0x0A) scanCodes" by code_simp
  moreover have "unat ENTER = 28" by (simp add: ENTER_def)
  ultimately show ?thesis using assms by (simp add: list_all_iff)
qed

lemma enter_typed:
  assumes "types_text s"
  shows "\<exists>t. keyboardHandler kt ENTER s = unblockRead (s\<lparr>terminal := t\<rparr>)"
proof -
  have c: "unat (shiftMayus (kbd s)) < length scanCodes" using assms by (simp add: types_text_def scanCodes_def)
  have e: "scanCodes ! unat (shiftMayus (kbd s)) ! unat ENTER = CHR 0x0A" by (rule enter_row[OF nth_mem[OF c]])
  have "\<not> is_modifier ENTER" "ENTER \<noteq> SPECIAL_KEY" "ENTER < 0x80"
    by (simp_all add: ENTER_def is_modifier_def LEFT_SHIFT_PRESS_def LEFT_SHIFT_RELEASE_def RIGHT_SHIFT_PRESS_def
        RIGHT_SHIFT_RELEASE_def CAPSLOCK_PRESS_def CAPSLOCK_RELEASE_def CTRL_PRESS_def CTRL_RELEASE_def SPECIAL_KEY_def)
  then have "keyboardHandler kt ENTER s = writeBuffer (CHR 0x0A) s"
    using assms e by (simp add: keyboardHandler_def parseScanCode_def types_text_def Let_def)
  then show ?thesis using newline_buffered[of s] assms by (simp add: types_text_def)
qed

section \<open>The timer after it\<close>

definition tick :: "kstate \<Rightarrow> kstate \<Rightarrow> bool" where
  "tick s s' \<longleftrightarrow> (\<exists>rsp. nextProcess s = Done rsp s')"

lemma tick_resched: "sys_ok q s \<Longrightarrow> tick s s' \<longleftrightarrow> s' = resched s"
  using nextProcess_eq[of s] by (auto simp: tick_def resched_def sys_ok_def threads_ok_def)

lemma ticks_keep:
  assumes "tick\<^sup>*\<^sup>* s s'" "sys_ok idle s"
  shows "sys_ok idle s' \<and> entry s' m = entry s m"
  using assms
proof (induction rule: rtranclp_induct)
  case (step t u)
  then show ?case using tick_resched[of idle t u] sys_ok_resched(1)[of idle t] by simp
qed simp

text \<open>The process of the thread has no other one.\<close>

definition only_thread :: "kstate \<Rightarrow> threadId_t \<Rightarrow> bool" where
  "only_thread s q \<longleftrightarrow> (\<exists>j \<in> set (proc_slots (sched s)). pr_pid (proc_at s j) = tid_pid q \<and>
     set (thread_slots (proc_at s j)) = {tid_thread q})"

text \<open>A thread that is ready gets the processor: every switch brings its process nearer to the front.\<close>

lemma gets_processor:
  assumes "sys_ok q s" "j \<in> set (proc_slots (sched s))" "pr_pid (proc_at s j) = tid_pid q"
    "set (thread_slots (proc_at s j)) = {tid_thread q}"
  shows "\<exists>s'. tick\<^sup>*\<^sup>* s s' \<and> cur_id s' = q"
  using assms
proof (induction "ring_distance j (proc_slots (sched s))" arbitrary: s rule: less_induct)
  case less
  have S: "sched_ok s" "changeLock (sched s) \<noteq> 1" "pids_distinct s" "idle_runs q s"
    using less.prems(1) by (auto simp: sys_ok_def threads_ok_def)
  have front: "cur_id t = q" if "current (sched t) = j" "same_view s t" for t
  proof -
    have "pr_pid (proc_at t j) = tid_pid q" "set (thread_slots (proc_at t j)) = {tid_thread q}"
      using that(2) less.prems(2-4) by (simp_all add: same_view_def)
    moreover have "pr_currentThread (proc_at t j) \<in> set (thread_slots (proc_at t j))" by (simp add: thread_slots_def)
    ultimately show ?thesis using that(1) by (simp add: cur_id_def Let_def)
  qed
  show ?case
  proof (cases "current (sched s) = j")
    case True
    then show ?thesis using front[of s] by (auto simp: same_view_def)
  next
    case False
    then have j: "j \<in> set (tl (proc_slots (sched s)))" using less.prems(2) by (auto simp: proc_slots_def)
    have ready: "has_ready (demote s) j" by (rule ready_slot[OF S(1,3,4) less.prems(2,3)])
    let ?t = "resched s"
    have t: "nextProcess s = Done (th_stack (cur_thread (switched s))) ?t"
      unfolding resched_def by (rule nextProcess_eq[OF S(1,2)])
    have view: "same_view s ?t" by (rule same_view_resched[OF S(1)])
    have step: "tick s ?t" using t by (auto simp: tick_def)
    from switch_progress[OF S(1,2) j ready] t
    consider "current (sched ?t) = j" | "ring_distance j (proc_slots (sched ?t)) < ring_distance j (proc_slots (sched s))"
      by auto
    then show ?thesis
    proof cases
      case 1
      then show ?thesis using step front[OF 1 view] by blast
    next
      case 2
      have "\<exists>s'. tick\<^sup>*\<^sup>* ?t s' \<and> cur_id s' = q"
        by (rule less.hyps[OF 2 sys_ok_resched(1)[OF less.prems(1)]])
          (use view less.prems(2-4) in \<open>simp_all add: same_view_def\<close>)
      then show ?thesis using converse_rtranclp_into_rtranclp[of tick, OF step] by blast
    qed
  qed
qed

section \<open>Properties\<close>

lemma sys_ok_terminal:
  assumes "sys_ok idle s"
  shows "sys_ok idle (s\<lparr>terminal := t\<rparr>)" "addr_of (s\<lparr>terminal := t\<rparr>) q = addr_of s q"
proof -
  have "threads_ok (s\<lparr>terminal := t\<rparr>) = threads_ok s" by (rule threads_ok_cong) simp_all
  then have "threads_ok (s\<lparr>terminal := t\<rparr>)" using assms by (simp add: sys_ok_def)
  note c = sys_ok_cong[OF assms this]
  show "sys_ok idle (s\<lparr>terminal := t\<rparr>)" "addr_of (s\<lparr>terminal := t\<rparr>) q = addr_of s q"
    by (rule c; use assms in \<open>simp add: sys_ok_def state_of_def\<close>)+
qed

text \<open>A thread that is the only one of its process and has been made ready never stops being it.\<close>

lemma woken_sys_ok:
  assumes "sys_ok idle s" "only_thread s q" "addr_of s q = Some a" "addr_of s idle \<noteq> Some a"
  shows "sys_ok q (set_state (tid_pid q) (tid_thread q) READY s)"
    "only_thread (set_state (tid_pid q) (tid_thread q) READY s) q"
proof -
  let ?s = "set_state (tid_pid q) (tid_thread q) READY s"
  note f = sys_ok_set_state[OF assms(1,3,4), of READY]
  have at: "proc_at ?s i = proc_at s i" for i by (simp add: proc_at_def)
  obtain j where j: "j \<in> set (proc_slots (sched s))" "pr_pid (proc_at s j) = tid_pid q"
    "set (thread_slots (proc_at s j)) = {tid_thread q}" using assms(2) by (auto simp: only_thread_def)
  have "lookup s (tid_pid q) = Some j" using assms(1) j(1,2) by (simp add: sys_ok_def lookup_iff)
  then have "a = tn_thread (pr_threads (proc_at s j) (tid_thread q))"
    using assms(3) by (auto simp: addr_of_def thread_at_def split: if_splits)
  then have "idle_runs q ?s"
    unfolding idle_runs_def using j f(5)[of a] by (intro bexI[of _ j]) (simp_all add: at)
  then show "sys_ok q ?s" using f(1) by (simp add: sys_ok_def)
  show "only_thread ?s q" using assms(2) by (simp add: only_thread_def at)
qed

text \<open>C32: The Enter key lets a waiting thread in.  \<open>writeBuffer\<close> calls \<open>unblockRead\<close> at the end of a line, which makes the thread of the
  foreground process ready without asking what it is blocked on.  If that thread waits for a mutex, it is not asleep any
  more although another one is inside and still the holder; the timer gives it the processor if
  it is the only thread of its process; and whenever it has got it, it goes on into the critical section: then two are inside.\<close>

theorem enter_key_breaks_exclusion:
  assumes "mutex_start m users idle s0" "(mstep kt m users)\<^sup>*\<^sup>* (s0, \<lambda>_. Outside) (s, r)"
    "r h = Inside" "r q = Waiting k" "foreground_thread s = addr_of s q" "types_text s"
  shows "\<exists>s1. keyboardHandler kt ENTER s = Done () s1 \<and> h \<noteq> q \<and> asleep s q \<and> \<not> asleep s1 q \<and>
    holder (abs_mutex (entry s1 m)) = Some h \<and>
    (only_thread s q \<longrightarrow> (\<exists>s2. tick\<^sup>*\<^sup>* s1 s2 \<and> cur_id s2 = q)) \<and>
    (\<forall>s2. tick\<^sup>*\<^sup>* s1 s2 \<and> cur_id s2 = q \<longrightarrow> (\<exists>s3 r3. mstep kt m users (s2, r) (s3, r3) \<and>
      r3 q = Inside \<and> r3 h = Inside \<and> holder (abs_mutex (entry s3 m)) = Some h))"
proof -
  have inv: "minv m users idle (s, r)" by (rule minv_reachable[OF assms(2) start_minv[OF assms(1)]])
  note I = minvD[OF inv] and E = exclD[OF minvD(5)[OF inv]]
  have q: "q \<in> users" "asleep s q" "h \<noteq> q" "k = unlock"
    using I(4)[of q] E(3)[OF assms(3)] E(4)[OF assms(4)] E(5) assms(3,4) by auto
  have hold: "holder (abs_mutex (entry s m)) = Some h" using E(3)[OF assms(3)] by (simp add: abs_mutex_def)
  obtain a where a: "addr_of s q = Some a" "addr_of s idle \<noteq> Some a" using clientsD(2)[OF I(2) q(1)] by blast
  obtain t where t: "keyboardHandler kt ENTER s = unblockRead (s\<lparr>terminal := t\<rparr>)" using enter_typed[OF assms(6)] by blast
  let ?s = "s\<lparr>terminal := t\<rparr>"
  let ?s1 = "set_state (tid_pid q) (tid_thread q) READY ?s"
  note T = sys_ok_terminal[OF I(1), of t]
  have b: "addr_of ?s q = Some a" "addr_of ?s idle \<noteq> Some a" using a by (simp_all add: T(2))
  note f = sys_ok_set_state[OF T(1) b, of READY]
  have e1: "entry ?s1 m = entry s m" by (simp add: entry_def)
  have "state_of ?s a = BLOCKED" using q(2) a(1) by (simp add: asleep_def state_of_def)
  moreover have "foreground_thread ?s = addr_of ?s q" using assms(5) by (simp add: foreground_thread_def T(2) cong: if_cong option.case_cong)
  moreover have "threads_ok ?s" using T(1) by (simp add: sys_ok_def)
  ultimately have "keyboardHandler kt ENTER s = Done () ?s1"
    using unblockRead_app[of ?s a q] b(1) t by simp
  moreover have "\<not> asleep ?s1 q" using f(3)[of q] b(1) by simp
  moreover have "\<exists>s2. tick\<^sup>*\<^sup>* ?s1 s2 \<and> cur_id s2 = q" if only: "only_thread s q"
  proof -
    have "only_thread ?s q" using only by (simp add: only_thread_def proc_at_def)
    note w = woken_sys_ok[OF T(1) this b]
    then show ?thesis using gets_processor[OF w(1)] by (auto simp: only_thread_def)
  qed
  moreover have "\<exists>s3 r3. mstep kt m users (s2, r) (s3, r3) \<and> r3 q = Inside \<and> r3 h = Inside \<and> holder (abs_mutex (entry s3 m)) = Some h"
    if s2: "tick\<^sup>*\<^sup>* ?s1 s2" "cur_id s2 = q" for s2
  proof -
    have k: "sys_ok idle s2" "entry s2 m = entry s m" using ticks_keep[OF s2(1) f(1), of m] e1 by simp_all
    then have "unlock s2 = Done () (set_lock 0 s2)" by (simp add: sys_ok_def unlock_app)
    then have "mstep kt m users (s2, r) (set_lock 0 s2, r(q := Inside))"
      using mstep.resume[of s2 q r k "set_lock 0 s2" kt m users] s2(2) assms(4) q(4) by simp
    moreover have "(r(q := Inside)) h = Inside" using assms(3) by simp
    moreover have "holder (abs_mutex (entry (set_lock 0 s2) m)) = Some h" using hold k(2) by simp
    ultimately show ?thesis by (intro exI[of _ "set_lock 0 s2"] exI[of _ "r(q := Inside)"]) simp
  qed
  ultimately show ?thesis using q(2,3) hold e1 by (intro exI[of _ ?s1]) simp
qed

theorem enter_key_breaks_exclusion_witness:
  "\<forall>s kt. \<exists>s0 s r s1 s2 s3 r3. (mstep kt 3 {tid 1 0, tid 2 0})\<^sup>*\<^sup>* (ex3_state s0, \<lambda>_. Outside) (s, r) \<and>
    r (tid 2 0) = Waiting unlock \<and> keyboardHandler kt ENTER s = Done () s1 \<and> tick\<^sup>*\<^sup>* s1 s2 \<and>
    mstep kt 3 {tid 1 0, tid 2 0} (s2, r) (s3, r3) \<and> r3 (tid 1 0) = Inside \<and> r3 (tid 2 0) = Inside"
proof (intro allI)
  fix s :: kstate and kt
  let ?U = "{tid 1 0, tid 2 0}"
  let ?s0 = "s\<lparr>terminal := (terminal s)\<lparr>endIndex := 0, cursorX := 0, cursorY := 0, videoCursorX := 0, videoCursorY := 0\<rparr>,
    kbd := \<lparr>shiftMayus = 0, leftShift = False, rightShift = False, specialKey = False, ctrl = False\<rparr>\<rparr>"
  obtain u r where u: "(mstep kt 3 ?U)\<^sup>*\<^sup>* (ex3_state ?s0, \<lambda>_. Outside) (u, r)" "r (tid 1 0) = Inside" "r (tid 2 0) = Waiting unlock"
    "foreground_thread u = addr_of u (tid 2 0)" "same_view (ex3_state ?s0) u" "terminal u = terminal ?s0" "kbd u = kbd ?s0"
    by (rule ex3_run)
  have "types_text u" by (simp add: types_text_def u(6,7) term_ok_def WIDTH_def HEIGHT_def BUFFER_SIZE_def)
  note broken = enter_key_breaks_exclusion[OF ex3_start u(1-4) this]
  have "only_thread u (tid 2 0)"
    using u(5) by (simp add: only_thread_def same_view_def ex3_slots ex_proc_fields)
  with broken obtain s1 s2 where s2: "keyboardHandler kt ENTER u = Done () s1" "tick\<^sup>*\<^sup>* s1 s2" "cur_id s2 = tid 2 0"
    "\<forall>s2. tick\<^sup>*\<^sup>* s1 s2 \<and> cur_id s2 = tid 2 0 \<longrightarrow> (\<exists>s3 r3. mstep kt 3 ?U (s2, r) (s3, r3) \<and>
      r3 (tid 2 0) = Inside \<and> r3 (tid 1 0) = Inside \<and> holder (abs_mutex (entry s3 3)) = Some (tid 1 0))" by blast
  then obtain s3 r3 where "mstep kt 3 ?U (s2, r) (s3, r3)" "r3 (tid 2 0) = Inside" "r3 (tid 1 0) = Inside" by blast
  then show "\<exists>s0 s r s1 s2 s3 r3. (mstep kt 3 ?U)\<^sup>*\<^sup>* (ex3_state s0, \<lambda>_. Outside) (s, r) \<and>
    r (tid 2 0) = Waiting unlock \<and> keyboardHandler kt ENTER s = Done () s1 \<and> tick\<^sup>*\<^sup>* s1 s2 \<and>
    mstep kt 3 ?U (s2, r) (s3, r3) \<and> r3 (tid 1 0) = Inside \<and> r3 (tid 2 0) = Inside"
    using u(1,3) s2(1,2) by blast
qed

end
