(* ===== verification/Spec2Isabelle.thy ===== *)
theory Spec2Isabelle
  imports ThreadProps SemRuns HashProps ViewProps HashTest Cinema Kernel BuddyCorrect LibCorrect SchedProps MutexProps SemProps PipeProps TimerProps DeviceProps MemoryProps ChannelProps ProdCons Snek PackerProps BmfsProps Linked KeyExcl
begin

text \<open>
  The operating system of \<open>src/TP2\<close>: a 64-bit kernel, the C library and the programs that run on it, and the two
  host tools that build its disk image; and the two host programs of \<open>src/TP1\<close> and \<open>src/TP4\<close>.

  \<^bold>\<open>The program.\<close>  The kernel (\<open>Kernel/\<close>) manages memory in pages with a buddy allocator, runs processes with one or more
  threads under a round-robin scheduler, and offers mutexes, counting semaphores, sleeping, pipes and message
  channels through a table of 34 system calls; its devices are a text screen, a keyboard, a clock and a timer.
  The lower half of the lock stack is cyclic: taking a mutex may kill the calling thread, killing a thread takes
  mutexes.  User programs (\<open>Userland/\<close>) are linked with a small C library whose every effect is a system call.
  \<open>Toolchain/ModulePacker\<close> puts the kernel and the programs in one image, which the loader of the kernel takes apart again,
  and \<open>Bootloader/BMFS\<close> writes such an image into the file system of a disk.

  \<^bold>\<open>Theories of the kernel\<close> (file of \<open>Kernel/\<close>: theory, and what its lemmas show).
    \<^item> \<open>Prelude\<close>: addresses, byte memory, C division, first-fit searches (locale \<open>slot_search\<close>), bounded loops.
    \<^item> \<open>KMonad\<close>: the monad of kernel code; \<open>KState\<close>: the types of \<open>include/*.h\<close> and the static variables of each file,
      one record per file, collected in \<open>kstate\<close>.
    \<^item> \<open>buddyMemoryAllocator.c\<close>: \<open>Buddy\<close> (the tree), \<open>Memory\<close> (the entry points under the mutex); \<open>BuddyTree\<close>,
      \<open>BuddyCorrect\<close>, \<open>MemoryProps\<close>: the tree invariant, live blocks are disjoint in every reachable heap, search and release are
      exact (locale \<open>page_allocator\<close>).
    \<^item> \<open>lib.c\<close>: \<open>Lib\<close>; \<open>LibCorrect\<close>: the word-wise copy is the byte-wise one, numbers are read back.
    \<^item> \<open>scheduler.c\<close>: \<open>Sched\<close>, with the two functions of \<open>threads.c\<close> it needs; \<open>Ring\<close>, \<open>SchedCorrect\<close>, \<open>SchedProps\<close>: both searches
      are round robin (locale \<open>round_robin\<close>), every ready process comes nearer to the front, and a process added is the next
      to run (locale \<open>growing_round_robin\<close>, which the threads of a process satisfy too: \<open>ThreadProps\<close>).
    \<^item> \<open>mutex.c\<close>: \<open>Mutex\<close>; \<open>MutexCorrect\<close>, \<open>MutexProps\<close>: refinement of an abstract lock with a queue of waiters;
      \<open>MutexExcl\<close>: mutual exclusion in every reachable state of users, scheduler and timer; \<open>KeyExcl\<close>: how the Enter key breaks
      it, from the scan code through \<open>writeBuffer\<close> and \<open>unblockRead\<close> to the second thread inside.
    \<^item> \<open>semaphore.c\<close>: \<open>Semaphore\<close>; \<open>SemCorrect\<close>, \<open>SemProps\<close>: refinement of a counting semaphore; \<open>SemRuns\<close>: over every run of
      users, scheduler and timer no permit is lost and nobody sleeps beside one.
    \<^item> \<open>threads.c\<close> and \<open>process.c\<close>: \<open>Process\<close>, which also ties the recursion of \<open>mutexDown\<close> through \<open>killThread\<close>;
      \<open>ProcessProps\<close>: taking a process out of the ring keeps the invariant and gives back its memory, and ends in a fault when
      it is the one in use.
    \<^item> \<open>timer.c\<close>: \<open>Timer\<close>, \<open>TimerProps\<close>; \<open>pipes.c\<close>: \<open>Pipes\<close>, \<open>PipeCorrect\<close>, \<open>PipeProps\<close> (a pipe holds the sequence of bytes in
      flight); \<open>channels.c\<close>: \<open>Channels\<close>, \<open>ChannelProps\<close> (sending appends to a list of messages; receiving leaves the message it
      releases at its head).
    \<^item> \<open>video.c\<close> and \<open>terminal.c\<close>: \<open>Terminal\<close>, \<open>TermProps\<close> (every operation returns and stays on the screen); \<open>keyboard.c\<close>:
      \<open>Keyboard\<close>; \<open>rtc.c\<close>: \<open>Rtc\<close>; both in \<open>DeviceProps\<close> with the interrupt gates.
    \<^item> \<open>MMU.c\<close>, the module table and the arguments of programs: \<open>MMU\<close>; \<open>sysCalls.c\<close>: \<open>SysCalls\<close>; \<open>interruptions.c\<close> and
      \<open>kernel.c\<close>: \<open>Kernel\<close>.

  \<^bold>\<open>Theories of the user programs and the tools.\<close>
    \<^item> \<open>User\<close> (\<open>string.c\<close>, \<open>stdlib.c\<close>) and \<open>Stdio\<close> (\<open>stdio.c\<close>, \<open>time.c\<close>, \<open>ipc.c\<close>, \<open>process.c\<close>): the C library, with
      \<open>LibcProps\<close>; a function that exists in the kernel too has the suffix \<open>_u\<close>.
    \<^item> \<open>Linked\<close>: a program on top of the kernel.  \<open>trap\<close> is \<open>int 0x80\<close>, \<open>linked\<close> runs a program with each call answered by
      \<open>sysCallHandler\<close> over the memory they share: every function of the C library with an \<open>int 0x80\<close> of its own reaches the
      kernel function it is meant for and returns its answer, and \<open>printf\<close> leaves the text of its format on the screen.
    \<^item> \<open>Programs\<close>: the loader, the utilities, the tests and the shell; \<open>ProdCons\<close>: both producer and consumer
      programs; \<open>Snek\<close>: the game.
    \<^item> \<open>Packer\<close>, \<open>PackerProps\<close>: \<open>ModulePacker/main.c\<close> and \<open>moduleLoader.c\<close>; what one writes the other loads.
    \<^item> \<open>Bmfs\<close>, \<open>BmfsProps\<close>: \<open>bmfs.c\<close>; where files are placed, and that they are read back.

  \<^bold>\<open>Theories of the host programs.\<close>  \<open>src/TP1\<close> hashes files: a master process hands them to four slaves through pipes, collects
  their answers in a file and in a shared memory segment, from which a viewer prints them.
    \<^item> \<open>Host\<close>: the POSIX calls, and the predicate \<open>under\<close> for a program that runs beside others; \<open>HashApp\<close>: \<open>application.c\<close>,
      \<open>applicationLib.c\<close>, \<open>fileListParser.c\<close>, \<open>sharedMemory.c\<close>, \<open>slave.c\<close>, \<open>view.c\<close>; \<open>HashTest\<close>: \<open>test.c\<close>.
    \<^item> \<open>SlaveProps\<close>: a slave takes its input apart as the master put it together, and one answer through the buffers of the
      master; \<open>HashFlow\<close>: the invariant that says which file is where, kept by every step of the master and of the others;
      \<open>HashProps\<close>: the start, the end and a whole run; \<open>ViewProps\<close>: the viewer.
    \<^item> \<open>Cinema\<close>: \<open>database.c\<close>, \<open>sockets.c\<close> and \<open>server.c\<close> of \<open>src/TP4\<close>, with SQLite as a parameter.

  \<^bold>\<open>How code is modelled.\<close>
    \<^item> A function is a state transformer of the type \<open>('s, 'a) K\<close>.  It is \<open>Done\<close>; or \<open>Yield\<close>, when it gives up the
      processor with the rest of its work as a continuation; or \<open>Fault\<close>, when it dereferences an invalid pointer, leaves an array,
      does not return or does something else C leaves undefined.  Interrupts are off inside of the kernel, so the code
      between two yields is one step, and a property of the interleaving is a property of the steps.
    \<^item> Objects live in stores by type and address, bytes in a memory of their own; \<open>procs\<close> and \<open>thrs\<close> keep their contents
      after they were freed, as memory does.  The stack pointer of the processor is \<open>cpu_rsp\<close>.
    \<^item> \<open>uint8_t\<close>, \<open>uint16_t\<close>, and the 64-bit fields of the disk are words; an \<open>int\<close> is an \<open>int\<close>, with \<open>to_int32\<close>
      where the code converts an unsigned number; addresses are \<open>nat\<close>, with 0 as NULL.
    \<^item> \<open>testAndSetLock\<close> of \<open>asm/libasm.asm\<close> exchanges 8 bytes although it is given an \<open>int\<close>: the \<open>int\<close> behind it becomes 0 too.
      Behind the \<open>value\<close> of a mutex that is the \<open>pid\<close> of the creator of the next entry (\<open>set_behind\<close>; \<open>mutexDown_refines\<close> says
      what it does to the table); behind the last entry is \<open>adminMutex\<close>, which is 0, and behind \<open>lockQuantumExceded\<close> is padding.
    \<^item> An operation that may take a mutex has the function \<open>kt\<close> as its first argument, which kills a thread.
    \<^item> A user program runs over \<open>ustate\<close>: \<open>int80\<close> stores the number and arguments of the call and yields; the kernel
      answers in \<open>uret\<close> and in memory.
    \<^item> What is decided by the linker or passed in as an entry point (addresses of sections, functions whose address is
      taken) and what C leaves uninitialised is an argument; floating point is the parameter \<open>float_ops\<close>.

  \<^bold>\<open>Loops.\<close>  A loop over an array is structural recursion.  A loop that may not end is \<open>partial_function (option)\<close>, or has
  fuel that is exact: \<open>SCREEN_FUEL\<close> is one more than the cells of the screen, \<open>LIST_FUEL\<close> one more than the pages there are for
  the nodes of a list, walking the links of a table of n slots takes n rounds or never ends, \<open>ITOA_FUEL\<close> is one more than the
  digits of an \<open>int\<close> in base 2.  Running out of it is \<open>Fault Diverges\<close>, and the properties prove that it does not happen
  (\<open>terminal_total\<close>) or that it does (\<open>releaseSemaphore_diverges\<close>).  Main loops that are meant to run for ever are observed for
  a number of rounds, which is their argument.  \<open>killThread\<close> has the depth of its recursion as an argument.
  The users of a mutex in \<open>mutex_exclusion\<close> are at most 31, since 30 threads can wait beside the one inside; \<open>mutexDown\<close> kills
  the thread after them.  The users of a semaphore in \<open>semaphore_conservation\<close> are at most 30, since none of them needs to be inside.

  \<^bold>\<open>Not modelled.\<close>  Assembly (the boot loader Pure64, \<open>Kernel/asm\<close>, \<open>Userland/Libc/asm\<close>): the switch of stacks, the port
  accesses and \<open>int 0x80\<close> are modelled by their effect where C code uses them.  \<open>linked\<close> covers calls that return without giving
  up the processor.  \<open>sqlite3.c\<close> in \<open>src/TP4\<close> is a library that is
  only called, \<open>client.c\<close> beside it does not compile.
\<close>

end
